(* ===== verification/Prelude.thy ===== *)
theory Prelude
  imports Main "HOL-Library.Word" "HOL-Library.Char_ord" "HOL-Library.List_Lexorder"
begin

text \<open>
  Shared vocabulary of the development: the widths of the C++ integers, byte strings and the
  few \<^verbatim>\<open>std::string_view\<close> operations the sources use, the decimal text of
  \<^verbatim>\<open>std::to_string\<close> and \<^verbatim>\<open>std::from_chars\<close>, and the lemma collections of
  the components. A \<^verbatim>\<open>std::string\<close> is a \<^typ>\<open>string\<close>: HOL's characters are the
  256 byte values, and the order on them is the order of unsigned bytes.
\<close>

named_theorems text_simps \<open>rewriting of string searches and number texts\<close>
named_theorems codec_simps \<open>round trips of encoders and decoders\<close>
named_theorems inv_intros \<open>preservation of component invariants\<close>

section \<open>Machine integers\<close>

type_synonym u8 = "8 word"
type_synonym u16 = "16 word"
type_synonym u32 = "32 word"
type_synonym u64 = "64 word"

abbreviation u32_max :: nat where
  "u32_max \<equiv> 4294967295"

abbreviation u64_max :: nat where
  "u64_max \<equiv> 18446744073709551615"

lemma unat_u32_le [simp]: "unat (w :: u32) \<le> u32_max"
  using unsigned_less[of w, where 'a = nat] by simp

lemma unat_u64_le [simp]: "unat (w :: u64) \<le> u64_max"
  using unsigned_less[of w, where 'a = nat] by simp

lemma unat_u64_minus_one [simp]: "unat (- 1 :: u64) = u64_max"
  by (simp add: unsigned_minus_1_eq_mask mask_eq_exp_minus_1)

lemma unat_ucast_u32_u64 [simp]: "unat (ucast (w :: u32) :: u64) = unat w"
proof -
  have "unat w < 2 ^ 64" by (rule le_less_trans[OF unat_u32_le]) simp
  then show ?thesis by (simp add: unsigned_ucast_eq take_bit_nat_eq_self)
qed

lemma unat_diff_u64: "(b :: u64) \<le> a \<Longrightarrow> unat (a - b) = unat a - unat b"
  by (simp add: unat_sub_if_size word_le_nat_alt)

lemma unat_word_of_nat_u64: "n \<le> u64_max \<Longrightarrow> unat (word_of_nat n :: u64) = n"
  by (simp add: unsigned_of_nat take_bit_nat_eq_self)

text \<open>\<^verbatim>\<open>static_cast<int>\<close> of a \<^verbatim>\<open>uint32\<close> is \<^const>\<open>sint\<close>.\<close>

lemma sint_u32_nonneg: "0 \<le> sint (w :: u32) \<Longrightarrow> sint w = int (unat w)"
  using uint_sint[of w] sint_lt[of w] by (simp add: take_bit_int_eq_self)

lemma sint_u32_small: "unat (w :: u32) < 2147483648 \<Longrightarrow> sint w = int (unat w)"
proof -
  assume "unat w < 2147483648"
  then have "int (unat w) < 2147483648" by linarith
  then have "uint w < 2 ^ 31" by simp
  moreover have "- (2 ^ 31) \<le> uint w" by (rule order_trans[OF _ unsigned_greater_eq]) simp
  ultimately show ?thesis using signed_take_bit_int_eq_self[of 31 "uint w"] by (simp add: sint_uint)
qed

text \<open>A guarded \<^verbatim>\<open>uint64\<close> addition or multiplication is exact.\<close>

lemma unat_add_u64:
  fixes a b :: u64
  assumes "unat a \<le> u64_max - unat b"
  shows "unat (a + b) = unat a + unat b"
proof -
  have "unat a + unat b < 2 ^ LENGTH(64)"
    using assms unat_u64_le[of b] by (simp add: le_diff_conv2)
  then show ?thesis by (rule unat_add_lem[THEN iffD1])
qed

lemma unat_mult_u64:
  fixes a b :: u64
  assumes "unat a * unat b \<le> u64_max"
  shows "unat (a * b) = unat a * unat b"
proof -
  have "unat a * unat b < 2 ^ LENGTH(64)" using assms by simp
  then show ?thesis by (rule unat_mult_lem[THEN iffD1])
qed

section \<open>Searching byte strings\<close>

text \<open>\<^verbatim>\<open>string_view::find(char)\<close>: the first position, \<^const>\<open>None\<close> for \<^verbatim>\<open>npos\<close>.\<close>

primrec find_char :: "char \<Rightarrow> string \<Rightarrow> nat option" where
  "find_char c [] = None"
| "find_char c (x # xs) = (if x = c then Some 0 else map_option Suc (find_char c xs))"

text \<open>\<^verbatim>\<open>string_view::rfind(char)\<close>: the last position.\<close>

definition rfind_char :: "char \<Rightarrow> string \<Rightarrow> nat option" where
  "rfind_char c s = map_option (\<lambda>i. length s - Suc i) (find_char c (rev s))"

text \<open>\<^verbatim>\<open>string_view::rfind(pattern)\<close> for a non-empty pattern.\<close>

definition rfind_str :: "string \<Rightarrow> string \<Rightarrow> nat option" where
  "rfind_str pat s =
     (let hits = filter (\<lambda>i. take (length pat) (drop i s) = pat) [0..<length s]
      in if hits = [] then None else Some (last hits))"

definition starts_with :: "string \<Rightarrow> string \<Rightarrow> bool" where
  "starts_with s pre \<longleftrightarrow> take (length pre) s = pre"

definition ends_with :: "string \<Rightarrow> string \<Rightarrow> bool" where
  "ends_with s suf \<longleftrightarrow> length suf \<le> length s \<and> drop (length s - length suf) s = suf"

lemma find_char_None [text_simps]: "find_char c s = None \<longleftrightarrow> c \<notin> set s"
  by (induction s) auto

lemma find_char_append [text_simps]:
  "c \<notin> set a \<Longrightarrow> find_char c (a @ c # b) = Some (length a)"
  by (induction a) auto

lemma find_char_SomeD:
  "find_char c s = Some i \<Longrightarrow>
   i < length s \<and> s ! i = c \<and> c \<notin> set (take i s) \<and> s = take i s @ c # drop (Suc i) s"
proof (induction s arbitrary: i)
  case (Cons x xs)
  show ?case
  proof (cases "x = c")
    case False
    with Cons.prems obtain j where "i = Suc j" and "find_char c xs = Some j" by auto
    with Cons.IH[of j] False show ?thesis by auto
  qed (use Cons.prems in auto)
qed simp

lemma find_char_less: "find_char c s = Some i \<Longrightarrow> i < length s"
  by (simp add: find_char_SomeD)

lemma rfind_char_append [text_simps]:
  assumes "c \<notin> set b"
  shows "rfind_char c (a @ c # b) = Some (length a)"
proof -
  have "find_char c (rev b @ c # rev a) = Some (length b)"
    using find_char_append[of c "rev b" "rev a"] assms by simp
  then show ?thesis by (simp add: rfind_char_def)
qed

lemma starts_with_append [simp]: "starts_with (pre @ s) pre"
  by (simp add: starts_with_def)

lemma starts_withD: "starts_with s pre \<Longrightarrow> s = pre @ drop (length pre) s"
  by (metis append_take_drop_id starts_with_def)

section \<open>Decimal text\<close>

definition is_digit :: "char \<Rightarrow> bool" where
  "is_digit c \<longleftrightarrow> CHR ''0'' \<le> c \<and> c \<le> CHR ''9''"

definition digit_char :: "nat \<Rightarrow> char" where
  "digit_char d = char_of (48 + d)"

definition digit_val :: "char \<Rightarrow> nat" where
  "digit_val c = of_char c - 48"

text \<open>\<^verbatim>\<open>std::to_string\<close> of an unsigned value.\<close>

fun dec :: "nat \<Rightarrow> string" where
  "dec n = (if n < 10 then [digit_char n] else dec (n div 10) @ [digit_char (n mod 10)])"

declare dec.simps [simp del]

definition dec_int :: "int \<Rightarrow> string" where
  "dec_int i = (if i < 0 then CHR ''-'' # dec (nat (- i)) else dec (nat i))"

definition digits_val :: "string \<Rightarrow> nat" where
  "digits_val s = foldl (\<lambda>a c. a * 10 + digit_val c) 0 s"

text \<open>
  \<^verbatim>\<open>std::from_chars\<close> over a whole text, as the sources always use it: the result is
  used only when every byte was consumed. An unsigned target takes digits only; a value above
  the target's maximum is \<^verbatim>\<open>result_out_of_range\<close>. A signed target also takes one
  leading minus sign.
\<close>

definition from_chars :: "nat \<Rightarrow> string \<Rightarrow> nat option" where
  "from_chars limit s =
     (if s = [] \<or> \<not> list_all is_digit s then None
      else if digits_val s > limit then None else Some (digits_val s))"

definition from_chars_int :: "string \<Rightarrow> int option" where
  "from_chars_int s =
     (if s \<noteq> [] \<and> hd s = CHR ''-'' then map_option (\<lambda>n. - int n) (from_chars (2 ^ 31) (tl s))
      else map_option int (from_chars (2 ^ 31 - 1) s))"

definition from_chars_u32 :: "string \<Rightarrow> u32 option" where
  "from_chars_u32 s = map_option word_of_nat (from_chars u32_max s)"

definition from_chars_u64 :: "string \<Rightarrow> u64 option" where
  "from_chars_u64 s = map_option word_of_nat (from_chars u64_max s)"

definition dec_u32 :: "u32 \<Rightarrow> string" where
  "dec_u32 w = dec (unat w)"

definition dec_u64 :: "u64 \<Rightarrow> string" where
  "dec_u64 w = dec (unat w)"

lemma of_char_digit_char: "d < 10 \<Longrightarrow> (of_char (digit_char d) :: nat) = 48 + d"
  by (simp add: digit_char_def of_char_of)

lemma digit_val_digit_char: "d < 10 \<Longrightarrow> digit_val (digit_char d) = d"
  by (simp add: digit_val_def of_char_digit_char)

lemma is_digit_digit_char: "d < 10 \<Longrightarrow> is_digit (digit_char d)"
  by (simp add: is_digit_def less_eq_char_def of_char_digit_char)

lemma digits_val_snoc: "digits_val (s @ [c]) = digits_val s * 10 + digit_val c"
  by (simp add: digits_val_def)

lemma dec_not_Nil [simp]: "dec n \<noteq> []"
  by (subst dec.simps) simp

lemma digits_val_dec [codec_simps]: "digits_val (dec n) = n"
proof (induction n rule: dec.induct)
  case (1 n)
  show ?case
  proof (cases "n < 10")
    case True
    then show ?thesis
      by (subst dec.simps) (simp add: digits_val_def digit_val_digit_char)
  next
    case False
    with 1 have "digits_val (dec (n div 10)) = n div 10" by simp
    then show ?thesis
      using False by (subst dec.simps) (simp add: digits_val_snoc digit_val_digit_char)
  qed
qed

lemma dec_digits: "list_all is_digit (dec n)"
proof (induction n rule: dec.induct)
  case (1 n)
  then show ?case by (subst dec.simps) (auto simp: is_digit_digit_char)
qed

lemma is_digit_dec: "c \<in> set (dec n) \<Longrightarrow> is_digit c"
  using dec_digits[of n] by (simp add: list_all_iff)

lemma from_chars_dec [codec_simps]: "n \<le> limit \<Longrightarrow> from_chars limit (dec n) = Some n"
  by (simp add: from_chars_def dec_digits digits_val_dec)

lemma from_chars_u32_dec [codec_simps]: "from_chars_u32 (dec_u32 w) = Some w"
  by (simp add: from_chars_u32_def dec_u32_def from_chars_dec)

lemma from_chars_u64_dec [codec_simps]: "from_chars_u64 (dec_u64 w) = Some w"
  by (simp add: from_chars_u64_def dec_u64_def from_chars_dec)

lemma hd_dec_not_minus: "hd (dec n) \<noteq> CHR ''-''"
proof -
  have "is_digit (hd (dec n))" by (rule is_digit_dec[of _ n]) simp
  then show ?thesis by (auto simp: is_digit_def)
qed

lemma from_chars_int_dec [codec_simps]:
  assumes "- (2 ^ 31) \<le> i" and "i < 2 ^ 31"
  shows "from_chars_int (dec_int i) = Some i"
proof (cases "i < 0")
  case True
  then have "nat (- i) \<le> 2 ^ 31" using assms(1) by simp
  with True show ?thesis
    by (simp add: from_chars_int_def dec_int_def from_chars_dec)
next
  case False
  then have "nat i \<le> 2 ^ 31 - 1" using assms(2) by simp
  with False show ?thesis
    by (simp add: from_chars_int_def dec_int_def from_chars_dec hd_dec_not_minus)
qed

lemma from_chars_le: "from_chars limit s = Some n \<Longrightarrow> n \<le> limit"
  by (auto simp: from_chars_def split: if_splits)

text \<open>Separators never occur in number texts.\<close>

lemma dec_no_sep [text_simps]: "\<not> is_digit c \<Longrightarrow> c \<notin> set (dec n)"
  by (auto dest: is_digit_dec)

lemma dec_int_no_sep [text_simps]:
  "\<not> is_digit c \<Longrightarrow> c \<noteq> CHR ''-'' \<Longrightarrow> c \<notin> set (dec_int i)"
  by (auto simp: dec_int_def dest: is_digit_dec)

lemma not_is_digit_seps [simp]:
  "\<not> is_digit (CHR 0x0A)" "\<not> is_digit (CHR ''='')" "\<not> is_digit (CHR '':'')"
  "\<not> is_digit (CHR ''-'')" "\<not> is_digit (CHR '','')" "\<not> is_digit (CHR '' '')"
  by (simp_all add: is_digit_def)

section \<open>Character classes\<close>

definition is_hex :: "char \<Rightarrow> bool" where
  "is_hex c \<longleftrightarrow> (CHR ''0'' \<le> c \<and> c \<le> CHR ''9'') \<or> (CHR ''a'' \<le> c \<and> c \<le> CHR ''f'')
     \<or> (CHR ''A'' \<le> c \<and> c \<le> CHR ''F'')"

text \<open>\<^verbatim>\<open>hex_string\<close> of \<^verbatim>\<open>formation.hpp\<close>.\<close>

definition hex_string :: "string \<Rightarrow> nat \<Rightarrow> bool" where
  "hex_string v n \<longleftrightarrow> length v = n \<and> list_all is_hex v"

text \<open>\<^verbatim>\<open>std::tolower\<close> in the C locale, mapped over a string.\<close>

definition to_lower :: "char \<Rightarrow> char" where
  "to_lower c = (if CHR ''A'' \<le> c \<and> c \<le> CHR ''Z'' then char_of (of_char c + (32 :: nat)) else c)"

definition lowercase :: "string \<Rightarrow> string" where
  "lowercase s = map to_lower s"

lemma not_is_hex_seps [simp]:
  "\<not> is_hex (CHR 0x0A)" "\<not> is_hex (CHR ''='')" "\<not> is_hex (CHR '':'')"
  by (simp_all add: is_hex_def)

lemma hex_string_clean [text_simps]: "hex_string v n \<Longrightarrow> \<not> is_hex c \<Longrightarrow> c \<notin> set v"
  by (auto simp: hex_string_def list_all_iff)

section \<open>State machines with an invariant\<close>

text \<open>
  The contract of a stateful component: its start state satisfies the invariant and every step
  keeps it. The client's fact is that the invariant holds in every reachable state.
\<close>

locale invariant_system =
  fixes start :: "'s \<Rightarrow> bool"
    and step :: "'s \<Rightarrow> 's \<Rightarrow> bool"
    and inv :: "'s \<Rightarrow> bool"
  assumes start_inv: "start s \<Longrightarrow> inv s"
    and step_inv: "inv s \<Longrightarrow> step s t \<Longrightarrow> inv t"
begin

lemma steps_inv: "step\<^sup>*\<^sup>* s t \<Longrightarrow> inv s \<Longrightarrow> inv t"
  by (induction rule: rtranclp_induct) (auto intro: step_inv)

lemma reachable_inv: "start s \<Longrightarrow> step\<^sup>*\<^sup>* s t \<Longrightarrow> inv t"
  by (blast intro: steps_inv start_inv)

end

section \<open>Bounded tables of records\<close>

text \<open>
  \<^verbatim>\<open>records.erase(std::min_element(...))\<close>: the first record with the smallest stamp goes.
\<close>

fun erase_min :: "('r \<Rightarrow> int) \<Rightarrow> 'r list \<Rightarrow> 'r list" where
  "erase_min f [] = []"
| "erase_min f (x # xs) = (if list_all (\<lambda>y. f x \<le> f y) xs then xs else x # erase_min f xs)"

text \<open>A change through the iterator that \<^verbatim>\<open>std::find_if\<close> returned.\<close>

fun update_first :: "('r \<Rightarrow> bool) \<Rightarrow> ('r \<Rightarrow> 'r) \<Rightarrow> 'r list \<Rightarrow> 'r list" where
  "update_first P f [] = []"
| "update_first P f (x # xs) = (if P x then f x # xs else x # update_first P f xs)"

lemma erase_min_length: "xs \<noteq> [] \<Longrightarrow> length (erase_min f xs) = length xs - 1"
proof (induction xs)
  case (Cons x xs)
  then show ?case by (cases xs) auto
qed simp

lemma erase_min_subset: "set (erase_min f xs) \<subseteq> set xs"
  by (induction xs) auto

lemma erase_min_distinct: "distinct (map g xs) \<Longrightarrow> distinct (map g (erase_min f xs))"
proof (induction xs)
  case (Cons x xs)
  have "g ` set (erase_min f xs) \<subseteq> g ` set xs" by (intro image_mono erase_min_subset)
  with Cons show ?case by auto
qed simp

text \<open>What is erased is oldest: whatever is missing afterwards is no newer than any record.\<close>

lemma erase_min_oldest: "x \<in> set xs \<Longrightarrow> x \<notin> set (erase_min f xs) \<Longrightarrow> y \<in> set xs \<Longrightarrow> f x \<le> f y"
proof (induction xs arbitrary: y)
  case (Cons a xs)
  show ?case
  proof (cases "list_all (\<lambda>y. f a \<le> f y) xs")
    case True
    then show ?thesis using Cons.prems by (auto simp: list_all_iff)
  next
    case False
    then obtain z where z: "z \<in> set xs" "f z < f a" by (auto simp: list_all_iff not_le)
    have "x \<in> set xs" "x \<notin> set (erase_min f xs)" using Cons.prems False by auto
    then have "f x \<le> f w" if "w \<in> set xs" for w using Cons.IH that by blast
    then show ?thesis using Cons.prems(3) z by (auto dest: order_trans[OF _ less_imp_le])
  qed
qed simp

lemma update_first_keys:
  "(\<And>x. P x \<Longrightarrow> g (f x) = g x) \<Longrightarrow> map g (update_first P f xs) = map g xs"
  by (induction xs) auto

lemma update_first_length [simp]: "length (update_first P f xs) = length xs"
  by (induction xs) auto

lemma update_first_set:
  "y \<in> set (update_first P f xs) \<Longrightarrow> y \<in> set xs \<or> (\<exists>x \<in> set xs. P x \<and> y = f x)"
  by (induction xs) (auto split: if_splits)

text \<open>
  The contract of a table with one record per key and a bounded number of records: adding a
  record for a new key, dropping the oldest one when full, and changing a record in place keep
  both bounds.
\<close>

locale bounded_table =
  fixes key :: "'r \<Rightarrow> 'k"
    and stamp :: "'r \<Rightarrow> int"
    and cap :: nat
  assumes cap_pos: "0 < cap"
begin

definition table_ok :: "'r list \<Rightarrow> bool" where
  "table_ok rs \<longleftrightarrow> length rs \<le> cap \<and> distinct (map key rs)"

lemma table_ok_add:
  assumes "table_ok rs" and "key r \<notin> key ` set rs"
  shows "table_ok ((if length rs \<ge> cap then erase_min stamp rs else rs) @ [r])"
proof -
  have "key ` set (erase_min stamp rs) \<subseteq> key ` set rs" by (intro image_mono erase_min_subset)
  moreover have "length rs \<ge> cap \<Longrightarrow> length (erase_min stamp rs) < cap"
    using assms(1) cap_pos erase_min_length[of rs stamp] by (auto simp: table_ok_def)
  ultimately show ?thesis
    using assms erase_min_distinct[of key rs stamp] by (auto simp: table_ok_def)
qed

lemma table_ok_update:
  "table_ok rs \<Longrightarrow> (\<And>x. P x \<Longrightarrow> key (f x) = key x) \<Longrightarrow> table_ok (update_first P f rs)"
  by (simp add: table_ok_def update_first_keys)

end

section \<open>A running best\<close>

text \<open>
  The loop of every \<^verbatim>\<open>best\<close> pointer in the engine: an element replaces the best so far
  when it is acceptable and beats it. The result is acceptable, and no acceptable element beats
  it. The comparison has to be asymmetric and negatively transitive on the elements compared.
\<close>

locale running_best =
  fixes ok :: "'a \<Rightarrow> bool"
    and beats :: "'a \<Rightarrow> 'a \<Rightarrow> bool"
    and good :: "'a \<Rightarrow> bool"
  assumes asym: "good x \<Longrightarrow> good y \<Longrightarrow> beats x y \<Longrightarrow> \<not> beats y x"
    and neg_trans: "good x \<Longrightarrow> good y \<Longrightarrow> good z \<Longrightarrow> \<not> beats x y \<Longrightarrow> \<not> beats y z \<Longrightarrow> \<not> beats x z"
begin

fun best_of :: "'a list \<Rightarrow> 'a option \<Rightarrow> 'a option" where
  "best_of [] b = b"
| "best_of (x # xs) b =
     best_of xs (if \<not> ok x then b
                 else case b of None \<Rightarrow> Some x | Some y \<Rightarrow> if beats x y then Some x else b)"

lemma best_of_Some: "\<exists>y. best_of xs (Some x) = Some y"
  by (induction xs arbitrary: x) auto

lemma best_of_None: "best_of xs None = None \<longleftrightarrow> (\<forall>x \<in> set xs. \<not> ok x)"
proof (induction xs)
  case (Cons x xs)
  then show ?case using best_of_Some[of xs x] by auto
qed simp

lemma best_of_from:
  "best_of xs (Some b) = Some y \<Longrightarrow> good b \<Longrightarrow> \<forall>x \<in> set xs. good x \<Longrightarrow>
   good y \<and> y \<in> insert b (set xs) \<and> (y = b \<or> ok y) \<and> \<not> beats b y
     \<and> (\<forall>x \<in> set xs. ok x \<longrightarrow> \<not> beats x y)"
proof (induction xs arbitrary: b)
  case Nil
  then show ?case using asym[of b b] by auto
next
  case (Cons x xs)
  define c where "c = (if ok x \<and> beats x b then x else b)"
  have "best_of xs (Some c) = Some y" using Cons.prems(1) by (auto simp: c_def split: if_splits)
  moreover have "good c" "\<forall>x \<in> set xs. good x" using Cons.prems(2,3) by (auto simp: c_def)
  ultimately have ih: "good y" "y \<in> insert c (set xs)" "y = c \<or> ok y" "\<not> beats c y"
    "\<forall>x \<in> set xs. ok x \<longrightarrow> \<not> beats x y" using Cons.IH by blast+
  show ?case
  proof (cases "ok x \<and> beats x b")
    case True
    then have "\<not> beats b y"
      using neg_trans[of b x y] asym[of x b] ih(1,4) Cons.prems(2,3) by (auto simp: c_def)
    with True ih show ?thesis by (auto simp: c_def)
  next
    case False
    then have "ok x \<longrightarrow> \<not> beats x y"
      using neg_trans[of x b y] ih(1,4) Cons.prems(2,3) by (auto simp: c_def)
    with False ih show ?thesis by (auto simp: c_def)
  qed
qed

lemma best_of_Best:
  "best_of xs None = Some y \<Longrightarrow> \<forall>x \<in> set xs. good x \<Longrightarrow>
   y \<in> set xs \<and> ok y \<and> (\<forall>x \<in> set xs. ok x \<longrightarrow> \<not> beats x y)"
proof (induction xs)
  case (Cons x xs)
  show ?case
  proof (cases "ok x")
    case True
    then show ?thesis using best_of_from[of xs x y] Cons.prems by auto
  next
    case False
    then show ?thesis using Cons by auto
  qed
qed simp

end

end
