(* ===== verification/Fair_Queue.thy ===== *)
theory Fair_Queue
  imports Prelude "HOL-Library.Multiset"
begin

text \<open>
  The bounded fair queue of the replica owner and the coordinator
  (\<^verbatim>\<open>engine/include/provider_owned/fair_queue.hpp\<close>): one first-in-first-out list per
  session key and a round-robin list of the keys that have work. Every operation runs under
  the mutex, so an operation is one step on the state. The iteration order of the C++
  \<^verbatim>\<open>unordered_map\<close> is unspecified: the operations that iterate take it as the argument
  \<open>order\<close>, an enumeration of the keys.
\<close>

section \<open>State and operations\<close>

record 'a fair_queue =
  fq_capacity :: nat
  fq_queues :: "u64 \<rightharpoonup> 'a list"
  fq_ready :: "u64 list"
  fq_size :: nat
  fq_closed :: bool

definition new_queue :: "nat \<Rightarrow> 'a fair_queue" where
  "new_queue capacity = \<lparr>fq_capacity = capacity, fq_queues = Map.empty, fq_ready = [],
     fq_size = 0, fq_closed = False\<rparr>"

definition queue_at :: "'a fair_queue \<Rightarrow> u64 \<Rightarrow> 'a list" where
  "queue_at q key = (case fq_queues q key of None \<Rightarrow> [] | Some xs \<Rightarrow> xs)"

definition push :: "u64 \<Rightarrow> 'a \<Rightarrow> 'a fair_queue \<Rightarrow> bool \<times> 'a fair_queue" where
  "push key v q =
     (if fq_closed q \<or> fq_size q \<ge> fq_capacity q then (False, q)
      else
        let queue = queue_at q key
        in (True, q\<lparr>fq_ready := (if queue = [] then fq_ready q @ [key] else fq_ready q),
                    fq_queues := (fq_queues q)(key \<mapsto> queue @ [v]),
                    fq_size := Suc (fq_size q)\<rparr>))"

text \<open>The loop of \<^verbatim>\<open>pop_locked\<close> over the ready list; keys without work are skipped.\<close>

fun pop_ready :: "u64 list \<Rightarrow> 'a fair_queue \<Rightarrow> 'a option \<times> 'a fair_queue" where
  "pop_ready [] q = (None, q\<lparr>fq_ready := []\<rparr>)"
| "pop_ready (key # ready) q =
     (case fq_queues q key of
        None \<Rightarrow> pop_ready ready q
      | Some [] \<Rightarrow> pop_ready ready q
      | Some (v # vs) \<Rightarrow>
          (Some v,
           if vs = [] then q\<lparr>fq_queues := (fq_queues q)(key := None), fq_ready := ready,
                             fq_size := fq_size q - 1\<rparr>
           else q\<lparr>fq_queues := (fq_queues q)(key \<mapsto> vs), fq_ready := ready @ [key],
                   fq_size := fq_size q - 1\<rparr>))"

definition pop_locked :: "'a fair_queue \<Rightarrow> 'a option \<times> 'a fair_queue" where
  "pop_locked q = pop_ready (fq_ready q) q"

text \<open>
  \<^verbatim>\<open>pop\<close> waits until the queue is closed or has work: \<^const>\<open>None\<close> is a call that is still
  waiting. \<^verbatim>\<open>pop_for\<close> stops waiting at its timeout and then takes what there is.
\<close>

definition pop :: "'a fair_queue \<Rightarrow> ('a option \<times> 'a fair_queue) option" where
  "pop q = (if fq_closed q \<or> fq_size q \<noteq> 0 then Some (pop_locked q) else None)"

definition pop_for :: "bool \<Rightarrow> 'a fair_queue \<Rightarrow> ('a option \<times> 'a fair_queue) option" where
  "pop_for timed_out q =
     (if fq_closed q \<or> fq_size q \<noteq> 0 \<or> timed_out then Some (pop_locked q) else None)"

text \<open>The first element of a list that satisfies the predicate, with the list without it.\<close>

fun extract_first :: "('a \<Rightarrow> bool) \<Rightarrow> 'a list \<Rightarrow> ('a \<times> 'a list) option" where
  "extract_first p [] = None"
| "extract_first p (x # xs) =
     (if p x then Some (x, xs) else map_option (\<lambda>(y, ys). (y, x # ys)) (extract_first p xs))"

text \<open>After an element left the list of \<open>key\<close>, which keeps \<open>rest\<close>.\<close>

definition erase_from :: "u64 \<Rightarrow> 'a list \<Rightarrow> 'a fair_queue \<Rightarrow> 'a fair_queue" where
  "erase_from key rest q =
     (if rest = [] then q\<lparr>fq_size := fq_size q - 1, fq_queues := (fq_queues q)(key := None),
                          fq_ready := removeAll key (fq_ready q)\<rparr>
      else q\<lparr>fq_size := fq_size q - 1, fq_queues := (fq_queues q)(key \<mapsto> rest)\<rparr>)"

fun remove_if :: "u64 list \<Rightarrow> ('a \<Rightarrow> bool) \<Rightarrow> 'a fair_queue \<Rightarrow> 'a option \<times> 'a fair_queue" where
  "remove_if [] p q = (None, q)"
| "remove_if (key # order) p q =
     (case fq_queues q key of
        None \<Rightarrow> remove_if order p q
      | Some queue \<Rightarrow>
          (case extract_first p queue of
             None \<Rightarrow> remove_if order p q
           | Some (v, rest) \<Rightarrow> (Some v, erase_from key rest q)))"

definition drain_locked :: "u64 list \<Rightarrow> 'a fair_queue \<Rightarrow> 'a list \<times> 'a fair_queue" where
  "drain_locked order q =
     (concat (map (queue_at q) order), q\<lparr>fq_queues := Map.empty, fq_ready := [], fq_size := 0\<rparr>)"

definition drain :: "u64 list \<Rightarrow> 'a fair_queue \<Rightarrow> 'a list \<times> 'a fair_queue" where
  "drain order q = drain_locked order q"

definition close :: "u64 list \<Rightarrow> 'a fair_queue \<Rightarrow> 'a list \<times> 'a fair_queue" where
  "close order q = drain_locked order (q\<lparr>fq_closed := True\<rparr>)"

definition depths :: "'a fair_queue \<Rightarrow> u64 \<rightharpoonup> nat" where
  "depths q key = map_option length (fq_queues q key)"

section \<open>The invariant\<close>

text \<open>
  The ready list holds every key that has work exactly once, no stored list is empty, the
  counter is the number of stored elements and stays within the capacity, and a closed queue
  is empty.
\<close>

definition contents :: "'a fair_queue \<Rightarrow> 'a multiset" where
  "contents q = (\<Sum>key\<leftarrow>fq_ready q. mset (queue_at q key))"

definition fq_inv :: "'a fair_queue \<Rightarrow> bool" where
  "fq_inv q \<longleftrightarrow> distinct (fq_ready q) \<and> dom (fq_queues q) = set (fq_ready q)
     \<and> (\<forall>key \<in> set (fq_ready q). queue_at q key \<noteq> [])
     \<and> fq_size q = (\<Sum>key\<leftarrow>fq_ready q. length (queue_at q key))
     \<and> fq_size q \<le> fq_capacity q
     \<and> (fq_closed q \<longrightarrow> fq_ready q = [])"

definition enumerates :: "u64 list \<Rightarrow> 'a fair_queue \<Rightarrow> bool" where
  "enumerates order q \<longleftrightarrow> distinct order \<and> set order = dom (fq_queues q)"

lemma queue_at_upd [simp]:
  "queue_at (q\<lparr>fq_queues := m\<rparr>) key = (case m key of None \<Rightarrow> [] | Some xs \<Rightarrow> xs)"
  "queue_at (q\<lparr>fq_ready := r\<rparr>) key = queue_at q key"
  "queue_at (q\<lparr>fq_size := n\<rparr>) key = queue_at q key"
  "queue_at (q\<lparr>fq_closed := c\<rparr>) key = queue_at q key"
  by (simp_all add: queue_at_def)

lemma fq_inv_new [inv_intros]: "fq_inv (new_queue capacity)"
  by (simp add: fq_inv_def new_queue_def)

lemma ready_queue:
  assumes "fq_inv q" and "key \<in> set (fq_ready q)"
  obtains v vs where "fq_queues q key = Some (v # vs)" and "queue_at q key = v # vs"
proof -
  from assms have "fq_queues q key \<noteq> None" and "queue_at q key \<noteq> []"
    by (auto simp: fq_inv_def dom_def)
  then obtain xs where "fq_queues q key = Some xs" "queue_at q key = xs" "xs \<noteq> []"
    by (auto simp: queue_at_def)
  with that show thesis by (cases xs) auto
qed

lemma not_ready_queue: "fq_inv q \<Longrightarrow> key \<notin> set (fq_ready q) \<Longrightarrow> fq_queues q key = None"
  by (metis domIff fq_inv_def)

lemma size_contents: "fq_inv q \<Longrightarrow> size (contents q) = fq_size q"
proof -
  have "size (\<Sum>key\<leftarrow>ks. mset (queue_at q key)) = (\<Sum>key\<leftarrow>ks. length (queue_at q key))" for ks
    by (induction ks) auto
  then show "fq_inv q \<Longrightarrow> size (contents q) = fq_size q"
    by (simp add: contents_def fq_inv_def)
qed

text \<open>Changing the list of a key changes the sums over the ready list at that key only.\<close>

lemma queue_at_fun_upd:
  "queue_at (q\<lparr>fq_queues := (fq_queues q)(key := Some xs)\<rparr>) = (queue_at q)(key := xs)"
  "queue_at (q\<lparr>fq_queues := (fq_queues q)(key := None)\<rparr>) = (queue_at q)(key := [])"
  by (auto simp: queue_at_def)

lemma sum_list_upd_other:
  "key \<notin> set ks \<Longrightarrow> (\<Sum>k\<leftarrow>ks. f ((g(key := x)) k)) = (\<Sum>k\<leftarrow>ks. f (g k))"
  by (induction ks) auto

lemma sum_list_upd_at:
  fixes f :: "'v \<Rightarrow> 'b::cancel_comm_monoid_add"
  assumes "distinct ks" and "key \<in> set ks"
  shows "(\<Sum>k\<leftarrow>ks. f ((g(key := x)) k)) + f (g key) = (\<Sum>k\<leftarrow>ks. f (g k)) + f x"
  using assms
proof (induction ks)
  case (Cons k ks)
  show ?case
  proof (cases "k = key")
    case True
    with Cons.prems have "key \<notin> set ks" by simp
    with True sum_list_upd_other[of key ks f g x] show ?thesis
      by (simp add: ac_simps)
  next
    case False
    with Cons have "(\<Sum>k\<leftarrow>ks. f ((g(key := x)) k)) + f (g key) = (\<Sum>k\<leftarrow>ks. f (g k)) + f x"
      by simp
    with False show ?thesis by (simp add: add.assoc)
  qed
qed simp

section \<open>What the operations do\<close>

lemma push_refused: "push key v q = (False, q') \<Longrightarrow> q' = q \<and> (fq_closed q \<or> fq_capacity q \<le> fq_size q)"
  by (auto simp: push_def Let_def split: if_splits)

lemma push_accepted:
  assumes "push key v q = (True, q')"
  shows "queue_at q' = (queue_at q)(key := queue_at q key @ [v])"
    and "fq_ready q' = (if queue_at q key = [] then fq_ready q @ [key] else fq_ready q)"
    and "fq_size q' = Suc (fq_size q)" and "fq_size q < fq_capacity q" and "\<not> fq_closed q"
    and "fq_capacity q' = fq_capacity q" and "fq_closed q' = fq_closed q"
    and "dom (fq_queues q') = insert key (dom (fq_queues q))"
  using assms by (auto simp: push_def Let_def queue_at_def split: if_splits)

lemma ready_iff_queue: "fq_inv q \<Longrightarrow> key \<in> set (fq_ready q) \<longleftrightarrow> queue_at q key \<noteq> []"
  by (metis fq_inv_def not_ready_queue option.case(1) queue_at_def)

lemma push_sum:
  fixes f :: "'a list \<Rightarrow> 'b::cancel_comm_monoid_add"
  assumes inv: "fq_inv q" and acc: "push key v q = (True, q')" and zero: "f [] = 0"
  shows "(\<Sum>k\<leftarrow>fq_ready q'. f (queue_at q' k)) + f (queue_at q key)
     = (\<Sum>k\<leftarrow>fq_ready q. f (queue_at q k)) + f (queue_at q key @ [v])"
proof (cases "key \<in> set (fq_ready q)")
  case True
  with inv have ne: "queue_at q key \<noteq> []" by (simp add: ready_iff_queue)
  have d: "distinct (fq_ready q)" using inv by (simp add: fq_inv_def)
  show ?thesis
    using sum_list_upd_at[OF d True, of f "queue_at q" "queue_at q key @ [v]"] ne
    by (simp only: push_accepted[OF acc] if_False fun_upd_apply)
next
  case False
  with inv have e: "queue_at q key = []" by (simp add: ready_iff_queue)
  show ?thesis
    using sum_list_upd_other[OF False, of f "queue_at q" "[v]"] e
    by (simp add: push_accepted[OF acc] zero)
qed

lemma push_inv [inv_intros]:
  assumes inv: "fq_inv q" and p: "push key v q = (b, q')"
  shows "fq_inv q'"
proof (cases b)
  case True
  with p have acc: "push key v q = (True, q')" by simp
  have "(\<Sum>k\<leftarrow>fq_ready q'. length (queue_at q' k)) = Suc (fq_size q)"
    using push_sum[OF inv acc, of length] inv by (simp add: fq_inv_def)
  with inv push_accepted[OF acc] show ?thesis
    by (auto simp: fq_inv_def ready_iff_queue[OF inv])
next
  case False
  with p push_refused[of key v q q'] inv show ?thesis by simp
qed

lemma push_contents:
  assumes "fq_inv q" and "push key v q = (b, q')"
  shows "contents q' = (if b then add_mset v (contents q) else contents q)"
proof (cases b)
  case True
  with push_sum[of q key v q' mset] assms show ?thesis by (simp add: contents_def)
next
  case False
  with assms(2) push_refused[of key v q q'] show ?thesis by simp
qed

lemma pop_locked_Nil: "fq_ready q = [] \<Longrightarrow> pop_locked q = (None, q)"
  by (simp add: pop_locked_def)

text \<open>Under the invariant the first ready key always has work: no key is skipped.\<close>

lemma pop_locked_Cons:
  assumes inv: "fq_inv q" and ready: "fq_ready q = key # ks" and pop: "pop_locked q = (r, q')"
  shows "r = Some (hd (queue_at q key))"
    and "queue_at q' = (queue_at q)(key := tl (queue_at q key))"
    and "fq_ready q' = (if tl (queue_at q key) = [] then ks else ks @ [key])"
    and "Suc (fq_size q') = fq_size q"
    and "fq_capacity q' = fq_capacity q" and "fq_closed q' = fq_closed q"
    and "dom (fq_queues q') = set (fq_ready q')"
proof -
  obtain v vs where v: "fq_queues q key = Some (v # vs)" "queue_at q key = v # vs"
    using ready_queue[OF inv, of key] ready by auto
  have "0 < fq_size q" using inv ready v(2) by (simp add: fq_inv_def)
  moreover have "key \<notin> set ks" "dom (fq_queues q) = insert key (set ks)"
    using inv ready by (auto simp: fq_inv_def)
  ultimately show "r = Some (hd (queue_at q key))"
    "queue_at q' = (queue_at q)(key := tl (queue_at q key))"
    "fq_ready q' = (if tl (queue_at q key) = [] then ks else ks @ [key])"
    "Suc (fq_size q') = fq_size q"
    "fq_capacity q' = fq_capacity q" "fq_closed q' = fq_closed q"
    "dom (fq_queues q') = set (fq_ready q')"
    using pop v ready
    by (auto simp: pop_locked_def queue_at_def split: if_splits)
qed

lemma pop_sum:
  fixes f :: "'a list \<Rightarrow> 'b::cancel_comm_monoid_add"
  assumes inv: "fq_inv q" and ready: "fq_ready q = key # ks"
    and pop: "pop_locked q = (r, q')" and zero: "f [] = 0"
  shows "(\<Sum>k\<leftarrow>fq_ready q'. f (queue_at q' k)) + f (queue_at q key)
     = (\<Sum>k\<leftarrow>fq_ready q. f (queue_at q k)) + f (tl (queue_at q key))"
proof -
  note after = pop_locked_Cons[OF inv ready pop]
  have "key \<notin> set ks" using inv ready by (simp add: fq_inv_def)
  note rest = sum_list_upd_other[OF this, of f "queue_at q" "tl (queue_at q key)"]
  show ?thesis
    using rest zero ready by (auto simp: after ac_simps)
qed

lemma pop_locked_inv [inv_intros]:
  assumes inv: "fq_inv q" and pop: "pop_locked q = (r, q')"
  shows "fq_inv q'"
proof (cases "fq_ready q")
  case Nil
  with pop inv show ?thesis by (simp add: pop_locked_Nil)
next
  case (Cons key ks)
  note after = pop_locked_Cons[OF inv Cons pop]
  have ne: "queue_at q key \<noteq> []" using inv Cons by (simp add: ready_iff_queue[symmetric])
  then have "Suc (length (tl (queue_at q key))) = length (queue_at q key)"
    by (cases "queue_at q key") auto
  with pop_sum[OF inv Cons pop, of length] inv after(4)
  have "fq_size q' = (\<Sum>k\<leftarrow>fq_ready q'. length (queue_at q' k))"
    by (simp add: fq_inv_def)
  moreover have "distinct (key # ks)" "\<forall>k \<in> set ks. queue_at q k \<noteq> []"
      "fq_size q \<le> fq_capacity q" "\<not> fq_closed q"
    using inv Cons by (auto simp: fq_inv_def)
  ultimately show ?thesis
    using after(4) by (auto simp: fq_inv_def after)
qed

lemma pop_contents:
  assumes inv: "fq_inv q" and pop: "pop_locked q = (r, q')"
  shows "contents q = (case r of None \<Rightarrow> contents q' | Some v \<Rightarrow> add_mset v (contents q'))"
proof (cases "fq_ready q")
  case Nil
  with pop show ?thesis by (auto simp: pop_locked_Nil)
next
  case (Cons key ks)
  have "queue_at q key \<noteq> []" using inv Cons by (simp add: ready_iff_queue[symmetric])
  then have "mset (queue_at q key) = add_mset (hd (queue_at q key)) (mset (tl (queue_at q key)))"
    by (cases "queue_at q key") auto
  with pop_sum[OF inv Cons pop, of mset] show ?thesis
    by (simp add: contents_def pop_locked_Cons[OF inv Cons pop])
qed

lemma pop_locked_None: "fq_inv q \<Longrightarrow> pop_locked q = (None, q') \<Longrightarrow> fq_size q = 0 \<and> q' = q"
  by (cases "fq_ready q")
    (auto simp: pop_locked_Nil fq_inv_def dest!: pop_locked_Cons(1)[rotated 2])

section \<open>Cancellation and draining\<close>

lemma extract_first_SomeD:
  "extract_first p xs = Some (x, ys) \<Longrightarrow>
   \<exists>us vs. xs = us @ x # vs \<and> ys = us @ vs \<and> p x \<and> (\<forall>u \<in> set us. \<not> p u)"
proof (induction xs arbitrary: ys)
  case (Cons a xs)
  show ?case
  proof (cases "p a")
    case False
    with Cons.prems obtain zs where z: "extract_first p xs = Some (x, zs)" "ys = a # zs"
      by auto
    from Cons.IH[OF z(1)] obtain us vs where
      "xs = us @ x # vs" "zs = us @ vs" "p x" "\<forall>u \<in> set us. \<not> p u" by blast
    with False z(2) show ?thesis by (intro exI[of _ "a # us"] exI[of _ vs]) auto
  next
    case True
    with Cons.prems show ?thesis by (intro exI[of _ "[]"] exI[of _ xs]) auto
  qed
qed simp

lemma extract_first_None: "extract_first p xs = None \<longleftrightarrow> (\<forall>x \<in> set xs. \<not> p x)"
  by (induction xs) auto

lemma extract_first_mset: "extract_first p xs = Some (x, ys) \<Longrightarrow> mset xs = add_mset x (mset ys)"
  by (auto dest: extract_first_SomeD)

lemma remove_if_None:
  "remove_if order p q = (None, q') \<Longrightarrow>
   q' = q \<and> (\<forall>key \<in> set order. \<forall>x \<in> set (queue_at q key). \<not> p x)"
  by (induction order p q rule: remove_if.induct)
    (auto simp: extract_first_None queue_at_def split: option.splits if_splits)

lemma remove_if_Some:
  "remove_if order p q = (Some v, q') \<Longrightarrow>
   \<exists>key rest. extract_first p (queue_at q key) = Some (v, rest) \<and> q' = erase_from key rest q"
proof (induction order p q rule: remove_if.induct)
  case (2 key order p q)
  show ?case
  proof (cases "fq_queues q key")
    case (Some xs)
    then have "queue_at q key = xs" by (simp add: queue_at_def)
    with Some "2" show ?thesis
    proof (cases "extract_first p xs")
      case (Some y)
      with \<open>fq_queues q key = Some xs\<close> "2.prems" obtain rest where
        "extract_first p xs = Some (v, rest)" "q' = erase_from key rest q"
        by (cases y) auto
      with \<open>queue_at q key = xs\<close> show ?thesis by blast
    qed auto
  qed (use "2" in auto)
qed simp

lemma remove_if_inv:
  assumes inv: "fq_inv q" and rm: "remove_if order p q = (r, q')"
  shows "fq_inv q' \<and> contents q = (case r of None \<Rightarrow> contents q' | Some v \<Rightarrow> add_mset v (contents q'))"
proof (cases r)
  case None
  with rm inv remove_if_None show ?thesis by fastforce
next
  case (Some v)
  with remove_if_Some[of order p q v q'] rm obtain key rest where
    ex: "extract_first p (queue_at q key) = Some (v, rest)" and q': "q' = erase_from key rest q"
    by blast
  have queue': "queue_at q' = (queue_at q)(key := rest)"
    by (auto simp: q' erase_from_def queue_at_def)
  have ready': "fq_ready q' = (if rest = [] then removeAll key (fq_ready q) else fq_ready q)"
    by (simp add: q' erase_from_def)
  have key: "key \<in> set (fq_ready q)"
    using ex by (auto simp: ready_iff_queue[OF inv])
  have d: "distinct (fq_ready q)" using inv by (simp add: fq_inv_def)
  have drop_empty: "(\<Sum>k\<leftarrow>removeAll key ks. f (((queue_at q)(key := [])) k))
      = (\<Sum>k\<leftarrow>ks. f (((queue_at q)(key := [])) k))"
    if "f [] = 0" for f :: "'a list \<Rightarrow> 'b::comm_monoid_add" and ks
    using that by (induction ks) auto
  have "mset (queue_at q key) = add_mset v (mset rest)"
    using ex by (rule extract_first_mset)
  then have len: "length (queue_at q key) = Suc (length rest)"
    by (metis size_add_mset size_mset)
  have sum: "(\<Sum>k\<leftarrow>fq_ready q'. f (queue_at q' k)) + f (queue_at q key)
      = (\<Sum>k\<leftarrow>fq_ready q. f (queue_at q k)) + f rest"
    if "f [] = 0" for f :: "'a list \<Rightarrow> 'b::cancel_comm_monoid_add"
    using sum_list_upd_at[OF d key, of f "queue_at q" rest] drop_empty[of f "fq_ready q"] that
    by (auto simp: queue' ready')
  have "fq_inv q'"
  proof -
    have size1: "fq_size q' = fq_size q - 1" by (simp add: q' erase_from_def)
    have size': "fq_size q' = (\<Sum>k\<leftarrow>fq_ready q'. length (queue_at q' k))"
      using sum[of length] len inv size1 by (simp add: fq_inv_def)
    have "dom (fq_queues q') = set (fq_ready q')" "\<forall>k \<in> set (fq_ready q'). queue_at q' k \<noteq> []"
      using inv key by (auto simp: fq_inv_def q' erase_from_def queue_at_def)
    with size' inv key show ?thesis
      by (auto simp: fq_inv_def q' erase_from_def distinct_removeAll)
  qed
  moreover have "contents q = add_mset v (contents q')"
    using sum[of mset] \<open>mset (queue_at q key) = add_mset v (mset rest)\<close>
    by (simp add: contents_def)
  ultimately show ?thesis using Some by simp
qed

lemma drain_locked_inv:
  assumes "fq_inv q" and "enumerates order q" and "drain_locked order q = (out, q')"
  shows "fq_inv q' \<and> mset out = contents q \<and> contents q' = {#} \<and> fq_closed q' = fq_closed q"
proof -
  have "mset order = mset (fq_ready q)"
    using assms(1,2) set_eq_iff_mset_eq_distinct[of order "fq_ready q"]
    by (simp add: fq_inv_def enumerates_def)
  then have "mset (map (\<lambda>k. mset (queue_at q k)) order) = mset (map (\<lambda>k. mset (queue_at q k)) (fq_ready q))"
    by simp
  then have "(\<Sum>k\<leftarrow>order. mset (queue_at q k)) = contents q"
    unfolding contents_def by (metis sum_mset_sum_list)
  with assms(3) show ?thesis
    by (auto simp: drain_locked_def fq_inv_def contents_def mset_concat comp_def)
qed

section \<open>The contract of a work queue\<close>

text \<open>
  What the owner's request loop relies on: work goes in with a session key and comes out once.
  \<open>run_queue\<close> plays a sequence of calls and collects the accepted and the delivered work.
\<close>

datatype ('k, 'a) queue_event = Put 'k 'a | Get

fun run_queue ::
  "('k \<Rightarrow> 'a \<Rightarrow> 'q \<Rightarrow> bool \<times> 'q) \<Rightarrow> ('q \<Rightarrow> 'a option \<times> 'q) \<Rightarrow> ('k, 'a) queue_event list \<Rightarrow> 'q
   \<Rightarrow> 'a list \<times> 'a list \<times> 'q" where
  "run_queue put get [] q = ([], [], q)"
| "run_queue put get (Put k v # es) q =
     (let (ok, q') = put k v q; (ins, outs, q'') = run_queue put get es q'
      in (if ok then v # ins else ins, outs, q''))"
| "run_queue put get (Get # es) q =
     (let (r, q') = get q; (ins, outs, q'') = run_queue put get es q'
      in (ins, case r of None \<Rightarrow> outs | Some v \<Rightarrow> v # outs, q''))"

locale work_queue =
  fixes inv :: "'q \<Rightarrow> bool"
    and put :: "'k \<Rightarrow> 'a \<Rightarrow> 'q \<Rightarrow> bool \<times> 'q"
    and get :: "'q \<Rightarrow> 'a option \<times> 'q"
    and held :: "'q \<Rightarrow> 'a multiset"
  assumes put_inv: "inv q \<Longrightarrow> put k v q = (b, q') \<Longrightarrow> inv q'"
    and put_held: "inv q \<Longrightarrow> put k v q = (b, q') \<Longrightarrow>
      held q' = (if b then add_mset v (held q) else held q)"
    and get_inv: "inv q \<Longrightarrow> get q = (r, q') \<Longrightarrow> inv q'"
    and get_held: "inv q \<Longrightarrow> get q = (r, q') \<Longrightarrow>
      held q = (case r of None \<Rightarrow> held q' | Some v \<Rightarrow> add_mset v (held q'))"
begin

lemma run_inv: "inv q \<Longrightarrow> run_queue put get es q = (ins, outs, q') \<Longrightarrow> inv q'"
proof (induction es arbitrary: q ins outs)
  case (Cons e es)
  then show ?case
    by (cases e) (auto simp: Let_def split: prod.splits dest: put_inv get_inv)
qed simp

text \<open>Nothing is lost and nothing is delivered twice.\<close>

lemma run_conserves:
  "inv q \<Longrightarrow> run_queue put get es q = (ins, outs, q') \<Longrightarrow>
   mset ins + held q = mset outs + held q'"
proof (induction es arbitrary: q ins outs)
  case (Cons e es)
  show ?case
  proof (cases e)
    case (Put k v)
    obtain ok q1 where p: "put k v q = (ok, q1)" by fastforce
    obtain ins' outs' where r: "run_queue put get es q1 = (ins', outs', q')"
        "ins = (if ok then v # ins' else ins')" "outs = outs'"
      using Cons.prems(2) Put p by (auto simp: Let_def split: prod.splits)
    from Cons.IH[OF put_inv[OF Cons.prems(1) p] r(1)] put_held[OF Cons.prems(1) p] r(2,3)
    show ?thesis by (cases ok) auto
  next
    case Get
    obtain x q1 where g: "get q = (x, q1)" by fastforce
    obtain outs' where r: "run_queue put get es q1 = (ins, outs', q')"
        "outs = (case x of None \<Rightarrow> outs' | Some v \<Rightarrow> v # outs')"
      using Cons.prems(2) Get g by (auto simp: Let_def split: prod.splits)
    from Cons.IH[OF get_inv[OF Cons.prems(1) g] r(1)] get_held[OF Cons.prems(1) g] r(2)
    show ?thesis by (cases x) auto
  qed
qed simp

end

interpretation fq: work_queue fq_inv push pop_locked contents
  by unfold_locales (auto intro: push_inv pop_locked_inv simp: push_contents pop_contents)

section \<open>Reachable queues\<close>

inductive fq_step :: "'a fair_queue \<Rightarrow> 'a fair_queue \<Rightarrow> bool" where
  step_push: "push key v q = (b, q') \<Longrightarrow> fq_step q q'"
| step_pop: "pop q = Some (r, q') \<Longrightarrow> fq_step q q'"
| step_pop_for: "pop_for timed_out q = Some (r, q') \<Longrightarrow> fq_step q q'"
| step_remove: "enumerates order q \<Longrightarrow> remove_if order p q = (r, q') \<Longrightarrow> fq_step q q'"
| step_drain: "enumerates order q \<Longrightarrow> drain order q = (out, q') \<Longrightarrow> fq_step q q'"
| step_close: "enumerates order q \<Longrightarrow> close order q = (out, q') \<Longrightarrow> fq_step q q'"

lemma close_inv: "enumerates order q \<Longrightarrow> close order q = (out, q') \<Longrightarrow> fq_inv q'"
  by (auto simp: close_def drain_locked_def fq_inv_def)

lemma fq_step_inv: "fq_step q q' \<Longrightarrow> fq_inv q \<Longrightarrow> fq_inv q'"
  by (induction rule: fq_step.induct)
    (auto simp: pop_def pop_for_def drain_def close_inv split: if_splits
      dest: push_inv pop_locked_inv remove_if_inv drain_locked_inv)

interpretation fq_sys: invariant_system "\<lambda>q. \<exists>capacity. q = new_queue capacity" fq_step fq_inv
  by unfold_locales (auto intro: fq_inv_new fq_step_inv)

section \<open>Properties\<close>

text \<open>
  In every state a queue can reach from its constructor through pushes, pops, timed pops,
  cancellations, drains and closing, the invariant holds: each key with work is on the ready
  list exactly once, the counter equals the number of queued elements, the capacity is never
  exceeded, and a closed queue is empty.
\<close>

theorem fair_queue_reachable_inv:
  assumes "fq_step\<^sup>*\<^sup>* (new_queue capacity) q"
  shows "fq_inv q"
  using fq_sys.reachable_inv assms by blast

theorem fair_queue_reachable_inv_witness:
  "fq_inv (snd (push 7 (1 :: nat) (new_queue 2)))"
proof -
  have "fq_step (new_queue 2) (snd (push 7 (1 :: nat) (new_queue 2)))"
    by (rule step_push[of 7 1 _ "fst (push 7 (1 :: nat) (new_queue 2))"]) simp
  then have "fq_step\<^sup>*\<^sup>* (new_queue 2) (snd (push 7 (1 :: nat) (new_queue 2)))" by simp
  then show ?thesis by (rule fair_queue_reachable_inv)
qed

text \<open>A key's place in the ready list: a push keeps it, a pop moves it one step forward.\<close>

lemma push_keeps_place:
  assumes "fq_inv q" and "i < length (fq_ready q)" and "push k v q = (ok, q1)"
  shows "i < length (fq_ready q1) \<and> fq_ready q1 ! i = fq_ready q ! i
    \<and> hd (queue_at q1 (fq_ready q ! i)) = hd (queue_at q (fq_ready q ! i))"
proof (cases ok)
  case True
  with assms(3) have acc: "push k v q = (True, q1)" by simp
  have "queue_at q (fq_ready q ! i) \<noteq> []"
    using assms(1,2) by (metis nth_mem ready_iff_queue)
  then show ?thesis
    using assms(2) by (auto simp: push_accepted[OF acc] nth_append)
next
  case False
  with assms(3) push_refused[of k v q q1] assms(2) show ?thesis by simp
qed

lemma pop_advances_place:
  assumes "fq_inv q" and "Suc j < length (fq_ready q)" and "pop_locked q = (x, q1)"
  shows "j < length (fq_ready q1) \<and> fq_ready q1 ! j = fq_ready q ! Suc j
    \<and> queue_at q1 (fq_ready q ! Suc j) = queue_at q (fq_ready q ! Suc j)"
proof -
  obtain k ks where ready: "fq_ready q = k # ks" and j: "j < length ks"
    using assms(2) by (cases "fq_ready q") auto
  then have "k \<noteq> ks ! j" using assms(1) by (auto simp: fq_inv_def)
  with ready j show ?thesis
    using pop_locked_Cons(2,3)[OF assms(1) ready assms(3)] by (auto simp: nth_append)
qed

text \<open>A queue with work of two users, the example of the witnesses.\<close>

definition demo_queue :: "nat fair_queue" where
  "demo_queue = snd (push 9 30 (snd (push 7 20 (snd (push 7 10 (new_queue 8))))))"

lemma push_snd_inv: "fq_inv q \<Longrightarrow> fq_inv (snd (push k v q))"
  by (cases "push k v q") (auto intro: push_inv)

lemma demo_queue_inv: "fq_inv demo_queue"
  by (simp add: demo_queue_def push_snd_inv fq_inv_new)

lemma demo_queue_run:
  "run_queue push pop_locked [Put 5 40, Get, Put 9 50] demo_queue
     = ([40, 50], [10], snd (snd (run_queue push pop_locked [Put 5 40, Get, Put 9 50] demo_queue)))"
  by (simp add: demo_queue_def new_queue_def push_def pop_locked_def queue_at_def)

text \<open>
  C38. No session starves. With \<open>i\<close> keys ahead of \<open>key\<close> on the ready list, after any
  interleaving of pushes (of any session) and exactly \<open>i\<close> pops, the next pop delivers the
  element that was at the head of \<open>key\<close>'s list.
\<close>

theorem fair_queue_round_robin:
  assumes "fq_inv q" and "i < length (fq_ready q)" and "fq_ready q ! i = key"
    and "length (filter (\<lambda>e. e = Get) es) = i"
    and "run_queue push pop_locked es q = (ins, outs, q')"
  shows "fst (pop_locked q') = Some (hd (queue_at q key))"
  using assms
proof (induction es arbitrary: q i ins outs)
  case Nil
  then obtain ks where "fq_ready q = key # ks" by (cases "fq_ready q") auto
  then show ?case
    using pop_locked_Cons(1)[OF Nil.prems(1)] Nil.prems(5) by (metis fst_conv run_queue.simps(1) snd_conv surjective_pairing)
next
  case (Cons e es)
  show ?case
  proof (cases e)
    case (Put k v)
    obtain ok q1 where p: "push k v q = (ok, q1)" by fastforce
    with Cons.prems(5) Put obtain ins' outs' where
      r: "run_queue push pop_locked es q1 = (ins', outs', q')"
      by (auto simp: Let_def split: prod.splits)
    have "length (filter (\<lambda>e. e = Get) es) = i" using Cons.prems(4) Put by simp
    then show ?thesis
      using Cons.IH[OF push_inv[OF Cons.prems(1) p] _ _ _ r]
        push_keeps_place[OF Cons.prems(1,2) p] Cons.prems(3) by auto
  next
    case Get
    obtain x q1 where g: "pop_locked q = (x, q1)" by fastforce
    with Cons.prems(5) Get obtain ins' outs' where
      r: "run_queue push pop_locked es q1 = (ins', outs', q')"
      by (auto simp: Let_def split: prod.splits)
    from Cons.prems(4) Get obtain j where j: "i = Suc j" "length (filter (\<lambda>e. e = Get) es) = j"
      by simp
    then show ?thesis
      using Cons.IH[OF pop_locked_inv[OF Cons.prems(1) g] _ _ j(2) r]
        pop_advances_place[OF Cons.prems(1) _ g, of j] Cons.prems(2,3) by auto
  qed
qed

theorem fair_queue_round_robin_witness:
  "fst (pop_locked (snd (snd (run_queue push pop_locked [Put 5 40, Get, Put 9 50] demo_queue))))
     = Some 30"
proof -
  have "fq_ready demo_queue = [7, 9]" "hd (queue_at demo_queue 9) = 30"
    by (simp_all add: demo_queue_def new_queue_def push_def queue_at_def)
  then show ?thesis
    using fair_queue_round_robin[OF demo_queue_inv, of 1 9, OF _ _ _ demo_queue_run] by simp
qed

text \<open>
  Work is conserved. Over any sequence of pushes and pops, the work accepted plus what was
  queued at the start is exactly the work delivered plus what is still queued: no request is
  lost and none is delivered twice.
\<close>

theorem fair_queue_conserves_work:
  assumes "fq_inv q" and "run_queue push pop_locked es q = (ins, outs, q')"
  shows "mset ins + contents q = mset outs + contents q'"
  using assms by (rule fq.run_conserves)

theorem fair_queue_conserves_work_witness:
  "mset [40, 50] + contents demo_queue
     = mset [10] + contents (snd (snd (run_queue push pop_locked [Put 5 40, Get, Put 9 50] demo_queue)))"
  using fair_queue_conserves_work[OF demo_queue_inv demo_queue_run] by simp

end
