(* ===== verification/Protocol.thy ===== *)
theory Protocol
  imports Prelude
begin

unbundle bit_operations_syntax

text \<open>
  The DAN frame protocol (\<^verbatim>\<open>engine/include/provider_owned/protocol.hpp\<close>): message
  types, the frame record, the big-endian header codec, sending and receiving over a socket,
  and the validity checks of endpoints, PeerIDs and ring targets. A socket is what its calls
  can observe: the byte segments successive \<^verbatim>\<open>recv\<close> calls can return (an empty segment
  is an error return, no segment left is end of stream), and the counts successive
  \<^verbatim>\<open>send\<close> calls accept.
\<close>

section \<open>Message types and frames\<close>

definition magic :: u32 where
  "magic = 0x44414e31"

definition version :: u16 where
  "version = 2"

definition header_size :: nat where
  "header_size = 48"

definition max_payload :: nat where
  "max_payload = 64 * 1024 * 1024"

datatype msg_type =
    T_error | T_create_session | T_reset_session | T_destroy_session | T_prompt | T_token
  | T_activation | T_result | T_end_request | T_ack | T_metrics | T_shutdown | T_commit_token
  | T_commit_activation | T_cancel_request | T_client_result | T_provider_available
  | T_assign_stage | T_stage_ready | T_unload_stage | T_speculative_activation | T_rollback
  | T_prompt_chunk | T_stream_prompt | T_client_chunk | T_reserve | T_release_route
  | T_prepare_chat

text \<open>The enumerators in the order of their values 0 to 27.\<close>

definition all_types :: "msg_type list" where
  "all_types =
    [T_error, T_create_session, T_reset_session, T_destroy_session, T_prompt, T_token,
     T_activation, T_result, T_end_request, T_ack, T_metrics, T_shutdown, T_commit_token,
     T_commit_activation, T_cancel_request, T_client_result, T_provider_available,
     T_assign_stage, T_stage_ready, T_unload_stage, T_speculative_activation, T_rollback,
     T_prompt_chunk, T_stream_prompt, T_client_chunk, T_reserve, T_release_route,
     T_prepare_chat]"

fun type_code :: "msg_type \<Rightarrow> u16" where
  "type_code T_error = 0"
| "type_code T_create_session = 1"
| "type_code T_reset_session = 2"
| "type_code T_destroy_session = 3"
| "type_code T_prompt = 4"
| "type_code T_token = 5"
| "type_code T_activation = 6"
| "type_code T_result = 7"
| "type_code T_end_request = 8"
| "type_code T_ack = 9"
| "type_code T_metrics = 10"
| "type_code T_shutdown = 11"
| "type_code T_commit_token = 12"
| "type_code T_commit_activation = 13"
| "type_code T_cancel_request = 14"
| "type_code T_client_result = 15"
| "type_code T_provider_available = 16"
| "type_code T_assign_stage = 17"
| "type_code T_stage_ready = 18"
| "type_code T_unload_stage = 19"
| "type_code T_speculative_activation = 20"
| "type_code T_rollback = 21"
| "type_code T_prompt_chunk = 22"
| "type_code T_stream_prompt = 23"
| "type_code T_client_chunk = 24"
| "type_code T_reserve = 25"
| "type_code T_release_route = 26"
| "type_code T_prepare_chat = 27"

text \<open>
  \<^verbatim>\<open>DType\<close> is an enum over \<^verbatim>\<open>uint16\<close> that the decoder fills by a plain cast, so a
  frame can carry any 16-bit value in it; the named values are constants.
\<close>

type_synonym dtype = u16

definition dt_none :: dtype where
  "dt_none = 0"

definition dt_f32le :: dtype where
  "dt_f32le = 1"

definition dt_f16le :: dtype where
  "dt_f16le = 2"

definition dt_fp8e4m3 :: dtype where
  "dt_fp8e4m3 = 3"

lemmas dtype_defs = dt_none_def dt_f32le_def dt_f16le_def dt_fp8e4m3_def

definition activation_dtype :: "dtype \<Rightarrow> bool" where
  "activation_dtype d \<longleftrightarrow> d = dt_f32le \<or> d = dt_f16le \<or> d = dt_fp8e4m3"

record frame =
  fr_type :: msg_type
  fr_session :: u64
  fr_request :: u64
  fr_position :: u32
  fr_rows :: u32
  fr_cols :: u32
  fr_dtype :: dtype
  fr_payload :: "u8 list"

definition fresh_frame :: frame where
  "fresh_frame = \<lparr>fr_type = T_error, fr_session = 0, fr_request = 0, fr_position = 0,
     fr_rows = 0, fr_cols = 0, fr_dtype = dt_none, fr_payload = []\<rparr>"

definition frame_header :: "frame \<Rightarrow> frame" where
  "frame_header f = fresh_frame\<lparr>fr_type := fr_type f, fr_session := fr_session f,
     fr_request := fr_request f, fr_position := fr_position f, fr_rows := fr_rows f,
     fr_cols := fr_cols f, fr_dtype := fr_dtype f\<rparr>"

definition bytes_of :: "string \<Rightarrow> u8 list" where
  "bytes_of s = map of_char s"

definition string_of :: "u8 list \<Rightarrow> string" where
  "string_of bs = map (\<lambda>b. char_of (unat b)) bs"

definition error_frame :: "frame \<Rightarrow> string \<Rightarrow> frame" where
  "error_frame src message = fresh_frame\<lparr>fr_type := T_error, fr_session := fr_session src,
     fr_request := fr_request src, fr_payload := bytes_of message\<rparr>"

definition empty_control :: "frame \<Rightarrow> bool" where
  "empty_control f \<longleftrightarrow> fr_position f = 0 \<and> fr_rows f = 0 \<and> fr_cols f = 0
     \<and> fr_dtype f = dt_none \<and> fr_payload f = []"

section \<open>Big-endian integers\<close>

definition put16 :: "u16 \<Rightarrow> u8 list" where
  "put16 v = [ucast (drop_bit 8 v), ucast v]"

definition put32 :: "u32 \<Rightarrow> u8 list" where
  "put32 v = [ucast (drop_bit 24 v), ucast (drop_bit 16 v), ucast (drop_bit 8 v), ucast v]"

text \<open>The loop of \<^verbatim>\<open>put64\<close> fills the array from its last byte.\<close>

primrec put_bytes :: "nat \<Rightarrow> u64 \<Rightarrow> u8 list" where
  "put_bytes 0 v = []"
| "put_bytes (Suc n) v = put_bytes n (drop_bit 8 v) @ [ucast v]"

definition put64 :: "u64 \<Rightarrow> u8 list" where
  "put64 v = put_bytes 8 v"

definition get16 :: "u8 list \<Rightarrow> u16" where
  "get16 d = push_bit 8 (ucast (d ! 0)) OR ucast (d ! 1)"

definition get32 :: "u8 list \<Rightarrow> u32" where
  "get32 d = push_bit 24 (ucast (d ! 0)) OR push_bit 16 (ucast (d ! 1))
     OR push_bit 8 (ucast (d ! 2)) OR ucast (d ! 3)"

definition get_bytes :: "u8 list \<Rightarrow> u64" where
  "get_bytes d = foldl (\<lambda>v b. push_bit 8 v OR ucast b) 0 d"

definition get64 :: "u8 list \<Rightarrow> u64" where
  "get64 d = get_bytes (take 8 d)"

lemma length_put16 [simp]: "length (put16 v) = 2"
  by (simp add: put16_def)

lemma length_put32 [simp]: "length (put32 v) = 4"
  by (simp add: put32_def)

lemma length_put_bytes [simp]: "length (put_bytes n v) = n"
  by (induction n arbitrary: v) auto

lemma length_put64 [simp]: "length (put64 v) = 8"
  by (simp add: put64_def)

lemma get16_put16 [codec_simps]: "get16 (put16 v @ rest) = v"
  by (rule bit_word_eqI) (auto simp: get16_def put16_def bit_simps)

lemma get32_put32 [codec_simps]: "get32 (put32 v @ rest) = v"
proof (rule bit_word_eqI)
  fix n assume "n < LENGTH(32)"
  then consider "n < 8" | "8 \<le> n" "n < 16" | "16 \<le> n" "n < 24" | "24 \<le> n" "n < 32"
    by fastforce
  then show "bit (get32 (put32 v @ rest)) n = bit v n"
    by cases (auto simp: get32_def put32_def bit_simps)
qed

lemma get_bytes_snoc: "get_bytes (bs @ [b]) = push_bit 8 (get_bytes bs) OR ucast b"
  by (simp add: get_bytes_def)

lemma get_bytes_put_bytes: "get_bytes (put_bytes n v) = take_bit (8 * n) v"
proof (induction n arbitrary: v)
  case 0
  then show ?case by (simp add: get_bytes_def)
next
  case (Suc n)
  have "get_bytes (put_bytes (Suc n) v)
      = push_bit 8 (take_bit (8 * n) (drop_bit 8 v)) OR ucast (ucast v :: u8)"
    by (simp add: get_bytes_snoc Suc.IH)
  also have "\<dots> = take_bit (8 * Suc n) v"
    by (rule bit_word_eqI) (auto simp: bit_simps)
  finally show ?case .
qed

lemma get64_put64 [codec_simps]: "get64 (put64 v @ rest) = v"
  using get_bytes_put_bytes[of 8 v]
  by (simp add: get64_def put64_def take_bit_word_eq_self)

text \<open>The contract the three integer widths share.\<close>

locale fixed_codec =
  fixes put :: "'v \<Rightarrow> u8 list"
    and get :: "u8 list \<Rightarrow> 'v"
    and width :: nat
  assumes put_width: "length (put v) = width"
    and get_put: "get (put v @ rest) = v"
begin

lemma put_inject: "put v = put w \<Longrightarrow> v = w"
  by (metis get_put)

lemma get_at: "length pre = n \<Longrightarrow> get (drop n (pre @ put v @ rest)) = v"
  by (simp add: get_put)

end

interpretation c16: fixed_codec put16 get16 2
  by unfold_locales (simp_all add: codec_simps)

interpretation c32: fixed_codec put32 get32 4
  by unfold_locales (simp_all add: codec_simps)

interpretation c64: fixed_codec put64 get64 8
  by unfold_locales (simp_all add: codec_simps)

section \<open>The frame header\<close>

datatype frame_error =
    PayloadTooLarge | BadHeader | UnknownType | SendDisconnected | RecvDisconnected
  | PayloadDisconnected

text \<open>
  The header array as \<^verbatim>\<open>encode_header\<close> fills it: every field at its offset, and the two
  bytes at offset 38 left zero.
\<close>

definition encode_header :: "frame \<Rightarrow> frame_error + u8 list" where
  "encode_header f =
     (if length (fr_payload f) > max_payload then Inl PayloadTooLarge
      else Inr (put32 magic @ put16 version @ put16 (type_code (fr_type f))
        @ put64 (fr_session f) @ put64 (fr_request f) @ put32 (fr_position f)
        @ put32 (fr_rows f) @ put32 (fr_cols f) @ put16 (fr_dtype f) @ put16 0
        @ put64 (word_of_nat (length (fr_payload f)))))"

text \<open>
  Decoding checks the magic, the version and the reserved bytes, then the type, then the
  payload size; the decoded frame has no payload yet.
\<close>

definition decode_header :: "u8 list \<Rightarrow> frame_error + (frame \<times> u64)" where
  "decode_header h =
     (if get32 h \<noteq> magic \<or> get16 (drop 4 h) \<noteq> version \<or> get16 (drop 38 h) \<noteq> 0
      then Inl BadHeader
      else
        let raw_type = get16 (drop 6 h) in
        if raw_type > type_code T_prepare_chat then Inl UnknownType
        else
          let payload_size = get64 (drop 40 h) in
          if unat payload_size > max_payload then Inl PayloadTooLarge
          else Inr (\<lparr>fr_type = all_types ! unat raw_type, fr_session = get64 (drop 8 h),
                      fr_request = get64 (drop 16 h), fr_position = get32 (drop 24 h),
                      fr_rows = get32 (drop 28 h), fr_cols = get32 (drop 32 h),
                      fr_dtype = get16 (drop 36 h), fr_payload = []\<rparr>, payload_size))"

lemma type_code_le: "type_code t \<le> type_code T_prepare_chat"
  by (cases t) simp_all

lemma all_types_type_code: "all_types ! unat (type_code t) = t"
  by (cases t) (simp_all add: all_types_def)

lemma type_code_inject: "type_code s = type_code t \<Longrightarrow> s = t"
  by (metis all_types_type_code)

lemma encode_header_length: "encode_header f = Inr h \<Longrightarrow> length h = header_size"
  by (auto simp: encode_header_def header_size_def split: if_splits)

lemma header_fields:
  fixes a :: u32 and b c d e :: u16 and f g n :: u64 and p q r :: u32
  defines "h \<equiv> put32 a @ put16 b @ put16 c @ put64 f @ put64 g @ put32 p @ put32 q @ put32 r
    @ put16 d @ put16 e @ put64 n"
  shows "get32 h = a" "get16 (drop 4 h) = b" "get16 (drop 6 h) = c" "get64 (drop 8 h) = f"
    "get64 (drop 16 h) = g" "get32 (drop 24 h) = p" "get32 (drop 28 h) = q"
    "get32 (drop 32 h) = r" "get16 (drop 36 h) = d" "get16 (drop 38 h) = e"
    "get64 (drop 40 h) = n"
  using c64.get_put[of n "[]"] by (simp_all add: h_def codec_simps)

lemma decode_encode_header:
  assumes "length (fr_payload f) \<le> max_payload"
  shows "\<exists>h. encode_header f = Inr h \<and> length h = header_size \<and>
     decode_header h = Inr (frame_header f, word_of_nat (length (fr_payload f)))"
proof -
  let ?h = "put32 magic @ put16 version @ put16 (type_code (fr_type f))
        @ put64 (fr_session f) @ put64 (fr_request f) @ put32 (fr_position f)
        @ put32 (fr_rows f) @ put32 (fr_cols f) @ put16 (fr_dtype f) @ put16 0
        @ put64 (word_of_nat (length (fr_payload f)))"
  have enc: "encode_header f = Inr ?h"
    using assms by (simp add: encode_header_def)
  have small: "unat (word_of_nat (length (fr_payload f)) :: u64) = length (fr_payload f)"
    using assms by (simp add: max_payload_def unsigned_of_nat take_bit_nat_eq_self)
  have "decode_header ?h = Inr (frame_header f, word_of_nat (length (fr_payload f)))"
    unfolding decode_header_def header_fields
    using assms type_code_le[of "fr_type f"]
    by (simp add: Let_def small all_types_type_code frame_header_def fresh_frame_def not_less)
  with enc encode_header_length[OF enc] show ?thesis by blast
qed

lemma decode_header_payload_bound:
  "decode_header h = Inr (f, n) \<Longrightarrow> unat n \<le> max_payload \<and> fr_payload f = []"
  by (auto simp: decode_header_def Let_def split: if_splits)

section \<open>Sockets\<close>

definition int_max :: nat where
  "int_max = 2147483647"

text \<open>
  \<^verbatim>\<open>send_all\<close>: the kernel accepts a count per call, at most what it was given; a count
  of zero or less is a failure, and so is a connection that accepts nothing more. The result
  is whether everything was sent, with the bytes that went out.
\<close>

fun send_all :: "u8 list \<Rightarrow> int list \<Rightarrow> bool \<times> u8 list \<times> int list" where
  "send_all [] counts = (True, [], counts)"
| "send_all (b # bs) [] = (False, [], [])"
| "send_all (b # bs) (c # cs) =
     (if c \<le> 0 then (False, [], cs)
      else
        let k = min (nat c) (min (length (b # bs)) int_max);
            (ok, out, cs') = send_all (drop k (b # bs)) cs
        in (ok, take k (b # bs) @ out, cs'))"

text \<open>One \<^verbatim>\<open>recv\<close> of at most \<open>n\<close> bytes.\<close>

fun recv_some :: "nat \<Rightarrow> u8 list list \<Rightarrow> u8 list \<times> u8 list list" where
  "recv_some n [] = ([], [])"
| "recv_some n (seg # segs) =
     (take n seg, if length seg \<le> n then segs else drop n seg # segs)"

function recv_all :: "nat \<Rightarrow> u8 list list \<Rightarrow> (u8 list \<times> u8 list list) option" where
  "recv_all sz segs =
     (if sz = 0 then Some ([], segs)
      else
        let (got, segs') = recv_some (min sz int_max) segs
        in if got = [] then None
           else map_option (\<lambda>(more, rest). (got @ more, rest))
             (recv_all (sz - length got) segs'))"
  by pat_completeness auto
termination
  by (relation "measure fst") (auto simp: neq_Nil_conv)

declare recv_all.simps [simp del]

definition send_frame :: "frame \<Rightarrow> int list \<Rightarrow> (frame_error + unit) \<times> u8 list \<times> int list" where
  "send_frame f counts =
     (case encode_header f of
        Inl e \<Rightarrow> (Inl e, [], counts)
      | Inr h \<Rightarrow>
          let (ok, out, cs) = send_all h counts in
          if \<not> ok then (Inl SendDisconnected, out, cs)
          else let (ok', out', cs') = send_all (fr_payload f) cs in
            if ok' then (Inr (), out @ out', cs')
            else (Inl SendDisconnected, out @ out', cs'))"

definition recv_frame :: "u8 list list \<Rightarrow> frame_error + (frame \<times> u8 list list)" where
  "recv_frame segs =
     (case recv_all header_size segs of
        None \<Rightarrow> Inl RecvDisconnected
      | Some (header, segs1) \<Rightarrow>
          (case decode_header header of
             Inl e \<Rightarrow> Inl e
           | Inr (f, payload_size) \<Rightarrow>
               (case recv_all (unat payload_size) segs1 of
                  None \<Rightarrow> Inl PayloadDisconnected
                | Some (payload, segs2) \<Rightarrow> Inr (f\<lparr>fr_payload := payload\<rparr>, segs2))))"

text \<open>What a sent frame puts on the wire, and a run of receives on one connection.\<close>

definition frame_bytes :: "frame \<Rightarrow> u8 list" where
  "frame_bytes f = (case encode_header f of Inl _ \<Rightarrow> [] | Inr h \<Rightarrow> h @ fr_payload f)"

fun recv_frames :: "nat \<Rightarrow> u8 list list \<Rightarrow> frame_error + (frame list \<times> u8 list list)" where
  "recv_frames 0 segs = Inr ([], segs)"
| "recv_frames (Suc n) segs =
     (case recv_frame segs of
        Inl e \<Rightarrow> Inl e
      | Inr (f, segs') \<Rightarrow>
          (case recv_frames n segs' of
             Inl e \<Rightarrow> Inl e | Inr (fs, rest) \<Rightarrow> Inr (f # fs, rest)))"

lemma send_all_ok: "send_all bs cs = (True, out, cs') \<Longrightarrow> out = bs"
  by (induction bs cs arbitrary: out cs' rule: send_all.induct)
    (auto simp: Let_def split: if_splits prod.splits)

lemma send_frame_ok: "send_frame f cs = (Inr (), out, cs') \<Longrightarrow> out = frame_bytes f"
  by (auto simp: send_frame_def frame_bytes_def Let_def dest!: send_all_ok
      split: sum.splits prod.splits if_splits)

lemma recv_some_split:
  assumes "recv_some n segs = (got, segs')"
  shows "concat segs = got @ concat segs'"
  using assms by (cases segs) auto

lemma recv_some_live:
  assumes "recv_some n segs = (got, segs')" and "[] \<notin> set segs" and "segs \<noteq> []" and "n > 0"
  shows "got \<noteq> [] \<and> length got \<le> n \<and> [] \<notin> set segs'"
  using assms by (cases segs) (auto split: if_splits)

text \<open>
  However the stream was cut into segments, \<^const>\<open>recv_all\<close> returns exactly the next
  \<open>sz\<close> bytes when the stream has them.
\<close>

lemma recv_all_exact:
  assumes "[] \<notin> set segs" and "sz \<le> length (concat segs)"
  shows "\<exists>segs'. recv_all sz segs = Some (take sz (concat segs), segs')
     \<and> concat segs' = drop sz (concat segs) \<and> [] \<notin> set segs'"
  using assms
proof (induction sz segs rule: recv_all.induct)
  case (1 sz segs)
  show ?case
  proof (cases "sz = 0")
    case True
    then show ?thesis using "1.prems" by (simp add: recv_all.simps[of 0])
  next
    case False
    obtain got segs' where got: "recv_some (min sz int_max) segs = (got, segs')"
      by fastforce
    have "segs \<noteq> []" using "1.prems"(2) False by auto
    then have live: "got \<noteq> []" "length got \<le> sz" "[] \<notin> set segs'"
      using recv_some_live[OF got "1.prems"(1)] False by (auto simp: int_max_def)
    have split: "concat segs = got @ concat segs'"
      using got by (rule recv_some_split)
    with "1.prems"(2) live(2) have "sz - length got \<le> length (concat segs')" by simp
    with "1.IH"[OF False got[symmetric] refl live(1)] live(3) obtain rest where
      "recv_all (sz - length got) segs'
         = Some (take (sz - length got) (concat segs'), rest)"
      "concat rest = drop (sz - length got) (concat segs')" "[] \<notin> set rest"
      by blast
    with False got live split show ?thesis
      by (simp add: recv_all.simps[of sz segs])
  qed
qed

lemma recv_all_SomeD:
  "recv_all sz segs = Some (bs, rest) \<Longrightarrow> concat segs = bs @ concat rest \<and> length bs = sz"
proof (induction sz segs arbitrary: bs rest rule: recv_all.induct)
  case (1 sz segs)
  show ?case
  proof (cases "sz = 0")
    case True
    then show ?thesis using "1.prems" by (simp add: recv_all.simps[of 0])
  next
    case False
    obtain got segs' where got: "recv_some (min sz int_max) segs = (got, segs')"
      by fastforce
    with "1.prems" False obtain more where
      more: "recv_all (sz - length got) segs' = Some (more, rest)" "bs = got @ more" "got \<noteq> []"
      by (auto simp: recv_all.simps[of sz segs] split: if_splits)
    have "length got \<le> sz"
      using got by (cases segs) (auto split: if_splits)
    with "1.IH"[OF False got[symmetric] refl more(3) more(1)] recv_some_split[OF got] more(2)
    show ?thesis by simp
  qed
qed

lemma recv_frame_frame_bytes:
  assumes live: "[] \<notin> set segs"
    and stream: "concat segs = frame_bytes f @ rest"
    and size: "length (fr_payload f) \<le> max_payload"
  shows "\<exists>segs'. recv_frame segs = Inr (f, segs') \<and> concat segs' = rest \<and> [] \<notin> set segs'"
proof -
  obtain h where h: "encode_header f = Inr h" "length h = header_size"
      "decode_header h = Inr (frame_header f, word_of_nat (length (fr_payload f)))"
    using decode_encode_header[OF size] by blast
  then have bytes: "concat segs = h @ fr_payload f @ rest"
    using stream by (simp add: frame_bytes_def)
  then obtain segs1 where s1: "recv_all header_size segs = Some (h, segs1)"
      "concat segs1 = fr_payload f @ rest" "[] \<notin> set segs1"
    using recv_all_exact[OF live, of header_size] h(2) by auto
  then obtain segs2 where s2: "recv_all (length (fr_payload f)) segs1 = Some (fr_payload f, segs2)"
      "concat segs2 = rest" "[] \<notin> set segs2"
    using recv_all_exact[OF s1(3), of "length (fr_payload f)"] by auto
  have "unat (word_of_nat (length (fr_payload f)) :: u64) = length (fr_payload f)"
    using size by (simp add: max_payload_def unsigned_of_nat take_bit_nat_eq_self)
  with h s1 s2 show ?thesis
    by (simp add: recv_frame_def frame_header_def fresh_frame_def)
qed

lemma recv_frames_stream:
  assumes "[] \<notin> set segs"
    and "concat segs = concat (map frame_bytes fs) @ rest"
    and "list_all (\<lambda>f. length (fr_payload f) \<le> max_payload) fs"
  shows "\<exists>segs'. recv_frames (length fs) segs = Inr (fs, segs') \<and> concat segs' = rest"
  using assms
proof (induction fs arbitrary: segs)
  case (Cons f fs)
  from recv_frame_frame_bytes[of segs f "concat (map frame_bytes fs) @ rest"] Cons.prems
  obtain segs' where s': "recv_frame segs = Inr (f, segs')"
      "concat segs' = concat (map frame_bytes fs) @ rest" "[] \<notin> set segs'"
    by auto
  with Cons.IH[of segs'] Cons.prems(3) obtain segs'' where
    "recv_frames (length fs) segs' = Inr (fs, segs'')" "concat segs'' = rest"
    by auto
  with s'(1) show ?case by simp
qed auto

text \<open>Conversely, the bytes a receive consumes are the encoding of the frame it returns.\<close>

lemma bit_u8_beyond: "8 \<le> k \<Longrightarrow> \<not> bit (b :: u8) k"
  by (auto dest: bit_imp_le_length)

lemma put16_get16_pair: "put16 (get16 (a # b # d)) = [a, b]"
  by (auto simp: put16_def get16_def intro!: bit_word_eqI simp: bit_simps
      bit_u8_beyond)

lemma put32_get32_quad: "put32 (get32 (a # b # c # d # e)) = [a, b, c, d]"
  by (auto simp: put32_def get32_def intro!: bit_word_eqI simp: bit_simps
      bit_u8_beyond)

lemma get_bytes_bound: "bit (get_bytes bs) k \<Longrightarrow> k < 8 * length bs"
proof (induction bs arbitrary: k rule: rev_induct)
  case (snoc b bs)
  then show ?case
    by (cases "k < 8") (force simp: get_bytes_snoc bit_simps bit_u8_beyond)+
qed (simp add: get_bytes_def)

lemma put_bytes_get_bytes: "length bs \<le> 8 \<Longrightarrow> put_bytes (length bs) (get_bytes bs) = bs"
proof (induction bs rule: rev_induct)
  case (snoc b bs)
  have "drop_bit 8 (push_bit 8 (get_bytes bs) OR ucast b) = get_bytes bs"
    using snoc.prems get_bytes_bound[of bs]
    by (intro bit_word_eqI) (fastforce simp: bit_simps dest: bit_imp_le_length)
  moreover have "ucast (push_bit 8 (get_bytes bs) OR ucast b :: u64) = b"
    by (intro bit_word_eqI) (auto simp: bit_simps dest: bit_imp_le_length)
  ultimately show ?case using snoc by (simp add: get_bytes_snoc)
qed simp

lemma put64_get64: "8 \<le> length d \<Longrightarrow> put64 (get64 d) = take 8 d"
  using put_bytes_get_bytes[of "take 8 d"] by (simp add: put64_def get64_def)

lemma put16_get16: "2 \<le> length d \<Longrightarrow> put16 (get16 d) = take 2 d"
  by (cases d; cases "tl d") (auto simp: put16_get16_pair)

lemma put32_get32: "4 \<le> length d \<Longrightarrow> put32 (get32 d) = take 4 d"
  by (cases d; cases "tl d"; cases "tl (tl d)"; cases "tl (tl (tl d))")
    (auto simp: put32_get32_quad)

lemma type_code_all_types: "raw \<le> type_code T_prepare_chat \<Longrightarrow> type_code (all_types ! unat raw) = raw"
proof -
  assume "raw \<le> type_code T_prepare_chat"
  then have "unat raw < 28" by (simp add: word_le_nat_alt)
  then have "\<forall>n < 28. type_code (all_types ! n) = word_of_nat n"
    by (simp add: all_types_def less_Suc_eq numeral_nat(7) all_conj_distrib numeral_eq_Suc)
  then show ?thesis using \<open>unat raw < 28\<close> by simp
qed

lemma header_pieces:
  assumes "length h = 48"
  shows "h = take 4 h @ take 2 (drop 4 h) @ take 2 (drop 6 h) @ take 8 (drop 8 h)
    @ take 8 (drop 16 h) @ take 4 (drop 24 h) @ take 4 (drop 28 h) @ take 4 (drop 32 h)
    @ take 2 (drop 36 h) @ take 2 (drop 38 h) @ take 8 (drop 40 h)"
proof -
  have cut: "drop k h = take n (drop k h) @ drop (k + n) h" for k n
    by (metis append_take_drop_id drop_drop add.commute)
  show ?thesis
    using cut[of 0 4] cut[of 4 2] cut[of 6 2] cut[of 8 8] cut[of 16 8] cut[of 24 4] cut[of 28 4]
      cut[of 32 4] cut[of 36 2] cut[of 38 2] assms by simp
qed

lemma encode_decode_header:
  assumes "length h = header_size" and "decode_header h = Inr (f, n)" and "length p = unat n"
  shows "encode_header (f\<lparr>fr_payload := p\<rparr>) = Inr h"
proof -
  have h: "length h = 48" using assms(1) by (simp add: header_size_def)
  from assms(2) have d: "get32 h = magic" "get16 (drop 4 h) = version" "get16 (drop 38 h) = 0"
    "get16 (drop 6 h) \<le> type_code T_prepare_chat" "n = get64 (drop 40 h)" "unat n \<le> max_payload"
    "f = \<lparr>fr_type = all_types ! unat (get16 (drop 6 h)), fr_session = get64 (drop 8 h),
          fr_request = get64 (drop 16 h), fr_position = get32 (drop 24 h),
          fr_rows = get32 (drop 28 h), fr_cols = get32 (drop 32 h),
          fr_dtype = get16 (drop 36 h), fr_payload = []\<rparr>"
    by (auto simp: decode_header_def Let_def not_less split: if_splits)
  have "put32 (get32 h) @ put16 (get16 (drop 4 h)) @ put16 (get16 (drop 6 h))
      @ put64 (get64 (drop 8 h)) @ put64 (get64 (drop 16 h)) @ put32 (get32 (drop 24 h))
      @ put32 (get32 (drop 28 h)) @ put32 (get32 (drop 32 h)) @ put16 (get16 (drop 36 h))
      @ put16 (get16 (drop 38 h)) @ put64 (get64 (drop 40 h)) = h"
    using header_pieces[OF h] h by (simp add: put16_get16 put32_get32 put64_get64)
  then show ?thesis
    using d assms(3) type_code_all_types[OF d(4)] by (simp add: encode_header_def not_less)
qed

lemma recv_frame_SomeD:
  assumes "recv_frame segs = Inr (f, rest)"
  shows "length (fr_payload f) \<le> max_payload \<and> concat segs = frame_bytes f @ concat rest"
proof -
  obtain h segs1 f0 n p where r: "recv_all header_size segs = Some (h, segs1)"
      "decode_header h = Inr (f0, n)" "recv_all (unat n) segs1 = Some (p, rest)"
      "f = f0\<lparr>fr_payload := p\<rparr>"
    using assms by (auto simp: recv_frame_def split: option.splits sum.splits prod.splits)
  note h = recv_all_SomeD[OF r(1)] and p = recv_all_SomeD[OF r(3)]
  have "encode_header f = Inr h"
    using encode_decode_header[OF _ r(2)] h p r(4) by blast
  with h p r(4) decode_header_payload_bound[OF r(2)] show ?thesis
    by (simp add: frame_bytes_def)
qed

section \<open>Properties\<close>

fun send_frames :: "frame list \<Rightarrow> int list \<Rightarrow> (frame_error + unit) \<times> u8 list \<times> int list" where
  "send_frames [] counts = (Inr (), [], counts)"
| "send_frames (f # fs) counts =
     (case send_frame f counts of
        (Inl e, out, cs) \<Rightarrow> (Inl e, out, cs)
      | (Inr _, out, cs) \<Rightarrow> let (r, out', cs') = send_frames fs cs in (r, out @ out', cs'))"

lemma send_frames_ok:
  "send_frames fs cs = (Inr (), out, cs') \<Longrightarrow>
   out = concat (map frame_bytes fs) \<and> list_all (\<lambda>f. length (fr_payload f) \<le> max_payload) fs"
proof (induction fs arbitrary: cs out)
  case (Cons f fs)
  then obtain o1 c1 o2 where s: "send_frame f cs = (Inr (), o1, c1)"
      "send_frames fs c1 = (Inr (), o2, cs')" "out = o1 @ o2"
    by (auto simp: Let_def split: sum.splits prod.splits)
  moreover have "length (fr_payload f) \<le> max_payload"
    using s(1) by (auto simp: send_frame_def encode_header_def not_less split: if_splits)
  ultimately show ?case
    using Cons.IH[OF s(2)] send_frame_ok[OF s(1)] by simp
qed simp

text \<open>
  C1. A connection carries frames faithfully: when a run of sends succeeds, whatever counts the
  kernel accepted per call, then however the bytes are cut into the receiver's segments, as many
  receives return exactly those frames in order and leave nothing over.
\<close>

theorem frames_cross_the_wire:
  assumes "send_frames fs counts = (Inr (), wire, counts')"
    and "concat segs = wire" and "[] \<notin> set segs"
  shows "\<exists>segs'. recv_frames (length fs) segs = Inr (fs, segs') \<and> concat segs' = []"
  using recv_frames_stream[OF assms(3), of fs "[]"] send_frames_ok[OF assms(1)] assms(2) by simp

definition demo_frame :: frame where
  "demo_frame = fresh_frame\<lparr>fr_type := T_prompt, fr_session := 0x1122334455667788,
     fr_request := 3, fr_rows := 1, fr_payload := [1, 2, 3]\<rparr>"

lemma send_all_full:
  "bs \<noteq> [] \<Longrightarrow> length bs \<le> int_max \<Longrightarrow> int (length bs) \<le> c \<Longrightarrow> send_all bs (c # cs) = (True, bs, cs)"
  by (cases bs) (auto simp: Let_def min_def int_max_def split: if_splits)

lemma demo_frame_sent:
  "send_frame demo_frame [50, 1, 2] = (Inr (), frame_bytes demo_frame, [])"
  "length (frame_bytes demo_frame) = 51"
proof -
  obtain h where h: "encode_header demo_frame = Inr h" "length h = 48"
    using decode_encode_header[of demo_frame]
    by (auto simp: demo_frame_def max_payload_def header_size_def)
  have "send_all h [50, 1, 2] = (True, h, [1, 2])"
    using h by (intro send_all_full) (auto simp: int_max_def)
  moreover have "send_all [1, 2, 3] [1, 2] = (True, [1, 2, 3], [])"
    by (simp add: int_max_def)
  moreover have "fr_payload demo_frame = [1, 2, 3]" by (simp add: demo_frame_def)
  ultimately show "send_frame demo_frame [50, 1, 2] = (Inr (), frame_bytes demo_frame, [])"
      "length (frame_bytes demo_frame) = 51"
    using h by (simp_all add: send_frame_def frame_bytes_def)
qed

theorem frames_cross_the_wire_witness:
  "\<exists>segs'. recv_frames 1 [take 20 (frame_bytes demo_frame), drop 20 (frame_bytes demo_frame)]
       = Inr ([demo_frame], segs') \<and> concat segs' = []"
proof -
  have "send_frames [demo_frame] [50, 1, 2] = (Inr (), frame_bytes demo_frame, [])"
    by (simp add: demo_frame_sent)
  moreover have "take 20 (frame_bytes demo_frame) \<noteq> []" "drop 20 (frame_bytes demo_frame) \<noteq> []"
    using demo_frame_sent(2) by auto
  ultimately show ?thesis
    using frames_cross_the_wire[of "[demo_frame]" "[50, 1, 2]" "frame_bytes demo_frame" "[]"
        "[take 20 (frame_bytes demo_frame), drop 20 (frame_bytes demo_frame)]"] by simp
qed

text \<open>
  C2. A receive trusts nothing but the header it checked: whatever stream arrives, a frame that
  \<^verbatim>\<open>recv_frame\<close> returns has a payload within the limit, and the bytes taken from the stream
  are exactly the encoding of that frame; the rest of the stream is untouched.
\<close>

theorem recv_frame_consumes_its_frame:
  assumes "recv_frame segs = Inr (f, rest)"
  shows "length (fr_payload f) \<le> max_payload \<and> concat segs = frame_bytes f @ concat rest"
  using assms by (rule recv_frame_SomeD)

theorem recv_frame_consumes_its_frame_witness:
  "concat [frame_bytes demo_frame, [9]] = frame_bytes demo_frame @ [9]
   \<and> length (fr_payload demo_frame) \<le> max_payload"
proof -
  have "frame_bytes demo_frame \<noteq> []" using demo_frame_sent(2) by auto
  then obtain rest where "recv_frame [frame_bytes demo_frame, [9]] = Inr (demo_frame, rest)"
      "concat rest = [9]"
    using recv_frame_frame_bytes[of "[frame_bytes demo_frame, [9]]" demo_frame "[9]"]
    by (auto simp: demo_frame_def max_payload_def)
  with recv_frame_consumes_its_frame[of "[frame_bytes demo_frame, [9]]" demo_frame rest]
  show ?thesis by simp
qed

end
