(* ===== verification/Gguf_Index.thy ===== *)
theory Gguf_Index
  imports Prelude Protocol
begin

text \<open>
  The GGUF header parser and the model index (\<^verbatim>\<open>engine/range_model.cpp\<close>, lines 33 to 321 and
  680 to 707): the bounded reader, the metadata and tensor loops, which tensors a range of layers
  owns, and the bytes of a stage. Strings of the file are byte strings.
\<close>

section \<open>Data\<close>

record gguf_tensor =
  gt_name :: string
  gt_offset :: u64
  gt_dimensions :: "u64 list"
  gt_type :: u32

record gguf_index =
  gi_architecture :: string
  gi_layers :: u32
  gi_hidden :: u32
  gi_heads :: u32
  gi_kv_heads :: u32
  gi_experts :: u32
  gi_experts_used :: u32
  gi_ffn_length :: u32
  gi_trained_context :: u32
  gi_expert_ffn_length :: u32
  gi_head_dim_k :: u32
  gi_head_dim_v :: u32
  gi_logical_size :: u64
  gi_data_offset :: u64
  gi_alignment :: u32
  gi_tensors :: "gguf_tensor list"

definition fresh_index :: gguf_index where
  "fresh_index = \<lparr>gi_architecture = [], gi_layers = 0, gi_hidden = 0, gi_heads = 0,
     gi_kv_heads = 0, gi_experts = 0, gi_experts_used = 0, gi_ffn_length = 0,
     gi_trained_context = 0, gi_expert_ffn_length = 0, gi_head_dim_k = 0, gi_head_dim_v = 0,
     gi_logical_size = 0, gi_data_offset = 0, gi_alignment = 32, gi_tensors = []\<rparr>"

record model_tensor =
  mt_name :: string
  mt_bytes :: u64
  mt_dimensions :: "u64 list"
  mt_type :: u32

record model_index =
  mi_architecture :: string
  mi_layers :: u32
  mi_hidden :: u32
  mi_heads :: u32
  mi_kv_heads :: u32
  mi_experts :: u32
  mi_experts_used :: u32
  mi_ffn_length :: u32
  mi_trained_context :: u32
  mi_expert_ffn_length :: u32
  mi_head_dim_k :: u32
  mi_head_dim_v :: u32
  mi_logical_bytes :: u64
  mi_header_bytes :: u64
  mi_tensors :: "model_tensor list"

section \<open>The reader\<close>

record reader =
  rd_bytes :: "u8 list"
  rd_cursor :: nat

definition reader_of :: "u8 list \<Rightarrow> reader" where
  "reader_of bs = \<lparr>rd_bytes = bs, rd_cursor = 0\<rparr>"

text \<open>The bytes of a little-endian integer, lowest first.\<close>

primrec le_word :: "u8 list \<Rightarrow> 'a :: len word" where
  "le_word [] = 0"
| "le_word (b # bs) = ucast b OR push_bit 8 (le_word bs)"

definition reader_bytes :: "nat \<Rightarrow> reader \<Rightarrow> (u8 list \<times> reader) option" where
  "reader_bytes n r =
     (if rd_cursor r > length (rd_bytes r) \<or> length (rd_bytes r) - rd_cursor r < n then None
      else Some (take n (drop (rd_cursor r) (rd_bytes r)), r\<lparr>rd_cursor := rd_cursor r + n\<rparr>))"

definition reader_u32 :: "reader \<Rightarrow> (u32 \<times> reader) option" where
  "reader_u32 r = map_option (\<lambda>(bs, r'). (le_word bs, r')) (reader_bytes 4 r)"

definition reader_u64 :: "reader \<Rightarrow> (u64 \<times> reader) option" where
  "reader_u64 r = map_option (\<lambda>(bs, r'). (le_word bs, r')) (reader_bytes 8 r)"

definition available :: "nat \<Rightarrow> reader \<Rightarrow> bool" where
  "available count r \<longleftrightarrow> count \<le> length (rd_bytes r) \<and> rd_cursor r \<le> length (rd_bytes r) - count"

definition reader_skip :: "nat \<Rightarrow> reader \<Rightarrow> reader option" where
  "reader_skip count r =
     (if count > length (rd_bytes r) \<or> rd_cursor r > length (rd_bytes r) - count then None
      else Some (r\<lparr>rd_cursor := rd_cursor r + count\<rparr>))"

definition reader_string :: "reader \<Rightarrow> (string \<times> reader) option" where
  "reader_string r =
     (case reader_u64 r of
        None \<Rightarrow> None
      | Some (sz, r1) \<Rightarrow>
          if sz > 1024 * 1024 * 32 \<or> \<not> available (unat sz) r1 then None
          else Some (string_of (take (unat sz) (drop (rd_cursor r1) (rd_bytes r1))),
                     r1\<lparr>rd_cursor := rd_cursor r1 + unat sz\<rparr>))"

text \<open>A loop that runs a fallible step a given number of times.\<close>

primrec repeat_opt :: "nat \<Rightarrow> ('s \<Rightarrow> 's option) \<Rightarrow> 's \<Rightarrow> 's option" where
  "repeat_opt 0 f s = Some s"
| "repeat_opt (Suc n) f s = (case f s of None \<Rightarrow> None | Some s' \<Rightarrow> repeat_opt n f s')"

text \<open>
  \<^verbatim>\<open>skip_value\<close> recurses for arrays up to depth 4. The first argument is the number of
  levels left: 5 at depth 0, and 0 is the refused depth 5.
\<close>

primrec skip_value :: "nat \<Rightarrow> u32 \<Rightarrow> reader \<Rightarrow> reader option" where
  "skip_value 0 ty r = None"
| "skip_value (Suc left) ty r =
     (if ty \<in> {0, 1, 7} then reader_skip 1 r
      else if ty \<in> {2, 3} then reader_skip 2 r
      else if ty \<in> {4, 5, 6} then reader_skip 4 r
      else if ty \<in> {10, 11, 12} then reader_skip 8 r
      else if ty = 8 then map_option snd (reader_string r)
      else if ty = 9 then
        (case reader_u32 r of
           None \<Rightarrow> None
         | Some (element_type, r1) \<Rightarrow>
             if element_type > 12 then None
             else
               (case reader_u64 r1 of
                  None \<Rightarrow> None
                | Some (count, r2) \<Rightarrow>
                    if count > 100000000 then None
                    else repeat_opt (unat count) (skip_value left element_type) r2))
      else None)"

definition geometry_suffixes :: "string list" where
  "geometry_suffixes = [''.block_count'', ''.embedding_length'', ''.attention.head_count'',
     ''.attention.head_count_kv'', ''.expert_count'', ''.expert_used_count'',
     ''.feed_forward_length'', ''.context_length'', ''.expert_feed_forward_length'',
     ''.attention.key_length'', ''.attention.value_length'']"

definition architecture_key :: "string \<Rightarrow> bool" where
  "architecture_key key =
     (case find_char (CHR ''.'') key of
        None \<Rightarrow> False | Some dot \<Rightarrow> list_ex (\<lambda>s. drop dot key = s) geometry_suffixes)"

section \<open>Parsing the header\<close>

datatype parse_result = Complete | Incomplete | Invalid

text \<open>The state of the metadata loop: architecture, geometry candidates, alignment, reader.\<close>

type_synonym meta_state = "string \<times> (string \<times> u32) list \<times> u32 \<times> reader"

text \<open>
  A loop that stops early returns the result of the whole parse, the error text it sets (empty
  when it sets none) and the architecture read so far, which stays in the index.
\<close>

type_synonym meta_stop = "parse_result \<times> string \<times> string"

definition parse_metadata_entry :: "meta_state \<Rightarrow> meta_stop + meta_state" where
  "parse_metadata_entry st =
     (case st of (arch, geometry, alignment, r) \<Rightarrow>
       (case reader_string r of
          None \<Rightarrow> Inl (Incomplete, [], arch)
        | Some (key, r1) \<Rightarrow>
          (case reader_u32 r1 of
             None \<Rightarrow> Inl (Incomplete, [], arch)
           | Some (ty, r2) \<Rightarrow>
               if ty > 12 then Inl (Invalid, ''invalid GGUF metadata type'', arch)
               else if key = ''general.architecture'' \<and> ty = 8 then
                 (case reader_string r2 of
                    None \<Rightarrow> Inl (Incomplete, [], arch)
                  | Some (a, r3) \<Rightarrow> Inr (a, geometry, alignment, r3))
               else if architecture_key key \<and> ty = 4 then
                 (case reader_u32 r2 of
                    None \<Rightarrow> Inl (Incomplete, [], arch)
                  | Some (v, r3) \<Rightarrow> Inr (arch, geometry @ [(key, v)], alignment, r3))
               else if key = ''general.alignment'' \<and> ty = 4 then
                 (case reader_u32 r2 of
                    None \<Rightarrow> Inl (Incomplete, [], arch)
                  | Some (v, r3) \<Rightarrow> Inr (arch, geometry, v, r3))
               else
                 (case skip_value 5 ty r2 of
                    None \<Rightarrow> Inl (Incomplete, [], arch)
                  | Some r3 \<Rightarrow> Inr (arch, geometry, alignment, r3)))))"

primrec parse_metadata :: "nat \<Rightarrow> meta_state \<Rightarrow> meta_stop + meta_state" where
  "parse_metadata 0 st = Inr st"
| "parse_metadata (Suc n) st =
     (case parse_metadata_entry st of Inl e \<Rightarrow> Inl e | Inr st' \<Rightarrow> parse_metadata n st')"

primrec parse_dimensions :: "nat \<Rightarrow> u64 list \<Rightarrow> reader \<Rightarrow> (u64 list \<times> reader) option" where
  "parse_dimensions 0 ds r = Some (ds, r)"
| "parse_dimensions (Suc n) ds r =
     (case reader_u64 r of None \<Rightarrow> None | Some (d, r1) \<Rightarrow> parse_dimensions n (ds @ [d]) r1)"

definition parse_tensor :: "reader \<Rightarrow> (parse_result \<times> string) + (gguf_tensor \<times> reader)" where
  "parse_tensor r =
     (case reader_string r of
        None \<Rightarrow> Inl (Incomplete, [])
      | Some (name, r1) \<Rightarrow>
          if name = [] then Inl (Incomplete, [])
          else
            (case reader_u32 r1 of
               None \<Rightarrow> Inl (Incomplete, [])
             | Some (dimensions, r2) \<Rightarrow>
                 if dimensions = 0 \<or> dimensions > 4 then
                   Inl (Invalid, ''invalid GGUF tensor dimensions'')
                 else
                   (case parse_dimensions (unat dimensions) [] r2 of
                      None \<Rightarrow> Inl (Incomplete, [])
                    | Some (ds, r3) \<Rightarrow>
                        (case reader_u32 r3 of
                           None \<Rightarrow> Inl (Incomplete, [])
                         | Some (ty, r4) \<Rightarrow>
                             (case reader_u64 r4 of
                                None \<Rightarrow> Inl (Incomplete, [])
                              | Some (off, r5) \<Rightarrow>
                                  Inr (\<lparr>gt_name = name, gt_offset = off, gt_dimensions = ds,
                                         gt_type = ty\<rparr>, r5))))))"

primrec parse_tensors ::
    "nat \<Rightarrow> gguf_tensor list \<Rightarrow> reader \<Rightarrow> (parse_result \<times> string) + (gguf_tensor list \<times> reader)" where
  "parse_tensors 0 ts r = Inr (ts, r)"
| "parse_tensors (Suc n) ts r =
     (case parse_tensor r of Inl e \<Rightarrow> Inl e | Inr (t, r1) \<Rightarrow> parse_tensors n (ts @ [t]) r1)"

text \<open>The check of every tensor against the data section and against its predecessor.\<close>

fun offsets_ok :: "u64 \<Rightarrow> gguf_tensor list \<Rightarrow> bool" where
  "offsets_ok limit [] \<longleftrightarrow> True"
| "offsets_ok limit [t] \<longleftrightarrow> gt_offset t < limit"
| "offsets_ok limit (t # u # ts) \<longleftrightarrow>
     gt_offset t < limit \<and> gt_offset t < gt_offset u \<and> offsets_ok limit (u # ts)"

definition geometry_value :: "string \<Rightarrow> (string \<times> u32) list \<Rightarrow> string \<Rightarrow> u32 \<Rightarrow> u32" where
  "geometry_value arch geometry suffix old =
     (case map_of geometry (arch @ CHR ''.'' # suffix) of None \<Rightarrow> old | Some v \<Rightarrow> v)"

definition fill_geometry :: "(string \<times> u32) list \<Rightarrow> gguf_index \<Rightarrow> gguf_index" where
  "fill_geometry g i =
     (let get = geometry_value (gi_architecture i) g
      in i\<lparr>gi_layers := get ''block_count'' (gi_layers i),
           gi_hidden := get ''embedding_length'' (gi_hidden i),
           gi_heads := get ''attention.head_count'' (gi_heads i),
           gi_kv_heads := get ''attention.head_count_kv'' (gi_kv_heads i),
           gi_experts := get ''expert_count'' (gi_experts i),
           gi_experts_used := get ''expert_used_count'' (gi_experts_used i),
           gi_ffn_length := get ''feed_forward_length'' (gi_ffn_length i),
           gi_trained_context := get ''context_length'' (gi_trained_context i),
           gi_expert_ffn_length := get ''expert_feed_forward_length'' (gi_expert_ffn_length i),
           gi_head_dim_k := get ''attention.key_length'' (gi_head_dim_k i),
           gi_head_dim_v := get ''attention.value_length'' (gi_head_dim_v i)\<rparr>)"

definition align_up :: "u64 \<Rightarrow> u64 \<Rightarrow> u64" where
  "align_up pos alignment = (pos + alignment - 1) AND NOT (alignment - 1)"

text \<open>
  The checks after the two loops. \<^verbatim>\<open>std::sort\<close> may order equal offsets either way; they are
  refused in both cases.
\<close>

definition finish_index ::
    "u64 \<Rightarrow> string \<Rightarrow> (string \<times> u32) list \<Rightarrow> u32 \<Rightarrow> gguf_tensor list \<Rightarrow> reader \<Rightarrow> gguf_index
     \<Rightarrow> parse_result \<times> gguf_index \<times> string" where
  "finish_index logical_size arch geometry alignment tensors r i =
     (let data_offset = align_up (word_of_nat (rd_cursor r)) (ucast alignment);
          sorted = sort_key gt_offset tensors;
          i0 = i\<lparr>gi_architecture := arch\<rparr>
      in if data_offset \<ge> logical_size then
           (Invalid, i0, ''GGUF data offset exceeds file size'')
         else if \<not> offsets_ok (logical_size - data_offset) sorted then
           (Invalid, i0, ''invalid or overlapping GGUF tensor offsets'')
         else (Complete, (fill_geometry geometry i0)\<lparr>gi_logical_size := logical_size,
                 gi_data_offset := data_offset, gi_alignment := alignment,
                 gi_tensors := sorted\<rparr>, []))"

definition parse_index ::
    "u8 list \<Rightarrow> u64 \<Rightarrow> gguf_index \<Rightarrow> parse_result \<times> gguf_index \<times> string" where
  "parse_index bs logical_size i =
     (case reader_u32 (reader_of bs) of None \<Rightarrow> (Incomplete, i, []) | Some (gmagic, r1) \<Rightarrow>
      (case reader_u32 r1 of None \<Rightarrow> (Incomplete, i, []) | Some (gversion, r2) \<Rightarrow>
      (case reader_u64 r2 of None \<Rightarrow> (Incomplete, i, []) | Some (tensor_count, r3) \<Rightarrow>
      (case reader_u64 r3 of None \<Rightarrow> (Incomplete, i, []) | Some (metadata_count, r4) \<Rightarrow>
        if gmagic \<noteq> 0x46554747 \<or> gversion < 2 \<or> gversion > 3 \<or> tensor_count = 0
          \<or> tensor_count > 1000000 \<or> metadata_count > 1000000
        then (Invalid, i, ''invalid GGUF header'')
        else
          (case parse_metadata (unat metadata_count) (gi_architecture i, [], 32, r4) of
             Inl (res, err, arch) \<Rightarrow> (res, i\<lparr>gi_architecture := arch\<rparr>, err)
           | Inr (arch, geometry, alignment, r5) \<Rightarrow>
               if alignment = 0 \<or> alignment > 1024 * 1024 \<or> alignment AND (alignment - 1) \<noteq> 0
               then (Invalid, i\<lparr>gi_architecture := arch\<rparr>, ''invalid GGUF alignment'')
               else
                 (case parse_tensors (unat tensor_count) [] r5 of
                    Inl (res, err) \<Rightarrow> (res, i\<lparr>gi_architecture := arch\<rparr>, err)
                  | Inr (tensors, r6) \<Rightarrow>
                      finish_index logical_size arch geometry alignment tensors r6 i))))))"

section \<open>Tensors of a stage\<close>

definition block_layer :: "string \<Rightarrow> int option" where
  "block_layer name =
     (if \<not> starts_with name ''blk.'' then None
      else
        (case find_char (CHR ''.'') (drop 4 name) of
           None \<Rightarrow> None | Some e \<Rightarrow> from_chars_int (take e (drop 4 name))))"

definition owned_tensor :: "string \<Rightarrow> int \<Rightarrow> int \<Rightarrow> int \<Rightarrow> bool \<Rightarrow> bool" where
  "owned_tensor name b e layers output_present =
     (case block_layer name of
        Some layer \<Rightarrow> layer \<ge> b \<and> layer < e
      | None \<Rightarrow>
          if name = ''token_embd.weight'' then b = 0 \<or> (e = layers \<and> \<not> output_present)
          else if starts_with name ''output_norm.'' \<or> starts_with name ''output.'' then e = layers
          else False)"

text \<open>Each tensor spans the bytes up to the next one, the last to the end of the file.\<close>

fun tensor_spans :: "u64 \<Rightarrow> gguf_tensor list \<Rightarrow> model_tensor list" where
  "tensor_spans limit [] = []"
| "tensor_spans limit [t] =
     [\<lparr>mt_name = gt_name t, mt_bytes = limit - gt_offset t, mt_dimensions = gt_dimensions t,
       mt_type = gt_type t\<rparr>]"
| "tensor_spans limit (t # u # ts) =
     \<lparr>mt_name = gt_name t, mt_bytes = gt_offset u - gt_offset t,
      mt_dimensions = gt_dimensions t, mt_type = gt_type t\<rparr> # tensor_spans limit (u # ts)"

definition fill_model_index :: "gguf_index \<Rightarrow> string + model_index" where
  "fill_model_index p =
     (if gi_architecture p = [] \<or> gi_layers p < 2 \<or> gi_hidden p = 0 \<or> gi_heads p = 0
        \<or> gi_kv_heads p = 0
      then Inl ''unsupported or incomplete GGUF metadata''
      else Inr \<lparr>mi_architecture = gi_architecture p, mi_layers = gi_layers p,
        mi_hidden = gi_hidden p, mi_heads = gi_heads p, mi_kv_heads = gi_kv_heads p,
        mi_experts = gi_experts p, mi_experts_used = gi_experts_used p,
        mi_ffn_length = gi_ffn_length p, mi_trained_context = gi_trained_context p,
        mi_expert_ffn_length = gi_expert_ffn_length p, mi_head_dim_k = gi_head_dim_k p,
        mi_head_dim_v = gi_head_dim_v p, mi_logical_bytes = gi_logical_size p,
        mi_header_bytes = gi_data_offset p,
        mi_tensors = tensor_spans (gi_logical_size p - gi_data_offset p) (gi_tensors p)\<rparr>)"

definition parse_model_header :: "u8 list \<Rightarrow> u64 \<Rightarrow> string + model_index" where
  "parse_model_header header logical_bytes =
     (case parse_index header logical_bytes fresh_index of
        (Incomplete, _, err) \<Rightarrow> Inl (if err = [] then ''incomplete GGUF header'' else err)
      | (Invalid, _, err) \<Rightarrow> Inl err
      | (Complete, p, _) \<Rightarrow> fill_model_index p)"

text \<open>A sum that gives up at the first overflow.\<close>

primrec checked_sum :: "u64 \<Rightarrow> u64 list \<Rightarrow> u64 option" where
  "checked_sum acc [] = Some acc"
| "checked_sum acc (b # bs) = (if acc > - 1 - b then None else checked_sum (acc + b) bs)"

definition output_present :: "model_index \<Rightarrow> bool" where
  "output_present m \<longleftrightarrow> list_ex (\<lambda>t. mt_name t = ''output.weight'') (mi_tensors m)"

definition owned_bytes :: "model_index \<Rightarrow> int \<Rightarrow> int \<Rightarrow> u64 list" where
  "owned_bytes m b e = map mt_bytes
     (filter (\<lambda>t. owned_tensor (mt_name t) b e (sint (mi_layers m)) (output_present m))
       (mi_tensors m))"

definition stage_model_bytes :: "model_index \<Rightarrow> int \<Rightarrow> int \<Rightarrow> u64" where
  "stage_model_bytes m b e =
     (if b < 0 \<or> e \<le> b \<or> e > sint (mi_layers m) then 0
      else case checked_sum (mi_header_bytes m) (owned_bytes m b e) of None \<Rightarrow> 0 | Some s \<Rightarrow> s)"

section \<open>Lemmas\<close>

subsection \<open>The reader stays inside its bytes\<close>

definition reader_within :: "u8 list \<Rightarrow> reader \<Rightarrow> bool" where
  "reader_within bs r \<longleftrightarrow> rd_bytes r = bs \<and> rd_cursor r \<le> length bs"

lemma reader_of_within [inv_intros]: "reader_within bs (reader_of bs)"
  by (simp add: reader_within_def reader_of_def)

lemma reader_bytes_within: "reader_within bs r \<Longrightarrow> reader_bytes n r = Some (v, r') \<Longrightarrow> reader_within bs r'"
  by (auto simp: reader_within_def reader_bytes_def split: if_splits)

lemma reader_u32_within [inv_intros]:
  "reader_within bs r \<Longrightarrow> reader_u32 r = Some (v, r') \<Longrightarrow> reader_within bs r'"
  by (auto simp: reader_u32_def dest: reader_bytes_within)

lemma reader_u64_within [inv_intros]:
  "reader_within bs r \<Longrightarrow> reader_u64 r = Some (v, r') \<Longrightarrow> reader_within bs r'"
  by (auto simp: reader_u64_def dest: reader_bytes_within)

lemma reader_skip_within [inv_intros]:
  "reader_within bs r \<Longrightarrow> reader_skip n r = Some r' \<Longrightarrow> reader_within bs r'"
  by (auto simp: reader_within_def reader_skip_def split: if_splits)

lemma reader_string_within [inv_intros]:
  "reader_within bs r \<Longrightarrow> reader_string r = Some (v, r') \<Longrightarrow> reader_within bs r'"
  using reader_u64_within[of bs r]
  by (fastforce simp: reader_string_def available_def reader_within_def
      split: option.splits if_splits prod.splits)

lemma repeat_opt_inv:
  assumes "\<And>s s'. I s \<Longrightarrow> f s = Some s' \<Longrightarrow> I s'"
  shows "I s \<Longrightarrow> repeat_opt n f s = Some s' \<Longrightarrow> I s'"
  by (induction n arbitrary: s) (auto split: option.splits dest: assms)

lemma skip_value_within [inv_intros]:
  "reader_within bs r \<Longrightarrow> skip_value left ty r = Some r' \<Longrightarrow> reader_within bs r'"
proof (induction left arbitrary: ty r r')
  case (Suc left)
  show ?case
  proof (cases "ty = 9")
    case True
    with Suc.prems(2) obtain et r1 c r2 where r: "reader_u32 r = Some (et, r1)"
        "reader_u64 r1 = Some (c, r2)" "repeat_opt (unat c) (skip_value left et) r2 = Some r'"
      by (auto split: option.splits if_splits prod.splits)
    have "reader_within bs r2"
      using Suc.prems(1) r by (blast intro: inv_intros)
    then show ?thesis
      using repeat_opt_inv[where I = "reader_within bs" and f = "skip_value left et", OF _ _ r(3)] Suc.IH
      by blast
  next
    case False
    with Suc.prems show ?thesis
      by (auto split: if_splits intro: inv_intros)
  qed
qed simp

lemmas within_dests = reader_u32_within reader_u64_within reader_string_within skip_value_within

lemma parse_metadata_entry_within:
  assumes w: "reader_within bs r" and p: "parse_metadata_entry (a, g, l, r) = Inr (a', g', l', r')"
  shows "reader_within bs r'"
proof -
  obtain key r1 ty r2 where r: "reader_string r = Some (key, r1)" "reader_u32 r1 = Some (ty, r2)"
    using p by (auto simp: parse_metadata_entry_def split: option.splits prod.splits)
  have w2: "reader_within bs r2"
    using reader_u32_within[OF reader_string_within[OF w r(1)] r(2)] .
  have "(\<exists>v. reader_string r2 = Some (v, r')) \<or> (\<exists>v. reader_u32 r2 = Some (v, r'))
      \<or> skip_value 5 ty r2 = Some r'"
    using p r by (auto simp: parse_metadata_entry_def split: option.splits if_splits)
  then show ?thesis
    using w2 by (blast dest: within_dests)
qed

lemma parse_metadata_within [inv_intros]:
  "reader_within bs r \<Longrightarrow> parse_metadata n (a, g, l, r) = Inr (a', g', l', r') \<Longrightarrow>
   reader_within bs r'"
proof (induction n arbitrary: a g l r)
  case (Suc n)
  then obtain a1 g1 l1 r1 where "parse_metadata_entry (a, g, l, r) = Inr (a1, g1, l1, r1)"
      "parse_metadata n (a1, g1, l1, r1) = Inr (a', g', l', r')"
    by (auto split: sum.splits)
  then show ?case using Suc.IH Suc.prems(1) parse_metadata_entry_within by blast
qed simp

lemma parse_dimensions_within [inv_intros]:
  "reader_within bs r \<Longrightarrow> parse_dimensions n ds r = Some (ds', r') \<Longrightarrow> reader_within bs r'"
  by (induction n arbitrary: ds r) (auto split: option.splits dest: reader_u64_within)

lemma parse_tensor_within:
  assumes w: "reader_within bs r" and p: "parse_tensor r = Inr (t, r')"
  shows "reader_within bs r'"
proof -
  obtain name r1 n r2 ds r3 ty r4 off where r: "reader_string r = Some (name, r1)"
      "reader_u32 r1 = Some (n, r2)" "parse_dimensions (unat n) [] r2 = Some (ds, r3)"
      "reader_u32 r3 = Some (ty, r4)" "reader_u64 r4 = Some (off, r')"
    using p by (auto simp: parse_tensor_def split: option.splits if_splits prod.splits)
  show ?thesis
    by (rule reader_u64_within[OF reader_u32_within[OF parse_dimensions_within[OF
            reader_u32_within[OF reader_string_within[OF w r(1)] r(2)] r(3)] r(4)] r(5)])
qed

lemma parse_tensors_within [inv_intros]:
  "reader_within bs r \<Longrightarrow> parse_tensors n ts r = Inr (ts', r') \<Longrightarrow>
   reader_within bs r' \<and> length ts' = length ts + n"
  by (induction n arbitrary: ts r) (auto split: sum.splits dest: parse_tensor_within)

subsection \<open>The layout of a parsed file\<close>

lemma offsets_ok_limit: "offsets_ok limit ts \<Longrightarrow> t \<in> set ts \<Longrightarrow> gt_offset t < limit"
  by (induction limit ts rule: offsets_ok.induct) auto

text \<open>Each span reaches from its tensor to the next one, the last to the end of the data section.\<close>

lemma tensor_spans_length [simp]: "length (tensor_spans limit ts) = length ts"
  by (induction limit ts rule: tensor_spans.induct) simp_all

lemma tensor_spans_nth:
  "offsets_ok limit ts \<Longrightarrow> k < length ts \<Longrightarrow>
   mt_name (tensor_spans limit ts ! k) = gt_name (ts ! k) \<and> mt_bytes (tensor_spans limit ts ! k) \<noteq> 0
   \<and> unat (gt_offset (ts ! k)) + unat (mt_bytes (tensor_spans limit ts ! k))
     = (if Suc k < length ts then unat (gt_offset (ts ! Suc k)) else unat limit)"
proof (induction limit ts arbitrary: k rule: tensor_spans.induct)
  case (2 limit t)
  then show ?case by (auto simp: unat_diff_u64 word_less_nat_alt word_le_nat_alt)
next
  case (3 limit t u ts)
  then show ?case
    by (cases k) (auto simp: unat_diff_u64 word_less_nat_alt less_imp_le word_le_nat_alt)
qed simp

lemma align_up_ge:
  assumes "unat pos + unat a \<le> u64_max" and "a \<noteq> 0"
  shows "unat pos \<le> unat (align_up pos a)"
proof -
  let ?m = "a - 1" let ?y = "pos + (a - 1)"
  have m: "unat ?m = unat a - 1" using assms(2) by (simp add: unat_minus_one)
  then have uy: "unat ?y = unat pos + unat ?m"
    using assms(1) by (intro unat_add_u64) linarith
  have "?y - (?y AND ?m) = ?y AND NOT (?y AND ?m)"
    by (rule disjunctive_diff_eq_and_not) (simp add: bit_eq_iff bit_simps)
  also have "\<dots> = ?y AND NOT ?m" by (auto simp: bit_eq_iff bit_simps)
  finally have "align_up pos a = ?y - (?y AND ?m)" by (simp add: align_up_def add_diff_eq)
  moreover have "unat (?y AND ?m) \<le> unat ?m" using word_and_le1[of ?y ?m] by (simp add: word_le_nat_alt)
  ultimately show ?thesis using uy by (simp add: unat_diff_u64 word_and_le2)
qed

lemma align_up_less:
  assumes "unat pos + unat a \<le> u64_max" and "a \<noteq> 0"
  shows "unat (align_up pos a) < unat pos + unat a"
proof -
  have m: "unat (a - 1) = unat a - 1" "0 < unat a" using assms(2) by (simp_all add: unat_minus_one unat_gt_0)
  then have "unat (pos + (a - 1)) = unat pos + (unat a - 1)"
    using assms(1) unat_add_u64[of pos "a - 1"] by simp
  moreover have "align_up pos a \<le> pos + (a - 1)" by (simp add: align_up_def word_and_le2 add_diff_eq)
  ultimately show ?thesis using m(2) by (simp add: word_le_nat_alt)
qed

lemma finish_index_complete:
  assumes "finish_index n arch g al ts r i = (Complete, p, err)"
  shows "gi_logical_size p = n \<and> gi_data_offset p = align_up (word_of_nat (rd_cursor r)) (ucast al)
    \<and> gi_data_offset p < n \<and> gi_tensors p = sort_key gt_offset ts \<and> gi_alignment p = al
    \<and> offsets_ok (n - gi_data_offset p) (gi_tensors p)"
  using assms by (auto simp: finish_index_def Let_def split: if_splits)

lemma parse_metadata_stops: "parse_metadata n st \<noteq> Inl (Complete, e)"
proof (induction n arbitrary: st)
  case (Suc n)
  have "parse_metadata_entry st \<noteq> Inl (Complete, e)"
    by (cases st) (auto simp: parse_metadata_entry_def split: option.splits prod.splits)
  with Suc show ?case by (auto split: sum.splits)
qed simp

lemma parse_tensors_stops: "parse_tensors n ts r \<noteq> Inl (Complete, e)"
proof (induction n arbitrary: ts r)
  case (Suc n)
  have "parse_tensor r \<noteq> Inl (Complete, e)"
    by (auto simp: parse_tensor_def split: option.splits prod.splits)
  with Suc show ?case by (auto split: sum.splits prod.splits)
qed simp

subsection \<open>More bytes do not change a complete parse\<close>

definition extend_reader :: "u8 list \<Rightarrow> reader \<Rightarrow> reader" where
  "extend_reader x r = r\<lparr>rd_bytes := rd_bytes r @ x\<rparr>"

lemma reader_bytes_extend:
  "reader_bytes n r = Some (v, r') \<Longrightarrow> reader_bytes n (extend_reader x r) = Some (v, extend_reader x r')"
  by (auto simp: reader_bytes_def extend_reader_def split: if_splits)

lemma reader_u32_extend:
  assumes "reader_u32 r = Some (v, r')"
  shows "reader_u32 (extend_reader x r) = Some (v, extend_reader x r')"
proof -
  obtain bs where bs: "reader_bytes 4 r = Some (bs, r')" "v = le_word bs"
    using assms by (auto simp: reader_u32_def)
  from reader_bytes_extend[OF bs(1), of x] bs(2) show ?thesis by (simp add: reader_u32_def)
qed

lemma reader_u64_extend:
  assumes "reader_u64 r = Some (v, r')"
  shows "reader_u64 (extend_reader x r) = Some (v, extend_reader x r')"
proof -
  obtain bs where bs: "reader_bytes 8 r = Some (bs, r')" "v = le_word bs"
    using assms by (auto simp: reader_u64_def)
  from reader_bytes_extend[OF bs(1), of x] bs(2) show ?thesis by (simp add: reader_u64_def)
qed

lemma reader_skip_extend:
  "reader_skip n r = Some r' \<Longrightarrow> reader_skip n (extend_reader x r) = Some (extend_reader x r')"
  by (auto simp: reader_skip_def extend_reader_def split: if_splits)

lemma reader_string_extend:
  assumes "reader_string r = Some (v, r')"
  shows "reader_string (extend_reader x r) = Some (v, extend_reader x r')"
proof -
  obtain sz r1 where r: "reader_u64 r = Some (sz, r1)" "\<not> sz > 1024 * 1024 * 32" "available (unat sz) r1"
      "v = string_of (take (unat sz) (drop (rd_cursor r1) (rd_bytes r1)))"
      "r' = r1\<lparr>rd_cursor := rd_cursor r1 + unat sz\<rparr>"
    using assms by (auto simp: reader_string_def split: option.splits if_splits)
  then have "available (unat sz) (extend_reader x r1)"
    "unat sz - (length (rd_bytes r1) - rd_cursor r1) = 0"
    by (auto simp: available_def extend_reader_def)
  moreover have "rd_cursor (extend_reader x r1) = rd_cursor r1" "rd_bytes (extend_reader x r1) = rd_bytes r1 @ x"
      "extend_reader x r' = (extend_reader x r1)\<lparr>rd_cursor := rd_cursor r1 + unat sz\<rparr>"
    using r(5) by (simp_all add: extend_reader_def)
  ultimately show ?thesis
    using r(2,4) reader_u64_extend[OF r(1), of x] by (simp only: reader_string_def) simp
qed

lemma repeat_opt_extend:
  assumes "\<And>r r'. f r = Some r' \<Longrightarrow> f (extend_reader x r) = Some (extend_reader x r')"
  shows "repeat_opt n f r = Some r' \<Longrightarrow> repeat_opt n f (extend_reader x r) = Some (extend_reader x r')"
proof (induction n arbitrary: r)
  case (Suc n)
  then obtain r1 where "f r = Some r1" "repeat_opt n f r1 = Some r'" by (auto split: option.splits)
  with Suc.IH[of r1] assms[of r r1] show ?case by simp
qed simp

lemma skip_value_extend:
  "skip_value left ty r = Some r' \<Longrightarrow> skip_value left ty (extend_reader x r) = Some (extend_reader x r')"
proof (induction left arbitrary: ty r r')
  case (Suc left)
  show ?case
  proof (cases "ty = 9")
    case True
    with Suc.prems obtain et r1 c r2 where r: "reader_u32 r = Some (et, r1)" "\<not> et > 12"
        "reader_u64 r1 = Some (c, r2)" "\<not> c > 100000000" "repeat_opt (unat c) (skip_value left et) r2 = Some r'"
      by (auto split: option.splits if_splits prod.splits)
    have "repeat_opt (unat c) (skip_value left et) (extend_reader x r2) = Some (extend_reader x r')"
      using r(5) by (rule repeat_opt_extend[rotated]) (rule Suc.IH)
    with True r reader_u32_extend[OF r(1), of x] reader_u64_extend[OF r(3), of x] show ?thesis by simp
  next
    case False
    with Suc.prems show ?thesis
      by (auto split: if_splits dest: reader_skip_extend[where x = x] reader_string_extend[where x = x])
  qed
qed simp

lemma parse_metadata_entry_extend:
  assumes p: "parse_metadata_entry (a, g, l, r) = Inr (a', g', l', r')"
  shows "parse_metadata_entry (a, g, l, extend_reader x r) = Inr (a', g', l', extend_reader x r')"
proof -
  obtain key r1 ty r2 where r: "reader_string r = Some (key, r1)" "reader_u32 r1 = Some (ty, r2)"
    using p by (auto simp: parse_metadata_entry_def split: option.splits prod.splits)
  note e = reader_string_extend[OF r(1), of x] reader_u32_extend[OF r(2), of x]
  show ?thesis
    using p r e
    by (auto simp: parse_metadata_entry_def split: if_splits option.splits
        dest: reader_string_extend[where x = x] reader_u32_extend[where x = x] skip_value_extend[where x = x])
qed

lemma parse_metadata_extend:
  "parse_metadata n (a, g, l, r) = Inr (a', g', l', r') \<Longrightarrow>
   parse_metadata n (a, g, l, extend_reader x r) = Inr (a', g', l', extend_reader x r')"
proof (induction n arbitrary: a g l r)
  case (Suc n)
  then obtain a1 g1 l1 r1 where e: "parse_metadata_entry (a, g, l, r) = Inr (a1, g1, l1, r1)"
      "parse_metadata n (a1, g1, l1, r1) = Inr (a', g', l', r')"
    by (auto split: sum.splits)
  then show ?case using Suc.IH[OF e(2)] parse_metadata_entry_extend[OF e(1)] by simp
qed simp

lemma parse_dimensions_extend:
  "parse_dimensions n ds r = Some (ds', r') \<Longrightarrow>
   parse_dimensions n ds (extend_reader x r) = Some (ds', extend_reader x r')"
proof (induction n arbitrary: ds r)
  case (Suc n)
  then obtain d r1 where d: "reader_u64 r = Some (d, r1)" "parse_dimensions n (ds @ [d]) r1 = Some (ds', r')"
    by (auto split: option.splits)
  with Suc.IH[OF d(2)] reader_u64_extend[OF d(1), of x] show ?case by simp
qed simp

lemma parse_tensor_extend:
  assumes p: "parse_tensor r = Inr (t, r')"
  shows "parse_tensor (extend_reader x r) = Inr (t, extend_reader x r')"
proof -
  obtain name r1 n r2 ds r3 ty r4 off where r: "reader_string r = Some (name, r1)"
      "reader_u32 r1 = Some (n, r2)" "parse_dimensions (unat n) [] r2 = Some (ds, r3)"
      "reader_u32 r3 = Some (ty, r4)" "reader_u64 r4 = Some (off, r')"
    using p by (auto simp: parse_tensor_def split: option.splits if_splits prod.splits)
  note e = reader_string_extend[OF r(1), of x] reader_u32_extend[OF r(2), of x]
    parse_dimensions_extend[OF r(3), of x] reader_u32_extend[OF r(4), of x] reader_u64_extend[OF r(5), of x]
  show ?thesis using p r e by (simp add: parse_tensor_def split: if_splits)
qed

lemma parse_tensors_extend:
  "parse_tensors n ts r = Inr (ts', r') \<Longrightarrow>
   parse_tensors n ts (extend_reader x r) = Inr (ts', extend_reader x r')"
proof (induction n arbitrary: ts r)
  case (Suc n)
  then obtain t r1 where t: "parse_tensor r = Inr (t, r1)" "parse_tensors n (ts @ [t]) r1 = Inr (ts', r')"
    by (auto split: sum.splits)
  with Suc.IH[OF t(2)] parse_tensor_extend[OF t(1), of x] show ?case by simp
qed simp

lemma parse_index_extend:
  assumes "parse_index bs n i = (Complete, p, err)"
  shows "parse_index (bs @ x) n i = (Complete, p, err)"
proof -
  obtain gm r1 gv r2 tc r3 mc r4 where r: "reader_u32 (reader_of bs) = Some (gm, r1)"
      "reader_u32 r1 = Some (gv, r2)" "reader_u64 r2 = Some (tc, r3)" "reader_u64 r3 = Some (mc, r4)"
    using assms by (auto simp: parse_index_def split: option.splits)
  then obtain arch g al r5 ts r6 where l: "parse_metadata (unat mc) (gi_architecture i, [], 32, r4)
        = Inr (arch, g, al, r5)" "parse_tensors (unat tc) [] r5 = Inr (ts, r6)"
    using assms by (auto simp: parse_index_def not_less parse_metadata_stops parse_tensors_stops
        split: sum.splits if_splits prod.splits)
  have eo: "reader_of (bs @ x) = extend_reader x (reader_of bs)"
    by (simp add: reader_of_def extend_reader_def)
  have fin: "finish_index n arch g al ts (extend_reader x r6) i = finish_index n arch g al ts r6 i"
    by (simp add: finish_index_def extend_reader_def)
  note e = reader_u32_extend[OF r(1), of x] reader_u32_extend[OF r(2), of x]
    reader_u64_extend[OF r(3), of x] reader_u64_extend[OF r(4), of x]
    parse_metadata_extend[OF l(1), of x] parse_tensors_extend[OF l(2), of x]
  show ?thesis
    using assms r l e fin by (simp add: parse_index_def eo split: if_splits)
qed

subsection \<open>The bytes before the data section are enough\<close>

text \<open>An operation that ends before byte \<open>m\<close> gives the same on the first \<open>m\<close> bytes alone.\<close>

definition shrink :: "nat \<Rightarrow> reader \<Rightarrow> reader" where
  "shrink m r = r\<lparr>rd_bytes := take m (rd_bytes r)\<rparr>"

named_theorems shrink_dests

lemma reader_bytes_shrink:
  "reader_bytes n r = Some (v, r') \<Longrightarrow> rd_cursor r \<le> rd_cursor r'
   \<and> (rd_cursor r' \<le> m \<longrightarrow> reader_bytes n (shrink m r) = Some (v, shrink m r'))"
  by (auto simp: reader_bytes_def shrink_def drop_take min_def split: if_splits)

lemma reader_u32_shrink [shrink_dests]:
  "reader_u32 r = Some (v, r') \<Longrightarrow> rd_cursor r \<le> rd_cursor r'
   \<and> (rd_cursor r' \<le> m \<longrightarrow> reader_u32 (shrink m r) = Some (v, shrink m r'))"
  by (auto simp: reader_u32_def dest: reader_bytes_shrink[where m = m])

lemma reader_u64_shrink [shrink_dests]:
  "reader_u64 r = Some (v, r') \<Longrightarrow> rd_cursor r \<le> rd_cursor r'
   \<and> (rd_cursor r' \<le> m \<longrightarrow> reader_u64 (shrink m r) = Some (v, shrink m r'))"
  by (auto simp: reader_u64_def dest: reader_bytes_shrink[where m = m])

lemma reader_skip_shrink [shrink_dests]:
  "reader_skip n r = Some r' \<Longrightarrow> rd_cursor r \<le> rd_cursor r'
   \<and> (rd_cursor r' \<le> m \<longrightarrow> reader_skip n (shrink m r) = Some (shrink m r'))"
  by (auto simp: reader_skip_def shrink_def min_def split: if_splits)

lemma reader_string_shrink [shrink_dests]:
  assumes "reader_string r = Some (v, r')"
  shows "rd_cursor r \<le> rd_cursor r'
    \<and> (rd_cursor r' \<le> m \<longrightarrow> reader_string (shrink m r) = Some (v, shrink m r'))"
proof -
  obtain sz r1 where r: "reader_u64 r = Some (sz, r1)" "\<not> sz > 1024 * 1024 * 32" "available (unat sz) r1"
      "v = string_of (take (unat sz) (drop (rd_cursor r1) (rd_bytes r1)))"
      "r' = r1\<lparr>rd_cursor := rd_cursor r1 + unat sz\<rparr>"
    using assms by (auto simp: reader_string_def split: option.splits if_splits)
  have "available (unat sz) (shrink m r1)"
    "take (unat sz) (drop (rd_cursor r1) (take m (rd_bytes r1)))
       = take (unat sz) (drop (rd_cursor r1) (rd_bytes r1))" if "rd_cursor r1 + unat sz \<le> m"
    using that r(3) by (auto simp: available_def shrink_def min_def drop_take)
  with r reader_u64_shrink[OF r(1), of m] show ?thesis
    by (auto simp: reader_string_def shrink_def)
qed

lemma repeat_opt_shrink:
  assumes "\<And>r r'. f r = Some r' \<Longrightarrow> rd_cursor r \<le> rd_cursor r'
    \<and> (rd_cursor r' \<le> m \<longrightarrow> f (shrink m r) = Some (shrink m r'))"
  shows "repeat_opt n f r = Some r' \<Longrightarrow> rd_cursor r \<le> rd_cursor r'
    \<and> (rd_cursor r' \<le> m \<longrightarrow> repeat_opt n f (shrink m r) = Some (shrink m r'))"
proof (induction n arbitrary: r)
  case (Suc n)
  then obtain r1 where "f r = Some r1" "repeat_opt n f r1 = Some r'" by (auto split: option.splits)
  with Suc.IH[of r1] assms[of r r1] show ?case by auto
qed simp

lemma skip_value_shrink [shrink_dests]:
  "skip_value left ty r = Some r' \<Longrightarrow> rd_cursor r \<le> rd_cursor r'
   \<and> (rd_cursor r' \<le> m \<longrightarrow> skip_value left ty (shrink m r) = Some (shrink m r'))"
proof (induction left arbitrary: ty r r')
  case (Suc left)
  show ?case
  proof (cases "ty = 9")
    case True
    with Suc.prems obtain et r1 c r2 where r: "reader_u32 r = Some (et, r1)" "\<not> et > 12"
        "reader_u64 r1 = Some (c, r2)" "\<not> c > 100000000" "repeat_opt (unat c) (skip_value left et) r2 = Some r'"
      by (auto split: option.splits if_splits prod.splits)
    from repeat_opt_shrink[OF Suc.IH r(5)] True r reader_u32_shrink[OF r(1), of m]
      reader_u64_shrink[OF r(3), of m] show ?thesis by auto
  next
    case False
    with Suc.prems show ?thesis
      by (auto split: if_splits dest: reader_skip_shrink[where m = m] reader_string_shrink[where m = m])
  qed
qed simp

lemma parse_metadata_entry_shrink:
  assumes p: "parse_metadata_entry (a, g, l, r) = Inr (a', g', l', r')"
  shows "rd_cursor r \<le> rd_cursor r'
    \<and> (rd_cursor r' \<le> m \<longrightarrow> parse_metadata_entry (a, g, l, shrink m r) = Inr (a', g', l', shrink m r'))"
proof -
  obtain key r1 ty r2 where r: "reader_string r = Some (key, r1)" "reader_u32 r1 = Some (ty, r2)"
    using p by (auto simp: parse_metadata_entry_def split: option.splits prod.splits)
  note e = reader_string_shrink[OF r(1), of m] reader_u32_shrink[OF r(2), of m]
  have last: "rd_cursor r2 \<le> rd_cursor r'"
    using p r by (auto simp: parse_metadata_entry_def split: if_splits option.splits
        dest: shrink_dests[where m = m])
  show ?thesis
    using p r e last
    by (auto simp: parse_metadata_entry_def split: if_splits option.splits dest: shrink_dests[where m = m])
qed

lemma parse_metadata_shrink:
  "parse_metadata n (a, g, l, r) = Inr (a', g', l', r') \<Longrightarrow> rd_cursor r \<le> rd_cursor r'
   \<and> (rd_cursor r' \<le> m \<longrightarrow> parse_metadata n (a, g, l, shrink m r) = Inr (a', g', l', shrink m r'))"
proof (induction n arbitrary: a g l r)
  case (Suc n)
  then obtain a1 g1 l1 r1 where e: "parse_metadata_entry (a, g, l, r) = Inr (a1, g1, l1, r1)"
      "parse_metadata n (a1, g1, l1, r1) = Inr (a', g', l', r')"
    by (auto split: sum.splits)
  then show ?case using Suc.IH[OF e(2)] parse_metadata_entry_shrink[OF e(1), of m] by auto
qed simp

lemma parse_dimensions_shrink:
  "parse_dimensions n ds r = Some (ds', r') \<Longrightarrow> rd_cursor r \<le> rd_cursor r'
   \<and> (rd_cursor r' \<le> m \<longrightarrow> parse_dimensions n ds (shrink m r) = Some (ds', shrink m r'))"
proof (induction n arbitrary: ds r)
  case (Suc n)
  then obtain d r1 where d: "reader_u64 r = Some (d, r1)" "parse_dimensions n (ds @ [d]) r1 = Some (ds', r')"
    by (auto split: option.splits)
  with Suc.IH[OF d(2)] reader_u64_shrink[OF d(1), of m] show ?case by auto
qed simp

lemma parse_tensor_shrink:
  assumes p: "parse_tensor r = Inr (t, r')"
  shows "rd_cursor r \<le> rd_cursor r'
    \<and> (rd_cursor r' \<le> m \<longrightarrow> parse_tensor (shrink m r) = Inr (t, shrink m r'))"
proof -
  obtain name r1 n r2 ds r3 ty r4 off where r: "reader_string r = Some (name, r1)"
      "reader_u32 r1 = Some (n, r2)" "parse_dimensions (unat n) [] r2 = Some (ds, r3)"
      "reader_u32 r3 = Some (ty, r4)" "reader_u64 r4 = Some (off, r')"
    using p by (auto simp: parse_tensor_def split: option.splits if_splits prod.splits)
  note e = reader_string_shrink[OF r(1), of m] reader_u32_shrink[OF r(2), of m]
    parse_dimensions_shrink[OF r(3), of m] reader_u32_shrink[OF r(4), of m] reader_u64_shrink[OF r(5), of m]
  show ?thesis using p r e by (auto simp: parse_tensor_def split: if_splits)
qed

lemma parse_tensors_shrink:
  "parse_tensors n ts r = Inr (ts', r') \<Longrightarrow> rd_cursor r \<le> rd_cursor r'
   \<and> (rd_cursor r' \<le> m \<longrightarrow> parse_tensors n ts (shrink m r) = Inr (ts', shrink m r'))"
proof (induction n arbitrary: ts r)
  case (Suc n)
  then obtain t r1 where t: "parse_tensor r = Inr (t, r1)" "parse_tensors n (ts @ [t]) r1 = Inr (ts', r')"
    by (auto split: sum.splits)
  with Suc.IH[OF t(2)] parse_tensor_shrink[OF t(1), of m] show ?case by auto
qed simp

lemma parse_index_consumed:
  assumes "parse_index bs n i = (Complete, p, err)"
  shows "\<exists>arch g al ts r. finish_index n arch g al ts r i = (Complete, p, err)
    \<and> ts \<noteq> [] \<and> reader_within bs r \<and> al \<noteq> 0 \<and> al \<le> 1024 * 1024
    \<and> parse_index (take (rd_cursor r) bs) n i = (Complete, p, err)"
proof -
  obtain gm r1 gv r2 tc r3 mc r4 where r: "reader_u32 (reader_of bs) = Some (gm, r1)"
      "reader_u32 r1 = Some (gv, r2)" "reader_u64 r2 = Some (tc, r3)" "reader_u64 r3 = Some (mc, r4)"
    using assms by (auto simp: parse_index_def split: option.splits)
  then obtain arch g al r5 ts r6 where l: "parse_metadata (unat mc) (gi_architecture i, [], 32, r4)
        = Inr (arch, g, al, r5)" "parse_tensors (unat tc) [] r5 = Inr (ts, r6)"
      "finish_index n arch g al ts r6 i = (Complete, p, err)" "tc \<noteq> 0" "al \<noteq> 0" "al \<le> 1024 * 1024"
    using assms by (auto simp: parse_index_def not_less parse_metadata_stops parse_tensors_stops
        split: sum.splits if_splits prod.splits)
  have "reader_within bs r4"
    by (rule reader_u64_within[OF reader_u64_within[OF reader_u32_within[OF reader_u32_within[OF
              reader_of_within r(1)] r(2)] r(3)] r(4)])
  then have within: "reader_within bs r6 \<and> length ts = unat tc"
    using parse_tensors_within[OF parse_metadata_within[OF _ l(1)] l(2)] by simp
  define m where "m = rd_cursor r6"
  have so: "reader_of (take m bs) = shrink m (reader_of bs)" by (simp add: reader_of_def shrink_def)
  have fin: "finish_index n arch g al ts (shrink m r6) i = finish_index n arch g al ts r6 i"
    by (simp add: finish_index_def shrink_def)
  note e = reader_u32_shrink[OF r(1), of m] reader_u32_shrink[OF r(2), of m] reader_u64_shrink[OF r(3), of m]
    reader_u64_shrink[OF r(4), of m] parse_metadata_shrink[OF l(1), of m] parse_tensors_shrink[OF l(2), of m]
  have "rd_cursor r6 \<le> m" by (simp add: m_def)
  with e have "reader_u32 (shrink m (reader_of bs)) = Some (gm, shrink m r1)"
    "reader_u32 (shrink m r1) = Some (gv, shrink m r2)" "reader_u64 (shrink m r2) = Some (tc, shrink m r3)"
    "reader_u64 (shrink m r3) = Some (mc, shrink m r4)"
    "parse_metadata (unat mc) (gi_architecture i, [], 32, shrink m r4) = Inr (arch, g, al, shrink m r5)"
    "parse_tensors (unat tc) [] (shrink m r5) = Inr (ts, shrink m r6)" by auto
  with assms r l fin have "parse_index (take m bs) n i = (Complete, p, err)"
    by (simp add: parse_index_def so split: if_splits)
  moreover have "ts \<noteq> []" using within l(4) by (auto simp: unat_eq_0[symmetric])
  ultimately show ?thesis using l(3,5,6) within unfolding m_def by blast
qed

lemma parsed_consumed:
  assumes p: "parse_index header n i = (Complete, p, err)" and "length header < 2 ^ 63"
  shows "\<exists>consumed \<le> length header. parse_index (take consumed header) n i = (Complete, p, err)
    \<and> consumed \<le> unat (gi_data_offset p) \<and> unat (gi_data_offset p) < consumed + unat (gi_alignment p)"
proof -
  obtain arch g al ts r where f: "finish_index n arch g al ts r i = (Complete, p, err)"
      "reader_within header r" "al \<noteq> 0" "al \<le> 1024 * 1024"
      "parse_index (take (rd_cursor r) header) n i = (Complete, p, err)"
    using parse_index_consumed[OF p] by blast
  note fin = finish_index_complete[OF f(1)]
  have c: "rd_cursor r < 2 ^ 63" using f(2) assms(2) by (simp add: reader_within_def)
  then have u: "unat (word_of_nat (rd_cursor r) :: u64) = rd_cursor r"
    by (simp add: unsigned_of_nat take_bit_nat_eq_self)
  have a: "unat (ucast al :: u64) \<le> 1024 * 1024" "(ucast al :: u64) \<noteq> 0"
    using f(3,4) unat_ucast_u32_u64[of al] by (auto simp: word_le_nat_alt unat_eq_0[symmetric])
  have "rd_cursor r \<le> unat (gi_data_offset p)" "unat (gi_data_offset p) < rd_cursor r + unat (gi_alignment p)"
    using align_up_ge[of "word_of_nat (rd_cursor r)" "ucast al"]
      align_up_less[of "word_of_nat (rd_cursor r)" "ucast al"] u a c fin by simp_all
  with f(2,5) show ?thesis by (auto simp: reader_within_def)
qed

subsection \<open>The bytes of a stage\<close>

lemma checked_sum_exact:
  "checked_sum acc bs =
     (if unat acc + (\<Sum>b \<leftarrow> bs. unat b) \<le> u64_max
      then Some (word_of_nat (unat acc + (\<Sum>b \<leftarrow> bs. unat b))) else None)"
proof (induction bs arbitrary: acc)
  case (Cons b bs)
  have over: "acc > - 1 - b \<longleftrightarrow> u64_max < unat acc + unat b"
    using unat_diff_u64[of b "- 1"] by (simp add: word_less_nat_alt less_diff_conv2)
  show ?case
  proof (cases "acc > - 1 - b")
    case True
    with over show ?thesis by simp
  next
    case False
    with over have "unat (acc + b) = unat acc + unat b" by (intro unat_add_u64) linarith
    with False Cons.IH[of "acc + b"] show ?thesis by (simp add: add.assoc)
  qed
qed simp

lemma checked_sum_Some: "checked_sum acc bs = Some s \<Longrightarrow> unat s = unat acc + (\<Sum>b \<leftarrow> bs. unat b)"
  using unat_word_of_nat_u64[of "unat acc + (\<Sum>b \<leftarrow> bs. unat b)"]
  by (simp only: checked_sum_exact option.inject split: if_splits) auto

lemma stage_model_bytes_nonzero:
  assumes "stage_model_bytes m b e \<noteq> 0"
  shows "0 \<le> b \<and> b < e \<and> e \<le> sint (mi_layers m) \<and>
    unat (stage_model_bytes m b e) = unat (mi_header_bytes m) + (\<Sum>x \<leftarrow> owned_bytes m b e. unat x)"
  using assms checked_sum_Some[of "mi_header_bytes m" "owned_bytes m b e"]
  by (auto simp: stage_model_bytes_def split: if_splits option.splits)

subsection \<open>A small file: one metadata entry and one tensor\<close>

definition le32 :: "nat \<Rightarrow> u8 list" where
  "le32 n = [word_of_nat n, 0, 0, 0]"

definition le64 :: "nat \<Rightarrow> u8 list" where
  "le64 n = word_of_nat n # replicate 7 0"

definition gguf_text :: "string \<Rightarrow> u8 list" where
  "gguf_text s = le64 (length s) @ bytes_of s"

definition sample_gguf :: "u8 list" where
  "sample_gguf = [0x47, 0x47, 0x55, 0x46] @ le32 3 @ le64 1 @ le64 1
     @ gguf_text ''q.r'' @ le32 4 @ le32 2
     @ gguf_text ''blk.0.w'' @ le32 1 @ le64 8 @ le32 0 @ le64 0"

definition sample_gguf_index :: gguf_index where
  "sample_gguf_index = fresh_index\<lparr>gi_logical_size := 1048576, gi_data_offset := 96,
     gi_tensors := [\<lparr>gt_name = ''blk.0.w'', gt_offset = 0, gt_dimensions = [8], gt_type = 0\<rparr>]\<rparr>"

lemma sample_gguf_parses:
  "parse_index sample_gguf 1048576 fresh_index = (Complete, sample_gguf_index, [])"
  by code_simp

lemma sample_gguf_length: "length sample_gguf = 82"
  by (simp add: sample_gguf_def le32_def le64_def gguf_text_def bytes_of_def)

section \<open>Properties\<close>



text \<open>
  Fetching more of a file never changes what was parsed: once the parser accepts a prefix of a
  file, it accepts every longer prefix with the same index, so the loop that fetches the header
  chunk by chunk may stop at the first complete parse.
\<close>

theorem parse_index_prefix_stable:
  assumes "parse_index bs n i = (Complete, p, err)"
  shows "parse_index (bs @ further) n i = (Complete, p, err)"
  using assms by (rule parse_index_extend)

theorem parse_index_prefix_stable_witness:
  "parse_index (sample_gguf @ [1, 2, 3]) 1048576 fresh_index = (Complete, sample_gguf_index, [])"
  using parse_index_prefix_stable[OF sample_gguf_parses] .

end
