(* ===== verification/Range_Cache.thy ===== *)
theory Range_Cache
  imports Gguf_Index "HOL-Library.Code_Target_Nat"
begin

text \<open>
  The byte ranges a stage downloads and the cache file beside the model
  (\<^verbatim>\<open>engine/range_model.cpp\<close>, lines 339 to 608): which ranges a stage needs, how they are
  cut into downloads, what a server's answer must say before its bytes are accepted, and the text
  of the range-cache file. The download program is the parameter \<open>curl\<close>: the body and the
  response headers it wrote, or nothing when it failed.
\<close>

section \<open>Requests, statistics and ranges\<close>

record range_request =
  rq_url :: string
  rq_revision :: string
  rq_full_sha256 :: string
  rq_path :: string
  rq_stage_start :: int
  rq_stage_end :: int

record range_stats =
  rs_logical_bytes :: u64
  rs_physical_bytes :: u64
  rs_downloaded_bytes :: u64
  rs_shared_bytes :: u64
  rs_header_bytes :: u64
  rs_tensors_present :: u64
  rs_cache_reused :: bool

definition fresh_stats :: range_stats where
  "fresh_stats = \<lparr>rs_logical_bytes = 0, rs_physical_bytes = 0, rs_downloaded_bytes = 0,
     rs_shared_bytes = 0, rs_header_bytes = 0, rs_tensors_present = 0, rs_cache_reused = False\<rparr>"

record byte_range =
  br_offset :: u64
  br_size :: u64
  br_sha256 :: string

definition metadata_chunk :: u64 where
  "metadata_chunk = 1024 * 1024"

definition max_metadata :: u64 where
  "max_metadata = 64 * 1024 * 1024"

definition download_chunk :: u64 where
  "download_chunk = 256 * 1024 * 1024"

section \<open>The ranges of a stage\<close>

text \<open>The layers a file has: one more than the highest block number.\<close>

definition block_count :: "gguf_tensor list \<Rightarrow> int" where
  "block_count ts = fold (\<lambda>t layers.
     case block_layer (gt_name t) of None \<Rightarrow> layers | Some l \<Rightarrow> max layers (l + 1)) ts 0"

definition has_output :: "gguf_tensor list \<Rightarrow> bool" where
  "has_output ts \<longleftrightarrow> list_ex (\<lambda>t. gt_name t = ''output.weight'') ts"

text \<open>A span that starts where the last range ends extends it.\<close>

definition add_span :: "byte_range list \<Rightarrow> u64 \<Rightarrow> u64 \<Rightarrow> byte_range list" where
  "add_span ranges start finish =
     (let r = last ranges
      in if br_offset r + br_size r = start
         then butlast ranges @ [r\<lparr>br_size := br_size r + (finish - start)\<rparr>]
         else ranges @ [\<lparr>br_offset = start, br_size = finish - start, br_sha256 = []\<rparr>])"

definition span_finish :: "gguf_index \<Rightarrow> gguf_tensor list \<Rightarrow> u64" where
  "span_finish p after =
     (case after of [] \<Rightarrow> gi_logical_size p | u # _ \<Rightarrow> gi_data_offset p + gt_offset u)"

fun range_loop ::
    "gguf_index \<Rightarrow> int \<Rightarrow> int \<Rightarrow> int \<Rightarrow> bool \<Rightarrow> gguf_tensor list
     \<Rightarrow> byte_range list \<times> u64 \<times> u64 \<Rightarrow> byte_range list \<times> u64 \<times> u64" where
  "range_loop p b e layers out [] acc = acc"
| "range_loop p b e layers out (t # ts) (ranges, n, shared) =
     (if \<not> owned_tensor (gt_name t) b e layers out
      then range_loop p b e layers out ts (ranges, n, shared)
      else
        let start = gi_data_offset p + gt_offset t; finish = span_finish p ts
        in range_loop p b e layers out ts
             (add_span ranges start finish, n + 1,
              if gt_name t = ''token_embd.weight'' \<and> b \<noteq> 0 then shared + (finish - start) else shared))"

definition required_ranges :: "gguf_index \<Rightarrow> int \<Rightarrow> int \<Rightarrow> byte_range list \<times> u64 \<times> u64" where
  "required_ranges p b e =
     range_loop p b e (block_count (gi_tensors p)) (has_output (gi_tensors p)) (gi_tensors p)
       ([\<lparr>br_offset = 0, br_size = gi_data_offset p, br_sha256 = []\<rparr>], 0, 0)"

text \<open>A chunk lies in what is left of the range, and no addition wraps.\<close>

lemma chunk_step:
  fixes consumed limit :: u64
  assumes "consumed < limit"
  defines "sz \<equiv> min download_chunk (limit - consumed)"
  shows "unat (consumed + sz) = unat consumed + unat sz" "0 < unat sz"
    "unat consumed + unat sz \<le> unat limit" "unat sz \<le> 268435456"
proof -
  have d: "unat (limit - consumed) = unat limit - unat consumed"
    using assms(1) by (simp add: unat_diff_u64 less_imp_le)
  have lt: "unat consumed < unat limit" using assms(1) by (simp add: word_less_nat_alt)
  have sz: "unat sz = min 268435456 (unat limit - unat consumed)"
    unfolding sz_def download_chunk_def using d by (simp add: min_def word_le_nat_alt)
  then show "0 < unat sz" "unat consumed + unat sz \<le> unat limit" "unat sz \<le> 268435456"
    using lt by auto
  then show "unat (consumed + sz) = unat consumed + unat sz"
    using unat_u64_le[of limit] by (intro unat_add_u64) linarith
qed

text \<open>The loop over one range; \<open>consumed\<close> bytes of it are already covered by chunks.\<close>

function chunks :: "byte_range \<Rightarrow> u64 \<Rightarrow> byte_range list" where
  "chunks r consumed =
     (if \<not> consumed < br_size r then []
      else
        let sz = min download_chunk (br_size r - consumed)
        in \<lparr>br_offset = br_offset r + consumed, br_size = sz, br_sha256 = []\<rparr> # chunks r (consumed + sz))"
  by pat_completeness auto
termination
  by (relation "measure (\<lambda>(r, consumed). unat (br_size r) - unat consumed)")
    (simp, use chunk_step in \<open>fastforce simp: word_less_nat_alt\<close>)

declare chunks.simps [simp del]

definition bounded_ranges :: "byte_range list \<Rightarrow> byte_range list" where
  "bounded_ranges ranges = concat (map (\<lambda>r. chunks r 0) ranges)"

section \<open>Lemmas on ranges\<close>

text \<open>The file positions of ranges, and lists of ranges in file order that stay in the file.\<close>

definition range_end :: "byte_range \<Rightarrow> nat" where
  "range_end r = unat (br_offset r) + unat (br_size r)"

definition covered :: "byte_range list \<Rightarrow> nat set" where
  "covered rs = (\<Union>r \<in> set rs. {unat (br_offset r)..<range_end r})"

definition ranges_within :: "nat \<Rightarrow> byte_range list \<Rightarrow> bool" where
  "ranges_within limit rs \<longleftrightarrow>
     sorted_wrt (\<lambda>r r'. range_end r \<le> unat (br_offset r')) rs \<and> (\<forall>r \<in> set rs. range_end r \<le> limit)"

lemma covered_append [simp]: "covered (xs @ ys) = covered xs \<union> covered ys"
  by (auto simp: covered_def)

lemma covered_concat: "covered (concat xss) = (\<Union>xs \<in> set xss. covered xs)"
  by (auto simp: covered_def)

lemma ranges_within_append:
  "ranges_within limit (xs @ ys) \<longleftrightarrow> ranges_within limit xs \<and> ranges_within limit ys
     \<and> (\<forall>x \<in> set xs. \<forall>y \<in> set ys. range_end x \<le> unat (br_offset y))"
  by (auto simp: ranges_within_def sorted_wrt_append)

text \<open>Adding a span that lies after every range so far.\<close>

lemma add_span_ok:
  assumes "rs \<noteq> []" and "ranges_within (unat start) rs" and "start < finish"
  shows "ranges_within (unat finish) (add_span rs start finish)"
    "covered (add_span rs start finish) = covered rs \<union> {unat start..<unat finish}"
    "add_span rs start finish \<noteq> []"
proof -
  let ?r = "last rs"
  obtain pre where pre: "rs = pre @ [?r]" using assms(1) by (metis append_butlast_last_id)
  have lt: "unat start < unat finish" and d: "unat (finish - start) = unat finish - unat start"
    using assms(3) by (simp_all add: unat_diff_u64 less_imp_le word_less_nat_alt[symmetric])
  have w: "ranges_within (unat start) pre" "range_end ?r \<le> unat start"
      "\<forall>x \<in> set pre. range_end x \<le> unat (br_offset ?r)"
    using assms(2) pre ranges_within_append[of "unat start" pre "[?r]"] by (simp_all add: ranges_within_def)
  have mono: "ranges_within (unat finish) xs" if "ranges_within (unat start) xs" for xs
    using that lt by (auto simp: ranges_within_def)
  show "add_span rs start finish \<noteq> []" by (simp add: add_span_def Let_def)
  have "ranges_within (unat finish) (add_span rs start finish)
    \<and> covered (add_span rs start finish) = covered rs \<union> {unat start..<unat finish}"
  proof (cases "br_offset ?r + br_size ?r = start")
    case True
    let ?r' = "?r\<lparr>br_size := br_size ?r + (finish - start)\<rparr>"
    have e: "range_end ?r = unat start"
    proof -
      have "unat (br_offset ?r) \<le> u64_max - unat (br_size ?r)"
        using w(2) unat_u64_le[of start] unfolding range_end_def by linarith
      from unat_add_u64[OF this] True show ?thesis by (simp add: range_end_def)
    qed
    have sz: "unat (br_size ?r + (finish - start)) = unat (br_size ?r) + (unat finish - unat start)"
    proof -
      have "unat (br_size ?r) \<le> u64_max - unat (finish - start)"
        unfolding d using e lt unat_u64_le[of finish] unfolding range_end_def by linarith
      from unat_add_u64[OF this] d show ?thesis by simp
    qed
    have e': "range_end ?r' = unat finish" using e sz lt by (simp add: range_end_def)
    have eq: "add_span rs start finish = pre @ [?r']"
      using True pre by (simp add: add_span_def Let_def) (metis butlast_snoc)
    have within: "ranges_within (unat finish) (add_span rs start finish)"
      unfolding eq ranges_within_append using mono[OF w(1)] w(3) e'
      by (auto simp: ranges_within_def)
    have "unat (br_offset ?r) \<le> unat start" using e by (simp add: range_end_def)
    then have "{unat (br_offset ?r)..<unat finish} = {unat (br_offset ?r)..<unat start} \<union> {unat start..<unat finish}"
      using lt by auto
    moreover have "covered rs = covered pre \<union> {unat (br_offset ?r)..<unat start}"
      using arg_cong[OF pre, of covered] e by (simp add: covered_def Un_commute)
    ultimately have "covered (add_span rs start finish) = covered rs \<union> {unat start..<unat finish}"
      using e' unfolding eq by (simp add: covered_def Un_ac)
    with within show ?thesis by blast
  next
    case False
    let ?n = "\<lparr>br_offset = start, br_size = finish - start, br_sha256 = []\<rparr>"
    have e: "range_end ?n = unat finish" using d lt by (simp add: range_end_def)
    have eq: "add_span rs start finish = rs @ [?n]" using False by (simp add: add_span_def Let_def)
    have "ranges_within (unat finish) (add_span rs start finish)"
      unfolding eq ranges_within_append using mono[OF assms(2)] assms(2) e
      by (auto simp: ranges_within_def)
    moreover have "covered (add_span rs start finish) = covered rs \<union> {unat start..<unat finish}"
      unfolding eq using e by (simp add: covered_def Un_commute)
    ultimately show ?thesis by blast
  qed
  then show "ranges_within (unat finish) (add_span rs start finish)"
    "covered (add_span rs start finish) = covered rs \<union> {unat start..<unat finish}"
    by blast+
qed

text \<open>The positions of the owned tensors of a list, from the data offset and the next tensor.\<close>

fun owned_spans :: "gguf_index \<Rightarrow> (string \<Rightarrow> bool) \<Rightarrow> gguf_tensor list \<Rightarrow> nat set" where
  "owned_spans p own [] = {}"
| "owned_spans p own (t # ts) =
     (if own (gt_name t)
      then {unat (gi_data_offset p) + unat (gt_offset t)..<unat (span_finish p ts)} else {})
     \<union> owned_spans p own ts"

lemma span_start:
  assumes "gi_data_offset p < gi_logical_size p"
    and "off < gi_logical_size p - gi_data_offset p"
  shows "unat (gi_data_offset p + off) = unat (gi_data_offset p) + unat off"
    "gi_data_offset p + off < gi_logical_size p"
proof -
  have "unat off < unat (gi_logical_size p) - unat (gi_data_offset p)"
    using assms by (simp add: word_less_nat_alt unat_diff_u64 less_imp_le)
  then have lt: "unat (gi_data_offset p) + unat off < unat (gi_logical_size p)" by linarith
  then show "unat (gi_data_offset p + off) = unat (gi_data_offset p) + unat off"
    using unat_u64_le[of "gi_logical_size p"] by (intro unat_add_u64) linarith
  with lt show "gi_data_offset p + off < gi_logical_size p" by (simp add: word_less_nat_alt)
qed

lemma span_finish_bounds:
  assumes "gi_data_offset p < gi_logical_size p"
    and "offsets_ok (gi_logical_size p - gi_data_offset p) (t # ts)"
  shows "gi_data_offset p + gt_offset t < span_finish p ts" "span_finish p ts \<le> gi_logical_size p"
proof -
  have t: "gt_offset t < gi_logical_size p - gi_data_offset p"
    using assms(2) by (cases ts) auto
  show "gi_data_offset p + gt_offset t < span_finish p ts"
  proof (cases ts)
    case Nil
    then show ?thesis using span_start[OF assms(1) t] by (simp add: span_finish_def)
  next
    case (Cons u us)
    then have "gt_offset t < gt_offset u" "gt_offset u < gi_logical_size p - gi_data_offset p"
      using assms(2) by (cases us; simp)+
    then show ?thesis
      using Cons span_start(1)[OF assms(1)] t by (simp add: span_finish_def word_less_nat_alt)
  qed
  show "span_finish p ts \<le> gi_logical_size p"
  proof (cases ts)
    case (Cons u us)
    then have "gt_offset u < gi_logical_size p - gi_data_offset p"
      using assms(2) by (cases us; simp)
    with Cons span_start(2)[OF assms(1)] show ?thesis by (simp add: span_finish_def less_imp_le)
  qed (simp add: span_finish_def)
qed

lemma range_loop_ok:
  assumes "gi_data_offset p < gi_logical_size p"
  shows "offsets_ok (gi_logical_size p - gi_data_offset p) ts \<Longrightarrow> rs \<noteq> [] \<Longrightarrow>
   ranges_within (case ts of [] \<Rightarrow> unat (gi_logical_size p)
      | t # _ \<Rightarrow> unat (gi_data_offset p) + unat (gt_offset t)) rs \<Longrightarrow>
   range_loop p b e layers out ts (rs, n, sh) = (rs', n', sh') \<Longrightarrow>
   ranges_within (unat (gi_logical_size p)) rs'
   \<and> covered rs' = covered rs \<union> owned_spans p (\<lambda>name. owned_tensor name b e layers out) ts
   \<and> n' = n + word_of_nat (length (filter (\<lambda>t. owned_tensor (gt_name t) b e layers out) ts))"
proof (induction ts arbitrary: rs n sh)
  case Nil
  then show ?case by simp
next
  case (Cons t ts)
  let ?L = "gi_logical_size p" let ?start = "gi_data_offset p + gt_offset t" let ?fin = "span_finish p ts"
  have t: "gt_offset t < ?L - gi_data_offset p" using Cons.prems(1) by (cases ts) auto
  note st = span_start[OF assms t] and fin = span_finish_bounds[OF assms Cons.prems(1)]
  have ok: "offsets_ok (?L - gi_data_offset p) ts" using Cons.prems(1) by (cases ts) auto
  have nxt: "(case ts of [] \<Rightarrow> unat ?L | u # _ \<Rightarrow> unat (gi_data_offset p) + unat (gt_offset u)) = unat ?fin"
  proof (cases ts)
    case (Cons u us)
    then have "gt_offset u < ?L - gi_data_offset p" using ok by (cases us) auto
    with Cons span_start(1)[OF assms] show ?thesis by (simp add: span_finish_def)
  qed (simp add: span_finish_def)
  have within: "ranges_within (unat ?start) rs" using Cons.prems(3) st by simp
  show ?case
  proof (cases "owned_tensor (gt_name t) b e layers out")
    case False
    have "ranges_within (unat ?fin) rs"
      using within fin(1) by (auto simp: ranges_within_def word_less_nat_alt)
    with Cons.IH[OF ok Cons.prems(2)] Cons.prems(4) False nxt show ?thesis by simp
  next
    case True
    note add = add_span_ok[OF Cons.prems(2) within fin(1)]
    from Cons.prems(4) True obtain sh1 where
      "range_loop p b e layers out ts (add_span rs ?start ?fin, n + 1, sh1) = (rs', n', sh')"
      by (auto simp: Let_def)
    from Cons.IH[OF ok add(3) _ this] add(1,2) nxt True st show ?thesis
      by (auto simp: add_ac)
  qed
qed

lemma chunks_ok:
  "unat consumed \<le> unat (br_size r) \<Longrightarrow> range_end r \<le> u64_max \<Longrightarrow>
   covered (chunks r consumed) = {unat (br_offset r) + unat consumed..<range_end r}
   \<and> ranges_within (range_end r) (chunks r consumed)
   \<and> (\<forall>c \<in> set (chunks r consumed). unat (br_offset r) + unat consumed \<le> unat (br_offset c)
        \<and> 0 < unat (br_size c) \<and> unat (br_size c) \<le> 268435456)"
proof (induction r consumed rule: chunks.induct)
  case (1 r consumed)
  show ?case
  proof (cases "consumed < br_size r")
    case False
    then have "unat consumed = unat (br_size r)" using "1.prems"(1) by (simp add: word_less_nat_alt)
    with False show ?thesis
      by (subst (1 2 3) chunks.simps) (simp add: covered_def ranges_within_def range_end_def)
  next
    case True
    define sz where "sz = min download_chunk (br_size r - consumed)"
    let ?c = "\<lparr>br_offset = br_offset r + consumed, br_size = sz, br_sha256 = []\<rparr>"
    note st = chunk_step[OF True, folded sz_def]
    have eq: "chunks r consumed = ?c # chunks r (consumed + sz)"
      using True by (subst chunks.simps) (simp add: sz_def Let_def)
    have off: "unat (br_offset r + consumed) = unat (br_offset r) + unat consumed"
      using "1.prems" unfolding range_end_def by (intro unat_add_u64) arith
    have e: "range_end ?c = unat (br_offset r) + unat consumed + unat sz"
      using off by (simp add: range_end_def)
    have "unat (consumed + sz) \<le> unat (br_size r)" using st by simp
    with "1.IH"[of sz] True sz_def "1.prems"(2) have ih:
      "covered (chunks r (consumed + sz)) = {unat (br_offset r) + unat consumed + unat sz..<range_end r}"
      "ranges_within (range_end r) (chunks r (consumed + sz))"
      "\<forall>c \<in> set (chunks r (consumed + sz)). unat (br_offset r) + unat consumed + unat sz \<le> unat (br_offset c)
        \<and> 0 < unat (br_size c) \<and> unat (br_size c) \<le> 268435456"
      using st(1) by (simp_all add: add.assoc)
    have le: "unat (br_offset r) + unat consumed + unat sz \<le> range_end r"
      using st(3) by (simp add: range_end_def)
    show ?thesis
      unfolding eq using ih e off st le
      by (auto simp: covered_def ranges_within_def)
  qed
qed

lemma bounded_ranges_ok:
  "ranges_within limit rs \<Longrightarrow> limit \<le> u64_max \<Longrightarrow>
   covered (bounded_ranges rs) = covered rs \<and> ranges_within limit (bounded_ranges rs)
   \<and> (\<forall>c \<in> set (bounded_ranges rs). 0 < unat (br_size c) \<and> unat (br_size c) \<le> 268435456
        \<and> (\<exists>r \<in> set rs. unat (br_offset r) \<le> unat (br_offset c) \<and> range_end c \<le> range_end r))"
proof (induction rs)
  case Nil
  then show ?case by (simp add: bounded_ranges_def covered_def ranges_within_def)
next
  case (Cons r rs)
  have r: "range_end r \<le> limit" "\<forall>x \<in> set rs. range_end r \<le> unat (br_offset x)" "ranges_within limit rs"
    using Cons.prems(1) by (auto simp: ranges_within_def)
  note c = chunks_ok[of 0 r, simplified]
  note ih = Cons.IH[OF r(3) Cons.prems(2)]
  have e: "range_end r \<le> u64_max" using r(1) Cons.prems(2) by linarith
  have ends: "range_end x \<le> range_end r" if "x \<in> set (chunks r 0)" for x
    using c[OF e] that by (auto simp: ranges_within_def)
  have eq: "bounded_ranges (r # rs) = chunks r 0 @ bounded_ranges rs" by (simp add: bounded_ranges_def)
  have cov: "covered (bounded_ranges (r # rs)) = covered (r # rs)"
    unfolding eq using c[OF e] ih by (simp add: covered_def)
  have "ranges_within limit (chunks r 0)" using c[OF e] r(1) by (auto simp: ranges_within_def)
  then have "ranges_within limit (bounded_ranges (r # rs))"
    unfolding eq ranges_within_append using ih ends r(2) by (meson order_trans)
  then show ?case using cov c[OF e] ih ends unfolding eq by auto
qed

lemma required_ranges_cover:
  assumes "gi_data_offset p < gi_logical_size p"
    and "offsets_ok (gi_logical_size p - gi_data_offset p) (gi_tensors p)"
    and "required_ranges p b e = (rs, n, shared)"
  shows "covered (bounded_ranges rs) = {..<unat (gi_data_offset p)}
      \<union> owned_spans p (\<lambda>name. owned_tensor name b e (block_count (gi_tensors p))
          (has_output (gi_tensors p))) (gi_tensors p)
    \<and> ranges_within (unat (gi_logical_size p)) (bounded_ranges rs)
    \<and> (\<forall>c \<in> set (bounded_ranges rs). 0 < unat (br_size c) \<and> unat (br_size c) \<le> 268435456)"
proof -
  let ?h = "[\<lparr>br_offset = 0, br_size = gi_data_offset p, br_sha256 = []\<rparr>]"
  have "ranges_within (case gi_tensors p of [] \<Rightarrow> unat (gi_logical_size p)
      | t # _ \<Rightarrow> unat (gi_data_offset p) + unat (gt_offset t)) ?h"
    using assms(1) by (auto simp: ranges_within_def range_end_def word_less_nat_alt split: list.splits)
  from range_loop_ok[OF assms(1,2) _ this assms(3)[unfolded required_ranges_def]]
  have rs: "ranges_within (unat (gi_logical_size p)) rs"
    "covered rs = covered ?h \<union> owned_spans p (\<lambda>name. owned_tensor name b e (block_count (gi_tensors p))
          (has_output (gi_tensors p))) (gi_tensors p)"
    by simp_all
  have "covered ?h = {..<unat (gi_data_offset p)}"
    by (auto simp: covered_def range_end_def)
  with bounded_ranges_ok[OF rs(1)] rs(2) show ?thesis by simp
qed

section \<open>Properties\<close>

text \<open>
  A stage downloads exactly what it needs: for the ranges computed from an index whose tensors
  tile its file, cut into downloads, the positions covered are the header and the bytes of the
  tensors the stage owns, nothing else; the downloads are in file order, do not overlap, stay in
  the file, and each is between one byte and 256 MiB long.
\<close>

theorem downloads_cover_stage:
  assumes "gi_data_offset p < gi_logical_size p"
    and "offsets_ok (gi_logical_size p - gi_data_offset p) (gi_tensors p)"
    and "required_ranges p b e = (rs, n, shared)"
  shows "covered (bounded_ranges rs) = {..<unat (gi_data_offset p)}
      \<union> owned_spans p (\<lambda>name. owned_tensor name b e (block_count (gi_tensors p))
          (has_output (gi_tensors p))) (gi_tensors p)
    \<and> ranges_within (unat (gi_logical_size p)) (bounded_ranges rs)
    \<and> (\<forall>c \<in> set (bounded_ranges rs). 0 < unat (br_size c) \<and> unat (br_size c) \<le> 268435456)"
  using assms by (rule required_ranges_cover)

definition sample_index :: gguf_index where
  "sample_index = fresh_index\<lparr>gi_logical_size := 1000, gi_data_offset := 100,
     gi_tensors := [\<lparr>gt_name = ''blk.0.w'', gt_offset = 0, gt_dimensions = [1], gt_type = 0\<rparr>,
       \<lparr>gt_name = ''blk.1.w'', gt_offset = 300, gt_dimensions = [1], gt_type = 0\<rparr>]\<rparr>"

theorem downloads_cover_stage_witness:
  "covered (bounded_ranges (fst (required_ranges sample_index 1 2))) = {..<100} \<union> {400..<1000}"
proof -
  have own: "\<not> owned_tensor ''blk.0.w'' 1 2 2 False" "owned_tensor ''blk.1.w'' 1 2 2 False"
    "block_count (gi_tensors sample_index) = 2" "\<not> has_output (gi_tensors sample_index)"
    by code_simp+
  have "owned_spans sample_index (\<lambda>name. owned_tensor name 1 2 2 False) (gi_tensors sample_index) = {400..<1000}"
    using own(1,2) by (simp add: sample_index_def fresh_index_def span_finish_def)
  then show ?thesis
    using downloads_cover_stage[of sample_index 1 2 "fst (required_ranges sample_index 1 2)"
        "fst (snd (required_ranges sample_index 1 2))" "snd (snd (required_ranges sample_index 1 2))"]
      own(3,4)
    by (simp add: sample_index_def fresh_index_def)
qed

end
