(* ===== verification/Range_Download.thy ===== *)
theory Range_Download
  imports Range_Cache
begin

text \<open>
  Downloading a stage's part of a model into a sparse file (\<^verbatim>\<open>engine/range_model.cpp\<close>, lines
  339 to 407 and 512 to 888). The files that outlive a call are the model, its range-cache file
  and the partial range-cache file; temporary files are values. What belongs to the system is the
  environment \<open>range_env\<close>: the download program, the digest program, whether the n-th file
  operation succeeds, the free space and the blocks a sparse file occupies. A digest program that
  fails on a cached range is one that returns a text that is not its digest: both make the code
  take the same branch.
\<close>

section \<open>The answer of a server\<close>

text \<open>\<^verbatim>\<open>std::string::find\<close> for a non-empty pattern, from a position on.\<close>

fun begins_with :: "string \<Rightarrow> string \<Rightarrow> bool" where
  "begins_with [] s \<longleftrightarrow> True"
| "begins_with (p # ps) [] \<longleftrightarrow> False"
| "begins_with (p # ps) (x # xs) \<longleftrightarrow> p = x \<and> begins_with ps xs"

primrec find_str :: "string \<Rightarrow> string \<Rightarrow> nat option" where
  "find_str pat [] = None"
| "find_str pat (x # xs) =
     (if begins_with pat (x # xs) then Some 0 else map_option Suc (find_str pat xs))"

definition find_str_from :: "string \<Rightarrow> string \<Rightarrow> nat \<Rightarrow> nat option" where
  "find_str_from pat s pos = map_option (\<lambda>i. pos + i) (find_str pat (drop pos s))"

lemma find_str_less: "find_str pat s = Some i \<Longrightarrow> i < length s"
  by (induction s arbitrary: i) (auto split: if_splits)

definition strip_quotes :: "string \<Rightarrow> string" where
  "strip_quotes v =
     (if length v \<ge> 2 \<and> hd v = CHR 0x22 \<and> last v = CHR 0x22 then butlast (tl v) else v)"

text \<open>The loop of \<^verbatim>\<open>header_value\<close>: a later header replaces an earlier one.\<close>

function header_scan :: "string \<Rightarrow> string \<Rightarrow> nat \<Rightarrow> string option \<Rightarrow> string option" where
  "header_scan headers needle found result =
     (if needle = [] then result
      else
        case find_str_from needle (lowercase headers) found of
          None \<Rightarrow> result
        | Some f \<Rightarrow>
            header_scan headers needle (f + length needle)
              (if f = 0 \<or> lowercase headers ! (f - 1) = CHR 0x0A
               then Some (strip_quotes (takeWhile (\<lambda>c. c \<noteq> CHR 0x0D \<and> c \<noteq> CHR 0x0A)
                 (dropWhile (\<lambda>c. c = CHR '' '' \<or> c = CHR 0x09) (drop (f + length needle) headers))))
               else result))"
  by pat_completeness auto
termination
  by (relation "measure (\<lambda>(headers, _, found, _). length headers - found)")
    (auto simp: find_str_from_def lowercase_def intro!: diff_less_mono2 dest: find_str_less)

declare header_scan.simps [simp del]

definition header_value :: "string \<Rightarrow> string \<Rightarrow> string option" where
  "header_value headers name = header_scan headers (lowercase name @ '':'') 0 None"

definition range_text :: "u64 \<Rightarrow> u64 \<Rightarrow> string" where
  "range_text off sz = dec_u64 off @ ''-'' @ dec_u64 (off + sz - 1)"

text \<open>\<open>answer\<close> is the error text of the download program, or the body and the headers.\<close>

definition fetch_range ::
    "range_request \<Rightarrow> u64 \<Rightarrow> u64 \<Rightarrow> (string + (u8 list \<times> string)) \<Rightarrow> string + (u8 list \<times> u64)" where
  "fetch_range req off sz answer =
     (if sz = 0 \<or> off > - 1 - sz then Inl ''invalid HTTP range''
      else
        case answer of
          Inl err \<Rightarrow> Inl (''range download failed: '' @ err)
        | Inr (body, headers) \<Rightarrow>
            if length body \<noteq> unat sz then Inl ''server returned a truncated or non-range response''
            else
              (case header_value headers ''content-range'' of
                 None \<Rightarrow> Inl ''missing Content-Range''
               | Some content_range \<Rightarrow>
                   let expected = ''bytes '' @ range_text off sz @ ''/''
                   in if \<not> starts_with content_range expected then Inl ''wrong Content-Range''
                      else
                        (case from_chars_u64 (drop (length expected) content_range) of
                           None \<Rightarrow> Inl ''wrong Content-Range''
                         | Some logical_size \<Rightarrow>
                             if map_option lowercase (header_value headers ''x-repo-commit'')
                                  \<noteq> Some (lowercase (rq_revision req))
                             then Inl ''model revision mismatch''
                             else if map_option lowercase (header_value headers ''x-linked-etag'')
                                  \<noteq> Some (lowercase (rq_full_sha256 req))
                             then Inl ''remote model SHA-256 mismatch''
                             else Inr (body, logical_size))))"

section \<open>The range-cache file\<close>

definition cache_magic :: string where
  "cache_magic = ''DAN_RANGE_CACHE_V1''"

definition partial_magic :: string where
  "partial_magic = ''DAN_RANGE_CACHE_PARTIAL_V1''"

definition range_line :: "byte_range \<Rightarrow> string" where
  "range_line r = ''range='' @ dec_u64 (br_offset r) @ '','' @ dec_u64 (br_size r) @ '','' @ br_sha256 r"

definition sidecar_lines :: "string \<Rightarrow> range_request \<Rightarrow> range_stats \<Rightarrow> byte_range list \<Rightarrow> string list" where
  "sidecar_lines mg req stats ranges =
     [mg, ''url='' @ rq_url req, ''revision='' @ lowercase (rq_revision req),
      ''full_sha256='' @ lowercase (rq_full_sha256 req),
      ''stage_start='' @ dec_int (rq_stage_start req), ''stage_end='' @ dec_int (rq_stage_end req),
      ''logical_bytes='' @ dec_u64 (rs_logical_bytes stats),
      ''header_bytes='' @ dec_u64 (rs_header_bytes stats),
      ''downloaded_bytes='' @ dec_u64 (rs_downloaded_bytes stats),
      ''shared_bytes='' @ dec_u64 (rs_shared_bytes stats),
      ''tensors_present='' @ dec_u64 (rs_tensors_present stats)] @ map range_line ranges"

definition write_sidecar_file :: "string \<Rightarrow> range_request \<Rightarrow> range_stats \<Rightarrow> byte_range list \<Rightarrow> string" where
  "write_sidecar_file mg req stats ranges =
     concat (map (\<lambda>l. l @ [CHR 0x0A]) (sidecar_lines mg req stats ranges))"

text \<open>\<^verbatim>\<open>std::getline\<close> until the stream ends: a final newline starts no further line.\<close>

function getlines :: "string \<Rightarrow> string list" where
  "getlines s =
     (if s = [] then []
      else
        case find_char (CHR 0x0A) s of
          None \<Rightarrow> [s] | Some i \<Rightarrow> take i s # getlines (drop (Suc i) s))"
  by pat_completeness auto
termination
  by (relation "measure length") (auto dest: find_char_less)

declare getlines.simps [simp del]

record sidecar =
  sc_url :: string
  sc_revision :: string
  sc_hash :: string
  sc_begin :: int
  sc_end :: int
  sc_stats :: range_stats
  sc_ranges :: "byte_range list"

definition parse_stage_number :: "string \<Rightarrow> string + int" where
  "parse_stage_number v =
     (case from_chars_u64 v of
        None \<Rightarrow> Inl ''invalid cached stage''
      | Some n \<Rightarrow> if n > 2147483647 then Inl ''invalid cached stage'' else Inr (uint n))"

definition parse_range_value :: "string \<Rightarrow> byte_range option" where
  "parse_range_value v =
     (case find_char (CHR '','') v of
        None \<Rightarrow> None
      | Some f \<Rightarrow>
          (case find_char (CHR '','') (drop (Suc f) v) of
             None \<Rightarrow> None
           | Some g \<Rightarrow>
               (case (from_chars_u64 (take f v), from_chars_u64 (take g (drop (Suc f) v))) of
                  (Some off, Some sz) \<Rightarrow>
                    Some \<lparr>br_offset = off, br_size = sz, br_sha256 = drop (Suc g) (drop (Suc f) v)\<rparr>
                | _ \<Rightarrow> None)))"

text \<open>The handling of one line of the file.\<close>

definition sidecar_stat :: "string \<Rightarrow> u64 \<Rightarrow> range_stats \<Rightarrow> range_stats option" where
  "sidecar_stat key n st =
     (if key = ''logical_bytes'' then Some (st\<lparr>rs_logical_bytes := n\<rparr>)
      else if key = ''header_bytes'' then Some (st\<lparr>rs_header_bytes := n\<rparr>)
      else if key = ''downloaded_bytes'' then Some (st\<lparr>rs_downloaded_bytes := n\<rparr>)
      else if key = ''shared_bytes'' then Some (st\<lparr>rs_shared_bytes := n\<rparr>)
      else if key = ''tensors_present'' then Some (st\<lparr>rs_tensors_present := n\<rparr>)
      else None)"

definition sidecar_line :: "string \<Rightarrow> sidecar \<Rightarrow> string + sidecar" where
  "sidecar_line line sc =
     (case find_char (CHR ''='') line of
        None \<Rightarrow> Inl ''invalid range-cache metadata''
      | Some eq \<Rightarrow>
          let key = take eq line; v = drop (Suc eq) line
          in if key = ''url'' then Inr (sc\<lparr>sc_url := v\<rparr>)
             else if key = ''revision'' then Inr (sc\<lparr>sc_revision := v\<rparr>)
             else if key = ''full_sha256'' then Inr (sc\<lparr>sc_hash := v\<rparr>)
             else if key = ''stage_start'' then
               (case parse_stage_number v of Inl e \<Rightarrow> Inl e | Inr n \<Rightarrow> Inr (sc\<lparr>sc_begin := n\<rparr>))
             else if key = ''stage_end'' then
               (case parse_stage_number v of Inl e \<Rightarrow> Inl e | Inr n \<Rightarrow> Inr (sc\<lparr>sc_end := n\<rparr>))
             else
               (case from_chars_u64 v of
                  Some n \<Rightarrow>
                    (case sidecar_stat key n (sc_stats sc) of
                       Some st \<Rightarrow> Inr (sc\<lparr>sc_stats := st\<rparr>)
                     | None \<Rightarrow>
                         if key = ''range'' then
                           (case parse_range_value v of
                              None \<Rightarrow> Inl ''invalid cached range''
                            | Some r \<Rightarrow> Inr (sc\<lparr>sc_ranges := sc_ranges sc @ [r]\<rparr>))
                         else Inl ''invalid range-cache metadata'')
                | None \<Rightarrow>
                    if key = ''range'' then
                      (case parse_range_value v of
                         None \<Rightarrow> Inl ''invalid cached range''
                       | Some r \<Rightarrow> Inr (sc\<lparr>sc_ranges := sc_ranges sc @ [r]\<rparr>))
                    else Inl ''invalid range-cache metadata''))"

fun sidecar_loop :: "string list \<Rightarrow> sidecar \<Rightarrow> string + sidecar" where
  "sidecar_loop [] sc = Inr sc"
| "sidecar_loop (l # ls) sc =
     (case sidecar_line l sc of Inl e \<Rightarrow> Inl e | Inr sc' \<Rightarrow> sidecar_loop ls sc')"

text \<open>A file that cannot be opened leaves the error text empty.\<close>

definition read_sidecar_file ::
    "string option \<Rightarrow> string \<Rightarrow> range_request \<Rightarrow> bool \<Rightarrow> string + (range_stats \<times> byte_range list)" where
  "read_sidecar_file file mg req allow_empty =
     (case file of
        None \<Rightarrow> Inl []
      | Some s \<Rightarrow>
          (case getlines s of
             [] \<Rightarrow> Inl ''invalid range-cache metadata''
           | l # ls \<Rightarrow>
               if l \<noteq> mg then Inl ''invalid range-cache metadata''
               else
                 (case sidecar_loop ls \<lparr>sc_url = [], sc_revision = [], sc_hash = [], sc_begin = -1,
                     sc_end = -1, sc_stats = fresh_stats, sc_ranges = []\<rparr> of
                    Inl e \<Rightarrow> Inl e
                  | Inr sc \<Rightarrow>
                      if sc_url sc \<noteq> rq_url req \<or> sc_revision sc \<noteq> lowercase (rq_revision req)
                        \<or> sc_hash sc \<noteq> lowercase (rq_full_sha256 req)
                        \<or> sc_begin sc \<noteq> rq_stage_start req \<or> sc_end sc \<noteq> rq_stage_end req
                        \<or> (\<not> allow_empty \<and> sc_ranges sc = [])
                      then Inl ''range cache does not match model revision or stage''
                      else Inr (sc_stats sc, sc_ranges sc))))"

section \<open>Preparing a stage's model file\<close>

record range_env =
  en_curl :: "nat \<Rightarrow> u64 \<Rightarrow> u64 \<Rightarrow> string + (u8 list \<times> string)"
  en_sha256 :: "u8 list \<Rightarrow> string"
  en_ok :: "nat \<Rightarrow> bool"
  en_space :: "u64 option"
  en_blocks :: "u8 list \<Rightarrow> u64"

text \<open>The files that outlive a call.\<close>

record cache_files =
  cf_model :: "u8 list option"
  cf_ranges :: "string option"
  cf_partial :: "string option"

definition slice :: "u64 \<Rightarrow> u64 \<Rightarrow> 'a list \<Rightarrow> 'a list" where
  "slice off sz bs = take (unat sz) (drop (unat off) bs)"

text \<open>\<^verbatim>\<open>copy_into\<close>: the bytes overwrite the file from the offset on.\<close>

definition copy_into :: "u64 \<Rightarrow> u8 list \<Rightarrow> u8 list \<Rightarrow> u8 list" where
  "copy_into off body file = take (unat off) file @ body @ drop (unat off + length body) file"

definition valid_range_request :: "range_request \<Rightarrow> bool" where
  "valid_range_request req \<longleftrightarrow> rq_url req \<noteq> [] \<and> hex_string (rq_revision req) 40
     \<and> hex_string (rq_full_sha256 req) 64 \<and> rq_path req \<noteq> [] \<and> rq_stage_start req \<ge> 0
     \<and> rq_stage_end req > rq_stage_start req"

definition first_line_is :: "string option \<Rightarrow> string \<Rightarrow> bool" where
  "first_line_is file mg = (case file of None \<Rightarrow> False
     | Some s \<Rightarrow> (case getlines s of [] \<Rightarrow> False | l # _ \<Rightarrow> l = mg))"

text \<open>\<^verbatim>\<open>reuse_cache\<close>: every cached range is inside the file and has its recorded digest.\<close>

definition cached_range_ok :: "range_env \<Rightarrow> u8 list \<Rightarrow> u64 \<Rightarrow> byte_range \<Rightarrow> bool" where
  "cached_range_ok env model logical r \<longleftrightarrow>
     br_offset r \<le> logical \<and> br_size r \<le> logical - br_offset r
     \<and> lowercase (en_sha256 env (slice (br_offset r) (br_size r) model)) = lowercase (br_sha256 r)"

definition reuse_cache :: "range_env \<Rightarrow> range_request \<Rightarrow> cache_files \<Rightarrow> string + range_stats" where
  "reuse_cache env req files =
     (case read_sidecar_file (cf_ranges files) cache_magic req False of
        Inl e \<Rightarrow> Inl e
      | Inr (stats, ranges) \<Rightarrow>
          (case cf_model files of
             None \<Rightarrow> Inl ''partial model cache is missing or truncated''
           | Some model \<Rightarrow>
               if length model \<noteq> unat (rs_logical_bytes stats)
               then Inl ''partial model cache is missing or truncated''
               else if \<not> list_all (cached_range_ok env model (rs_logical_bytes stats)) ranges
               then Inl ''cached range SHA-256 mismatch''
               else Inr (stats\<lparr>rs_physical_bytes := en_blocks env model, rs_cache_reused := True\<rparr>)))"

text \<open>
  What is found on disk decides how the call goes on: a usable cache ends it, foreign files are
  refused, a partial download is resumed, an own but unusable cache is removed.
\<close>

datatype cache_decision =
    Reuse range_stats
  | Refuse string
  | Go_on bool cache_files

definition drop_stale_partial :: "cache_files \<Rightarrow> cache_files" where
  "drop_stale_partial files =
     (if cf_partial files \<noteq> None \<and> cf_model files = None then files\<lparr>cf_partial := None\<rparr> else files)"

definition decide_cache :: "range_env \<Rightarrow> range_request \<Rightarrow> cache_files \<Rightarrow> cache_decision" where
  "decide_cache env req files0 =
     (let files = drop_stale_partial files0
      in if cf_model files = None \<and> cf_ranges files = None then Go_on False files
         else
           case reuse_cache env req files of
             Inr stats \<Rightarrow> Reuse stats
           | Inl e \<Rightarrow>
               if cf_ranges files = None \<and> cf_model files \<noteq> None \<and> cf_partial files \<noteq> None then
                 (if first_line_is (cf_partial files) partial_magic then Go_on True files
                  else Refuse ''unrecognized partial range cache'')
               else if \<not> first_line_is (cf_ranges files) cache_magic then Refuse e
               else Go_on False \<lparr>cf_model = None, cf_ranges = None, cf_partial = None\<rparr>)"

text \<open>
  The metadata loop: at most \<open>left\<close> more chunks of 1 MiB (64 at the start). The state is the
  offset, the bytes so far, the reported size, the bytes transferred and the index.
\<close>

definition metadata_limit :: nat where
  "metadata_limit = 64"

primrec read_metadata ::
    "nat \<Rightarrow> range_env \<Rightarrow> range_request \<Rightarrow> nat \<Rightarrow> u64 \<Rightarrow> u8 list \<Rightarrow> u64 \<Rightarrow> u64 \<Rightarrow> gguf_index
     \<Rightarrow> string + (nat \<times> u64 \<times> u64 \<times> gguf_index)" where
  "read_metadata 0 env req tick off metadata logical transferred i =
     Inl ''GGUF metadata exceeds range parser limit''"
| "read_metadata (Suc left) env req tick off metadata logical transferred i =
     (let wanted = (if logical = 0 then metadata_chunk else min metadata_chunk (logical - off))
      in if wanted = 0 then Inl []
         else
           case fetch_range req off wanted (en_curl env tick off wanted) of
             Inl e \<Rightarrow> Inl e
           | Inr (body, reported) \<Rightarrow>
               if logical \<noteq> 0 \<and> reported \<noteq> logical then Inl ''remote model size changed''
               else if \<not> en_ok env tick then Inl ''could not read downloaded range''
               else
                 (case parse_index (metadata @ body) reported i of
                    (Complete, i', _) \<Rightarrow> Inr (Suc tick, reported, transferred + wanted, i')
                  | (Invalid, _, e) \<Rightarrow> Inl e
                  | (Incomplete, i', _) \<Rightarrow>
                      read_metadata left env req (Suc tick) (off + metadata_chunk)
                        (metadata @ body) reported (transferred + wanted) i'))"

text \<open>
  Resuming: the completed ranges of the partial file must be a prefix of the needed ones with
  their digests still right. The result is the completed ranges, whether the partial file is
  kept, the bytes counted as completed, and the needed ranges with the digests taken over.
\<close>

fun check_completed ::
    "range_env \<Rightarrow> u8 list \<Rightarrow> byte_range list \<Rightarrow> byte_range list \<Rightarrow> u64 \<Rightarrow> bool \<times> u64 \<times> byte_range list" where
  "check_completed env model [] ranges completed_bytes = (True, completed_bytes, ranges)"
| "check_completed env model (c # cs) [] completed_bytes = (False, completed_bytes, [])"
| "check_completed env model (c # cs) (r # rs) completed_bytes =
     (if br_offset c \<noteq> br_offset r \<or> br_size c \<noteq> br_size r
        \<or> lowercase (en_sha256 env (slice (br_offset c) (br_size c) model)) \<noteq> lowercase (br_sha256 c)
      then (False, completed_bytes, r # rs)
      else
        let (ok, n, rs') = check_completed env model cs rs (completed_bytes + br_size c)
        in (ok, n, r\<lparr>br_sha256 := br_sha256 c\<rparr> # rs'))"

definition resume_partial ::
    "range_env \<Rightarrow> range_request \<Rightarrow> u64 \<Rightarrow> cache_files \<Rightarrow> byte_range list
     \<Rightarrow> bool \<times> byte_range list \<times> u64 \<times> byte_range list \<times> cache_files" where
  "resume_partial env req logical files ranges =
     (let dropped = files\<lparr>cf_model := None, cf_partial := None\<rparr>
      in case (read_sidecar_file (cf_partial files) partial_magic req True, cf_model files) of
           (Inr (stats, completed), Some model) \<Rightarrow>
             if rs_logical_bytes stats \<noteq> logical \<or> length model \<noteq> unat logical
               \<or> length completed > length ranges
             then (False, [], 0, ranges, dropped)
             else
               (case check_completed env model completed ranges 0 of
                  (True, n, ranges') \<Rightarrow> (True, completed, n, ranges', files)
                | (False, n, ranges') \<Rightarrow> (False, [], n, ranges', dropped))
         | _ \<Rightarrow> (False, [], 0, ranges, dropped))"

text \<open>The download loop over the ranges that are left; a failure keeps what is on disk.\<close>

fun download_ranges ::
    "range_env \<Rightarrow> range_request \<Rightarrow> u64 \<Rightarrow> nat \<Rightarrow> range_stats \<Rightarrow> byte_range list \<Rightarrow> byte_range list \<Rightarrow> cache_files
     \<Rightarrow> (string + (nat \<times> range_stats \<times> byte_range list)) \<times> cache_files" where
  "download_ranges env req logical tick stats completed [] files = (Inr (tick, stats, completed), files)"
| "download_ranges env req logical tick stats completed (r # rs) files =
     (case fetch_range req (br_offset r) (br_size r) (en_curl env tick (br_offset r) (br_size r)) of
        Inl e \<Rightarrow> (Inl e, files)
      | Inr (body, reported) \<Rightarrow>
          (case cf_model files of
             None \<Rightarrow> (Inl ''could not open sparse range files'', files)
           | Some model \<Rightarrow>
               if reported \<noteq> logical \<or> \<not> en_ok env tick
               then (Inl ''could not write sparse model range'', files)
               else
                 let r' = r\<lparr>br_sha256 := en_sha256 env body\<rparr>;
                     stats' = stats\<lparr>rs_downloaded_bytes := rs_downloaded_bytes stats + br_size r\<rparr>;
                     completed' = completed @ [r'];
                     files' = files\<lparr>cf_model := Some (copy_into (br_offset r) body model)\<rparr>
                 in if \<not> en_ok env (Suc tick) then (Inl ''could not publish range-cache metadata'', files')
                    else download_ranges env req logical (Suc (Suc tick)) stats' completed' rs
                      (files'\<lparr>cf_partial := Some (write_sidecar_file partial_magic req stats' completed')\<rparr>)))"

definition finish_download ::
    "range_env \<Rightarrow> range_request \<Rightarrow> int \<Rightarrow> nat \<Rightarrow> range_stats \<Rightarrow> byte_range list \<Rightarrow> cache_files
     \<Rightarrow> (string + range_stats) \<times> cache_files" where
  "finish_download env req layers tick stats0 ranges files =
     (let stats = stats0\<lparr>rs_physical_bytes := (case cf_model files of None \<Rightarrow> 0 | Some m \<Rightarrow> en_blocks env m)\<rparr>
      in if rs_physical_bytes stats = 0
           \<or> ((rq_stage_start req \<noteq> 0 \<or> rq_stage_end req \<noteq> layers)
              \<and> rs_physical_bytes stats \<ge> rs_logical_bytes stats)
         then (Inl ''model file is not sparse'', files)
         else if \<not> en_ok env tick then (Inl ''could not publish range-cache metadata'', files)
         else (Inr stats, files\<lparr>cf_ranges := Some (write_sidecar_file cache_magic req stats ranges),
                                 cf_partial := None\<rparr>))"

definition sum_sizes :: "byte_range list \<Rightarrow> u64" where
  "sum_sizes rs = foldl (\<lambda>n r. n + br_size r) 0 rs"

text \<open>From the needed ranges on: create or keep the sparse file, check the space, download.\<close>

definition fill_model ::
    "range_env \<Rightarrow> range_request \<Rightarrow> nat \<Rightarrow> u64 \<Rightarrow> u64 \<Rightarrow> gguf_index \<Rightarrow> u64 \<Rightarrow> u64 \<Rightarrow> int
     \<Rightarrow> bool \<times> byte_range list \<times> u64 \<times> byte_range list \<times> cache_files
     \<Rightarrow> (string + range_stats) \<times> cache_files" where
  "fill_model env req tick logical transferred i tensors shared layers resumed =
     (case resumed of (resuming, completed, completed_bytes, ranges, files) \<Rightarrow>
       if \<not> resuming \<and> (cf_model files \<noteq> None \<or> \<not> en_ok env tick)
       then (Inl ''could not initialize sparse model file'', files)
       else
         let files1 = (if resuming then files
                       else files\<lparr>cf_model := Some (replicate (unat logical) 0)\<rparr>);
             stats = fresh_stats\<lparr>rs_logical_bytes := logical, rs_header_bytes := gi_data_offset i,
               rs_tensors_present := tensors, rs_shared_bytes := shared,
               rs_downloaded_bytes := transferred + completed_bytes\<rparr>
         in if \<not> en_ok env (Suc tick) then (Inl ''could not publish range-cache metadata'', files1)
            else
              let files2 = files1\<lparr>cf_partial := Some (write_sidecar_file partial_magic req stats completed)\<rparr>;
                  remaining = sum_sizes ranges - completed_bytes
              in (case en_space env of
                    None \<Rightarrow> (Inl ''not enough free disk space for assigned model data'', files2)
                  | Some free_bytes \<Rightarrow>
                      if free_bytes < remaining + min download_chunk remaining
                      then (Inl ''not enough free disk space for assigned model data'', files2)
                      else
                        (case download_ranges env req logical (Suc (Suc tick)) stats completed
                             (drop (length completed) ranges) files2 of
                           (Inl e, files3) \<Rightarrow> (Inl e, files3)
                         | (Inr (tick', stats', done_ranges), files3) \<Rightarrow>
                             finish_download env req layers tick' stats' done_ranges files3)))"

definition prepare_range_model ::
    "range_env \<Rightarrow> range_request \<Rightarrow> cache_files \<Rightarrow> (string + range_stats) \<times> cache_files" where
  "prepare_range_model env req files0 =
     (if \<not> valid_range_request req then (Inl ''invalid range-model request'', files0)
      else
        case decide_cache env req files0 of
          Reuse stats \<Rightarrow> (Inr stats, drop_stale_partial files0)
        | Refuse e \<Rightarrow> (Inl e, drop_stale_partial files0)
        | Go_on partial files \<Rightarrow>
            if \<not> en_ok env 0 then (Inl ''could not create range-cache directory'', files)
            else
              (case read_metadata metadata_limit env req 1 0 [] 0 0 fresh_index of
                 Inl e \<Rightarrow> (Inl e, files)
               | Inr (tick, logical, transferred, i) \<Rightarrow>
                   let layers = block_count (gi_tensors i)
                   in if rq_stage_end req > layers then (Inl ''stage exceeds GGUF layer count'', files)
                      else
                        (case required_ranges i (rq_stage_start req) (rq_stage_end req) of
                           (rs, tensors, shared) \<Rightarrow>
                             if tensors = 0 then (Inl ''stage owns no GGUF tensors'', files)
                             else
                               let ranges = bounded_ranges rs
                               in fill_model env req tick logical transferred i tensors shared layers
                                    (if partial then resume_partial env req logical files ranges
                                     else (False, [], 0, ranges, files)))))"

section \<open>Lemmas\<close>

subsection \<open>The text of the range-cache file\<close>

lemma getlines_lines:
  "list_all (\<lambda>l. CHR 0x0A \<notin> set l) ls \<Longrightarrow> getlines (concat (map (\<lambda>l. l @ [CHR 0x0A]) ls)) = ls"
proof (induction ls)
  case (Cons l ls)
  then have "find_char (CHR 0x0A) (l @ CHR 0x0A # concat (map (\<lambda>l. l @ [CHR 0x0A]) ls)) = Some (length l)"
    by (simp add: text_simps)
  with Cons show ?case by (subst getlines.simps) simp
qed (simp add: getlines.simps)

lemma from_chars_u64_dec_nat: "n \<le> u64_max \<Longrightarrow> from_chars_u64 (dec n) = Some (word_of_nat n)"
  by (simp add: from_chars_u64_def from_chars_dec)

lemma parse_stage_number_dec:
  assumes "0 \<le> n" and "n < 2147483648"
  shows "parse_stage_number (dec_int n) = Inr n"
proof -
  have u: "uint (word_of_int n :: u64) = n"
    using assms by (simp add: uint_word_of_int)
  then have "\<not> (word_of_int n :: u64) > 2147483647"
    using assms by (simp add: word_less_def)
  with u assms show ?thesis
    by (simp add: parse_stage_number_def dec_int_def from_chars_u64_dec_nat)
qed

lemma parse_range_value_line:
  "parse_range_value (dec_u64 (br_offset r) @ CHR '','' # dec_u64 (br_size r) @ CHR '','' # br_sha256 r) = Some r"
proof -
  have "CHR '','' \<notin> set (dec_u64 w)" for w by (simp add: dec_u64_def dec_no_sep)
  then show ?thesis
    by (simp add: parse_range_value_def text_simps codec_simps)
qed

lemma sidecar_line_range:
  "sidecar_line (range_line r) sc = Inr (sc\<lparr>sc_ranges := sc_ranges sc @ [r]\<rparr>)"
  using parse_range_value_line[of r]
  by (simp add: sidecar_line_def range_line_def sidecar_stat_def Let_def split: option.split)

lemma sidecar_loop_ranges:
  "sidecar_loop (map range_line rs) sc = Inr (sc\<lparr>sc_ranges := sc_ranges sc @ rs\<rparr>)"
  by (induction rs arbitrary: sc) (simp_all add: sidecar_line_range)

definition plain_stats :: "range_stats \<Rightarrow> range_stats" where
  "plain_stats st = st\<lparr>rs_physical_bytes := 0, rs_cache_reused := False\<rparr>"

definition writable_request :: "range_request \<Rightarrow> bool" where
  "writable_request req \<longleftrightarrow> CHR 0x0A \<notin> set (rq_url req) \<and> CHR 0x0A \<notin> set (lowercase (rq_revision req))
     \<and> CHR 0x0A \<notin> set (lowercase (rq_full_sha256 req))
     \<and> 0 \<le> rq_stage_start req \<and> rq_stage_start req < 2147483648
     \<and> 0 \<le> rq_stage_end req \<and> rq_stage_end req < 2147483648"

lemma sidecar_reads_back:
  assumes "writable_request req" and "CHR 0x0A \<notin> set mg"
    and "\<forall>r \<in> set ranges. CHR 0x0A \<notin> set (br_sha256 r)" and "allow_empty \<or> ranges \<noteq> []"
  shows "read_sidecar_file (Some (write_sidecar_file mg req stats ranges)) mg req allow_empty
    = Inr (plain_stats stats, ranges)"
proof -
  have digits: "CHR 0x0A \<notin> set (dec_u64 w)" "CHR 0x0A \<notin> set (dec_int i)" for w i
    by (simp_all add: dec_u64_def dec_no_sep dec_int_no_sep)
  have "list_all (\<lambda>l. CHR 0x0A \<notin> set l) (sidecar_lines mg req stats ranges)"
    using assms digits
    by (simp add: sidecar_lines_def writable_request_def range_line_def list_all_iff)
  then have lines: "getlines (write_sidecar_file mg req stats ranges) = sidecar_lines mg req stats ranges"
    unfolding write_sidecar_file_def by (rule getlines_lines)
  have loop: "sidecar_loop (tl (sidecar_lines mg req stats ranges))
      \<lparr>sc_url = [], sc_revision = [], sc_hash = [], sc_begin = -1, sc_end = -1,
       sc_stats = fresh_stats, sc_ranges = []\<rparr>
    = Inr \<lparr>sc_url = rq_url req, sc_revision = lowercase (rq_revision req),
       sc_hash = lowercase (rq_full_sha256 req), sc_begin = rq_stage_start req,
       sc_end = rq_stage_end req, sc_stats = plain_stats stats, sc_ranges = ranges\<rparr>"
    using assms(1) parse_stage_number_dec
    by (simp add: sidecar_lines_def sidecar_line_def sidecar_stat_def codec_simps
        writable_request_def sidecar_loop_ranges plain_stats_def fresh_stats_def)
  obtain ls where ls: "sidecar_lines mg req stats ranges = mg # ls"
    by (simp add: sidecar_lines_def)
  show ?thesis
    using lines loop assms(4) unfolding ls by (simp add: read_sidecar_file_def)
qed

subsection \<open>Downloading\<close>

text \<open>A server and download program that answer for one remote file: an answer the checks accept
  has the file's bytes at the asked-for place and reports the file's size.\<close>

definition honest :: "range_env \<Rightarrow> range_request \<Rightarrow> u8 list \<Rightarrow> bool" where
  "honest env req remote \<longleftrightarrow> (\<forall>k off sz body n.
     fetch_range req off sz (en_curl env k off sz) = Inr (body, n) \<longrightarrow>
     body = slice off sz remote \<and> unat n = length remote)"

definition agree :: "u8 list \<Rightarrow> u8 list \<Rightarrow> nat set \<Rightarrow> bool" where
  "agree m remote X \<longleftrightarrow> (\<forall>x \<in> X. x < length remote \<and> x < length m \<and> m ! x = remote ! x)"

lemma fetch_range_InrD:
  assumes "fetch_range req off sz answer = Inr (body, n)"
  shows "\<exists>headers. answer = Inr (body, headers) \<and> length body = unat sz \<and> sz \<noteq> 0 \<and> off \<le> - 1 - sz
    \<and> map_option lowercase (header_value headers ''x-repo-commit'') = Some (lowercase (rq_revision req))
    \<and> map_option lowercase (header_value headers ''x-linked-etag'') = Some (lowercase (rq_full_sha256 req))"
  using assms by (auto simp: fetch_range_def Let_def not_less split: if_splits sum.splits prod.splits option.splits)

lemma fetch_range_honest:
  assumes "honest env req remote" and "fetch_range req off sz (en_curl env k off sz) = Inr (body, n)"
  shows "body = slice off sz remote \<and> length body = unat sz \<and> unat n = length remote \<and> sz \<noteq> 0"
  using fetch_range_InrD[OF assms(2)] assms unfolding honest_def by blast

lemma copy_into_agree:
  assumes "body = slice off sz remote" and "length body = unat sz"
    and "unat off + unat sz \<le> length m" and "agree m remote X"
  shows "length (copy_into off body m) = length m"
    "agree (copy_into off body m) remote (X \<union> {unat off..<unat off + unat sz})"
proof -
  show len: "length (copy_into off body m) = length m"
    using assms(2,3) by (simp add: copy_into_def)
  have "unat sz \<le> length remote - unat off"
    using assms(1,2) by (simp add: slice_def)
  then have remote: "unat sz = 0 \<or> unat off + unat sz \<le> length remote" by linarith
  have at: "copy_into off body m ! x = (if unat off \<le> x \<and> x < unat off + unat sz then remote ! x else m ! x)"
    if "x < length m" for x
    using that assms(1,2,3) remote
    by (auto simp: copy_into_def nth_append slice_def min_def)
  show "agree (copy_into off body m) remote (X \<union> {unat off..<unat off + unat sz})"
    using assms(3,4) remote at len by (auto simp: agree_def)
qed

lemma download_ranges_agree:
  assumes "honest env req remote"
  shows "download_ranges env req logical tick stats completed rs files = (Inr (tick', stats', done_ranges), files') \<Longrightarrow>
   cf_model files = Some m \<Longrightarrow> length m = unat logical \<Longrightarrow> agree m remote X \<Longrightarrow>
   \<forall>r \<in> set rs. range_end r \<le> unat logical \<Longrightarrow>
   \<exists>m'. cf_model files' = Some m' \<and> length m' = unat logical \<and> agree m' remote (X \<union> covered rs)"
proof (induction rs arbitrary: tick stats completed files m X)
  case Nil
  then show ?case by (simp add: covered_def)
next
  case (Cons r rs)
  from Cons.prems(1,2) obtain body reported where
    f: "fetch_range req (br_offset r) (br_size r) (en_curl env tick (br_offset r) (br_size r)) = Inr (body, reported)"
    by (auto split: sum.splits)
  note h = fetch_range_honest[OF assms f]
  let ?m = "copy_into (br_offset r) body m"
  have "unat (br_offset r) + unat (br_size r) \<le> length m"
    using Cons.prems(3,5) by (simp add: range_end_def)
  note c = copy_into_agree[OF conjunct1[OF h] conjunct1[OF conjunct2[OF h]] this Cons.prems(4)]
  from Cons.prems(1,2) f obtain st cs pf where
    rec: "download_ranges env req logical (Suc (Suc tick)) st cs rs
        (files\<lparr>cf_model := Some ?m, cf_partial := pf\<rparr>) = (Inr (tick', stats', done_ranges), files')"
    by (auto simp: Let_def split: if_splits)
  have "\<exists>m'. cf_model files' = Some m' \<and> length m' = unat logical
      \<and> agree m' remote ((X \<union> {unat (br_offset r)..<unat (br_offset r) + unat (br_size r)}) \<union> covered rs)"
    by (rule Cons.IH[OF rec, where m = ?m]) (use c Cons.prems(3,5) in simp_all)
  then show ?case by (simp add: covered_def range_end_def Un_assoc)
qed

lemma read_metadata_parsed:
  assumes "honest env req remote"
  shows "read_metadata left env req tick off md logical tr i = Inr (tick', logical', tr', i') \<Longrightarrow>
   unat off + left * 1048576 \<le> 67108864 \<Longrightarrow> md = take (unat off) remote \<Longrightarrow>
   (logical \<noteq> 0 \<longrightarrow> unat logical = length remote) \<Longrightarrow>
   unat logical' = length remote \<and> (\<exists>k i0 err. parse_index (take k remote) logical' i0 = (Complete, i', err))"
proof (induction left arbitrary: tick off md logical tr i)
  case (Suc left)
  define wanted where "wanted = (if logical = 0 then metadata_chunk else min metadata_chunk (logical - off))"
  from Suc.prems(1) obtain body reported where
    f: "fetch_range req off wanted (en_curl env tick off wanted) = Inr (body, reported)"
    by (auto simp: wanted_def[symmetric] Let_def split: if_splits sum.splits)
  note h = fetch_range_honest[OF assms f]
  have "unat wanted \<noteq> 0" using h by (simp add: unat_eq_0)
  then have off: "unat off < length remote" and w: "unat off + unat wanted \<le> length remote"
    using h by (auto simp: slice_def)
  have chunk: "unat metadata_chunk = 1048576" by (simp add: metadata_chunk_def)
  have next_off: "unat (off + metadata_chunk) = unat off + 1048576"
    using Suc.prems(2) chunk by (subst unat_add_u64) auto
  have md: "md @ body = take (unat off + unat wanted) remote"
    using Suc.prems(3) h by (simp add: slice_def take_add)
  have md': "md @ body = take (unat (off + metadata_chunk)) remote"
  proof (cases "wanted = metadata_chunk")
    case True
    then show ?thesis using md next_off chunk by simp
  next
    case False
    then have l: "logical \<noteq> 0" "wanted = logical - off" by (auto simp: wanted_def min_def split: if_splits)
    then have "unat logical = length remote" using Suc.prems(4) by blast
    then have "unat wanted = length remote - unat off"
      using l(2) off by (simp add: unat_diff_u64 word_le_nat_alt)
    moreover have "unat wanted \<le> 1048576"
      using chunk by (auto simp: wanted_def min_def word_le_nat_alt)
    ultimately have "length remote \<le> unat off + unat wanted" "unat off + unat wanted \<le> unat (off + metadata_chunk)"
      using next_off by simp_all
    then show ?thesis using md by simp
  qed
  show ?case
  proof (cases "parse_index (md @ body) reported i")
    case (fields res i1 err)
    show ?thesis
    proof (cases res)
      case Complete
      then have "logical' = reported" "i' = i1"
        using Suc.prems(1) f fields by (auto simp: wanted_def[symmetric] Let_def split: if_splits)
      then show ?thesis using fields Complete h md by metis
    next
      case Incomplete
      then have "read_metadata left env req (Suc tick) (off + metadata_chunk) (md @ body) reported (tr + wanted) i1
          = Inr (tick', logical', tr', i')"
        using Suc.prems(1) f fields by (auto simp: wanted_def[symmetric] Let_def split: if_splits)
      from Suc.IH[OF this _ md'] h Suc.prems(2) next_off show ?thesis by simp
    next
      case Invalid
      then show ?thesis
        using Suc.prems(1) f fields by (auto simp: wanted_def[symmetric] Let_def split: if_splits)
    qed
  qed
qed simp

lemma fill_model_fresh:
  assumes "honest env req remote" and "unat logical = length remote"
    and "ranges_within (unat logical) ranges"
    and "fill_model env req tick logical tr i tensors shared layers (False, [], 0, ranges, files) = (Inr stats, files')"
  shows "\<exists>m. cf_model files' = Some m \<and> length m = length remote \<and> agree m remote (covered ranges)
    \<and> cf_partial files' = None \<and> cf_ranges files' \<noteq> None"
proof -
  obtain st pf tick' stats' done_ranges files3 where
    d: "download_ranges env req logical (Suc (Suc tick)) st [] ranges
        (files\<lparr>cf_model := Some (replicate (unat logical) 0), cf_partial := pf\<rparr>)
      = (Inr (tick', stats', done_ranges), files3)"
    and fin: "finish_download env req layers tick' stats' done_ranges files3 = (Inr stats, files')"
    using assms(4) by (auto simp: fill_model_def Let_def split: if_splits option.splits sum.splits prod.splits)
  have "\<exists>m'. cf_model files3 = Some m' \<and> length m' = unat logical \<and> agree m' remote ({} \<union> covered ranges)"
    by (rule download_ranges_agree[OF assms(1) d, where m = "replicate (unat logical) 0"])
      (use assms(3) in \<open>simp_all add: agree_def ranges_within_def\<close>)
  moreover have "cf_model files' = cf_model files3 \<and> cf_partial files' = None \<and> cf_ranges files' \<noteq> None"
    using fin by (auto simp: finish_download_def Let_def split: if_splits)
  ultimately show ?thesis using assms(2) by auto
qed

section \<open>Properties\<close>

text \<open>
  C14. A first download assembles the stage: with nothing on disk and a server whose accepted
  answers are the bytes of one remote file, a successful call leaves a model file as long as the
  remote one that agrees with it on the header and on every byte of the tensors the stage owns,
  according to an index parsed from the remote file itself; the range-cache file is written and
  no partial file is left.
\<close>

theorem first_download_assembles_stage:
  assumes "honest env req remote"
    and "prepare_range_model env req \<lparr>cf_model = None, cf_ranges = None, cf_partial = None\<rparr> = (Inr stats, files')"
  shows "\<exists>m i k i0 err. cf_model files' = Some m \<and> length m = length remote
    \<and> parse_index (take k remote) (gi_logical_size i) i0 = (Complete, i, err)
    \<and> unat (gi_logical_size i) = length remote
    \<and> agree m remote ({..<unat (gi_data_offset i)} \<union> owned_spans i
        (\<lambda>name. owned_tensor name (rq_stage_start req) (rq_stage_end req) (block_count (gi_tensors i))
          (has_output (gi_tensors i))) (gi_tensors i))
    \<and> cf_partial files' = None \<and> cf_ranges files' \<noteq> None"
proof -
  let ?none = "\<lparr>cf_model = None, cf_ranges = None, cf_partial = None\<rparr>"
  have dec: "decide_cache env req ?none = Go_on False ?none"
    by (simp add: decide_cache_def drop_stale_partial_def)
  from assms(2) obtain tick logical tr i rs tensors shared where
    m: "read_metadata metadata_limit env req 1 0 [] 0 0 fresh_index = Inr (tick, logical, tr, i)"
    and r: "required_ranges i (rq_stage_start req) (rq_stage_end req) = (rs, tensors, shared)"
    and f: "fill_model env req tick logical tr i tensors shared (block_count (gi_tensors i))
        (False, [], 0, bounded_ranges rs, ?none) = (Inr stats, files')"
    by (auto simp: prepare_range_model_def dec Let_def split: if_splits sum.splits prod.splits)
  obtain k i0 err where p: "unat logical = length remote"
      "parse_index (take k remote) logical i0 = (Complete, i, err)"
    using read_metadata_parsed[OF assms(1) m] by (auto simp: metadata_limit_def)
  obtain arch g al ts rd where "finish_index logical arch g al ts rd i0 = (Complete, i, err)"
    using parse_index_consumed[OF p(2)] by blast
  note fin = finish_index_complete[OF this]
  then have lg: "gi_logical_size i = logical" "gi_data_offset i < gi_logical_size i"
      "offsets_ok (gi_logical_size i - gi_data_offset i) (gi_tensors i)" by auto
  note cov = required_ranges_cover[OF lg(2,3) r]
  have "ranges_within (unat logical) (bounded_ranges rs)" using cov lg(1) by simp
  from fill_model_fresh[OF assms(1) p(1) this f] cov p lg show ?thesis by metis
qed

text \<open>
  The range-cache file is read back as written: for a request that fits a line and ranges with
  one-line digests, reading what was written gives the same statistics (the block count and the
  reuse flag apart, which are not stored) and the same ranges.
\<close>

theorem sidecar_roundtrip:
  assumes "writable_request req" and "CHR 0x0A \<notin> set mg"
    and "\<forall>r \<in> set ranges. CHR 0x0A \<notin> set (br_sha256 r)" and "allow_empty \<or> ranges \<noteq> []"
  shows "read_sidecar_file (Some (write_sidecar_file mg req stats ranges)) mg req allow_empty
    = Inr (plain_stats stats, ranges)"
  using assms by (rule sidecar_reads_back)

definition sample_range_request :: range_request where
  "sample_range_request = \<lparr>rq_url = ''u'', rq_revision = replicate 40 CHR ''a'',
     rq_full_sha256 = replicate 64 CHR ''b'', rq_path = ''p'', rq_stage_start = 0, rq_stage_end = 1\<rparr>"

theorem sidecar_roundtrip_witness:
  "read_sidecar_file (Some (write_sidecar_file cache_magic sample_range_request fresh_stats
      [\<lparr>br_offset = 0, br_size = 7, br_sha256 = ''d''\<rparr>])) cache_magic sample_range_request False
   = Inr (fresh_stats, [\<lparr>br_offset = 0, br_size = 7, br_sha256 = ''d''\<rparr>])"
proof -
  have "writable_request sample_range_request" "CHR 0x0A \<notin> set cache_magic" "plain_stats fresh_stats = fresh_stats"
    by code_simp+
  then show ?thesis
    using sidecar_roundtrip[of sample_range_request cache_magic "[\<lparr>br_offset = 0, br_size = 7, br_sha256 = ''d''\<rparr>]"
        False fresh_stats] by simp
qed

text \<open>A partial file whose first range is intact and whose second is not.\<close>

definition constant_sha :: range_env where
  "constant_sha = \<lparr>en_curl = (\<lambda>_ _ _. Inl ''offline''), en_sha256 = (\<lambda>_. ''d''), en_ok = (\<lambda>_. True),
     en_space = Some 0, en_blocks = (\<lambda>_. 1)\<rparr>"

definition two_ranges :: "byte_range list" where
  "two_ranges = [\<lparr>br_offset = 0, br_size = 4, br_sha256 = []\<rparr>, \<lparr>br_offset = 4, br_size = 6, br_sha256 = []\<rparr>]"

definition torn_files :: cache_files where
  "torn_files = \<lparr>cf_model = Some (replicate 10 0), cf_ranges = None,
     cf_partial = Some (write_sidecar_file partial_magic sample_range_request
       (fresh_stats\<lparr>rs_logical_bytes := 10\<rparr>)
       [\<lparr>br_offset = 0, br_size = 4, br_sha256 = ''d''\<rparr>, \<lparr>br_offset = 4, br_size = 6, br_sha256 = ''x''\<rparr>])\<rparr>"

lemma torn_partial_reads:
  "read_sidecar_file (cf_partial torn_files) partial_magic sample_range_request True
   = Inr (fresh_stats\<lparr>rs_logical_bytes := 10\<rparr>,
       [\<lparr>br_offset = 0, br_size = 4, br_sha256 = ''d''\<rparr>, \<lparr>br_offset = 4, br_size = 6, br_sha256 = ''x''\<rparr>])"
proof -
  have "writable_request sample_range_request" "CHR 0x0A \<notin> set partial_magic" by code_simp+
  then show ?thesis
    unfolding torn_files_def by (simp add: sidecar_reads_back plain_stats_def fresh_stats_def)
qed

text \<open>
  Discarding a damaged partial download keeps its byte count: when the first completed range
  is intact and a later one is not, the code removes the model and the partial file and starts
  over, but still counts the first range as completed, so the whole download is still to come
  while the space check and the reported totals assume that part of it is done.
\<close>

theorem torn_partial_still_counted:
  "case resume_partial constant_sha sample_range_request 10 torn_files two_ranges of
     (resuming, completed, completed_bytes, ranges, files) \<Rightarrow>
       \<not> resuming \<and> completed = [] \<and> cf_model files = None \<and> cf_partial files = None
       \<and> completed_bytes = 4 \<and> sum_sizes ranges - completed_bytes < sum_sizes ranges"
  unfolding resume_partial_def torn_partial_reads
  by (simp add: torn_files_def two_ranges_def constant_sha_def fresh_stats_def slice_def sum_sizes_def
      lowercase_def to_lower_def)

text \<open>A server with one file of 1 MiB, the header of which is the small GGUF header.\<close>

definition sample_remote :: "u8 list" where
  "sample_remote = sample_gguf @ replicate 1048494 0"

definition sample_headers :: string where
  "sample_headers = ''content-range: bytes 0-1048575/1048576'' @ CHR 0x0A # ''x-repo-commit: ''
     @ replicate 40 CHR ''a'' @ CHR 0x0A # ''x-linked-etag: '' @ replicate 64 CHR ''b''"

definition sample_env :: range_env where
  "sample_env = \<lparr>en_curl = (\<lambda>_ off sz. if off = 0 \<and> sz = 1048576 then Inr (sample_remote, sample_headers)
     else Inl ''404''), en_sha256 = (\<lambda>_. ''d''), en_ok = (\<lambda>_. True), en_space = Some (- 1), en_blocks = (\<lambda>_. 1)\<rparr>"

lemma sample_header_values:
  "header_value sample_headers ''content-range'' = Some ''bytes 0-1048575/1048576''"
  "header_value sample_headers ''x-repo-commit'' = Some (replicate 40 CHR ''a'')"
  "header_value sample_headers ''x-linked-etag'' = Some (replicate 64 CHR ''b'')"
  by code_simp+

lemma sample_text: "range_text 0 1048576 = ''0-1048575''" "from_chars_u64 ''1048576'' = Some 1048576"
  "lowercase (replicate 40 CHR ''a'') = replicate 40 CHR ''a''"
  "lowercase (replicate 64 CHR ''b'') = replicate 64 CHR ''b''"
  by code_simp+

lemma sample_remote_length: "length sample_remote = 1048576"
  by (simp add: sample_remote_def sample_gguf_length)

lemma sample_fetch:
  "fetch_range sample_range_request 0 1048576 (en_curl sample_env k 0 1048576) = Inr (sample_remote, 1048576)"
  by (simp add: fetch_range_def sample_env_def sample_header_values sample_text sample_remote_length
      sample_range_request_def starts_with_def)

lemma sample_honest: "honest sample_env sample_range_request sample_remote"
  unfolding honest_def
proof (intro allI impI)
  fix k off sz body n
  assume f: "fetch_range sample_range_request off sz (en_curl sample_env k off sz) = Inr (body, n)"
  then have "off = 0" "sz = 1048576"
    using fetch_range_InrD[OF f] by (auto simp: sample_env_def split: if_splits)
  then show "body = slice off sz sample_remote \<and> unat n = length sample_remote"
    using f sample_fetch[of k] by (simp add: slice_def sample_remote_length)
qed

lemma sample_ranges:
  "required_ranges sample_gguf_index 0 1 = ([\<lparr>br_offset = 0, br_size = 1048576, br_sha256 = []\<rparr>], 1, 0)"
  "bounded_ranges [\<lparr>br_offset = 0, br_size = 1048576, br_sha256 = []\<rparr>] = [\<lparr>br_offset = 0, br_size = 1048576, br_sha256 = []\<rparr>]"
  "block_count (gi_tensors sample_gguf_index) = 1" "valid_range_request sample_range_request"
  by code_simp+

lemma sample_metadata:
  "read_metadata metadata_limit sample_env sample_range_request (Suc 0) 0 [] 0 0 fresh_index
   = Inr (2, 1048576, 1048576, sample_gguf_index)"
proof -
  have "parse_index sample_remote 1048576 fresh_index = (Complete, sample_gguf_index, [])"
    unfolding sample_remote_def by (rule parse_index_extend[OF sample_gguf_parses])
  moreover have limit: "metadata_limit = Suc 63" by (simp add: metadata_limit_def)
  moreover have "en_ok sample_env (Suc 0)" by (simp add: sample_env_def)
  ultimately show ?thesis
    using sample_fetch[of "Suc 0"] unfolding limit by (simp add: metadata_chunk_def del: Suc_numeral)
qed

lemma sample_prepare:
  "\<exists>stats files'. prepare_range_model sample_env sample_range_request
     \<lparr>cf_model = None, cf_ranges = None, cf_partial = None\<rparr> = (Inr stats, files')"
proof -
  have env: "en_ok sample_env k" "en_space sample_env = Some (- 1)" "en_blocks sample_env m = 1" for k m
    by (simp_all add: sample_env_def)
  have req: "rq_stage_start sample_range_request = 0" "rq_stage_end sample_range_request = 1"
    by (simp_all add: sample_range_request_def)
  show ?thesis
    using sample_fetch
    by (simp add: prepare_range_model_def decide_cache_def drop_stale_partial_def sample_ranges env req
        sample_metadata fill_model_def sum_sizes_def download_chunk_def Let_def finish_download_def)
qed

theorem first_download_assembles_stage_witness:
  "\<exists>stats files' m. prepare_range_model sample_env sample_range_request
     \<lparr>cf_model = None, cf_ranges = None, cf_partial = None\<rparr> = (Inr stats, files')
     \<and> cf_model files' = Some m \<and> length m = 1048576"
proof -
  obtain stats files' where p: "prepare_range_model sample_env sample_range_request
     \<lparr>cf_model = None, cf_ranges = None, cf_partial = None\<rparr> = (Inr stats, files')"
    using sample_prepare by blast
  from first_download_assembles_stage[OF sample_honest p] p sample_remote_length show ?thesis by metis
qed

end
