(* ===== verification/Index_File.thy ===== *)
theory Index_File
  imports Range_Download
begin

text \<open>
  Model inspection and the model index kept on disk (\<^verbatim>\<open>engine/range_model.cpp\<close>, lines 635 to
  678 and 890 to 951). The file is written with \<^verbatim>\<open>operator<<\<close> and read with
  \<^verbatim>\<open>operator>>\<close>: extraction skips white space, a word runs to the next white space, and a
  number is the longest run of digits after an optional sign.
\<close>

section \<open>Inspection\<close>

definition inspect_range_model :: "range_env \<Rightarrow> range_request \<Rightarrow> string + model_index" where
  "inspect_range_model env req =
     (if rq_url req = [] \<or> rq_path req = [] then
        Inl ''model inspection requires a URL and temporary path''
      else if \<not> en_ok env 0 then Inl ''could not create model metadata directory''
      else
        case read_metadata metadata_limit env req 1 0 [] 0 0 fresh_index of
          Inl e \<Rightarrow> Inl (if e = ''GGUF metadata exceeds range parser limit''
                       then ''unsupported or incomplete GGUF metadata'' else e)
        | Inr (_, _, _, i) \<Rightarrow> fill_model_index i)"

section \<open>Formatted extraction\<close>

definition is_space :: "char \<Rightarrow> bool" where
  "is_space c \<longleftrightarrow> c \<in> {CHR '' '', CHR 0x09, CHR 0x0A, CHR 0x0B, CHR 0x0C, CHR 0x0D}"

definition read_word :: "string \<Rightarrow> (string \<times> string) option" where
  "read_word s =
     (let t = dropWhile is_space s; w = takeWhile (\<lambda>c. \<not> is_space c) t
      in if w = [] then None else Some (w, dropWhile (\<lambda>c. \<not> is_space c) t))"

definition split_sign :: "string \<Rightarrow> bool \<times> string" where
  "split_sign t =
     (case t of [] \<Rightarrow> (False, [])
      | c # r \<Rightarrow> if c = CHR ''-'' then (True, r) else if c = CHR ''+'' then (False, r) else (False, t))"

text \<open>A negated unsigned number wraps; one above the limit sets the fail bit.\<close>

definition read_unsigned :: "nat \<Rightarrow> string \<Rightarrow> (nat \<times> string) option" where
  "read_unsigned limit s =
     (let (neg, u) = split_sign (dropWhile is_space s); ds = takeWhile is_digit u; n = digits_val ds
      in if ds = [] \<or> n > limit then None
         else Some (if neg \<and> n \<noteq> 0 then limit + 1 - n else n, dropWhile is_digit u))"

definition read_u32 :: "string \<Rightarrow> (u32 \<times> string) option" where
  "read_u32 s = map_option (\<lambda>(n, r). (word_of_nat n, r)) (read_unsigned u32_max s)"

definition read_u64 :: "string \<Rightarrow> (u64 \<times> string) option" where
  "read_u64 s = map_option (\<lambda>(n, r). (word_of_nat n, r)) (read_unsigned u64_max s)"

text \<open>A chain of extractions into a vector.\<close>

primrec read_many :: "nat \<Rightarrow> (string \<Rightarrow> ('a \<times> string) option) \<Rightarrow> string \<Rightarrow> ('a list \<times> string) option" where
  "read_many 0 rd s = Some ([], s)"
| "read_many (Suc n) rd s =
     (case rd s of None \<Rightarrow> None
      | Some (x, s1) \<Rightarrow> map_option (\<lambda>(xs, s2). (x # xs, s2)) (read_many n rd s1))"

section \<open>Saving and loading\<close>

definition index_geometry :: "model_index \<Rightarrow> u32 list" where
  "index_geometry m = [mi_layers m, mi_hidden m, mi_heads m, mi_kv_heads m, mi_experts m,
     mi_experts_used m, mi_ffn_length m, mi_trained_context m, mi_expert_ffn_length m,
     mi_head_dim_k m, mi_head_dim_v m]"

definition tensor_line :: "model_tensor \<Rightarrow> string" where
  "tensor_line t = dec_u64 (mt_bytes t) @ '' '' @ dec_u32 (mt_type t) @ '' ''
     @ dec (length (mt_dimensions t)) @ concat (map (\<lambda>d. '' '' @ dec_u64 d) (mt_dimensions t))
     @ '' '' @ mt_name t @ [CHR 0x0A]"

definition save_model_index :: "model_index \<Rightarrow> string" where
  "save_model_index m = ''dan-model-index 4'' @ CHR 0x0A # mi_architecture m
     @ concat (map (\<lambda>v. '' '' @ dec_u32 v) (index_geometry m))
     @ '' '' @ dec_u64 (mi_logical_bytes m) @ '' '' @ dec_u64 (mi_header_bytes m)
     @ '' '' @ dec (length (mi_tensors m)) @ CHR 0x0A # concat (map tensor_line (mi_tensors m))"

definition read_tensor :: "string \<Rightarrow> (model_tensor \<times> string) option" where
  "read_tensor s =
     (case read_u64 s of None \<Rightarrow> None | Some (bytes, s1) \<Rightarrow>
      (case read_u32 s1 of None \<Rightarrow> None | Some (ty, s2) \<Rightarrow>
      (case read_unsigned u64_max s2 of None \<Rightarrow> None | Some (dims, s3) \<Rightarrow>
        if dims > 4 then None
        else
          (case read_many dims read_u64 s3 of None \<Rightarrow> None | Some (ds, s4) \<Rightarrow>
          (case read_word s4 of None \<Rightarrow> None | Some (name, s5) \<Rightarrow>
             Some (\<lparr>mt_name = name, mt_bytes = bytes, mt_dimensions = ds, mt_type = ty\<rparr>, s5))))))"

definition loadable :: "model_index \<Rightarrow> bool" where
  "loadable m \<longleftrightarrow> mi_architecture m \<in> {''qwen2'', ''olmoe'', ''qwen3moe''} \<and> mi_layers m \<ge> 2
     \<and> mi_hidden m \<noteq> 0 \<and> mi_heads m \<noteq> 0 \<and> mi_kv_heads m \<noteq> 0 \<and> mi_logical_bytes m \<noteq> 0"

definition load_model_index :: "string \<Rightarrow> model_index option" where
  "load_model_index s =
     (case read_word s of None \<Rightarrow> None | Some (mg, s1) \<Rightarrow>
      (case read_word s1 of None \<Rightarrow> None | Some (ver, s2) \<Rightarrow>
        if mg \<noteq> ''dan-model-index'' \<or> ver \<noteq> ''4'' then None
        else
          (case read_word s2 of None \<Rightarrow> None | Some (arch, s3) \<Rightarrow>
          (case read_many 11 read_u32 s3 of None \<Rightarrow> None | Some (g, s4) \<Rightarrow>
          (case read_u64 s4 of None \<Rightarrow> None | Some (logical, s5) \<Rightarrow>
          (case read_u64 s5 of None \<Rightarrow> None | Some (header, s6) \<Rightarrow>
          (case read_unsigned u64_max s6 of None \<Rightarrow> None | Some (n, s7) \<Rightarrow>
            if n = 0 \<or> n > 1000000 then None
            else
              (case read_many n read_tensor s7 of None \<Rightarrow> None | Some (ts, s8) \<Rightarrow>
                 let m = \<lparr>mi_architecture = arch, mi_layers = g ! 0, mi_hidden = g ! 1,
                   mi_heads = g ! 2, mi_kv_heads = g ! 3, mi_experts = g ! 4,
                   mi_experts_used = g ! 5, mi_ffn_length = g ! 6, mi_trained_context = g ! 7,
                   mi_expert_ffn_length = g ! 8, mi_head_dim_k = g ! 9, mi_head_dim_v = g ! 10,
                   mi_logical_bytes = logical, mi_header_bytes = header, mi_tensors = ts\<rparr>
                 in if loadable m then Some m else None))))))))"

section \<open>Lemmas\<close>

text \<open>A printed item followed by white space is read back and leaves the white space.\<close>

lemma digit_not_space: "is_digit c \<Longrightarrow> \<not> is_space c"
  by (auto simp: is_digit_def is_space_def)

definition spaced :: "string \<Rightarrow> bool" where
  "spaced rest \<longleftrightarrow> (case rest of [] \<Rightarrow> True | c # _ \<Rightarrow> is_space c)"

lemma spaced_Cons [simp]: "spaced (c # r) = is_space c" and spaced_Nil [simp]: "spaced []"
  by (simp_all add: spaced_def)

lemma is_space_seps [simp]: "is_space (CHR '' '')" "is_space (CHR 0x0A)"
  by (simp_all add: is_space_def)

lemma takeWhile_item:
  assumes "\<forall>c \<in> set w. P c" and "rest = [] \<or> \<not> P (hd rest)"
  shows "takeWhile P (w @ rest) = w" "dropWhile P (w @ rest) = rest"
  using assms by (induction w) (auto simp: takeWhile_eq_Nil_iff dropWhile_eq_self_iff)

lemma read_unsigned_dec:
  assumes "n \<le> limit" and "is_space c" and "spaced rest"
  shows "read_unsigned limit (c # dec n @ rest) = Some (n, rest)"
proof -
  obtain d ds where d: "dec n = d # ds" "is_digit d"
    using dec_not_Nil[of n] is_digit_dec[of _ n] by (cases "dec n") auto
  have dw: "dropWhile is_space (c # dec n @ rest) = dec n @ rest"
    using d digit_not_space[of d] assms(2) by simp
  have sg: "split_sign (dec n @ rest) = (False, dec n @ rest)"
    using d by (auto simp: split_sign_def is_digit_def)
  have "rest = [] \<or> \<not> is_digit (hd rest)"
    using assms(3) digit_not_space by (cases rest) auto
  then have tw: "takeWhile is_digit (dec n @ rest) = dec n" "dropWhile is_digit (dec n @ rest) = rest"
    using takeWhile_item[of "dec n" is_digit rest] is_digit_dec[of _ n] by blast+
  show ?thesis
    unfolding read_unsigned_def dw using assms(1) by (simp add: sg tw digits_val_dec)
qed

lemma read_u32_dec:
  "is_space c \<Longrightarrow> spaced rest \<Longrightarrow> read_u32 (c # dec_u32 w @ rest) = Some (w, rest)"
  using read_unsigned_dec[of "unat w" u32_max c rest] by (simp add: read_u32_def dec_u32_def)

lemma read_u64_dec:
  "is_space c \<Longrightarrow> spaced rest \<Longrightarrow> read_u64 (c # dec_u64 w @ rest) = Some (w, rest)"
  using read_unsigned_dec[of "unat w" u64_max c rest] by (simp add: read_u64_def dec_u64_def)

definition word_text :: "string \<Rightarrow> bool" where
  "word_text w \<longleftrightarrow> w \<noteq> [] \<and> list_all (\<lambda>c. \<not> is_space c) w"

lemma read_word_first:
  assumes "word_text w" and "spaced rest"
  shows "read_word (w @ rest) = Some (w, rest)"
proof -
  have "dropWhile is_space (w @ rest) = w @ rest"
    using assms(1) by (cases w) (auto simp: word_text_def)
  moreover have "rest = [] \<or> \<not> \<not> is_space (hd rest)" using assms(2) by (cases rest) auto
  then have "takeWhile (\<lambda>c. \<not> is_space c) (w @ rest) = w" "dropWhile (\<lambda>c. \<not> is_space c) (w @ rest) = rest"
    using takeWhile_item[of w "\<lambda>c. \<not> is_space c" rest] assms(1) by (auto simp: word_text_def list_all_iff)
  ultimately show ?thesis using assms(1) by (simp add: read_word_def word_text_def)
qed

lemma read_word_next: "is_space c \<Longrightarrow> word_text w \<Longrightarrow> spaced rest \<Longrightarrow> read_word (c # w @ rest) = Some (w, rest)"
  using read_word_first[of w rest] by (simp add: read_word_def)

lemma read_many_u64:
  "spaced rest \<Longrightarrow> read_many (length ds) read_u64 (concat (map (\<lambda>d. '' '' @ dec_u64 d) ds) @ rest) = Some (ds, rest)"
proof (induction ds)
  case (Cons d ds)
  have "spaced (concat (map (\<lambda>d. '' '' @ dec_u64 d) ds) @ rest)"
    using Cons.prems by (cases ds) auto
  with Cons read_u64_dec[of "CHR '' ''" "concat (map (\<lambda>d. '' '' @ dec_u64 d) ds) @ rest" d] show ?case by simp
qed simp

lemma read_many_u32:
  "spaced rest \<Longrightarrow> read_many (length ds) read_u32 (concat (map (\<lambda>d. '' '' @ dec_u32 d) ds) @ rest) = Some (ds, rest)"
proof (induction ds)
  case (Cons d ds)
  have "spaced (concat (map (\<lambda>d. '' '' @ dec_u32 d) ds) @ rest)"
    using Cons.prems by (cases ds) auto
  with Cons read_u32_dec[of "CHR '' ''" "concat (map (\<lambda>d. '' '' @ dec_u32 d) ds) @ rest" d] show ?case by simp
qed simp

definition storable_tensor :: "model_tensor \<Rightarrow> bool" where
  "storable_tensor t \<longleftrightarrow> length (mt_dimensions t) \<le> 4 \<and> word_text (mt_name t)"

lemma read_tensor_line:
  assumes "storable_tensor t" and "is_space c"
  shows "read_tensor (c # tensor_line t @ rest) = Some (t, CHR 0x0A # rest)"
proof -
  let ?dims = "concat (map (\<lambda>d. '' '' @ dec_u64 d) (mt_dimensions t))"
  let ?s4 = "CHR '' '' # mt_name t @ CHR 0x0A # rest"
  let ?s3 = "?dims @ ?s4"
  let ?s2 = "CHR '' '' # dec (length (mt_dimensions t)) @ ?s3"
  let ?s1 = "CHR '' '' # dec_u32 (mt_type t) @ ?s2"
  have sp: "spaced ?s3" by (cases "mt_dimensions t") auto
  have "c # tensor_line t @ rest = c # dec_u64 (mt_bytes t) @ ?s1"
    by (simp add: tensor_line_def)
  moreover have "read_u64 (c # dec_u64 (mt_bytes t) @ ?s1) = Some (mt_bytes t, ?s1)"
    by (rule read_u64_dec) (use assms in auto)
  moreover have "read_u32 ?s1 = Some (mt_type t, ?s2)" by (rule read_u32_dec) auto
  moreover have "read_unsigned u64_max ?s2 = Some (length (mt_dimensions t), ?s3)"
    by (rule read_unsigned_dec) (use assms sp in \<open>auto simp: storable_tensor_def\<close>)
  moreover have "read_many (length (mt_dimensions t)) read_u64 ?s3 = Some (mt_dimensions t, ?s4)"
    by (rule read_many_u64) simp
  moreover have "read_word ?s4 = Some (mt_name t, CHR 0x0A # rest)"
    by (rule read_word_next) (use assms in \<open>auto simp: storable_tensor_def\<close>)
  ultimately show ?thesis
    using assms(1) by (simp add: read_tensor_def storable_tensor_def)
qed

lemma read_many_tensors:
  "list_all storable_tensor ts \<Longrightarrow>
   \<exists>rest. read_many (length ts) read_tensor (CHR 0x0A # concat (map tensor_line ts)) = Some (ts, rest)"
proof (induction ts)
  case (Cons t ts)
  then obtain rest where "read_many (length ts) read_tensor (CHR 0x0A # concat (map tensor_line ts)) = Some (ts, rest)"
    by auto
  with Cons.prems read_tensor_line[of t "CHR 0x0A" "concat (map tensor_line ts)"] show ?case by simp
qed simp

definition storable :: "model_index \<Rightarrow> bool" where
  "storable m \<longleftrightarrow> loadable m \<and> mi_tensors m \<noteq> [] \<and> length (mi_tensors m) \<le> 1000000
     \<and> list_all storable_tensor (mi_tensors m)"

lemma load_saved:
  assumes "storable m"
  shows "load_model_index (save_model_index m) = Some m"
proof -
  let ?s7 = "CHR 0x0A # concat (map tensor_line (mi_tensors m))"
  let ?s6 = "CHR '' '' # dec (length (mi_tensors m)) @ ?s7"
  let ?s5 = "CHR '' '' # dec_u64 (mi_header_bytes m) @ ?s6"
  let ?s4 = "CHR '' '' # dec_u64 (mi_logical_bytes m) @ ?s5"
  let ?s3 = "concat (map (\<lambda>v. '' '' @ dec_u32 v) (index_geometry m)) @ ?s4"
  let ?s2 = "CHR 0x0A # mi_architecture m @ ?s3"
  let ?s1 = "CHR '' '' # ''4'' @ ?s2"
  have "save_model_index m = ''dan-model-index'' @ ?s1"
    by (simp add: save_model_index_def)
  moreover have "read_word (''dan-model-index'' @ ?s1) = Some (''dan-model-index'', ?s1)"
    by (rule read_word_first) (simp_all add: word_text_def is_space_def)
  moreover have "read_word ?s1 = Some (''4'', ?s2)"
    by (rule read_word_next) (simp_all add: word_text_def is_space_def)
  moreover have "read_word ?s2 = Some (mi_architecture m, ?s3)"
  proof (rule read_word_next)
    show "word_text (mi_architecture m)"
      using assms by (auto simp: storable_def loadable_def word_text_def is_space_def)
  qed (simp_all add: index_geometry_def)
  moreover have "read_many 11 read_u32 ?s3 = Some (index_geometry m, ?s4)"
  proof -
    have "length (index_geometry m) = 11" by (simp add: index_geometry_def)
    then show ?thesis
      using read_many_u32[of ?s4 "index_geometry m"] by (simp only: spaced_Cons is_space_seps simp_thms)
  qed
  moreover have "read_u64 ?s4 = Some (mi_logical_bytes m, ?s5)" by (rule read_u64_dec) auto
  moreover have "read_u64 ?s5 = Some (mi_header_bytes m, ?s6)" by (rule read_u64_dec) auto
  moreover have "read_unsigned u64_max ?s6 = Some (length (mi_tensors m), ?s7)"
    by (rule read_unsigned_dec) (use assms in \<open>auto simp: storable_def\<close>)
  moreover obtain rest where "read_many (length (mi_tensors m)) read_tensor ?s7 = Some (mi_tensors m, rest)"
    using read_many_tensors assms by (auto simp: storable_def)
  moreover have "\<lparr>mi_architecture = mi_architecture m, mi_layers = index_geometry m ! 0,
      mi_hidden = index_geometry m ! 1, mi_heads = index_geometry m ! 2,
      mi_kv_heads = index_geometry m ! 3, mi_experts = index_geometry m ! 4,
      mi_experts_used = index_geometry m ! 5, mi_ffn_length = index_geometry m ! 6,
      mi_trained_context = index_geometry m ! 7, mi_expert_ffn_length = index_geometry m ! 8,
      mi_head_dim_k = index_geometry m ! 9, mi_head_dim_v = index_geometry m ! 10,
      mi_logical_bytes = mi_logical_bytes m, mi_header_bytes = mi_header_bytes m,
      mi_tensors = mi_tensors m\<rparr> = m"
    by (cases m) (simp add: index_geometry_def)
  moreover have "loadable m" "length (mi_tensors m) \<noteq> 0" "\<not> length (mi_tensors m) > 1000000"
    using assms by (auto simp: storable_def)
  ultimately show ?thesis
    by (simp only: load_model_index_def option.case prod.case Let_def if_True if_False simp_thms)
qed

section \<open>Properties\<close>

text \<open>
  C37. A saved model index is loaded unchanged: for every index of a supported architecture with
  usable geometry, at most a million tensors, at most four dimensions each and names without
  white space, loading the saved file gives the same index.
\<close>

theorem model_index_roundtrip:
  assumes "storable m"
  shows "load_model_index (save_model_index m) = Some m"
  using assms by (rule load_saved)

definition stored_model :: model_index where
  "stored_model = \<lparr>mi_architecture = ''qwen2'', mi_layers = 2, mi_hidden = 8, mi_heads = 4,
     mi_kv_heads = 2, mi_experts = 0, mi_experts_used = 0, mi_ffn_length = 16,
     mi_trained_context = 0, mi_expert_ffn_length = 0, mi_head_dim_k = 0, mi_head_dim_v = 0,
     mi_logical_bytes = 5000, mi_header_bytes = 1000,
     mi_tensors = [\<lparr>mt_name = ''output.weight'', mt_bytes = 1000, mt_dimensions = [8, 2], mt_type = 0\<rparr>]\<rparr>"

theorem model_index_roundtrip_witness:
  "load_model_index (save_model_index stored_model) = Some stored_model"
proof -
  have "storable stored_model" by code_simp
  then show ?thesis by (rule model_index_roundtrip)
qed

end
