(* ===== verification/Floats.thy ===== *)
theory Floats
  imports Prelude Complex_Main
begin

text \<open>
  Binary floating point as exact rationals with explicit rounding: \<open>fl p x\<close> is \<open>x\<close>
  rounded to \<open>p\<close> significant bits, half to even, the rounding of every IEEE operation on
  normal numbers. The precision of a type is an argument: 53 for \<^verbatim>\<open>double\<close>, 64 or 53 for
  \<^verbatim>\<open>long double\<close>.
\<close>

definition pow2 :: "int \<Rightarrow> rat" where
  "pow2 k = (if k \<ge> 0 then 2 ^ nat k else 1 / 2 ^ nat (- k))"

text \<open>The number of binary digits of a natural number.\<close>

fun bits_of :: "nat \<Rightarrow> nat" where
  "bits_of n = (if n = 0 then 0 else Suc (bits_of (n div 2)))"

declare bits_of.simps [simp del]

text \<open>The exponent of the leading bit of a positive rational.\<close>

definition lead_exp :: "rat \<Rightarrow> int" where
  "lead_exp x =
     (case quotient_of x of (n, d) \<Rightarrow>
        let k = int (bits_of (nat n)) - int (bits_of (nat d))
        in if pow2 k \<le> x then k else k - 1)"

definition round_even :: "rat \<Rightarrow> int" where
  "round_even x =
     (let f = \<lfloor>x\<rfloor>; r = x - of_int f
      in if r < 1 / 2 then f else if r > 1 / 2 then f + 1 else if even f then f else f + 1)"

definition fl :: "nat \<Rightarrow> rat \<Rightarrow> rat" where
  "fl p x =
     (if x = 0 then 0
      else
        let e = lead_exp \<bar>x\<bar> - int p + 1
        in of_int (round_even (x / pow2 e)) * pow2 e)"

text \<open>Truncation towards zero, \<^verbatim>\<open>static_cast<int>\<close> of a value that an \<^verbatim>\<open>int\<close> holds.\<close>

definition trunc :: "rat \<Rightarrow> int" where
  "trunc x = (if x \<ge> 0 then \<lfloor>x\<rfloor> else \<lceil>x\<rceil>)"

lemma round_even_int [simp]: "round_even (of_int i) = i"
  by (simp add: round_even_def)

lemma fl_zero [simp]: "fl p 0 = 0"
  by (simp add: fl_def)

lemma round_even_nonneg: "0 \<le> x \<Longrightarrow> 0 \<le> round_even x"
  by (simp add: round_even_def Let_def)

lemma pow2_pos [simp]: "0 < pow2 k"
  by (simp add: pow2_def)

lemma fl_nonneg: "0 \<le> x \<Longrightarrow> 0 \<le> fl p x"
proof -
  assume x: "0 \<le> x"
  have "0 \<le> x / pow2 k" for k using x by (rule divide_nonneg_pos) simp
  then have "0 \<le> round_even (x / pow2 k)" for k by (rule round_even_nonneg)
  then have "0 \<le> of_int (round_even (x / pow2 k)) * pow2 k" for k
    using pow2_pos[of k] by (simp add: less_imp_le)
  then show ?thesis unfolding fl_def Let_def by auto
qed

section \<open>Rounding is monotone\<close>

lemma bits_of_bounds: "0 < n \<Longrightarrow> 2 ^ (bits_of n - 1) \<le> n \<and> n < 2 ^ bits_of n \<and> 0 < bits_of n"
proof (induction n rule: bits_of.induct)
  case (1 n)
  show ?case
  proof (cases "n = 1")
    case True
    then show ?thesis by (simp add: bits_of.simps)
  next
    case False
    with 1 have ih: "2 ^ (bits_of (n div 2) - 1) \<le> n div 2" "n div 2 < 2 ^ bits_of (n div 2)"
      "0 < bits_of (n div 2)" by auto
    then have "2 ^ bits_of (n div 2) \<le> 2 * (n div 2)"
      by (cases "bits_of (n div 2)") auto
    moreover have "n < 2 * 2 ^ bits_of (n div 2)" using ih(2) by linarith
    moreover have "bits_of n = Suc (bits_of (n div 2))"
      using "1.prems" by (subst bits_of.simps) simp
    ultimately show ?thesis by simp
  qed
qed

lemma pow2_powi: "pow2 k = 2 powi k"
  by (simp add: pow2_def power_int_def power_one_over)

lemma pow2_add: "pow2 (a + b) = pow2 a * pow2 b"
  by (simp add: pow2_powi power_int_add)

lemma pow2_mono: "a \<le> b \<Longrightarrow> pow2 a \<le> pow2 b"
  by (simp add: pow2_powi power_int_increasing)

lemma pow2_nat: "pow2 (int n) = 2 ^ n"
  by (simp add: pow2_def)

lemma lead_exp_bounds:
  assumes "0 < x"
  shows "pow2 (lead_exp x) \<le> x" "x < pow2 (lead_exp x + 1)"
proof -
  obtain n d where q: "quotient_of x = (n, d)" by fastforce
  have d: "0 < d" and x: "x = of_int n / of_int d"
    using quotient_of_denom_pos[OF q] quotient_of_div[OF q] by auto
  then have n: "0 < n" using assms by (simp add: zero_less_divide_iff)
  define a b k where "a = bits_of (nat n)" and "b = bits_of (nat d)" and "k = int a - int b"
  have na: "2 ^ (a - 1) \<le> nat n" "nat n < 2 ^ a" "0 < a"
    and db: "2 ^ (b - 1) \<le> nat d" "nat d < 2 ^ b" "0 < b"
    using bits_of_bounds[of "nat n"] bits_of_bounds[of "nat d"] n d by (auto simp: a_def b_def)
  have rn: "2 ^ (a - 1) \<le> (of_int n :: rat)" "(of_int n :: rat) < 2 ^ a"
    using na n by (simp_all add: le_nat_iff nat_less_iff flip: of_int_power_le_of_int_cancel_iff
        of_int_less_of_int_power_cancel_iff)
  have rd: "2 ^ (b - 1) \<le> (of_int d :: rat)" "(of_int d :: rat) < 2 ^ b"
    using db d by (simp_all add: le_nat_iff nat_less_iff)
  have up: "x < pow2 (k + 1)"
  proof -
    have "pow2 (k + 1) * 2 ^ (b - 1) = 2 ^ a"
      using db(3) by (simp add: k_def flip: pow2_nat pow2_add)
    moreover have "pow2 (k + 1) * 2 ^ (b - 1) \<le> pow2 (k + 1) * of_int d"
      using rd(1) by (simp add: less_imp_le)
    ultimately have "of_int n < pow2 (k + 1) * of_int d" using rn(2) by linarith
    then show ?thesis using d by (simp add: x divide_less_eq)
  qed
  have low: "pow2 (k - 1) \<le> x"
  proof -
    have "pow2 (k - 1) * 2 ^ b = 2 ^ (a - 1)"
      using na(3) by (simp add: k_def flip: pow2_nat pow2_add)
    moreover have "pow2 (k - 1) * of_int d \<le> pow2 (k - 1) * 2 ^ b"
      using rd(2) by (simp add: less_imp_le)
    ultimately have "pow2 (k - 1) * of_int d \<le> of_int n" using rn(1) by linarith
    then show ?thesis using d by (simp add: x le_divide_eq)
  qed
  have "lead_exp x = (if pow2 k \<le> x then k else k - 1)"
    by (simp add: lead_exp_def q a_def b_def k_def Let_def)
  then show "pow2 (lead_exp x) \<le> x" "x < pow2 (lead_exp x + 1)"
    using up low by (auto split: if_splits)
qed

lemma round_even_mono: "x \<le> y \<Longrightarrow> round_even x \<le> round_even y"
proof -
  assume le: "x \<le> y"
  show ?thesis
  proof (cases "\<lfloor>x\<rfloor> = \<lfloor>y\<rfloor>")
    case True
    with le show ?thesis by (auto simp: round_even_def Let_def)
  next
    case False
    with le have "\<lfloor>x\<rfloor> + 1 \<le> \<lfloor>y\<rfloor>" using floor_mono[of x y] by linarith
    then show ?thesis by (auto simp: round_even_def Let_def)
  qed
qed

lemma fl_bracket:
  assumes "0 < x" and "0 < p"
  shows "pow2 (lead_exp x) \<le> fl p x" "fl p x \<le> pow2 (lead_exp x + 1)"
proof -
  define e where "e = lead_exp x - int p + 1"
  have low: "2 ^ (p - 1) * pow2 e = pow2 (lead_exp x)"
    using assms(2) by (simp add: e_def flip: pow2_nat pow2_add)
  have high: "2 ^ p * pow2 e = pow2 (lead_exp x + 1)"
    by (simp add: e_def flip: pow2_nat pow2_add)
  have "of_int (2 ^ (p - 1)) \<le> x / pow2 e"
    using lead_exp_bounds(1)[OF assms(1)] by (simp add: le_divide_eq low[simplified])
  from round_even_mono[OF this] have a: "2 ^ (p - 1) \<le> round_even (x / pow2 e)"
    by (simp only: round_even_int)
  have "x / pow2 e \<le> of_int (2 ^ p)"
    using lead_exp_bounds(2)[OF assms(1)] by (simp add: divide_le_eq high)
  from round_even_mono[OF this] have b: "round_even (x / pow2 e) \<le> 2 ^ p"
    by (simp only: round_even_int)
  have fl: "fl p x = of_int (round_even (x / pow2 e)) * pow2 e"
    using assms(1) by (simp add: fl_def Let_def e_def)
  have scale: "i \<le> j \<Longrightarrow> of_int i * pow2 e \<le> of_int j * pow2 e" for i j
    using pow2_pos[of e] by (simp add: mult_right_mono less_imp_le)
  show "pow2 (lead_exp x) \<le> fl p x"
    unfolding fl low[symmetric] using scale[OF a] by simp
  show "fl p x \<le> pow2 (lead_exp x + 1)"
    unfolding fl high[symmetric] using scale[OF b] by simp
qed

lemma lead_exp_mono: "0 < x \<Longrightarrow> x \<le> y \<Longrightarrow> lead_exp x \<le> lead_exp y"
proof (rule ccontr)
  assume x: "0 < x" and le: "x \<le> y" and "\<not> lead_exp x \<le> lead_exp y"
  then have "pow2 (lead_exp y + 1) \<le> pow2 (lead_exp x)" by (intro pow2_mono) simp
  with lead_exp_bounds(1)[OF x] lead_exp_bounds(2)[of y] x le show False by linarith
qed

text \<open>Rounding keeps the order of non-negative numbers.\<close>

lemma fl_mono:
  assumes "0 \<le> x" and "x \<le> y" and "0 < p"
  shows "fl p x \<le> fl p y"
proof (cases "x = 0")
  case True
  then show ?thesis using assms by (simp add: fl_nonneg)
next
  case False
  then have x: "0 < x" and y: "0 < y" using assms by auto
  show ?thesis
  proof (cases "lead_exp x = lead_exp y")
    case True
    then have "fl p x = of_int (round_even (x / pow2 (lead_exp y - int p + 1)))
        * pow2 (lead_exp y - int p + 1)" using x by (simp add: fl_def Let_def)
    moreover have "round_even (x / pow2 k) \<le> round_even (y / pow2 k)" for k
      by (intro round_even_mono divide_right_mono assms(2)) (simp add: less_imp_le)
    ultimately show ?thesis
      using y by (simp add: fl_def Let_def mult_right_mono less_imp_le)
  next
    case False
    then have "lead_exp x + 1 \<le> lead_exp y" using lead_exp_mono[OF x assms(2)] by simp
    then have "pow2 (lead_exp x + 1) \<le> pow2 (lead_exp y)" by (rule pow2_mono)
    with fl_bracket(2)[OF x assms(3)] fl_bracket(1)[OF y assms(3)] show ?thesis by linarith
  qed
qed

lemma fl_pos: "0 < x \<Longrightarrow> 0 < p \<Longrightarrow> 0 < fl p x"
  using fl_bracket(1)[of x p] pow2_pos[of "lead_exp x"] by linarith

lemma round_even_error: "of_int (round_even x) \<le> x + 1 / 2"
  unfolding round_even_def Let_def by (auto simp: field_simps) linarith+

text \<open>The relative error of one rounding.\<close>

lemma fl_upper:
  assumes "0 < x" and "0 < p"
  shows "fl p x \<le> x + x / 2 ^ p"
proof -
  define e where "e = lead_exp x - int p + 1"
  have e: "2 ^ (p - 1) * pow2 e = pow2 (lead_exp x)"
    using assms(2) by (simp add: e_def flip: pow2_nat pow2_add)
  have "fl p x = of_int (round_even (x / pow2 e)) * pow2 e"
    using assms(1) by (simp add: fl_def Let_def e_def)
  also have "\<dots> \<le> (x / pow2 e + 1 / 2) * pow2 e"
    using pow2_pos[of e] by (intro mult_right_mono round_even_error) (simp add: less_imp_le)
  also have "\<dots> = x + pow2 e / 2" using pow2_pos[of e] by (simp add: distrib_right less_le)
  also have "pow2 e / 2 = pow2 (lead_exp x) / 2 ^ p"
    using assms(2) by (cases p) (simp_all add: e[symmetric])
  also have "\<dots> \<le> x / 2 ^ p"
    using lead_exp_bounds(1)[OF assms(1)] by (simp add: divide_right_mono)
  finally show ?thesis by simp
qed

section \<open>Doubles\<close>

text \<open>
  A \<^verbatim>\<open>double\<close>: a finite value, an infinity or not a number. The sign of zero is not
  kept: zero stands for positive zero where it divides.
\<close>

datatype double = Fin rat | PInf | NInf | NaN

definition min_normal :: rat where
  "min_normal = pow2 (-1022)"

text \<open>The nearest double of a value that does not overflow, subnormal numbers included.\<close>

definition rnd :: "rat \<Rightarrow> rat" where
  "rnd x = (if \<bar>x\<bar> < min_normal then of_int (round_even (x * pow2 1074)) * pow2 (-1074) else fl 53 x)"

definition round_double :: "rat \<Rightarrow> double" where
  "round_double x =
     (let r = rnd x
      in if r \<ge> pow2 1024 then PInf else if r \<le> - pow2 1024 then NInf else Fin r)"

fun double_less :: "double \<Rightarrow> double \<Rightarrow> bool" where
  "double_less (Fin a) (Fin b) \<longleftrightarrow> a < b"
| "double_less NaN _ \<longleftrightarrow> False"
| "double_less _ NaN \<longleftrightarrow> False"
| "double_less NInf NInf \<longleftrightarrow> False"
| "double_less NInf _ \<longleftrightarrow> True"
| "double_less PInf _ \<longleftrightarrow> False"
| "double_less _ PInf \<longleftrightarrow> True"
| "double_less _ _ \<longleftrightarrow> False"

fun double_add :: "double \<Rightarrow> double \<Rightarrow> double" where
  "double_add (Fin a) (Fin b) = round_double (a + b)"
| "double_add PInf (Fin _) = PInf"
| "double_add PInf PInf = PInf"
| "double_add (Fin _) PInf = PInf"
| "double_add NInf (Fin _) = NInf"
| "double_add NInf NInf = NInf"
| "double_add (Fin _) NInf = NInf"
| "double_add _ _ = NaN"

text \<open>An infinity of the sign of the second argument, the first being a positive infinity.\<close>

definition signed_inf :: "bool \<Rightarrow> rat \<Rightarrow> double" where
  "signed_inf positive b = (if b = 0 then NaN else if (b > 0) = positive then PInf else NInf)"

fun double_mult :: "double \<Rightarrow> double \<Rightarrow> double" where
  "double_mult (Fin a) (Fin b) = round_double (a * b)"
| "double_mult PInf (Fin b) = signed_inf True b"
| "double_mult (Fin a) PInf = signed_inf True a"
| "double_mult NInf (Fin b) = signed_inf False b"
| "double_mult (Fin a) NInf = signed_inf False a"
| "double_mult PInf PInf = PInf"
| "double_mult NInf NInf = PInf"
| "double_mult PInf NInf = NInf"
| "double_mult NInf PInf = NInf"
| "double_mult _ _ = NaN"

text \<open>Division by a value that is not negative; zero is positive zero.\<close>

fun double_div :: "double \<Rightarrow> double \<Rightarrow> double" where
  "double_div (Fin a) (Fin b) =
     (if b = 0 then (if a = 0 then NaN else if a > 0 then PInf else NInf) else round_double (a / b))"
| "double_div (Fin a) PInf = Fin 0"
| "double_div PInf (Fin _) = PInf"
| "double_div NInf (Fin _) = NInf"
| "double_div _ _ = NaN"

definition double_of_u64 :: "u64 \<Rightarrow> double" where
  "double_of_u64 w = round_double (of_int (uint w))"

definition is_finite :: "double \<Rightarrow> bool" where
  "is_finite d \<longleftrightarrow> (case d of Fin _ \<Rightarrow> True | _ \<Rightarrow> False)"

text \<open>\<^verbatim>\<open>std::llround\<close>: to the nearest integer, half away from zero.\<close>

definition llround :: "rat \<Rightarrow> int" where
  "llround x = (if x \<ge> 0 then \<lfloor>x + 1 / 2\<rfloor> else \<lceil>x - 1 / 2\<rceil>)"

lemma llround_of_int [simp]: "llround (of_int i) = i"
proof -
  have "\<lfloor>of_int i + 1 / 2 :: rat\<rfloor> = i" "\<lceil>of_int i - 1 / 2 :: rat\<rceil> = i"
    by (rule floor_unique, simp_all, rule ceiling_unique, simp_all)
  then show ?thesis by (simp add: llround_def)
qed

lemma round_double_small:
  assumes "1 \<le> x" and "x \<le> 1048576" and "fl 53 x = x"
  shows "round_double x = Fin x"
proof -
  have "min_normal \<le> 1" using pow2_mono[of "-1022" 0] by (simp add: min_normal_def pow2_def)
  moreover have "pow2 21 \<le> pow2 1024" by (rule pow2_mono) simp
  then have "x < pow2 1024" using assms(2) by (simp add: pow2_def)
  ultimately show ?thesis
    using assms pow2_pos[of 1024] by (simp add: round_double_def rnd_def Let_def not_less)
qed

lemma round_double_0 [simp]: "round_double 0 = Fin 0"
  using round_even_int[of 0] by (simp add: round_double_def rnd_def Let_def min_normal_def not_le)

lemma min_normal_grid: "of_int (2 ^ 52) * pow2 (-1074) = min_normal"
  using pow2_add[of 52 "-1074"] pow2_nat[of 52] by (simp add: min_normal_def)

lemma rnd_nonneg: "0 \<le> x \<Longrightarrow> 0 \<le> rnd x"
  using round_even_nonneg[of "x * pow2 1074"] pow2_pos[of 1074] pow2_pos[of "-1074"]
  by (simp add: rnd_def fl_nonneg less_imp_le)

text \<open>Rounding to a double keeps the order of non-negative numbers.\<close>

lemma rnd_mono:
  assumes "0 \<le> x" and "x \<le> y"
  shows "rnd x \<le> rnd y"
proof -
  have grid: "of_int (round_even a) * pow2 (-1074) \<le> of_int (round_even b) * pow2 (-1074)" if "a \<le> b" for a b
    using round_even_mono[OF that] pow2_pos[of "-1074"] by (simp add: mult_right_mono less_imp_le)
  have scale: "a * pow2 1074 \<le> b * pow2 1074" if "a \<le> b" for a b
    using that pow2_pos[of 1074] by (simp add: mult_right_mono less_imp_le)
  consider "y < min_normal" | "x < min_normal" "min_normal \<le> y" | "min_normal \<le> x" using assms by linarith
  then show ?thesis
  proof cases
    case 1
    then show ?thesis using assms grid[OF scale[OF assms(2)]] by (simp add: rnd_def)
  next
    case 2
    have one: "min_normal * pow2 1074 = of_int (2 ^ 52)"
      using pow2_add[of "-1022" 1074] pow2_nat[of 52] by (simp add: min_normal_def)
    have "rnd x \<le> of_int (round_even (min_normal * pow2 1074)) * pow2 (-1074)"
      using 2(1) assms grid[OF scale[of x min_normal]] by (simp add: rnd_def)
    also have "\<dots> = min_normal" unfolding one round_even_int by (rule min_normal_grid)
    also have "\<dots> \<le> fl 53 y"
    proof -
      have y: "0 < y" using less_le_trans[OF pow2_pos 2(2)[unfolded min_normal_def]] .
      have "-1022 \<le> lead_exp y"
        using lead_exp_bounds(2)[OF y] 2(2) pow2_mono[of "lead_exp y + 1" "-1022"]
        unfolding min_normal_def by force
      then have "min_normal \<le> pow2 (lead_exp y)" unfolding min_normal_def by (rule pow2_mono)
      then show ?thesis using fl_bracket(1)[OF y, of 53] by simp
    qed
    finally show ?thesis using 2(2) assms by (simp add: rnd_def)
  next
    case 3
    then show ?thesis using assms by (simp add: rnd_def fl_mono)
  qed
qed

end
