(* ===== verification/Speculation.thy ===== *)
theory Speculation
  imports Floats "HOL-Library.Code_Target_Nat"
begin

text \<open>
  Speculative decoding (\<^verbatim>\<open>engine/include/provider_owned/speculation.hpp\<close>): which tokens a
  verified batch commits, how many guesses fit in the context, and the session's search for
  the number of guesses worth making. Token times are \<^verbatim>\<open>double\<close> values; every number the
  search computes is zero or between 1/32 and 2 to the 67, so rounding to 53 bits is the
  whole of their arithmetic.
\<close>

section \<open>The acceptance rule\<close>

definition max_speculative_width :: u32 where
  "max_speculative_width = 32"

fun accept_loop :: "u32 list \<Rightarrow> u32 list \<Rightarrow> u32 list \<Rightarrow> u32 list" where
  "accept_loop accepted (p # ps) (s # ss) =
     (if p \<noteq> last accepted then accepted else accept_loop (accepted @ [s]) ps ss)"
| "accept_loop accepted _ _ = accepted"

definition accept_speculation :: "u32 list \<Rightarrow> u32 list \<Rightarrow> u32 list" where
  "accept_speculation proposals samples =
     (case samples of [] \<Rightarrow> [] | s # ss \<Rightarrow> accept_loop [s] proposals ss)"

definition speculation_room :: "u32 \<Rightarrow> u32 \<Rightarrow> u32" where
  "speculation_room context position =
     (if position < context \<and> context - position > 1 then context - position - 1 else 0)"

text \<open>
  Plain decoding with a model that samples one token after a text, and the samples such a
  model gives for the positions of a verify batch. The batch starts with the current token,
  which is the last token of \<open>ctx\<close>.
\<close>

fun plain_decode :: "(u32 list \<Rightarrow> u32) \<Rightarrow> u32 list \<Rightarrow> nat \<Rightarrow> u32 list" where
  "plain_decode model ctx 0 = []"
| "plain_decode model ctx (Suc n) = model ctx # plain_decode model (ctx @ [model ctx]) n"

fun batch_samples :: "(u32 list \<Rightarrow> u32) \<Rightarrow> u32 list \<Rightarrow> u32 list \<Rightarrow> u32 list" where
  "batch_samples model ctx [] = [model ctx]"
| "batch_samples model ctx (p # ps) = model ctx # batch_samples model (ctx @ [p]) ps"

text \<open>The number of leading proposals that the model agrees with.\<close>

fun agreed :: "(u32 list \<Rightarrow> u32) \<Rightarrow> u32 list \<Rightarrow> u32 list \<Rightarrow> nat" where
  "agreed model ctx [] = 0"
| "agreed model ctx (p # ps) = (if p = model ctx then Suc (agreed model (ctx @ [p]) ps) else 0)"

lemma accept_loop_plain:
  "last acc = model ctx \<Longrightarrow> acc \<noteq> [] \<Longrightarrow>
   accept_loop acc ps (tl (batch_samples model ctx ps))
     = acc @ plain_decode model (ctx @ [model ctx]) (agreed model ctx ps)"
proof (induction ps arbitrary: acc ctx)
  case (Cons p ps)
  obtain ss where ss: "batch_samples model (ctx @ [p]) ps = model (ctx @ [p]) # ss"
    by (cases ps) auto
  show ?case
  proof (cases "p = model ctx")
    case True
    with Cons.prems ss Cons.IH[of "acc @ [model (ctx @ [p])]" "ctx @ [p]"] show ?thesis by simp
  qed (use Cons.prems ss in simp)
qed simp

section \<open>The adaptive draft width\<close>

record adaptive_width =
  aw_limit :: u32
  aw_width :: u32
  aw_best :: u32
  aw_rounds :: u32
  aw_held_blocks :: u32
  aw_committed :: u32
  aw_elapsed :: rat
  aw_baseline :: rat
  aw_best_cost :: rat
  aw_searching :: bool

text \<open>\<^verbatim>\<open>std::clamp\<close>, and the double literals of the search.\<close>

definition clamp :: "'a::linorder \<Rightarrow> 'a \<Rightarrow> 'a \<Rightarrow> 'a" where
  "clamp v lo hi = (if v < lo then lo else if hi < v then hi else v)"

definition c095 :: rat where
  "c095 = fl 53 (95 / 100)"

definition c105 :: rat where
  "c105 = fl 53 (105 / 100)"

definition new_width :: "u32 \<Rightarrow> adaptive_width" where
  "new_width limit = \<lparr>aw_limit = clamp limit 1 max_speculative_width, aw_width = 1, aw_best = 1,
     aw_rounds = 0, aw_held_blocks = 0, aw_committed = 0, aw_elapsed = 0, aw_baseline = 0,
     aw_best_cost = 0, aw_searching = True\<rparr>"

text \<open>The end of a block of four rounds that cost \<open>cost\<close> per token.\<close>

definition end_block :: "rat \<Rightarrow> adaptive_width \<Rightarrow> adaptive_width" where
  "end_block cost a =
     (if aw_searching a then
        (if aw_width a = 1 then
           a\<lparr>aw_baseline := cost, aw_best_cost := cost, aw_best := 1, aw_width := 2\<rparr>
         else if cost < fl 53 (aw_best_cost a * c095) then
           (let b = a\<lparr>aw_best := aw_width a, aw_best_cost := cost\<rparr>
            in if aw_width a < aw_limit a then b\<lparr>aw_width := min (aw_limit a) (aw_width a * 2)\<rparr>
               else b\<lparr>aw_searching := False\<rparr>)
         else a\<lparr>aw_width := aw_best a, aw_searching := False\<rparr>)
      else if aw_width a > 1 \<and> cost > fl 53 (aw_baseline a * c105) then
        a\<lparr>aw_width := 1, aw_searching := True, aw_held_blocks := 0\<rparr>
      else if aw_held_blocks a + 1 = 4 then
        a\<lparr>aw_width := 1, aw_searching := True, aw_held_blocks := 0\<rparr>
      else a\<lparr>aw_held_blocks := aw_held_blocks a + 1\<rparr>)"

text \<open>One counted round.\<close>

definition add_round :: "u32 \<Rightarrow> u64 \<Rightarrow> adaptive_width \<Rightarrow> adaptive_width" where
  "add_round committed elapsed_ns a =
     a\<lparr>aw_elapsed := fl 53 (aw_elapsed a + fl 53 (of_int (uint elapsed_ns))),
       aw_committed := aw_committed a + committed, aw_rounds := aw_rounds a + 1\<rparr>"

definition observe_width :: "u32 \<Rightarrow> u32 \<Rightarrow> u64 \<Rightarrow> adaptive_width \<Rightarrow> adaptive_width" where
  "observe_width width committed elapsed_ns a =
     (if aw_limit a = 1 \<or> width \<noteq> aw_width a \<or> committed = 0 \<or> committed > width \<or> elapsed_ns = 0
      then a
      else
        let b = add_round committed elapsed_ns a
        in if aw_rounds b \<noteq> 4 then b
           else end_block (fl 53 (aw_elapsed b / of_int (uint (aw_committed b))))
                  (b\<lparr>aw_rounds := 0, aw_elapsed := 0, aw_committed := 0\<rparr>))"

text \<open>
  What the search keeps: widths within the limit, counters below four, and, outside the
  baseline block, a best width whose cost is the baseline's or at least 5% below it.
\<close>

definition winner_ok :: "adaptive_width \<Rightarrow> bool" where
  "winner_ok a \<longleftrightarrow> 0 < aw_baseline a \<and> 0 < aw_best_cost a
     \<and> (aw_best a = 1 \<and> aw_best_cost a = aw_baseline a
        \<or> aw_best_cost a < fl 53 (aw_baseline a * c095))"

definition width_bounds :: "adaptive_width \<Rightarrow> bool" where
  "width_bounds a \<longleftrightarrow> 1 \<le> aw_width a \<and> aw_width a \<le> aw_limit a \<and> aw_limit a \<le> 32
     \<and> 1 \<le> aw_best a \<and> aw_best a \<le> aw_limit a \<and> aw_held_blocks a < 4"

definition width_inv :: "adaptive_width \<Rightarrow> bool" where
  "width_inv a \<longleftrightarrow> width_bounds a \<and> aw_rounds a < 4
     \<and> unat (aw_committed a) \<le> unat (aw_rounds a) * unat (aw_width a)
     \<and> 0 \<le> aw_elapsed a
     \<and> (aw_searching a \<and> aw_width a = 1 \<or> winner_ok a)
     \<and> (aw_searching a \<or> aw_width a = aw_best a)"

lemma c095_bounds: "0 < c095" "c095 + c095 / 2 ^ 53 \<le> 1"
  by (code_simp, code_simp)

lemma scaled_cost_le:
  assumes "0 < y"
  shows "fl 53 (y * c095) \<le> y"
proof -
  have "fl 53 (y * c095) \<le> y * c095 + y * c095 / 2 ^ 53"
    using assms c095_bounds(1) by (intro fl_upper) simp_all
  also have "\<dots> = y * (c095 + c095 / 2 ^ 53)" by (simp add: field_simps)
  also have "\<dots> \<le> y * 1" using assms c095_bounds(2) by (intro mult_left_mono) simp_all
  finally show ?thesis by simp
qed

text \<open>A cost 5% below the best cost so far is 5% below the baseline.\<close>

lemma winner_chain:
  assumes "winner_ok a" and "c < fl 53 (aw_best_cost a * c095)"
  shows "c < fl 53 (aw_baseline a * c095)"
proof -
  have "aw_best_cost a \<le> aw_baseline a"
    using assms(1) scaled_cost_le[of "aw_baseline a"] by (auto simp: winner_ok_def)
  then have "fl 53 (aw_best_cost a * c095) \<le> fl 53 (aw_baseline a * c095)"
    using assms(1) c095_bounds(1) by (intro fl_mono) (auto simp: winner_ok_def)
  with assms(2) show ?thesis by linarith
qed

lemma u32_double:
  fixes w limit :: u32
  assumes "1 \<le> w" "w < limit" "limit \<le> 32"
  shows "1 \<le> min limit (w * 2)" "min limit (w * 2) \<le> limit" "min limit (w * 2) \<noteq> 1"
    "2 \<le> limit"
proof -
  have w: "unat w < unat limit" "unat limit \<le> 32" "1 \<le> unat w"
    using assms by (simp_all add: word_less_nat_alt word_le_nat_alt)
  have "unat (w * 2) = unat w * 2"
    using unat_mult_lem[THEN iffD1, of w 2] w by simp
  then show "1 \<le> min limit (w * 2)" "min limit (w * 2) \<le> limit" "min limit (w * 2) \<noteq> 1" "2 \<le> limit"
    using w by (auto simp: min_def word_le_nat_alt word_unat_eq_iff dest: arg_cong[where f = unat])
qed

lemma end_block_bounds:
  assumes "width_bounds a" and "aw_limit a \<noteq> 1"
  shows "width_bounds (end_block c a)"
proof -
  have two: "2 \<le> aw_limit a"
    using assms by (auto simp: width_bounds_def word_le_nat_alt word_unat_eq_iff)
  have held: "aw_held_blocks a + 1 < 4" if "aw_held_blocks a + 1 \<noteq> 4"
  proof -
    have "unat (aw_held_blocks a) < 4" "unat (aw_held_blocks a) \<noteq> 3"
      using assms(1) that by (auto simp: width_bounds_def word_less_nat_alt word_unat_eq_iff unat_word_ariths)
    then show ?thesis by (simp add: word_less_nat_alt unat_word_ariths)
  qed
  show ?thesis
    using assms two held u32_double[of "aw_width a" "aw_limit a"]
    by (auto simp: width_bounds_def end_block_def Let_def)
qed

lemma end_block_winner:
  assumes "0 < c" and "aw_searching a \<and> aw_width a = 1 \<or> winner_ok a"
    and "aw_searching a \<or> aw_width a = aw_best a"
  defines "b \<equiv> end_block c a"
  shows "(aw_searching b \<and> aw_width b = 1 \<or> winner_ok b) \<and> (aw_searching b \<or> aw_width b = aw_best b)"
  using assms(1-3) winner_chain[of a c]
  by (auto simp: b_def end_block_def Let_def winner_ok_def)

text \<open>A counted round: no counter wraps, and the block has time and tokens to divide.\<close>

lemma add_round_counts:
  assumes "width_inv a" and "c \<noteq> 0" and "c \<le> aw_width a" and "t \<noteq> 0"
  defines "b \<equiv> add_round c t a"
  shows "unat (aw_committed b) = unat (aw_committed a) + unat c"
    "unat (aw_rounds b) = Suc (unat (aw_rounds a))"
    "0 < aw_elapsed b" "0 < fl 53 (aw_elapsed b / of_int (uint (aw_committed b)))"
proof -
  have n: "unat (aw_rounds a) < 4" "unat (aw_width a) \<le> 32" "unat c \<le> unat (aw_width a)"
    "0 < unat c" "unat (aw_committed a) \<le> unat (aw_rounds a) * unat (aw_width a)"
    using assms
    by (auto simp: width_inv_def width_bounds_def word_less_nat_alt word_le_nat_alt unat_gt_0)
  have "unat (aw_rounds a) * unat (aw_width a) \<le> 3 * 32" using n(1,2) by (intro mult_le_mono) auto
  then show com: "unat (aw_committed b) = unat (aw_committed a) + unat c"
    using n by (simp add: b_def add_round_def unat_word_ariths)
  show "unat (aw_rounds b) = Suc (unat (aw_rounds a))"
    using n(1) by (simp add: b_def add_round_def unat_word_ariths)
  have "0 < uint t" using assms(4) unsigned_greater_eq[of t, where 'a = int]
    by (metis less_le unsigned_0 word_eq_iff_unsigned)
  then have "0 < (of_int (uint t) :: rat)" by (simp only: of_int_0_less_iff)
  then have "0 < fl 53 (of_int (uint t))" by (rule fl_pos) simp
  then show el: "0 < aw_elapsed b"
    using assms(1) by (auto simp: b_def add_round_def width_inv_def intro!: fl_pos add_nonneg_pos)
  have "0 < unat (aw_committed b)" using com n(4) by simp
  then have "0 < (of_int (uint (aw_committed b)) :: rat)"
    by (metis of_int_of_nat_eq of_nat_0_less_iff uint_nat)
  then show "0 < fl 53 (aw_elapsed b / of_int (uint (aw_committed b)))"
    using el by (intro fl_pos divide_pos_pos) simp_all
qed

lemma observe_width_inv:
  assumes "width_inv a"
  shows "width_inv (observe_width w c t a)"
proof (cases "aw_limit a = 1 \<or> w \<noteq> aw_width a \<or> c = 0 \<or> c > w \<or> t = 0")
  case True
  then show ?thesis using assms by (simp only: observe_width_def if_True)
next
  case False
  define b where "b = add_round c t a"
  define d where "d = b\<lparr>aw_rounds := 0, aw_elapsed := 0, aw_committed := 0\<rparr>"
  have keep: "aw_searching b = aw_searching a" "aw_width b = aw_width a" "aw_best b = aw_best a"
    "aw_limit b = aw_limit a" "width_bounds b = width_bounds a" "winner_ok b = winner_ok a"
    by (simp_all add: b_def add_round_def width_bounds_def winner_ok_def)
  have counts: "unat (aw_committed b) = unat (aw_committed a) + unat c"
    "unat (aw_rounds b) = Suc (unat (aw_rounds a))" "0 < aw_elapsed b"
    "0 < fl 53 (aw_elapsed b / of_int (uint (aw_committed b)))" and c: "c \<le> aw_width a"
    using add_round_counts[OF assms, of c t] False by (auto simp: b_def not_less)
  show ?thesis
  proof (cases "aw_rounds b = 4")
    case more: False
    then have "observe_width w c t a = b"
      using False by (simp add: observe_width_def b_def Let_def)
    moreover have "unat (aw_rounds b) \<noteq> 4" using more by (simp add: word_unat_eq_iff)
    ultimately show ?thesis
      using assms counts c keep by (simp add: width_inv_def word_less_nat_alt word_le_nat_alt)
  next
    case True
    then have "observe_width w c t a
        = end_block (fl 53 (aw_elapsed b / of_int (uint (aw_committed b)))) d"
      using False by (simp add: observe_width_def b_def d_def Let_def)
    moreover have d: "width_bounds d" "aw_limit d \<noteq> 1"
      "aw_searching d \<and> aw_width d = 1 \<or> winner_ok d" "aw_searching d \<or> aw_width d = aw_best d"
      using assms False keep by (auto simp: d_def width_inv_def width_bounds_def winner_ok_def)
    moreover have "aw_rounds (end_block x d) = 0" "aw_elapsed (end_block x d) = 0"
      "aw_committed (end_block x d) = 0" for x
      by (simp_all add: end_block_def d_def Let_def)
    ultimately show ?thesis
      using end_block_bounds[OF d(1,2)] end_block_winner[OF counts(4) d(3,4)]
      by (simp add: width_inv_def)
  qed
qed

lemma new_width_inv: "width_inv (new_width limit)"
  by (auto simp: width_inv_def width_bounds_def new_width_def clamp_def max_speculative_width_def
      word_le_nat_alt word_less_nat_alt)

inductive width_step :: "adaptive_width \<Rightarrow> adaptive_width \<Rightarrow> bool" where
  "width_step a (observe_width w c t a)"

interpretation width_system:
  invariant_system "\<lambda>a. \<exists>limit. a = new_width limit" width_step width_inv
  by unfold_locales (auto elim!: width_step.cases intro: new_width_inv observe_width_inv)

text \<open>The states after a list of observations, and a search that settles on width 2.\<close>

definition run_width :: "(u32 \<times> u32 \<times> u64) list \<Rightarrow> adaptive_width \<Rightarrow> adaptive_width" where
  "run_width obs a = fold (\<lambda>(w, c, t). observe_width w c t) obs a"

lemma run_width_steps: "width_step\<^sup>*\<^sup>* a (run_width obs a)"
proof (induction obs arbitrary: a)
  case (Cons x xs)
  have "width_step a ((\<lambda>(w, c, t). observe_width w c t) x a)"
    by (cases x) (simp add: width_step.intros)
  with Cons[of "(\<lambda>(w, c, t). observe_width w c t) x a"] show ?case
    by (simp add: run_width_def converse_rtranclp_into_rtranclp)
qed (simp add: run_width_def)

definition demo_width :: adaptive_width where
  "demo_width = run_width [(1, 1, 100), (1, 1, 100), (1, 1, 100), (1, 1, 100),
     (2, 2, 100), (2, 2, 100), (2, 2, 100), (2, 2, 100)] (new_width 2)"

lemma demo_costs: "fl 53 100 = 100" "fl 53 200 = 200" "fl 53 300 = 300" "fl 53 400 = 400"
  "fl 53 50 = 50" "fl 53 60 = 60"
  by (code_simp, code_simp, code_simp, code_simp, code_simp, code_simp)

lemma demo_win: "50 < fl 53 (100 * c095)"
proof -
  have "60 \<le> 100 * c095" by code_simp
  then have "fl 53 60 \<le> fl 53 (100 * c095)" by (intro fl_mono) simp_all
  then show ?thesis by (simp add: demo_costs)
qed

lemma demo_width_settled: "\<not> aw_searching demo_width \<and> aw_width demo_width = 2"
  by (simp add: demo_width_def run_width_def observe_width_def add_round_def
      end_block_def new_width_def clamp_def max_speculative_width_def demo_costs demo_win)

section \<open>Properties\<close>

text \<open>
  C32. Speculative decoding changes nothing but the number of passes: whatever the draft
  proposes, the tokens a verified batch commits are exactly the tokens plain decoding
  produces next, and there are as many of them as proposals the model agrees with, plus one.
\<close>

theorem speculation_is_plain_decoding:
  "accept_speculation proposals (batch_samples model ctx proposals)
     = plain_decode model ctx (Suc (agreed model ctx proposals))"
proof -
  obtain ss where "batch_samples model ctx proposals = model ctx # ss" by (cases proposals) auto
  then show ?thesis
    using accept_loop_plain[of "[model ctx]" model ctx proposals]
    by (simp add: accept_speculation_def)
qed

text \<open>
  C35. The adaptive width is safe for every session: after any observations, also malformed
  ones, the width is between 1 and the worker's limit (at most 32), and a search that has
  settled on a width above 1 has measured a cost at least 5% below the cost of plain decoding.
\<close>

theorem adaptive_width_safe:
  assumes "width_step\<^sup>*\<^sup>* (new_width limit) a"
  shows "1 \<le> aw_width a \<and> aw_width a \<le> aw_limit a \<and> aw_limit a \<le> max_speculative_width
    \<and> (\<not> aw_searching a \<and> aw_width a > 1
        \<longrightarrow> aw_best_cost a < fl 53 (aw_baseline a * c095) \<and> aw_best_cost a < aw_baseline a)"
proof -
  have "width_inv a" using width_system.reachable_inv[OF _ assms] by blast
  then show ?thesis
    using scaled_cost_le[of "aw_baseline a"]
    by (auto simp: width_inv_def width_bounds_def winner_ok_def max_speculative_width_def)
qed

theorem adaptive_width_safe_witness:
  "aw_width demo_width = 2 \<and> aw_best_cost demo_width < fl 53 (aw_baseline demo_width * c095)"
  using adaptive_width_safe[of 2 demo_width] run_width_steps[of "new_width 2"] demo_width_settled
  by (simp add: demo_width_def)

end
