(* ===== verification/Upgrade.thy ===== *)
theory Upgrade
  imports Floats
begin

text \<open>
  When an idle replica gives way to a better one
  (\<^verbatim>\<open>engine/include/provider_owned/upgrade.hpp\<close>). Times are milliseconds; the model's
  \<open>double\<close> arithmetic is that of \<open>Floats\<close>.
\<close>

record upgrade_rules =
  ur_idle_ms :: int
  ur_check_interval_ms :: int
  ur_speed_margin :: double
  ur_first_backoff_ms :: int
  ur_max_backoff_ms :: int

definition default_rules :: upgrade_rules where
  "default_rules = \<lparr>ur_idle_ms = 120000, ur_check_interval_ms = 60000,
     ur_speed_margin = Fin (1 / 4), ur_first_backoff_ms = 600000,
     ur_max_backoff_ms = 4 * 3600 * 1000\<rparr>"

record current_replica =
  cr_quality_tier :: int
  cr_model_sha256 :: string
  cr_measured_ms :: double
  cr_members :: "string list"

record upgrade_option =
  uo_quality_tier :: int
  uo_model_sha256 :: string
  uo_token_ms :: double
  uo_measured :: bool
  uo_peers :: "string list"

record upgrade_state =
  us_idle_since_ms :: int
  us_open_sessions :: u32
  us_queued :: nat
  us_not_before_ms :: int

definition upgrade_blocked :: "upgrade_state \<Rightarrow> int \<Rightarrow> upgrade_rules \<Rightarrow> bool" where
  "upgrade_blocked st now rules \<longleftrightarrow> us_open_sessions st \<noteq> 0 \<or> us_queued st \<noteq> 0
     \<or> now < us_not_before_ms st \<or> now - us_idle_since_ms st < ur_idle_ms rules"

definition adds_gpu :: "current_replica \<Rightarrow> upgrade_option \<Rightarrow> bool" where
  "adds_gpu cur opt \<longleftrightarrow> list_ex (\<lambda>peer. peer \<notin> set (cr_members cur)) (uo_peers opt)"

definition clearly_faster :: "current_replica \<Rightarrow> upgrade_rules \<Rightarrow> upgrade_option \<Rightarrow> bool" where
  "clearly_faster cur rules opt \<longleftrightarrow> uo_quality_tier opt = cr_quality_tier cur
     \<and> uo_model_sha256 opt = cr_model_sha256 cur \<and> uo_measured opt
     \<and> double_less (Fin 0) (cr_measured_ms cur) \<and> double_less (Fin 0) (uo_token_ms opt)
     \<and> double_less (double_mult (uo_token_ms opt) (double_add (Fin 1) (ur_speed_margin rules)))
         (cr_measured_ms cur)"

definition worth_it :: "current_replica \<Rightarrow> upgrade_rules \<Rightarrow> upgrade_option \<Rightarrow> bool" where
  "worth_it cur rules opt \<longleftrightarrow> adds_gpu cur opt
     \<and> (uo_quality_tier opt > cr_quality_tier cur \<or> clearly_faster cur rules opt)"

definition better_option :: "upgrade_option \<Rightarrow> upgrade_option \<Rightarrow> bool" where
  "better_option opt best \<longleftrightarrow> uo_quality_tier opt > uo_quality_tier best
     \<or> uo_quality_tier opt = uo_quality_tier best \<and> double_less (uo_token_ms opt) (uo_token_ms best)"

fun pick_option ::
    "current_replica \<Rightarrow> upgrade_rules \<Rightarrow> upgrade_option list \<Rightarrow> upgrade_option option \<Rightarrow> upgrade_option option" where
  "pick_option cur rules [] best = best"
| "pick_option cur rules (opt # opts) best =
     pick_option cur rules opts
       (if \<not> worth_it cur rules opt then best
        else case best of None \<Rightarrow> Some opt | Some b \<Rightarrow> if better_option opt b then Some opt else best)"

definition upgrade_choice ::
    "current_replica \<Rightarrow> upgrade_option list \<Rightarrow> upgrade_state \<Rightarrow> int \<Rightarrow> upgrade_rules
     \<Rightarrow> upgrade_option option" where
  "upgrade_choice cur opts st now rules =
     (if upgrade_blocked st now rules then None else pick_option cur rules opts None)"

definition next_backoff_ms :: "int \<Rightarrow> bool \<Rightarrow> upgrade_rules \<Rightarrow> int" where
  "next_backoff_ms previous upgraded rules =
     (if upgraded then 0
      else if previous = 0 then ur_first_backoff_ms rules
      else min (previous * 2) (ur_max_backoff_ms rules))"

section \<open>The choice is the best acceptable option\<close>

lemma double_less_neg_trans:
  "x \<noteq> NaN \<Longrightarrow> y \<noteq> NaN \<Longrightarrow> z \<noteq> NaN \<Longrightarrow> \<not> double_less x y \<Longrightarrow> \<not> double_less y z \<Longrightarrow> \<not> double_less x z"
  by (cases x; cases y; cases z) auto

lemma double_less_asym: "double_less x y \<Longrightarrow> \<not> double_less y x"
  by (cases x; cases y) auto

interpretation options: running_best "worth_it cur rules" better_option "\<lambda>opt. uo_token_ms opt \<noteq> NaN"
  for cur rules
proof
  fix x y z :: upgrade_option
  assume "uo_token_ms x \<noteq> NaN" "uo_token_ms y \<noteq> NaN" "uo_token_ms z \<noteq> NaN"
    "\<not> better_option x y" "\<not> better_option y z"
  then show "\<not> better_option x z"
    using double_less_neg_trans[of "uo_token_ms x" "uo_token_ms y" "uo_token_ms z"]
    unfolding better_option_def by force
qed (auto simp: better_option_def dest: double_less_asym)

lemma pick_option_best: "pick_option cur rules opts best = options.best_of cur rules opts best"
  by (induction opts arbitrary: best) auto

text \<open>The backoff after \<open>n\<close> further failed upgrades.\<close>

primrec failed_backoffs :: "upgrade_rules \<Rightarrow> nat \<Rightarrow> int" where
  "failed_backoffs rules 0 = next_backoff_ms 0 False rules"
| "failed_backoffs rules (Suc n) = next_backoff_ms (failed_backoffs rules n) False rules"

lemma failed_backoffs_exact:
  assumes "0 < ur_first_backoff_ms rules" and "ur_first_backoff_ms rules \<le> ur_max_backoff_ms rules"
  shows "failed_backoffs rules n = min (ur_first_backoff_ms rules * 2 ^ n) (ur_max_backoff_ms rules)"
proof (induction n)
  case 0
  then show ?case using assms(2) by (simp add: next_backoff_ms_def)
next
  case (Suc n)
  define a where "a = ur_first_backoff_ms rules * 2 ^ n"
  have "0 < a" using assms(1) by (simp add: a_def)
  moreover have "failed_backoffs rules n = min a (ur_max_backoff_ms rules)" using Suc by (simp add: a_def)
  moreover have "ur_first_backoff_ms rules * 2 ^ Suc n = a * 2" by (simp add: a_def)
  ultimately show ?case using assms by (auto simp: next_backoff_ms_def min_def)
qed

text \<open>An idle replica with a faster plan and a plan of a higher tier.\<close>

definition demo_current :: current_replica where
  "demo_current =
     \<lparr>cr_quality_tier = 1, cr_model_sha256 = ''m'', cr_measured_ms = Fin 50, cr_members = [''a'']\<rparr>"

definition demo_options :: "upgrade_option list" where
  "demo_options =
     [\<lparr>uo_quality_tier = 1, uo_model_sha256 = ''m'', uo_token_ms = Fin 30, uo_measured = True,
        uo_peers = [''a'', ''b'']\<rparr>,
      \<lparr>uo_quality_tier = 2, uo_model_sha256 = ''n'', uo_token_ms = Fin 90, uo_measured = False,
        uo_peers = [''c'']\<rparr>]"

definition demo_idle :: upgrade_state where
  "demo_idle =
     \<lparr>us_idle_since_ms = 0, us_open_sessions = 0, us_queued = 0, us_not_before_ms = 0\<rparr>"

lemma demo_options_numbers: "\<forall>opt \<in> set demo_options. uo_token_ms opt \<noteq> NaN"
  by (simp add: demo_options_def)

lemma demo_not_blocked: "\<not> upgrade_blocked demo_idle 200000 default_rules"
  by (simp add: upgrade_blocked_def demo_idle_def default_rules_def)

lemma demo_worth_it: "\<exists>opt \<in> set demo_options. worth_it demo_current default_rules opt"
  by (simp add: demo_options_def worth_it_def adds_gpu_def demo_current_def)

section \<open>Properties\<close>

text \<open>
  A replica gives way only for the best reason. When an option is chosen, the replica is
  idle, out of backoff and has no conversation, the option is one of those offered, uses a GPU
  the replica does not have, has a higher tier or is the same model measured to be faster by
  the margin, and no acceptable option has a higher tier or, at its tier, a smaller time.
  When nothing is chosen, the replica is not idle or no option is acceptable.
\<close>

theorem upgrade_choice_best:
  assumes "\<forall>opt \<in> set opts. uo_token_ms opt \<noteq> NaN"
  shows "case upgrade_choice cur opts st now rules of
      None \<Rightarrow> upgrade_blocked st now rules \<or> (\<forall>opt \<in> set opts. \<not> worth_it cur rules opt)
    | Some opt \<Rightarrow> \<not> upgrade_blocked st now rules \<and> opt \<in> set opts \<and> worth_it cur rules opt
        \<and> (\<forall>other \<in> set opts. worth_it cur rules other \<longrightarrow> \<not> better_option other opt)"
proof (cases "upgrade_choice cur opts st now rules")
  case None
  then show ?thesis
    using options.best_of_None by (auto simp: upgrade_choice_def pick_option_best split: if_splits)
next
  case (Some opt)
  then have "\<not> upgrade_blocked st now rules" "options.best_of cur rules opts None = Some opt"
    by (auto simp: upgrade_choice_def pick_option_best split: if_splits)
  with options.best_of_Best[OF this(2) assms] Some show ?thesis by simp
qed

theorem upgrade_choice_best_witness:
  "\<exists>opt. upgrade_choice demo_current demo_options demo_idle 200000 default_rules = Some opt
     \<and> worth_it demo_current default_rules opt"
  using upgrade_choice_best[OF demo_options_numbers, where cur = demo_current and st = demo_idle
      and now = 200000 and rules = default_rules] demo_not_blocked demo_worth_it
  by (auto split: option.splits)

text \<open>
  Repeated failures back off exponentially: the n-th failed upgrade in a row waits twice
  as long as the one before, up to the maximum, and a success clears the wait.
\<close>

theorem backoff_doubles_to_the_cap:
  assumes "0 < ur_first_backoff_ms rules" and "ur_first_backoff_ms rules \<le> ur_max_backoff_ms rules"
  shows "failed_backoffs rules n = min (ur_first_backoff_ms rules * 2 ^ n) (ur_max_backoff_ms rules)
    \<and> next_backoff_ms (failed_backoffs rules n) True rules = 0"
  using failed_backoffs_exact[OF assms] by (simp add: next_backoff_ms_def)

theorem backoff_doubles_to_the_cap_witness: "failed_backoffs default_rules 5 = 14400000"
  using backoff_doubles_to_the_cap[of default_rules 5] by (simp add: default_rules_def)

end
