(* ===== verification/Activations.thy ===== *)
theory Activations
  imports Protocol Floats "HOL-Library.Code_Target_Nat"
begin

text \<open>
  Activation formats on the wire (\<^verbatim>\<open>engine/include/provider_owned/activations.hpp\<close>): the
  size of a frame's payload, the 8-bit e4m3 codes and rows of them with a scale. A
  \<^verbatim>\<open>float\<close> is a sign with an exact magnitude, an infinity or not a number. The steps of the
  encoder (\<^verbatim>\<open>frexp\<close>, \<^verbatim>\<open>ldexp\<close>, subtracting 1, multiplying by 8) are exact on
  every float, so they are rational arithmetic; divisions and products of a row are rounded to
  24 bits.
\<close>

section \<open>Sizes and names\<close>

definition activation_bytes :: "dtype \<Rightarrow> u64 \<Rightarrow> u64 \<Rightarrow> u64" where
  "activation_bytes dtype rows cols =
     (if dtype = dt_f32le then rows * cols * 4
      else if dtype = dt_f16le then rows * cols * 2
      else if dtype = dt_fp8e4m3 then rows * (cols + 4)
      else 0)"

definition activation_name :: "dtype \<Rightarrow> string" where
  "activation_name dtype =
     (if dtype = dt_f16le then ''f16'' else if dtype = dt_fp8e4m3 then ''fp8'' else ''f32'')"

section \<open>Single codes\<close>

datatype float32 = FNum bool rat | FInf bool | FNan

definition fp8_e4m3_to_float :: "u8 \<Rightarrow> float32" where
  "fp8_e4m3_to_float code =
     (let exponent = uint code div 8 mod 16; mantissa = uint code mod 8; neg = uint code \<ge> 128
      in if exponent = 15 \<and> mantissa = 7 then FNan
         else if exponent = 0 then FNum neg (of_int mantissa * pow2 (-9))
         else FNum neg ((1 + of_int mantissa / 8) * pow2 (exponent - 7)))"

text \<open>The code of a positive finite magnitude, without the sign bit.\<close>

definition encode_magnitude :: "rat \<Rightarrow> int" where
  "encode_magnitude magnitude =
     (if magnitude \<ge> 448 then 126
      else if magnitude = 0 then 0
      else
        let exponent = lead_exp magnitude + 1; biased = exponent - 1 + 7
        in if biased \<le> 0 then round_even (magnitude * pow2 9)
           else
             let mantissa = round_even ((magnitude * pow2 (- (exponent - 1)) - 1) * 8);
                 carried = (if mantissa = 8 then (0, biased + 1) else (mantissa, biased))
             in case carried of (mantissa, biased) \<Rightarrow>
                  if biased > 15 \<or> biased = 15 \<and> mantissa = 7 then 126 else biased * 8 + mantissa)"

definition float_to_fp8_e4m3 :: "float32 \<Rightarrow> u8" where
  "float_to_fp8_e4m3 v =
     (case v of
        FNan \<Rightarrow> 0
      | FInf neg \<Rightarrow> word_of_int ((if neg then 128 else 0) + 126)
      | FNum neg magnitude \<Rightarrow> word_of_int ((if neg then 128 else 0) + encode_magnitude magnitude))"

section \<open>Rows\<close>

definition rnd32 :: "rat \<Rightarrow> rat" where
  "rnd32 x = (if x < pow2 (-126) then of_int (round_even (x * pow2 149)) * pow2 (-149) else fl 24 x)"

definition round32 :: "bool \<Rightarrow> rat \<Rightarrow> float32" where
  "round32 neg x = (if rnd32 x \<ge> pow2 128 then FInf neg else FNum neg (rnd32 x))"

definition float_over :: "float32 \<Rightarrow> rat \<Rightarrow> float32" where
  "float_over v s = (case v of FNum neg m \<Rightarrow> round32 neg (m / s) | FInf neg \<Rightarrow> FInf neg | FNan \<Rightarrow> FNan)"

fun float_times :: "float32 \<Rightarrow> float32 \<Rightarrow> float32" where
  "float_times (FNum a x) (FNum b y) = round32 (a \<noteq> b) (x * y)"
| "float_times (FInf a) (FNum b y) = (if y = 0 then FNan else FInf (a \<noteq> b))"
| "float_times (FNum a x) (FInf b) = (if x = 0 then FNan else FInf (a \<noteq> b))"
| "float_times (FInf a) (FInf b) = FInf (a \<noteq> b)"
| "float_times _ _ = FNan"

text \<open>\<^verbatim>\<open>std::bit_cast\<close> of a positive normal float, and of any 32 bits to a float.\<close>

definition f32_bits :: "rat \<Rightarrow> u32" where
  "f32_bits x = (let e = lead_exp x in word_of_int ((e + 127) * 8388608 + (\<lfloor>x / pow2 (e - 23)\<rfloor> - 8388608)))"

definition f32_of_bits :: "u32 \<Rightarrow> float32" where
  "f32_of_bits w =
     (let neg = uint w \<ge> 2147483648; e = uint w div 8388608 mod 256; m = uint w mod 8388608
      in if e = 255 then (if m = 0 then FInf neg else FNan)
         else if e = 0 then FNum neg (of_int m * pow2 (-149))
         else FNum neg ((1 + of_int m / 8388608) * pow2 (e - 127)))"

fun row_largest :: "float32 list \<Rightarrow> rat \<Rightarrow> rat" where
  "row_largest [] largest = largest"
| "row_largest (FNum _ m # vs) largest = row_largest vs (if m > largest then m else largest)"
| "row_largest (_ # vs) largest = row_largest vs largest"

definition row_scale :: "float32 list \<Rightarrow> rat" where
  "row_scale vs = max (rnd32 (row_largest vs 0 / 448)) (fl 24 (1 / 100000000))"

definition pack_fp8_row :: "float32 list \<Rightarrow> u8 list" where
  "pack_fp8_row vs = put32 (f32_bits (row_scale vs))
     @ map (\<lambda>v. float_to_fp8_e4m3 (float_over v (row_scale vs))) vs"

definition unpack_fp8_row :: "u8 list \<Rightarrow> float32 list" where
  "unpack_fp8_row bytes =
     (let scale = f32_of_bits (get32 bytes)
      in map (\<lambda>b. float_times (fp8_e4m3_to_float b) scale) (drop 4 bytes))"

section \<open>Encoding is rounding to the nearest code\<close>

definition float_val :: "float32 \<Rightarrow> rat" where
  "float_val v = (case v of FNum neg m \<Rightarrow> if neg then - m else m | _ \<Rightarrow> 0)"

text \<open>The magnitude of a code without its sign bit.\<close>

definition code_value :: "int \<Rightarrow> rat" where
  "code_value k =
     (if k div 8 = 0 then of_int (k mod 8) * pow2 (-9)
      else (1 + of_int (k mod 8) / 8) * pow2 (k div 8 - 7))"

lemma pow2_eqs: "pow2 0 = 1" "pow2 (-9) = 1 / 512" "pow2 8 = 256" "pow2 9 = 512" "pow2 (-6) = 1 / 64"
  by (simp_all add: pow2_def)

lemma code_value_normal: "0 < k div 8 \<Longrightarrow> code_value k = of_int (8 + k mod 8) * pow2 (k div 8 - 10)"
proof -
  assume "0 < k div 8"
  moreover have "pow2 (k div 8 - 7) = 8 * pow2 (k div 8 - 10)"
    using pow2_add[of 3 "k div 8 - 10"] by (simp add: pow2_def algebra_simps)
  ultimately show ?thesis by (simp add: code_value_def algebra_simps)
qed

lemma round_even_nearest: "\<bar>of_int (round_even t) - t\<bar> \<le> \<bar>of_int j - t\<bar>"
proof -
  define f where "f = \<lfloor>t\<rfloor>"
  have f: "of_int f \<le> t" "t < of_int f + 1" using floor_correct[of t] by (simp_all add: f_def)
  have "\<bar>of_int (round_even t) - t\<bar> \<le> min (t - of_int f) (of_int f + 1 - t)"
    using f by (auto simp: round_even_def Let_def simp flip: f_def)
  also have "\<dots> \<le> \<bar>of_int j - t\<bar>"
  proof (cases "j \<le> f")
    case True
    then have "(of_int j :: rat) \<le> of_int f" by simp
    then show ?thesis using f unfolding min_def by (auto simp: abs_if)
  next
    case False
    then have "of_int f + 1 \<le> (of_int j :: rat)" by (metis add1_zle_eq not_le of_int_1 of_int_add of_int_le_iff)
    then show ?thesis using f unfolding min_def by (auto simp: abs_if)
  qed
  finally show ?thesis .
qed

lemma round_even_minus_8: "round_even (x - 8) = round_even x - 8"
proof -
  have "\<lfloor>x - 8\<rfloor> = \<lfloor>x\<rfloor> - 8" by linarith
  then show ?thesis by (simp add: round_even_def Let_def)
qed

text \<open>The grid below a magnitude: steps of \<open>2 ^ g\<close>.\<close>

definition grid :: "rat \<Rightarrow> int" where
  "grid m = max (lead_exp m) (-6) - 3"

lemma lead_exp_less: "0 < m \<Longrightarrow> m < pow2 k \<Longrightarrow> lead_exp m < k"
  using lead_exp_bounds(1)[of m] pow2_mono[of k "lead_exp m"] by force

lemma lead_exp_ge: "0 < m \<Longrightarrow> pow2 k \<le> m \<Longrightarrow> k \<le> lead_exp m"
  using lead_exp_bounds(2)[of m] pow2_mono[of "lead_exp m + 1" k] by force

lemma encode_subnormal:
  assumes "0 < m" and "lead_exp m < -6"
  shows "code_value (encode_magnitude m) = of_int (round_even (m / pow2 (grid m))) * pow2 (grid m)
    \<and> 0 \<le> encode_magnitude m \<and> encode_magnitude m \<le> 126"
proof -
  have "m < pow2 (-6)"
    using lead_exp_bounds(2)[OF assms(1)] pow2_mono[of "lead_exp m + 1" "-6"] assms(2) by simp
  then have m: "m < 448" and le: "m * pow2 9 \<le> of_int 8" by (simp_all add: pow2_eqs)
  have r: "0 \<le> round_even (m * pow2 9)" "round_even (m * pow2 9) \<le> 8"
    using round_even_mono[OF le, unfolded round_even_int] round_even_nonneg[of "m * pow2 9"] assms(1)
    by (simp_all add: pow2_eqs)
  have "encode_magnitude m = round_even (m * pow2 9)"
    using assms m by (simp add: encode_magnitude_def Let_def)
  moreover have "grid m = -9" using assms(2) by (simp add: grid_def)
  moreover have "code_value k = of_int k * pow2 (-9)" if "0 \<le> k" "k \<le> 8" for k
    using that by (cases "k = 8") (simp_all add: code_value_def pow2_eqs)
  ultimately show ?thesis using r by (simp add: pow2_eqs)
qed

text \<open>Above the subnormal codes: sixteen steps of the grid in a binade, from 8 to 16.\<close>

lemma normal_steps:
  assumes "0 < m" and "m < 448" and "-6 \<le> lead_exp m"
  defines "r \<equiv> round_even (m / pow2 (lead_exp m - 3))"
  shows "8 \<le> r" "r \<le> 16" "lead_exp m \<le> 8" "lead_exp m = 8 \<Longrightarrow> r \<le> 14"
    "(m * pow2 (- lead_exp m) - 1) * 8 = m / pow2 (lead_exp m - 3) - 8"
proof -
  define L where "L = lead_exp m"
  have L: "pow2 L \<le> m" "m < pow2 (L + 1)" using lead_exp_bounds[OF assms(1)] by (simp_all add: L_def)
  have p: "0 < pow2 (L - 3)" by simp
  have e: "pow2 L = 8 * pow2 (L - 3)" "pow2 (L + 1) = 16 * pow2 (L - 3)"
    using pow2_add[of 3 "L - 3"] pow2_add[of 4 "L - 3"] by (simp_all add: pow2_def algebra_simps)
  have "of_int 8 \<le> m / pow2 (L - 3)" "m / pow2 (L - 3) \<le> of_int 16"
    using L e p by (simp_all add: pos_le_divide_eq pos_divide_le_eq)
  from this[THEN round_even_mono] show "8 \<le> r" "r \<le> 16"
    unfolding r_def round_even_int L_def .
  show "lead_exp m \<le> 8" using lead_exp_less[OF assms(1), of 9] assms(2) by (simp add: pow2_eqs)
  show "r \<le> 14" if "lead_exp m = 8"
  proof -
    have "m / pow2 (L - 3) \<le> of_int 14"
      using assms(2) that by (simp add: L_def pow2_def)
    from round_even_mono[OF this] show ?thesis unfolding r_def round_even_int L_def .
  qed
  have "pow2 (- L) * pow2 L = 1" by (simp add: pow2_eqs flip: pow2_add)
  then have inv: "pow2 (- L) * (8 * pow2 (L - 3)) = 1" by (simp only: e)
  have "m * pow2 (- L) * 8 = m / pow2 (L - 3)"
    using p inv by (simp add: eq_divide_eq less_imp_neq[THEN not_sym] mult.assoc mult.left_commute)
  then show "(m * pow2 (- lead_exp m) - 1) * 8 = m / pow2 (lead_exp m - 3) - 8"
    by (simp add: L_def left_diff_distrib)
qed

lemma encode_normal:
  assumes "0 < m" and "m < 448" and "-6 \<le> lead_exp m"
  shows "code_value (encode_magnitude m) = of_int (round_even (m / pow2 (grid m))) * pow2 (grid m)
    \<and> 0 \<le> encode_magnitude m \<and> encode_magnitude m \<le> 126"
proof -
  define L r where "L = lead_exp m" and "r = round_even (m / pow2 (L - 3))"
  note steps = normal_steps[OF assms, folded L_def, folded r_def]
  have "round_even ((m * pow2 (- L) - 1) * 8) = r - 8"
    by (simp only: steps(5) round_even_minus_8 r_def)
  then have enc: "encode_magnitude m = (L + 7) * 8 + (r - 8)"
    using assms steps(1-4) by (auto simp: encode_magnitude_def Let_def L_def)
  have "code_value ((L + 7) * 8 + (r - 8)) = of_int r * pow2 (L - 3)"
  proof (cases "r = 16")
    case True
    have "((L + 7) * 8 + 8) div 8 = L + 8" "((L + 7) * 8 + 8) mod 8 = 0" by presburger+
    moreover have "pow2 (L - 2) = 2 * pow2 (L - 3)"
      using pow2_add[of 1 "L - 3"] by (simp add: pow2_def)
    ultimately show ?thesis
      using True assms(3) by (simp add: code_value_normal L_def)
  next
    case False
    then have d: "((L + 7) * 8 + (r - 8)) div 8 = L + 7" "((L + 7) * 8 + (r - 8)) mod 8 = r - 8"
      using steps(1,2) by presburger+
    then show ?thesis
      using assms(3) by (subst code_value_normal) (simp_all add: L_def)
  qed
  moreover have "grid m = L - 3" using assms(3) by (simp add: grid_def L_def)
  moreover have "0 \<le> (L + 7) * 8 + (r - 8)" "(L + 7) * 8 + (r - 8) \<le> 126"
    using steps(1-4) assms(3) by (cases "L = 8"; simp add: L_def)+
  ultimately show ?thesis using enc by (simp add: r_def)
qed

lemma mantissa_bounds: "(0 :: rat) \<le> of_int (k mod 8)" "(of_int (k mod 8) :: rat) \<le> 7"
proof -
  have "k mod 8 \<le> 7" by presburger
  then have "(of_int (k mod 8) :: rat) \<le> of_int 7" by (simp only: of_int_le_iff)
  then show "(of_int (k mod 8) :: rat) \<le> 7" by simp
qed simp

lemma code_value_nonneg: "0 \<le> code_value k"
  using mantissa_bounds(1)[of k] pow2_pos
  by (auto simp: code_value_def less_imp_le intro!: mult_nonneg_nonneg)

text \<open>A code value is on the grid, or below the eighth step of it.\<close>

lemma code_value_on_grid:
  assumes "0 \<le> k" and "-9 \<le> g" and "g = -9 \<or> pow2 (g + 3) \<le> code_value k"
  shows "\<exists>j. code_value k = of_int j * pow2 g"
proof (cases "k div 8 = 0")
  case True
  then have v: "code_value k = of_int (k mod 8) * pow2 (-9)" by (simp add: code_value_def)
  have "code_value k < pow2 (-6)" using mantissa_bounds(2)[of k] by (simp add: v pow2_eqs)
  then have "g = -9" using assms(2,3) pow2_mono[of "-6" "g + 3"] by force
  then show ?thesis using v by blast
next
  case False
  then have e: "0 < k div 8" using assms(1) by (simp add: pos_imp_zdiv_nonneg_iff order_le_neq_trans[OF _ not_sym])
  note v = code_value_normal[OF e]
  show ?thesis
  proof (cases "g \<le> k div 8 - 10")
    case True
    define n where "n = nat (k div 8 - 10 - g)"
    have "k div 8 - 10 = int n + g" using True by (simp add: n_def)
    then have "pow2 (k div 8 - 10) = of_int (2 ^ n) * pow2 g" by (simp add: pow2_add pow2_nat)
    then show ?thesis unfolding v by (metis mult.assoc of_int_mult)
  next
    case False
    have "of_int (8 + k mod 8) * pow2 (k div 8 - 10) < 16 * pow2 (k div 8 - 10)"
      using mantissa_bounds(2)[of k] by (intro mult_strict_right_mono) simp_all
    then have "code_value k < 16 * pow2 (k div 8 - 10)" by (simp only: v)
    also have "16 * pow2 (k div 8 - 10) = pow2 (k div 8 - 6)"
      using pow2_add[of 4 "k div 8 - 10"] by (simp add: pow2_def algebra_simps)
    also have "\<dots> \<le> pow2 (g + 3)" using False by (intro pow2_mono) simp
    finally show ?thesis using assms(3) e False by auto
  qed
qed

lemma code_value_le: "0 \<le> k \<Longrightarrow> k \<le> 126 \<Longrightarrow> code_value k \<le> 448"
proof -
  assume k: "0 \<le> k" "k \<le> 126"
  have "k div 8 = 0 \<or> 0 < k div 8 \<and> k div 8 \<le> 14 \<or> k div 8 = 15 \<and> k mod 8 \<le> 6"
    using k by presburger
  then consider "k div 8 = 0" | "0 < k div 8" "k div 8 \<le> 14" | "k div 8 = 15" "k mod 8 \<le> 6" by blast
  then show ?thesis
  proof cases
    case 1
    with mantissa_bounds(2)[of k] show ?thesis by (simp add: code_value_def pow2_eqs)
  next
    case 2
    have "(of_int (8 + k mod 8) :: rat) \<le> of_int 16" using mantissa_bounds(2)[of k] by simp
    moreover have "pow2 (k div 8 - 10) \<le> pow2 4" using 2 by (intro pow2_mono) simp
    ultimately have "of_int (8 + k mod 8) * pow2 (k div 8 - 10) \<le> of_int 16 * pow2 4"
      using mantissa_bounds(1)[of k] by (intro mult_mono) (simp_all add: less_imp_le)
    then show ?thesis by (simp add: code_value_normal[OF 2(1)] pow2_def)
  next
    case 3
    have "(of_int (k mod 8) :: rat) \<le> of_int 6" using 3(2) by (simp only: of_int_le_iff)
    with 3(1) show ?thesis by (simp add: code_value_def pow2_eqs)
  qed
qed

lemma encode_nearest:
  assumes "0 \<le> m" and "0 \<le> k" and "k \<le> 126"
  shows "\<bar>code_value (encode_magnitude m) - m\<bar> \<le> \<bar>code_value k - m\<bar>"
proof -
  consider "m = 0" | "m \<ge> 448" | "0 < m" "m < 448" using assms(1) by linarith
  then show ?thesis
  proof cases
    case 1
    then show ?thesis by (simp add: encode_magnitude_def code_value_def)
  next
    case 2
    then have "code_value (encode_magnitude m) = 448"
      by (simp add: encode_magnitude_def code_value_def pow2_eqs)
    with 2 code_value_le[OF assms(2,3)] show ?thesis by simp
  next
    case 3
    define g where "g = grid m"
    have p: "0 < pow2 g" by simp
    have cv: "code_value (encode_magnitude m) = of_int (round_even (m / pow2 g)) * pow2 g"
      using encode_normal[OF 3] encode_subnormal[OF 3(1)] by (cases "lead_exp m < -6") (auto simp: g_def)
    have near: "\<bar>code_value (encode_magnitude m) - m\<bar> \<le> \<bar>of_int j * pow2 g - m\<bar>" for j
    proof -
      have "\<bar>of_int (round_even (m / pow2 g)) - m / pow2 g\<bar> * pow2 g \<le> \<bar>of_int j - m / pow2 g\<bar> * pow2 g"
        using less_imp_le[OF p] by (intro mult_right_mono round_even_nearest)
      moreover have "\<bar>x - m / pow2 g\<bar> * pow2 g = \<bar>x * pow2 g - m\<bar>" for x
      proof -
        have "\<bar>x - m / pow2 g\<bar> * pow2 g = \<bar>(x - m / pow2 g) * pow2 g\<bar>" using p by (simp only: abs_mult abs_of_pos)
        then show ?thesis using p by (simp add: left_diff_distrib less_imp_neq[THEN not_sym])
      qed
      ultimately show ?thesis by (simp only: cv)
    qed
    have ge: "-9 \<le> g" by (simp add: g_def grid_def)
    show ?thesis
    proof (cases "g = -9 \<or> pow2 (g + 3) \<le> code_value k")
      case True
      then show ?thesis using code_value_on_grid[OF assms(2) ge True] near by force
    next
      case False
      then have "g + 3 = lead_exp m" by (auto simp: g_def grid_def)
      then have "pow2 (g + 3) \<le> m" using lead_exp_bounds(1)[OF 3(1)] by simp
      moreover have "of_int 8 * pow2 g = pow2 (g + 3)"
        using pow2_add[of g 3] by (simp add: pow2_def)
      ultimately show ?thesis using near[of 8] False by (auto simp: abs_if split: if_splits)
    qed
  qed
qed

lemma decode_code:
  "fp8_e4m3_to_float c =
     (if uint c mod 128 = 127 then FNan else FNum (uint c \<ge> 128) (code_value (uint c mod 128)))"
proof -
  have "u mod 128 div 8 = u div 8 mod 16" for u :: int
    using zmod_zmult2_eq[of 16 u 8] by simp
  moreover have "u mod 128 mod 8 = u mod 8" for u :: int by (simp add: mod_mod_cancel)
  moreover have "k = 127 \<longleftrightarrow> k div 8 = 15 \<and> k mod 8 = 7" for k :: int
    by presburger
  ultimately show ?thesis
    unfolding fp8_e4m3_to_float_def code_value_def Let_def by presburger
qed

lemma encode_magnitude_bounds: "0 \<le> m \<Longrightarrow> 0 \<le> encode_magnitude m \<and> encode_magnitude m \<le> 126"
proof -
  assume "0 \<le> m"
  then consider "m = 0" | "m \<ge> 448" | "0 < m" "m < 448" by linarith
  then show ?thesis
  proof cases
    case 3
    then show ?thesis using encode_normal[OF 3] encode_subnormal[OF 3(1)] by (cases "lead_exp m < -6") auto
  qed (simp_all add: encode_magnitude_def)
qed

lemma decode_encode:
  assumes "0 \<le> m"
  shows "fp8_e4m3_to_float (float_to_fp8_e4m3 (FNum neg m)) = FNum neg (code_value (encode_magnitude m))"
proof -
  define k where "k = encode_magnitude m"
  have k: "0 \<le> k" "k \<le> 126" using encode_magnitude_bounds[OF assms] by (simp_all add: k_def)
  then have "uint (word_of_int ((if neg then 128 else 0) + k) :: u8) = (if neg then 128 else 0) + k"
    by (simp add: word_of_int_inverse)
  moreover have "((if neg then 128 else 0) + k) mod 128 = k" using k by simp
  ultimately show ?thesis
    using k unfolding decode_code float_to_fp8_e4m3_def by (simp flip: k_def)
qed

section \<open>A row crosses the wire with its scale\<close>

lemma fl_form:
  assumes "0 < x" and "0 < p"
  shows "\<exists>k e. fl p x = of_int k * pow2 (e - int p + 1) \<and> 2 ^ (p - 1) \<le> k \<and> k < 2 ^ p"
proof -
  define e k where "e = lead_exp x" and "k = round_even (x / pow2 (e - int p + 1))"
  have fl: "fl p x = of_int k * pow2 (e - int p + 1)"
    using assms(1) by (simp add: fl_def Let_def e_def k_def)
  have split: "pow2 e = of_int (2 ^ (p - 1)) * pow2 (e - int p + 1)"
    "pow2 (e + 1) = of_int (2 ^ p) * pow2 (e - int p + 1)"
    using assms(2) by (simp_all flip: pow2_nat pow2_add)
  have pos: "0 < pow2 (e - int p + 1)" by simp
  have "of_int (2 ^ (p - 1)) * pow2 (e - int p + 1) \<le> of_int k * pow2 (e - int p + 1)"
    using fl_bracket(1)[OF assms] by (simp only: fl split e_def[symmetric])
  then have a: "2 ^ (p - 1) \<le> k" using pos by (simp only: mult_le_cancel_right_pos of_int_le_iff)
  have "of_int k * pow2 (e - int p + 1) \<le> of_int (2 ^ p) * pow2 (e - int p + 1)"
    using fl_bracket(2)[OF assms] by (simp only: fl split e_def[symmetric])
  then have b: "k \<le> 2 ^ p" using pos by (simp only: mult_le_cancel_right_pos of_int_le_iff)
  show ?thesis
  proof (cases "k = 2 ^ p")
    case True
    have "of_int k * pow2 (e - int p + 1) = of_int (2 ^ (p - 1)) * pow2 ((e + 1) - int p + 1)"
      using True assms(2) pow2_add[of 1 "e - int p + 1"]
      by (cases p) (simp_all add: pow2_def algebra_simps)
    moreover have "(2 :: int) ^ (p - 1) < 2 ^ p" using assms(2) by simp
    ultimately show ?thesis using fl by (intro exI[of _ "2 ^ (p - 1)"] exI[of _ "e + 1"]) simp
  next
    case False
    with a b fl show ?thesis by (intro exI[of _ k] exI[of _ e]) simp
  qed
qed

lemma f32_bits_exact:
  assumes x: "x = of_int k * pow2 (e - 23)" and k: "8388608 \<le> k" "k < 16777216" and e: "-126 \<le> e" "e \<le> 127"
  shows "f32_of_bits (f32_bits x) = FNum False x"
proof -
  have kr: "(8388608 :: rat) \<le> of_int k" "(of_int k :: rat) < 16777216"
    using k by (simp_all flip: of_int_le_iff of_int_less_iff)
  have p: "0 < pow2 (e - 23)" by simp
  have s: "pow2 e = 8388608 * pow2 (e - 23)" "pow2 (e + 1) = 16777216 * pow2 (e - 23)"
    using pow2_add[of 23 "e - 23"] pow2_add[of 24 "e - 23"] by (simp_all add: pow2_def algebra_simps)
  have pos: "0 < x" using kr(1) p unfolding x by (intro mult_pos_pos) simp_all
  have "pow2 e \<le> x" "x < pow2 (e + 1)" unfolding x s using kr p by simp_all
  then have lead: "lead_exp x = e" using lead_exp_ge[OF pos] lead_exp_less[OF pos] by force
  have fl: "\<lfloor>x / pow2 (e - 23)\<rfloor> = k" using p by (simp add: x less_imp_neq[THEN not_sym])
  define u where "u = (e + 127) * 8388608 + (k - 8388608)"
  have "0 \<le> u" "u < 2147483648" using k e by (simp_all add: u_def)
  then have bits: "uint (f32_bits x) = u"
    by (simp add: f32_bits_def Let_def lead fl u_def word_of_int_inverse)
  have "(a * 8388608 + r) div 8388608 = a \<and> (a * 8388608 + r) mod 8388608 = r"
    if "0 \<le> r" "r < 8388608" for a r :: int using that by simp
  from this[of "k - 8388608" "e + 127"] k
  have d: "u div 8388608 = e + 127" "u mod 8388608 = k - 8388608" by (simp_all add: u_def)
  have "(1 + of_int (k - 8388608) / 8388608) * pow2 e = x"
    unfolding s x by (simp add: field_simps)
  then show ?thesis
    using e \<open>u < 2147483648\<close> by (simp add: f32_of_bits_def Let_def bits d)
qed

lemma float_scale_bounds: "pow2 (-27) \<le> fl 24 (1 / 100000000)" "fl 24 (1 / 100000000) \<le> 1"
proof -
  have "-27 \<le> lead_exp (1 / 100000000)" by (rule lead_exp_ge) (simp_all add: pow2_def)
  then have "pow2 (-27) \<le> pow2 (lead_exp (1 / 100000000))" by (rule pow2_mono)
  then show "pow2 (-27) \<le> fl 24 (1 / 100000000)" using fl_bracket(1)[of "1 / 100000000" 24] by simp
  have "lead_exp (1 / 100000000) < 0" by (rule lead_exp_less) (simp_all add: pow2_eqs)
  then have "pow2 (lead_exp (1 / 100000000) + 1) \<le> pow2 0" by (intro pow2_mono) simp
  then show "fl 24 (1 / 100000000) \<le> 1" using fl_bracket(2)[of "1 / 100000000" 24] by (simp add: pow2_eqs)
qed

lemma row_largest_bound:
  "0 \<le> l \<Longrightarrow> l < b \<Longrightarrow> \<forall>neg m. FNum neg m \<in> set vs \<longrightarrow> m < b \<Longrightarrow> 0 \<le> row_largest vs l \<and> row_largest vs l < b"
proof (induction vs arbitrary: l)
  case (Cons v vs)
  then show ?case by (cases v) (auto simp: not_less)
qed simp

lemma row_scale_form:
  assumes "\<forall>neg m. FNum neg m \<in> set vs \<longrightarrow> m < pow2 128"
  shows "\<exists>k e. row_scale vs = of_int k * pow2 (e - 23) \<and> 8388608 \<le> k \<and> k < 16777216 \<and> -126 \<le> e \<and> e \<le> 127"
proof -
  define y where "y = row_largest vs 0 / 448"
  have y: "0 \<le> y" "y < pow2 128 / 448"
    using row_largest_bound[of 0 "pow2 128" vs] assms by (simp_all add: y_def)
  have small: "rnd32 y \<le> pow2 (-126)" if "y < pow2 (-126)"
  proof -
    have "y * pow2 149 \<le> of_int (2 ^ 23)"
      using that mult_right_mono[of y "pow2 (-126)" "pow2 149"] pow2_add[of "-126" 149]
      by (simp add: less_imp_le pow2_def)
    from round_even_mono[OF this] have "round_even (y * pow2 149) \<le> 2 ^ 23" by (simp only: round_even_int)
    then have "of_int (round_even (y * pow2 149)) * pow2 (-149) \<le> of_int (2 ^ 23) * pow2 (-149)"
      by (intro mult_right_mono) (simp_all only: of_int_le_iff less_imp_le[OF pow2_pos])
    also have "of_int (2 ^ 23) * pow2 (-149) = pow2 (-126)"
      using pow2_add[of 23 "-149"] by (simp add: pow2_def)
    finally show ?thesis using that by (simp add: rnd32_def)
  qed
  obtain x where x: "row_scale vs = fl 24 x" "0 < x" "x < pow2 128 / 448 \<or> x = 1 / 100000000"
  proof (cases "rnd32 y \<le> fl 24 (1 / 100000000)")
    case True
    then show ?thesis using that[of "1 / 100000000"] by (simp add: row_scale_def y_def max_def)
  next
    case False
    then have "\<not> y < pow2 (-126)"
      using small float_scale_bounds(1) pow2_mono[of "-126" "-27"] by force
    then show ?thesis
      using False y that[of y] pow2_pos[of "-126"] by (simp add: row_scale_def rnd32_def y_def max_def)
  qed
  obtain k e where k: "fl 24 x = of_int k * pow2 (e - 23)" "8388608 \<le> k" "k < 16777216"
    using fl_form[OF x(2), of 24] by auto
  have kr: "(8388608 :: rat) \<le> of_int k" "(of_int k :: rat) < 16777216"
    using k(2,3) by (simp_all flip: of_int_le_iff of_int_less_iff)
  have "pow2 e = 8388608 * pow2 (e - 23)" "pow2 (e + 1) = 16777216 * pow2 (e - 23)"
    using pow2_add[of 23 "e - 23"] pow2_add[of 24 "e - 23"] by (simp_all add: pow2_def algebra_simps)
  then have near: "pow2 e \<le> fl 24 x" "fl 24 x < pow2 (e + 1)" unfolding k(1) using kr by simp_all
  have "pow2 (-27) \<le> fl 24 x" using float_scale_bounds(1) x(1) by (simp add: row_scale_def)
  then have lo: "-126 \<le> e" using near(2) pow2_mono[of "e + 1" "-27"] by force
  have "x < pow2 128 / 448" using x(3) by (auto simp: pow2_def)
  then have "x + x / 2 ^ 24 < pow2 128" using x(2) by (simp add: pow2_def)
  then have "fl 24 x < pow2 128" using fl_upper[OF x(2), of 24] by simp
  then have "e \<le> 127" using near(1) pow2_mono[of 128 e] by force
  with k lo x(1) show ?thesis by (intro exI[of _ k] exI[of _ e]) simp
qed

lemma fp8_row_crosses:
  assumes "\<forall>neg m. FNum neg m \<in> set vs \<longrightarrow> m < pow2 128"
  shows "unpack_fp8_row (pack_fp8_row vs) =
    map (\<lambda>v. float_times (fp8_e4m3_to_float (float_to_fp8_e4m3 (float_over v (row_scale vs))))
                (FNum False (row_scale vs))) vs"
proof -
  obtain k e where "row_scale vs = of_int k * pow2 (e - 23)" "8388608 \<le> k" "k < 16777216" "-126 \<le> e" "e \<le> 127"
    using row_scale_form[OF assms] by blast
  then have "f32_of_bits (f32_bits (row_scale vs)) = FNum False (row_scale vs)" by (rule f32_bits_exact)
  moreover have "drop 4 (put32 w @ bs) = bs" for w bs by (simp add: put32_def)
  ultimately show ?thesis by (simp add: unpack_fp8_row_def pack_fp8_row_def get32_put32)
qed

section \<open>Properties\<close>

text \<open>
  C36. The fp8 encoder rounds correctly: no e4m3 code is closer to a finite value than the code
  it returns, so values up to 448 lose at most half a step, codes themselves are kept exactly
  and larger values saturate at 448.
\<close>

theorem fp8_encodes_nearest:
  assumes "0 \<le> m" and "fp8_e4m3_to_float c \<noteq> FNan"
  shows "\<bar>float_val (fp8_e4m3_to_float (float_to_fp8_e4m3 (FNum neg m))) - float_val (FNum neg m)\<bar>
    \<le> \<bar>float_val (fp8_e4m3_to_float c) - float_val (FNum neg m)\<bar>"
proof -
  define k where "k = uint c mod 128"
  have c: "fp8_e4m3_to_float c = FNum (uint c \<ge> 128) (code_value k)" and "k \<noteq> 127"
    using assms(2) by (auto simp: decode_code k_def split: if_splits)
  moreover have "0 \<le> k" "k < 128" by (simp_all add: k_def)
  ultimately have k: "0 \<le> k" "k \<le> 126" by simp_all
  have zero: "\<bar>code_value (encode_magnitude m) - m\<bar> \<le> m"
    using encode_nearest[OF assms(1), of 0] assms(1) by (simp add: code_value_def)
  show ?thesis
    using encode_nearest[OF assms(1) k] zero code_value_nonneg[of k] assms(1)
    by (auto simp: decode_encode[OF assms(1)] c float_val_def abs_if split: if_splits)
qed

theorem fp8_encodes_nearest_witness:
  "\<bar>float_val (fp8_e4m3_to_float (float_to_fp8_e4m3 (FNum True (17 / 10)))) - float_val (FNum True (17 / 10))\<bar>
    \<le> \<bar>float_val (fp8_e4m3_to_float 0xBE) - float_val (FNum True (17 / 10))\<bar>"
  by (rule fp8_encodes_nearest) (simp, code_simp)

end
