(* ===== verification/Selection.thy ===== *)
theory Selection
  imports Floats "HOL-Library.Product_Lexorder" "HOL-Library.Code_Target_Nat"
begin

text \<open>
  Choosing among feasible plans (\<^verbatim>\<open>engine/include/provider_owned/selection.hpp\<close>,
  \<^verbatim>\<open>engine/selection.cpp\<close>): how a plan is judged against the policy and which plan is
  used, reported or offered. The estimates and limits are doubles.
\<close>

section \<open>Policy and plans\<close>

datatype cold_start = ReadyFirst | Wait

record selection_policy =
  po_target_tokens_per_s :: double
  po_first_token_target_ms :: double
  po_first_token_max_ms :: double
  po_context :: u32
  po_max_providers :: nat
  po_ordinary_input_tokens :: u32
  po_stall_p95_ms :: double
  po_margin :: double
  po_cold_start :: cold_start

definition default_policy :: selection_policy where
  "default_policy = \<lparr>po_target_tokens_per_s = Fin 20, po_first_token_target_ms = Fin 2000,
     po_first_token_max_ms = Fin 5000, po_context = 32768, po_max_providers = 5,
     po_ordinary_input_tokens = 2048, po_stall_p95_ms = Fin 1000, po_margin = round_double (1 / 5),
     po_cold_start = ReadyFirst\<rparr>"

record plan_estimate =
  pe_label :: string
  pe_quality_tier :: int
  pe_context :: u32
  pe_providers :: nat
  pe_ready :: bool
  pe_measured :: bool
  pe_token_ms :: double
  pe_first_token_ms :: double
  pe_load_ms :: double
  pe_stall_p95_ms :: double
  pe_cache_warm :: bool
  pe_resource_bytes :: u64

datatype verdict = MeetsTarget | BelowTarget | Unverified | Ineligible

record assessment =
  as_verdict :: verdict
  as_reason :: string

section \<open>Judging a plan\<close>

definition usable_number :: "double \<Rightarrow> bool" where
  "usable_number v \<longleftrightarrow> (case v of Fin x \<Rightarrow> x \<ge> 0 | _ \<Rightarrow> False)"

text \<open>The text of a time; \<^verbatim>\<open>llround\<close> of a value that is not finite is the smallest
  \<^verbatim>\<open>long long\<close>, as on x86-64.\<close>

definition milliseconds :: "double \<Rightarrow> string" where
  "milliseconds v = dec_int (case v of Fin x \<Rightarrow> llround x | _ \<Rightarrow> - 9223372036854775808) @ '' ms''"

definition double_le :: "double \<Rightarrow> double \<Rightarrow> bool" where
  "double_le x y \<longleftrightarrow> double_less x y \<or> x = y \<and> x \<noteq> NaN"

definition with_margin :: "selection_policy \<Rightarrow> double \<Rightarrow> double" where
  "with_margin policy v = double_mult v (double_add (Fin 1) (po_margin policy))"

definition known :: "double \<Rightarrow> double" where
  "known v = (if double_less (Fin 0) v then v else PInf)"

definition quick :: "selection_policy \<Rightarrow> plan_estimate \<Rightarrow> bool" where
  "quick policy p \<longleftrightarrow> double_less (Fin 0) (pe_first_token_ms p)
     \<and> double_le (with_margin policy (pe_first_token_ms p)) (po_first_token_target_ms policy)"

definition better :: "selection_policy \<Rightarrow> plan_estimate \<Rightarrow> plan_estimate \<Rightarrow> bool" where
  "better policy l r \<longleftrightarrow>
     (if pe_quality_tier l \<noteq> pe_quality_tier r then pe_quality_tier l > pe_quality_tier r
      else if quick policy l \<noteq> quick policy r then quick policy l
      else if known (pe_token_ms l) \<noteq> known (pe_token_ms r)
        then double_less (known (pe_token_ms l)) (known (pe_token_ms r))
      else if pe_ready l \<noteq> pe_ready r then pe_ready l
      else if pe_cache_warm l \<noteq> pe_cache_warm r then pe_cache_warm l
      else (pe_resource_bytes l, pe_providers l, pe_label l)
             < (pe_resource_bytes r, pe_providers r, pe_label r))"

definition assess_plan :: "plan_estimate \<Rightarrow> selection_policy \<Rightarrow> assessment" where
  "assess_plan p policy =
     (if \<not> usable_number (pe_token_ms p) \<or> \<not> usable_number (pe_first_token_ms p)
         \<or> \<not> usable_number (pe_load_ms p) \<or> \<not> usable_number (pe_stall_p95_ms p)
      then \<lparr>as_verdict = Ineligible, as_reason = ''invalid estimate''\<rparr>
      else if pe_context p < po_context policy then
        \<lparr>as_verdict = Ineligible, as_reason = ''context '' @ dec_u32 (pe_context p) @ '' < required ''
           @ dec_u32 (po_context policy)\<rparr>
      else if pe_providers p = 0 \<or> pe_providers p > po_max_providers policy then
        \<lparr>as_verdict = Ineligible, as_reason = dec (pe_providers p) @ '' providers (limit ''
           @ dec (po_max_providers policy) @ '')''\<rparr>
      else if \<not> pe_measured p \<or> pe_token_ms p = Fin 0 \<or> pe_first_token_ms p = Fin 0 then
        \<lparr>as_verdict = Unverified, as_reason = ''speed not measured yet''\<rparr>
      else
        let token_limit = double_div (Fin 1000) (po_target_tokens_per_s policy)
        in if double_less token_limit (with_margin policy (pe_token_ms p)) then
             \<lparr>as_verdict = BelowTarget, as_reason = milliseconds (pe_token_ms p) @ '' per token (limit ''
                @ milliseconds token_limit @ '' with margin)''\<rparr>
           else if double_less (po_first_token_max_ms policy) (with_margin policy (pe_first_token_ms p)) then
             \<lparr>as_verdict = BelowTarget, as_reason = ''first token '' @ milliseconds (pe_first_token_ms p)
                @ '' (limit '' @ milliseconds (po_first_token_max_ms policy) @ '' with margin)''\<rparr>
           else if double_less (po_stall_p95_ms policy) (with_margin policy (pe_stall_p95_ms p)) then
             \<lparr>as_verdict = BelowTarget, as_reason = ''p95 stall '' @ milliseconds (pe_stall_p95_ms p)\<rparr>
           else \<lparr>as_verdict = MeetsTarget, as_reason = []\<rparr>)"

section \<open>Choosing a plan\<close>

record selection =
  sl_chosen :: "nat option"
  sl_better_cold :: "nat option"
  sl_fallback :: "nat option"
  sl_reason :: string

text \<open>\<^verbatim>\<open>keep\<close>, and the loop over the plans with the four plans it keeps: the best ready
  one, the best that must load, the best of both and the best fallback.\<close>

definition keep :: "selection_policy \<Rightarrow> plan_estimate list \<Rightarrow> nat \<Rightarrow> nat option \<Rightarrow> nat option" where
  "keep policy plans index best =
     (case best of
        None \<Rightarrow> Some index
      | Some b \<Rightarrow> if better policy (plans ! index) (plans ! b) then Some index else best)"

fun select_loop ::
    "selection_policy \<Rightarrow> plan_estimate list \<Rightarrow> nat list
     \<Rightarrow> nat option \<times> nat option \<times> nat option \<times> nat option
     \<Rightarrow> nat option \<times> nat option \<times> nat option \<times> nat option" where
  "select_loop policy plans [] kept = kept"
| "select_loop policy plans (i # is) (ready, cold, any, fallback) =
     select_loop policy plans is
       (case as_verdict (assess_plan (plans ! i) policy) of
          MeetsTarget \<Rightarrow>
            (if pe_ready (plans ! i) then (keep policy plans i ready, cold, keep policy plans i any, fallback)
             else (ready, keep policy plans i cold, keep policy plans i any, fallback))
        | Ineligible \<Rightarrow> (ready, cold, any, fallback)
        | _ \<Rightarrow> (ready, cold, any, keep policy plans i fallback))"

definition chosen_reason :: "plan_estimate \<Rightarrow> string" where
  "chosen_reason p = pe_label p @ (if pe_ready p then '' (ready)'' else '' (needs loading)'')
     @ '': tier '' @ dec_int (pe_quality_tier p) @ '', '' @ milliseconds (pe_token_ms p)
     @ '' per token, first token '' @ milliseconds (pe_first_token_ms p)"

definition select_plan :: "plan_estimate list \<Rightarrow> selection_policy \<Rightarrow> selection" where
  "select_plan plans policy =
     (case select_loop policy plans [0..<length plans] (None, None, None, None) of
        (ready, cold, any, fallback) \<Rightarrow>
          let chosen = (if po_cold_start policy = Wait \<or> ready = None then any else ready);
              better_cold =
                (case (ready, cold) of
                   (Some r, Some c) \<Rightarrow>
                     if po_cold_start policy \<noteq> Wait
                        \<and> pe_quality_tier (plans ! c) > pe_quality_tier (plans ! r)
                     then cold else None
                 | _ \<Rightarrow> None)
          in case chosen of
               Some c \<Rightarrow> \<lparr>sl_chosen = chosen, sl_better_cold = better_cold, sl_fallback = None,
                  sl_reason = chosen_reason (plans ! c)\<rparr>
             | None \<Rightarrow>
                 (case fallback of
                    Some f \<Rightarrow> \<lparr>sl_chosen = None, sl_better_cold = better_cold, sl_fallback = fallback,
                      sl_reason = ''no plan meets the target; slower option: '' @ pe_label (plans ! f)
                        @ '' ('' @ as_reason (assess_plan (plans ! f) policy) @ '')''\<rparr>
                  | None \<Rightarrow> \<lparr>sl_chosen = None, sl_better_cold = better_cold, sl_fallback = None,
                      sl_reason = (if plans = [] then ''no feasible plan''
                        else ''no eligible plan: '' @ as_reason (assess_plan (hd plans) policy))\<rparr>))"

definition preferred_model :: "int \<Rightarrow> u64 \<Rightarrow> int \<Rightarrow> u64 \<Rightarrow> bool" where
  "preferred_model left_tier left_bytes right_tier right_bytes \<longleftrightarrow>
     (if left_tier \<noteq> right_tier then left_tier > right_tier else left_bytes > right_bytes)"

section \<open>The preference is a linear order of ranks\<close>

definition speed_rank :: "double \<Rightarrow> int \<times> rat" where
  "speed_rank v = (case v of Fin x \<Rightarrow> (0, x) | _ \<Rightarrow> (1, 0))"

definition plan_rank ::
    "selection_policy \<Rightarrow> plan_estimate
     \<Rightarrow> int \<times> bool \<times> (int \<times> rat) \<times> bool \<times> bool \<times> u64 \<times> nat \<times> string" where
  "plan_rank policy p =
     (- pe_quality_tier p, \<not> quick policy p, speed_rank (known (pe_token_ms p)), \<not> pe_ready p,
      \<not> pe_cache_warm p, pe_resource_bytes p, pe_providers p, pe_label p)"

lemma known_cases: "(\<exists>x. known v = Fin x) \<or> known v = PInf"
  by (cases v) (auto simp: known_def)

lemma speed_rank_less:
  "double_less (known a) (known b) \<longleftrightarrow> speed_rank (known a) < speed_rank (known b)"
  "known a = known b \<longleftrightarrow> speed_rank (known a) = speed_rank (known b)"
  using known_cases[of a] known_cases[of b] by (auto simp: speed_rank_def)

lemma better_rank: "better policy l r \<longleftrightarrow> plan_rank policy l < plan_rank policy r"
  unfolding better_def plan_rank_def speed_rank_less less_prod_simp
  by auto

interpretation plans: running_best ok "\<lambda>i j. better policy (plans ! i) (plans ! j)" "\<lambda>_. True"
  for ok policy plans
  by unfold_locales (auto simp: better_rank)

section \<open>What the loop keeps\<close>

abbreviation meets :: "selection_policy \<Rightarrow> plan_estimate list \<Rightarrow> nat \<Rightarrow> bool" where
  "meets policy plans i \<equiv> as_verdict (assess_plan (plans ! i) policy) = MeetsTarget"

abbreviation offerable :: "selection_policy \<Rightarrow> plan_estimate list \<Rightarrow> nat \<Rightarrow> bool" where
  "offerable policy plans i \<equiv>
     as_verdict (assess_plan (plans ! i) policy) \<in> {BelowTarget, Unverified}"

lemma select_loop_bests:
  "select_loop policy plans is (ready, cold, any, fallback) =
     (plans.best_of (\<lambda>i. meets policy plans i \<and> pe_ready (plans ! i)) policy plans is ready,
      plans.best_of (\<lambda>i. meets policy plans i \<and> \<not> pe_ready (plans ! i)) policy plans is cold,
      plans.best_of (meets policy plans) policy plans is any,
      plans.best_of (offerable policy plans) policy plans is fallback)"
proof (induction "is" arbitrary: ready cold any fallback)
  case (Cons i "is")
  then show ?case
    by (cases "as_verdict (assess_plan (plans ! i) policy)"; cases "pe_ready (plans ! i)")
      (simp_all add: keep_def)
qed simp

text \<open>What the policy asks of a plan, stated apart from the code that judges it: the numbers are
  real times, the context is served, and the route has from one to the allowed number of
  providers; and then the measured speed, first token and stall, each with the margin, are within
  their limits.\<close>

definition eligible :: "selection_policy \<Rightarrow> plan_estimate \<Rightarrow> bool" where
  "eligible policy p \<longleftrightarrow>
     (\<forall>v \<in> {pe_token_ms p, pe_first_token_ms p, pe_load_ms p, pe_stall_p95_ms p}. \<exists>x \<ge> 0. v = Fin x)
     \<and> po_context policy \<le> pe_context p \<and> 1 \<le> pe_providers p \<and> pe_providers p \<le> po_max_providers policy"

definition within_limits :: "selection_policy \<Rightarrow> plan_estimate \<Rightarrow> bool" where
  "within_limits policy p \<longleftrightarrow> eligible policy p \<and> pe_measured p
     \<and> pe_token_ms p \<noteq> Fin 0 \<and> pe_first_token_ms p \<noteq> Fin 0
     \<and> \<not> double_less (double_div (Fin 1000) (po_target_tokens_per_s policy))
          (double_mult (pe_token_ms p) (double_add (Fin 1) (po_margin policy)))
     \<and> \<not> double_less (po_first_token_max_ms policy)
          (double_mult (pe_first_token_ms p) (double_add (Fin 1) (po_margin policy)))
     \<and> \<not> double_less (po_stall_p95_ms policy)
          (double_mult (pe_stall_p95_ms p) (double_add (Fin 1) (po_margin policy)))"

lemma usable_number_iff: "usable_number v \<longleftrightarrow> (\<exists>x \<ge> 0. v = Fin x)"
  by (cases v) (auto simp: usable_number_def)

lemma verdict_within_limits:
  "as_verdict (assess_plan p policy) = MeetsTarget \<longleftrightarrow> within_limits policy p"
  "as_verdict (assess_plan p policy) \<in> {BelowTarget, Unverified}
     \<longleftrightarrow> eligible policy p \<and> \<not> within_limits policy p"
proof -
  have numbers: "(\<forall>v \<in> {pe_token_ms p, pe_first_token_ms p, pe_load_ms p, pe_stall_p95_ms p}. \<exists>x \<ge> 0. v = Fin x)
      \<longleftrightarrow> usable_number (pe_token_ms p) \<and> usable_number (pe_first_token_ms p)
        \<and> usable_number (pe_load_ms p) \<and> usable_number (pe_stall_p95_ms p)"
    by (simp add: usable_number_iff)
  have providers: "1 \<le> pe_providers p \<longleftrightarrow> pe_providers p \<noteq> 0" by linarith
  show "as_verdict (assess_plan p policy) = MeetsTarget \<longleftrightarrow> within_limits policy p"
    "as_verdict (assess_plan p policy) \<in> {BelowTarget, Unverified}
     \<longleftrightarrow> eligible policy p \<and> \<not> within_limits policy p"
    unfolding within_limits_def eligible_def numbers providers
    by (simp_all add: assess_plan_def with_margin_def Let_def not_less not_le) blast+
qed

text \<open>\<open>i\<close> is acceptable and nothing acceptable ranks before it.\<close>

definition best_plan :: "selection_policy \<Rightarrow> plan_estimate list \<Rightarrow> (nat \<Rightarrow> bool) \<Rightarrow> nat \<Rightarrow> bool" where
  "best_plan policy plans ok i \<longleftrightarrow> i < length plans \<and> ok i
     \<and> (\<forall>j < length plans. ok j \<longrightarrow> plan_rank policy (plans ! i) \<le> plan_rank policy (plans ! j))"

lemma kept_plan:
  "case plans.best_of ok policy plans [0..<length plans] None of
     None \<Rightarrow> \<forall>i < length plans. \<not> ok i
   | Some i \<Rightarrow> best_plan policy plans ok i"
  using plans.best_of_None[of ok policy plans "[0..<length plans]"]
    plans.best_of_Best[of ok policy plans "[0..<length plans]"]
  by (auto simp: best_plan_def better_rank not_less split: option.split)

definition demo_plan :: plan_estimate where
  "demo_plan = \<lparr>pe_label = ''a'', pe_quality_tier = 1, pe_context = 32768, pe_providers = 1,
     pe_ready = True, pe_measured = True, pe_token_ms = Fin 30, pe_first_token_ms = Fin 900,
     pe_load_ms = Fin 0, pe_stall_p95_ms = Fin 0, pe_cache_warm = False, pe_resource_bytes = 1000\<rparr>"

definition demo_policy :: selection_policy where
  "demo_policy = default_policy\<lparr>po_margin := Fin (1 / 4)\<rparr>"

lemma demo_numbers:
  "round_double (5 / 4) = Fin (5 / 4)" "round_double (75 / 2) = Fin (75 / 2)"
  "round_double 1125 = Fin 1125" "round_double 50 = Fin 50"
  by (rule round_double_small, simp, simp, code_simp)+

lemma demo_plan_meets: "as_verdict (assess_plan demo_plan demo_policy) = MeetsTarget"
  by (simp add: assess_plan_def usable_number_def demo_plan_def demo_policy_def default_policy_def
      with_margin_def demo_numbers)

section \<open>Properties\<close>



end
