(* ===== verification/Message_Lines.thy ===== *)
theory Message_Lines
  imports Prelude
begin

text \<open>
  The \<^verbatim>\<open>key=value\<close> line format every text message of the engine uses
  (\<^verbatim>\<open>engine/include/provider_owned\<close>: \<^verbatim>\<open>parse_route\<close>,
  \<^verbatim>\<open>parse_stage_request\<close>, \<^verbatim>\<open>parse_assignment\<close>, \<^verbatim>\<open>parse_available\<close>). The
  parsers share one loop over the lines and differ in what they do with a field; the loop is
  \<open>parse_lines\<close> with the field handler as its argument. The locale \<open>line_codec\<close> is the
  contract of a printer and a parser built on the loop: its round trip is proved once here.
\<close>

section \<open>The parser loop\<close>

text \<open>
  One pass of the loop: the text up to the newline is the line, a line without
  \<^verbatim>\<open>=\<close> ends the parse with failure, and a text without a newline is the last line.
\<close>

function parse_lines ::
  "('r \<Rightarrow> string \<Rightarrow> string \<Rightarrow> 'r option) \<Rightarrow> string \<Rightarrow> 'r \<Rightarrow> 'r option" where
  "parse_lines handle text r =
     (if text = [] then Some r
      else
        let newline = find_char (CHR 0x0A) text;
            line = (case newline of None \<Rightarrow> text | Some n \<Rightarrow> take n text)
        in case find_char (CHR ''='') line of
             None \<Rightarrow> None
           | Some equal \<Rightarrow>
               (case handle r (take equal line) (drop (Suc equal) line) of
                  None \<Rightarrow> None
                | Some r' \<Rightarrow>
                    (case newline of
                       None \<Rightarrow> Some r'
                     | Some n \<Rightarrow> parse_lines handle (drop (Suc n) text) r')))"
  by pat_completeness auto
termination
  by (relation "measure (\<lambda>(_, text, _). length text)") (auto dest: find_char_less)

declare parse_lines.simps [simp del]

section \<open>Printed messages\<close>

text \<open>A printed message: fields joined by newlines, as the \<^verbatim>\<open>+ "\n" +\<close> chains build it.\<close>

definition field_text :: "string \<times> string \<Rightarrow> string" where
  "field_text kv = fst kv @ CHR ''='' # snd kv"

fun join_lines :: "string list \<Rightarrow> string" where
  "join_lines [] = []"
| "join_lines [l] = l"
| "join_lines (l # ls) = l @ CHR 0x0A # join_lines ls"

definition lines_text :: "(string \<times> string) list \<Rightarrow> string" where
  "lines_text kvs = join_lines (map field_text kvs)"

definition clean_field :: "string \<times> string \<Rightarrow> bool" where
  "clean_field kv \<longleftrightarrow> CHR ''='' \<notin> set (fst kv) \<and> CHR 0x0A \<notin> set (fst kv)
     \<and> CHR 0x0A \<notin> set (snd kv)"

fun handle_all ::
  "('r \<Rightarrow> string \<Rightarrow> string \<Rightarrow> 'r option) \<Rightarrow> (string \<times> string) list \<Rightarrow> 'r \<Rightarrow> 'r option" where
  "handle_all handle [] r = Some r"
| "handle_all handle ((k, v) # kvs) r =
     (case handle r k v of None \<Rightarrow> None | Some r' \<Rightarrow> handle_all handle kvs r')"

lemma handle_all_append:
  "handle_all h (xs @ ys) r =
     (case handle_all h xs r of None \<Rightarrow> None | Some r' \<Rightarrow> handle_all h ys r')"
  by (induction h xs r rule: handle_all.induct) (auto split: option.splits)

lemma join_lines_append:
  "xs \<noteq> [] \<Longrightarrow> ys \<noteq> [] \<Longrightarrow> join_lines (xs @ ys) = join_lines xs @ CHR 0x0A # join_lines ys"
proof (induction xs rule: join_lines.induct)
  case (2 l)
  then show ?case by (cases ys) auto
qed auto

lemma field_text_not_Nil [simp]: "field_text kv \<noteq> []"
  by (simp add: field_text_def)

lemma clean_field_no_newline: "clean_field kv \<Longrightarrow> CHR 0x0A \<notin> set (field_text kv)"
  by (simp add: clean_field_def field_text_def)

lemma field_text_split:
  assumes "clean_field kv"
  shows "find_char (CHR ''='') (field_text kv) = Some (length (fst kv))"
  using assms by (simp add: clean_field_def field_text_def text_simps)

lemma parse_lines_last:
  assumes "clean_field kv"
  shows "parse_lines h (field_text kv) r = h r (fst kv) (snd kv)"
proof -
  have "find_char (CHR 0x0A) (field_text kv) = None"
    using clean_field_no_newline[OF assms] by (simp add: text_simps)
  with field_text_split[OF assms] show ?thesis
    by (subst parse_lines.simps) (simp add: field_text_def split: option.split)
qed

lemma parse_lines_more:
  assumes "clean_field kv"
  shows "parse_lines h (field_text kv @ CHR 0x0A # rest) r =
     (case h r (fst kv) (snd kv) of None \<Rightarrow> None | Some r' \<Rightarrow> parse_lines h rest r')"
proof -
  have "find_char (CHR 0x0A) (field_text kv @ CHR 0x0A # rest) = Some (length (field_text kv))"
    using clean_field_no_newline[OF assms] by (simp add: text_simps)
  with field_text_split[OF assms] show ?thesis
    by (subst parse_lines.simps) (simp add: field_text_def split: option.split)
qed

text \<open>Parsing what was printed runs the handler over the fields in order.\<close>

lemma parse_lines_lines_text:
  "list_all clean_field kvs \<Longrightarrow> parse_lines h (lines_text kvs) r = handle_all h kvs r"
proof (induction kvs arbitrary: r rule: induct_list012)
  case 1
  then show ?case by (simp add: lines_text_def parse_lines.simps)
next
  case (2 kv)
  then show ?case
    by (cases kv) (simp add: lines_text_def parse_lines_last split: option.split)
next
  case (3 kv kv' kvs)
  then have kv: "clean_field kv" by simp
  have "parse_lines h (lines_text (kv # kv' # kvs)) r =
      (case h r (fst kv) (snd kv) of None \<Rightarrow> None
       | Some r' \<Rightarrow> parse_lines h (lines_text (kv' # kvs)) r')"
    by (simp only: lines_text_def list.map join_lines.simps parse_lines_more[OF kv])
  also have "\<dots> = (case h r (fst kv) (snd kv) of None \<Rightarrow> None
       | Some r' \<Rightarrow> handle_all h (kv' # kvs) r')"
    using 3 by (auto split: option.split)
  finally show ?case by (cases kv) simp
qed

text \<open>An invariant that every handled field keeps holds for whatever a parse returns.\<close>

lemma parse_lines_invariant:
  assumes step: "\<And>r k v r'. I r \<Longrightarrow> h r k v = Some r' \<Longrightarrow> I r'"
  shows "I r \<Longrightarrow> parse_lines h s r = Some r' \<Longrightarrow> I r'"
  using step
proof (induction h s r arbitrary: r' rule: parse_lines.induct)
  case (1 h s r)
  from "1.prems"(2) show ?case
    using "1.prems"(1,3) "1.IH"
    by (subst (asm) parse_lines.simps) (auto simp: Let_def split: if_splits option.splits)
qed

section \<open>The contract of a message printer and its parser\<close>

text \<open>
  A message type is printed as a list of fields and parsed back by a handler starting from a
  fresh record, with a final check. The provider promises that the fields of an acceptable
  message are clean and that handling them rebuilds it; the client gets the round trip of the
  text and the injectivity of the printer.
\<close>

locale line_codec =
  fixes good :: "'r \<Rightarrow> bool"
    and fields :: "'r \<Rightarrow> (string \<times> string) list"
    and handle :: "'r \<Rightarrow> string \<Rightarrow> string \<Rightarrow> 'r option"
    and fresh :: 'r
    and accept :: "'r \<Rightarrow> bool"
  assumes fields_clean: "good r \<Longrightarrow> list_all clean_field (fields r)"
    and fields_rebuild: "good r \<Longrightarrow> handle_all handle (fields r) fresh = Some r"
    and good_accept: "good r \<Longrightarrow> accept r"
begin

definition print_msg :: "'r \<Rightarrow> string" where
  "print_msg r = lines_text (fields r)"

definition parse_msg :: "string \<Rightarrow> 'r option" where
  "parse_msg text =
     (case parse_lines handle text fresh of
        None \<Rightarrow> None | Some r \<Rightarrow> if accept r then Some r else None)"

lemma parse_print: "good r \<Longrightarrow> parse_msg (print_msg r) = Some r"
  by (simp add: parse_msg_def print_msg_def parse_lines_lines_text fields_clean
      fields_rebuild good_accept)

lemma print_inject: "good r \<Longrightarrow> good s \<Longrightarrow> print_msg r = print_msg s \<Longrightarrow> r = s"
  by (metis option.inject parse_print)

lemma parse_accepts: "parse_msg text = Some r \<Longrightarrow> accept r"
  by (auto simp: parse_msg_def split: option.splits if_splits)

end

end
