(* ===== verification/Ring_Route.thy ===== *)
theory Ring_Route
  imports Message_Lines Protocol
begin

text \<open>
  Endpoints, PeerIDs, ring targets (\<^verbatim>\<open>protocol.hpp\<close>) and the per-session ring route
  carried by \<^verbatim>\<open>create_session\<close> (\<^verbatim>\<open>route.hpp\<close>). \<^verbatim>\<open>inet_pton\<close> belongs to
  the operating system: it is the parameter \<open>pton\<close> of \<open>valid_private_endpoint\<close>.
\<close>

section \<open>PeerIDs and endpoints\<close>

text \<open>Base58: digits and letters without \<^verbatim>\<open>0\<close>, \<^verbatim>\<open>I\<close>, \<^verbatim>\<open>O\<close> and \<^verbatim>\<open>l\<close>.\<close>

definition base58_char :: "char \<Rightarrow> bool" where
  "base58_char c \<longleftrightarrow> (CHR ''1'' \<le> c \<and> c \<le> CHR ''9'') \<or> (CHR ''A'' \<le> c \<and> c \<le> CHR ''H'')
     \<or> (CHR ''J'' \<le> c \<and> c \<le> CHR ''N'') \<or> (CHR ''P'' \<le> c \<and> c \<le> CHR ''Z'')
     \<or> (CHR ''a'' \<le> c \<and> c \<le> CHR ''k'') \<or> (CHR ''m'' \<le> c \<and> c \<le> CHR ''z'')"

definition valid_peer_id :: "string \<Rightarrow> bool" where
  "valid_peer_id v \<longleftrightarrow> 32 \<le> length v \<and> length v \<le> 90 \<and> list_all base58_char v"

definition parse_peer_id :: "string \<Rightarrow> string option" where
  "parse_peer_id line =
     (if \<not> starts_with line ''DAN-P2P/1 '' then None
      else
        let peer_id = drop 10 line
        in if 32 \<le> length peer_id \<and> length peer_id \<le> 90 \<and> list_all base58_char peer_id
           then Some peer_id else None)"

text \<open>
  \<^verbatim>\<open>recv_peer_id\<close> reads byte by byte until a newline, a closed stream or 128 bytes. The
  loop returns the line, the last byte read (\<open>0\<close> before any) and the rest of the stream.
\<close>

function recv_line :: "string \<Rightarrow> char \<Rightarrow> u8 list list \<Rightarrow> string \<times> char \<times> u8 list list" where
  "recv_line line byte segs =
     (if \<not> length line < 128 then (line, byte, segs)
      else
        case recv_some 1 segs of
          ([], segs') \<Rightarrow> (line, byte, segs')
        | (b # _, segs') \<Rightarrow>
            let c = char_of (unat b)
            in if c = CHR 0x0A then (line, c, segs') else recv_line (line @ [c]) c segs')"
  by pat_completeness auto
termination
  by (relation "measure (\<lambda>(line, _, _). 128 - length line)") auto

declare recv_line.simps [simp del]

definition recv_peer_id :: "u8 list list \<Rightarrow> string option \<times> u8 list list" where
  "recv_peer_id segs =
     (let (line, byte, rest) = recv_line [] (CHR 0x00) segs
      in (if byte = CHR 0x0A then parse_peer_id line else None, rest))"

definition valid_endpoint :: "string \<Rightarrow> bool" where
  "valid_endpoint endpoint \<longleftrightarrow>
     (if endpoint = [] then True
      else
        case rfind_char (CHR '':'') endpoint of
          None \<Rightarrow> False
        | Some colon \<Rightarrow>
            if colon = 0 \<or> Suc colon = length endpoint
              \<or> list_ex (\<lambda>c. c \<in> {CHR 0x0D, CHR 0x0A, CHR '' '', CHR 0x09}) endpoint
            then False
            else
              (case from_chars u32_max (drop (Suc colon) endpoint) of
                 None \<Rightarrow> False
               | Some port \<Rightarrow> port \<noteq> 0 \<and> port \<le> 65535))"

section \<open>Ring targets\<close>

definition target_chars :: string where
  "target_chars =
     ''abcdefghijklmnopqrstuvwxyzABCDEFGHIJKLMNOPQRSTUVWXYZ0123456789/._:-,''"

definition p2p_marker :: string where
  "p2p_marker = ''/p2p/''"

definition valid_multiaddr :: "string \<Rightarrow> bool" where
  "valid_multiaddr address \<longleftrightarrow>
     starts_with address ''/'' \<and>
     (case rfind_str p2p_marker address of
        None \<Rightarrow> False | Some peer \<Rightarrow> valid_peer_id (drop (peer + 5) address))"

text \<open>The loop over the comma-separated addresses.\<close>

function valid_addresses :: "string \<Rightarrow> bool" where
  "valid_addresses v =
     (if v = [] then True
      else
        case find_char (CHR '','') v of
          None \<Rightarrow> valid_multiaddr v
        | Some comma \<Rightarrow>
            valid_multiaddr (take comma v) \<and> valid_addresses (drop (Suc comma) v))"
  by pat_completeness auto
termination
  by (relation "measure length") (auto dest: find_char_less)

declare valid_addresses.simps [simp del]

definition valid_ring_target :: "string \<Rightarrow> bool" where
  "valid_ring_target v \<longleftrightarrow>
     (if valid_endpoint v then True
      else if v = [] \<or> last v = CHR '','' \<or> length v > 16 * 1024
        \<or> list_ex (\<lambda>c. c \<notin> set target_chars) v
      then False
      else valid_addresses v)"

definition valid_p2p_target :: "string \<Rightarrow> bool" where
  "valid_p2p_target v \<longleftrightarrow> v \<noteq> [] \<and> hd v = CHR ''/'' \<and> valid_ring_target v"

text \<open>
  \<open>pton\<close> is \<^verbatim>\<open>inet_pton(AF_INET, ...)\<close>: the four address bytes of a numeric IPv4 text.
\<close>

definition valid_private_endpoint :: "(string \<Rightarrow> (nat \<times> nat \<times> nat \<times> nat) option) \<Rightarrow> string \<Rightarrow> bool" where
  "valid_private_endpoint pton v \<longleftrightarrow>
     (if v = [] \<or> hd v = CHR ''/'' \<or> \<not> valid_endpoint v then False
      else
        case rfind_char (CHR '':'') v of
          None \<Rightarrow> False
        | Some colon \<Rightarrow>
            (case pton (take colon v) of
               None \<Rightarrow> False
             | Some (a, b, _, _) \<Rightarrow>
                 a = 127 \<or> a = 10 \<or> (a = 172 \<and> 16 \<le> b \<and> b \<le> 31)
                 \<or> (a = 192 \<and> b = 168) \<or> (a = 100 \<and> 64 \<le> b \<and> b \<le> 127)))"

text \<open>The PeerID a target names (\<^verbatim>\<open>placement.cpp\<close>): what follows its last marker.\<close>

definition peer_of :: "string \<Rightarrow> string" where
  "peer_of target = (case rfind_str p2p_marker target of None \<Rightarrow> [] | Some i \<Rightarrow> drop (i + 5) target)"

section \<open>The ring route message\<close>

record ring_route =
  rr_next :: string
  rr_previous_peer :: string
  rr_loop :: string

definition fresh_ring_route :: ring_route where
  "fresh_ring_route = \<lparr>rr_next = [], rr_previous_peer = [], rr_loop = []\<rparr>"

definition loop_self :: string where
  "loop_self = ''self''"

definition route_message :: "ring_route \<Rightarrow> string" where
  "route_message r =
     ''next='' @ rr_next r
     @ (if rr_previous_peer r \<noteq> [] then CHR 0x0A # ''previous_peer='' @ rr_previous_peer r else [])
     @ (if rr_loop r \<noteq> [] then CHR 0x0A # ''loop='' @ rr_loop r else [])"

text \<open>A field may be given once: a second value for a field already set is refused.\<close>

definition route_field :: "ring_route \<Rightarrow> string \<Rightarrow> string \<Rightarrow> ring_route option" where
  "route_field r k v =
     (if k = ''next'' \<and> rr_next r = [] then Some (r\<lparr>rr_next := v\<rparr>)
      else if k = ''previous_peer'' \<and> rr_previous_peer r = [] then Some (r\<lparr>rr_previous_peer := v\<rparr>)
      else if k = ''loop'' \<and> rr_loop r = [] then Some (r\<lparr>rr_loop := v\<rparr>)
      else None)"

definition route_ok :: "ring_route \<Rightarrow> bool" where
  "route_ok r \<longleftrightarrow> rr_next r \<noteq> []
     \<and> (rr_previous_peer r = [] \<or> valid_peer_id (rr_previous_peer r))
     \<and> (rr_loop r = [] \<or> rr_loop r = loop_self \<or> valid_ring_target (rr_loop r))"

definition parse_route :: "string \<Rightarrow> ring_route option" where
  "parse_route s =
     (case parse_lines route_field s fresh_ring_route of
        None \<Rightarrow> None | Some r \<Rightarrow> if route_ok r then Some r else None)"

section \<open>Lemmas\<close>

lemma base58_not_newline: "\<not> base58_char (CHR 0x0A)"
  by (simp add: base58_char_def)

lemma valid_peer_id_clean: "valid_peer_id v \<Longrightarrow> CHR 0x0A \<notin> set v"
  using base58_not_newline by (auto simp: valid_peer_id_def list_all_iff)

lemma target_chars_clean: "CHR 0x0A \<notin> set target_chars"
  by (simp add: target_chars_def)

lemma valid_ring_target_clean: "valid_ring_target v \<Longrightarrow> CHR 0x0A \<notin> set v"
  using target_chars_clean
  by (auto simp: valid_ring_target_def valid_endpoint_def list_ex_iff
      split: if_splits option.splits)

lemma valid_peer_id_parse: "parse_peer_id (''DAN-P2P/1 '' @ p) = (if valid_peer_id p then Some p else None)"
  by (simp add: parse_peer_id_def valid_peer_id_def starts_with_def)

text \<open>Joining addresses by commas: the reference form of a target's address list.\<close>

fun join_commas :: "string list \<Rightarrow> string" where
  "join_commas [] = []"
| "join_commas [a] = a"
| "join_commas (a # as) = a @ CHR '','' # join_commas as"

lemma valid_multiaddr_not_Nil: "valid_multiaddr a \<Longrightarrow> a \<noteq> []"
  by (auto simp: valid_multiaddr_def starts_with_def)

lemma valid_addresses_join:
  assumes "\<forall>a \<in> set as. valid_multiaddr a \<and> CHR '','' \<notin> set a"
  shows "valid_addresses (join_commas as)"
  using assms
proof (induction as rule: join_commas.induct)
  case (2 a)
  then have "find_char (CHR '','') a = None" by (simp add: text_simps)
  with 2 show ?case by (subst valid_addresses.simps) simp
next
  case (3 a b as)
  then have ih: "valid_addresses (join_commas (b # as))" by simp
  have "find_char (CHR '','') (a @ CHR '','' # join_commas (b # as)) = Some (length a)"
    using "3.prems" by (simp add: text_simps)
  with ih "3.prems" show ?case
    by (subst valid_addresses.simps) (simp add: valid_multiaddr_not_Nil)
next
  case 1
  show ?case by (subst valid_addresses.simps) simp
qed

lemma valid_addresses_split:
  "valid_addresses v \<Longrightarrow> v \<noteq> [] \<Longrightarrow> last v \<noteq> CHR '','' \<Longrightarrow>
   \<exists>as. as \<noteq> [] \<and> v = join_commas as \<and> (\<forall>a \<in> set as. valid_multiaddr a \<and> CHR '','' \<notin> set a)"
proof (induction v rule: valid_addresses.induct)
  case (1 v)
  show ?case
  proof (cases "find_char (CHR '','') v")
    case None
    with "1.prems" show ?thesis
      by (intro exI[of _ "[v]"]) (simp add: valid_addresses.simps[of v] text_simps)
  next
    case (Some comma)
    let ?rest = "drop (Suc comma) v"
    note split = find_char_SomeD[OF Some]
    have rest: "?rest \<noteq> []" "last ?rest = last v"
      using split "1.prems"(3) by (metis last_snoc append_Nil2 last_appendR list.distinct(1) last_ConsR)+
    from "1.prems"(1,2) Some have ok: "valid_multiaddr (take comma v)" "valid_addresses ?rest"
      by (simp_all add: valid_addresses.simps[of v])
    from "1.IH"[OF "1.prems"(2) Some ok(2)] rest "1.prems"(3) obtain as where
      as: "as \<noteq> []" "?rest = join_commas as" "\<forall>a \<in> set as. valid_multiaddr a \<and> CHR '','' \<notin> set a"
      by auto
    then have "join_commas (take comma v # as) = take comma v @ CHR '','' # ?rest"
      by (cases as) auto
    with split have "v = join_commas (take comma v # as)" by simp
    with as split ok(1) show ?thesis
      by (intro exI[of _ "take comma v # as"]) simp
  qed
qed

text \<open>The fields \<^const>\<open>route_message\<close> prints.\<close>

definition route_fields :: "ring_route \<Rightarrow> (string \<times> string) list" where
  "route_fields r =
     [(''next'', rr_next r)]
     @ (if rr_previous_peer r \<noteq> [] then [(''previous_peer'', rr_previous_peer r)] else [])
     @ (if rr_loop r \<noteq> [] then [(''loop'', rr_loop r)] else [])"

definition good_route :: "ring_route \<Rightarrow> bool" where
  "good_route r \<longleftrightarrow> route_ok r \<and> CHR 0x0A \<notin> set (rr_next r)"

lemma route_message_lines: "route_message r = lines_text (route_fields r)"
  by (simp add: route_message_def route_fields_def lines_text_def field_text_def)

interpretation route_codec: line_codec good_route route_fields route_field fresh_ring_route route_ok
proof
  fix r :: ring_route
  assume good: "good_route r"
  have "rr_loop r = loop_self \<Longrightarrow> CHR 0x0A \<notin> set (rr_loop r)"
    by (simp add: loop_self_def)
  with good show "list_all clean_field (route_fields r)"
    by (auto simp: route_fields_def clean_field_def good_route_def route_ok_def
        dest: valid_peer_id_clean valid_ring_target_clean)
  show "handle_all route_field (route_fields r) fresh_ring_route = Some r"
    by (cases r) (simp add: route_fields_def route_field_def fresh_ring_route_def)
  show "route_ok r" using good by (simp add: good_route_def)
qed

lemma route_parses: "good_route r \<Longrightarrow> parse_route (route_message r) = Some r"
  using route_codec.parse_print[of r]
  by (simp add: parse_route_def route_message_lines route_codec.print_msg_def
      route_codec.parse_msg_def)

lemma valid_ring_target_cases:
  assumes "valid_ring_target v"
  shows "valid_endpoint v
    \<or> (\<exists>as. as \<noteq> [] \<and> v = join_commas as \<and> (\<forall>a \<in> set as. valid_multiaddr a \<and> CHR '','' \<notin> set a))"
  using assms valid_addresses_split[of v]
  by (auto simp: valid_ring_target_def split: if_splits)

section \<open>Properties\<close>

text \<open>
  A ring route survives its message form: what the client puts in a \<^verbatim>\<open>create_session\<close>
  payload is what the stage parses, for every route whose fields the parser accepts.
\<close>

theorem route_roundtrip:
  assumes "good_route r"
  shows "parse_route (route_message r) = Some r"
  using assms by (rule route_parses)

definition sample_peer :: string where
  "sample_peer = replicate 46 CHR ''Q''"

definition other_peer :: string where
  "other_peer = replicate 46 CHR ''Z''"

definition sample_route :: ring_route where
  "sample_route = \<lparr>rr_next = ''10.0.0.7:9000'', rr_previous_peer = sample_peer, rr_loop = loop_self\<rparr>"

lemma sample_route_good: "good_route sample_route"
  by code_simp

theorem route_roundtrip_witness: "parse_route (route_message sample_route) = Some sample_route"
  using route_roundtrip[OF sample_route_good] .

text \<open>
  A route that a stage accepts never names a successor it cannot dial or a predecessor it
  cannot recognise: the next target is not empty, the predecessor is absent or a PeerID, and the
  loop target is absent, the stage itself, a host and port, or a list of multiaddrs that each end
  in a PeerID.
\<close>

theorem parse_route_sound:
  assumes "parse_route s = Some r"
  shows "rr_next r \<noteq> [] \<and> (rr_previous_peer r = [] \<or> valid_peer_id (rr_previous_peer r))
    \<and> (rr_loop r = [] \<or> rr_loop r = loop_self \<or> valid_endpoint (rr_loop r)
       \<or> (\<exists>as. as \<noteq> [] \<and> rr_loop r = join_commas as
            \<and> (\<forall>a \<in> set as. valid_multiaddr a \<and> CHR '','' \<notin> set a)))"
proof -
  have "route_ok r"
    using assms by (auto simp: parse_route_def split: option.splits if_splits)
  then show ?thesis
    using valid_ring_target_cases[of "rr_loop r"] by (auto simp: route_ok_def)
qed

theorem parse_route_sound_witness:
  "parse_route (route_message sample_route) = Some sample_route
   \<and> valid_peer_id (rr_previous_peer sample_route)"
proof -
  have p: "parse_route (route_message sample_route) = Some sample_route"
    by (rule route_parses[OF sample_route_good])
  have "rr_previous_peer sample_route \<noteq> []" by code_simp
  with p parse_route_sound[OF p] show ?thesis by blast
qed

text \<open>
  A libp2p target need not name one PeerID: a list of two multiaddrs that end in different
  PeerIDs is accepted, although the comment of \<^verbatim>\<open>valid_p2p_target\<close> says that all the
  addresses name the same one. The PeerID the placement code then reads is that of the last.
\<close>

theorem p2p_target_mixed_peers:
  "valid_p2p_target (join_commas [''/p2p/'' @ sample_peer, ''/p2p/'' @ other_peer])
   \<and> peer_of (''/p2p/'' @ sample_peer) \<noteq> peer_of (''/p2p/'' @ other_peer)
   \<and> peer_of (join_commas [''/p2p/'' @ sample_peer, ''/p2p/'' @ other_peer]) = other_peer"
  by code_simp

end
