(* ===== verification/Lease.thy ===== *)
theory Lease
  imports Ring_Route
begin

text \<open>
  Worker leases (\<^verbatim>\<open>engine/include/provider_owned/lease.hpp\<close>): the stage a client asks a
  worker to serve with its message form, and the worker's single lease with its states
  available, reserved, loading and serving. Every operation of the lease runs under its mutex
  and is one step. Time points are nanoseconds of the steady clock.
\<close>

section \<open>Stage requests\<close>

definition max_lease_ms :: u32 where
  "max_lease_ms = 60000"

record stage_request =
  sr_route_id :: string
  sr_model_sha256 :: string
  sr_begin :: int
  sr_end :: int
  sr_context :: u32
  sr_sessions :: u32
  sr_lease_ms :: u32
  sr_draft_sha256 :: string
  sr_activations :: dtype

definition fresh_request :: stage_request where
  "fresh_request = \<lparr>sr_route_id = [], sr_model_sha256 = [], sr_begin = 0, sr_end = 0,
     sr_context = 0, sr_sessions = 0, sr_lease_ms = 0, sr_draft_sha256 = [],
     sr_activations = dt_f32le\<rparr>"

definition same_stage :: "stage_request \<Rightarrow> stage_request \<Rightarrow> bool" where
  "same_stage a b \<longleftrightarrow> sr_route_id a = sr_route_id b \<and> sr_model_sha256 a = sr_model_sha256 b
     \<and> sr_begin a = sr_begin b \<and> sr_end a = sr_end b \<and> sr_context a = sr_context b
     \<and> sr_sessions a = sr_sessions b \<and> sr_draft_sha256 a = sr_draft_sha256 b
     \<and> sr_activations a = sr_activations b"

definition stage_request_message :: "stage_request \<Rightarrow> string" where
  "stage_request_message r =
     ''route_id='' @ sr_route_id r @ CHR 0x0A # ''model_sha256='' @ sr_model_sha256 r
     @ CHR 0x0A # ''begin='' @ dec_int (sr_begin r) @ CHR 0x0A # ''end='' @ dec_int (sr_end r)
     @ CHR 0x0A # ''context='' @ dec_u32 (sr_context r)
     @ CHR 0x0A # ''sessions='' @ dec_u32 (sr_sessions r)
     @ (if sr_lease_ms r \<noteq> 0 then CHR 0x0A # ''lease_ms='' @ dec_u32 (sr_lease_ms r) else [])
     @ (if sr_draft_sha256 r \<noteq> [] then CHR 0x0A # ''draft_sha256='' @ sr_draft_sha256 r else [])
     @ (if sr_activations r = dt_f16le then CHR 0x0A # ''activations=f16'' else [])
     @ (if sr_activations r = dt_fp8e4m3 then CHR 0x0A # ''activations=fp8'' else [])"

definition stage_field :: "stage_request \<Rightarrow> string \<Rightarrow> string \<Rightarrow> stage_request option" where
  "stage_field r k v =
     (if k = ''route_id'' then Some (r\<lparr>sr_route_id := v\<rparr>)
      else if k = ''model_sha256'' then Some (r\<lparr>sr_model_sha256 := v\<rparr>)
      else if k = ''begin'' then map_option (\<lambda>n. r\<lparr>sr_begin := n\<rparr>) (from_chars_int v)
      else if k = ''end'' then map_option (\<lambda>n. r\<lparr>sr_end := n\<rparr>) (from_chars_int v)
      else if k = ''context'' then map_option (\<lambda>n. r\<lparr>sr_context := n\<rparr>) (from_chars_u32 v)
      else if k = ''sessions'' then map_option (\<lambda>n. r\<lparr>sr_sessions := n\<rparr>) (from_chars_u32 v)
      else if k = ''lease_ms'' then map_option (\<lambda>n. r\<lparr>sr_lease_ms := n\<rparr>) (from_chars_u32 v)
      else if k = ''draft_sha256'' then Some (r\<lparr>sr_draft_sha256 := v\<rparr>)
      else if k = ''activations'' \<and> (v = ''f16'' \<or> v = ''fp8'' \<or> v = ''f32'') then
        Some (r\<lparr>sr_activations := (if v = ''f16'' then dt_f16le
                 else if v = ''fp8'' then dt_fp8e4m3 else dt_f32le)\<rparr>)
      else None)"

definition request_ok :: "stage_request \<Rightarrow> bool" where
  "request_ok r \<longleftrightarrow> hex_string (sr_route_id r) 32 \<and> hex_string (sr_model_sha256 r) 64
     \<and> sr_begin r \<ge> 0 \<and> sr_end r > sr_begin r
     \<and> sr_context r \<noteq> 0 \<and> sr_sessions r \<noteq> 0 \<and> sr_lease_ms r \<le> max_lease_ms
     \<and> (sr_draft_sha256 r = [] \<or> hex_string (sr_draft_sha256 r) 64)"

definition parse_stage_request :: "string \<Rightarrow> stage_request option" where
  "parse_stage_request s =
     (case parse_lines stage_field s fresh_request of
        None \<Rightarrow> None | Some r \<Rightarrow> if request_ok r then Some r else None)"

text \<open>The fields the message prints, and the requests a client builds.\<close>

definition stage_fields :: "stage_request \<Rightarrow> (string \<times> string) list" where
  "stage_fields r =
     [(''route_id'', sr_route_id r), (''model_sha256'', sr_model_sha256 r),
      (''begin'', dec_int (sr_begin r)), (''end'', dec_int (sr_end r)),
      (''context'', dec_u32 (sr_context r)), (''sessions'', dec_u32 (sr_sessions r))]
     @ (if sr_lease_ms r \<noteq> 0 then [(''lease_ms'', dec_u32 (sr_lease_ms r))] else [])
     @ (if sr_draft_sha256 r \<noteq> [] then [(''draft_sha256'', sr_draft_sha256 r)] else [])
     @ (if sr_activations r = dt_f16le then [(''activations'', ''f16'')] else [])
     @ (if sr_activations r = dt_fp8e4m3 then [(''activations'', ''fp8'')] else [])"

definition good_request :: "stage_request \<Rightarrow> bool" where
  "good_request r \<longleftrightarrow> request_ok r \<and> sr_end r < 2 ^ 31 \<and> activation_dtype (sr_activations r)"

lemma stage_request_message_lines: "stage_request_message r = lines_text (stage_fields r)"
  by (simp add: stage_request_message_def stage_fields_def lines_text_def field_text_def)

lemma dec_u32_clean: "\<not> is_digit c \<Longrightarrow> c \<notin> set (dec_u32 w)"
  by (simp add: dec_u32_def dec_no_sep)

lemma stage_fields_clean:
  assumes "good_request r"
  shows "list_all clean_field (stage_fields r)"
  using assms
  by (auto simp: stage_fields_def clean_field_def good_request_def request_ok_def
      dec_int_no_sep dec_u32_clean hex_string_clean)

lemma stage_fields_rebuild:
  assumes "good_request r"
  shows "handle_all stage_field (stage_fields r) fresh_request = Some r"
proof -
  have "from_chars_int (dec_int (sr_begin r)) = Some (sr_begin r)"
    "from_chars_int (dec_int (sr_end r)) = Some (sr_end r)"
    using assms by (auto simp: good_request_def request_ok_def intro!: from_chars_int_dec)
  moreover have "sr_activations r \<in> {1, 2, 3}"
    using assms by (auto simp: good_request_def activation_dtype_def dtype_defs)
  ultimately show ?thesis
    by (cases r)
      (auto simp: stage_fields_def stage_field_def fresh_request_def from_chars_u32_dec dtype_defs)
qed

interpretation stage_codec: line_codec good_request stage_fields stage_field fresh_request request_ok
  by unfold_locales
    (simp_all add: stage_fields_clean stage_fields_rebuild good_request_def)

lemma stage_request_parses:
  "good_request r \<Longrightarrow> parse_stage_request (stage_request_message r) = Some r"
  using stage_codec.parse_print[of r]
  by (simp add: parse_stage_request_def stage_request_message_lines stage_codec.print_msg_def
      stage_codec.parse_msg_def)

section \<open>The worker's lease\<close>

datatype lease_state = Available | Reserved | Loading | Serving

record worker_lease =
  wl_state :: lease_state
  wl_request :: stage_request
  wl_deadline :: int

definition new_lease :: worker_lease where
  "new_lease = \<lparr>wl_state = Available, wl_request = fresh_request, wl_deadline = 0\<rparr>"

definition expire_locked :: "int \<Rightarrow> worker_lease \<Rightarrow> worker_lease" where
  "expire_locked now l =
     (if wl_state l = Reserved \<and> now \<ge> wl_deadline l
      then l\<lparr>wl_state := Available, wl_request := fresh_request\<rparr> else l)"

definition reserve :: "stage_request \<Rightarrow> int \<Rightarrow> worker_lease \<Rightarrow> bool \<times> worker_lease" where
  "reserve r now l0 =
     (let l = expire_locked now l0
      in if wl_state l \<noteq> Available \<or> sr_lease_ms r = 0 then (False, l)
         else (True, l\<lparr>wl_state := Reserved, wl_request := r,
                       wl_deadline := now + int (unat (sr_lease_ms r)) * 1000000\<rparr>))"

definition begin_loading :: "stage_request \<Rightarrow> int \<Rightarrow> worker_lease \<Rightarrow> bool \<times> worker_lease" where
  "begin_loading assignment now l0 =
     (let l = expire_locked now l0
      in if wl_state l \<noteq> Reserved \<or> \<not> same_stage (wl_request l) assignment then (False, l)
         else (True, l\<lparr>wl_state := Loading\<rparr>))"

definition serving :: "string \<Rightarrow> worker_lease \<Rightarrow> bool \<times> worker_lease" where
  "serving route l =
     (if wl_state l \<noteq> Loading \<or> sr_route_id (wl_request l) \<noteq> route then (False, l)
      else (True, l\<lparr>wl_state := Serving\<rparr>))"

definition release :: "string \<Rightarrow> worker_lease \<Rightarrow> bool \<times> worker_lease" where
  "release route l =
     (if wl_state l = Available \<or> sr_route_id (wl_request l) \<noteq> route then (False, l)
      else (True, l\<lparr>wl_state := Available, wl_request := fresh_request\<rparr>))"

definition state_at :: "int \<Rightarrow> worker_lease \<Rightarrow> lease_state \<times> worker_lease" where
  "state_at now l0 = (let l = expire_locked now l0 in (wl_state l, l))"

definition current :: "int \<Rightarrow> worker_lease \<Rightarrow> stage_request option \<times> worker_lease" where
  "current now l0 =
     (let l = expire_locked now l0
      in (if wl_state l = Available then None else Some (wl_request l), l))"

fun state_name :: "lease_state \<Rightarrow> string" where
  "state_name Available = ''available''"
| "state_name Reserved = ''reserved''"
| "state_name Loading = ''loading''"
| "state_name Serving = ''serving''"

section \<open>Calls and runs\<close>

datatype lease_event =
    Reserve stage_request int
  | Begin_loading stage_request int
  | Mark_serving string
  | Release string
  | Query int

fun lease_call :: "lease_event \<Rightarrow> worker_lease \<Rightarrow> bool \<times> worker_lease" where
  "lease_call (Reserve r now) l = reserve r now l"
| "lease_call (Begin_loading r now) l = begin_loading r now l"
| "lease_call (Mark_serving route) l = serving route l"
| "lease_call (Release route) l = release route l"
| "lease_call (Query now) l = (fst (current now l) \<noteq> None, snd (current now l))"

fun run_lease :: "lease_event list \<Rightarrow> worker_lease \<Rightarrow> bool list \<times> worker_lease" where
  "run_lease [] l = ([], l)"
| "run_lease (c # cs) l =
     (let (b, l') = lease_call c l; (bs, l'') = run_lease cs l' in (b # bs, l''))"

inductive lease_step :: "worker_lease \<Rightarrow> worker_lease \<Rightarrow> bool" where
  "lease_call c l = (b, l') \<Longrightarrow> lease_step l l'"

inductive_cases lease_stepE: "lease_step l l'"

fun call_time :: "lease_event \<Rightarrow> int option" where
  "call_time (Reserve _ now) = Some now"
| "call_time (Begin_loading _ now) = Some now"
| "call_time (Query now) = Some now"
| "call_time _ = None"

text \<open>A free lease holds no request; a held one holds a request with a lease time.\<close>

definition lease_inv :: "worker_lease \<Rightarrow> bool" where
  "lease_inv l \<longleftrightarrow> (wl_state l = Available \<longrightarrow> wl_request l = fresh_request)
     \<and> (wl_state l \<noteq> Available \<longrightarrow> sr_lease_ms (wl_request l) \<noteq> 0)"

lemmas lease_defs = reserve_def begin_loading_def serving_def release_def current_def
  expire_locked_def Let_def

lemma lease_call_inv [inv_intros]: "lease_inv l \<Longrightarrow> lease_call c l = (b, l') \<Longrightarrow> lease_inv l'"
  by (cases c) (auto simp: lease_defs lease_inv_def split: if_splits)

interpretation lease_sys: invariant_system "\<lambda>l. l = new_lease" lease_step lease_inv
proof unfold_locales
  show "lease_inv l" if "l = new_lease" for l
    using that by (simp add: new_lease_def lease_inv_def)
  show "lease_inv t" if "lease_inv l" "lease_step l t" for l t
    using that by (blast elim: lease_stepE intro: inv_intros)
qed

section \<open>The abstract lease\<close>

text \<open>What the comment at the top of the header promises, as a state machine of its own.\<close>

datatype abs_lease = Free | Held_until stage_request int | Loading_for stage_request | Serving_for stage_request

definition abs_of :: "worker_lease \<Rightarrow> abs_lease" where
  "abs_of l = (case wl_state l of
       Available \<Rightarrow> Free
     | Reserved \<Rightarrow> Held_until (wl_request l) (wl_deadline l)
     | Loading \<Rightarrow> Loading_for (wl_request l)
     | Serving \<Rightarrow> Serving_for (wl_request l))"

fun abs_expire :: "int \<Rightarrow> abs_lease \<Rightarrow> abs_lease" where
  "abs_expire now (Held_until r d) = (if d \<le> now then Free else Held_until r d)"
| "abs_expire now a = a"

fun abs_call :: "lease_event \<Rightarrow> abs_lease \<Rightarrow> bool \<times> abs_lease" where
  "abs_call (Reserve r now) a =
     (case abs_expire now a of
        Free \<Rightarrow> if sr_lease_ms r = 0 then (False, Free)
                else (True, Held_until r (now + int (unat (sr_lease_ms r)) * 1000000))
      | a' \<Rightarrow> (False, a'))"
| "abs_call (Begin_loading r now) a =
     (case abs_expire now a of
        Held_until r' d \<Rightarrow> if same_stage r' r then (True, Loading_for r') else (False, Held_until r' d)
      | a' \<Rightarrow> (False, a'))"
| "abs_call (Mark_serving route) a =
     (case a of
        Loading_for r \<Rightarrow> if sr_route_id r = route then (True, Serving_for r) else (False, a)
      | _ \<Rightarrow> (False, a))"
| "abs_call (Release route) a =
     (case a of
        Free \<Rightarrow> (False, Free)
      | Held_until r d \<Rightarrow> if sr_route_id r = route then (True, Free) else (False, a)
      | Loading_for r \<Rightarrow> if sr_route_id r = route then (True, Free) else (False, a)
      | Serving_for r \<Rightarrow> if sr_route_id r = route then (True, Free) else (False, a))"
| "abs_call (Query now) a = (abs_expire now a \<noteq> Free, abs_expire now a)"

fun abs_run :: "lease_event list \<Rightarrow> abs_lease \<Rightarrow> bool list \<times> abs_lease" where
  "abs_run [] a = ([], a)"
| "abs_run (c # cs) a =
     (let (b, a') = abs_call c a; (bs, a'') = abs_run cs a' in (b # bs, a''))"

lemma abs_expire_locked: "abs_of (expire_locked now l) = abs_expire now (abs_of l)"
  by (cases "wl_state l") (simp_all add: abs_of_def expire_locked_def)

lemma lease_call_abs: "lease_call c l = (b, l') \<Longrightarrow> abs_call c (abs_of l) = (b, abs_of l')"
proof (cases c)
  case (Reserve r now)
  assume "lease_call c l = (b, l')"
  with Reserve show ?thesis
    by (cases "wl_state l") (auto simp: lease_defs abs_of_def split: if_splits)
next
  case (Begin_loading r now)
  assume "lease_call c l = (b, l')"
  with Begin_loading show ?thesis
    by (cases "wl_state l") (auto simp: lease_defs abs_of_def split: if_splits)
next
  case (Query now)
  assume "lease_call c l = (b, l')"
  with Query show ?thesis
    by (cases "wl_state l") (auto simp: lease_defs abs_of_def split: if_splits)
qed (auto simp: lease_defs abs_of_def split: if_splits lease_state.splits)

lemma run_lease_abs: "abs_run cs (abs_of l) = (fst (run_lease cs l), abs_of (snd (run_lease cs l)))"
proof (induction cs arbitrary: l)
  case (Cons c cs)
  obtain b l' where c: "lease_call c l = (b, l')" by fastforce
  then show ?case using Cons.IH[of l'] lease_call_abs[OF c]
    by (simp add: split_beta)
qed simp

text \<open>A call keeps the holder of a held lease when it neither releases the holder's route nor
  reads the clock at or after the deadline of a reservation.\<close>

definition keeps_holder :: "worker_lease \<Rightarrow> lease_event \<Rightarrow> bool" where
  "keeps_holder l c \<longleftrightarrow> c \<noteq> Release (sr_route_id (wl_request l))
     \<and> (case call_time c of Some t \<Rightarrow> t < wl_deadline l | None \<Rightarrow> True)"

fun is_reserve :: "lease_event \<Rightarrow> bool" where
  "is_reserve (Reserve _ _) = True"
| "is_reserve _ = False"

lemma lease_call_keeps:
  assumes "wl_state l \<noteq> Available" "keeps_holder l c" "lease_call c l = (b, l')"
  shows "wl_state l' \<noteq> Available \<and> wl_request l' = wl_request l \<and> wl_deadline l' = wl_deadline l
    \<and> (is_reserve c \<longrightarrow> \<not> b)"
  using assms by (cases c) (auto simp: lease_defs keeps_holder_def split: if_splits)

lemma run_lease_keeps:
  "wl_state l \<noteq> Available \<Longrightarrow> list_all (keeps_holder l) cs \<Longrightarrow>
   wl_state (snd (run_lease cs l)) \<noteq> Available \<and> wl_request (snd (run_lease cs l)) = wl_request l
   \<and> list_all2 (\<lambda>c b. is_reserve c \<longrightarrow> \<not> b) cs (fst (run_lease cs l))"
proof (induction cs arbitrary: l)
  case (Cons c cs)
  obtain b l' where c: "lease_call c l = (b, l')" by fastforce
  have k: "wl_state l' \<noteq> Available" "wl_request l' = wl_request l" "wl_deadline l' = wl_deadline l"
    "is_reserve c \<longrightarrow> \<not> b"
    using lease_call_keeps[OF Cons.prems(1) _ c] Cons.prems(2) by auto
  then have "keeps_holder l' = keeps_holder l"
    by (simp add: keeps_holder_def fun_eq_iff split: option.split)
  with Cons.IH[of l'] Cons.prems k c show ?case
    by (simp add: split_beta)
qed simp

section \<open>Properties\<close>

text \<open>Every stage request a client builds (identifiers of the right form, a non-empty range
  of layers within an \<^verbatim>\<open>int\<close>, a known activation type) survives its message form: the worker
  parses exactly the request that was printed.\<close>

theorem stage_request_roundtrip:
  assumes "good_request r"
  shows "parse_stage_request (stage_request_message r) = Some r"
  using assms by (rule stage_request_parses)

definition sample_request :: stage_request where
  "sample_request = fresh_request\<lparr>sr_route_id := replicate 32 CHR ''a'',
     sr_model_sha256 := replicate 64 CHR ''0'', sr_begin := 0, sr_end := 12,
     sr_context := 4096, sr_sessions := 2, sr_lease_ms := 30000, sr_activations := dt_f16le\<rparr>"

theorem stage_request_roundtrip_witness:
  "good_request sample_request
   \<and> parse_stage_request (stage_request_message sample_request) = Some sample_request"
proof -
  have "good_request sample_request" by code_simp
  with stage_request_roundtrip[of sample_request] show ?thesis by blast
qed

lemma stage_field_dtype:
  "stage_field r k v = Some r' \<Longrightarrow> activation_dtype (sr_activations r) \<Longrightarrow>
   activation_dtype (sr_activations r')"
  by (auto simp: stage_field_def activation_dtype_def split: if_splits)

text \<open>Whatever text a worker accepts as a stage request names a 32-digit route and a 64-digit
  model digest, a non-empty layer range, a positive context and session count and a lease of at
  most a minute; and its activation type is one that the wire format knows.\<close>

theorem parse_stage_request_sound:
  assumes "parse_stage_request s = Some r"
  shows "request_ok r \<and> unat (sr_lease_ms r) \<le> 60000 \<and> activation_dtype (sr_activations r)"
proof -
  from assms have p: "parse_lines stage_field s fresh_request = Some r" and ok: "request_ok r"
    by (auto simp: parse_stage_request_def split: option.splits if_splits)
  have "activation_dtype (sr_activations r)"
    by (rule parse_lines_invariant[where I = "\<lambda>r. activation_dtype (sr_activations r)", OF _ _ p])
      (auto simp: fresh_request_def activation_dtype_def[of dt_f32le] intro: stage_field_dtype)
  moreover have "unat (sr_lease_ms r) \<le> 60000"
    using ok by (simp add: request_ok_def max_lease_ms_def word_le_nat_alt)
  ultimately show ?thesis using ok by simp
qed

theorem parse_stage_request_sound_witness:
  "parse_stage_request (stage_request_message sample_request) = Some sample_request
   \<and> request_ok sample_request"
proof -
  have p: "parse_stage_request (stage_request_message sample_request) = Some sample_request"
    by (rule stage_request_parses) code_simp
  with parse_stage_request_sound[OF p] show ?thesis by blast
qed

text \<open>C3. The lease serves one route at a time: once it is held, every run of calls that neither
  releases the holder's route nor reaches the reservation's deadline leaves it held for the same
  request, and every reservation in that run is refused.\<close>

theorem lease_exclusive:
  assumes "wl_state l \<noteq> Available" and "list_all (keeps_holder l) cs"
  shows "wl_state (snd (run_lease cs l)) \<noteq> Available
    \<and> wl_request (snd (run_lease cs l)) = wl_request l
    \<and> list_all2 (\<lambda>c b. is_reserve c \<longrightarrow> \<not> b) cs (fst (run_lease cs l))"
  using run_lease_keeps[OF assms] .

theorem lease_exclusive_witness:
  "wl_state (snd (reserve sample_request 0 new_lease)) \<noteq> Available
   \<and> wl_request (snd (run_lease [Reserve sample_request 5, Begin_loading sample_request 7]
        (snd (reserve sample_request 0 new_lease)))) = sample_request"
proof -
  have "wl_state (snd (reserve sample_request 0 new_lease)) \<noteq> Available"
    "list_all (keeps_holder (snd (reserve sample_request 0 new_lease)))
       [Reserve sample_request 5, Begin_loading sample_request 7]"
    "wl_request (snd (reserve sample_request 0 new_lease)) = sample_request"
    by code_simp+
  with lease_exclusive[of "snd (reserve sample_request 0 new_lease)"
      "[Reserve sample_request 5, Begin_loading sample_request 7]"] show ?thesis by simp
qed

text \<open>C4. The lease implements the abstract machine of its header: every run of calls returns the
  same answers as the abstract lease and ends in the state that represents it.\<close>

theorem lease_refines_abs:
  "abs_run cs (abs_of new_lease)
   = (fst (run_lease cs new_lease), abs_of (snd (run_lease cs new_lease)))"
  by (rule run_lease_abs)

text \<open>In every reachable state a free lease holds no request and a held one holds a request
  with a positive lease time.\<close>

theorem lease_reachable_inv:
  assumes "lease_step\<^sup>*\<^sup>* new_lease l"
  shows "lease_inv l"
  using lease_sys.reachable_inv[OF refl assms] .

theorem lease_reachable_inv_witness:
  "lease_inv (snd (reserve sample_request 0 new_lease))"
proof -
  have "lease_step new_lease (snd (lease_call (Reserve sample_request 0) new_lease))"
    by (rule lease_step.intros[of "Reserve sample_request 0"]) (rule prod.collapse[symmetric])
  then show ?thesis
    using lease_reachable_inv[of "snd (reserve sample_request 0 new_lease)"] by (simp add: r_into_rtranclp)
qed

end
