(* ===== verification/Planner.thy ===== *)
theory Planner
  imports Gguf_Index Floats "HOL-Library.Product_Lexorder" "HOL-Library.Multiset"
    "HOL-Library.Code_Target_Nat"
begin

text \<open>
  Stage placement (\<^verbatim>\<open>engine/planner.cpp\<close>): which models can run as stages, the bytes a
  stage needs, whether a stage fits a worker, and the two planners. \<^verbatim>\<open>long double\<close>
  arithmetic is rounding to \<open>prec\<close> significant bits (64 on x86-64 Linux, 53 where it is a
  \<^verbatim>\<open>double\<close>), the argument \<open>prec\<close> of the planner.
\<close>

section \<open>Which models can run as stages\<close>

definition has_tensor :: "model_index \<Rightarrow> string \<Rightarrow> bool" where
  "has_tensor m name \<longleftrightarrow> list_ex (\<lambda>t. mt_name t = name) (mi_tensors m)"

definition find_tensor :: "model_index \<Rightarrow> string \<Rightarrow> model_tensor option" where
  "find_tensor m name = find (\<lambda>t. mt_name t = name) (mi_tensors m)"

definition valid_attention :: "model_index \<Rightarrow> bool" where
  "valid_attention m \<longleftrightarrow> mi_layers m \<ge> 2 \<and> mi_hidden m \<noteq> 0 \<and> mi_heads m \<noteq> 0 \<and> mi_kv_heads m \<noteq> 0
     \<and> mi_hidden m mod mi_heads m = 0 \<and> mi_heads m mod mi_kv_heads m = 0"

definition head_width_k :: "model_index \<Rightarrow> u32" where
  "head_width_k m =
     (if mi_head_dim_k m \<noteq> 0 then mi_head_dim_k m
      else if mi_heads m = 0 \<or> mi_hidden m mod mi_heads m \<noteq> 0 then 0
      else mi_hidden m div mi_heads m)"

definition head_width_v :: "model_index \<Rightarrow> u32" where
  "head_width_v m =
     (if mi_head_dim_v m \<noteq> 0 then mi_head_dim_v m
      else if mi_heads m = 0 \<or> mi_hidden m mod mi_heads m \<noteq> 0 then 0
      else mi_hidden m div mi_heads m)"

text \<open>The first problem a check finds is its result; no problem is \<^const>\<open>None\<close>.\<close>

fun first_problem :: "string option list \<Rightarrow> string option" where
  "first_problem [] = None"
| "first_problem (None # ps) = first_problem ps"
| "first_problem (Some e # ps) = Some e"

definition check_that :: "bool \<Rightarrow> string \<Rightarrow> string option" where
  "check_that ok message = (if ok then None else Some message)"

definition layer_prefix :: "nat \<Rightarrow> string" where
  "layer_prefix layer = ''blk.'' @ dec layer @ ''.''"

definition model_layers :: "model_index \<Rightarrow> nat list" where
  "model_layers m = [0..<unat (mi_layers m)]"

definition compatible_qwen2 :: "model_index \<Rightarrow> string option" where
  "compatible_qwen2 m = first_problem (
     [check_that (valid_attention m) ''invalid Qwen2 layer or attention metadata'',
      check_that (mi_experts m = 0 \<and> mi_experts_used m = 0) ''Qwen2 model declares experts'',
      check_that (has_tensor m ''token_embd.weight'' \<and> has_tensor m ''output_norm.weight'')
        ''missing embedding or output normalization tensor'']
     @ map (\<lambda>layer. check_that
         (list_ex (\<lambda>t. starts_with (mt_name t) (layer_prefix layer)) (mi_tensors m))
         (''missing tensors for transformer layer '' @ dec layer)) (model_layers m))"

definition layer_suffixes :: "string list" where
  "layer_suffixes = [''attn_norm.weight'', ''attn_q.weight'', ''attn_k.weight'',
     ''attn_v.weight'', ''attn_output.weight'', ''attn_q_norm.weight'', ''attn_k_norm.weight'',
     ''ffn_norm.weight'']"

definition missing_suffixes :: "model_index \<Rightarrow> nat \<Rightarrow> string option list" where
  "missing_suffixes m layer = map (\<lambda>suffix. check_that
     (has_tensor m (layer_prefix layer @ suffix))
     (''layer '' @ dec layer @ '' is missing '' @ suffix)) layer_suffixes"

text \<open>The shapes of the router and of the packed expert banks; a third axis of 0 is absent.\<close>

definition expert_shapes :: "u64 \<Rightarrow> u64 \<Rightarrow> u64 \<Rightarrow> (string \<times> u64 list) list" where
  "expert_shapes hidden ffn experts =
     [(''ffn_gate_inp.weight'', [hidden, experts, 0]),
      (''ffn_gate_exps.weight'', [hidden, ffn, experts]),
      (''ffn_up_exps.weight'', [hidden, ffn, experts]),
      (''ffn_down_exps.weight'', [ffn, hidden, experts])]"

definition check_shape :: "model_index \<Rightarrow> nat \<Rightarrow> string \<times> u64 list \<Rightarrow> string option" where
  "check_shape m layer expected =
     (case expected of (suffix, shape) \<Rightarrow>
       (case find_tensor m (layer_prefix layer @ suffix) of
          None \<Rightarrow> Some (''layer '' @ dec layer @ '' is missing '' @ suffix)
        | Some t \<Rightarrow>
            let wanted = (if shape ! 2 = 0 then 2 else 3 :: nat) in
            if length (mt_dimensions t) \<noteq> wanted then
              Some (suffix @ '' of layer '' @ dec layer @ '' has the wrong number of dimensions'')
            else if take wanted (mt_dimensions t) \<noteq> take wanted shape then
              Some (suffix @ '' of layer '' @ dec layer
                @ '' does not match the model's expert geometry'')
            else None))"

definition compatible_olmoe :: "model_index \<Rightarrow> string option" where
  "compatible_olmoe m = first_problem (
     [check_that (valid_attention m) ''invalid OLMoE layer or attention metadata'',
      check_that (mi_experts m \<ge> 2) ''OLMoE expert_count must be at least 2'',
      check_that (mi_experts_used m \<noteq> 0) ''OLMoE expert_used_count must be at least 1'',
      check_that (mi_experts_used m \<le> mi_experts m) ''OLMoE routes to more experts than it has'',
      check_that (mi_ffn_length m \<noteq> 0) ''OLMoE feed_forward_length is missing'']
     @ map (\<lambda>name. check_that (has_tensor m name)
         (''missing '' @ name @ '' (OLMoE has no tied output head)''))
         [''token_embd.weight'', ''output_norm.weight'', ''output.weight'']
     @ concat (map (\<lambda>layer. missing_suffixes m layer
         @ map (check_shape m layer)
             (expert_shapes (ucast (mi_hidden m)) (ucast (mi_ffn_length m)) (ucast (mi_experts m))))
         (model_layers m)))"

definition qwen3_expert_ffn :: "model_index \<Rightarrow> u64" where
  "qwen3_expert_ffn m =
     (if mi_expert_ffn_length m \<noteq> 0 then ucast (mi_expert_ffn_length m)
      else if mi_experts_used m \<noteq> 0 then ucast (mi_ffn_length m div mi_experts_used m) else 0)"

definition check_norm :: "model_index \<Rightarrow> nat \<Rightarrow> string \<Rightarrow> string option" where
  "check_norm m layer suffix =
     (case find_tensor m (layer_prefix layer @ suffix) of
        None \<Rightarrow> None
      | Some t \<Rightarrow>
          if length (mt_dimensions t) = 1 \<and> mt_dimensions t ! 0 \<noteq> ucast (head_width_k m) then
            Some (suffix @ '' of layer '' @ dec layer
              @ '' does not match the declared attention head width'')
          else None)"

definition compatible_qwen3moe :: "model_index \<Rightarrow> string option" where
  "compatible_qwen3moe m = first_problem (
     [check_that (valid_attention m) ''invalid Qwen3-MoE layer or attention metadata'',
      check_that (head_width_k m \<noteq> 0 \<and> head_width_k m = head_width_v m)
        ''Qwen3-MoE needs equal, non-zero key and value head widths'',
      check_that (mi_experts m \<ge> 2) ''Qwen3-MoE expert_count must be at least 2'',
      check_that (mi_experts_used m \<noteq> 0) ''Qwen3-MoE expert_used_count must be at least 1'',
      check_that (mi_experts_used m \<le> mi_experts m)
        ''Qwen3-MoE routes to more experts than it has'',
      check_that (qwen3_expert_ffn m \<noteq> 0) ''Qwen3-MoE per-expert width is missing'',
      check_that (has_tensor m ''token_embd.weight'' \<and> has_tensor m ''output_norm.weight'')
        ''missing embedding or output normalization tensor'']
     @ concat (map (\<lambda>layer. missing_suffixes m layer
         @ map (check_norm m layer) [''attn_q_norm.weight'', ''attn_k_norm.weight'']
         @ map (check_shape m layer)
             (expert_shapes (ucast (mi_hidden m)) (qwen3_expert_ffn m) (ucast (mi_experts m))))
         (model_layers m)))"

definition compatible_stage_model :: "model_index \<Rightarrow> string option" where
  "compatible_stage_model m =
     (if mi_architecture m = ''qwen2'' then compatible_qwen2 m
      else if mi_architecture m = ''olmoe'' then compatible_olmoe m
      else if mi_architecture m = ''qwen3moe'' then compatible_qwen3moe m
      else Some (''architecture ''
        @ (if mi_architecture m = [] then ''(none)'' else mi_architecture m)
        @ '' is not supported for staged execution''))"

section \<open>The bytes a stage needs\<close>

definition round_up_256 :: "u64 \<Rightarrow> u64" where
  "round_up_256 n = (n + 256 - 1) div 256 * 256"

definition allocated_positions :: "u32 \<Rightarrow> u32 \<Rightarrow> u32" where
  "allocated_positions ctx sessions =
     (if ctx = 0 \<or> sessions = 0 then 0
      else
        let total = round_up_256 (ucast ctx * ucast sessions);
            per_session = round_up_256 (total div ucast sessions)
        in if per_session > ucast (- 1 :: u32) then 0 else ucast per_session)"

primrec checked_product :: "u64 \<Rightarrow> u64 list \<Rightarrow> u64" where
  "checked_product v [] = v"
| "checked_product v (factor # fs) =
     (if factor = 0 \<or> v > (- 1) div factor then 0 else checked_product (v * factor) fs)"

definition kv_bytes :: "model_index \<Rightarrow> int \<Rightarrow> int \<Rightarrow> u32 \<Rightarrow> u32 \<Rightarrow> u64" where
  "kv_bytes m b e ctx sessions =
     (if mi_heads m = 0 \<or> e \<le> b then 0
      else
        let width = ucast (head_width_k m) + ucast (head_width_v m) :: u64;
            positions = allocated_positions ctx sessions
        in if width = 0 \<or> positions = 0 then 0
           else checked_product (ucast positions)
             [ucast sessions, word_of_int (e - b), ucast (mi_kv_heads m), width, 2])"

definition decode_bytes :: "model_index \<Rightarrow> int \<Rightarrow> int \<Rightarrow> u64" where
  "decode_bytes m b e =
     (let bytes = stage_model_bytes m b e
      in if b = 0 then
           fold (\<lambda>t bytes. if mt_name t = ''token_embd.weight'' \<and> mt_bytes t < bytes
                           then bytes - mt_bytes t else bytes) (mi_tensors m) bytes
         else bytes)"

abbreviation mib :: u64 where
  "mib \<equiv> 1048576"

definition kept_back :: "u64 \<Rightarrow> u64" where
  "kept_back offered = max (1024 * mib) (offered * 15 div 100)"

definition usable_bytes :: "u64 \<Rightarrow> u64" where
  "usable_bytes offered_mib =
     (if offered_mib > (- 1) div mib then 0
      else
        let offered = offered_mib * mib; kept = kept_back offered
        in if offered > kept then offered - kept else 0)"

record stage_assignment =
  sa_provider :: nat
  sa_begin :: int
  sa_end :: int
  sa_model_bytes :: u64
  sa_kv_bytes :: u64

text \<open>\<^verbatim>\<open>stage_fits\<close>: the assignment it fills in when it returns true; the callers do not read
  the one it fills in otherwise.\<close>

definition stage_fits ::
    "model_index \<Rightarrow> u64 \<Rightarrow> int \<Rightarrow> int \<Rightarrow> u32 \<Rightarrow> u32 \<Rightarrow> stage_assignment option" where
  "stage_fits m offered_mib b e ctx sessions =
     (if offered_mib > (- 1) div mib then None
      else
        let offered = offered_mib * mib;
            kept = kept_back offered;
            mb = stage_model_bytes m b e;
            kv = kv_bytes m b e ctx sessions
        in if mb \<noteq> 0 \<and> kv \<noteq> 0 \<and> offered > kept \<and> mb \<le> offered - kept
             \<and> kv \<le> offered - kept - mb
           then Some \<lparr>sa_provider = 0, sa_begin = b, sa_end = e, sa_model_bytes = mb,
                       sa_kv_bytes = kv\<rparr>
           else None)"

definition stage_with_draft_fits ::
    "model_index \<Rightarrow> model_index \<Rightarrow> u64 \<Rightarrow> int \<Rightarrow> u32 \<Rightarrow> u32 \<Rightarrow> bool" where
  "stage_with_draft_fits m draft offered_mib e ctx sessions =
     (case stage_fits m offered_mib 0 e ctx sessions of
        None \<Rightarrow> False
      | Some main \<Rightarrow>
          let draft_layers = sint (mi_layers draft);
              draft_weights = stage_model_bytes draft 0 draft_layers;
              draft_kv = kv_bytes draft 0 draft_layers ctx sessions
          in if draft_weights = 0 \<or> draft_kv = 0 \<or> draft_weights > - 1 - draft_kv then False
             else
               let draft_bytes = draft_weights + draft_kv;
                   offered = offered_mib * mib;
                   usable = offered - kept_back offered;
                   used = sa_model_bytes main + sa_kv_bytes main
               in draft_bytes \<le> usable - used)"

section \<open>Searching\<close>

text \<open>The first candidate of a list for which a search succeeds.\<close>

fun first_some :: "('a \<Rightarrow> 'b option) \<Rightarrow> 'a list \<Rightarrow> 'b option" where
  "first_some f [] = None"
| "first_some f (x # xs) = (case f x of None \<Rightarrow> first_some f xs | Some y \<Rightarrow> Some y)"

lemma first_some_cong [fundef_cong]:
  "xs = ys \<Longrightarrow> (\<And>x. x \<in> set ys \<Longrightarrow> f x = g x) \<Longrightarrow> first_some f xs = first_some g ys"
  by (induction ys arbitrary: xs) (auto split: option.split)

lemma first_some_SomeD: "first_some f xs = Some y \<Longrightarrow> \<exists>x \<in> set xs. f x = Some y"
  by (induction xs) (auto split: option.splits)

lemma first_some_None: "first_some f xs = None \<longleftrightarrow> (\<forall>x \<in> set xs. f x = None)"
  by (induction xs) (auto split: option.splits)

subsection \<open>Plans from cached ranges\<close>

text \<open>
  The recursion \<^verbatim>\<open>extend\<close>: \<open>stages\<close> are the stages chosen so far and \<open>used\<close>
  their workers. The candidates are tried from the longest range down.
\<close>

definition cache_options ::
    "(int \<times> int) list list \<Rightarrow> nat option \<Rightarrow> int \<Rightarrow> nat list \<Rightarrow> int \<Rightarrow> (int \<times> nat) list" where
  "cache_options cached head layers used b =
     rev (sort (concat (map (\<lambda>i.
       if i \<in> set used \<or> (case head of None \<Rightarrow> False | Some h \<Rightarrow> b = 0 \<and> i \<noteq> h) then []
       else map (\<lambda>(_, range_end). (range_end, i))
         (filter (\<lambda>(range_begin, range_end). range_begin = b \<and> range_end > b \<and> range_end \<le> layers)
           (cached ! i))) [0..<length cached])))"

lemma cache_options_set:
  "(e, i) \<in> set (cache_options cached head layers used b) \<longleftrightarrow>
     i < length cached \<and> i \<notin> set used \<and> (\<forall>h. head = Some h \<longrightarrow> b = 0 \<longrightarrow> i = h)
     \<and> (b, e) \<in> set (cached ! i) \<and> b < e \<and> e \<le> layers"
  by (auto simp: cache_options_def split: option.splits)

function extend ::
    "model_index \<Rightarrow> u64 list \<Rightarrow> (int \<times> int) list list \<Rightarrow> u32 \<Rightarrow> u32 \<Rightarrow> nat \<Rightarrow> nat \<Rightarrow> nat option
     \<Rightarrow> stage_assignment list \<Rightarrow> int \<Rightarrow> stage_assignment list option" where
  "extend m offered cached ctx sessions minimum_stages stage_limit head stages b =
     (let layers = sint (mi_layers m) in
      if b = layers then (if length stages \<ge> minimum_stages then Some stages else None)
      else if length stages \<ge> stage_limit then None
      else first_some (\<lambda>(e, i).
          case stage_fits m (offered ! i) b e ctx sessions of
            None \<Rightarrow> None
          | Some a \<Rightarrow> extend m offered cached ctx sessions minimum_stages stage_limit head
              (stages @ [a\<lparr>sa_provider := i\<rparr>]) e)
        (cache_options cached head layers (map sa_provider stages) b))"
  by pat_completeness auto
termination
  by (relation "measure (\<lambda>(m, _, _, _, _, _, _, _, _, b). nat (sint (mi_layers m) - b))")
    (auto simp: cache_options_set)

declare extend.simps [simp del]

definition plan_from_cache ::
    "model_index \<Rightarrow> u64 list \<Rightarrow> (int \<times> int) list list \<Rightarrow> u32 \<Rightarrow> u32 \<Rightarrow> nat \<Rightarrow> nat \<Rightarrow> nat option
     \<Rightarrow> stage_assignment list option" where
  "plan_from_cache m offered cached ctx sessions minimum_stages stage_limit head =
     (if length offered \<noteq> length cached \<or> minimum_stages = 0 \<or> stage_limit = 0 \<or> ctx = 0
        \<or> sessions = 0 \<or> compatible_stage_model m \<noteq> None
        \<or> (case head of None \<Rightarrow> False | Some h \<Rightarrow> h \<ge> length offered)
      then None
      else extend m offered cached ctx sessions minimum_stages stage_limit head [] 0)"

subsection \<open>Plans that split the layers\<close>

text \<open>
  The cut a slot tries first: the worker's share of the remaining layers by offered memory. When
  every remaining worker offers nothing the code divides zero by zero; the value does not matter
  then, because no stage fits such a worker, and here it is \<open>0 / 0 = 0\<close>.
\<close>

definition remaining_capacity :: "nat \<Rightarrow> u64 list \<Rightarrow> nat list \<Rightarrow> rat" where
  "remaining_capacity prec offered order =
     foldl (\<lambda>acc p. fl prec (acc + fl prec (of_int (uint (offered ! p))))) 0 order"

definition clamp :: "int \<Rightarrow> int \<Rightarrow> int \<Rightarrow> int" where
  "clamp v lo hi = (if v < lo then lo else if hi < v then hi else v)"

definition last_cut :: "model_index \<Rightarrow> nat \<Rightarrow> int" where
  "last_cut m after = sint (ucast (ucast (mi_layers m) - word_of_nat after :: u64) :: u32)"

definition wanted_cut :: "nat \<Rightarrow> model_index \<Rightarrow> u64 list \<Rightarrow> nat list \<Rightarrow> int \<Rightarrow> int" where
  "wanted_cut prec m offered order b =
     (let product = ucast (mi_layers m - word_of_int b) * offered ! hd order :: u64;
          share = fl prec (fl prec (fl prec (of_int (uint product)) / remaining_capacity prec offered order) + 1 / 2)
      in clamp (b + trunc share) (b + 1) (last_cut m (length order - 1)))"

text \<open>The recursion \<^verbatim>\<open>split\<close> over the slots of the chosen order that are left.\<close>

fun split_layers ::
    "nat \<Rightarrow> model_index \<Rightarrow> u64 list \<Rightarrow> u32 \<Rightarrow> u32 \<Rightarrow> nat list \<Rightarrow> int \<Rightarrow> stage_assignment list option" where
  "split_layers prec m offered ctx sessions [] b = None"
| "split_layers prec m offered ctx sessions [p] b =
     map_option (\<lambda>a. [a\<lparr>sa_provider := p\<rparr>])
       (stage_fits m (offered ! p) b (sint (mi_layers m)) ctx sessions)"
| "split_layers prec m offered ctx sessions (p # q # ps) b =
     (let wanted = wanted_cut prec m offered (p # q # ps) b
      in first_some (\<lambda>e.
           case stage_fits m (offered ! p) b e ctx sessions of
             None \<Rightarrow> None
           | Some a \<Rightarrow> map_option (\<lambda>rest. a\<lparr>sa_provider := p\<rparr> # rest)
               (split_layers prec m offered ctx sessions (q # ps) e))
         (sort_key (\<lambda>e. \<bar>e - wanted\<bar>) [b + 1..last_cut m (length (q # ps))]))"

text \<open>
  The recursion \<^verbatim>\<open>choose\<close>: \<open>left\<close> workers are still to be appended to the order, each
  a worker not yet used, and the first of the order is the head when one is given.
\<close>

primrec choose_order ::
    "nat \<Rightarrow> nat \<Rightarrow> model_index \<Rightarrow> u64 list \<Rightarrow> u32 \<Rightarrow> u32 \<Rightarrow> nat option \<Rightarrow> nat list
     \<Rightarrow> stage_assignment list option" where
  "choose_order 0 prec m offered ctx sessions head order = split_layers prec m offered ctx sessions order 0"
| "choose_order (Suc left) prec m offered ctx sessions head order =
     first_some (\<lambda>i.
       if i \<in> set order \<or> (case head of None \<Rightarrow> False | Some h \<Rightarrow> order = [] \<and> i \<noteq> h) then None
       else choose_order left prec m offered ctx sessions head (order @ [i])) [0..<length offered]"

definition count_is_hopeless :: "model_index \<Rightarrow> u64 list \<Rightarrow> u32 \<Rightarrow> u32 \<Rightarrow> nat \<Rightarrow> bool" where
  "count_is_hopeless m offered ctx sessions stage_count =
     (let whole_model = stage_model_bytes m 0 (sint (mi_layers m));
          whole_kv = kv_bytes m 0 (sint (mi_layers m)) ctx sessions;
          usable = rev (sort (map usable_bytes offered))
      in if whole_model = 0 \<or> whole_kv = 0 then False
         else
           (case checked_sum 0 (take stage_count usable) of
              None \<Rightarrow> False
            | Some capacity \<Rightarrow>
                let headers = mi_header_bytes m * word_of_nat (stage_count - 1)
                in if whole_model > - 1 - whole_kv \<or> whole_model + whole_kv > - 1 - headers then False
                   else capacity < whole_model + whole_kv + headers))"

definition plan_stages ::
    "nat \<Rightarrow> model_index \<Rightarrow> u64 list \<Rightarrow> u32 \<Rightarrow> u32 \<Rightarrow> nat \<Rightarrow> nat option \<Rightarrow> stage_assignment list option" where
  "plan_stages prec m offered ctx sessions minimum_stages head =
     (if compatible_stage_model m \<noteq> None \<or> offered = [] \<or> length offered > 8 \<or> ctx = 0
        \<or> sessions = 0 \<or> minimum_stages = 0 \<or> minimum_stages > length offered
        \<or> (case head of None \<Rightarrow> False | Some h \<Rightarrow> h \<ge> length offered)
      then None
      else first_some (\<lambda>stage_count.
          if count_is_hopeless m offered ctx sessions stage_count then None
          else choose_order stage_count prec m offered ctx sessions head [])
        [minimum_stages..<Suc (min (length offered) (unat (mi_layers m)))])"

section \<open>Lemmas\<close>

subsection \<open>Exact sizes\<close>

lemma checked_product_nonzero:
  "checked_product v fs \<noteq> 0 \<Longrightarrow> unat (checked_product v fs) = unat v * prod_list (map unat fs)"
proof (induction fs arbitrary: v)
  case (Cons f fs)
  then have ok: "f \<noteq> 0" "\<not> v > (- 1) div f" and nz: "checked_product (v * f) fs \<noteq> 0"
    by (auto split: if_splits)
  have "unat v \<le> u64_max div unat f"
    using ok(2) by (simp add: not_less word_le_nat_alt unat_div)
  then have "unat v * unat f \<le> u64_max"
    using ok(1) by (simp add: less_eq_div_iff_mult_less_eq unat_gt_0)
  then have "unat (v * f) = unat v * unat f" by (rule unat_mult_u64)
  with Cons.IH[OF nz] ok show ?case by (simp add: mult.assoc)
qed simp

definition kv_unit :: "model_index \<Rightarrow> u32 \<Rightarrow> u32 \<Rightarrow> nat" where
  "kv_unit m ctx sessions = unat (allocated_positions ctx sessions) * unat sessions
     * unat (mi_kv_heads m) * (unat (head_width_k m) + unat (head_width_v m)) * 2"

lemma head_widths_sum:
  "unat (ucast (head_width_k m) + ucast (head_width_v m) :: u64)
     = unat (head_width_k m) + unat (head_width_v m)"
proof -
  have "unat (ucast (head_width_k m) :: u64) \<le> u64_max - unat (ucast (head_width_v m) :: u64)"
    using unat_u32_le[of "head_width_k m"] unat_u32_le[of "head_width_v m"]
    by (simp only: unat_ucast_u32_u64)
  then show ?thesis by (subst unat_add_u64) simp_all
qed

lemma kv_bytes_nonzero:
  assumes "kv_bytes m b e ctx sessions \<noteq> 0" and "e - b < 2 ^ 64"
  shows "b < e \<and> unat (kv_bytes m b e ctx sessions) = nat (e - b) * kv_unit m ctx sessions"
proof -
  from assms(1) have be: "b < e" by (auto simp: kv_bytes_def split: if_splits)
  have w: "unat (word_of_int (e - b) :: u64) = nat (e - b)"
  proof -
    have "uint (word_of_int (e - b) :: u64) = e - b"
      using be assms(2) by (simp del: of_int_diff add: uint_word_of_int)
    then show ?thesis by (simp only: unat_eq_nat_uint)
  qed
  have kv: "kv_bytes m b e ctx sessions = checked_product (ucast (allocated_positions ctx sessions))
      [ucast sessions, word_of_int (e - b), ucast (mi_kv_heads m),
       ucast (head_width_k m) + ucast (head_width_v m), 2]"
    using assms(1) by (auto simp: kv_bytes_def Let_def simp del: checked_product.simps of_int_diff split: if_splits)
  then have "unat (kv_bytes m b e ctx sessions) = unat (allocated_positions ctx sessions)
      * (unat sessions * (nat (e - b) * (unat (mi_kv_heads m)
          * ((unat (head_width_k m) + unat (head_width_v m)) * 2))))"
    using checked_product_nonzero[of "ucast (allocated_positions ctx sessions)"] assms(1) w
    by (simp add: head_widths_sum del: checked_product.simps of_int_diff)
  with be show ?thesis by (simp add: kv_unit_def)
qed

lemma stage_fits_SomeD:
  assumes "stage_fits m offered_mib b e ctx sessions = Some a"
  shows "sa_provider a = 0 \<and> sa_begin a = b \<and> sa_end a = e
    \<and> sa_model_bytes a = stage_model_bytes m b e \<and> sa_kv_bytes a = kv_bytes m b e ctx sessions
    \<and> stage_model_bytes m b e \<noteq> 0 \<and> kv_bytes m b e ctx sessions \<noteq> 0
    \<and> 0 \<le> b \<and> b < e \<and> e \<le> sint (mi_layers m)
    \<and> unat (sa_model_bytes a) + unat (sa_kv_bytes a) \<le> unat (usable_bytes offered_mib)"
proof -
  let ?o = "offered_mib * mib"
  from assms have a: "\<not> offered_mib > (- 1) div mib" "stage_model_bytes m b e \<noteq> 0"
      "kv_bytes m b e ctx sessions \<noteq> 0" "?o > kept_back ?o"
      "stage_model_bytes m b e \<le> ?o - kept_back ?o"
      "kv_bytes m b e ctx sessions \<le> ?o - kept_back ?o - stage_model_bytes m b e"
      "a = \<lparr>sa_provider = 0, sa_begin = b, sa_end = e, sa_model_bytes = stage_model_bytes m b e,
            sa_kv_bytes = kv_bytes m b e ctx sessions\<rparr>"
    by (auto simp: stage_fits_def Let_def split: if_splits)
  have "unat (stage_model_bytes m b e) + unat (kv_bytes m b e ctx sessions) \<le> unat (?o - kept_back ?o)"
    using a(5,6) unat_diff_u64[OF a(5)] by (simp add: word_le_nat_alt)
  moreover have "usable_bytes offered_mib = ?o - kept_back ?o"
    using a(1,4) by (simp add: usable_bytes_def Let_def)
  ultimately show ?thesis using a stage_model_bytes_nonzero[OF a(2)] by simp
qed

subsection \<open>Tilings\<close>

text \<open>The stages of a plan cover the layers from \<open>b\<close> to \<open>e\<close> without gap or overlap.\<close>

fun tiles :: "int \<Rightarrow> int \<Rightarrow> stage_assignment list \<Rightarrow> bool" where
  "tiles b e [] \<longleftrightarrow> b = e"
| "tiles b e (s # ss) \<longleftrightarrow> sa_begin s = b \<and> b < sa_end s \<and> tiles (sa_end s) e ss"

lemma tiles_le: "tiles b e ss \<Longrightarrow> b + int (length ss) \<le> e"
  by (induction ss arbitrary: b) fastforce+

lemma tiles_length: "tiles b e ss \<Longrightarrow> (\<Sum>s \<leftarrow> ss. nat (sa_end s - sa_begin s)) = nat (e - b)"
proof (induction ss arbitrary: b)
  case (Cons s ss)
  with tiles_le[of "sa_end s" e ss] show ?case by auto
qed simp

lemma tiles_cover: "tiles b e ss \<Longrightarrow> b \<le> x \<Longrightarrow> x < e \<Longrightarrow> \<exists>s \<in> set ss. sa_begin s \<le> x \<and> x < sa_end s"
proof (induction ss arbitrary: b)
  case (Cons s ss)
  then show ?case by (cases "x < sa_end s") auto
qed simp

lemma tiles_last: "tiles b e ss \<Longrightarrow> ss \<noteq> [] \<Longrightarrow> \<exists>s \<in> set ss. sa_end s = e"
proof (induction ss arbitrary: b)
  case (Cons s ss)
  then show ?case by (cases ss) auto
qed simp

lemma tiles_append: "tiles b e (xs @ ys) \<longleftrightarrow> (\<exists>c. tiles b c xs \<and> tiles c e ys)"
  by (induction xs arbitrary: b) auto

lemma tiles_owned:
  assumes "tiles 0 layers ss" and "ss \<noteq> []" and "owned_tensor name 0 layers layers out"
  shows "\<exists>s \<in> set ss. owned_tensor name (sa_begin s) (sa_end s) layers out"
proof -
  obtain s0 where s0: "s0 \<in> set ss" "sa_begin s0 = 0" using assms(1,2) by (cases ss) auto
  obtain sl where sl: "sl \<in> set ss" "sa_end sl = layers" using tiles_last[OF assms(1,2)] by blast
  show ?thesis
  proof (cases "block_layer name")
    case (Some x)
    with assms(3) have "0 \<le> x" "x < layers" by (auto simp: owned_tensor_def)
    then obtain s where "s \<in> set ss" "sa_begin s \<le> x" "x < sa_end s"
      using tiles_cover[OF assms(1)] by blast
    with Some show ?thesis by (auto simp: owned_tensor_def)
  next
    case None
    with s0 sl assms(3) show ?thesis
      by (cases "name = ''token_embd.weight''") (auto simp: owned_tensor_def split: if_splits)
  qed
qed

text \<open>Summed over the stages of a tiling, every tensor of the model is paid for at least once.\<close>

lemma stage_bytes_cover:
  assumes "tiles 0 (sint (mi_layers m)) ss" and "ss \<noteq> []"
  shows "(\<Sum>x \<leftarrow> owned_bytes m 0 (sint (mi_layers m)). unat x)
     \<le> (\<Sum>s \<leftarrow> ss. \<Sum>x \<leftarrow> owned_bytes m (sa_begin s) (sa_end s). unat x)"
proof -
  let ?own = "\<lambda>t b e. owned_tensor (mt_name t) b e (sint (mi_layers m)) (output_present m)"
  let ?c = "\<lambda>b e t. if ?own t b e then unat (mt_bytes t) else 0"
  have one: "?c 0 (sint (mi_layers m)) t \<le> (\<Sum>s \<leftarrow> ss. ?c (sa_begin s) (sa_end s) t)" for t
  proof (cases "?own t 0 (sint (mi_layers m))")
    case True
    then obtain s where "s \<in> set ss" "?own t (sa_begin s) (sa_end s)"
      using tiles_owned[OF assms] by blast
    then have "?c (sa_begin s) (sa_end s) t \<in> set (map (\<lambda>s. ?c (sa_begin s) (sa_end s) t) ss)"
      "?c (sa_begin s) (sa_end s) t = unat (mt_bytes t)" by auto
    with member_le_sum_list True show ?thesis by fastforce
  qed simp
  have "(\<Sum>t \<leftarrow> ts. ?c 0 (sint (mi_layers m)) t) \<le> (\<Sum>s \<leftarrow> ss. \<Sum>t \<leftarrow> ts. ?c (sa_begin s) (sa_end s) t)" for ts
  proof (induction ts)
    case (Cons t ts)
    with one[of t] show ?case by (simp add: sum_list_addf)
  qed simp
  then show ?thesis
    by (simp add: owned_bytes_def comp_def sum_list_map_filter')
qed

subsection \<open>The roomiest workers\<close>

lemma sum_list_take_Suc_le:
  fixes y :: nat
  assumes "\<forall>x \<in> set ys. x \<le> y"
  shows "sum_list (take (Suc k) ys) \<le> y + sum_list (take k ys)"
  using assms
proof (cases "k < length ys")
  case True
  then show ?thesis using assms by (simp add: take_Suc_conv_app_nth)
qed simp

text \<open>No choice of \<open>k\<close> elements sums to more than the \<open>k\<close> largest.\<close>

lemma sum_submset_le_top:
  fixes M :: "nat multiset"
  shows "sorted_wrt (\<ge>) ys \<Longrightarrow> M \<subseteq># mset ys \<Longrightarrow> sum_mset M \<le> sum_list (take (size M) ys)"
proof (induction ys arbitrary: M)
  case (Cons y ys)
  show ?case
  proof (cases "y \<in># M")
    case True
    then obtain N where N: "M = add_mset y N" by (metis insert_DiffM)
    with Cons.prems have "sum_mset N \<le> sum_list (take (size N) ys)"
      by (intro Cons.IH) auto
    with N show ?thesis by simp
  next
    case False
    then have sub: "M \<subseteq># mset ys"
      using Cons.prems(2) by (simp add: subset_mset.le_iff_sup)
    show ?thesis
    proof (cases "size M")
      case (Suc k)
      have "sum_mset M \<le> sum_list (take (Suc k) ys)"
        using Cons.IH[OF _ sub] Cons.prems(1) Suc by simp
      also have "\<dots> \<le> y + sum_list (take k ys)"
        using Cons.prems(1) by (intro sum_list_take_Suc_le) auto
      finally show ?thesis using Suc by simp
    qed simp
  qed
qed simp

lemma mset_nths_subset:
  assumes "distinct ps" and "\<forall>p \<in> set ps. p < length xs"
  shows "mset (map ((!) xs) ps) \<subseteq># mset xs"
proof -
  have "mset ps \<subseteq># mset [0..<length xs]"
    using assms by (simp add: mset_set_set[symmetric] subset_imp_msubset_mset_set subsetI)
  then have "image_mset ((!) xs) (mset ps) \<subseteq># image_mset ((!) xs) (mset [0..<length xs])"
    by (rule image_mset_subseteq_mono)
  moreover have "image_mset ((!) xs) (mset [0..<length xs]) = mset xs"
    by (metis map_nth mset_map)
  ultimately show ?thesis by simp
qed

lemma usable_top:
  assumes "distinct ps" and "\<forall>p \<in> set ps. p < length offered"
  shows "(\<Sum>p \<leftarrow> ps. unat (usable_bytes (offered ! p)))
    \<le> (\<Sum>w \<leftarrow> take (length ps) (rev (sort (map usable_bytes offered))). unat w)"
proof -
  let ?ys = "map unat (rev (sort (map usable_bytes offered)))"
  let ?M = "mset (map ((!) (map (unat \<circ> usable_bytes) offered)) ps)"
  have "sorted_wrt (\<ge>) (rev (sort (map usable_bytes offered)))"
    by (simp add: sorted_wrt_rev)
  then have "sorted_wrt (\<ge>) ?ys"
    by (simp add: sorted_wrt_map word_le_nat_alt)
  moreover have "?M \<subseteq># mset ?ys"
    using mset_nths_subset[OF assms(1), of "map (unat \<circ> usable_bytes) offered"] assms(2)
    by (simp add: image_mset.compositionality)
  ultimately have "sum_mset ?M \<le> sum_list (take (size ?M) ?ys)"
    by (rule sum_submset_le_top)
  moreover have "sum_mset ?M = (\<Sum>p \<leftarrow> ps. unat (usable_bytes (offered ! p)))"
    unfolding sum_mset_sum_list using assms(2) by (simp cong: map_cong)
  ultimately show ?thesis by (simp add: take_map)
qed

subsection \<open>Valid plans\<close>

text \<open>What a plan promises: the specification the planners are compared with.\<close>

definition stage_ok :: "model_index \<Rightarrow> u64 list \<Rightarrow> u32 \<Rightarrow> u32 \<Rightarrow> stage_assignment \<Rightarrow> bool" where
  "stage_ok m offered ctx sessions s \<longleftrightarrow>
     sa_provider s < length offered
     \<and> stage_fits m (offered ! sa_provider s) (sa_begin s) (sa_end s) ctx sessions
         = Some (s\<lparr>sa_provider := 0\<rparr>)"

definition valid_plan ::
    "model_index \<Rightarrow> u64 list \<Rightarrow> u32 \<Rightarrow> u32 \<Rightarrow> nat option \<Rightarrow> stage_assignment list \<Rightarrow> bool" where
  "valid_plan m offered ctx sessions head ss \<longleftrightarrow>
     ss \<noteq> [] \<and> tiles 0 (sint (mi_layers m)) ss \<and> distinct (map sa_provider ss)
     \<and> list_all (stage_ok m offered ctx sessions) ss
     \<and> (\<forall>h. head = Some h \<longrightarrow> sa_provider (hd ss) = h)"

lemma stage_okD:
  assumes "stage_ok m offered ctx sessions s"
  shows "sa_model_bytes s = stage_model_bytes m (sa_begin s) (sa_end s)"
    "sa_kv_bytes s = kv_bytes m (sa_begin s) (sa_end s) ctx sessions"
    "sa_model_bytes s \<noteq> 0" "sa_kv_bytes s \<noteq> 0"
    "sa_begin s < sa_end s" "0 \<le> sa_begin s" "sa_end s \<le> sint (mi_layers m)"
    "unat (sa_model_bytes s) + unat (sa_kv_bytes s) \<le> unat (usable_bytes (offered ! sa_provider s))"
proof -
  have "stage_fits m (offered ! sa_provider s) (sa_begin s) (sa_end s) ctx sessions
      = Some (s\<lparr>sa_provider := 0\<rparr>)"
    using assms by (simp add: stage_ok_def)
  note d = stage_fits_SomeD[OF this, simplified]
  show "sa_model_bytes s = stage_model_bytes m (sa_begin s) (sa_end s)"
    "sa_kv_bytes s = kv_bytes m (sa_begin s) (sa_end s) ctx sessions"
    "sa_begin s < sa_end s" "0 \<le> sa_begin s" "sa_end s \<le> sint (mi_layers m)"
    "unat (sa_model_bytes s) + unat (sa_kv_bytes s) \<le> unat (usable_bytes (offered ! sa_provider s))"
    "sa_model_bytes s \<noteq> 0" "sa_kv_bytes s \<noteq> 0"
    using d by metis+
qed

lemma layers_sint_less: "sint (w :: u32) < 2147483648"
  using sint_lt[of w] by simp

text \<open>The weights and the KV cache of a valid plan fit the memory its workers can use.\<close>

lemma valid_plan_bytes:
  assumes "valid_plan m offered ctx sessions head ss"
    and wm: "stage_model_bytes m 0 (sint (mi_layers m)) \<noteq> 0"
    and wk: "kv_bytes m 0 (sint (mi_layers m)) ctx sessions \<noteq> 0"
  shows "unat (stage_model_bytes m 0 (sint (mi_layers m))) + unat (kv_bytes m 0 (sint (mi_layers m)) ctx sessions)
     + unat (mi_header_bytes m) * (length ss - 1)
     \<le> (\<Sum>w \<leftarrow> take (length ss) (rev (sort (map usable_bytes offered))). unat w)"
proof -
  let ?L = "sint (mi_layers m)" let ?h = "unat (mi_header_bytes m)" let ?u = "kv_unit m ctx sessions"
  have ne: "ss \<noteq> []" and t: "tiles 0 ?L ss" and ok: "\<And>s. s \<in> set ss \<Longrightarrow> stage_ok m offered ctx sessions s"
    and d: "distinct (map sa_provider ss)"
    using assms(1) by (auto simp: valid_plan_def list_all_iff)
  have small: "?L - 0 < 2 ^ 64" using layers_sint_less[of "mi_layers m"] by simp
  have mb: "unat (sa_model_bytes s) = ?h + (\<Sum>x \<leftarrow> owned_bytes m (sa_begin s) (sa_end s). unat x)"
    if "s \<in> set ss" for s
    using stage_okD(1,3)[OF ok[OF that]] stage_model_bytes_nonzero by metis
  have kv: "unat (sa_kv_bytes s) = nat (sa_end s - sa_begin s) * ?u" if "s \<in> set ss" for s
    using stage_okD(2,4,6,7)[OF ok[OF that]] layers_sint_less[of "mi_layers m"]
      kv_bytes_nonzero[of m "sa_begin s" "sa_end s" ctx sessions] by simp
  have "(\<Sum>s \<leftarrow> ss. unat (sa_model_bytes s)) =
      (\<Sum>s \<leftarrow> ss. ?h + (\<Sum>x \<leftarrow> owned_bytes m (sa_begin s) (sa_end s). unat x))"
    using mb by (intro arg_cong[where f = sum_list] map_cong) auto
  also have "\<dots> = ?h * length ss + (\<Sum>s \<leftarrow> ss. \<Sum>x \<leftarrow> owned_bytes m (sa_begin s) (sa_end s). unat x)"
    by (simp add: sum_list_addf sum_list_triv mult.commute)
  finally have models: "unat (stage_model_bytes m 0 ?L) + ?h * (length ss - 1) \<le> (\<Sum>s \<leftarrow> ss. unat (sa_model_bytes s))"
    using stage_bytes_cover[OF t ne] stage_model_bytes_nonzero[OF wm] ne
    by (cases "length ss") auto
  have "(\<Sum>s \<leftarrow> ss. unat (sa_kv_bytes s)) = (\<Sum>s \<leftarrow> ss. nat (sa_end s - sa_begin s) * ?u)"
    using kv by (intro arg_cong[where f = sum_list] map_cong) auto
  also have "\<dots> = nat ?L * ?u"
    using tiles_length[OF t] by (simp add: sum_list_mult_const)
  finally have kvs: "unat (kv_bytes m 0 ?L ctx sessions) = (\<Sum>s \<leftarrow> ss. unat (sa_kv_bytes s))"
    using kv_bytes_nonzero[OF wk small] by simp
  have "(\<Sum>s \<leftarrow> ss. unat (sa_model_bytes s)) + (\<Sum>s \<leftarrow> ss. unat (sa_kv_bytes s))
      \<le> (\<Sum>s \<leftarrow> ss. unat (usable_bytes (offered ! sa_provider s)))"
    unfolding sum_list_addf[symmetric] by (rule sum_list_mono) (use stage_okD(8)[OF ok] in auto)
  also have "\<dots> \<le> (\<Sum>w \<leftarrow> take (length ss) (rev (sort (map usable_bytes offered))). unat w)"
    using usable_top[OF d, of offered] ok by (auto simp: stage_ok_def comp_def)
  finally show ?thesis using models kvs by linarith
qed

text \<open>The cheap test rules out a number of stages only when no valid plan has it.\<close>

lemma hopeless_sound:
  assumes "valid_plan m offered ctx sessions head ss"
  shows "\<not> count_is_hopeless m offered ctx sessions (length ss)"
proof
  let ?wm = "stage_model_bytes m 0 (sint (mi_layers m))"
  let ?wk = "kv_bytes m 0 (sint (mi_layers m)) ctx sessions"
  let ?hd = "mi_header_bytes m * word_of_nat (length ss - 1)"
  assume "count_is_hopeless m offered ctx sessions (length ss)"
  then obtain capacity where h: "?wm \<noteq> 0" "?wk \<noteq> 0"
      "checked_sum 0 (take (length ss) (rev (sort (map usable_bytes offered)))) = Some capacity"
      "\<not> ?wm > - 1 - ?wk" "\<not> ?wm + ?wk > - 1 - ?hd" "capacity < ?wm + ?wk + ?hd"
    by (auto simp: count_is_hopeless_def Let_def split: if_splits option.splits)
  have s1: "unat (?wm + ?wk) = unat ?wm + unat ?wk"
    using h(4) unat_diff_u64[of ?wk "- 1"] by (intro unat_add_u64) (simp add: not_less word_le_nat_alt)
  have "unat (?wm + ?wk + ?hd) = unat (?wm + ?wk) + unat ?hd"
    using h(5) unat_diff_u64[of ?hd "- 1"] by (intro unat_add_u64) (simp add: not_less word_le_nat_alt)
  moreover have "unat ?hd \<le> unat (mi_header_bytes m) * (length ss - 1)"
  proof -
    have "unat (word_of_nat (length ss - 1) :: u64) \<le> length ss - 1"
      by (simp add: unsigned_of_nat take_bit_nat_less_eq_self)
    then have "unat (mi_header_bytes m) * unat (word_of_nat (length ss - 1) :: u64)
        \<le> unat (mi_header_bytes m) * (length ss - 1)" by simp
    then show ?thesis
      by (metis unat_mult_lem unat_word_ariths(2) mod_less_eq_dividend le_trans)
  qed
  moreover have "unat capacity = (\<Sum>w \<leftarrow> take (length ss) (rev (sort (map usable_bytes offered))). unat w)"
    using checked_sum_Some[OF h(3)] by simp
  ultimately show False
    using valid_plan_bytes[OF assms h(1,2)] s1 h(6) by (simp add: word_less_nat_alt)
qed

subsection \<open>Splitting an order\<close>

lemma split_layers_sound:
  "split_layers prec m offered ctx sessions order b = Some ss \<Longrightarrow>
   \<forall>p \<in> set order. p < length offered \<Longrightarrow>
   map sa_provider ss = order \<and> tiles b (sint (mi_layers m)) ss
   \<and> list_all (stage_ok m offered ctx sessions) ss"
proof (induction order arbitrary: b ss rule: induct_list012)
  case (2 p)
  then obtain a where a: "stage_fits m (offered ! p) b (sint (mi_layers m)) ctx sessions = Some a"
      "ss = [a\<lparr>sa_provider := p\<rparr>]" by auto
  with stage_fits_SomeD[OF a(1)] 2 show ?case by (simp add: stage_ok_def)
next
  case (3 p q ps)
  then obtain e a rest where a: "stage_fits m (offered ! p) b e ctx sessions = Some a"
      "split_layers prec m offered ctx sessions (q # ps) e = Some rest" "ss = a\<lparr>sa_provider := p\<rparr> # rest"
    by (auto simp: Let_def dest!: first_some_SomeD split: option.splits)
  have "map sa_provider rest = q # ps \<and> tiles e (sint (mi_layers m)) rest
      \<and> list_all (stage_ok m offered ctx sessions) rest"
    using "3.IH"(2)[OF a(2)] 3 by simp
  with a stage_fits_SomeD[OF a(1)] 3 show ?case by (simp add: stage_ok_def)
qed simp

lemma last_cut_eq:
  assumes "0 \<le> sint (mi_layers m)" and "int k \<le> sint (mi_layers m)"
  shows "last_cut m k = sint (mi_layers m) - int k"
proof -
  let ?L = "mi_layers m"
  have u: "sint ?L = int (unat ?L)" using assms(1) by (rule sint_u32_nonneg)
  have le: "k \<le> unat ?L" using assms(2) u by (metis of_nat_le_iff)
  then have "k \<le> u64_max" using unat_u32_le[of ?L] by linarith
  then have "unat (ucast ?L - word_of_nat k :: u64) = unat ?L - k"
    using le by (subst unat_diff_u64) (simp_all add: word_le_nat_alt unat_word_of_nat_u64)
  moreover have "unat ?L - k < 4294967296" using unat_u32_le[of ?L] by linarith
  ultimately have "unat (ucast (ucast ?L - word_of_nat k :: u64) :: u32) = unat ?L - k"
    by (simp add: unsigned_ucast_eq take_bit_nat_eq_self)
  moreover have "unat ?L - k < 2147483648" using layers_sint_less[of ?L] u by linarith
  ultimately show ?thesis
    using sint_u32_small[of "ucast (ucast ?L - word_of_nat k :: u64)"] u le
    by (simp add: last_cut_def of_nat_diff)
qed

lemma split_layers_complete:
  "split_layers prec m offered ctx sessions order b = None \<Longrightarrow> map sa_provider ss = order \<Longrightarrow>
   order \<noteq> [] \<Longrightarrow> tiles b (sint (mi_layers m)) ss \<Longrightarrow> 0 \<le> b \<Longrightarrow>
   \<not> list_all (stage_ok m offered ctx sessions) ss"
proof (induction order arbitrary: b ss rule: induct_list012)
  case (2 p)
  then show ?case by (auto simp: stage_ok_def map_eq_Cons_conv)
next
  case (3 p q ps)
  then obtain s rest where ss: "ss = s # rest" "sa_provider s = p" "map sa_provider rest = q # ps"
    by (auto simp: map_eq_Cons_conv)
  show ?case
  proof
    assume ok: "list_all (stage_ok m offered ctx sessions) ss"
    have t: "sa_begin s = b" "b < sa_end s" "tiles (sa_end s) (sint (mi_layers m)) rest"
      using 3 ss by auto
    have len: "length rest = length (q # ps)" using ss(3) by (metis length_map)
    have le: "sa_end s + int (length (q # ps)) \<le> sint (mi_layers m)"
      using tiles_le[OF t(3)] len by simp
    have "last_cut m (length (q # ps)) = sint (mi_layers m) - int (length (q # ps))"
      using le t(2) "3.prems"(5) by (intro last_cut_eq) auto
    then have mem: "sa_end s \<in> set [b + 1..last_cut m (length (q # ps))]"
      using le t(2) by simp
    have fit: "stage_fits m (offered ! p) b (sa_end s) ctx sessions = Some (s\<lparr>sa_provider := 0\<rparr>)"
      using ok ss t by (simp add: stage_ok_def)
    have "split_layers prec m offered ctx sessions (q # ps) (sa_end s) = None"
      using "3.prems"(1) mem fit by (auto simp: Let_def first_some_None simp del: set_upto split: option.splits)
    with "3.IH"(2)[OF this ss(3) _ t(3)] ok ss t "3.prems"(5) show False by simp
  qed
qed simp

subsection \<open>Choosing an order\<close>

lemma choose_order_sound:
  "choose_order left prec m offered ctx sessions head order = Some ss \<Longrightarrow> distinct order \<Longrightarrow>
   \<forall>p \<in> set order. p < length offered \<Longrightarrow>
   (\<forall>h. head = Some h \<longrightarrow> order \<noteq> [] \<longrightarrow> hd order = h) \<Longrightarrow>
   \<exists>order'. length order' = length order + left \<and> distinct order'
     \<and> (\<forall>p \<in> set order'. p < length offered) \<and> (\<forall>h. head = Some h \<longrightarrow> order' \<noteq> [] \<longrightarrow> hd order' = h)
     \<and> split_layers prec m offered ctx sessions order' 0 = Some ss"
proof (induction left arbitrary: order)
  case (Suc left)
  then obtain i where i: "i < length offered" "i \<notin> set order"
      "\<not> (case head of None \<Rightarrow> False | Some h \<Rightarrow> order = [] \<and> i \<noteq> h)"
      "choose_order left prec m offered ctx sessions head (order @ [i]) = Some ss"
    by (auto dest!: first_some_SomeD split: if_splits)
  have "\<forall>h. head = Some h \<longrightarrow> order @ [i] \<noteq> [] \<longrightarrow> hd (order @ [i]) = h"
    using i(3) Suc.prems(4) by (auto simp: hd_append)
  with Suc.IH[OF i(4)] i Suc.prems show ?case by simp
qed auto

lemma choose_order_complete:
  "choose_order (length ext) prec m offered ctx sessions head order = None \<Longrightarrow>
   distinct (order @ ext) \<Longrightarrow> \<forall>p \<in> set ext. p < length offered \<Longrightarrow>
   (\<forall>h. head = Some h \<longrightarrow> order @ ext \<noteq> [] \<longrightarrow> hd (order @ ext) = h) \<Longrightarrow>
   split_layers prec m offered ctx sessions (order @ ext) 0 = None"
proof (induction ext arbitrary: order)
  case (Cons i ext)
  have "choose_order (length ext) prec m offered ctx sessions head (order @ [i]) = None"
    using Cons.prems by (cases head) (auto simp: first_some_None split: if_splits)
  then show ?case
    using Cons.IH[of "order @ [i]"] Cons.prems by simp
qed simp

lemma valid_plan_length:
  assumes "valid_plan m offered ctx sessions head ss"
  shows "length ss \<le> length offered" "length ss \<le> unat (mi_layers m)"
proof -
  have "card (set (map sa_provider ss)) = length ss"
    using assms by (metis distinct_card length_map valid_plan_def)
  moreover have "set (map sa_provider ss) \<subseteq> {0..<length offered}"
    using assms by (auto simp: valid_plan_def list_all_iff stage_ok_def)
  ultimately show "length ss \<le> length offered"
    by (metis card_mono finite_atLeastLessThan card_atLeastLessThan diff_zero)
  have "int (length ss) \<le> sint (mi_layers m)"
    using assms tiles_le[of 0 "sint (mi_layers m)" ss] by (simp add: valid_plan_def)
  then show "length ss \<le> unat (mi_layers m)"
    using sint_u32_nonneg[of "mi_layers m"] by (metis of_nat_0_le_iff of_nat_le_iff order_trans)
qed

lemma choose_order_valid:
  assumes "choose_order n prec m offered ctx sessions head [] = Some ss" and "n \<noteq> 0"
  shows "valid_plan m offered ctx sessions head ss \<and> length ss = n"
proof -
  obtain order where o: "length order = n" "distinct order" "\<forall>p \<in> set order. p < length offered"
      "\<forall>h. head = Some h \<longrightarrow> order \<noteq> [] \<longrightarrow> hd order = h"
      "split_layers prec m offered ctx sessions order 0 = Some ss"
    using choose_order_sound[OF assms(1)] by auto
  have "map sa_provider ss = order" "tiles 0 (sint (mi_layers m)) ss"
      "list_all (stage_ok m offered ctx sessions) ss"
    using split_layers_sound[OF o(5,3)] by auto
  with o assms(2) show ?thesis
    by (auto simp: valid_plan_def hd_map)
qed

lemma choose_order_none:
  assumes "choose_order n prec m offered ctx sessions head [] = None"
    and "valid_plan m offered ctx sessions head ss" and "length ss = n"
  shows False
proof -
  have v: "ss \<noteq> []" "tiles 0 (sint (mi_layers m)) ss" "distinct (map sa_provider ss)"
      "list_all (stage_ok m offered ctx sessions) ss" "\<forall>h. head = Some h \<longrightarrow> sa_provider (hd ss) = h"
    using assms(2) by (auto simp: valid_plan_def)
  have "split_layers prec m offered ctx sessions ([] @ map sa_provider ss) 0 = None"
    using assms(1,3) v by (intro choose_order_complete) (auto simp: hd_map list_all_iff stage_ok_def)
  with split_layers_complete[of prec m offered ctx sessions "map sa_provider ss" 0 ss] v show False
    by simp
qed

lemma first_some_upt:
  assumes "first_some f [a..<b] = Some y"
  shows "\<exists>n. a \<le> n \<and> n < b \<and> f n = Some y \<and> (\<forall>k. a \<le> k \<longrightarrow> k < n \<longrightarrow> f k = None)"
  using assms
proof (induction "b - a" arbitrary: a)
  case (Suc d)
  then have ab: "[a..<b] = a # [Suc a..<b]" by (simp add: upt_rec)
  show ?case
  proof (cases "f a")
    case (Some z)
    with Suc.prems ab show ?thesis by (intro exI[of _ a]) (use Suc.hyps(2) in auto)
  next
    case None
    with Suc ab obtain n where "Suc a \<le> n" "n < b" "f n = Some y" "\<forall>k. Suc a \<le> k \<longrightarrow> k < n \<longrightarrow> f k = None"
      by (metis diff_Suc_eq_diff_pred diff_commute diff_Suc_1 first_some.simps(2) option.simps(4) Suc_diff_Suc Suc_inject zero_less_Suc zero_less_diff)
    with None show ?thesis by (metis Suc_leI Suc_leD le_neq_implies_less)
  qed
qed simp

subsection \<open>Padded positions and drafts\<close>

lemma unat_round_up_256:
  assumes "unat n + 255 \<le> u64_max"
  shows "unat (round_up_256 n) = (unat n + 255) div 256 * 256"
proof -
  have n: "unat (n + 256 - 1) = unat n + 255"
  proof -
    have "n + 256 - 1 = n + 255" by (simp add: add.commute)
    moreover have "unat (n + 255) = unat n + 255" using unat_add_u64[of n 255] assms by simp
    ultimately show ?thesis by (simp only:)
  qed
  have "unat ((n + 256 - 1) div 256) = (unat n + 255) div 256"
    using n by (simp add: unat_div)
  moreover have "(unat n + 255) div 256 * 256 \<le> u64_max" using assms by linarith
  ultimately show ?thesis
    unfolding round_up_256_def by (subst unat_mult_u64) simp_all
qed

lemma allocated_positions_exact:
  assumes "allocated_positions ctx sessions \<noteq> 0"
  shows "unat (allocated_positions ctx sessions)
    = ((unat ctx * unat sessions + 255) div 256 * 256 div unat sessions + 255) div 256 * 256"
proof -
  let ?p = "ucast ctx * ucast sessions :: u64"
  let ?t = "round_up_256 ?p"
  let ?q = "round_up_256 (?t div ucast sessions)"
  have a: "sessions \<noteq> 0" "\<not> ?q > ucast (- 1 :: u32)" "allocated_positions ctx sessions = ucast ?q"
    using assms by (auto simp: allocated_positions_def Let_def split: if_splits)
  have "unat ctx * unat sessions \<le> u32_max * u32_max" by (intro mult_le_mono) simp_all
  then have p: "unat ctx * unat sessions + 255 \<le> u64_max" by simp
  then have up: "unat ?p = unat ctx * unat sessions" by (subst unat_mult_u64) simp_all
  have t: "unat ?t = (unat ctx * unat sessions + 255) div 256 * 256"
    using unat_round_up_256[of ?p] up p by simp
  have d: "unat (?t div ucast sessions) = unat ?t div unat sessions" by (simp add: unat_div)
  have "unat ?t \<le> u64_max - 255"
    unfolding t using p \<open>unat ctx * unat sessions \<le> u32_max * u32_max\<close> by simp
  then have "unat ?t div unat sessions + 255 \<le> u64_max"
    using div_le_dividend[of "unat ?t" "unat sessions"] by linarith
  then have q: "unat ?q = (unat ?t div unat sessions + 255) div 256 * 256"
    using unat_round_up_256[of "?t div ucast sessions"] d by simp
  have "unat ?q \<le> unat (ucast (- 1 :: u32) :: u64)" using a(2) by (simp only: not_less word_le_nat_alt)
  then have "unat ?q \<le> u32_max" using unat_u32_le[of "- 1"] unat_ucast_u32_u64[of "- 1"] by linarith
  then have "unat (ucast ?q :: u32) = unat ?q" by (simp add: unsigned_ucast_eq take_bit_nat_eq_self)
  then show ?thesis using a(3) q t by simp
qed

lemma usable_bytes_eq: "stage_fits m offered_mib b e ctx sessions = Some a \<Longrightarrow>
  offered_mib * mib - kept_back (offered_mib * mib) = usable_bytes offered_mib"
  by (auto simp: stage_fits_def usable_bytes_def Let_def split: if_splits)

lemma draft_fits:
  assumes "stage_with_draft_fits m draft offered_mib e ctx sessions"
  shows "unat (stage_model_bytes m 0 e) + unat (kv_bytes m 0 e ctx sessions)
     + unat (stage_model_bytes draft 0 (sint (mi_layers draft)))
     + unat (kv_bytes draft 0 (sint (mi_layers draft)) ctx sessions) \<le> unat (usable_bytes offered_mib)"
proof -
  let ?w = "stage_model_bytes draft 0 (sint (mi_layers draft))"
  let ?k = "kv_bytes draft 0 (sint (mi_layers draft)) ctx sessions"
  obtain a where a: "stage_fits m offered_mib 0 e ctx sessions = Some a"
    using assms by (auto simp: stage_with_draft_fits_def split: option.splits)
  have d: "\<not> ?w > - 1 - ?k" "?w + ?k \<le> usable_bytes offered_mib - (sa_model_bytes a + sa_kv_bytes a)"
    using assms usable_bytes_eq[OF a] by (auto simp: stage_with_draft_fits_def a Let_def split: if_splits)
  note f = stage_fits_SomeD[OF a]
  have s: "unat (?w + ?k) = unat ?w + unat ?k"
    using d(1) unat_diff_u64[of ?k "- 1"] by (intro unat_add_u64) (simp add: not_less word_le_nat_alt)
  have "unat (sa_model_bytes a) + unat (sa_kv_bytes a) \<le> unat (usable_bytes offered_mib)" using f by blast
  moreover from this have used: "unat (sa_model_bytes a + sa_kv_bytes a) = unat (sa_model_bytes a) + unat (sa_kv_bytes a)"
    using unat_u64_le[of "usable_bytes offered_mib"] by (intro unat_add_u64) linarith
  ultimately have "unat (usable_bytes offered_mib - (sa_model_bytes a + sa_kv_bytes a))
      = unat (usable_bytes offered_mib) - (unat (sa_model_bytes a) + unat (sa_kv_bytes a))"
    by (simp add: unat_diff_u64 word_le_nat_alt)
  moreover have "sa_model_bytes a = stage_model_bytes m 0 e" "sa_kv_bytes a = kv_bytes m 0 e ctx sessions"
    using f by blast+
  ultimately show ?thesis
    using d(2) s f unfolding word_le_nat_alt by auto
qed

subsection \<open>Plans from cached ranges\<close>

definition from_cache :: "(int \<times> int) list list \<Rightarrow> stage_assignment \<Rightarrow> bool" where
  "from_cache cached s \<longleftrightarrow> (sa_begin s, sa_end s) \<in> set (cached ! sa_provider s)"

lemma extend_sound:
  assumes "length offered = length cached"
  shows "extend m offered cached ctx sessions minimum_stages stage_limit head stages b = Some ss \<Longrightarrow>
   0 \<le> b \<Longrightarrow>
   \<exists>rest. ss = stages @ rest \<and> tiles b (sint (mi_layers m)) rest \<and> minimum_stages \<le> length ss
     \<and> (rest \<noteq> [] \<longrightarrow> length ss \<le> stage_limit) \<and> distinct (map sa_provider rest)
     \<and> set (map sa_provider rest) \<inter> set (map sa_provider stages) = {}
     \<and> list_all (stage_ok m offered ctx sessions) rest \<and> list_all (from_cache cached) rest
     \<and> (\<forall>h. head = Some h \<longrightarrow> b = 0 \<longrightarrow> rest \<noteq> [] \<longrightarrow> sa_provider (hd rest) = h)"
proof (induction "nat (sint (mi_layers m) - b)" arbitrary: stages b rule: less_induct)
  case less
  let ?L = "sint (mi_layers m)"
  show ?case
  proof (cases "b = ?L")
    case True
    with less.prems show ?thesis by (auto simp: extend.simps[of m] split: if_splits)
  next
    case False
    with less.prems(1) obtain e i a where lim: "length stages < stage_limit"
        and opt: "(e, i) \<in> set (cache_options cached head ?L (map sa_provider stages) b)"
        and a: "stage_fits m (offered ! i) b e ctx sessions = Some a"
        and rec: "extend m offered cached ctx sessions minimum_stages stage_limit head
              (stages @ [a\<lparr>sa_provider := i\<rparr>]) e = Some ss"
      by (auto simp: extend.simps[of m offered cached ctx sessions minimum_stages stage_limit head stages b]
          Let_def not_le dest!: first_some_SomeD split: if_splits option.splits)
    note o = opt[unfolded cache_options_set]
    have "nat (?L - e) < nat (?L - b)" "0 \<le> e" using o less.prems(2) by auto
    from less.hyps[OF this(1) rec this(2)] obtain rest where
      r: "ss = (stages @ [a\<lparr>sa_provider := i\<rparr>]) @ rest" "tiles e ?L rest" "minimum_stages \<le> length ss"
        "rest \<noteq> [] \<longrightarrow> length ss \<le> stage_limit" "distinct (map sa_provider rest)"
        "set (map sa_provider rest) \<inter> set (map sa_provider (stages @ [a\<lparr>sa_provider := i\<rparr>])) = {}"
        "list_all (stage_ok m offered ctx sessions) rest" "list_all (from_cache cached) rest"
      by blast
    have new: "stage_ok m offered ctx sessions (a\<lparr>sa_provider := i\<rparr>)"
        "from_cache cached (a\<lparr>sa_provider := i\<rparr>)" "sa_begin a = b" "sa_end a = e"
      using stage_fits_SomeD[OF a] a o assms by (auto simp: stage_ok_def from_cache_def)
    have "length ss \<le> stage_limit" using r(1,4) lim by (cases rest) auto
    then show ?thesis
      using r new o by (intro exI[of _ "a\<lparr>sa_provider := i\<rparr> # rest"]) auto
  qed
qed

lemma extend_complete:
  "extend m offered cached ctx sessions minimum_stages stage_limit head stages b = None \<Longrightarrow>
   tiles b (sint (mi_layers m)) rest \<Longrightarrow> 0 \<le> b \<Longrightarrow> minimum_stages \<le> length (stages @ rest) \<Longrightarrow>
   length (stages @ rest) \<le> stage_limit \<Longrightarrow> distinct (map sa_provider (stages @ rest)) \<Longrightarrow>
   list_all (\<lambda>s. sa_provider s < length cached) rest \<Longrightarrow>
   list_all (stage_ok m offered ctx sessions) rest \<Longrightarrow> list_all (from_cache cached) rest \<Longrightarrow>
   (\<forall>h. head = Some h \<longrightarrow> b = 0 \<longrightarrow> rest \<noteq> [] \<longrightarrow> sa_provider (hd rest) = h) \<Longrightarrow> False"
proof (induction rest arbitrary: stages b)
  case Nil
  then show ?case by (auto simp: extend.simps[of m])
next
  case (Cons s rest)
  let ?L = "sint (mi_layers m)"
  have t: "sa_begin s = b" "b < sa_end s" "tiles (sa_end s) ?L rest" "sa_end s \<le> ?L"
    using Cons.prems(2) tiles_le[of "sa_end s" ?L rest] by auto
  have opt: "(sa_end s, sa_provider s) \<in> set (cache_options cached head ?L (map sa_provider stages) b)"
    using Cons.prems(6,7,9,10) t by (auto simp: cache_options_set from_cache_def)
  have fit: "stage_fits m (offered ! sa_provider s) b (sa_end s) ctx sessions = Some (s\<lparr>sa_provider := 0\<rparr>)"
    using Cons.prems(8) t by (simp add: stage_ok_def)
  have "extend m offered cached ctx sessions minimum_stages stage_limit head (stages @ [s]) (sa_end s) = None"
    using Cons.prems(1,5) opt fit t(2,4)
    by (auto simp: extend.simps[of m offered cached ctx sessions minimum_stages stage_limit head stages b]
        Let_def first_some_None split: if_splits dest!: bspec)
  then show False
    using Cons.IH[of "stages @ [s]" "sa_end s"] Cons.prems t by auto
qed

lemma plan_stages_finds:
  assumes usable: "compatible_stage_model m = None" "offered \<noteq> []" "length offered \<le> 8" "ctx \<noteq> 0"
    "sessions \<noteq> 0" "minimum_stages \<noteq> 0" "minimum_stages \<le> length offered"
    "\<forall>h. head = Some h \<longrightarrow> h < length offered"
    and valid: "valid_plan m offered ctx sessions head ss" and "minimum_stages \<le> length ss"
  shows "\<exists>ss'. plan_stages prec m offered ctx sessions minimum_stages head = Some ss'
    \<and> length ss' \<le> length ss"
proof -
  let ?f = "\<lambda>n. if count_is_hopeless m offered ctx sessions n then None
        else choose_order n prec m offered ctx sessions head []"
  let ?ns = "[minimum_stages..<Suc (min (length offered) (unat (mi_layers m)))]"
  have plan: "plan_stages prec m offered ctx sessions minimum_stages head = first_some ?f ?ns"
    using usable by (auto simp: plan_stages_def simp del: upt_Suc split: option.splits)
  have fs: "?f (length ss) \<noteq> None"
    using hopeless_sound[OF valid] choose_order_none[OF _ valid refl] by auto
  have mem: "length ss \<in> set ?ns"
    using valid_plan_length[OF valid] assms(10) by (simp del: upt_Suc)
  have "first_some ?f ?ns \<noteq> None"
  proof
    assume "first_some ?f ?ns = None"
    then have "\<forall>x \<in> set ?ns. ?f x = None" by (rule first_some_None[THEN iffD1])
    from bspec[OF this mem] fs show False by contradiction
  qed
  then obtain ss' where ss': "first_some ?f ?ns = Some ss'" by blast
  obtain n where n: "minimum_stages \<le> n" "?f n = Some ss'" "\<forall>k. minimum_stages \<le> k \<longrightarrow> k < n \<longrightarrow> ?f k = None"
    using first_some_upt[OF ss'] by blast
  have "n \<le> length ss" using n(3) fs assms(10) by (metis not_le)
  moreover have "length ss' = n"
    using n(1,2) usable(6) choose_order_valid[of n prec m offered ctx sessions head ss']
    by (auto split: if_splits)
  ultimately show ?thesis using plan ss' by auto
qed

section \<open>Properties\<close>

lemma plan_stages_valid:
  assumes "plan_stages prec m offered ctx sessions minimum_stages head = Some ss"
  shows "valid_plan m offered ctx sessions head ss \<and> minimum_stages \<le> length ss"
proof -
  have f: "first_some (\<lambda>n. if count_is_hopeless m offered ctx sessions n then None
        else choose_order n prec m offered ctx sessions head [])
      [minimum_stages..<Suc (min (length offered) (unat (mi_layers m)))] = Some ss"
    and pos: "minimum_stages \<noteq> 0"
    using assms by (auto simp: plan_stages_def simp del: upt_Suc split: if_splits)
  obtain n where "minimum_stages \<le> n" "choose_order n prec m offered ctx sessions head [] = Some ss"
    using first_some_upt[OF f] by (auto split: if_splits)
  then show ?thesis using choose_order_valid[of n] pos by auto
qed

text \<open>
  C5. A plan that the planner returns can be run: its stages tile the layers from the first to the
  last, each on its own worker, every stage fits the memory its worker can use together with its
  KV cache, the head worker leads when one is named, and there are at least the asked-for stages.
\<close>

theorem plan_stages_sound:
  assumes "plan_stages prec m offered ctx sessions minimum_stages head = Some ss"
  shows "valid_plan m offered ctx sessions head ss \<and> minimum_stages \<le> length ss"
  using assms by (rule plan_stages_valid)


definition cached_plan ::
    "model_index \<Rightarrow> u64 list \<Rightarrow> (int \<times> int) list list \<Rightarrow> u32 \<Rightarrow> u32 \<Rightarrow> nat \<Rightarrow> nat \<Rightarrow> nat option
     \<Rightarrow> stage_assignment list \<Rightarrow> bool" where
  "cached_plan m offered cached ctx sessions minimum_stages stage_limit head ss \<longleftrightarrow>
     valid_plan m offered ctx sessions head ss \<and> list_all (from_cache cached) ss
     \<and> minimum_stages \<le> length ss \<and> length ss \<le> stage_limit"

lemma plan_from_cache_sound:
  assumes "plan_from_cache m offered cached ctx sessions minimum_stages stage_limit head = Some ss"
  shows "cached_plan m offered cached ctx sessions minimum_stages stage_limit head ss"
proof -
  have len: "length offered = length cached" and "minimum_stages \<noteq> 0"
    and ex: "extend m offered cached ctx sessions minimum_stages stage_limit head [] 0 = Some ss"
    using assms by (auto simp: plan_from_cache_def split: if_splits)
  with extend_sound[OF len ex] show ?thesis
    by (auto simp: cached_plan_def valid_plan_def)
qed

lemma plan_from_cache_complete:
  assumes "length offered = length cached" "compatible_stage_model m = None" "ctx \<noteq> 0" "sessions \<noteq> 0"
    "minimum_stages \<noteq> 0" "stage_limit \<noteq> 0" "\<forall>h. head = Some h \<longrightarrow> h < length offered"
    and plan: "cached_plan m offered cached ctx sessions minimum_stages stage_limit head ss"
  shows "plan_from_cache m offered cached ctx sessions minimum_stages stage_limit head \<noteq> None"
proof
  assume "plan_from_cache m offered cached ctx sessions minimum_stages stage_limit head = None"
  then have ex: "extend m offered cached ctx sessions minimum_stages stage_limit head [] 0 = None"
    using assms by (auto simp: plan_from_cache_def split: if_splits option.splits)
  have "list_all (\<lambda>s. sa_provider s < length cached) ss"
    using plan assms(1) by (auto simp: cached_plan_def valid_plan_def list_all_iff stage_ok_def)
  with extend_complete[OF ex, of ss] plan show False
    by (auto simp: cached_plan_def valid_plan_def)
qed

text \<open>
  C7. The cache planner decides exactly whether the cached ranges can serve the model: on usable
  arguments it returns a plan if and only if some valid plan built only from cached ranges has a
  length within the bounds, and the plan it returns is such a plan.
\<close>

theorem plan_from_cache_exact:
  assumes "length offered = length cached" "compatible_stage_model m = None" "ctx \<noteq> 0" "sessions \<noteq> 0"
    "minimum_stages \<noteq> 0" "stage_limit \<noteq> 0" "\<forall>h. head = Some h \<longrightarrow> h < length offered"
  shows "case plan_from_cache m offered cached ctx sessions minimum_stages stage_limit head of
      Some ss \<Rightarrow> cached_plan m offered cached ctx sessions minimum_stages stage_limit head ss
    | None \<Rightarrow> \<nexists>ss. cached_plan m offered cached ctx sessions minimum_stages stage_limit head ss"
  using plan_from_cache_sound plan_from_cache_complete[OF assms] by (auto split: option.split)

text \<open>A two-layer model and two workers with 2 GiB each.\<close>

definition small_tensor :: "string \<Rightarrow> model_tensor" where
  "small_tensor name = \<lparr>mt_name = name, mt_bytes = 1000, mt_dimensions = [8], mt_type = 0\<rparr>"

definition small_model :: model_index where
  "small_model = \<lparr>mi_architecture = ''qwen2'', mi_layers = 2, mi_hidden = 8, mi_heads = 4,
     mi_kv_heads = 2, mi_experts = 0, mi_experts_used = 0, mi_ffn_length = 16,
     mi_trained_context = 0, mi_expert_ffn_length = 0, mi_head_dim_k = 0, mi_head_dim_v = 0,
     mi_logical_bytes = 5000, mi_header_bytes = 1000,
     mi_tensors = map small_tensor [''token_embd.weight'', ''blk.0.attn_norm.weight'',
       ''blk.1.attn_norm.weight'', ''output_norm.weight'']\<rparr>"

definition small_plan :: "stage_assignment list" where
  "small_plan = [\<lparr>sa_provider = 1, sa_begin = 0, sa_end = 1, sa_model_bytes = 3000, sa_kv_bytes = 4096\<rparr>,
     \<lparr>sa_provider = 0, sa_begin = 1, sa_end = 2, sa_model_bytes = 4000, sa_kv_bytes = 4096\<rparr>]"

lemma small_model_ok: "compatible_stage_model small_model = None"
  by code_simp

lemma small_plan_fits:
  "stage_ok small_model [2048, 2048] 100 1 (small_plan ! 0)"
  "stage_ok small_model [2048, 2048] 100 1 (small_plan ! 1)"
  by code_simp+

lemma small_plan_valid: "valid_plan small_model [2048, 2048] 100 1 (Some 1) small_plan"
  using small_plan_fits by (simp add: valid_plan_def small_plan_def small_model_def)

lemma small_plan_cached:
  "cached_plan small_model [2048, 2048] [[(1, 2)], [(0, 2), (0, 1)]] 100 1 2 2 (Some 1) small_plan"
  using small_plan_valid by (simp add: cached_plan_def small_plan_def from_cache_def)

theorem plan_stages_sound_witness:
  "\<exists>ss. plan_stages 64 small_model [2048, 2048] 100 1 2 (Some 1) = Some ss
     \<and> valid_plan small_model [2048, 2048] 100 1 (Some 1) ss"
proof -
  obtain ss where ss: "plan_stages 64 small_model [2048, 2048] 100 1 2 (Some 1) = Some ss"
    using plan_stages_finds[OF small_model_ok _ _ _ _ _ _ _ small_plan_valid, of 2 64]
    by (auto simp: small_plan_def)
  with plan_stages_sound[OF ss] show ?thesis by blast
qed


theorem plan_from_cache_exact_witness:
  "\<exists>ss. plan_from_cache small_model [2048, 2048] [[(1, 2)], [(0, 2), (0, 1)]] 100 1 2 2 (Some 1) = Some ss
     \<and> cached_plan small_model [2048, 2048] [[(1, 2)], [(0, 2), (0, 1)]] 100 1 2 2 (Some 1) ss"
  using plan_from_cache_exact[OF _ small_model_ok, of "[2048, 2048]" "[[(1, 2)], [(0, 2), (0, 1)]]" 100 1 2 2 "Some 1"]
    small_plan_cached by (auto split: option.splits)

text \<open>
  The KV cache is sized for the positions that are really allocated: when the planner's
  position count is not zero it is a multiple of 256, at least the asked-for context and less than
  512 positions above it, so no plan underestimates the cache.
\<close>

theorem allocated_positions_bounds:
  assumes "allocated_positions ctx sessions \<noteq> 0"
  shows "256 dvd unat (allocated_positions ctx sessions)
    \<and> unat ctx \<le> unat (allocated_positions ctx sessions)
    \<and> unat (allocated_positions ctx sessions) < unat ctx + 512"
proof -
  let ?s = "unat sessions" let ?c = "unat ctx"
  let ?t = "(?c * ?s + 255) div 256 * 256"
  have s: "?s \<noteq> 0" using assms by (auto simp: allocated_positions_def unat_eq_0)
  have t: "?c * ?s \<le> ?t" "?t \<le> ?c * ?s + 255" by linarith+
  have "?c \<le> ?t div ?s" using t(1) s by (simp add: less_eq_div_iff_mult_less_eq)
  moreover have "?t div ?s \<le> ?c + 255"
  proof -
    have "?t div ?s \<le> (?c * ?s + 255) div ?s" using t(2) by (rule div_le_mono)
    also have "\<dots> = ?c + 255 div ?s" using s by simp
    also have "\<dots> \<le> ?c + 255" by simp
    finally show ?thesis .
  qed
  ultimately have "?c \<le> (?t div ?s + 255) div 256 * 256" "(?t div ?s + 255) div 256 * 256 < ?c + 512"
    by linarith+
  then show ?thesis unfolding allocated_positions_exact[OF assms] by simp
qed

theorem allocated_positions_bounds_witness:
  "unat (allocated_positions 300 3) = 512 \<and> 256 dvd unat (allocated_positions 300 3)"
proof -
  have "allocated_positions 300 3 = 512" by code_simp
  then show ?thesis using allocated_positions_bounds[of 300 3] by simp
qed

text \<open>
  A head worker that is promised a draft model can hold it: when the check passes, the first
  stage, its KV cache, the draft's weights and the draft's KV cache together fit what the worker
  can use, with no wrap-around in any of the sums.
\<close>

theorem stage_with_draft_fits_sound:
  assumes "stage_with_draft_fits m draft offered_mib e ctx sessions"
  shows "unat (stage_model_bytes m 0 e) + unat (kv_bytes m 0 e ctx sessions)
     + unat (stage_model_bytes draft 0 (sint (mi_layers draft)))
     + unat (kv_bytes draft 0 (sint (mi_layers draft)) ctx sessions) \<le> unat (usable_bytes offered_mib)"
  using assms by (rule draft_fits)

theorem stage_with_draft_fits_sound_witness:
  "unat (stage_model_bytes small_model 0 1) + unat (kv_bytes small_model 0 1 100 1)
     + unat (stage_model_bytes small_model 0 (sint (mi_layers small_model)))
     + unat (kv_bytes small_model 0 (sint (mi_layers small_model)) 100 1) \<le> unat (usable_bytes 2048)"
proof -
  have "stage_with_draft_fits small_model small_model 2048 1 100 1" by code_simp
  then show ?thesis by (rule stage_with_draft_fits_sound)
qed

end
