(* ===== verification/Measurement.thy ===== *)
theory Measurement
  imports Floats
begin

text \<open>
  Observed stage speeds and link bandwidths
  (\<^verbatim>\<open>engine/include/provider_owned/measurement.hpp\<close>): the tables a worker keeps of its own
  traffic, the text form of a record and the speed a planner reads from a table. Times are
  seconds of the wall clock. The values in the tables are finite: a record enters with a speed
  in (0, 1e9] or a finite bandwidth, and an average of finite values does not overflow.
\<close>

section \<open>Configurations\<close>

datatype phase = Decode | Prefill

definition max_speed_records :: nat where
  "max_speed_records = 64"

definition speed_max_age_s :: int where
  "speed_max_age_s = 7 * 24 * 3600"

definition confident_samples :: u32 where
  "confident_samples = 32"

definition max_us_per_gib :: rat where
  "max_us_per_gib = 1000000000"

text \<open>
  The doubling loops. \<open>fuel\<close> bounds the passes: a bucket that starts at one or above reaches
  any cap below 2 to the 32 within 32 doublings (\<open>grow_bucket_exit\<close>).
\<close>

primrec grow_bucket :: "nat \<Rightarrow> u32 \<Rightarrow> u32 \<Rightarrow> u32 \<Rightarrow> u32" where
  "grow_bucket 0 cap wanted bucket = bucket"
| "grow_bucket (Suc fuel) cap wanted bucket =
     (if bucket < wanted \<and> bucket < cap then grow_bucket fuel cap wanted (bucket * 2) else bucket)"

definition context_bucket :: "u32 \<Rightarrow> u32" where
  "context_bucket context = grow_bucket 12 1048576 context 512"

definition sessions_bucket :: "u32 \<Rightarrow> u32" where
  "sessions_bucket sessions = grow_bucket 7 64 sessions 1"

record speed_key =
  sk_model_sha256 :: string
  sk_phase :: phase
  sk_context :: u32
  sk_sessions :: u32

record speed_record =
  sp_key :: speed_key
  sp_us_per_gib :: rat
  sp_samples :: u32
  sp_updated_unix_s :: int

section \<open>The speed table\<close>

definition fold_speed :: "rat \<Rightarrow> u32 \<Rightarrow> int \<Rightarrow> speed_record \<Rightarrow> speed_record" where
  "fold_speed us samples now r =
     (let w = of_int (uint (min (sp_samples r) confident_samples)); s = of_int (uint samples)
      in r\<lparr>sp_us_per_gib := rnd (rnd (rnd (sp_us_per_gib r * w) + rnd (us * s)) / rnd (w + s)),
           sp_samples := (if sp_samples r > 0xFFFFFFFF - samples then 0xFFFFFFFF
                          else sp_samples r + samples),
           sp_updated_unix_s := now\<rparr>)"

definition observe_speed ::
    "speed_key \<Rightarrow> double \<Rightarrow> u32 \<Rightarrow> int \<Rightarrow> speed_record list \<Rightarrow> speed_record list" where
  "observe_speed key us_per_gib samples now records =
     (case us_per_gib of
        Fin us \<Rightarrow>
          if \<not> 0 < us \<or> us > max_us_per_gib \<or> samples = 0 then records
          else if \<not> list_ex (\<lambda>r. sp_key r = key) records then
            (if length records \<ge> max_speed_records then erase_min sp_updated_unix_s records else records)
            @ [\<lparr>sp_key = key, sp_us_per_gib = us, sp_samples = samples, sp_updated_unix_s = now\<rparr>]
          else update_first (\<lambda>r. sp_key r = key) (fold_speed us samples now) records
      | _ \<Rightarrow> records)"

definition add_speed :: "speed_record \<Rightarrow> speed_record list \<Rightarrow> speed_record list" where
  "add_speed r = observe_speed (sp_key r) (Fin (sp_us_per_gib r)) (sp_samples r) (sp_updated_unix_s r)"

section \<open>The text of a record\<close>

definition speed_text :: "speed_record \<Rightarrow> int \<Rightarrow> string" where
  "speed_text r now =
     sk_model_sha256 (sp_key r) @ '':'' @ (if sk_phase (sp_key r) = Decode then ''d'' else ''p'') @ '':''
     @ dec_u32 (sk_context (sp_key r)) @ '':'' @ dec_u32 (sk_sessions (sp_key r)) @ '':''
     @ dec_u64 (word_of_int (llround (sp_us_per_gib r))) @ '':''
     @ dec_u32 (sp_samples r) @ '':'' @ dec_int (max 0 (now - sp_updated_unix_s r))"

text \<open>The field loop: \<open>n\<close> separators are still expected.\<close>

fun colon_fields :: "nat \<Rightarrow> string \<Rightarrow> string list option" where
  "colon_fields 0 s = (if find_char (CHR '':'') s = None then Some [s] else None)"
| "colon_fields (Suc n) s =
     (case find_char (CHR '':'') s of
        None \<Rightarrow> None
      | Some colon \<Rightarrow> map_option ((#) (take colon s)) (colon_fields n (drop (Suc colon) s)))"

definition is_lower_hex :: "char \<Rightarrow> bool" where
  "is_lower_hex c \<longleftrightarrow> (CHR ''0'' \<le> c \<and> c \<le> CHR ''9'') \<or> (CHR ''a'' \<le> c \<and> c \<le> CHR ''f'')"

definition speed_fields ::
    "string \<Rightarrow> string \<Rightarrow> u32 \<Rightarrow> u32 \<Rightarrow> u64 \<Rightarrow> u32 \<Rightarrow> u64 \<Rightarrow> int \<Rightarrow> speed_record option" where
  "speed_fields sha ph context sessions speed samples age now =
     (if context \<noteq> context_bucket context \<or> sessions \<noteq> sessions_bucket sessions
         \<or> speed = 0 \<or> of_int (uint speed) > max_us_per_gib \<or> samples = 0
         \<or> uint age > speed_max_age_s * 4 then None
      else Some \<lparr>sp_key = \<lparr>sk_model_sha256 = sha, sk_phase = (if ph = ''d'' then Decode else Prefill),
                  sk_context = context, sk_sessions = sessions\<rparr>,
                sp_us_per_gib = of_int (uint speed), sp_samples = samples,
                sp_updated_unix_s = now - uint age\<rparr>)"

definition parse_speed_text :: "string \<Rightarrow> int \<Rightarrow> speed_record option" where
  "parse_speed_text s now =
     (case colon_fields 6 s of
        Some [sha, ph, context, sessions, speed, samples, age] \<Rightarrow>
          if length sha \<noteq> 64 \<or> \<not> list_all is_lower_hex sha \<or> (ph \<noteq> ''d'' \<and> ph \<noteq> ''p'') then None
          else
            (case (from_chars_u32 context, from_chars_u32 sessions, from_chars_u64 speed,
                   from_chars_u32 samples, from_chars_u64 age) of
               (Some c, Some n, Some v, Some k, Some a) \<Rightarrow> speed_fields sha ph c n v k a now
             | _ \<Rightarrow> None)
      | _ \<Rightarrow> None)"

section \<open>Reading a speed\<close>

record speed_estimate =
  se_us_per_gib :: double
  se_measured :: bool

definition comparable :: "speed_key \<Rightarrow> int \<Rightarrow> speed_record \<Rightarrow> bool" where
  "comparable wanted now r \<longleftrightarrow> sk_model_sha256 (sp_key r) = sk_model_sha256 wanted
     \<and> sk_phase (sp_key r) = sk_phase wanted
     \<and> \<not> sk_context (sp_key r) < sk_context wanted \<and> \<not> sk_sessions (sp_key r) < sk_sessions wanted
     \<and> \<not> sp_samples r < confident_samples \<and> \<not> now - sp_updated_unix_s r > speed_max_age_s"

definition closer :: "speed_record \<Rightarrow> speed_record \<Rightarrow> bool" where
  "closer a b \<longleftrightarrow> sk_context (sp_key a) < sk_context (sp_key b)
     \<or> sk_context (sp_key a) = sk_context (sp_key b) \<and> sk_sessions (sp_key a) < sk_sessions (sp_key b)"

fun closest_record ::
    "speed_key \<Rightarrow> int \<Rightarrow> speed_record list \<Rightarrow> speed_record option \<Rightarrow> speed_record option" where
  "closest_record wanted now [] best = best"
| "closest_record wanted now (r # rs) best =
     closest_record wanted now rs
       (if \<not> comparable wanted now r then best
        else case best of None \<Rightarrow> Some r | Some b \<Rightarrow> if closer r b then Some r else best)"

definition estimate_speed ::
    "speed_record list \<Rightarrow> speed_key \<Rightarrow> int \<Rightarrow> double \<Rightarrow> speed_estimate" where
  "estimate_speed records wanted now fallback =
     (case closest_record wanted now records None of
        None \<Rightarrow> \<lparr>se_us_per_gib = fallback, se_measured = False\<rparr>
      | Some r \<Rightarrow> \<lparr>se_us_per_gib = Fin (sp_us_per_gib r), se_measured = True\<rparr>)"

section \<open>The bandwidth table\<close>

definition min_bandwidth_frame_bytes :: u64 where
  "min_bandwidth_frame_bytes = 1048576"

definition max_bandwidth_peers :: nat where
  "max_bandwidth_peers = 32"

definition bandwidth_max_age_s :: int where
  "bandwidth_max_age_s = 24 * 3600"

record bandwidth_entry =
  be_peer :: string
  be_kib_per_s :: rat
  be_updated_unix_s :: int

definition fold_bandwidth :: "rat \<Rightarrow> int \<Rightarrow> bandwidth_entry \<Rightarrow> bandwidth_entry" where
  "fold_bandwidth kib now e =
     e\<lparr>be_kib_per_s :=
         (if now - be_updated_unix_s e > bandwidth_max_age_s then kib
          else rnd (rnd (be_kib_per_s e * rnd (7 / 10)) + rnd (kib * rnd (3 / 10)))),
       be_updated_unix_s := now\<rparr>"

definition observe_bandwidth ::
    "string \<Rightarrow> u64 \<Rightarrow> double \<Rightarrow> int \<Rightarrow> bandwidth_entry list \<Rightarrow> bandwidth_entry list" where
  "observe_bandwidth peer bytes seconds now entries =
     (if peer = [] \<or> bytes < min_bandwidth_frame_bytes \<or> \<not> double_less (Fin 0) seconds then entries
      else
        case double_div (double_div (double_of_u64 bytes) (Fin 1024)) seconds of
          Fin kib \<Rightarrow>
            if \<not> list_ex (\<lambda>e. be_peer e = peer) entries then
              (if length entries \<ge> max_bandwidth_peers then erase_min be_updated_unix_s entries else entries)
              @ [\<lparr>be_peer = peer, be_kib_per_s = kib, be_updated_unix_s = now\<rparr>]
            else update_first (\<lambda>e. be_peer e = peer) (fold_bandwidth kib now) entries
        | _ \<Rightarrow> entries)"

fun kib_per_s :: "bandwidth_entry list \<Rightarrow> string \<Rightarrow> int \<Rightarrow> u32" where
  "kib_per_s [] peer now = 0"
| "kib_per_s (e # es) peer now =
     (if be_peer e \<noteq> peer \<or> now - be_updated_unix_s e > bandwidth_max_age_s then kib_per_s es peer now
      else word_of_int (trunc (if be_kib_per_s e < 1 then 1
                               else if 104857600 < be_kib_per_s e then 104857600 else be_kib_per_s e)))"

section \<open>Lemmas\<close>

text \<open>The doubling loops end by their condition and not by the fuel.\<close>

lemma grow_bucket_numeral:
  "grow_bucket (numeral k) cap wanted b =
     (if b < wanted \<and> b < cap then grow_bucket (pred_numeral k) cap wanted (b * 2) else b)"
  by (simp add: numeral_eq_Suc)

lemma context_bucket_exit:
  "\<not> (context_bucket c < c \<and> context_bucket c < 1048576)" "512 \<le> context_bucket c"
  by (simp_all add: context_bucket_def grow_bucket_numeral not_less)

lemma sessions_bucket_exit:
  "\<not> (sessions_bucket n < n \<and> sessions_bucket n < 64)" "1 \<le> sessions_bucket n"
  by (simp_all add: sessions_bucket_def grow_bucket_numeral not_less)

interpretation speeds: bounded_table sp_key sp_updated_unix_s max_speed_records
  by unfold_locales (simp add: max_speed_records_def)

interpretation links: bounded_table be_peer be_updated_unix_s max_bandwidth_peers
  by unfold_locales (simp add: max_bandwidth_peers_def)

lemma fold_speed_key [simp]: "sp_key (fold_speed us n now r) = sp_key r"
  by (simp add: fold_speed_def Let_def)

lemma fold_bandwidth_key [simp]: "be_peer (fold_bandwidth kib now e) = be_peer e"
  by (simp add: fold_bandwidth_def)

lemma observe_speed_ok:
  assumes "speeds.table_ok rs"
  shows "speeds.table_ok (observe_speed key us n now rs)"
proof (cases us)
  case (Fin x)
  define r where "r = \<lparr>sp_key = key, sp_us_per_gib = x, sp_samples = n, sp_updated_unix_s = now\<rparr>"
  have "speeds.table_ok (update_first (\<lambda>r. sp_key r = key) (fold_speed x n now) rs)"
    using assms by (rule speeds.table_ok_update) simp
  moreover have "\<not> list_ex (\<lambda>r. sp_key r = key) rs \<Longrightarrow> speeds.table_ok
      ((if length rs \<ge> max_speed_records then erase_min sp_updated_unix_s rs else rs) @ [r])"
    using assms by (rule speeds.table_ok_add) (auto simp: r_def list_ex_iff)
  ultimately show ?thesis
    using assms by (simp add: Fin observe_speed_def r_def del: speeds.table_ok_def)
qed (use assms in \<open>simp_all add: observe_speed_def\<close>)

lemma observe_bandwidth_ok:
  assumes "links.table_ok es"
  shows "links.table_ok (observe_bandwidth peer bytes t now es)"
proof -
  have "links.table_ok (update_first (\<lambda>e. be_peer e = peer) (fold_bandwidth x now) es)" for x
    using assms by (rule links.table_ok_update) simp
  moreover have "\<not> list_ex (\<lambda>e. be_peer e = peer) es \<Longrightarrow> links.table_ok
      ((if length es \<ge> max_bandwidth_peers then erase_min be_updated_unix_s es else es)
       @ [\<lparr>be_peer = peer, be_kib_per_s = x, be_updated_unix_s = now\<rparr>])" for x
    using assms by (rule links.table_ok_add) (auto simp: list_ex_iff)
  ultimately show ?thesis
    using assms
    by (cases "double_div (double_div (double_of_u64 bytes) (Fin 1024)) t")
      (simp_all add: observe_bandwidth_def if_distrib[of links.table_ok] split: if_split_asm)
qed

lemma update_first_keeps: "r \<in> set rs \<Longrightarrow> \<not> P r \<Longrightarrow> r \<in> set (update_first P f rs)"
  by (induction rs) auto

lemma update_first_hit: "list_ex P rs \<Longrightarrow> \<exists>r \<in> set rs. P r \<and> f r \<in> set (update_first P f rs)"
  by (induction rs) auto

lemma observe_speed_evicts:
  assumes "r \<in> set rs" and "sp_key r \<noteq> key" and "r \<notin> set (observe_speed key us n now rs)"
  shows "max_speed_records \<le> length rs \<and> (\<forall>r' \<in> set rs. sp_updated_unix_s r \<le> sp_updated_unix_s r')"
  using assms update_first_keeps[of r rs "\<lambda>r. sp_key r = key"] erase_min_oldest[of r rs]
  by (auto simp: observe_speed_def split: double.splits if_splits)

lemma observe_speed_stamp:
  assumes "0 < us" and "us \<le> max_us_per_gib" and "n \<noteq> 0"
  shows "\<exists>r \<in> set (observe_speed key (Fin us) n now rs). sp_key r = key \<and> sp_updated_unix_s r = now"
proof (cases "list_ex (\<lambda>r. sp_key r = key) rs")
  case True
  have "sp_updated_unix_s (fold_speed us n now r) = now" for r
    by (simp add: fold_speed_def Let_def)
  then show ?thesis
    using assms True update_first_hit[OF True, of "fold_speed us n now"]
    by (auto simp: observe_speed_def intro: fold_speed_key)
qed (use assms in \<open>auto simp: observe_speed_def\<close>)

lemma colon_fields_step:
  "CHR '':'' \<notin> set a \<Longrightarrow> colon_fields (Suc n) (a @ CHR '':'' # b) = map_option ((#) a) (colon_fields n b)"
  by (simp add: find_char_append)

lemma is_lower_hex_colon: "list_all is_lower_hex s \<Longrightarrow> CHR '':'' \<notin> set s"
  by (auto simp: list_all_iff is_lower_hex_def)

lemma dec_int_nonneg: "0 \<le> i \<Longrightarrow> dec_int i = dec (nat i)"
  by (simp add: dec_int_def)

definition good_speed :: "speed_record \<Rightarrow> int \<Rightarrow> bool" where
  "good_speed r now \<longleftrightarrow> length (sk_model_sha256 (sp_key r)) = 64
     \<and> list_all is_lower_hex (sk_model_sha256 (sp_key r))
     \<and> sk_context (sp_key r) = context_bucket (sk_context (sp_key r))
     \<and> sk_sessions (sp_key r) = sessions_bucket (sk_sessions (sp_key r))
     \<and> 1 \<le> llround (sp_us_per_gib r) \<and> llround (sp_us_per_gib r) \<le> 1000000000
     \<and> sp_samples r \<noteq> 0 \<and> now - sp_updated_unix_s r \<le> speed_max_age_s * 4"

lemma speed_text_fields:
  assumes "good_speed r now"
  shows "colon_fields 6 (speed_text r now) =
     Some [sk_model_sha256 (sp_key r), if sk_phase (sp_key r) = Decode then ''d'' else ''p'',
       dec_u32 (sk_context (sp_key r)), dec_u32 (sk_sessions (sp_key r)),
       dec_u64 (word_of_int (llround (sp_us_per_gib r))), dec_u32 (sp_samples r),
       dec (nat (max 0 (now - sp_updated_unix_s r)))]"
proof -
  have sha: "CHR '':'' \<notin> set (sk_model_sha256 (sp_key r))"
    using assms by (simp add: good_speed_def is_lower_hex_colon)
  have num: "CHR '':'' \<notin> set (dec k)" for k by (simp add: dec_no_sep)
  have six: "(6 :: nat) = Suc (Suc (Suc (Suc (Suc (Suc 0)))))" by simp
  show ?thesis
    unfolding speed_text_def six
    by (simp add: colon_fields_step colon_fields_step[of "[_]", simplified] sha num dec_u32_def dec_u64_def dec_int_nonneg
        find_char_None del: colon_fields.simps(2))
qed

lemma speed_text_parses:
  assumes "good_speed r now"
  shows "parse_speed_text (speed_text r now) now' =
    Some (r\<lparr>sp_us_per_gib := of_int (llround (sp_us_per_gib r)),
            sp_updated_unix_s := now' - max 0 (now - sp_updated_unix_s r)\<rparr>)"
proof -
  define v where "v = llround (sp_us_per_gib r)"
  define a where "a = max 0 (now - sp_updated_unix_s r)"
  have v: "1 \<le> v" "v \<le> 1000000000" and a: "0 \<le> a" "a \<le> 2419200"
    using assms by (auto simp: good_speed_def v_def a_def speed_max_age_s_def)
  have uv: "uint (word_of_int v :: u64) = v" using v by (simp add: word_of_int_inverse)
  have ua: "from_chars_u64 (dec (nat a)) = Some (word_of_int a)"
    using a by (simp add: from_chars_u64_def from_chars_dec)
  have uia: "uint (word_of_int a :: u64) = a" using a by (simp add: word_of_int_inverse)
  have "speed_fields (sk_model_sha256 (sp_key r)) (if sk_phase (sp_key r) = Decode then ''d'' else ''p'')
      (sk_context (sp_key r)) (sk_sessions (sp_key r)) (word_of_int v) (sp_samples r) (word_of_int a) now'
    = Some (r\<lparr>sp_us_per_gib := of_int v, sp_updated_unix_s := now' - a\<rparr>)"
  proof -
    have "of_int v \<le> max_us_per_gib" using v(2) by (simp add: max_us_per_gib_def)
    moreover have "(word_of_int v :: u64) \<noteq> 0" using uv v(1) by force
    ultimately have "speed_fields (sk_model_sha256 (sp_key r)) ph (sk_context (sp_key r))
        (sk_sessions (sp_key r)) (word_of_int v) (sp_samples r) (word_of_int a) now' =
      Some \<lparr>sp_key = \<lparr>sk_model_sha256 = sk_model_sha256 (sp_key r),
          sk_phase = (if ph = ''d'' then Decode else Prefill),
          sk_context = sk_context (sp_key r), sk_sessions = sk_sessions (sp_key r)\<rparr>,
        sp_us_per_gib = of_int v, sp_samples = sp_samples r, sp_updated_unix_s = now' - a\<rparr>" for ph
      using assms a uv uia by (simp add: speed_fields_def good_speed_def speed_max_age_s_def)
    then show ?thesis
      by (cases "sk_phase (sp_key r)")
        (auto intro!: speed_record.equality speed_key.equality)
  qed
  then show ?thesis
    using assms speed_text_fields[OF assms] ua
    by (simp add: parse_speed_text_def good_speed_def from_chars_u32_dec from_chars_u64_dec v_def a_def)
qed

interpretation records: running_best "comparable wanted now" closer "\<lambda>_. True" for wanted now
  by unfold_locales (auto simp: closer_def)

lemma closest_record_best: "closest_record wanted now rs best = records.best_of wanted now rs best"
  by (induction rs arbitrary: best) auto

definition demo_speed :: speed_record where
  "demo_speed = \<lparr>sp_key = \<lparr>sk_model_sha256 = replicate 64 (CHR ''a''), sk_phase = Decode,
     sk_context = 4096, sk_sessions = 2\<rparr>, sp_us_per_gib = 5000, sp_samples = 40,
     sp_updated_unix_s = 900\<rparr>"

lemma demo_speed_good: "good_speed demo_speed 1000"
proof -
  have "llround 5000 = 5000" using llround_of_int[of 5000] by simp
  moreover have "context_bucket 4096 = 4096" "sessions_bucket 2 = 2" by code_simp+
  moreover have "list_all is_lower_hex (replicate 64 (CHR ''a''))"
    by (simp add: list_all_iff is_lower_hex_def)
  ultimately show ?thesis by (simp add: good_speed_def demo_speed_def speed_max_age_s_def)
qed

lemma kib_per_s_bounds: "kib_per_s es peer now = 0 \<or> 1 \<le> kib_per_s es peer now \<and> kib_per_s es peer now \<le> 104857600"
proof (induction es)
  case (Cons e es)
  define x where "x = (if be_kib_per_s e < 1 then 1
    else if 104857600 < be_kib_per_s e then 104857600 else be_kib_per_s e)"
  have "1 \<le> x" "x \<le> 104857600" by (auto simp: x_def)
  then have t: "1 \<le> trunc x" "trunc x \<le> 104857600"
    by (simp_all add: trunc_def floor_le_iff le_floor_iff)
  then have "uint (word_of_int (trunc x) :: u32) = trunc x" by (simp add: word_of_int_inverse)
  then have "1 \<le> (word_of_int (trunc x) :: u32)" "(word_of_int (trunc x) :: u32) \<le> 104857600"
    using t by (simp_all add: word_le_def)
  with Cons show ?case by (simp add: x_def)
qed simp

section \<open>Properties\<close>

text \<open>
  The speed table stays bounded and loses only its oldest entry. After any observation a
  table of at most 64 records with one record per configuration is such a table again; a
  plausible observation is recorded with its time; and a record of another configuration is
  dropped only from a full table whose every record is at least as recent.
\<close>

theorem speed_table_keeps_recent:
  assumes "length rs \<le> max_speed_records" and "distinct (map sp_key rs)"
  shows "length (observe_speed key us n now rs) \<le> max_speed_records
    \<and> distinct (map sp_key (observe_speed key us n now rs))
    \<and> (\<forall>x. us = Fin x \<and> 0 < x \<and> x \<le> max_us_per_gib \<and> n \<noteq> 0 \<longrightarrow>
         (\<exists>r \<in> set (observe_speed key us n now rs). sp_key r = key \<and> sp_updated_unix_s r = now))
    \<and> (\<forall>r \<in> set rs. sp_key r \<noteq> key \<and> r \<notin> set (observe_speed key us n now rs) \<longrightarrow>
         length rs = max_speed_records
         \<and> (\<forall>r' \<in> set rs. sp_updated_unix_s r \<le> sp_updated_unix_s r'))"
proof -
  have "speeds.table_ok (observe_speed key us n now rs)"
    using assms by (intro observe_speed_ok) (simp add: speeds.table_ok_def)
  then show ?thesis
    using observe_speed_stamp observe_speed_evicts assms(1)
    unfolding speeds.table_ok_def by (metis le_antisym)
qed

theorem speed_table_keeps_recent_witness:
  "\<exists>r \<in> set (observe_speed (sp_key demo_speed) (Fin 7000) 3 1000 [demo_speed]).
     sp_key r = sp_key demo_speed \<and> sp_updated_unix_s r = 1000"
  using speed_table_keeps_recent[of "[demo_speed]" "sp_key demo_speed" "Fin 7000" 3 1000]
  by (simp add: max_speed_records_def max_us_per_gib_def)

text \<open>
  A speed record survives its text. A record with a valid configuration, a rounded speed in
  1 to 1e9, at least one sample and a plausible age is read back, possibly on another machine
  with another clock, with the same configuration and samples, the speed rounded to an integer
  and the same age.
\<close>

theorem speed_text_roundtrip:
  assumes "good_speed r now"
  shows "parse_speed_text (speed_text r now) now' =
    Some (r\<lparr>sp_us_per_gib := of_int (llround (sp_us_per_gib r)),
            sp_updated_unix_s := now' - max 0 (now - sp_updated_unix_s r)\<rparr>)"
  using assms by (rule speed_text_parses)

theorem speed_text_roundtrip_witness:
  "\<exists>r. parse_speed_text (speed_text demo_speed 1000) 50000 = Some r \<and> sp_updated_unix_s r = 49900"
  using speed_text_roundtrip[OF demo_speed_good, of 50000] by (simp add: demo_speed_def)

text \<open>
  A measured estimate never comes from an easier configuration. It is the speed of a record
  of the same model and phase, with at least the wanted context and sessions, enough samples
  and a recent measurement, and no such record is closer to what is wanted; without one the
  fallback is returned and marked as not measured.
\<close>

theorem estimate_speed_conservative:
  "case closest_record wanted now rs None of
     None \<Rightarrow> (\<forall>r \<in> set rs. \<not> comparable wanted now r)
       \<and> estimate_speed rs wanted now fallback = \<lparr>se_us_per_gib = fallback, se_measured = False\<rparr>
   | Some r \<Rightarrow> r \<in> set rs \<and> comparable wanted now r
       \<and> (\<forall>other \<in> set rs. comparable wanted now other \<longrightarrow> \<not> closer other r)
       \<and> estimate_speed rs wanted now fallback
           = \<lparr>se_us_per_gib = Fin (sp_us_per_gib r), se_measured = True\<rparr>"
  using records.best_of_None[of wanted now rs] records.best_of_Best[of wanted now rs]
  by (auto simp: estimate_speed_def closest_record_best split: option.split)

theorem estimate_speed_conservative_witness:
  "estimate_speed [demo_speed] ((sp_key demo_speed)\<lparr>sk_context := 1024\<rparr>) 1000 (Fin 1)
     = \<lparr>se_us_per_gib = Fin 5000, se_measured = True\<rparr>"
  using estimate_speed_conservative[where wanted = "(sp_key demo_speed)\<lparr>sk_context := 1024\<rparr>"
      and now = 1000 and rs = "[demo_speed]" and fallback = "Fin 1"]
  by (simp add: comparable_def demo_speed_def confident_samples_def speed_max_age_s_def)

end
