(* ===== verification/Formation.thy ===== *)
theory Formation
  imports Lease Planner Measurement
begin

text \<open>
  Worker greetings and stage assignments
  (\<^verbatim>\<open>engine/include/provider_owned/formation.hpp\<close>): the two messages with their printers
  and parsers, and planning over the memory that greetings offer. The wall clock a printer or
  parser reads is its argument \<open>now\<close>.
\<close>

section \<open>Greetings and assignments\<close>

record cached_range =
  cg_model_sha256 :: string
  cg_begin :: int
  cg_end :: int

record peer_link =
  pl_peer :: string
  pl_rtt_ms :: u32
  pl_relayed :: bool
  pl_kib_per_s :: u32

record provider_capability =
  pc_id :: string
  pc_gpu :: string
  pc_offered_vram_mib :: u64
  pc_ring_endpoint :: string
  pc_state :: string
  pc_runtime_abi :: string
  pc_max_context :: u32
  pc_max_sessions :: u32
  pc_models :: "string list"
  pc_cached :: "cached_range list"
  pc_speed_us_per_gib :: u64
  pc_speeds :: "speed_record list"
  pc_idle_s :: "u32 option"
  pc_open_sessions :: u32
  pc_links :: "peer_link list"
  pc_replica_owner :: bool
  pc_f16_activations :: bool
  pc_fp8_activations :: bool

definition fresh_capability :: provider_capability where
  "fresh_capability = \<lparr>pc_id = [], pc_gpu = [], pc_offered_vram_mib = 0, pc_ring_endpoint = [],
     pc_state = [], pc_runtime_abi = [], pc_max_context = 0, pc_max_sessions = 0, pc_models = [],
     pc_cached = [], pc_speed_us_per_gib = 0, pc_speeds = [], pc_idle_s = None,
     pc_open_sessions = 0, pc_links = [], pc_replica_owner = False, pc_f16_activations = False,
     pc_fp8_activations = False\<rparr>"

record model_assignment =
  ma_model_id :: string
  ma_url :: string
  ma_revision :: string
  ma_sha256 :: string
  ma_begin :: int
  ma_end :: int
  ma_context :: u32
  ma_sessions :: u32
  ma_next_endpoint :: string
  ma_previous_peer_id :: string

definition fresh_assignment :: model_assignment where
  "fresh_assignment = \<lparr>ma_model_id = [], ma_url = [], ma_revision = [], ma_sha256 = [],
     ma_begin = 0, ma_end = 0, ma_context = 0, ma_sessions = 0, ma_next_endpoint = [],
     ma_previous_peer_id = []\<rparr>"

definition same_model_stage :: "model_assignment \<Rightarrow> model_assignment \<Rightarrow> bool" where
  "same_model_stage a b \<longleftrightarrow> ma_model_id a = ma_model_id b \<and> ma_url a = ma_url b
     \<and> ma_revision a = ma_revision b \<and> ma_sha256 a = ma_sha256 b \<and> ma_begin a = ma_begin b
     \<and> ma_end a = ma_end b \<and> ma_context a = ma_context b \<and> ma_sessions a = ma_sessions b"

section \<open>The assignment message\<close>

definition assignment_message :: "model_assignment \<Rightarrow> string" where
  "assignment_message a =
     ''model_id='' @ ma_model_id a @ CHR 0x0A # ''url='' @ ma_url a
     @ CHR 0x0A # ''revision='' @ ma_revision a @ CHR 0x0A # ''sha256='' @ ma_sha256 a
     @ CHR 0x0A # ''begin='' @ dec_int (ma_begin a) @ CHR 0x0A # ''end='' @ dec_int (ma_end a)
     @ CHR 0x0A # ''context='' @ dec_u32 (ma_context a)
     @ CHR 0x0A # ''sessions='' @ dec_u32 (ma_sessions a)
     @ (if ma_next_endpoint a = [] then [] else CHR 0x0A # ''next='' @ ma_next_endpoint a)
     @ (if ma_previous_peer_id a = [] then []
        else CHR 0x0A # ''previous_peer='' @ ma_previous_peer_id a)"

definition assignment_field ::
    "model_assignment \<Rightarrow> string \<Rightarrow> string \<Rightarrow> model_assignment option" where
  "assignment_field a k v =
     (if k = ''model_id'' then Some (a\<lparr>ma_model_id := v\<rparr>)
      else if k = ''url'' then Some (a\<lparr>ma_url := v\<rparr>)
      else if k = ''revision'' then Some (a\<lparr>ma_revision := v\<rparr>)
      else if k = ''sha256'' then Some (a\<lparr>ma_sha256 := v\<rparr>)
      else if k = ''begin'' then map_option (\<lambda>n. a\<lparr>ma_begin := n\<rparr>) (from_chars_int v)
      else if k = ''end'' then map_option (\<lambda>n. a\<lparr>ma_end := n\<rparr>) (from_chars_int v)
      else if k = ''context'' then map_option (\<lambda>n. a\<lparr>ma_context := n\<rparr>) (from_chars_u32 v)
      else if k = ''sessions'' then map_option (\<lambda>n. a\<lparr>ma_sessions := n\<rparr>) (from_chars_u32 v)
      else if k = ''next'' then Some (a\<lparr>ma_next_endpoint := v\<rparr>)
      else if k = ''previous_peer'' then Some (a\<lparr>ma_previous_peer_id := v\<rparr>)
      else None)"

definition model_id_char :: "char \<Rightarrow> bool" where
  "model_id_char c \<longleftrightarrow> (CHR ''a'' \<le> c \<and> c \<le> CHR ''z'') \<or> (CHR ''A'' \<le> c \<and> c \<le> CHR ''Z'')
     \<or> is_digit c \<or> c = CHR ''-'' \<or> c = CHR ''_'' \<or> c = CHR ''.''"

definition assignment_ok :: "model_assignment \<Rightarrow> bool" where
  "assignment_ok a \<longleftrightarrow> ma_model_id a \<noteq> [] \<and> list_all model_id_char (ma_model_id a)
     \<and> starts_with (ma_url a) ''https://''
     \<and> CHR 0x0D \<notin> set (ma_url a) \<and> CHR 0x0A \<notin> set (ma_url a)
     \<and> hex_string (ma_revision a) 40 \<and> hex_string (ma_sha256 a) 64
     \<and> ma_begin a \<ge> 0 \<and> ma_end a > ma_begin a \<and> ma_context a \<noteq> 0 \<and> ma_sessions a \<noteq> 0
     \<and> valid_ring_target (ma_next_endpoint a)
     \<and> (ma_previous_peer_id a = []
        \<or> ma_next_endpoint a \<noteq> [] \<and> valid_peer_id (ma_previous_peer_id a))"

definition parse_assignment :: "string \<Rightarrow> model_assignment option" where
  "parse_assignment s =
     (case parse_lines assignment_field s fresh_assignment of
        None \<Rightarrow> None | Some a \<Rightarrow> if assignment_ok a then Some a else None)"

definition plan_replica ::
    "nat \<Rightarrow> model_index \<Rightarrow> provider_capability list \<Rightarrow> u32 \<Rightarrow> u32 \<Rightarrow> nat \<Rightarrow> stage_assignment list option" where
  "plan_replica prec m providers context sessions minimum_stages =
     plan_stages prec m (map pc_offered_vram_mib providers) context sessions minimum_stages None"

section \<open>The greeting message\<close>

definition line_of :: "string \<Rightarrow> string \<Rightarrow> string" where
  "line_of key v = CHR 0x0A # key @ CHR ''='' # v"

definition cached_text :: "cached_range \<Rightarrow> string" where
  "cached_text c = cg_model_sha256 c @ '':'' @ dec_int (cg_begin c) @ ''-'' @ dec_int (cg_end c)"

definition link_text :: "peer_link \<Rightarrow> string" where
  "link_text l = pl_peer l @ '':'' @ dec_u32 (pl_rtt_ms l) @ '':''
     @ (if pl_relayed l then ''relay'' else ''direct'')"

definition activations_text :: "provider_capability \<Rightarrow> string" where
  "activations_text p = (if pc_f16_activations p then ''f16'' else [])
     @ (if pc_f16_activations p \<and> pc_fp8_activations p then '','' else [])
     @ (if pc_fp8_activations p then ''fp8'' else [])"

definition opt_line :: "bool \<Rightarrow> string \<Rightarrow> string \<Rightarrow> string" where
  "opt_line shown key v = (if shown then line_of key v else [])"

definition bandwidth_text :: "peer_link \<Rightarrow> string" where
  "bandwidth_text l = pl_peer l @ '':'' @ dec_u32 (pl_kib_per_s l)"

definition available_message :: "provider_capability \<Rightarrow> int \<Rightarrow> string" where
  "available_message p now =
     ''id='' @ pc_id p @ line_of ''gpu'' (pc_gpu p)
     @ line_of ''vram_mib'' (dec_u64 (pc_offered_vram_mib p))
     @ opt_line (pc_ring_endpoint p \<noteq> []) ''ring'' (pc_ring_endpoint p)
     @ opt_line (pc_state p \<noteq> []) ''state'' (pc_state p)
     @ opt_line (pc_runtime_abi p \<noteq> []) ''abi'' (pc_runtime_abi p)
     @ opt_line (pc_max_context p \<noteq> 0) ''max_context'' (dec_u32 (pc_max_context p))
     @ opt_line (pc_max_sessions p \<noteq> 0) ''max_sessions'' (dec_u32 (pc_max_sessions p))
     @ concat (map (line_of ''model'') (pc_models p))
     @ concat (map (\<lambda>c. line_of ''cached'' (cached_text c)) (pc_cached p))
     @ opt_line (pc_speed_us_per_gib p \<noteq> 0) ''speed'' (dec_u64 (pc_speed_us_per_gib p))
     @ concat (map (\<lambda>r. line_of ''measured'' (speed_text r now)) (pc_speeds p))
     @ (case pc_idle_s p of
          None \<Rightarrow> []
        | Some s \<Rightarrow> line_of ''idle_s'' (dec_u32 s)
            @ line_of ''open_sessions'' (dec_u32 (pc_open_sessions p)))
     @ concat (map (\<lambda>l. line_of ''link'' (link_text l)
          @ opt_line (pl_kib_per_s l \<noteq> 0) ''link_bw'' (bandwidth_text l)) (pc_links p))
     @ opt_line (pc_replica_owner p) ''owner'' ''1''
     @ opt_line (pc_f16_activations p \<or> pc_fp8_activations p) ''activations'' (activations_text p)"

definition max_greeting_bytes :: nat where
  "max_greeting_bytes = 65536"

definition max_greeting_name :: nat where
  "max_greeting_name = 128"

definition max_greeting_vram_mib :: u64 where
  "max_greeting_vram_mib = 16777216"

definition max_greeting_context :: u32 where
  "max_greeting_context = 1048576"

definition max_greeting_sessions :: u32 where
  "max_greeting_sessions = 256"

definition max_greeting_models :: nat where
  "max_greeting_models = 64"

definition max_greeting_cached :: nat where
  "max_greeting_cached = 256"

definition max_greeting_layer :: int where
  "max_greeting_layer = 4096"

definition max_greeting_links :: nat where
  "max_greeting_links = 32"

definition max_greeting_kib_per_s :: u32 where
  "max_greeting_kib_per_s = 104857600"

lemmas greeting_limits = max_greeting_bytes_def max_greeting_name_def max_greeting_vram_mib_def
  max_greeting_context_def max_greeting_sessions_def max_greeting_models_def
  max_greeting_cached_def max_greeting_layer_def max_greeting_links_def max_greeting_kib_per_s_def

text \<open>The value of a \<^verbatim>\<open>cached\<close> line: a digest, a colon and two layers.\<close>

definition parse_cached :: "string \<Rightarrow> cached_range option" where
  "parse_cached v =
     (case find_char (CHR '':'') v of
        None \<Rightarrow> None
      | Some colon \<Rightarrow>
          let rest = drop (Suc colon) v
          in case find_char (CHR ''-'') rest of
               None \<Rightarrow> None
             | Some dash \<Rightarrow>
                 if \<not> hex_string (take colon v) 64 then None
                 else
                   (case (from_chars_int (take dash rest), from_chars_int (drop (Suc dash) rest)) of
                      (Some b, Some e) \<Rightarrow>
                        if b < 0 \<or> e \<le> b \<or> e > max_greeting_layer then None
                        else Some \<lparr>cg_model_sha256 = take colon v, cg_begin = b, cg_end = e\<rparr>
                    | _ \<Rightarrow> None))"

definition parse_link :: "string \<Rightarrow> peer_link option" where
  "parse_link v =
     (case find_char (CHR '':'') v of
        None \<Rightarrow> None
      | Some first \<Rightarrow>
          let rest = drop (Suc first) v
          in case find_char (CHR '':'') rest of
               None \<Rightarrow> None
             | Some second \<Rightarrow>
                 if \<not> valid_peer_id (take first v) then None
                 else
                   (case from_chars_u32 (take second rest) of
                      None \<Rightarrow> None
                    | Some rtt \<Rightarrow>
                        let path = drop (Suc second) rest
                        in if rtt > 60000 \<or> (path \<noteq> ''direct'' \<and> path \<noteq> ''relay'') then None
                           else Some \<lparr>pl_peer = take first v, pl_rtt_ms = rtt,
                                  pl_relayed = (path = ''relay''), pl_kib_per_s = 0\<rparr>))"

definition set_link_bw :: "string \<Rightarrow> peer_link list \<Rightarrow> peer_link list option" where
  "set_link_bw v links =
     (case find_char (CHR '':'') v of
        None \<Rightarrow> None
      | Some colon \<Rightarrow>
          (case from_chars_u32 (drop (Suc colon) v) of
             None \<Rightarrow> None
           | Some kib \<Rightarrow>
               if kib = 0 \<or> kib > max_greeting_kib_per_s then None
               else
                 (case find (\<lambda>l. pl_peer l = take colon v) links of
                    None \<Rightarrow> None
                  | Some l \<Rightarrow>
                      if pl_kib_per_s l \<noteq> 0 then None
                      else Some (update_first (\<lambda>l. pl_peer l = take colon v)
                                   (\<lambda>l. l\<lparr>pl_kib_per_s := kib\<rparr>) links))))"

function activation_formats :: "string \<Rightarrow> string list" where
  "activation_formats rest =
     (if rest = [] then []
      else case find_char (CHR '','') rest of
             None \<Rightarrow> [rest]
           | Some comma \<Rightarrow> take comma rest # activation_formats (drop (Suc comma) rest))"
  by pat_completeness auto
termination
  by (relation "measure length") (auto dest: find_char_less)

declare activation_formats.simps [simp del]

definition greeting_field ::
    "int \<Rightarrow> provider_capability \<Rightarrow> string \<Rightarrow> string \<Rightarrow> provider_capability option" where
  "greeting_field now p k v =
     (if k = ''id'' then Some (p\<lparr>pc_id := v\<rparr>)
      else if k = ''gpu'' then Some (p\<lparr>pc_gpu := v\<rparr>)
      else if k = ''vram_mib'' then map_option (\<lambda>n. p\<lparr>pc_offered_vram_mib := n\<rparr>) (from_chars_u64 v)
      else if k = ''ring'' then Some (p\<lparr>pc_ring_endpoint := v\<rparr>)
      else if k = ''state'' then Some (p\<lparr>pc_state := v\<rparr>)
      else if k = ''abi'' then Some (p\<lparr>pc_runtime_abi := v\<rparr>)
      else if k = ''max_context'' then map_option (\<lambda>n. p\<lparr>pc_max_context := n\<rparr>) (from_chars_u32 v)
      else if k = ''max_sessions'' then map_option (\<lambda>n. p\<lparr>pc_max_sessions := n\<rparr>) (from_chars_u32 v)
      else if k = ''model'' then
        (if \<not> hex_string v 64 \<or> length (pc_models p) \<ge> max_greeting_models then None
         else Some (p\<lparr>pc_models := pc_models p @ [v]\<rparr>))
      else if k = ''cached'' then
        (case parse_cached v of
           None \<Rightarrow> None
         | Some c \<Rightarrow> if length (pc_cached p) \<ge> max_greeting_cached then None
                    else Some (p\<lparr>pc_cached := pc_cached p @ [c]\<rparr>))
      else if k = ''speed'' then
        (case from_chars_u64 v of
           None \<Rightarrow> None
         | Some n \<Rightarrow> if n > 1000000000 then None else Some (p\<lparr>pc_speed_us_per_gib := n\<rparr>))
      else if k = ''measured'' then
        (if length (pc_speeds p) \<ge> max_speed_records then None
         else map_option (\<lambda>r. p\<lparr>pc_speeds := pc_speeds p @ [r]\<rparr>) (parse_speed_text v now))
      else if k = ''idle_s'' then map_option (\<lambda>n. p\<lparr>pc_idle_s := Some n\<rparr>) (from_chars_u32 v)
      else if k = ''open_sessions'' then map_option (\<lambda>n. p\<lparr>pc_open_sessions := n\<rparr>) (from_chars_u32 v)
      else if k = ''link'' then
        (if length (pc_links p) \<ge> max_greeting_links then None
         else map_option (\<lambda>l. p\<lparr>pc_links := pc_links p @ [l]\<rparr>) (parse_link v))
      else if k = ''link_bw'' then map_option (\<lambda>ls. p\<lparr>pc_links := ls\<rparr>) (set_link_bw v (pc_links p))
      else if k = ''owner'' then Some (p\<lparr>pc_replica_owner := (v = ''1'')\<rparr>)
      else if k = ''activations'' then
        Some (p\<lparr>pc_f16_activations := pc_f16_activations p \<or> ''f16'' \<in> set (activation_formats v),
                pc_fp8_activations := pc_fp8_activations p \<or> ''fp8'' \<in> set (activation_formats v)\<rparr>)
      else Some p)"

definition greeting_ok :: "provider_capability \<Rightarrow> bool" where
  "greeting_ok p \<longleftrightarrow> pc_id p \<noteq> [] \<and> CHR 0x0D \<notin> set (pc_id p) \<and> CHR 0x0A \<notin> set (pc_id p)
     \<and> length (pc_id p) \<le> max_greeting_name \<and> length (pc_gpu p) \<le> max_greeting_name
     \<and> length (pc_runtime_abi p) \<le> max_greeting_name
     \<and> pc_offered_vram_mib p \<le> max_greeting_vram_mib
     \<and> pc_max_context p \<le> max_greeting_context \<and> pc_max_sessions p \<le> max_greeting_sessions
     \<and> pc_open_sessions p \<le> max_greeting_sessions
     \<and> pc_gpu p \<noteq> [] \<and> pc_offered_vram_mib p \<noteq> 0 \<and> valid_ring_target (pc_ring_endpoint p)
     \<and> (pc_state p = [] \<or> pc_state p = ''available'' \<or> pc_state p = ''reserved''
        \<or> pc_state p = ''loading'' \<or> pc_state p = ''serving'')
     \<and> CHR 0x0D \<notin> set (pc_runtime_abi p) \<and> CHR 0x0A \<notin> set (pc_runtime_abi p)"

definition parse_available :: "string \<Rightarrow> int \<Rightarrow> provider_capability option" where
  "parse_available s now =
     (if length s > max_greeting_bytes then None
      else case parse_lines (greeting_field now) s fresh_capability of
             None \<Rightarrow> None | Some p \<Rightarrow> if greeting_ok p then Some p else None)"

section \<open>The assignment round trip\<close>

definition assignment_fields :: "model_assignment \<Rightarrow> (string \<times> string) list" where
  "assignment_fields a =
     [(''model_id'', ma_model_id a), (''url'', ma_url a), (''revision'', ma_revision a),
      (''sha256'', ma_sha256 a), (''begin'', dec_int (ma_begin a)), (''end'', dec_int (ma_end a)),
      (''context'', dec_u32 (ma_context a)), (''sessions'', dec_u32 (ma_sessions a))]
     @ (if ma_next_endpoint a = [] then [] else [(''next'', ma_next_endpoint a)])
     @ (if ma_previous_peer_id a = [] then [] else [(''previous_peer'', ma_previous_peer_id a)])"

definition good_assignment :: "model_assignment \<Rightarrow> bool" where
  "good_assignment a \<longleftrightarrow> assignment_ok a \<and> ma_end a < 2 ^ 31"

lemma assignment_message_lines: "assignment_message a = lines_text (assignment_fields a)"
  by (simp add: assignment_message_def assignment_fields_def lines_text_def field_text_def)

lemma model_id_clean: "list_all model_id_char s \<Longrightarrow> CHR 0x0A \<notin> set s"
  by (auto simp: list_all_iff model_id_char_def is_digit_def)

lemma assignment_fields_clean: "good_assignment a \<Longrightarrow> list_all clean_field (assignment_fields a)"
  by (auto simp: assignment_fields_def clean_field_def good_assignment_def assignment_ok_def
      dec_int_no_sep dec_u32_clean hex_string_clean model_id_clean valid_ring_target_clean
      dest: valid_peer_id_clean)

lemma assignment_fields_rebuild:
  assumes "good_assignment a"
  shows "handle_all assignment_field (assignment_fields a) fresh_assignment = Some a"
proof -
  have "from_chars_int (dec_int (ma_begin a)) = Some (ma_begin a)"
    "from_chars_int (dec_int (ma_end a)) = Some (ma_end a)"
    using assms by (auto simp: good_assignment_def assignment_ok_def intro!: from_chars_int_dec)
  then show ?thesis
    by (cases a)
      (simp add: assignment_fields_def assignment_field_def fresh_assignment_def from_chars_u32_dec)
qed

interpretation assignment_codec:
  line_codec good_assignment assignment_fields assignment_field fresh_assignment assignment_ok
  by unfold_locales
    (simp_all add: assignment_fields_clean assignment_fields_rebuild good_assignment_def)

lemma assignment_parses: "good_assignment a \<Longrightarrow> parse_assignment (assignment_message a) = Some a"
  using assignment_codec.parse_print[of a]
  by (simp add: parse_assignment_def assignment_message_lines assignment_codec.print_msg_def
      assignment_codec.parse_msg_def)

section \<open>The greeting round trip\<close>

definition opt_field :: "bool \<Rightarrow> string \<Rightarrow> string \<Rightarrow> (string \<times> string) list" where
  "opt_field shown key v = (if shown then [(key, v)] else [])"

definition link_fields :: "peer_link \<Rightarrow> (string \<times> string) list" where
  "link_fields l = (''link'', link_text l) # opt_field (pl_kib_per_s l \<noteq> 0) ''link_bw'' (bandwidth_text l)"

definition idle_fields :: "provider_capability \<Rightarrow> (string \<times> string) list" where
  "idle_fields p =
     (case pc_idle_s p of
        None \<Rightarrow> []
      | Some s \<Rightarrow> [(''idle_s'', dec_u32 s), (''open_sessions'', dec_u32 (pc_open_sessions p))])"

definition later_fields :: "provider_capability \<Rightarrow> int \<Rightarrow> (string \<times> string) list" where
  "later_fields p now =
     [(''gpu'', pc_gpu p), (''vram_mib'', dec_u64 (pc_offered_vram_mib p))]
     @ opt_field (pc_ring_endpoint p \<noteq> []) ''ring'' (pc_ring_endpoint p)
     @ opt_field (pc_state p \<noteq> []) ''state'' (pc_state p)
     @ opt_field (pc_runtime_abi p \<noteq> []) ''abi'' (pc_runtime_abi p)
     @ opt_field (pc_max_context p \<noteq> 0) ''max_context'' (dec_u32 (pc_max_context p))
     @ opt_field (pc_max_sessions p \<noteq> 0) ''max_sessions'' (dec_u32 (pc_max_sessions p))
     @ map (Pair ''model'') (pc_models p)
     @ map (\<lambda>c. (''cached'', cached_text c)) (pc_cached p)
     @ opt_field (pc_speed_us_per_gib p \<noteq> 0) ''speed'' (dec_u64 (pc_speed_us_per_gib p))
     @ map (\<lambda>r. (''measured'', speed_text r now)) (pc_speeds p)
     @ idle_fields p
     @ concat (map link_fields (pc_links p))
     @ opt_field (pc_replica_owner p) ''owner'' ''1''
     @ opt_field (pc_f16_activations p \<or> pc_fp8_activations p) ''activations'' (activations_text p)"

abbreviation lines_after :: "(string \<times> string) list \<Rightarrow> string" where
  "lines_after kvs \<equiv> concat (map (\<lambda>kv. line_of (fst kv) (snd kv)) kvs)"

lemma lines_text_Cons: "lines_text (kv # kvs) = field_text kv @ lines_after kvs"
  by (induction kvs arbitrary: kv)
    (simp_all add: lines_text_def line_of_def field_text_def)

lemma lines_after_opt: "lines_after (opt_field b k v) = opt_line b k v"
  by (simp add: opt_field_def opt_line_def)

lemma lines_after_links:
  "lines_after (concat (map link_fields ls)) =
     concat (map (\<lambda>l. line_of ''link'' (link_text l)
       @ opt_line (pl_kib_per_s l \<noteq> 0) ''link_bw'' (bandwidth_text l)) ls)"
  by (induction ls) (simp_all add: link_fields_def lines_after_opt)

lemma available_message_lines:
  "available_message p now = lines_text ((''id'', pc_id p) # later_fields p now)"
proof -
  have "lines_after (idle_fields p) =
      (case pc_idle_s p of None \<Rightarrow> []
       | Some s \<Rightarrow> line_of ''idle_s'' (dec_u32 s) @ line_of ''open_sessions'' (dec_u32 (pc_open_sessions p)))"
    by (simp add: idle_fields_def split: option.split)
  then show ?thesis
    by (simp add: available_message_def lines_text_Cons later_fields_def lines_after_opt
        lines_after_links comp_def field_text_def)
qed

text \<open>What a worker may send, and what the other side reads: the same but for the speeds, which
  are rounded and dated by the reader's clock.\<close>

definition good_cached :: "cached_range \<Rightarrow> bool" where
  "good_cached c \<longleftrightarrow> hex_string (cg_model_sha256 c) 64 \<and> 0 \<le> cg_begin c
     \<and> cg_begin c < cg_end c \<and> cg_end c \<le> max_greeting_layer"

definition good_link :: "peer_link \<Rightarrow> bool" where
  "good_link l \<longleftrightarrow> valid_peer_id (pl_peer l) \<and> pl_rtt_ms l \<le> 60000
     \<and> pl_kib_per_s l \<le> max_greeting_kib_per_s"

definition good_greeting :: "provider_capability \<Rightarrow> int \<Rightarrow> bool" where
  "good_greeting p now \<longleftrightarrow> greeting_ok p \<and> CHR 0x0A \<notin> set (pc_gpu p)
     \<and> list_all (\<lambda>m. hex_string m 64) (pc_models p) \<and> length (pc_models p) \<le> max_greeting_models
     \<and> list_all good_cached (pc_cached p) \<and> length (pc_cached p) \<le> max_greeting_cached
     \<and> pc_speed_us_per_gib p \<le> 1000000000
     \<and> list_all (\<lambda>r. good_speed r now) (pc_speeds p) \<and> length (pc_speeds p) \<le> max_speed_records
     \<and> (pc_idle_s p = None \<longrightarrow> pc_open_sessions p = 0)
     \<and> list_all good_link (pc_links p) \<and> distinct (map pl_peer (pc_links p))
     \<and> length (pc_links p) \<le> max_greeting_links
     \<and> length (available_message p now) \<le> max_greeting_bytes"

definition received_speed :: "int \<Rightarrow> int \<Rightarrow> speed_record \<Rightarrow> speed_record" where
  "received_speed now now' r =
     r\<lparr>sp_us_per_gib := of_int (llround (sp_us_per_gib r)),
       sp_updated_unix_s := now' - max 0 (now - sp_updated_unix_s r)\<rparr>"

text \<open>One lemma per kind of line.\<close>

lemma handle_opt: "handle_all h (opt_field b k v) r = (if b then h r k v else Some r)"
  by (simp add: opt_field_def split: option.split)

lemma peer_no_colon: "valid_peer_id v \<Longrightarrow> CHR '':'' \<notin> set v"
  by (auto simp: valid_peer_id_def list_all_iff base58_char_def)

lemma parse_cached_text: "good_cached c \<Longrightarrow> parse_cached (cached_text c) = Some c"
proof -
  assume c: "good_cached c"
  have 1: "find_char (CHR '':'') (cached_text c) = Some (length (cg_model_sha256 c))"
    using c hex_string_clean[of "cg_model_sha256 c" 64 "CHR '':''"]
    by (simp add: cached_text_def good_cached_def find_char_append)
  have b: "dec_int (cg_begin c) = dec (nat (cg_begin c))"
    using c by (simp add: dec_int_nonneg good_cached_def)
  have 2: "find_char (CHR ''-'') (dec_int (cg_begin c) @ CHR ''-'' # e) = Some (length (dec_int (cg_begin c)))"
    for e unfolding b by (rule find_char_append) (simp add: dec_no_sep)
  have "from_chars_int (dec_int (cg_begin c)) = Some (cg_begin c)"
    "from_chars_int (dec_int (cg_end c)) = Some (cg_end c)"
    using c by (auto simp: good_cached_def max_greeting_layer_def intro!: from_chars_int_dec)
  with c 1 2 show ?thesis
    by (simp add: parse_cached_def cached_text_def good_cached_def Let_def)
qed

lemma parse_link_text: "good_link l \<Longrightarrow> parse_link (link_text l) = Some (l\<lparr>pl_kib_per_s := 0\<rparr>)"
proof -
  assume l: "good_link l"
  have 1: "find_char (CHR '':'') (link_text l) = Some (length (pl_peer l))"
    using l by (simp add: link_text_def good_link_def find_char_append peer_no_colon)
  have 2: "find_char (CHR '':'') (dec_u32 (pl_rtt_ms l) @ CHR '':'' # e) = Some (length (dec_u32 (pl_rtt_ms l)))"
    for e by (rule find_char_append) (simp add: dec_u32_def dec_no_sep)
  from l 1 2 show ?thesis
    by (cases l) (simp add: parse_link_def link_text_def good_link_def Let_def from_chars_u32_dec not_less)
qed

lemma set_link_bw_last:
  assumes "good_link l" and "pl_kib_per_s l \<noteq> 0" and "pl_peer l \<notin> pl_peer ` set ls"
  shows "set_link_bw (bandwidth_text l) (ls @ [l\<lparr>pl_kib_per_s := 0\<rparr>]) = Some (ls @ [l])"
proof -
  have f: "find_char (CHR '':'') (bandwidth_text l) = Some (length (pl_peer l))"
    using assms(1) by (simp add: bandwidth_text_def good_link_def find_char_append peer_no_colon)
  have "find (\<lambda>x. pl_peer x = pl_peer l) (ls @ [l\<lparr>pl_kib_per_s := 0\<rparr>]) = Some (l\<lparr>pl_kib_per_s := 0\<rparr>)"
    "update_first (\<lambda>x. pl_peer x = pl_peer l) (\<lambda>x. x\<lparr>pl_kib_per_s := pl_kib_per_s l\<rparr>)
       (ls @ [l\<lparr>pl_kib_per_s := 0\<rparr>]) = ls @ [l]"
    using assms(3) by (induction ls) auto
  with f assms show ?thesis
    by (simp add: set_link_bw_def bandwidth_text_def good_link_def from_chars_u32_dec not_less)
qed

text \<open>The handler on the lines of a greeting, from a record that has not seen the key yet.\<close>

lemma greeting_keys:
  "greeting_field now r ''id'' x = Some (r\<lparr>pc_id := x\<rparr>)"
  "greeting_field now r ''gpu'' x = Some (r\<lparr>pc_gpu := x\<rparr>)"
  "greeting_field now r ''vram_mib'' (dec_u64 w) = Some (r\<lparr>pc_offered_vram_mib := w\<rparr>)"
  "greeting_field now r ''ring'' x = Some (r\<lparr>pc_ring_endpoint := x\<rparr>)"
  "greeting_field now r ''state'' x = Some (r\<lparr>pc_state := x\<rparr>)"
  "greeting_field now r ''abi'' x = Some (r\<lparr>pc_runtime_abi := x\<rparr>)"
  "greeting_field now r ''max_context'' (dec_u32 c) = Some (r\<lparr>pc_max_context := c\<rparr>)"
  "greeting_field now r ''max_sessions'' (dec_u32 c) = Some (r\<lparr>pc_max_sessions := c\<rparr>)"
  "w \<le> 1000000000 \<Longrightarrow> greeting_field now r ''speed'' (dec_u64 w) = Some (r\<lparr>pc_speed_us_per_gib := w\<rparr>)"
  "greeting_field now r ''owner'' ''1'' = Some (r\<lparr>pc_replica_owner := True\<rparr>)"
  by (simp_all add: greeting_field_def from_chars_u32_dec from_chars_u64_dec not_less)

lemma unchanged_fields:
  "pc_ring_endpoint r = [] \<Longrightarrow> r\<lparr>pc_ring_endpoint := []\<rparr> = r"
  "pc_state r = [] \<Longrightarrow> r\<lparr>pc_state := []\<rparr> = r"
  "pc_runtime_abi r = [] \<Longrightarrow> r\<lparr>pc_runtime_abi := []\<rparr> = r"
  "pc_max_context r = 0 \<Longrightarrow> r\<lparr>pc_max_context := 0\<rparr> = r"
  "pc_max_sessions r = 0 \<Longrightarrow> r\<lparr>pc_max_sessions := 0\<rparr> = r"
  "pc_speed_us_per_gib r = 0 \<Longrightarrow> r\<lparr>pc_speed_us_per_gib := 0\<rparr> = r"
  "\<not> pc_replica_owner r \<Longrightarrow> r\<lparr>pc_replica_owner := False\<rparr> = r"
  by (cases r, simp)+

lemma greeting_opt_fields:
  "pc_ring_endpoint r = [] \<Longrightarrow> handle_all (greeting_field now) (opt_field (x \<noteq> []) ''ring'' x) r
     = Some (r\<lparr>pc_ring_endpoint := x\<rparr>)"
  "pc_state r = [] \<Longrightarrow> handle_all (greeting_field now) (opt_field (x \<noteq> []) ''state'' x) r
     = Some (r\<lparr>pc_state := x\<rparr>)"
  "pc_runtime_abi r = [] \<Longrightarrow> handle_all (greeting_field now) (opt_field (x \<noteq> []) ''abi'' x) r
     = Some (r\<lparr>pc_runtime_abi := x\<rparr>)"
  "pc_max_context r = 0 \<Longrightarrow> handle_all (greeting_field now) (opt_field (c \<noteq> 0) ''max_context'' (dec_u32 c)) r
     = Some (r\<lparr>pc_max_context := c\<rparr>)"
  "pc_max_sessions r = 0 \<Longrightarrow> handle_all (greeting_field now) (opt_field (c \<noteq> 0) ''max_sessions'' (dec_u32 c)) r
     = Some (r\<lparr>pc_max_sessions := c\<rparr>)"
  "pc_speed_us_per_gib r = 0 \<Longrightarrow> w \<le> 1000000000 \<Longrightarrow>
     handle_all (greeting_field now) (opt_field (w \<noteq> 0) ''speed'' (dec_u64 w)) r
     = Some (r\<lparr>pc_speed_us_per_gib := w\<rparr>)"
  "\<not> pc_replica_owner r \<Longrightarrow> handle_all (greeting_field now) (opt_field b ''owner'' ''1'') r
     = Some (r\<lparr>pc_replica_owner := b\<rparr>)"
  by (simp_all add: handle_opt greeting_keys unchanged_fields)

lemma greeting_activations:
  assumes "\<not> pc_f16_activations r" and "\<not> pc_fp8_activations r"
  shows "handle_all (greeting_field now)
      (opt_field (pc_f16_activations p \<or> pc_fp8_activations p) ''activations'' (activations_text p)) r
    = Some (r\<lparr>pc_f16_activations := pc_f16_activations p, pc_fp8_activations := pc_fp8_activations p\<rparr>)"
proof -
  have "activation_formats ''f16'' = [''f16'']" "activation_formats ''fp8'' = [''fp8'']"
    "activation_formats ''f16,fp8'' = [''f16'', ''fp8'']"
    by (simp_all add: activation_formats.simps)
  with assms show ?thesis
    by (cases r) (auto simp: handle_opt greeting_field_def activations_text_def)
qed

lemma greeting_models:
  "list_all (\<lambda>m. hex_string m 64) ms \<Longrightarrow> length (pc_models r) + length ms \<le> max_greeting_models \<Longrightarrow>
   handle_all (greeting_field now) (map (Pair ''model'') ms) r = Some (r\<lparr>pc_models := pc_models r @ ms\<rparr>)"
  by (induction ms arbitrary: r) (auto simp: greeting_field_def)

lemma greeting_cached:
  "list_all good_cached cs \<Longrightarrow> length (pc_cached r) + length cs \<le> max_greeting_cached \<Longrightarrow>
   handle_all (greeting_field now) (map (\<lambda>c. (''cached'', cached_text c)) cs) r
     = Some (r\<lparr>pc_cached := pc_cached r @ cs\<rparr>)"
  by (induction cs arbitrary: r) (auto simp: greeting_field_def parse_cached_text)

lemma greeting_speeds:
  "list_all (\<lambda>x. good_speed x now) rs \<Longrightarrow> length (pc_speeds r) + length rs \<le> max_speed_records \<Longrightarrow>
   handle_all (greeting_field now') (map (\<lambda>x. (''measured'', speed_text x now)) rs) r
     = Some (r\<lparr>pc_speeds := pc_speeds r @ map (received_speed now now') rs\<rparr>)"
  by (induction rs arbitrary: r) (auto simp: greeting_field_def speed_text_parses received_speed_def)

lemma greeting_idle:
  assumes "pc_idle_s p = None \<longrightarrow> pc_open_sessions p = 0" and "pc_idle_s r = None" and "pc_open_sessions r = 0"
  shows "handle_all (greeting_field now) (idle_fields p) r
    = Some (r\<lparr>pc_idle_s := pc_idle_s p, pc_open_sessions := pc_open_sessions p\<rparr>)"
  using assms
  by (cases r; cases "pc_idle_s p") (simp_all add: idle_fields_def greeting_field_def from_chars_u32_dec)

lemma greeting_link:
  assumes "good_link l" and "pl_peer l \<notin> pl_peer ` set (pc_links r)" and "length (pc_links r) < max_greeting_links"
  shows "handle_all (greeting_field now) (link_fields l) r = Some (r\<lparr>pc_links := pc_links r @ [l]\<rparr>)"
proof -
  have "greeting_field now r ''link'' (link_text l) = Some (r\<lparr>pc_links := pc_links r @ [l\<lparr>pl_kib_per_s := 0\<rparr>]\<rparr>)"
    using assms(1,3) by (simp add: greeting_field_def parse_link_text)
  moreover have "greeting_field now (r\<lparr>pc_links := pc_links r @ [l\<lparr>pl_kib_per_s := 0\<rparr>]\<rparr>) ''link_bw'' (bandwidth_text l)
      = Some (r\<lparr>pc_links := pc_links r @ [l]\<rparr>)" if "pl_kib_per_s l \<noteq> 0"
    using set_link_bw_last[OF assms(1) that assms(2)] by (simp add: greeting_field_def)
  moreover have "l\<lparr>pl_kib_per_s := 0\<rparr> = l" if "pl_kib_per_s l = 0" using that by (cases l) simp
  ultimately show ?thesis by (simp add: link_fields_def handle_opt)
qed

lemma greeting_links:
  "list_all good_link ls \<Longrightarrow> distinct (map pl_peer (pc_links r @ ls)) \<Longrightarrow>
   length (pc_links r) + length ls \<le> max_greeting_links \<Longrightarrow>
   handle_all (greeting_field now) (concat (map link_fields ls)) r = Some (r\<lparr>pc_links := pc_links r @ ls\<rparr>)"
proof (induction ls arbitrary: r)
  case (Cons l ls)
  then have "handle_all (greeting_field now) (link_fields l) r = Some (r\<lparr>pc_links := pc_links r @ [l]\<rparr>)"
    by (intro greeting_link) auto
  with Cons show ?case by (simp add: handle_all_append)
qed simp

lemma greeting_fields_rebuild:
  assumes "good_greeting p now"
  shows "handle_all (greeting_field now') ((''id'', pc_id p) # later_fields p now) fresh_capability
    = Some (p\<lparr>pc_speeds := map (received_speed now now') (pc_speeds p)\<rparr>)"
proof -
  have "handle_all (greeting_field now') ((''id'', pc_id p) # later_fields p now) fresh_capability =
      Some \<lparr>pc_id = pc_id p, pc_gpu = pc_gpu p, pc_offered_vram_mib = pc_offered_vram_mib p,
        pc_ring_endpoint = pc_ring_endpoint p, pc_state = pc_state p,
        pc_runtime_abi = pc_runtime_abi p, pc_max_context = pc_max_context p,
        pc_max_sessions = pc_max_sessions p, pc_models = pc_models p, pc_cached = pc_cached p,
        pc_speed_us_per_gib = pc_speed_us_per_gib p,
        pc_speeds = map (received_speed now now') (pc_speeds p), pc_idle_s = pc_idle_s p,
        pc_open_sessions = pc_open_sessions p, pc_links = pc_links p,
        pc_replica_owner = pc_replica_owner p, pc_f16_activations = pc_f16_activations p,
        pc_fp8_activations = pc_fp8_activations p\<rparr>"
    using assms unfolding good_greeting_def fresh_capability_def
    by (simp add: later_fields_def handle_all_append greeting_keys greeting_opt_fields greeting_activations
        greeting_models greeting_cached greeting_speeds greeting_idle greeting_links)
  then show ?thesis by (cases p) simp
qed

lemma opt_field_clean: "list_all clean_field (opt_field b k v) \<longleftrightarrow> (b \<longrightarrow> clean_field (k, v))"
  by (simp add: opt_field_def)

lemma speed_text_clean:
  assumes "good_speed r now"
  shows "CHR 0x0A \<notin> set (speed_text r now)"
proof -
  have "CHR 0x0A \<notin> set (sk_model_sha256 (sp_key r))"
    using assms by (auto simp: good_speed_def list_all_iff is_lower_hex_def)
  then show ?thesis
    by (simp add: speed_text_def dec_u32_clean dec_u64_def dec_no_sep dec_int_no_sep)
qed

lemma link_fields_clean: "good_link l \<Longrightarrow> list_all clean_field (link_fields l)"
  by (simp add: link_fields_def opt_field_clean clean_field_def link_text_def bandwidth_text_def
      good_link_def valid_peer_id_clean dec_u32_clean)

lemma greeting_fields_clean:
  assumes "good_greeting p now"
  shows "list_all clean_field ((''id'', pc_id p) # later_fields p now)"
proof -
  have hex: "CHR 0x0A \<notin> set m" if "hex_string m 64" for m
    using hex_string_clean[OF that, of "CHR 0x0A"] by simp
  have ok: "greeting_ok p" using assms by (simp add: good_greeting_def)
  have "pc_state p \<in> {[], ''available'', ''reserved'', ''loading'', ''serving''}"
    using ok by (auto simp: greeting_ok_def)
  then have st: "CHR 0x0A \<notin> set (pc_state p)" by auto
  have "list_all clean_field (map (Pair ''model'') (pc_models p))"
    "list_all clean_field (map (\<lambda>c. (''cached'', cached_text c)) (pc_cached p))"
    "list_all clean_field (map (\<lambda>r. (''measured'', speed_text r now)) (pc_speeds p))"
    using assms
    by (auto simp: good_greeting_def list_all_iff clean_field_def cached_text_def good_cached_def hex
        dec_int_no_sep speed_text_clean)
  moreover have "list_all clean_field (concat (map link_fields ls))" if "list_all good_link ls" for ls
    using that by (induction ls) (simp_all add: link_fields_clean)
  moreover have "list_all clean_field (idle_fields p)"
    by (simp add: idle_fields_def clean_field_def dec_u32_clean split: option.split)
  ultimately show ?thesis
    using assms ok st
    by (simp add: later_fields_def opt_field_clean good_greeting_def greeting_ok_def clean_field_def
        dec_u32_clean dec_u64_def dec_no_sep valid_ring_target_clean activations_text_def)
qed

lemma greeting_parses:
  assumes "good_greeting p now"
  shows "parse_available (available_message p now) now'
    = Some (p\<lparr>pc_speeds := map (received_speed now now') (pc_speeds p)\<rparr>)"
proof -
  let ?q = "p\<lparr>pc_speeds := map (received_speed now now') (pc_speeds p)\<rparr>"
  have "parse_lines (greeting_field now') (available_message p now) fresh_capability = Some ?q"
    unfolding available_message_lines parse_lines_lines_text[OF greeting_fields_clean[OF assms]]
    by (rule greeting_fields_rebuild[OF assms])
  moreover have "greeting_ok ?q" using assms by (simp add: good_greeting_def greeting_ok_def)
  moreover have "length (available_message p now) \<le> max_greeting_bytes"
    using assms by (simp add: good_greeting_def)
  ultimately show ?thesis by (simp add: parse_available_def)
qed

section \<open>Bounds on what a peer can claim\<close>

definition plausible_speed :: "speed_record \<Rightarrow> bool" where
  "plausible_speed r \<longleftrightarrow> 1 \<le> sp_us_per_gib r \<and> sp_us_per_gib r \<le> max_us_per_gib \<and> sp_samples r \<noteq> 0"

definition claims_bounded :: "provider_capability \<Rightarrow> bool" where
  "claims_bounded p \<longleftrightarrow> length (pc_models p) \<le> max_greeting_models
     \<and> list_all (\<lambda>m. hex_string m 64) (pc_models p)
     \<and> length (pc_cached p) \<le> max_greeting_cached \<and> list_all good_cached (pc_cached p)
     \<and> length (pc_speeds p) \<le> max_speed_records \<and> list_all plausible_speed (pc_speeds p)
     \<and> length (pc_links p) \<le> max_greeting_links \<and> list_all good_link (pc_links p)
     \<and> pc_speed_us_per_gib p \<le> 1000000000"

lemma parse_speed_plausible: "parse_speed_text s now = Some r \<Longrightarrow> plausible_speed r"
proof -
  have "speed_fields a b c d v n g now = Some r \<Longrightarrow> plausible_speed r" for a b c d v n g
  proof -
    assume "speed_fields a b c d v n g now = Some r"
    then have *: "v \<noteq> 0" "of_int (uint v) \<le> max_us_per_gib" "n \<noteq> 0"
      "sp_us_per_gib r = of_int (uint v)" "sp_samples r = n"
      by (auto simp: speed_fields_def split: if_splits)
    have "0 < uint v" using *(1) by (simp add: word_neq_0_conv word_less_def)
    then have "1 \<le> uint v" by simp
    then have "(1 :: rat) \<le> of_int (uint v)" by (simp only: of_int_1_le_iff)
    with * show ?thesis by (simp add: plausible_speed_def)
  qed
  moreover assume "parse_speed_text s now = Some r"
  ultimately show ?thesis
    by (auto simp: parse_speed_text_def split: option.splits list.splits if_splits)
qed

lemma parse_cached_good: "parse_cached v = Some c \<Longrightarrow> good_cached c"
  by (auto simp: parse_cached_def good_cached_def Let_def split: option.splits if_splits)

lemma parse_link_good: "parse_link v = Some l \<Longrightarrow> good_link l"
  by (auto simp: parse_link_def good_link_def Let_def split: option.splits if_splits)

lemma set_link_bw_good:
  assumes "set_link_bw v ls = Some ls'" and "list_all good_link ls"
  shows "length ls' = length ls \<and> list_all good_link ls'"
proof -
  from assms(1) obtain P kib where ls': "ls' = update_first P (\<lambda>l. l\<lparr>pl_kib_per_s := kib\<rparr>) ls"
    and kib: "kib \<le> max_greeting_kib_per_s"
    by (auto simp: set_link_bw_def not_less split: option.splits if_splits)
  have "good_link l" if "l \<in> set ls'" for l
    using update_first_set[of l P "\<lambda>l. l\<lparr>pl_kib_per_s := kib\<rparr>" ls] that ls' kib assms(2)
    by (auto simp: good_link_def list_all_iff)
  then show ?thesis by (simp add: ls' list_all_iff)
qed

lemma greeting_field_bounded:
  assumes "claims_bounded p" and "greeting_field now p k v = Some q"
  shows "claims_bounded q"
  using assms
  by (auto simp: greeting_field_def claims_bounded_def split: if_splits option.splits
      dest: parse_cached_good parse_speed_plausible parse_link_good set_link_bw_good)

lemma greeting_bounded:
  assumes "parse_available s now = Some p"
  shows "claims_bounded p \<and> greeting_ok p \<and> length s \<le> max_greeting_bytes"
proof -
  have l: "parse_lines (greeting_field now) s fresh_capability = Some p" and "greeting_ok p"
    "length s \<le> max_greeting_bytes"
    using assms by (auto simp: parse_available_def split: if_splits option.splits)
  moreover have "claims_bounded p"
  proof (rule parse_lines_invariant[OF _ _ l])
    show "claims_bounded fresh_capability"
      by (simp add: claims_bounded_def fresh_capability_def)
  qed (rule greeting_field_bounded)
  ultimately show ?thesis by simp
qed

text \<open>A serving worker with one model, one cached range, one speed and one measured link.\<close>

definition sample_greeting :: provider_capability where
  "sample_greeting = fresh_capability\<lparr>pc_id := ''w1'', pc_gpu := ''RTX'', pc_offered_vram_mib := 24576,
     pc_state := ''serving'', pc_max_context := 8192, pc_models := [replicate 64 (CHR ''a'')],
     pc_cached := [\<lparr>cg_model_sha256 = replicate 64 (CHR ''a''), cg_begin = 0, cg_end = 12\<rparr>],
     pc_speeds := [demo_speed], pc_idle_s := Some 30, pc_open_sessions := 1,
     pc_links := [\<lparr>pl_peer = sample_peer, pl_rtt_ms = 25, pl_relayed = False, pl_kib_per_s = 9000\<rparr>],
     pc_f16_activations := True, pc_fp8_activations := True\<rparr>"

lemma sample_greeting_good: "good_greeting sample_greeting 1000"
  by code_simp

definition sample_assignment :: model_assignment where
  "sample_assignment = \<lparr>ma_model_id = ''qwen2.5-7b'', ma_url = ''https://host/m.gguf'',
     ma_revision = replicate 40 (CHR ''b''), ma_sha256 = replicate 64 (CHR ''a''), ma_begin = 0,
     ma_end = 12, ma_context = 4096, ma_sessions = 4, ma_next_endpoint = ''10.0.0.7:9000'',
     ma_previous_peer_id = sample_peer\<rparr>"

lemma sample_assignment_good: "good_assignment sample_assignment"
  by code_simp

section \<open>Properties\<close>

text \<open>
  An assignment reaches the worker unchanged: every assignment that the parser would accept
  and whose layers are \<^verbatim>\<open>int\<close> values is parsed back from its message exactly.
\<close>

theorem assignment_roundtrip:
  assumes "good_assignment a"
  shows "parse_assignment (assignment_message a) = Some a"
  using assms by (rule assignment_parses)

theorem assignment_roundtrip_witness:
  "parse_assignment (assignment_message sample_assignment) = Some sample_assignment"
  using assignment_roundtrip[OF sample_assignment_good] .

text \<open>
  C34. A worker's greeting is understood in full: whatever models, cached ranges, links,
  activation formats and limits it states within the bounds arrive as stated, and its speeds
  arrive rounded to integers with their ages kept.
\<close>

theorem greeting_roundtrip:
  assumes "good_greeting p now"
  shows "parse_available (available_message p now) now'
    = Some (p\<lparr>pc_speeds := map (received_speed now now') (pc_speeds p)\<rparr>)"
  using assms by (rule greeting_parses)

theorem greeting_roundtrip_witness:
  "\<exists>q. parse_available (available_message sample_greeting 1000) 5000 = Some q
     \<and> pc_links q = pc_links sample_greeting"
  using greeting_roundtrip[OF sample_greeting_good, of 5000] by simp

text \<open>
  C33. No greeting can claim more than the bounds, whatever bytes a peer sends: an accepted
  greeting is at most 64 KiB; its name and GPU are given, and they and the runtime ABI have at most
  128 bytes; the name and the ABI hold no line break; the memory is between 1 MiB and 16 TiB,
  the context at most 2^20 and the sessions, allowed and open, at most 256; it has at most 64
  models, 256 cached ranges, 64 speeds and 32 links; every model is named by 64 hexadecimal digits,
  every cached range is a non-empty range of layers up to 4096, every speed is between 1 and 10^9
  microseconds per GiB from at least one sample, and every link has a PeerID, a round trip of at
  most a minute and a bandwidth of at most 100 GiB/s.
\<close>

theorem greeting_claims_bounded:
  assumes "parse_available s now = Some p"
  shows "length s \<le> 65536
    \<and> pc_id p \<noteq> [] \<and> pc_gpu p \<noteq> []
    \<and> length (pc_id p) \<le> 128 \<and> length (pc_gpu p) \<le> 128 \<and> length (pc_runtime_abi p) \<le> 128
    \<and> {CHR 0x0D, CHR 0x0A} \<inter> (set (pc_id p) \<union> set (pc_runtime_abi p)) = {}
    \<and> 0 < unat (pc_offered_vram_mib p) \<and> unat (pc_offered_vram_mib p) \<le> 16 * 1024 * 1024
    \<and> unat (pc_max_context p) \<le> 1048576
    \<and> unat (pc_max_sessions p) \<le> 256 \<and> unat (pc_open_sessions p) \<le> 256
    \<and> length (pc_models p) \<le> 64 \<and> (\<forall>m \<in> set (pc_models p). length m = 64 \<and> list_all is_hex m)
    \<and> length (pc_cached p) \<le> 256
    \<and> (\<forall>c \<in> set (pc_cached p). 0 \<le> cg_begin c \<and> cg_begin c < cg_end c \<and> cg_end c \<le> 4096)
    \<and> length (pc_speeds p) \<le> 64
    \<and> (\<forall>r \<in> set (pc_speeds p). 1 \<le> sp_us_per_gib r \<and> sp_us_per_gib r \<le> 1000000000 \<and> sp_samples r \<noteq> 0)
    \<and> length (pc_links p) \<le> 32
    \<and> (\<forall>l \<in> set (pc_links p). valid_peer_id (pl_peer l) \<and> unat (pl_rtt_ms l) \<le> 60000
         \<and> unat (pl_kib_per_s l) \<le> 100 * 1024 * 1024)"
  using greeting_bounded[OF assms]
  by (simp add: claims_bounded_def greeting_ok_def greeting_limits max_speed_records_def max_us_per_gib_def
      good_cached_def good_link_def plausible_speed_def list_all_iff hex_string_def word_le_nat_alt unat_gt_0)

theorem greeting_claims_bounded_witness:
  "\<exists>p. parse_available (available_message sample_greeting 1000) 5000 = Some p
     \<and> unat (pc_open_sessions p) \<le> 256 \<and> length (pc_links p) \<le> 32"
proof -
  from greeting_parses[OF sample_greeting_good, of 5000] obtain p where
    p: "parse_available (available_message sample_greeting 1000) 5000 = Some p" by simp
  from greeting_claims_bounded[OF p] have "unat (pc_open_sessions p) \<le> 256" "length (pc_links p) \<le> 32"
    by blast+
  with p show ?thesis by blast
qed

end
