(* ===== verification/Discovery.thy ===== *)
theory Discovery
  imports Ring_Route Formation
begin

text \<open>
  The line protocol between a client and its local sidecar (\<^verbatim>\<open>engine/placement.cpp\<close>):
  finding candidate workers and ready replicas, and probing links. The sidecar is the parameter
  \<open>sidecar\<close>: for a query, either the error of connecting, or whether the query was sent and
  the blocks that \<^verbatim>\<open>recv\<close> then returned, an empty block for a closed or failed
  connection. \<open>pton\<close> is \<^verbatim>\<open>inet_pton\<close> and \<open>ulong_max\<close> the largest
  \<^verbatim>\<open>unsigned long\<close>. A thrown error is \<^const>\<open>Inl\<close> with its message.
\<close>

type_synonym sidecar = "string \<Rightarrow> string + bool \<times> string list"

section \<open>Reading a reply\<close>

text \<open>\<^verbatim>\<open>strtoul\<close> and \<^verbatim>\<open>strtoull\<close> in base ten.\<close>

definition c_space :: "char \<Rightarrow> bool" where
  "c_space c \<longleftrightarrow> c = CHR '' '' \<or> CHR 0x09 \<le> c \<and> c \<le> CHR 0x0D"

definition strtoul :: "nat \<Rightarrow> string \<Rightarrow> nat" where
  "strtoul limit s =
     (let s = dropWhile c_space s;
          neg = (s \<noteq> [] \<and> hd s = CHR ''-'');
          s = (if s \<noteq> [] \<and> (hd s = CHR ''-'' \<or> hd s = CHR ''+'') then tl s else s);
          n = digits_val (takeWhile is_digit s)
      in if n > limit then limit else if neg then (limit + 1 - n) mod (limit + 1) else n)"

definition to_u32 :: "nat \<Rightarrow> string \<Rightarrow> u32" where
  "to_u32 ulong_max s = word_of_nat (strtoul ulong_max s)"

fun receive_reply :: "(string \<Rightarrow> bool) \<Rightarrow> string list \<Rightarrow> string \<Rightarrow> string" where
  "receive_reply finished [] text_so_far = text_so_far"
| "receive_reply finished (block # blocks) text_so_far =
     (if length text_so_far \<ge> 1048576 \<or> block = [] then text_so_far
      else
        let got = text_so_far @ block
        in if finished got then got else receive_reply finished blocks got)"

function split_fields :: "string \<Rightarrow> string list" where
  "split_fields s =
     (if s = [] then []
      else case find_char (CHR '' '') s of None \<Rightarrow> [s] | Some i \<Rightarrow> take i s # split_fields (drop (i + 1) s))"
  by pat_completeness auto
termination
  by (relation "measure length") auto

declare split_fields.simps [simp del]

text \<open>The lines that end in a newline; the rest after the last one is not read.\<close>

function full_lines :: "string \<Rightarrow> string list" where
  "full_lines s =
     (if s = [] then []
      else case find_char (CHR 0x0A) s of None \<Rightarrow> [] | Some i \<Rightarrow> take i s # full_lines (drop (i + 1) s))"
  by pat_completeness auto
termination
  by (relation "measure length") auto

declare full_lines.simps [simp del]

definition loopback :: "(string \<Rightarrow> (nat \<times> nat \<times> nat \<times> nat) option) \<Rightarrow> string \<Rightarrow> bool" where
  "loopback pton v \<longleftrightarrow> valid_private_endpoint pton v \<and> starts_with v ''127.''"

section \<open>Candidates\<close>

record placement_candidate =
  pk_control :: string
  pk_peer_id :: string
  pk_rtt_ms :: u32
  pk_relayed :: bool
  pk_offered_mib :: u64
  pk_local :: bool
  pk_busy :: bool

record discovery =
  dv_self_peer :: string
  dv_return_listen :: string
  dv_return_prefix :: string
  dv_candidates :: "placement_candidate list"

definition candidate_of :: "nat \<Rightarrow> string list \<Rightarrow> placement_candidate" where
  "candidate_of ulong_max parts =
     \<lparr>pk_control = parts ! 2, pk_peer_id = parts ! 1,
      pk_rtt_ms = (if length parts \<ge> 7 then to_u32 ulong_max (parts ! 5) else 0),
      pk_relayed = (length parts \<ge> 7 \<and> parts ! 6 = ''relay''),
      pk_offered_mib = (if length parts \<ge> 4 then word_of_nat (strtoul u64_max (parts ! 3)) else 0),
      pk_local = False,
      pk_busy = (length parts \<ge> 8 \<and> parts ! 7 = ''busy'')\<rparr>"

text \<open>One line of the reply; the flag is set by the line that ends it.\<close>

definition candidate_line ::
    "(string \<Rightarrow> (nat \<times> nat \<times> nat \<times> nat) option) \<Rightarrow> nat \<Rightarrow> string \<Rightarrow> discovery \<Rightarrow> string + discovery \<times> bool" where
  "candidate_line pton ulong_max line d =
     (let parts = split_fields line; n = length parts; key = (if parts = [] then [] else hd parts)
      in if parts = [] then Inr (d, False)
         else if key = ''ERR'' then
           Inl (''candidate API: '' @ (case find_char (CHR '' '') line of None \<Rightarrow> line | Some i \<Rightarrow> drop (i + 1) line))
         else if key = ''SELF'' \<and> n = 2 \<and> valid_peer_id (parts ! 1) then
           Inr (d\<lparr>dv_self_peer := parts ! 1\<rparr>, False)
         else if key = ''RETURN'' \<and> (n = 2 \<or> n = 3 \<and> parts ! 2 = ''/dan-return'')
             \<and> valid_private_endpoint pton (parts ! 1) then
           Inr (d\<lparr>dv_return_listen := parts ! 1,
                  dv_return_prefix := (if n = 3 then parts ! 2 else dv_return_prefix d)\<rparr>, False)
         else if key = ''CANDIDATE'' \<and> n \<ge> 3 \<and> valid_peer_id (parts ! 1) \<and> loopback pton (parts ! 2) then
           (let c = candidate_of ulong_max parts
            in if pk_offered_mib c > max_greeting_vram_mib \<or> length (dv_candidates d) \<ge> 512
               then Inl ''candidate API sent an implausible candidate list''
               else Inr (d\<lparr>dv_candidates := dv_candidates d @ [c]\<rparr>, False))
         else if key = ''END'' then Inr (d, True)
         else Inl ''candidate API sent an invalid line'')"

fun candidate_lines ::
    "(string \<Rightarrow> (nat \<times> nat \<times> nat \<times> nat) option) \<Rightarrow> nat \<Rightarrow> string list \<Rightarrow> discovery \<Rightarrow> string + discovery \<times> bool" where
  "candidate_lines pton ulong_max [] d = Inr (d, False)"
| "candidate_lines pton ulong_max (line # ls) d =
     (case candidate_line pton ulong_max line d of
        Inl e \<Rightarrow> Inl e
      | Inr (d, ended) \<Rightarrow> if ended then Inr (d, True) else candidate_lines pton ulong_max ls d)"

definition model_query :: "string \<Rightarrow> string list \<Rightarrow> string + string" where
  "model_query command shas =
     (if shas = [] then Inl ''no model to discover''
      else if \<not> list_all (\<lambda>sha. hex_string sha 64) shas then Inl ''invalid model SHA-256''
      else Inr (command @ concat (map (\<lambda>sha. CHR '' '' # lowercase sha) shas)))"

definition discover_candidates ::
    "(string \<Rightarrow> (nat \<times> nat \<times> nat \<times> nat) option) \<Rightarrow> nat \<Rightarrow> sidecar \<Rightarrow> string \<Rightarrow> string list \<Rightarrow> bool
     \<Rightarrow> string + discovery" where
  "discover_candidates pton ulong_max sidecar api shas include_busy =
     (if \<not> loopback pton api then Inl ''the candidate API must be a loopback host:port''
      else
        case model_query (if include_busy then ''DAN-CANDIDATES/1 +busy'' else ''DAN-CANDIDATES/1'') shas of
          Inl e \<Rightarrow> Inl e
        | Inr query \<Rightarrow>
            case sidecar (query @ [CHR 0x0A]) of
              Inl e \<Rightarrow> Inl e
            | Inr (sent, blocks) \<Rightarrow>
                if \<not> sent then Inl ''could not query the candidate API''
                else
                  let reply = receive_reply (\<lambda>t. ends_with t (''END'' @ [CHR 0x0A]) \<or> starts_with t ''ERR '') blocks []
                  in case candidate_lines pton ulong_max (full_lines reply)
                         \<lparr>dv_self_peer = [], dv_return_listen = [], dv_return_prefix = [], dv_candidates = []\<rparr> of
                       Inl e \<Rightarrow> Inl e
                     | Inr (d, ended) \<Rightarrow>
                         if \<not> ended \<or> dv_self_peer d = [] then Inl ''candidate API reply was incomplete''
                         else Inr d)"

section \<open>Other requests\<close>

fun lines_before_end :: "string list \<Rightarrow> string list list" where
  "lines_before_end [] = []"
| "lines_before_end (line # ls) =
     (if line = ''END'' then []
      else if split_fields line = [] then lines_before_end ls
      else split_fields line # lines_before_end ls)"

definition api_request ::
    "(string \<Rightarrow> (nat \<times> nat \<times> nat \<times> nat) option) \<Rightarrow> sidecar \<Rightarrow> string \<Rightarrow> string \<Rightarrow> string + string list list" where
  "api_request pton sidecar api line =
     (if \<not> loopback pton api then Inl ''the sidecar API must be a loopback host:port''
      else
        case sidecar (line @ [CHR 0x0A]) of
          Inl e \<Rightarrow> Inl e
        | Inr (sent, blocks) \<Rightarrow>
            let reply = (if sent then receive_reply (\<lambda>t. ends_with t (''END'' @ [CHR 0x0A])
                  \<or> starts_with t ''ERR '' \<and> ends_with t [CHR 0x0A]) blocks [] else [])
            in if \<not> sent then Inl ''could not reach the sidecar API''
               else if starts_with reply ''ERR '' then
                 Inl (''sidecar: '' @ (case find_char (CHR 0x0A) reply of
                    None \<Rightarrow> drop 4 reply | Some i \<Rightarrow> take (i - 4) (drop 4 reply)))
               else if \<not> ends_with reply (''END'' @ [CHR 0x0A]) then Inl ''sidecar reply was incomplete''
               else Inr (lines_before_end (full_lines reply)))"

record link_probe =
  lp_rtt_ms :: u32
  lp_relayed :: bool

definition probe_link ::
    "(string \<Rightarrow> (nat \<times> nat \<times> nat \<times> nat) option) \<Rightarrow> nat \<Rightarrow> sidecar \<Rightarrow> string \<Rightarrow> string \<Rightarrow> string \<Rightarrow> string + link_probe" where
  "probe_link pton ulong_max sidecar api from to =
     (if \<not> valid_peer_id from \<or> \<not> valid_peer_id to then Inl ''invalid PeerID''
      else
        case api_request pton sidecar api (''DAN-PROBE/1 '' @ from @ '' '' @ to) of
          Inl e \<Rightarrow> Inl e
        | Inr ls \<Rightarrow>
            case find (\<lambda>f. length f = 3 \<and> f ! 0 = ''PROBE'' \<and> (f ! 2 = ''direct'' \<or> f ! 2 = ''relay'')) ls of
              None \<Rightarrow> Inl ''sidecar sent no probe result''
            | Some f \<Rightarrow> Inr \<lparr>lp_rtt_ms = to_u32 ulong_max (f ! 1), lp_relayed = (f ! 2 = ''relay'')\<rparr>)"

record replica_candidate =
  rc_owner :: string
  rc_control :: string
  rc_rtt_ms :: u32
  rc_relayed :: bool
  rc_replica_id :: string
  rc_model_sha256 :: string
  rc_sessions_free :: u32
  rc_sessions_max :: u32
  rc_context :: u32
  rc_stages :: u32
  rc_draft_sha256 :: string
  rc_ms_per_token :: u32
  rc_first_token_ms :: u32

definition replica_line_ok :: "(string \<Rightarrow> (nat \<times> nat \<times> nat \<times> nat) option) \<Rightarrow> string list \<Rightarrow> bool" where
  "replica_line_ok pton f \<longleftrightarrow> f ! 0 = ''REPLICA'' \<and> 12 \<le> length f \<and> length f \<le> 14 \<and> valid_peer_id (f ! 1)
     \<and> loopback pton (f ! 2) \<and> (f ! 4 = ''direct'' \<or> f ! 4 = ''relay'') \<and> hex_string (f ! 5) 32
     \<and> hex_string (f ! 6) 64 \<and> (f ! 11 = ''-'' \<or> hex_string (f ! 11) 64)"

definition replica_of :: "nat \<Rightarrow> string list \<Rightarrow> replica_candidate" where
  "replica_of ulong_max f =
     (let num = \<lambda>i. to_u32 ulong_max (f ! i)
      in \<lparr>rc_owner = f ! 1, rc_control = f ! 2, rc_rtt_ms = num 3, rc_relayed = (f ! 4 = ''relay''),
          rc_replica_id = f ! 5, rc_model_sha256 = lowercase (f ! 6), rc_sessions_free = num 7,
          rc_sessions_max = num 8, rc_context = num 9, rc_stages = num 10,
          rc_draft_sha256 = (if f ! 11 \<noteq> ''-'' then lowercase (f ! 11) else []),
          rc_ms_per_token = (if length f \<ge> 13 then num 12 else 0),
          rc_first_token_ms = (if length f = 14 then num 13 else 0)\<rparr>)"

definition replica_plausible :: "replica_candidate \<Rightarrow> bool" where
  "replica_plausible r \<longleftrightarrow> \<not> (rc_sessions_max r = 0 \<or> rc_sessions_max r > max_greeting_sessions
     \<or> rc_sessions_free r > rc_sessions_max r \<or> rc_context r = 0 \<or> rc_context r > max_greeting_context
     \<or> rc_stages r = 0 \<or> rc_stages r > 64 \<or> rc_ms_per_token r > 10000000 \<or> rc_first_token_ms r > 10000000)"

fun replica_lines ::
    "(string \<Rightarrow> (nat \<times> nat \<times> nat \<times> nat) option) \<Rightarrow> nat \<Rightarrow> string list list \<Rightarrow> replica_candidate list
     \<Rightarrow> string + replica_candidate list" where
  "replica_lines pton ulong_max [] rs = Inr rs"
| "replica_lines pton ulong_max (f # fs) rs =
     (if f ! 0 = ''SELF'' then replica_lines pton ulong_max fs rs
      else if \<not> replica_line_ok pton f then Inl ''sidecar sent an invalid replica line''
      else
        let r = replica_of ulong_max f
        in if \<not> replica_plausible r \<or> length rs \<ge> 512 then Inl ''sidecar sent an implausible replica line''
           else replica_lines pton ulong_max fs (rs @ [r]))"

definition discover_replicas ::
    "(string \<Rightarrow> (nat \<times> nat \<times> nat \<times> nat) option) \<Rightarrow> nat \<Rightarrow> sidecar \<Rightarrow> string \<Rightarrow> string list
     \<Rightarrow> string + replica_candidate list" where
  "discover_replicas pton ulong_max sidecar api shas =
     (case model_query ''DAN-REPLICAS/1'' shas of
        Inl e \<Rightarrow> Inl e
      | Inr query \<Rightarrow>
          case api_request pton sidecar api query of
            Inl e \<Rightarrow> Inl e
          | Inr ls \<Rightarrow> replica_lines pton ulong_max ls [])"

section \<open>What a reply can make the client do\<close>

definition trusted_candidate :: "(string \<Rightarrow> (nat \<times> nat \<times> nat \<times> nat) option) \<Rightarrow> placement_candidate \<Rightarrow> bool" where
  "trusted_candidate pton c \<longleftrightarrow> valid_peer_id (pk_peer_id c) \<and> loopback pton (pk_control c)
     \<and> pk_offered_mib c \<le> max_greeting_vram_mib \<and> \<not> pk_local c"

definition discovery_ok :: "(string \<Rightarrow> (nat \<times> nat \<times> nat \<times> nat) option) \<Rightarrow> discovery \<Rightarrow> bool" where
  "discovery_ok pton d \<longleftrightarrow> (dv_self_peer d = [] \<or> valid_peer_id (dv_self_peer d))
     \<and> (dv_return_listen d = [] \<or> valid_private_endpoint pton (dv_return_listen d))
     \<and> dv_return_prefix d \<in> {[], ''/dan-return''}
     \<and> list_all (trusted_candidate pton) (dv_candidates d) \<and> length (dv_candidates d) \<le> 512"

lemma candidate_line_ok:
  assumes "candidate_line pton ulong_max line d = Inr (d', ended)" and "discovery_ok pton d"
  shows "discovery_ok pton d'"
proof -
  let ?f = "split_fields line"
  have cand: "trusted_candidate pton (candidate_of ulong_max ?f)"
    if "valid_peer_id (?f ! 1)" "loopback pton (?f ! 2)"
      "\<not> pk_offered_mib (candidate_of ulong_max ?f) > max_greeting_vram_mib"
    using that by (simp add: trusted_candidate_def candidate_of_def not_less)
  then show ?thesis
    using assms by (auto simp: candidate_line_def Let_def discovery_ok_def split: if_splits)
qed

lemma candidate_lines_ok:
  "candidate_lines pton ulong_max ls d = Inr (d', ended) \<Longrightarrow> discovery_ok pton d \<Longrightarrow> discovery_ok pton d'"
proof (induction ls arbitrary: d)
  case (Cons line ls)
  then show ?case
    using candidate_line_ok[of pton ulong_max line d] by (auto split: sum.splits prod.splits if_splits)
qed simp

text \<open>
  C39. A reply of the sidecar cannot send the client anywhere else: whatever bytes arrive, in
  whatever blocks, every candidate that discovery returns is reached through a loopback control
  endpoint, has a well-formed PeerID and an offer below the limit, there are at most 512 of them,
  and the client's own PeerID and its return address are well formed.
\<close>

theorem discovered_candidates_trusted:
  assumes "discover_candidates pton ulong_max sidecar api shas include_busy = Inr d"
  shows "loopback pton api \<and> valid_peer_id (dv_self_peer d)
    \<and> (dv_return_listen d = [] \<or> valid_private_endpoint pton (dv_return_listen d))
    \<and> list_all (trusted_candidate pton) (dv_candidates d) \<and> length (dv_candidates d) \<le> 512"
proof -
  let ?start = "\<lparr>dv_self_peer = [], dv_return_listen = [], dv_return_prefix = [], dv_candidates = []\<rparr>"
  obtain ls where "candidate_lines pton ulong_max ls ?start = Inr (d, True)" "dv_self_peer d \<noteq> []" "loopback pton api"
    using assms by (auto simp: discover_candidates_def Let_def split: if_splits sum.splits prod.splits)
  moreover have "discovery_ok pton ?start" by (simp add: discovery_ok_def)
  ultimately show ?thesis using candidate_lines_ok by (fastforce simp: discovery_ok_def)
qed

lemma replica_lines_ok:
  "replica_lines pton ulong_max fs rs = Inr rs' \<Longrightarrow> length rs \<le> 512 \<Longrightarrow>
   list_all (\<lambda>r. replica_plausible r \<and> loopback pton (rc_control r) \<and> valid_peer_id (rc_owner r)) rs \<Longrightarrow>
   list_all (\<lambda>r. replica_plausible r \<and> loopback pton (rc_control r) \<and> valid_peer_id (rc_owner r)) rs' \<and> length rs' \<le> 512"
proof (induction fs arbitrary: rs)
  case (Cons f fs)
  have "loopback pton (rc_control (replica_of ulong_max f)) \<and> valid_peer_id (rc_owner (replica_of ulong_max f))"
    if "replica_line_ok pton f"
    using that by (simp add: replica_line_ok_def replica_of_def Let_def)
  then show ?case using Cons by (auto simp: Let_def split: if_splits)
qed simp

text \<open>
  Replicas that discovery returns are usable as they are: each is reached through a loopback
  endpoint, its owner is a well-formed PeerID, and its numbers are consistent (at least one session
  and stage, no more free sessions than sessions, a context within the limit); there are at most
  512.
\<close>

theorem discovered_replicas_plausible:
  assumes "discover_replicas pton ulong_max sidecar api shas = Inr rs" and "r \<in> set rs"
  shows "loopback pton (rc_control r) \<and> valid_peer_id (rc_owner r) \<and> 0 < unat (rc_stages r)
    \<and> unat (rc_sessions_free r) \<le> unat (rc_sessions_max r) \<and> 0 < unat (rc_sessions_max r)
    \<and> 0 < unat (rc_context r) \<and> length rs \<le> 512"
proof -
  obtain ls where "replica_lines pton ulong_max ls [] = Inr rs"
    using assms(1) by (auto simp: discover_replicas_def split: sum.splits)
  from replica_lines_ok[OF this] assms(2) show ?thesis
    by (auto simp: list_all_iff replica_plausible_def unat_gt_0 word_le_nat_alt not_less)
qed

definition demo_peer :: string where
  "demo_peer = replicate 32 CHR ''A''"

definition demo_pton :: "string \<Rightarrow> (nat \<times> nat \<times> nat \<times> nat) option" where
  "demo_pton host = (if host = ''127.0.0.1'' then Some (127, 0, 0, 1) else None)"

definition demo_reply :: string where
  "demo_reply = ''SELF '' @ demo_peer @ [CHR 0x0A] @ ''CANDIDATE '' @ demo_peer @ '' 127.0.0.1:9 4096''
     @ [CHR 0x0A] @ ''END'' @ [CHR 0x0A]"

definition demo_sidecar :: sidecar where
  "demo_sidecar query = Inr (True, [take 20 demo_reply, drop 20 demo_reply])"

lemma demo_discovery:
  "discover_candidates demo_pton u64_max demo_sidecar ''127.0.0.1:1'' [replicate 64 CHR ''0''] False =
     Inr \<lparr>dv_self_peer = demo_peer, dv_return_listen = [], dv_return_prefix = [],
       dv_candidates = [\<lparr>pk_control = ''127.0.0.1:9'', pk_peer_id = demo_peer, pk_rtt_ms = 0,
         pk_relayed = False, pk_offered_mib = 4096, pk_local = False, pk_busy = False\<rparr>]\<rparr>"
  by code_simp

theorem discovered_candidates_trusted_witness:
  "loopback demo_pton ''127.0.0.1:9'' \<and> valid_peer_id demo_peer"
  using discovered_candidates_trusted[OF demo_discovery] by (simp add: trusted_candidate_def)

definition demo_replica :: replica_candidate where
  "demo_replica = \<lparr>rc_owner = demo_peer, rc_control = ''127.0.0.1:9'', rc_rtt_ms = 20, rc_relayed = True,
     rc_replica_id = replicate 32 CHR ''0'', rc_model_sha256 = replicate 64 CHR ''0'', rc_sessions_free = 1,
     rc_sessions_max = 2, rc_context = 4096, rc_stages = 3, rc_draft_sha256 = [], rc_ms_per_token = 0,
     rc_first_token_ms = 0\<rparr>"

definition demo_replica_sidecar :: sidecar where
  "demo_replica_sidecar query = Inr (True, [''REPLICA '' @ demo_peer @ '' 127.0.0.1:9 20 relay ''
     @ replicate 32 CHR ''0'' @ '' '' @ replicate 64 CHR ''0'' @ '' 1 2 4096 3 -'' @ [CHR 0x0A] @ ''END'' @ [CHR 0x0A]])"

lemma demo_replicas:
  "discover_replicas demo_pton u64_max demo_replica_sidecar ''127.0.0.1:1'' [replicate 64 CHR ''0''] = Inr [demo_replica]"
  by code_simp

theorem discovered_replicas_plausible_witness: "0 < unat (rc_stages demo_replica)"
  using discovered_replicas_plausible[OF demo_replicas, of demo_replica] by simp

end
