(* ===== verification/Search_Split.thy ===== *)
theory Search_Split
  imports Planner
begin

text \<open>
  The inner part of the plan search (\<^verbatim>\<open>engine/search.cpp\<close>): additive byte sizes of layer
  ranges, the estimated time of a stage and of the ring's links, and the dynamic program that
  splits the layers over an ordered group. Times are doubles without overflow: speeds, round
  trips and sizes of real workers are far below the largest double, so a value is a rational
  rounded by \<open>rnd\<close>; the infinity that stands for ``no plan'' is \<^const>\<open>None\<close>.
\<close>

section \<open>Candidates and requests\<close>

record search_link =
  lk_peer :: string
  lk_rtt_ms :: rat
  lk_relayed :: bool
  lk_mib_per_s :: rat

record search_candidate =
  cd_offered_mib :: u64
  cd_us_per_gib :: rat
  cd_rtt_ms :: rat
  cd_relayed :: bool
  cd_prefill_us_per_gib :: rat
  cd_cached :: "(int \<times> int) list"
  cd_key :: string
  cd_links :: "search_link list"

record search_request =
  sq_context :: u32
  sq_sessions :: u32
  sq_minimum_stages :: nat
  sq_maximum_stages :: nat
  sq_head :: "nat option"
  sq_work_budget :: nat
  sq_pool_limit :: nat
  sq_cached_tolerance :: rat
  sq_relay_penalty_ms :: rat
  sq_prompt_rows :: u32
  sq_chunk_rows :: u32
  sq_row_bytes :: u64
  sq_first_token_limit_ms :: rat

definition default_search_speed_us_per_gib :: rat where
  "default_search_speed_us_per_gib = 4000"

abbreviation gib :: rat where
  "gib \<equiv> 1073741824"

definition speed_of :: "search_candidate \<Rightarrow> rat" where
  "speed_of c = (if cd_us_per_gib c > 0 then cd_us_per_gib c else default_search_speed_us_per_gib)"

definition rtt_of :: "search_candidate \<Rightarrow> search_request \<Rightarrow> rat" where
  "rtt_of c q = rnd (cd_rtt_ms c + (if cd_relayed c then sq_relay_penalty_ms q else 0))"

section \<open>Sizes by layer range\<close>

record sizes =
  sz_header :: u64
  sz_embedding :: u64
  sz_prefix :: "u64 list"
  sz_whole_overlap :: u64
  sz_kv_per_layer :: u64
  sz_layers :: int

definition sizes_model :: "sizes \<Rightarrow> int \<Rightarrow> int \<Rightarrow> u64" where
  "sizes_model z b e = sz_header z + sz_prefix z ! nat e - sz_prefix z ! nat b
     - (if b = 0 \<and> e = sz_layers z then sz_whole_overlap z else 0)"

definition sizes_decode :: "sizes \<Rightarrow> int \<Rightarrow> int \<Rightarrow> u64" where
  "sizes_decode z b e =
     (let bytes = sizes_model z b e
      in if b = 0 \<and> sz_embedding z < bytes then bytes - sz_embedding z else bytes)"

definition sizes_kv :: "sizes \<Rightarrow> int \<Rightarrow> int \<Rightarrow> u64" where
  "sizes_kv z b e = sz_kv_per_layer z * word_of_int (e - b)"

text \<open>The loop over the layers; \<open>acc\<close> is the prefix sum so far.\<close>

fun prefix_loop :: "model_index \<Rightarrow> nat list \<Rightarrow> u64 \<Rightarrow> u64 list option" where
  "prefix_loop m [] acc = Some [acc]"
| "prefix_loop m (layer # layers) acc =
     (let bytes = stage_model_bytes m (int layer) (int layer + 1)
      in if bytes < mi_header_bytes m \<or> bytes = 0 then None
         else map_option ((#) acc) (prefix_loop m layers (acc + bytes - mi_header_bytes m)))"

definition embedding_bytes :: "model_index \<Rightarrow> u64" where
  "embedding_bytes m =
     fold (\<lambda>t bytes. if mt_name t = ''token_embd.weight'' then mt_bytes t else bytes) (mi_tensors m) 0"

definition sizes_agree :: "model_index \<Rightarrow> u32 \<Rightarrow> u32 \<Rightarrow> sizes \<Rightarrow> bool" where
  "sizes_agree m ctx sessions z \<longleftrightarrow>
     (let layers = sz_layers z; middle = layers div 2
      in \<not> (sz_kv_per_layer z = 0 \<or> sizes_model z 0 layers \<noteq> stage_model_bytes m 0 layers
            \<or> (middle > 0 \<and> (sizes_model z 0 middle \<noteq> stage_model_bytes m 0 middle
                 \<or> sizes_model z middle layers \<noteq> stage_model_bytes m middle layers))
            \<or> kv_bytes m 0 layers ctx sessions \<noteq> sizes_kv z 0 layers))"

definition sizes_of :: "model_index \<Rightarrow> u32 \<Rightarrow> u32 \<Rightarrow> sizes option" where
  "sizes_of m ctx sessions =
     (let layers = sint (mi_layers m); header = mi_header_bytes m
      in case prefix_loop m [0..<nat layers] 0 of
           None \<Rightarrow> None
         | Some prefix \<Rightarrow>
             let whole = stage_model_bytes m 0 layers;
                 folded = header + prefix ! nat layers
             in if layers > 1 \<and> (whole = 0 \<or> folded < whole) then None
                else
                  let z = \<lparr>sz_header = header, sz_embedding = embedding_bytes m, sz_prefix = prefix,
                        sz_whole_overlap = (if layers > 1 then folded - whole else 0),
                        sz_kv_per_layer = kv_bytes m 0 1 ctx sessions, sz_layers = layers\<rparr>
                  in if sizes_agree m ctx sessions z then Some z else None)"

definition fits :: "sizes \<Rightarrow> u64 \<Rightarrow> int \<Rightarrow> int \<Rightarrow> bool" where
  "fits z offered_mib b e \<longleftrightarrow>
     (if offered_mib > (- 1) div mib then False
      else
        let offered = offered_mib * mib; kept = max (1024 * mib) (offered * 15 div 100)
        in if offered \<le> kept then False
           else
             let usable = offered - kept; weights = sizes_model z b e
             in weights \<le> usable \<and> sizes_kv z b e \<le> usable - weights)"

section \<open>Times\<close>

definition double_of_bytes :: "u64 \<Rightarrow> rat" where
  "double_of_bytes w = rnd (of_int (uint w))"

definition compute_ms :: "sizes \<Rightarrow> search_candidate \<Rightarrow> int \<Rightarrow> int \<Rightarrow> rat" where
  "compute_ms z c b e = rnd (rnd (rnd (double_of_bytes (sizes_decode z b e) / gib) * speed_of c) / 1000)"

fun find_link :: "search_link list \<Rightarrow> string \<Rightarrow> search_link option" where
  "find_link [] key = None"
| "find_link (l # ls) key = (if key \<noteq> [] \<and> lk_peer l = key then Some l else find_link ls key)"

definition measured_rtt :: "search_candidate \<Rightarrow> search_candidate \<Rightarrow> search_request \<Rightarrow> rat option" where
  "measured_rtt from to q =
     (let ms = \<lambda>l. rnd (lk_rtt_ms l + (if lk_relayed l then sq_relay_penalty_ms q else 0))
      in case find_link (cd_links from) (cd_key to) of
           Some l \<Rightarrow> Some (ms l)
         | None \<Rightarrow> map_option ms (find_link (cd_links to) (cd_key from)))"

definition measured_mib_per_s :: "search_candidate \<Rightarrow> search_candidate \<Rightarrow> rat" where
  "measured_mib_per_s from to =
     (let best = \<lambda>ls key b. fold (\<lambda>l b. if key \<noteq> [] \<and> lk_peer l = key then max b (lk_mib_per_s l) else b) ls b
      in best (cd_links to) (cd_key from) (best (cd_links from) (cd_key to) 0))"

definition link_one_way_ms :: "search_candidate list \<Rightarrow> nat \<Rightarrow> nat \<Rightarrow> search_request \<Rightarrow> rat" where
  "link_one_way_ms cs from to q =
     (let from_rtt = rtt_of (cs ! from) q; to_rtt = rtt_of (cs ! to) q
      in if sq_head q = Some from then rnd (to_rtt / 2)
         else if sq_head q = Some to then rnd (from_rtt / 2)
         else rnd ((case measured_rtt (cs ! from) (cs ! to) q of
                      Some ms \<Rightarrow> ms | None \<Rightarrow> rnd (from_rtt + to_rtt)) / 2))"

definition links_ms :: "search_candidate list \<Rightarrow> nat list \<Rightarrow> search_request \<Rightarrow> rat" where
  "links_ms cs order q =
     (if length order < 2 then 0
      else fold (\<lambda>(from, to) total. rnd (total + link_one_way_ms cs from to q))
             (zip order (rotate1 order)) 0)"

section \<open>The best split of an ordered group\<close>

definition balance_weight :: rat where
  "balance_weight = rnd (1 / 1000000000)"

text \<open>The value of a stage of \<open>ms\<close> after stages of value \<open>c\<close>.\<close>

definition stage_value :: "rat \<Rightarrow> rat \<Rightarrow> rat" where
  "stage_value c ms = rnd (rnd (c + ms) + rnd (rnd (balance_weight * ms) * ms))"

text \<open>
  A row of the tables \<^verbatim>\<open>cost\<close> and \<^verbatim>\<open>from\<close>: for an end layer, the least value and the
  begin of the last stage; \<^const>\<open>None\<close> for infinity.
\<close>

type_synonym row = "int \<Rightarrow> (rat \<times> int) option"

definition improve :: "int \<Rightarrow> rat \<Rightarrow> int \<Rightarrow> row \<Rightarrow> row" where
  "improve e v b row = (if (case row e of None \<Rightarrow> True | Some (w, _) \<Rightarrow> v < w) then row(e \<mapsto> (v, b)) else row)"

text \<open>The loop over the ends of a stage that begins at \<open>b\<close> after stages of value \<open>c\<close>.\<close>

fun relax_ends ::
    "sizes \<Rightarrow> search_candidate \<Rightarrow> bool \<Rightarrow> int \<Rightarrow> rat \<Rightarrow> int list \<Rightarrow> row \<Rightarrow> row" where
  "relax_ends z cand last_stage b c [] row = row"
| "relax_ends z cand last_stage b c (e # es) row =
     (if last_stage \<and> e \<noteq> sz_layers z then relax_ends z cand last_stage b c es row
      else if \<not> fits z (cd_offered_mib cand) b e then row
      else relax_ends z cand last_stage b c es (improve e (stage_value c (compute_ms z cand b e)) b row))"

fun relax_begins ::
    "sizes \<Rightarrow> search_candidate \<Rightarrow> bool \<Rightarrow> int \<Rightarrow> row \<Rightarrow> int list \<Rightarrow> row \<Rightarrow> row" where
  "relax_begins z cand last_stage last_end prev [] row = row"
| "relax_begins z cand last_stage last_end prev (b # bs) row =
     relax_begins z cand last_stage last_end prev bs
       (case prev b of
          None \<Rightarrow> row
        | Some (c, _) \<Rightarrow> relax_ends z cand last_stage b c [b + 1..last_end] row)"

definition next_row :: "sizes \<Rightarrow> search_candidate \<Rightarrow> nat \<Rightarrow> nat \<Rightarrow> row \<Rightarrow> row" where
  "next_row z cand stages stage prev =
     (let last_end = sz_layers z - int (stages - stage - 1)
      in relax_begins z cand (stage + 1 = stages) last_end prev [int stage..last_end - 1] Map.empty)"

definition first_row :: row where
  "first_row = Map.empty(0 \<mapsto> (0, -1))"

text \<open>The rows after each stage, the last one first.\<close>

fun split_rows ::
    "sizes \<Rightarrow> search_candidate list \<Rightarrow> nat \<Rightarrow> nat list \<Rightarrow> nat \<Rightarrow> row list \<Rightarrow> row list" where
  "split_rows z cs stages [] stage rows = rows"
| "split_rows z cs stages (p # ps) stage rows =
     split_rows z cs stages ps (Suc stage) (next_row z (cs ! p) stages stage (hd rows) # rows)"

text \<open>Walking back from the last layer, with the workers in reverse order.\<close>

fun walk_back ::
    "sizes \<Rightarrow> (row \<times> nat) list \<Rightarrow> int \<Rightarrow> stage_assignment list \<Rightarrow> stage_assignment list" where
  "walk_back z [] e plan = plan"
| "walk_back z ((row, p) # rest) e plan =
     (let b = (case row e of Some (_, b) \<Rightarrow> b | None \<Rightarrow> -1)
      in walk_back z rest b
           (\<lparr>sa_provider = p, sa_begin = b, sa_end = e, sa_model_bytes = sizes_model z b e,
             sa_kv_bytes = sizes_kv z b e\<rparr> # plan))"

definition best_split ::
    "sizes \<Rightarrow> search_candidate list \<Rightarrow> nat list \<Rightarrow> (rat \<times> stage_assignment list) option" where
  "best_split z cs order =
     (let rows = split_rows z cs (length order) order 0 [first_row]
      in case hd rows (sz_layers z) of
           None \<Rightarrow> None
         | Some _ \<Rightarrow>
             let plan = walk_back z (zip rows (rev order)) (sz_layers z) []
             in Some (fold (\<lambda>s total. rnd (total + compute_ms z (cs ! sa_provider s) (sa_begin s) (sa_end s)))
                        plan 0, plan))"

section \<open>The folded sizes are the stage sizes\<close>

text \<open>The bytes of a tensor that a range of layers owns, as a 64-bit sum.\<close>

definition own :: "model_index \<Rightarrow> int \<Rightarrow> int \<Rightarrow> model_tensor \<Rightarrow> bool" where
  "own m b e t = owned_tensor (mt_name t) b e (sint (mi_layers m)) (output_present m)"

definition owned_sum :: "model_index \<Rightarrow> int \<Rightarrow> int \<Rightarrow> u64" where
  "owned_sum m b e = (\<Sum>t \<leftarrow> mi_tensors m. if own m b e t then mt_bytes t else 0)"

definition owned_nat :: "model_index \<Rightarrow> int \<Rightarrow> int \<Rightarrow> nat" where
  "owned_nat m b e = (\<Sum>t \<leftarrow> mi_tensors m. if own m b e t then unat (mt_bytes t) else 0)"

lemma owned_bytes_nat: "(\<Sum>x \<leftarrow> owned_bytes m b e. unat x) = owned_nat m b e"
  by (simp add: owned_bytes_def owned_nat_def own_def sum_list_map_filter' comp_def)

lemma word_of_nat_sum: "word_of_nat (\<Sum>t \<leftarrow> ts. if P t then unat (f t) else 0) = (\<Sum>t \<leftarrow> ts. if P t then f t else 0)"
  by (induction ts) auto

lemma owned_sum_nat: "owned_sum m b e = word_of_nat (owned_nat m b e)"
  by (simp add: owned_sum_def owned_nat_def word_of_nat_sum)

text \<open>A smaller range owns no more.\<close>

lemma own_whole: "own m b e t \<Longrightarrow> 0 \<le> b \<Longrightarrow> e \<le> sint (mi_layers m) \<Longrightarrow> own m 0 (sint (mi_layers m)) t"
  by (auto simp: own_def owned_tensor_def split: option.splits if_splits)

lemma own_longer: "own m b e t \<Longrightarrow> 0 \<le> b \<Longrightarrow> b < e \<Longrightarrow> e \<le> e' \<Longrightarrow> e' \<le> sint (mi_layers m) \<Longrightarrow> own m b e' t"
  by (auto simp: own_def owned_tensor_def split: option.splits if_splits)

lemma owned_nat_mono: "(\<And>t. own m b e t \<Longrightarrow> own m b' e' t) \<Longrightarrow> owned_nat m b e \<le> owned_nat m b' e'"
  unfolding owned_nat_def by (intro sum_list_mono) auto

lemma stage_model_bytes_sum:
  assumes "0 \<le> b" and "b < e" and "e \<le> sint (mi_layers m)"
  shows "unat (mi_header_bytes m) + owned_nat m b e \<le> u64_max \<Longrightarrow>
      stage_model_bytes m b e = mi_header_bytes m + owned_sum m b e"
    "stage_model_bytes m b e \<noteq> 0 \<Longrightarrow> unat (mi_header_bytes m) + owned_nat m b e \<le> u64_max"
proof -
  show "stage_model_bytes m b e = mi_header_bytes m + owned_sum m b e"
    if "unat (mi_header_bytes m) + owned_nat m b e \<le> u64_max"
    using assms that by (simp add: stage_model_bytes_def checked_sum_exact owned_bytes_nat owned_sum_nat)
  show "unat (mi_header_bytes m) + owned_nat m b e \<le> u64_max" if "stage_model_bytes m b e \<noteq> 0"
    using assms that by (simp add: stage_model_bytes_def checked_sum_exact owned_bytes_nat split: if_splits)
qed

text \<open>Except over the whole model, the layers of a range own each of its tensors once.\<close>

lemma own_once:
  assumes "0 \<le> b" and "b < e" and "e \<le> sint (mi_layers m)" and "\<not> (b = 0 \<and> e = sint (mi_layers m)) \<or> e = b + 1"
  shows "(\<Sum>l \<leftarrow> [b..e - 1]. if own m l (l + 1) t then w else 0) = (if own m b e t then w else (0 :: u64))"
proof -
  let ?L = "sint (mi_layers m)"
  have one: "(\<Sum>l \<leftarrow> [b..e - 1]. if l = k then w else 0) = (if b \<le> k \<and> k < e then w else 0)" for k
  proof -
    have "(\<Sum>l \<leftarrow> [b..e - 1]. if l = k then w else 0) = (\<Sum>l \<in> set [b..e - 1]. if l = k then w else 0)"
      by (rule sum_list_distinct_conv_sum_set) (rule distinct_upto)
    also have "\<dots> = (if k \<in> set [b..e - 1] then w else 0)" by simp
    finally show ?thesis by simp
  qed
  show ?thesis
  proof (cases "block_layer (mt_name t)")
    case (Some k)
    then have "own m l (l + 1) t \<longleftrightarrow> l = k" for l by (auto simp: own_def owned_tensor_def)
    moreover have "own m b e t \<longleftrightarrow> b \<le> k \<and> k < e" using Some by (simp add: own_def owned_tensor_def)
    ultimately show ?thesis using one[of k] by simp
  next
    case None
    consider "mt_name t = ''token_embd.weight''"
      | "mt_name t \<noteq> ''token_embd.weight''" "starts_with (mt_name t) ''output_norm.'' \<or> starts_with (mt_name t) ''output.''"
      | "mt_name t \<noteq> ''token_embd.weight''" "\<not> (starts_with (mt_name t) ''output_norm.'' \<or> starts_with (mt_name t) ''output.'')"
      by blast
    then show ?thesis
    proof cases
      case 1
      have o: "own m l (l + 1) t \<longleftrightarrow> l = 0 \<or> l = ?L - 1 \<and> \<not> output_present m" for l
        using 1 None by (auto simp: own_def owned_tensor_def)
      have w: "own m b e t \<longleftrightarrow> b = 0 \<or> e = ?L \<and> \<not> output_present m"
        using 1 None by (auto simp: own_def owned_tensor_def)
      have "own m l (l + 1) t \<longleftrightarrow> l = (if b = 0 then 0 else ?L - 1) \<and> own m b e t" if "l \<in> set [b..e - 1]" for l
        using that assms by (auto simp: o w)
      then have "(\<Sum>l \<leftarrow> [b..e - 1]. if own m l (l + 1) t then w else 0)
          = (\<Sum>l \<leftarrow> [b..e - 1]. if l = (if b = 0 then 0 else ?L - 1) \<and> own m b e t then w else 0)"
        by (intro arg_cong[where f = sum_list] map_cong) auto
      then show ?thesis
        using one[of "if b = 0 then 0 else ?L - 1"] assms w by (cases "own m b e t") (auto split: if_splits)
    next
      case 2
      have "own m l (l + 1) t \<longleftrightarrow> l = ?L - 1" "own m b e t \<longleftrightarrow> e = ?L" for l
        using 2 None by (auto simp: own_def owned_tensor_def)
      then show ?thesis using one[of "?L - 1"] assms by auto
    next
      case 3
      then have "\<not> own m x y t" for x y using None by (simp add: own_def owned_tensor_def)
      then show ?thesis by simp
    qed
  qed
qed

lemma owned_sum_layers:
  assumes "0 \<le> b" and "b < e" and "e \<le> sint (mi_layers m)" and "\<not> (b = 0 \<and> e = sint (mi_layers m)) \<or> e = b + 1"
  shows "(\<Sum>l \<leftarrow> [b..e - 1]. owned_sum m l (l + 1)) = owned_sum m b e"
proof -
  have "(\<Sum>l \<leftarrow> ls. \<Sum>t \<leftarrow> ts. f l t) = (\<Sum>t \<leftarrow> ts. \<Sum>l \<leftarrow> ls. (f l t :: u64))" for f and ls :: "int list" and ts :: "model_tensor list"
    by (induction ls) (simp_all add: sum_list_addf)
  then show ?thesis unfolding owned_sum_def by (simp add: own_once[OF assms])
qed

lemma prefix_loop_sum:
  "prefix_loop m ls acc = Some ps \<Longrightarrow> \<forall>l \<in> set ls. int l + 1 \<le> sint (mi_layers m) \<Longrightarrow>
   length ps = Suc (length ls)
   \<and> (\<forall>i \<le> length ls. ps ! i = acc + (\<Sum>l \<leftarrow> take i ls. owned_sum m (int l) (int l + 1)))
   \<and> (\<forall>l \<in> set ls. stage_model_bytes m (int l) (int l + 1) \<noteq> 0)"
proof (induction ls arbitrary: acc ps)
  case (Cons l ls)
  let ?b = "stage_model_bytes m (int l) (int l + 1)"
  from Cons.prems obtain qs where q: "prefix_loop m ls (acc + ?b - mi_header_bytes m) = Some qs"
    and ps: "ps = acc # qs" and nz: "?b \<noteq> 0"
    by (auto simp: Let_def split: if_splits)
  have "?b = mi_header_bytes m + owned_sum m (int l) (int l + 1)"
    using stage_model_bytes_sum[of "int l" "int l + 1" m] nz Cons.prems(2) by simp
  then have step: "acc + ?b - mi_header_bytes m = acc + owned_sum m (int l) (int l + 1)" by simp
  note ih = Cons.IH[OF q[unfolded step]]
  have "ps ! i = acc + (\<Sum>l \<leftarrow> take i (l # ls). owned_sum m (int l) (int l + 1))" if "i \<le> length (l # ls)" for i
    using that ih Cons.prems(2) by (cases i) (simp_all add: ps)
  then show ?case using ih Cons.prems(2) ps nz by simp
qed simp

lemma sum_layers_upto:
  "i \<le> j \<Longrightarrow> (\<Sum>l \<leftarrow> [0..<j]. f (int l)) = (\<Sum>l \<leftarrow> [0..<i]. f (int l)) + (\<Sum>l \<leftarrow> [int i..int j - 1]. (f l :: u64))"
proof -
  assume le: "i \<le> j"
  have "[int i..int j - 1] = map int [i..<j]" by (rule nth_equalityI) (use le in \<open>auto simp: nth_upto\<close>)
  moreover have "[0..<j] = [0..<i] @ [i..<j]" using le upt_add_eq_append[of 0 i "j - i"] by simp
  ultimately show ?thesis by (simp add: comp_def)
qed

lemma sizes_of_SomeD:
  assumes "sizes_of m ctx sessions = Some z"
  shows "sz_layers z = sint (mi_layers m)" "sz_header z = mi_header_bytes m"
    "sz_kv_per_layer z = kv_bytes m 0 1 ctx sessions" "sizes_agree m ctx sessions z"
    "prefix_loop m [0..<nat (sint (mi_layers m))] 0 = Some (sz_prefix z)"
    "sz_layers z > 1 \<Longrightarrow> stage_model_bytes m 0 (sz_layers z) \<noteq> 0"
  using assms by (auto simp: sizes_of_def Let_def split: option.splits if_splits)

lemma sizes_prefix:
  assumes "sizes_of m ctx sessions = Some z"
  shows "i \<le> nat (sint (mi_layers m)) \<Longrightarrow> sz_prefix z ! i = (\<Sum>l \<leftarrow> [0..<i]. owned_sum m (int l) (int l + 1))"
    "0 \<le> b \<Longrightarrow> b < sint (mi_layers m) \<Longrightarrow> stage_model_bytes m b (b + 1) \<noteq> 0"
proof -
  have "\<forall>l \<in> set [0..<nat (sint (mi_layers m))]. int l + 1 \<le> sint (mi_layers m)" by auto
  note p = prefix_loop_sum[OF sizes_of_SomeD(5)[OF assms] this]
  show "sz_prefix z ! i = (\<Sum>l \<leftarrow> [0..<i]. owned_sum m (int l) (int l + 1))" if "i \<le> nat (sint (mi_layers m))"
    using p that by (simp add: take_upt)
  show "stage_model_bytes m b (b + 1) \<noteq> 0" if "0 \<le> b" "b < sint (mi_layers m)"
  proof -
    have "nat b \<in> set [0..<nat (sint (mi_layers m))]" using that by simp
    with p have "stage_model_bytes m (int (nat b)) (int (nat b) + 1) \<noteq> 0" by blast
    then show ?thesis using that(1) by simp
  qed
qed

text \<open>The whole model fits 64 bits, and so does every range of it.\<close>

lemma sizes_room:
  assumes z: "sizes_of m ctx sessions = Some z" and "0 \<le> b" and "b < e" and "e \<le> sint (mi_layers m)"
  shows "unat (mi_header_bytes m) + owned_nat m b e \<le> u64_max"
proof -
  let ?L = "sint (mi_layers m)"
  have "unat (mi_header_bytes m) + owned_nat m 0 ?L \<le> u64_max"
  proof (cases "?L > 1")
    case True
    then show ?thesis
      using stage_model_bytes_sum(2)[of 0 ?L m] sizes_of_SomeD(1,6)[OF z] by simp
  next
    case False
    with assms(2-4) have "?L = 1" by linarith
    then show ?thesis using stage_model_bytes_sum(2)[of 0 1 m] sizes_prefix(2)[OF z, of 0] by simp
  qed
  moreover have "owned_nat m b e \<le> owned_nat m 0 ?L"
    by (rule owned_nat_mono) (use own_whole assms in blast)
  ultimately show ?thesis by linarith
qed

lemma sizes_stage_bytes:
  assumes z: "sizes_of m ctx sessions = Some z" and "0 \<le> b" and "b < e" and "e \<le> sint (mi_layers m)"
  shows "stage_model_bytes m b e = mi_header_bytes m + owned_sum m b e"
    "unat (stage_model_bytes m b e) = unat (mi_header_bytes m) + owned_nat m b e"
    "stage_model_bytes m b e \<noteq> 0"
proof -
  note room = sizes_room[OF assms]
  show sum: "stage_model_bytes m b e = mi_header_bytes m + owned_sum m b e"
    using stage_model_bytes_sum(1)[OF assms(2-4) room] .
  show nat: "unat (stage_model_bytes m b e) = unat (mi_header_bytes m) + owned_nat m b e"
    using sum room by (simp add: owned_sum_nat unat_add_u64 unat_word_of_nat_u64)
  have one: "stage_model_bytes m b (b + 1) \<noteq> 0" using sizes_prefix(2)[OF z] assms(2-4) by simp
  have "unat (stage_model_bytes m b (b + 1)) = unat (mi_header_bytes m) + owned_nat m b (b + 1)"
    using stage_model_bytes_nonzero[OF one] by (simp add: owned_bytes_nat)
  moreover have "owned_nat m b (b + 1) \<le> owned_nat m b e"
    by (rule owned_nat_mono) (use own_longer[of m b "b + 1" _ e] assms in auto)
  moreover have "0 < unat (stage_model_bytes m b (b + 1))" using one by (simp add: unat_gt_0)
  ultimately show "stage_model_bytes m b e \<noteq> 0" using nat by force
qed

lemma sizes_model_exact:
  assumes z: "sizes_of m ctx sessions = Some z" and "0 \<le> b" and "b < e" and "e \<le> sint (mi_layers m)"
  shows "sizes_model z b e = stage_model_bytes m b e"
proof (cases "b = 0 \<and> e = sint (mi_layers m)")
  case True
  then show ?thesis
    using sizes_of_SomeD(1,4)[OF z] by (simp add: sizes_agree_def Let_def)
next
  case False
  have "sizes_model z b e = mi_header_bytes m + (\<Sum>l \<leftarrow> [b..e - 1]. owned_sum m l (l + 1))"
    using sum_layers_upto[of "nat b" "nat e" "\<lambda>l. owned_sum m l (l + 1)"] sizes_prefix(1)[OF z]
      assms(2-4) False sizes_of_SomeD(1,2)[OF z]
    by (auto simp: sizes_model_def)
  then show ?thesis using owned_sum_layers[OF assms(2-4)] False sizes_stage_bytes(1)[OF assms] by simp
qed

lemma checked_product_fits:
  "list_all (\<lambda>f. f \<noteq> 0) fs \<Longrightarrow> unat v * prod_list (map unat fs) \<le> u64_max \<Longrightarrow>
   unat (checked_product v fs) = unat v * prod_list (map unat fs)"
proof (induction fs arbitrary: v)
  case (Cons f fs)
  have "0 < prod_list (map unat fs)" using Cons.prems(1) by (induction fs) (auto simp: unat_gt_0)
  then have "unat v * unat f * 1 \<le> unat v * unat f * prod_list (map unat fs)"
    by (intro mult_le_mono2) simp
  also have "\<dots> \<le> u64_max" using Cons.prems(2) by (simp add: mult.assoc)
  finally have le: "unat v * unat f \<le> u64_max" by simp
  then have "unat v \<le> u64_max div unat f"
    using Cons.prems(1) by (simp add: less_eq_div_iff_mult_less_eq unat_gt_0)
  then have "\<not> v > (- 1) div f" by (simp add: not_less word_le_nat_alt unat_div)
  moreover have "unat (v * f) = unat v * unat f" using le by (rule unat_mult_u64)
  ultimately show ?case using Cons.IH[of "v * f"] Cons.prems by (simp add: mult.assoc)
qed simp

lemma kv_bytes_fits:
  assumes "kv_bytes m 0 l ctx sessions \<noteq> 0" and "b < e" and "e - b \<le> l" and "l < 2 ^ 64"
  shows "unat (kv_bytes m b e ctx sessions) = nat (e - b) * kv_unit m ctx sessions"
    "kv_bytes m b e ctx sessions \<noteq> 0"
proof -
  let ?w = "ucast (head_width_k m) + ucast (head_width_v m) :: u64"
  have whole: "unat (kv_bytes m 0 l ctx sessions) = nat l * kv_unit m ctx sessions"
    using kv_bytes_nonzero[OF assms(1)] assms(4) by simp
  have "0 < unat (kv_bytes m 0 l ctx sessions)" using assms(1) by (simp add: unat_gt_0)
  with whole have unit: "0 < kv_unit m ctx sessions" by simp
  have w: "unat (word_of_int (e - b) :: u64) = nat (e - b)"
  proof -
    have "uint (word_of_int (e - b) :: u64) = e - b"
      using assms(2-4) by (simp del: of_int_diff add: uint_word_of_int)
    then show ?thesis by (simp only: unat_eq_nat_uint)
  qed
  have nz: "allocated_positions ctx sessions \<noteq> 0" "sessions \<noteq> 0" "mi_kv_heads m \<noteq> 0" "?w \<noteq> 0" "mi_heads m \<noteq> 0"
    using unit assms(1) head_widths_sum[of m]
    by (auto simp: kv_unit_def kv_bytes_def split: if_splits)
  have "nat (e - b) * kv_unit m ctx sessions \<le> nat l * kv_unit m ctx sessions"
    using assms(2,3) by (intro mult_le_mono) auto
  also have "\<dots> \<le> u64_max" using whole unat_u64_le[of "kv_bytes m 0 l ctx sessions"] by simp
  finally have le: "nat (e - b) * kv_unit m ctx sessions \<le> u64_max" .
  have p: "unat (ucast (allocated_positions ctx sessions) :: u64) * prod_list (map unat
      [ucast sessions, word_of_int (e - b), ucast (mi_kv_heads m), ?w, 2])
    = nat (e - b) * kv_unit m ctx sessions"
    by (simp add: w head_widths_sum kv_unit_def del: of_int_diff)
  have "kv_bytes m b e ctx sessions = checked_product (ucast (allocated_positions ctx sessions))
      [ucast sessions, word_of_int (e - b), ucast (mi_kv_heads m), ?w, 2]"
    using nz assms(2) by (simp add: kv_bytes_def Let_def del: checked_product.simps of_int_diff)
  moreover have "list_all (\<lambda>f. f \<noteq> 0) [ucast sessions, word_of_int (e - b), ucast (mi_kv_heads m), ?w, 2 :: u64]"
    using nz w assms(2) by (auto simp del: of_int_diff simp: word_unat_eq_iff)
  ultimately show kv: "unat (kv_bytes m b e ctx sessions) = nat (e - b) * kv_unit m ctx sessions"
    using checked_product_fits le p by (simp del: checked_product.simps of_int_diff)
  show "kv_bytes m b e ctx sessions \<noteq> 0" using kv unit assms(2) by auto
qed

text \<open>The KV cache of a range, when the cache of the whole model fits 64 bits.\<close>

lemma sizes_kv_exact:
  assumes z: "sizes_of m ctx sessions = Some z" and "kv_bytes m 0 (sint (mi_layers m)) ctx sessions \<noteq> 0"
    and "0 \<le> b" and "b < e" and "e \<le> sint (mi_layers m)"
  shows "sizes_kv z b e = kv_bytes m b e ctx sessions" "kv_bytes m b e ctx sessions \<noteq> 0"
    "unat (kv_bytes m b e ctx sessions) = nat (e - b) * kv_unit m ctx sessions"
proof -
  let ?L = "sint (mi_layers m)"
  have L: "?L < 2 ^ 64" using layers_sint_less[of "mi_layers m"] by simp
  note whole = assms(2)
  show k: "unat (kv_bytes m b e ctx sessions) = nat (e - b) * kv_unit m ctx sessions"
    and "kv_bytes m b e ctx sessions \<noteq> 0"
    using kv_bytes_fits[OF whole assms(4) _ L] assms(3-5) by auto
  have one: "unat (kv_bytes m 0 1 ctx sessions) = kv_unit m ctx sessions"
    using kv_bytes_fits(1)[OF whole, of 0 1] L assms(3-5) by simp
  have w: "unat (word_of_int (e - b) :: u64) = nat (e - b)"
  proof -
    have "uint (word_of_int (e - b) :: u64) = e - b"
      using assms(3-5) L by (simp del: of_int_diff add: uint_word_of_int)
    then show ?thesis by (simp only: unat_eq_nat_uint)
  qed
  have "unat (kv_bytes m 0 1 ctx sessions) * unat (word_of_int (e - b) :: u64) \<le> u64_max"
    using unat_u64_le[of "kv_bytes m b e ctx sessions"] by (simp only: one w k mult.commute)
  from unat_mult_u64[OF this] show "sizes_kv z b e = kv_bytes m b e ctx sessions"
    unfolding word_unat_eq_iff sizes_kv_def sizes_of_SomeD(3)[OF z] by (simp only: one w k mult.commute)
qed

text \<open>The search's fit test is the planner's, for the ranges the search asks about.\<close>

lemma kept_back_alt: "kept_back offered = max (1024 * mib) (offered * 15 div 100)"
  by (simp add: kept_back_def)

lemma fits_stage_fits:
  assumes z: "sizes_of m ctx sessions = Some z" and kv: "kv_bytes m 0 (sint (mi_layers m)) ctx sessions \<noteq> 0"
    and "0 \<le> b" and "b < e" and "e \<le> sint (mi_layers m)"
  shows "stage_fits m offered b e ctx sessions =
    (if fits z offered b e
     then Some \<lparr>sa_provider = 0, sa_begin = b, sa_end = e, sa_model_bytes = sizes_model z b e,
       sa_kv_bytes = sizes_kv z b e\<rparr>
     else None)"
  using sizes_model_exact[OF z assms(3-5)] sizes_stage_bytes(3)[OF z assms(3-5)] sizes_kv_exact(1,2)[OF z kv assms(3-5)]
  by (auto simp: stage_fits_def fits_def Let_def kept_back_alt not_less not_le)

text \<open>A shorter range of a fitting range fits.\<close>

lemma fits_shorter:
  assumes z: "sizes_of m ctx sessions = Some z" and kv: "kv_bytes m 0 (sint (mi_layers m)) ctx sessions \<noteq> 0"
    and "fits z offered b e" and "0 \<le> b" and "b < e'" and "e' \<le> e" and "e \<le> sint (mi_layers m)"
  shows "fits z offered b e'"
proof -
  let ?o = "offered * mib"
  let ?u = "?o - kept_back ?o"
  have long: "0 \<le> b" "b < e" "e \<le> sint (mi_layers m)" and short: "0 \<le> b" "b < e'" "e' \<le> sint (mi_layers m)"
    using assms by auto
  have f: "\<not> offered > (- 1) div mib" "\<not> ?o \<le> kept_back ?o" "sizes_model z b e \<le> ?u"
    "sizes_kv z b e \<le> ?u - sizes_model z b e"
    using assms(3) by (auto simp: fits_def Let_def kept_back_alt split: if_splits)
  have "owned_nat m b e' \<le> owned_nat m b e"
    by (rule owned_nat_mono) (use own_longer[of m b e' _ e] assms(4-7) in auto)
  then have mb: "unat (sizes_model z b e') \<le> unat (sizes_model z b e)"
    using sizes_model_exact[OF z long] sizes_model_exact[OF z short]
      sizes_stage_bytes(2)[OF z long] sizes_stage_bytes(2)[OF z short] by simp
  have "nat (e' - b) * kv_unit m ctx sessions \<le> nat (e - b) * kv_unit m ctx sessions"
    using assms(6) by (intro mult_le_mono) auto
  then have kb: "unat (sizes_kv z b e') \<le> unat (sizes_kv z b e)"
    using sizes_kv_exact(1,3)[OF z kv long] sizes_kv_exact(1,3)[OF z kv short] by simp
  have le: "sizes_model z b e' \<le> ?u" using f(3) mb by (simp add: word_le_nat_alt)
  have "sizes_kv z b e' \<le> ?u - sizes_model z b e'"
    using f(3,4) mb kb unat_diff_u64[OF f(3)] unat_diff_u64[OF le] by (simp add: word_le_nat_alt)
  then show ?thesis using f(1,2) le by (simp add: fits_def Let_def kept_back_alt)
qed

section \<open>The split is the best one\<close>

text \<open>The splits of the layers up to \<open>e\<close> over the workers of an order, and their value.\<close>

definition split_stage :: "sizes \<Rightarrow> search_candidate list \<Rightarrow> stage_assignment \<Rightarrow> bool" where
  "split_stage z cs s \<longleftrightarrow> fits z (cd_offered_mib (cs ! sa_provider s)) (sa_begin s) (sa_end s)
     \<and> sa_model_bytes s = sizes_model z (sa_begin s) (sa_end s)
     \<and> sa_kv_bytes s = sizes_kv z (sa_begin s) (sa_end s)"

definition splits_to :: "sizes \<Rightarrow> search_candidate list \<Rightarrow> nat list \<Rightarrow> int \<Rightarrow> stage_assignment list \<Rightarrow> bool" where
  "splits_to z cs order e plan \<longleftrightarrow>
     map sa_provider plan = order \<and> tiles 0 e plan \<and> list_all (split_stage z cs) plan"

definition plan_stage_ms :: "sizes \<Rightarrow> search_candidate list \<Rightarrow> stage_assignment \<Rightarrow> rat" where
  "plan_stage_ms z cs s = compute_ms z (cs ! sa_provider s) (sa_begin s) (sa_end s)"

definition split_value :: "sizes \<Rightarrow> search_candidate list \<Rightarrow> stage_assignment list \<Rightarrow> rat" where
  "split_value z cs plan = fold (\<lambda>s v. stage_value v (plan_stage_ms z cs s)) plan 0"

lemma compute_ms_nonneg: "0 \<le> compute_ms z c b e"
proof -
  have "0 < speed_of c" by (simp add: speed_of_def default_search_speed_us_per_gib_def)
  then show ?thesis
    unfolding compute_ms_def double_of_bytes_def
    by (intro rnd_nonneg divide_nonneg_nonneg mult_nonneg_nonneg) (simp_all add: less_imp_le del: of_int_uint)
qed

lemma stage_value_nonneg: "0 \<le> c \<Longrightarrow> 0 \<le> ms \<Longrightarrow> 0 \<le> stage_value c ms"
  by (simp add: stage_value_def balance_weight_def rnd_nonneg)

lemma stage_value_mono: "0 \<le> c \<Longrightarrow> c \<le> d \<Longrightarrow> 0 \<le> ms \<Longrightarrow> stage_value c ms \<le> stage_value d ms"
  unfolding stage_value_def
  by (intro rnd_mono add_mono add_nonneg_nonneg rnd_nonneg) (simp_all add: balance_weight_def rnd_nonneg)

lemma split_value_snoc [simp]:
  "split_value z cs [] = 0"
  "split_value z cs (plan @ [s]) = stage_value (split_value z cs plan) (plan_stage_ms z cs s)"
  by (simp_all add: split_value_def)

lemma split_value_nonneg: "0 \<le> split_value z cs plan"
  by (induction plan rule: rev_induct)
    (simp_all add: stage_value_nonneg plan_stage_ms_def compute_ms_nonneg)

lemma tiles_snoc: "tiles b e (plan @ [s]) \<longleftrightarrow> tiles b (sa_begin s) plan \<and> sa_begin s < e \<and> sa_end s = e"
  by (induction plan arbitrary: b) auto

lemma splits_to_snoc:
  "splits_to z cs (ps @ [p]) e (plan @ [s]) \<longleftrightarrow>
     splits_to z cs ps (sa_begin s) plan \<and> sa_provider s = p \<and> sa_begin s < e \<and> sa_end s = e \<and> split_stage z cs s"
  by (auto simp: splits_to_def tiles_snoc)

subsection \<open>The tables\<close>

text \<open>Entries only get smaller, every fitting end is offered, and a new entry begins here.\<close>

definition row_le :: "row \<Rightarrow> row \<Rightarrow> bool" where
  "row_le new old \<longleftrightarrow> (\<forall>e w b. old e = Some (w, b) \<longrightarrow> (\<exists>v b'. new e = Some (v, b') \<and> v \<le> w))"

lemma row_le_refl [simp]: "row_le r r" by (auto simp: row_le_def)

lemma row_le_trans: "row_le a b \<Longrightarrow> row_le b c \<Longrightarrow> row_le a c"
  unfolding row_le_def by (meson order_trans)

lemma improve_le: "row_le (improve e v b row) row"
  by (auto simp: row_le_def improve_def split: option.splits)

lemma improve_offer: "\<exists>w b'. improve e v b row e = Some (w, b') \<and> w \<le> v"
  by (auto simp: improve_def split: option.splits)

lemma improve_new: "improve x v b row e = Some (w, b') \<Longrightarrow> row e = Some (w, b') \<or> e = x \<and> w = v \<and> b' = b"
  by (auto simp: improve_def split: if_splits)

lemma relax_ends_le: "row_le (relax_ends z cand l b c es row) row"
  by (induction es arbitrary: row) (auto intro: row_le_trans improve_le)

lemma relax_ends_new:
  assumes "relax_ends z cand l b c es row e = Some (v, b')"
  shows "row e = Some (v, b') \<or>
    b' = b \<and> e \<in> set es \<and> (l \<longrightarrow> e = sz_layers z) \<and> fits z (cd_offered_mib cand) b e
      \<and> v = stage_value c (compute_ms z cand b e)"
  using assms
proof (induction es arbitrary: row)
  case (Cons x es)
  let ?row = "improve x (stage_value c (compute_ms z cand b x)) b row"
  consider "l \<and> x \<noteq> sz_layers z" | "\<not> (l \<and> x \<noteq> sz_layers z)" "\<not> fits z (cd_offered_mib cand) b x"
    | "\<not> (l \<and> x \<noteq> sz_layers z)" "fits z (cd_offered_mib cand) b x" by blast
  then show ?case
  proof cases
    case 1
    then show ?thesis using Cons.IH[of row] Cons.prems by auto
  next
    case 2
    then show ?thesis using Cons.prems by auto
  next
    case 3
    then have "relax_ends z cand l b c es ?row e = Some (v, b')" using Cons.prems by (simp split: if_splits)
    from Cons.IH[OF this] show ?thesis using 3 improve_new[of x _ b row e v b'] by auto
  qed
qed simp

lemma relax_ends_offer:
  assumes "e \<in> set es" and "l \<Longrightarrow> e = sz_layers z"
    and "\<And>x. x \<in> set es \<Longrightarrow> x \<le> e \<Longrightarrow> fits z (cd_offered_mib cand) b x" and "sorted es"
  shows "\<exists>v b'. relax_ends z cand l b c es row e = Some (v, b') \<and> v \<le> stage_value c (compute_ms z cand b e)"
  using assms
proof (induction es arbitrary: row)
  case (Cons x es)
  let ?row = "improve x (stage_value c (compute_ms z cand b x)) b row"
  have x: "x \<le> e" "fits z (cd_offered_mib cand) b x" using Cons.prems by auto
  have ih: "e \<in> set es \<Longrightarrow> \<exists>v b'. relax_ends z cand l b c es r e = Some (v, b') \<and> v \<le> stage_value c (compute_ms z cand b e)" for r
    using Cons.IH[of r] Cons.prems by simp
  show ?case
  proof (cases "l \<and> x \<noteq> sz_layers z")
    case True
    then have "e \<in> set es" using Cons.prems(1,2) by auto
    then show ?thesis using ih[of row] True by simp
  next
    case False
    then have step: "relax_ends z cand l b c (x # es) row = relax_ends z cand l b c es ?row"
      using x(2) by auto
    show ?thesis
    proof (cases "x = e")
      case True
      then obtain w b' where "?row e = Some (w, b')" "w \<le> stage_value c (compute_ms z cand b e)"
        using improve_offer[of e _ b row] by blast
      then show ?thesis
        using relax_ends_le[of z cand l b c es ?row] unfolding step row_le_def by (meson order_trans)
    next
      case False
      then show ?thesis using ih[of ?row] Cons.prems(1) unfolding step by auto
    qed
  qed
qed simp

lemma relax_begins_le: "row_le (relax_begins z cand l le prev bs row) row"
  by (induction bs arbitrary: row) (auto intro: row_le_trans relax_ends_le split: option.split)

lemma relax_begins_new:
  assumes "relax_begins z cand l le prev bs row e = Some (v, b)"
  shows "row e = Some (v, b) \<or>
    (\<exists>c b0. prev b = Some (c, b0) \<and> b \<in> set bs \<and> b < e \<and> e \<le> le \<and> fits z (cd_offered_mib cand) b e
      \<and> v = stage_value c (compute_ms z cand b e))"
  using assms
proof (induction bs arbitrary: row)
  case (Cons x bs)
  show ?case
  proof (cases "prev x")
    case None
    then show ?thesis using Cons.IH[of row] Cons.prems by auto
  next
    case (Some w)
    obtain c b0 where w: "w = (c, b0)" by force
    let ?row = "relax_ends z cand l x c [x + 1..le] row"
    have "relax_begins z cand l le prev bs ?row e = Some (v, b)" using Cons.prems Some w by simp
    from Cons.IH[OF this] show ?thesis
      using relax_ends_new[of z cand l x c "[x + 1..le]" row e v b] Some w by auto
  qed
qed simp

lemma relax_begins_offer:
  assumes "b \<in> set bs" and "prev b = Some (c, b0)" and "b < e" and "e \<le> le" and "l \<Longrightarrow> e = sz_layers z"
    and "\<And>x. b < x \<Longrightarrow> x \<le> e \<Longrightarrow> fits z (cd_offered_mib cand) b x"
  shows "\<exists>v b'. relax_begins z cand l le prev bs row e = Some (v, b') \<and> v \<le> stage_value c (compute_ms z cand b e)"
  using assms(1)
proof (induction bs arbitrary: row)
  case (Cons x bs)
  show ?case
  proof (cases "x = b")
    case True
    let ?row = "relax_ends z cand l b c [b + 1..le] row"
    have "\<exists>v b'. ?row e = Some (v, b') \<and> v \<le> stage_value c (compute_ms z cand b e)"
      by (rule relax_ends_offer) (use assms in auto)
    then show ?thesis
      using relax_begins_le[of z cand l le prev bs ?row] True assms(2) unfolding row_le_def
      by simp (meson order_trans)
  next
    case False
    then show ?thesis using Cons by simp
  qed
qed simp

subsection \<open>The rows and the walk back\<close>

lemma first_row_Some: "first_row e = Some (v, b) \<longleftrightarrow> e = 0 \<and> v = 0 \<and> b = -1"
  by (auto simp: first_row_def)

lemma split_rows_snoc:
  "split_rows z cs stages (ps @ [p]) stage rows =
     (let rs = split_rows z cs stages ps stage rows
      in next_row z (cs ! p) stages (stage + length ps) (hd rs) # rs)"
  by (induction ps arbitrary: stage rows) (auto simp: Let_def)

lemma split_rows_length: "length (split_rows z cs stages ps stage rows) = length ps + length rows"
  by (induction ps arbitrary: stage rows) auto

text \<open>An entry of the last row is the value of the split that the walk back recovers.\<close>

lemma walk_back_split:
  "hd (split_rows z cs stages ps 0 [first_row]) e = Some (v, b) \<Longrightarrow>
   \<exists>plan. walk_back z (zip (split_rows z cs stages ps 0 [first_row]) (rev ps)) e acc = plan @ acc
     \<and> splits_to z cs ps e plan \<and> split_value z cs plan = v"
proof (induction ps arbitrary: e v b acc rule: rev_induct)
  case Nil
  then show ?case by (auto simp: splits_to_def first_row_Some)
next
  case (snoc p ps)
  let ?rows = "split_rows z cs stages ps 0 [first_row]"
  let ?s = "\<lparr>sa_provider = p, sa_begin = b, sa_end = e, sa_model_bytes = sizes_model z b e,
    sa_kv_bytes = sizes_kv z b e\<rparr>"
  have row: "next_row z (cs ! p) stages (length ps) (hd ?rows) e = Some (v, b)"
    using snoc.prems by (simp add: split_rows_snoc Let_def)
  then obtain c b0 where prev: "hd ?rows b = Some (c, b0)" and "b < e"
    and "fits z (cd_offered_mib (cs ! p)) b e" and v: "v = stage_value c (compute_ms z (cs ! p) b e)"
    unfolding next_row_def Let_def by (auto dest: relax_begins_new)
  moreover from snoc.IH[OF prev, of "?s # acc"] obtain plan where
    "walk_back z (zip ?rows (rev ps)) b (?s # acc) = plan @ ?s # acc" "splits_to z cs ps b plan" "split_value z cs plan = c"
    by blast
  ultimately show ?case
    using row by (intro exI[of _ "plan @ [?s]"])
      (simp add: split_rows_snoc Let_def splits_to_snoc split_stage_def plan_stage_ms_def)
qed

lemma split_rows_least:
  assumes z: "sizes_of m ctx sessions = Some z" and kv: "kv_bytes m 0 (sint (mi_layers m)) ctx sessions \<noteq> 0"
  shows "splits_to z cs ps e plan \<Longrightarrow> length ps \<le> stages \<Longrightarrow> e \<le> sz_layers z - int (stages - length ps) \<Longrightarrow>
    (length ps = stages \<Longrightarrow> ps \<noteq> [] \<Longrightarrow> e = sz_layers z) \<Longrightarrow>
    \<exists>v b. hd (split_rows z cs stages ps 0 [first_row]) e = Some (v, b) \<and> v \<le> split_value z cs plan"
proof (induction ps arbitrary: e plan rule: rev_induct)
  case Nil
  then show ?case by (auto simp: splits_to_def first_row_Some)
next
  case (snoc p ps)
  let ?rows = "split_rows z cs stages ps 0 [first_row]"
  have "plan \<noteq> []" using snoc.prems(1) by (auto simp: splits_to_def)
  then obtain pl s where plan: "plan = pl @ [s]" by (cases plan rule: rev_cases) auto
  let ?b = "sa_begin s"
  have s: "splits_to z cs ps ?b pl" "sa_provider s = p" "?b < e" "sa_end s = e" "split_stage z cs s"
    using snoc.prems(1) unfolding plan splits_to_snoc by auto
  have k: "int (length ps) \<le> ?b" using s(1) tiles_le[of 0 ?b pl] by (auto simp: splits_to_def)
  have "\<exists>v b. hd ?rows ?b = Some (v, b) \<and> v \<le> split_value z cs pl"
    using snoc.IH[OF s(1)] snoc.prems(2,3) s(3) by auto
  then obtain c b0 where c: "hd ?rows ?b = Some (c, b0)" "c \<le> split_value z cs pl" by blast
  have nn: "0 \<le> c" using walk_back_split[OF c(1)] split_value_nonneg by metis
  have L: "sz_layers z = sint (mi_layers m)" using sizes_of_SomeD(1)[OF z] .
  have "fits z (cd_offered_mib (cs ! p)) ?b x" if "?b < x" "x \<le> e" for x
    using fits_shorter[OF z kv, of _ ?b e x] s that k snoc.prems(3) L by (auto simp: split_stage_def)
  then have "\<exists>v b. next_row z (cs ! p) stages (length ps) (hd ?rows) e = Some (v, b)
      \<and> v \<le> stage_value c (compute_ms z (cs ! p) ?b e)"
    unfolding next_row_def Let_def
    by (intro relax_begins_offer[where b = ?b and prev = "hd ?rows", OF _ c(1)]) (use s k snoc.prems(2-4) in auto)
  then show ?case
    using stage_value_mono[OF nn c(2) compute_ms_nonneg[of z "cs ! p" ?b e]] s
    by (fastforce simp: plan split_rows_snoc Let_def plan_stage_ms_def intro: order_trans)
qed

lemma best_split_Some:
  assumes "best_split z cs order = Some (ms, plan)"
  shows "splits_to z cs order (sz_layers z) plan"
    "ms = fold (\<lambda>s total. rnd (total + plan_stage_ms z cs s)) plan 0"
    "\<exists>b. hd (split_rows z cs (length order) order 0 [first_row]) (sz_layers z) = Some (split_value z cs plan, b)"
proof -
  let ?rows = "split_rows z cs (length order) order 0 [first_row]"
  obtain v b where row: "hd ?rows (sz_layers z) = Some (v, b)"
    using assms by (auto simp: best_split_def Let_def split: option.splits)
  from walk_back_split[OF this, of "[]"] obtain pl where
    p: "walk_back z (zip ?rows (rev order)) (sz_layers z) [] = pl" "splits_to z cs order (sz_layers z) pl"
      "split_value z cs pl = v"
    by auto
  have "plan = pl" "ms = fold (\<lambda>s total. rnd (total + plan_stage_ms z cs s)) pl 0"
    using assms row p(1) by (auto simp: best_split_def Let_def plan_stage_ms_def)
  with p row show "splits_to z cs order (sz_layers z) plan"
    "ms = fold (\<lambda>s total. rnd (total + plan_stage_ms z cs s)) plan 0"
    "\<exists>b. hd ?rows (sz_layers z) = Some (split_value z cs plan, b)"
    by auto
qed

lemma best_split_least:
  assumes z: "sizes_of m ctx sessions = Some z" and kv: "kv_bytes m 0 (sint (mi_layers m)) ctx sessions \<noteq> 0"
    and "splits_to z cs order (sz_layers z) other"
  shows "\<exists>ms plan. best_split z cs order = Some (ms, plan) \<and> split_value z cs plan \<le> split_value z cs other"
proof -
  obtain v b where row: "hd (split_rows z cs (length order) order 0 [first_row]) (sz_layers z) = Some (v, b)"
    and le: "v \<le> split_value z cs other"
    using split_rows_least[OF z kv assms(3)] by auto
  then obtain ms plan where b: "best_split z cs order = Some (ms, plan)"
    by (auto simp: best_split_def Let_def)
  then show ?thesis using best_split_Some(3)[OF b] row le by auto
qed

section \<open>Properties\<close>

definition small_candidates :: "search_candidate list" where
  "small_candidates = replicate 2 \<lparr>cd_offered_mib = 2048, cd_us_per_gib = 0, cd_rtt_ms = 10, cd_relayed = False,
     cd_prefill_us_per_gib = 0, cd_cached = [], cd_key = ''a'', cd_links = []\<rparr>"

definition small_sizes :: sizes where
  "small_sizes = \<lparr>sz_header = 1000, sz_embedding = 1000, sz_prefix = [0, 2000, 5000], sz_whole_overlap = 1000,
     sz_kv_per_layer = 4096, sz_layers = 2\<rparr>"

lemma small_sizes_of: "sizes_of small_model 100 1 = Some small_sizes"
  by code_simp

lemma small_kv: "kv_bytes small_model 0 (sint (mi_layers small_model)) 100 1 \<noteq> 0"
  by code_simp

text \<open>
  C10. The search's own sizes are the planner's: for a model whose sizes the search accepts and whose
  whole KV cache fits 64 bits, testing a range with the folded prefix sums gives the planner's
  \<^verbatim>\<open>stage_fits\<close> answer, with the same weight and KV cache bytes, for every range of layers
  and every offer.
\<close>

theorem search_sizes_exact:
  assumes "sizes_of m ctx sessions = Some z" and "kv_bytes m 0 (sint (mi_layers m)) ctx sessions \<noteq> 0"
    and "0 \<le> b" and "b < e" and "e \<le> sint (mi_layers m)"
  shows "stage_fits m offered b e ctx sessions =
    (if fits z offered b e
     then Some \<lparr>sa_provider = 0, sa_begin = b, sa_end = e, sa_model_bytes = sizes_model z b e,
       sa_kv_bytes = sizes_kv z b e\<rparr>
     else None)"
  by (rule fits_stage_fits[OF assms])

theorem search_sizes_exact_witness:
  "stage_fits small_model 2048 0 2 100 1 \<noteq> None \<longleftrightarrow> fits small_sizes 2048 0 2"
  using search_sizes_exact[OF small_sizes_of small_kv, of 0 2 2048] by (simp add: small_model_def)

text \<open>
  C9. The split of an ordered group is exact: the dynamic program finds a plan exactly when some
  cutting of the layers gives every worker of the order a range that fits it, and the plan it
  recovers is such a cutting, of the least value the code's own arithmetic gives to any of them.
\<close>

theorem best_split_optimal:
  assumes "sizes_of m ctx sessions = Some z" and "kv_bytes m 0 (sint (mi_layers m)) ctx sessions \<noteq> 0"
  shows "case best_split z cs order of
      None \<Rightarrow> \<nexists>plan. splits_to z cs order (sz_layers z) plan
    | Some (ms, plan) \<Rightarrow> splits_to z cs order (sz_layers z) plan
        \<and> (\<forall>other. splits_to z cs order (sz_layers z) other \<longrightarrow> split_value z cs plan \<le> split_value z cs other)"
proof (cases "best_split z cs order")
  case None
  then show ?thesis using best_split_least[OF assms, of cs order] by auto
next
  case (Some r)
  obtain ms plan where r: "r = (ms, plan)" by force
  have "split_value z cs plan \<le> split_value z cs other" if "splits_to z cs order (sz_layers z) other" for other
    using best_split_least[OF assms that] Some r by auto
  then show ?thesis using best_split_Some(1)[of z cs order ms plan] Some r by auto
qed

lemma small_plan_splits: "splits_to small_sizes small_candidates [1, 0] (sz_layers small_sizes) small_plan"
  by code_simp

theorem best_split_optimal_witness:
  "\<exists>ms plan. best_split small_sizes small_candidates [1, 0] = Some (ms, plan)
     \<and> splits_to small_sizes small_candidates [1, 0] 2 plan"
  using best_split_optimal[OF small_sizes_of small_kv, of small_candidates "[1, 0]"] small_plan_splits
  by (auto simp: small_sizes_def split: option.splits)

end
