(* ===== verification/Search.thy ===== *)
theory Search
  imports Search_Split
begin

text \<open>
  The plan search (\<^verbatim>\<open>engine/search.cpp\<close>): the estimates of a plan, the pool of
  candidates, the groups and orders of a group, and the search itself with its work budget.
  \<^verbatim>\<open>long double\<close> sums take the precision \<open>prec\<close> as argument. The estimates assume
  that the prompt and a chunk together have fewer than \<open>2 ^ 32\<close> rows, so that there is at
  least one chunk; the time of the best plan, infinite at first, is \<^const>\<open>None\<close> then.
\<close>

section \<open>Estimates of a plan\<close>

definition stage_read_ms :: "model_index \<Rightarrow> stage_assignment \<Rightarrow> rat \<Rightarrow> rat" where
  "stage_read_ms m s speed =
     rnd (rnd (rnd (double_of_bytes (decode_bytes m (sa_begin s) (sa_end s)) / gib) * speed) / 1000)"

definition search_token_ms ::
    "model_index \<Rightarrow> search_candidate list \<Rightarrow> stage_assignment list \<Rightarrow> search_request \<Rightarrow> rat" where
  "search_token_ms m cs plan q =
     rnd (fold (\<lambda>s total. rnd (total + stage_read_ms m s (speed_of (cs ! sa_provider s)))) plan 0
       + links_ms cs (map sa_provider plan) q)"

definition first_token_rank :: "rat \<Rightarrow> search_request \<Rightarrow> int" where
  "first_token_rank first_token_ms q =
     (if sq_first_token_limit_ms q \<le> 0 then 2
      else if first_token_ms \<le> 0 then 1
      else if first_token_ms \<le> sq_first_token_limit_ms q then 2 else 0)"

text \<open>The loop over the stages; \<^const>\<open>None\<close> is the return of 0 for an unknown speed or bandwidth.\<close>

fun first_token_loop ::
    "model_index \<Rightarrow> search_candidate list \<Rightarrow> search_request \<Rightarrow> rat \<Rightarrow> stage_assignment list \<Rightarrow> rat \<Rightarrow> rat
     \<Rightarrow> (rat \<times> rat) option" where
  "first_token_loop m cs q rows [] spent slowest = Some (spent, slowest)"
| "first_token_loop m cs q rows (s # ss) spent slowest =
     (let here = cs ! sa_provider s
      in if \<not> cd_prefill_us_per_gib here > 0 then None
         else
           let ms = rnd (stage_read_ms m s (cd_prefill_us_per_gib here) * rows);
               spent = rnd (spent + ms);
               slowest = max slowest ms
           in case ss of
                [] \<Rightarrow> Some (spent, slowest)
              | s' # _ \<Rightarrow>
                  let mib_per_s = measured_mib_per_s here (cs ! sa_provider s')
                  in if \<not> mib_per_s > 0 \<or> sq_row_bytes q = 0 then None
                     else
                       let hop = rnd (rnd (rnd (rows * double_of_bytes (sq_row_bytes q))
                                 / rnd (mib_per_s * 1048576)) * 1000)
                       in first_token_loop m cs q rows ss
                            (rnd (rnd (spent + hop) + link_one_way_ms cs (sa_provider s) (sa_provider s') q))
                            (max slowest hop))"

definition search_first_token_ms ::
    "model_index \<Rightarrow> search_candidate list \<Rightarrow> stage_assignment list \<Rightarrow> search_request \<Rightarrow> rat" where
  "search_first_token_ms m cs plan q =
     (if sq_prompt_rows q = 0 \<or> plan = [] then 0
      else
        let chunk = (if sq_chunk_rows q = 0 then sq_prompt_rows q
                     else min (sq_chunk_rows q) (sq_prompt_rows q));
            chunks = (sq_prompt_rows q + chunk - 1) div chunk;
            rows = rnd (of_int (uint (sq_prompt_rows q)) / of_int (uint chunks))
        in case first_token_loop m cs q rows plan 0 0 of
             None \<Rightarrow> 0
           | Some (spent, slowest) \<Rightarrow>
               let spent = rnd (spent + rnd (of_int (uint (chunks - 1)) * slowest));
                   first = sa_provider (hd plan);
                   final = sa_provider (last plan);
                   spent = (if sq_head q \<noteq> Some first then rnd (spent + rnd (rtt_of (cs ! first) q / 2)) else spent)
               in if sq_head q \<noteq> Some final then rnd (spent + rnd (rtt_of (cs ! final) q / 2)) else spent)"

section \<open>The pool\<close>

definition ranked :: "search_candidate list \<Rightarrow> (search_candidate \<Rightarrow> rat) \<Rightarrow> nat list" where
  "ranked cs better = sort_key (\<lambda>i. (better (cs ! i), cd_key (cs ! i))) [0..<length cs]"

definition pool_lists :: "search_candidate list \<Rightarrow> search_request \<Rightarrow> nat list list" where
  "pool_lists cs q =
     [ranked cs (\<lambda>c. rtt_of c q),
      ranked cs (\<lambda>c. - double_of_bytes (cd_offered_mib c)),
      ranked cs speed_of,
      ranked cs (\<lambda>c. if cd_cached c = [] then 1 else 0)]"

text \<open>
  One round over the lists. A list is kept from its next position on, and the taken candidates
  are those of the pool.
\<close>

fun pool_round :: "nat \<Rightarrow> nat list list \<Rightarrow> nat list \<Rightarrow> nat list list \<times> nat list" where
  "pool_round limit [] pool = ([], pool)"
| "pool_round limit (l # ls) pool =
     (if length pool < limit then
        let rest = dropWhile (\<lambda>i. i \<in> set pool) l;
            (ls', pool') = pool_round limit ls (case rest of [] \<Rightarrow> pool | i # _ \<Rightarrow> pool @ [i])
        in (rest # ls', pool')
      else (l # ls, pool))"

text \<open>The loop; every round adds a candidate, so \<open>limit\<close> rounds are enough.\<close>

fun pool_rounds :: "nat \<Rightarrow> nat \<Rightarrow> nat list list \<Rightarrow> nat list \<Rightarrow> nat list" where
  "pool_rounds 0 limit ranks pool = pool"
| "pool_rounds (Suc fuel) limit ranks pool =
     (if length pool < limit then
        case pool_round limit ranks pool of (ranks', pool') \<Rightarrow> pool_rounds fuel limit ranks' pool'
      else pool)"

definition search_pool :: "search_candidate list \<Rightarrow> search_request \<Rightarrow> nat list" where
  "search_pool cs q =
     (let pool = (case sq_head q of Some h \<Rightarrow> if h < length cs then [h] else [] | None \<Rightarrow> []);
          limit = min (sq_pool_limit q) (length cs)
      in pool_rounds limit limit (pool_lists cs q) pool)"

section \<open>Groups and orders\<close>

text \<open>
  The next combination of \<open>n\<close> positions: the last slot that can move up does, and the slots
  after it follow it.
\<close>

definition bump :: "nat \<Rightarrow> nat list \<Rightarrow> nat list" where
  "bump slot pick = take slot pick @ [pick ! slot + 1..<pick ! slot + 1 + (length pick - slot)]"

definition next_pick :: "nat \<Rightarrow> nat list \<Rightarrow> nat list option" where
  "next_pick n pick =
     map_option (\<lambda>slot. bump slot pick)
       (find (\<lambda>slot. pick ! slot < n - length pick + slot) (rev [0..<length pick]))"

text \<open>How far every slot can still move; it gets smaller with every step.\<close>

definition pick_room :: "nat \<Rightarrow> nat list \<Rightarrow> nat list" where
  "pick_room n pick = map (\<lambda>slot. n - length pick + slot - pick ! slot) [0..<length pick]"

lemma find_SomeD: "find P xs = Some x \<Longrightarrow> P x \<and> x \<in> set xs"
  by (induction xs) (auto split: if_splits)

lemma next_pick_SomeD:
  assumes "next_pick n pick = Some pick'"
  shows "\<exists>slot < length pick. pick ! slot < n - length pick + slot \<and> pick' = bump slot pick"
proof -
  obtain slot where "find (\<lambda>slot. pick ! slot < n - length pick + slot) (rev [0..<length pick]) = Some slot"
      "pick' = bump slot pick"
    using assms by (auto simp: next_pick_def)
  then show ?thesis using find_SomeD by fastforce
qed

lemma bump_length: "slot < length pick \<Longrightarrow> length (bump slot pick) = length pick"
  by (simp add: bump_def del: upt_Suc)

lemma bump_nth:
  assumes "slot < length pick" and "i < length pick"
  shows "bump slot pick ! i = (if i < slot then pick ! i else pick ! slot + 1 + (i - slot))"
  using assms by (auto simp: bump_def nth_append simp del: upt_Suc)

lemma next_pick_length: "next_pick n pick = Some pick' \<Longrightarrow> length pick' = length pick"
  using next_pick_SomeD bump_length by blast

lemma lex_at:
  assumes "length xs = length ys" "slot < length xs" "take slot xs = take slot ys" "xs ! slot < (ys ! slot :: nat)"
  shows "(xs, ys) \<in> lex less_than"
proof -
  have "xs = take slot ys @ xs ! slot # drop (Suc slot) xs" "ys = take slot ys @ ys ! slot # drop (Suc slot) ys"
    using id_take_nth_drop[of slot xs] id_take_nth_drop[of slot ys] assms by auto
  then show ?thesis using assms(1,4) by (auto simp: lex_conv)
qed

lemma next_pick_room:
  assumes "next_pick n pick = Some pick'"
  shows "(pick_room n pick', pick_room n pick) \<in> lex less_than"
proof -
  obtain slot where s: "slot < length pick" "pick ! slot < n - length pick + slot" "pick' = bump slot pick"
    using next_pick_SomeD[OF assms] by blast
  show ?thesis
  proof (rule lex_at)
    show "take slot (pick_room n pick') = take slot (pick_room n pick)"
      using s by (auto simp: pick_room_def take_map bump_length bump_nth)
    show "pick_room n pick' ! slot < pick_room n pick ! slot"
      using s by (simp add: pick_room_def bump_length bump_nth)
  qed (use s in \<open>simp_all add: pick_room_def bump_length\<close>)
qed

function picks :: "nat \<Rightarrow> nat list \<Rightarrow> nat list list" where
  "picks n pick = pick # (case next_pick n pick of None \<Rightarrow> [] | Some pick' \<Rightarrow> picks n pick')"
  by pat_completeness auto
termination
  by (relation "inv_image (lex less_than) (\<lambda>(n, pick). pick_room n pick)")
    (auto intro: wf_lex next_pick_room)

declare picks.simps [simp del]

text \<open>\<^verbatim>\<open>std::next_permutation\<close> from the sorted list on: every order, the smallest first.\<close>

function perms :: "nat list \<Rightarrow> nat list list" where
  "perms xs = (if xs = [] then [[]] else concat (map (\<lambda>x. map ((#) x) (perms (remove1 x xs))) xs))"
  by pat_completeness auto
termination
  by (relation "measure length") (auto simp: length_remove1 intro: length_pos_if_in_set)

declare perms.simps [simp del]

definition not_head :: "search_request \<Rightarrow> nat \<Rightarrow> bool" where
  "not_head q i \<longleftrightarrow> sq_head q \<noteq> Some i"

definition add_order :: "nat list \<Rightarrow> nat list list \<Rightarrow> nat list list" where
  "add_order order orders = (if order \<in> set orders then orders else orders @ [order])"

text \<open>The orders of a group, and whether they are all of them.\<close>

definition group_orders :: "search_candidate list \<Rightarrow> search_request \<Rightarrow> nat list \<Rightarrow> nat list list \<times> bool" where
  "group_orders cs q members =
     (let rest = filter (not_head q) members
      in if length rest \<le> 4 then (perms (sort rest), True)
         else (fold add_order
                [sort_key (\<lambda>i. speed_of (cs ! i)) rest,
                 sort_key (\<lambda>i. - int (unat (cd_offered_mib (cs ! i)))) rest,
                 sort_key (\<lambda>i. rtt_of (cs ! i) q) rest] [], False))"

definition usable_memory :: "nat \<Rightarrow> search_candidate list \<Rightarrow> nat list \<Rightarrow> rat" where
  "usable_memory prec cs members =
     fold (\<lambda>i usable.
         let offered = fl prec (fl prec (of_int (uint (cd_offered_mib (cs ! i)))) * 1048576)
         in fl prec (usable + max 0 (fl prec (offered - max (1024 * 1048576) (fl prec (offered * fl prec (15 / 100)))))))
       members 0"

definition needed_memory :: "nat \<Rightarrow> sizes \<Rightarrow> nat \<Rightarrow> rat" where
  "needed_memory prec z stage_count =
     fl prec (fl prec (fl prec (of_int (uint (sizes_model z 0 (sz_layers z) - sz_header z)))
         + fl prec (fl prec (of_int (uint (sz_header z))) * fl prec (of_nat stage_count)))
       + fl prec (of_int (uint (sizes_kv z 0 (sz_layers z)))))"

definition time_bound :: "sizes \<Rightarrow> search_candidate list \<Rightarrow> search_request \<Rightarrow> nat list \<Rightarrow> rat" where
  "time_bound z cs q members =
     (let fastest = Min (set (map (\<lambda>i. speed_of (cs ! i)) members));
          any_links = list_ex (\<lambda>i. cd_links (cs ! i) \<noteq> []) members;
          sum = fold (\<lambda>i b. if not_head q i then rnd (b + rtt_of (cs ! i) q) else b) members 0;
          link_bound = (if length members < 2 \<or> any_links then 0 else rnd (sum / 2))
      in rnd (rnd (rnd (rnd (double_of_bytes (sizes_decode z 0 (sz_layers z)) / gib) * fastest) / 1000) + link_bound))"

section \<open>The search\<close>

record search_state =
  st_plan :: "stage_assignment list"
  st_token_ms :: "rat option"
  st_first_token_ms :: rat
  st_rank :: int
  st_evaluated :: nat
  st_exhaustive :: bool

record search_result =
  sres_plan :: "stage_assignment list"
  sres_token_ms :: rat
  sres_first_token_ms :: rat
  sres_from_cache :: bool
  sres_evaluated :: nat
  sres_complete :: bool

text \<open>A time that is not below the best plan's, when only such a time is worth trying.\<close>

definition hopeless :: "search_state \<Rightarrow> rat \<Rightarrow> bool" where
  "hopeless st ms \<longleftrightarrow> st_rank st = 2 \<and> (case st_token_ms st of None \<Rightarrow> False | Some t \<Rightarrow> ms \<ge> t)"

definition consider_plan ::
    "model_index \<Rightarrow> search_candidate list \<Rightarrow> search_request \<Rightarrow> rat \<Rightarrow> rat \<Rightarrow> stage_assignment list
     \<Rightarrow> search_state \<Rightarrow> search_state" where
  "consider_plan m cs q compute links plan st =
     (let first_token = search_first_token_ms m cs plan q;
          rank = first_token_rank first_token q;
          ms = rnd (compute + links)
      in if rank > st_rank st \<or> rank = st_rank st
              \<and> (case st_token_ms st of None \<Rightarrow> True | Some t \<Rightarrow> ms < rnd (t - rnd (1 / 1000000000)))
         then st\<lparr>st_token_ms := Some ms, st_first_token_ms := first_token, st_plan := plan, st_rank := rank\<rparr>
         else st)"

text \<open>The loop over the orders; the flag says whether the loop over the groups goes on.\<close>

fun try_orders ::
    "model_index \<Rightarrow> sizes \<Rightarrow> search_candidate list \<Rightarrow> search_request \<Rightarrow> nat list list \<Rightarrow> search_state
     \<Rightarrow> search_state \<times> bool" where
  "try_orders m z cs q [] st = (st, True)"
| "try_orders m z cs q (rest # orders) st =
     (let order = (case sq_head q of Some h \<Rightarrow> h # rest | None \<Rightarrow> rest)
      in if st_evaluated st \<ge> sq_work_budget q then (st\<lparr>st_exhaustive := False\<rparr>, False)
         else
           let st = st\<lparr>st_evaluated := Suc (st_evaluated st)\<rparr>;
               links = links_ms cs order q
           in if hopeless st links then try_orders m z cs q orders st
              else
                case best_split z cs order of
                  None \<Rightarrow> try_orders m z cs q orders st
                | Some (compute, plan) \<Rightarrow>
                    try_orders m z cs q orders (consider_plan m cs q compute links plan st))"

definition try_group ::
    "nat \<Rightarrow> model_index \<Rightarrow> sizes \<Rightarrow> search_candidate list \<Rightarrow> search_request \<Rightarrow> nat list \<Rightarrow> search_state
     \<Rightarrow> search_state \<times> bool" where
  "try_group prec m z cs q members st =
     (if (case sq_head q of Some h \<Rightarrow> h \<notin> set members | None \<Rightarrow> False) then (st, True)
      else if usable_memory prec cs members < needed_memory prec z (length members) then (st, True)
      else if hopeless st (time_bound z cs q members) then (st, True)
      else
        case group_orders cs q members of (orders, every) \<Rightarrow>
          try_orders m z cs q orders (if every then st else st\<lparr>st_exhaustive := False\<rparr>))"

fun try_groups ::
    "nat \<Rightarrow> model_index \<Rightarrow> sizes \<Rightarrow> search_candidate list \<Rightarrow> search_request \<Rightarrow> nat list list \<Rightarrow> search_state
     \<Rightarrow> search_state" where
  "try_groups prec m z cs q [] st = st"
| "try_groups prec m z cs q (members # groups) st =
     (case try_group prec m z cs q members st of
        (st, more_groups) \<Rightarrow> if more_groups then try_groups prec m z cs q groups st else st)"

fun try_counts ::
    "nat \<Rightarrow> model_index \<Rightarrow> sizes \<Rightarrow> search_candidate list \<Rightarrow> search_request \<Rightarrow> nat list \<Rightarrow> nat list \<Rightarrow> search_state
     \<Rightarrow> search_state" where
  "try_counts prec m z cs q pool [] st = st"
| "try_counts prec m z cs q pool (stage_count # counts) st =
     (let st = try_groups prec m z cs q (map (map ((!) pool)) (picks (length pool) [0..<stage_count])) st
      in if st_evaluated st \<ge> sq_work_budget q then st else try_counts prec m z cs q pool counts st)"

text \<open>The plan from the layers on disk, with the providers as candidates.\<close>

definition position_of :: "nat \<Rightarrow> nat list \<Rightarrow> nat option" where
  "position_of x xs = find (\<lambda>i. xs ! i = x) [0..<length xs]"

definition search_reuse ::
    "model_index \<Rightarrow> search_candidate list \<Rightarrow> search_request \<Rightarrow> nat list \<Rightarrow> nat \<Rightarrow> stage_assignment list option" where
  "search_reuse m cs q pool largest =
     map_option (map (\<lambda>s. s\<lparr>sa_provider := pool ! sa_provider s\<rparr>))
       (plan_from_cache m (map (\<lambda>i. cd_offered_mib (cs ! i)) pool) (map (\<lambda>i. cd_cached (cs ! i)) pool)
          (sq_context q) (sq_sessions q) (sq_minimum_stages q) largest
          (Option.bind (sq_head q) (\<lambda>h. position_of h pool)))"

definition prefer_reuse ::
    "model_index \<Rightarrow> search_candidate list \<Rightarrow> search_request \<Rightarrow> stage_assignment list option \<Rightarrow> search_state
     \<Rightarrow> search_state \<times> bool" where
  "prefer_reuse m cs q reuse st =
     (case reuse of
        None \<Rightarrow> (st, False)
      | Some plan \<Rightarrow>
          let reuse_ms = search_token_ms m cs plan q;
              reuse_first = search_first_token_ms m cs plan q
          in if st_plan st = [] \<or> first_token_rank reuse_first q \<ge> st_rank st
                  \<and> (case st_token_ms st of None \<Rightarrow> True
                     | Some t \<Rightarrow> reuse_ms \<le> rnd (t * rnd (1 + sq_cached_tolerance q)))
             then (st\<lparr>st_plan := plan, st_token_ms := Some reuse_ms, st_first_token_ms := reuse_first\<rparr>, True)
             else (st, False))"

definition largest_group :: "search_candidate list \<Rightarrow> search_request \<Rightarrow> sizes \<Rightarrow> nat" where
  "largest_group cs q z = min (sq_maximum_stages q) (min (length (search_pool cs q)) (nat (sz_layers z)))"

definition search_groups ::
    "nat \<Rightarrow> model_index \<Rightarrow> search_candidate list \<Rightarrow> search_request \<Rightarrow> sizes \<Rightarrow> search_state" where
  "search_groups prec m cs q z =
     try_counts prec m z cs q (search_pool cs q) [sq_minimum_stages q..<Suc (largest_group cs q z)]
       \<lparr>st_plan = [], st_token_ms = None, st_first_token_ms = 0, st_rank = -1, st_evaluated = 0,
         st_exhaustive = (length (search_pool cs q) = length cs)\<rparr>"

definition finish_search :: "search_request \<Rightarrow> nat \<Rightarrow> search_state \<times> bool \<Rightarrow> string + search_result" where
  "finish_search q largest = (\<lambda>(st, reused).
     if st_plan st = [] then
       Inl (if st_evaluated st \<ge> sq_work_budget q then ''no plan found within the search budget''
            else ''no group of up to '' @ dec largest @ '' candidates holds the model''
              @ '' with this context and session count'')
     else Inr \<lparr>sres_plan = st_plan st, sres_token_ms = (case st_token_ms st of Some ms \<Rightarrow> ms | None \<Rightarrow> 0),
       sres_first_token_ms = st_first_token_ms st, sres_from_cache = reused,
       sres_evaluated = st_evaluated st,
       sres_complete = (st_exhaustive st \<and> st_evaluated st < sq_work_budget q)\<rparr>)"

definition search_plan ::
    "nat \<Rightarrow> model_index \<Rightarrow> search_candidate list \<Rightarrow> search_request \<Rightarrow> string + search_result" where
  "search_plan prec m cs q =
     (if compatible_stage_model m \<noteq> None then Inl ''model cannot be staged''
      else if cs = [] \<or> sq_context q = 0 \<or> sq_sessions q = 0 \<or> sq_minimum_stages q = 0
          \<or> sq_maximum_stages q < sq_minimum_stages q
          \<or> (case sq_head q of Some h \<Rightarrow> h \<ge> length cs | None \<Rightarrow> False)
      then Inl ''invalid search request''
      else
        case sizes_of m (sq_context q) (sq_sessions q) of
          None \<Rightarrow> Inl ''model sizes are not additive by layer''
        | Some z \<Rightarrow>
            let largest = largest_group cs q z
            in finish_search q largest
                 (prefer_reuse m cs q (search_reuse m cs q (search_pool cs q) largest)
                    (search_groups prec m cs q z)))"

section \<open>Pools, groups and orders\<close>

lemma ranked_set: "set (ranked cs f) = {..<length cs}"
  by (auto simp: ranked_def)

lemma pool_lists_set: "l \<in> set (pool_lists cs q) \<Longrightarrow> set l = {..<length cs}"
  by (auto simp: pool_lists_def ranked_set)

text \<open>A list of the pool still holds every candidate that is not taken.\<close>

definition pool_ok :: "nat \<Rightarrow> nat list list \<Rightarrow> nat list \<Rightarrow> bool" where
  "pool_ok n ls pool \<longleftrightarrow> distinct pool \<and> set pool \<subseteq> {..<n}
     \<and> (\<forall>l \<in> set ls. set l \<subseteq> {..<n} \<and> {..<n} \<subseteq> set l \<union> set pool)"

lemma dropWhile_taken: "set l \<subseteq> set (dropWhile (\<lambda>i. i \<in> set pool) l) \<union> set pool"
  by (induction l) auto

lemma pool_ok_Cons:
  "pool_ok n (l # ls) pool \<longleftrightarrow> pool_ok n ls pool \<and> set l \<subseteq> {..<n} \<and> {..<n} \<subseteq> set l \<union> set pool"
  by (auto simp: pool_ok_def)

lemma pool_ok_take:
  assumes "pool_ok n (l # ls) pool" and "rest = dropWhile (\<lambda>i. i \<in> set pool) l"
    and "pool' = (case rest of [] \<Rightarrow> pool | i # _ \<Rightarrow> pool @ [i])"
  shows "pool_ok n ls pool'" "set rest \<subseteq> {..<n}" "{..<n} \<subseteq> set rest \<union> set pool" "set pool \<subseteq> set pool'"
    "length pool < n \<Longrightarrow> length pool' = Suc (length pool)"
proof -
  have l: "set l \<subseteq> {..<n}" "{..<n} \<subseteq> set l \<union> set pool" and ok: "distinct pool" "set pool \<subseteq> {..<n}"
    using assms(1) by (auto simp: pool_ok_def)
  have sub: "set rest \<subseteq> set l" using assms(2) set_dropWhileD by fastforce
  have hd: "i \<notin> set pool" "i < n" if "rest = i # xs" for i xs
    using that assms(2) sub l(1) hd_dropWhile[of "\<lambda>i. i \<in> set pool" l] by auto
  show "pool_ok n ls pool'"
    using assms(1) hd unfolding assms(3) by (auto simp: pool_ok_def split: list.split)
  show "set rest \<subseteq> {..<n}" using sub l by blast
  show cover: "{..<n} \<subseteq> set rest \<union> set pool" using dropWhile_taken[of l pool] l(2) assms(2) by auto
  show "set pool \<subseteq> set pool'" unfolding assms(3) by (auto split: list.split)
  show "length pool' = Suc (length pool)" if "length pool < n"
  proof -
    have "\<not> {..<n} \<subseteq> set pool"
      using that distinct_card[OF ok(1)] card_mono[of "set pool" "{..<n}"] by auto
    then have "rest \<noteq> []" using cover by auto
    then show ?thesis unfolding assms(3) by (cases rest) auto
  qed
qed

lemma pool_round_ok:
  assumes "pool_ok n ls pool" and "pool_round limit ls pool = (ls', pool')"
  shows "pool_ok n ls' pool' \<and> set pool \<subseteq> set pool' \<and> length pool \<le> length pool'"
  using assms
proof (induction ls arbitrary: pool ls')
  case (Cons l ls)
  show ?case
  proof (cases "length pool < limit")
    case True
    define rest where "rest = dropWhile (\<lambda>i. i \<in> set pool) l"
    define mid where "mid = (case rest of [] \<Rightarrow> pool | i # _ \<Rightarrow> pool @ [i])"
    note t = pool_ok_take[OF Cons.prems(1) rest_def mid_def]
    obtain ls'' where r: "pool_round limit ls mid = (ls'', pool')" "ls' = rest # ls''"
      using Cons.prems(2) True by (auto simp: Let_def rest_def mid_def split: prod.splits)
    have "length pool \<le> length mid" by (auto simp: mid_def split: list.split)
    with Cons.IH[OF t(1) r(1)] t show ?thesis unfolding r(2) pool_ok_Cons by auto
  next
    case False
    then show ?thesis using Cons.prems by simp
  qed
qed (simp add: pool_ok_def)

lemma pool_round_grows:
  assumes "pool_ok n ls pool" and "pool_round limit ls pool = (ls', pool')" and "ls \<noteq> []"
    and "length pool < limit" and "limit \<le> n"
  shows "length pool < length pool'"
proof -
  obtain l ls0 where ls: "ls = l # ls0" using assms(3) by (cases ls) auto
  define rest where "rest = dropWhile (\<lambda>i. i \<in> set pool) l"
  define mid where "mid = (case rest of [] \<Rightarrow> pool | i # _ \<Rightarrow> pool @ [i])"
  note t = pool_ok_take[OF assms(1)[unfolded ls] rest_def mid_def]
  obtain ls'' where r: "pool_round limit ls0 mid = (ls'', pool')"
    using assms(2,4) by (auto simp: ls Let_def rest_def mid_def split: prod.splits)
  from pool_round_ok[OF t(1) r] t(5) assms(4,5) show ?thesis by simp
qed

lemma pool_round_lists: "pool_round limit ls pool = (ls', pool') \<Longrightarrow> length ls' = length ls"
  by (induction ls arbitrary: pool ls') (auto simp: Let_def split: if_splits prod.splits)

lemma pool_rounds_ok:
  assumes "pool_ok n ls pool" and "ls \<noteq> []" and "limit \<le> n" and "limit \<le> fuel + length pool"
  shows "distinct (pool_rounds fuel limit ls pool) \<and> set (pool_rounds fuel limit ls pool) \<subseteq> {..<n}
    \<and> set pool \<subseteq> set (pool_rounds fuel limit ls pool) \<and> limit \<le> length (pool_rounds fuel limit ls pool)"
  using assms
proof (induction fuel arbitrary: ls pool)
  case (Suc fuel)
  show ?case
  proof (cases "length pool < limit")
    case True
    obtain ls' pool' where r: "pool_round limit ls pool = (ls', pool')" by force
    note ok = pool_round_ok[OF Suc.prems(1) r] pool_round_grows[OF Suc.prems(1) r Suc.prems(2) True Suc.prems(3)]
    have "ls' \<noteq> []" using pool_round_lists[OF r] Suc.prems(2) by auto
    then show ?thesis using Suc.IH[of ls' pool'] ok Suc.prems(3,4) True r by auto
  qed (use Suc.prems in \<open>simp add: pool_ok_def\<close>)
qed (simp add: pool_ok_def)

lemma search_pool_ok:
  shows "distinct (search_pool cs q)" "set (search_pool cs q) \<subseteq> {..<length cs}"
    "min (sq_pool_limit q) (length cs) \<le> length (search_pool cs q)"
    "sq_head q = Some h \<Longrightarrow> h < length cs \<Longrightarrow> h \<in> set (search_pool cs q)"
proof -
  let ?pool = "case sq_head q of Some h \<Rightarrow> if h < length cs then [h] else [] | None \<Rightarrow> []"
  have "pool_ok (length cs) (pool_lists cs q) ?pool"
    unfolding pool_ok_def using pool_lists_set[of _ cs q] by (auto split: option.split)
  from pool_rounds_ok[OF this, of "min (sq_pool_limit q) (length cs)" "min (sq_pool_limit q) (length cs)"]
  show "distinct (search_pool cs q)" "set (search_pool cs q) \<subseteq> {..<length cs}"
    "min (sq_pool_limit q) (length cs) \<le> length (search_pool cs q)"
    "sq_head q = Some h \<Longrightarrow> h < length cs \<Longrightarrow> h \<in> set (search_pool cs q)"
    by (auto simp: search_pool_def Let_def pool_lists_def)
qed

text \<open>Picks are increasing positions; orders are rearrangements of the group.\<close>

definition good_pick :: "nat \<Rightarrow> nat \<Rightarrow> nat list \<Rightarrow> bool" where
  "good_pick n k pick \<longleftrightarrow> length pick = k \<and> sorted_wrt (<) pick \<and> set pick \<subseteq> {..<n}"

lemma bump_good:
  assumes "good_pick n k pick" and "k \<le> n" and "slot < k" and "pick ! slot < n - k + slot"
  shows "good_pick n k (bump slot pick)"
proof -
  have len: "length pick = k" and lt: "\<And>i j. i < j \<Longrightarrow> j < k \<Longrightarrow> pick ! i < pick ! j"
    and below: "\<And>i. i < k \<Longrightarrow> pick ! i < n"
    using assms(1) by (auto simp: good_pick_def sorted_wrt_iff_nth_less subset_code(1))
  note nth = bump_nth[of slot pick, unfolded len, OF assms(3)]
  have "bump slot pick ! i < bump slot pick ! j" if "i < j" "j < k" for i j
    using that lt[of i j] lt[of i slot] nth[of i] nth[of j] assms(3) by auto
  moreover have "bump slot pick ! i < n" if "i < k" for i
    using that below[of i] nth[of i] assms(2,4) by auto
  ultimately show ?thesis
    using bump_length[of slot pick] assms(3) len
    by (auto simp: good_pick_def sorted_wrt_iff_nth_less in_set_conv_nth)
qed

lemma picks_good: "good_pick n k pick \<Longrightarrow> k \<le> n \<Longrightarrow> p \<in> set (picks n pick) \<Longrightarrow> good_pick n k p"
proof (induction n pick rule: picks.induct)
  case (1 n pick)
  show ?case
  proof (cases "next_pick n pick")
    case None
    then show ?thesis using "1.prems" by (simp add: picks.simps[of n pick])
  next
    case (Some pick')
    have "good_pick n k pick'"
      using next_pick_SomeD[OF Some] bump_good[OF "1.prems"(1,2)] "1.prems"(1) by (auto simp: good_pick_def)
    then show ?thesis using "1.IH"[OF Some] "1.prems" Some by (auto simp: picks.simps[of n pick])
  qed
qed

lemma first_pick_good: "k \<le> n \<Longrightarrow> good_pick n k [0..<k]"
  by (auto simp: good_pick_def)

lemma perms_mset: "ys \<in> set (perms xs) \<Longrightarrow> mset ys = mset xs"
proof (induction xs arbitrary: ys rule: perms.induct)
  case (1 xs)
  show ?case
  proof (cases "xs = []")
    case False
    then obtain x zs where "x \<in> set xs" "zs \<in> set (perms (remove1 x xs))" "ys = x # zs"
      using "1.prems" by (auto simp: perms.simps[of xs])
    then show ?thesis using "1.IH"[OF False, of x zs] by simp
  qed (use "1.prems" in \<open>simp add: perms.simps\<close>)
qed

lemma add_order_set [simp]: "set (add_order order orders) = insert order (set orders)"
  by (auto simp: add_order_def)

lemma group_orders_mset:
  assumes "order \<in> set (fst (group_orders cs q members))"
  shows "mset order = mset (filter (not_head q) members)"
proof -
  let ?rest = "filter (not_head q) members"
  show ?thesis
  proof (cases "length ?rest \<le> 4")
    case True
    then have "order \<in> set (perms (sort ?rest))" using assms by (simp add: group_orders_def)
    then show ?thesis using perms_mset by fastforce
  next
    case False
    with assms have "order = sort_key (\<lambda>i. speed_of (cs ! i)) ?rest
        \<or> order = sort_key (\<lambda>i. - int (unat (cd_offered_mib (cs ! i)))) ?rest
        \<or> order = sort_key (\<lambda>i. rtt_of (cs ! i) q) ?rest"
      by (auto simp: group_orders_def Let_def)
    then show ?thesis by (elim disjE) simp_all
  qed
qed

section \<open>The search finds valid plans\<close>

lemma tiles_bounds:
  "tiles b e ss \<Longrightarrow> s \<in> set ss \<Longrightarrow> b \<le> sa_begin s \<and> sa_begin s < sa_end s \<and> sa_end s \<le> e"
proof (induction ss arbitrary: b)
  case (Cons x ss)
  then show ?case using tiles_le[of "sa_end x" e ss] by fastforce
qed simp

text \<open>The orders the search may try: distinct candidates, the head first, within the stage bounds.\<close>

definition good_order :: "search_candidate list \<Rightarrow> search_request \<Rightarrow> nat \<Rightarrow> nat list \<Rightarrow> bool" where
  "good_order cs q largest order \<longleftrightarrow> distinct order \<and> set order \<subseteq> {..<length cs}
     \<and> (\<forall>h. sq_head q = Some h \<longrightarrow> order \<noteq> [] \<and> hd order = h)
     \<and> sq_minimum_stages q \<le> length order \<and> length order \<le> largest"

definition good_plan ::
    "model_index \<Rightarrow> search_candidate list \<Rightarrow> search_request \<Rightarrow> nat \<Rightarrow> stage_assignment list \<Rightarrow> bool" where
  "good_plan m cs q largest plan \<longleftrightarrow>
     valid_plan m (map cd_offered_mib cs) (sq_context q) (sq_sessions q) (sq_head q) plan
     \<and> sq_minimum_stages q \<le> length plan \<and> length plan \<le> largest"

definition state_ok :: "model_index \<Rightarrow> search_candidate list \<Rightarrow> search_request \<Rightarrow> nat \<Rightarrow> search_state \<Rightarrow> bool" where
  "state_ok m cs q largest st \<longleftrightarrow>
     (st_plan st = [] \<or> good_plan m cs q largest (st_plan st)) \<and> st_evaluated st \<le> sq_work_budget q"

lemma splits_to_good:
  assumes z: "sizes_of m (sq_context q) (sq_sessions q) = Some z"
    and kv: "kv_bytes m 0 (sint (mi_layers m)) (sq_context q) (sq_sessions q) \<noteq> 0"
    and "splits_to z cs order (sz_layers z) plan" and "good_order cs q largest order" and "0 < sq_minimum_stages q"
  shows "good_plan m cs q largest plan"
proof -
  have p: "map sa_provider plan = order" "tiles 0 (sint (mi_layers m)) plan" "list_all (split_stage z cs) plan"
    using assms(3) sizes_of_SomeD(1)[OF z] by (auto simp: splits_to_def)
  have "stage_ok m (map cd_offered_mib cs) (sq_context q) (sq_sessions q) s" if s: "s \<in> set plan" for s
  proof -
    have b: "0 \<le> sa_begin s" "sa_begin s < sa_end s" "sa_end s \<le> sint (mi_layers m)"
      using tiles_bounds[OF p(2) s] by auto
    have i: "sa_provider s < length cs" using p(1) s assms(4) unfolding good_order_def by (metis imageI lessThan_iff set_map subsetD)
    have "split_stage z cs s" using p(3) s by (simp add: list_all_iff)
    then show ?thesis
      using fits_stage_fits[OF z kv b, of "cd_offered_mib (cs ! sa_provider s)"] i
      by (cases s) (simp add: stage_ok_def split_stage_def)
  qed
  moreover have "length plan = length order" "hd order = sa_provider (hd plan)" if "plan \<noteq> []"
    using p(1) that by (auto simp: hd_map)
  moreover have "plan \<noteq> []" using p(1) assms(4,5) by (auto simp: good_order_def)
  ultimately show ?thesis
    using p assms(4) by (auto simp: good_plan_def valid_plan_def list_all_iff good_order_def)
qed

lemma try_orders_ok:
  assumes z: "sizes_of m (sq_context q) (sq_sessions q) = Some z"
    and kv: "kv_bytes m 0 (sint (mi_layers m)) (sq_context q) (sq_sessions q) \<noteq> 0"
    and pos: "0 < sq_minimum_stages q"
  shows "state_ok m cs q largest st \<Longrightarrow>
    \<forall>rest \<in> set orders. good_order cs q largest (case sq_head q of Some h \<Rightarrow> h # rest | None \<Rightarrow> rest) \<Longrightarrow>
    state_ok m cs q largest (fst (try_orders m z cs q orders st))"
proof (induction orders arbitrary: st)
  case (Cons rest orders)
  let ?order = "case sq_head q of Some h \<Rightarrow> h # rest | None \<Rightarrow> rest"
  let ?st = "st\<lparr>st_evaluated := Suc (st_evaluated st)\<rparr>"
  show ?case
  proof (cases "st_evaluated st \<ge> sq_work_budget q")
    case True
    then show ?thesis using Cons.prems(1) by (simp add: Let_def state_ok_def)
  next
    case False
    then have st: "state_ok m cs q largest ?st" using Cons.prems(1) by (simp add: state_ok_def)
    have next_ok: "state_ok m cs q largest (fst (try_orders m z cs q orders st'))"
      if "state_ok m cs q largest st'" for st'
      using Cons.IH[OF that] Cons.prems(2) by simp
    have "state_ok m cs q largest (consider_plan m cs q compute links plan ?st)"
      if "best_split z cs ?order = Some (compute, plan)" for compute links plan
      using splits_to_good[OF z kv best_split_Some(1)[OF that] _ pos] Cons.prems(2) st
      by (auto simp: consider_plan_def Let_def state_ok_def)
    then show ?thesis using False next_ok st by (auto simp: Let_def split: option.split)
  qed
qed simp

lemma head_first_order:
  assumes "mset rest = mset (filter (not_head q) members)" and "distinct members"
    and "case sq_head q of Some h \<Rightarrow> h \<in> set members | None \<Rightarrow> True"
  shows "mset (case sq_head q of Some h \<Rightarrow> h # rest | None \<Rightarrow> rest) = mset members"
proof (cases "sq_head q")
  case None
  then show ?thesis using assms(1) by (simp add: not_head_def)
next
  case (Some h)
  have "filter (not_head q) members = remove1 h members"
    using assms(2) Some
    by (simp add: not_head_def distinct_remove1_removeAll removeAll_filter_not_eq cong: filter_cong)
  then show ?thesis using assms Some by simp
qed

lemma try_group_ok:
  assumes z: "sizes_of m (sq_context q) (sq_sessions q) = Some z"
    and kv: "kv_bytes m 0 (sint (mi_layers m)) (sq_context q) (sq_sessions q) \<noteq> 0"
    and pos: "0 < sq_minimum_stages q"
    and st: "state_ok m cs q largest st" and g: "distinct members" "set members \<subseteq> {..<length cs}"
      "sq_minimum_stages q \<le> length members" "length members \<le> largest"
  shows "state_ok m cs q largest (fst (try_group prec m z cs q members st))"
proof (cases "(case sq_head q of Some h \<Rightarrow> h \<notin> set members | None \<Rightarrow> False)
    \<or> usable_memory prec cs members < needed_memory prec z (length members)
    \<or> hopeless st (time_bound z cs q members)")
  case True
  then show ?thesis using st by (auto simp: try_group_def)
next
  case False
  have good: "good_order cs q largest (case sq_head q of Some h \<Rightarrow> h # rest | None \<Rightarrow> rest)"
    if "rest \<in> set (fst (group_orders cs q members))" for rest
  proof -
    let ?order = "case sq_head q of Some h \<Rightarrow> h # rest | None \<Rightarrow> rest"
    have "mset ?order = mset members"
      using head_first_order[OF group_orders_mset[OF that] g(1)] False by (auto split: option.splits)
    then have "distinct ?order" "set ?order = set members" "length ?order = length members"
      using g(1) mset_eq_imp_distinct_iff mset_eq_setD mset_eq_length by blast+
    then show ?thesis using g by (auto simp: good_order_def split: option.splits)
  qed
  obtain orders every where o: "group_orders cs q members = (orders, every)" by force
  have "state_ok m cs q largest (if every then st else st\<lparr>st_exhaustive := False\<rparr>)"
    using st by (simp add: state_ok_def)
  then show ?thesis
    using try_orders_ok[OF z kv pos, of cs largest _ orders] good o False by (auto simp: try_group_def)
qed

lemma try_groups_ok:
  assumes "sizes_of m (sq_context q) (sq_sessions q) = Some z"
    and "kv_bytes m 0 (sint (mi_layers m)) (sq_context q) (sq_sessions q) \<noteq> 0"
    and "0 < sq_minimum_stages q"
  shows "state_ok m cs q largest st \<Longrightarrow>
    \<forall>g \<in> set groups. distinct g \<and> set g \<subseteq> {..<length cs} \<and> sq_minimum_stages q \<le> length g \<and> length g \<le> largest \<Longrightarrow>
    state_ok m cs q largest (try_groups prec m z cs q groups st)"
proof (induction groups arbitrary: st)
  case (Cons g groups)
  have "state_ok m cs q largest (fst (try_group prec m z cs q g st))"
    using try_group_ok[OF assms Cons.prems(1)] Cons.prems(2) by simp
  then show ?case using Cons.IH Cons.prems(2) by (auto split: prod.split)
qed simp

lemma try_counts_ok:
  assumes "sizes_of m (sq_context q) (sq_sessions q) = Some z"
    and "kv_bytes m 0 (sint (mi_layers m)) (sq_context q) (sq_sessions q) \<noteq> 0"
    and "0 < sq_minimum_stages q" and "distinct pool" and "set pool \<subseteq> {..<length cs}" and "largest \<le> length pool"
  shows "state_ok m cs q largest st \<Longrightarrow> \<forall>k \<in> set counts. sq_minimum_stages q \<le> k \<and> k \<le> largest \<Longrightarrow>
    state_ok m cs q largest (try_counts prec m z cs q pool counts st)"
proof (induction counts arbitrary: st)
  case (Cons k counts)
  have "distinct (map ((!) pool) p) \<and> set (map ((!) pool) p) \<subseteq> {..<length cs} \<and> length p = k"
    if "p \<in> set (picks (length pool) [0..<k])" for p
  proof -
    have "good_pick (length pool) k p"
      using picks_good[OF first_pick_good _ that] Cons.prems(2) assms(6) by simp
    then have p: "length p = k" "distinct p" "set p \<subseteq> {..<length pool}"
      by (auto simp: good_pick_def strict_sorted_iff)
    have "inj_on ((!) pool) (set p)" using p(3) assms(4) unfolding inj_on_def by (metis lessThan_iff nth_eq_iff_index_eq subsetD)
    moreover have "pool ! i < length cs" if "i \<in> set p" for i
      using that p(3) assms(5) by (meson lessThan_iff nth_mem subsetD)
    ultimately show ?thesis using p by (auto simp: distinct_map)
  qed
  then have "state_ok m cs q largest (try_groups prec m z cs q (map (map ((!) pool)) (picks (length pool) [0..<k])) st)"
    using try_groups_ok[OF assms(1-3) Cons.prems(1)] Cons.prems(2) by simp
  then show ?case using Cons.IH Cons.prems(2) by (simp add: Let_def)
qed simp

lemma position_of_SomeD: "position_of x xs = Some i \<Longrightarrow> i < length xs \<and> xs ! i = x"
  by (auto simp: position_of_def dest!: find_SomeD)

lemma position_of_finds: "x \<in> set xs \<Longrightarrow> \<exists>i. position_of x xs = Some i"
  by (auto simp: position_of_def find_None_iff in_set_conv_nth simp flip: not_None_eq)

text \<open>A plan over the positions of the pool is a plan over the candidates.\<close>

lemma stage_ok_pool:
  assumes "stage_ok m (map (\<lambda>i. cd_offered_mib (cs ! i)) pool) ctx sessions s" and "set pool \<subseteq> {..<length cs}"
  shows "stage_ok m (map cd_offered_mib cs) ctx sessions (s\<lparr>sa_provider := pool ! sa_provider s\<rparr>)"
proof -
  have i: "sa_provider s < length pool" using assms(1) by (simp add: stage_ok_def)
  then have "pool ! sa_provider s < length cs" using assms(2) by (meson lessThan_iff nth_mem subsetD)
  then show ?thesis using assms(1) i by (simp add: stage_ok_def)
qed

lemma tiles_provider: "tiles b e (map (\<lambda>s. s\<lparr>sa_provider := f s\<rparr>) ss) = tiles b e ss"
  by (induction ss arbitrary: b) auto

lemma search_reuse_good:
  assumes "search_reuse m cs q pool largest = Some plan" and pool: "distinct pool" "set pool \<subseteq> {..<length cs}"
    and head: "\<And>h. sq_head q = Some h \<Longrightarrow> h \<in> set pool"
  shows "good_plan m cs q largest plan \<and> list_all (from_cache (map cd_cached cs)) plan"
proof -
  let ?offered = "map (\<lambda>i. cd_offered_mib (cs ! i)) pool" and ?cached = "map (\<lambda>i. cd_cached (cs ! i)) pool"
  let ?head = "Option.bind (sq_head q) (\<lambda>h. position_of h pool)" and ?at = "\<lambda>s. s\<lparr>sa_provider := pool ! sa_provider s\<rparr>"
  obtain ss where "plan_from_cache m ?offered ?cached (sq_context q) (sq_sessions q) (sq_minimum_stages q) largest ?head = Some ss"
    and plan: "plan = map ?at ss"
    using assms(1) by (auto simp: search_reuse_def)
  from plan_from_cache_sound[OF this(1)]
  have v: "ss \<noteq> []" "tiles 0 (sint (mi_layers m)) ss" "distinct (map sa_provider ss)"
      "list_all (stage_ok m ?offered (sq_context q) (sq_sessions q)) ss" "list_all (from_cache ?cached) ss"
      "\<And>h. ?head = Some h \<Longrightarrow> sa_provider (hd ss) = h"
      "sq_minimum_stages q \<le> length ss" "length ss \<le> largest"
    by (auto simp: cached_plan_def valid_plan_def)
  have in_pool: "sa_provider s < length pool" if "s \<in> set ss" for s
    using v(4) that by (auto simp: list_all_iff stage_ok_def)
  have "inj_on ((!) pool) (set (map sa_provider ss))"
    using in_pool pool(1) by (auto simp: inj_on_def nth_eq_iff_index_eq)
  then have dist: "distinct (map sa_provider plan)"
    using v(3) unfolding plan by (simp add: comp_def distinct_map inj_on_def) 
  have oks: "list_all (stage_ok m (map cd_offered_mib cs) (sq_context q) (sq_sessions q)) plan"
    using v(4) stage_ok_pool[OF _ pool(2)] unfolding plan by (auto simp: list_all_iff)
  have hd: "sa_provider (hd plan) = h" if h: "sq_head q = Some h" for h
  proof -
    obtain i where i: "position_of h pool = Some i" using position_of_finds[OF head[OF h]] by blast
    then show ?thesis using v(1) v(6)[of i] h position_of_SomeD[OF i] by (simp add: plan hd_map)
  qed
  have "from_cache (map cd_cached cs) (?at s)" if "s \<in> set ss" for s
  proof -
    have "pool ! sa_provider s < length cs" using in_pool[OF that] pool(2) by (meson lessThan_iff nth_mem subsetD)
    then show ?thesis using v(5) that in_pool[OF that] by (auto simp: list_all_iff from_cache_def)
  qed
  then show ?thesis
    using v dist oks hd by (auto simp: plan good_plan_def valid_plan_def tiles_provider list_all_iff)
qed

lemma search_plan_good:
  assumes r: "search_plan prec m cs q = Inr r"
    and kv: "kv_bytes m 0 (sint (mi_layers m)) (sq_context q) (sq_sessions q) \<noteq> 0"
  shows "good_plan m cs q (sq_maximum_stages q) (sres_plan r) \<and> sres_evaluated r \<le> sq_work_budget q
    \<and> (sres_from_cache r \<longrightarrow> list_all (from_cache (map cd_cached cs)) (sres_plan r))"
proof -
  let ?pool = "search_pool cs q"
  have req: "0 < sq_minimum_stages q" "\<And>h. sq_head q = Some h \<Longrightarrow> h < length cs"
    using r by (auto simp: search_plan_def split: if_splits)
  obtain z where z: "sizes_of m (sq_context q) (sq_sessions q) = Some z"
    using r by (auto simp: search_plan_def split: if_splits option.splits)
  define largest where "largest = largest_group cs q z"
  let ?st = "search_groups prec m cs q z" and ?reuse = "search_reuse m cs q ?pool largest"
  obtain st' reused where p: "prefer_reuse m cs q ?reuse ?st = (st', reused)" by force
  have "finish_search q largest (st', reused) = Inr r"
    using r z p by (simp add: search_plan_def Let_def largest_def split: if_splits)
  then have res: "st_plan st' \<noteq> []" "sres_plan r = st_plan st'" "sres_evaluated r = st_evaluated st'"
      "sres_from_cache r = reused"
    by (auto simp: finish_search_def split: if_splits)
  have "state_ok m cs q largest ?st"
    unfolding search_groups_def
    by (rule try_counts_ok[OF z kv req(1) search_pool_ok(1,2)])
      (auto simp: largest_def largest_group_def state_ok_def)
  moreover have "good_plan m cs q largest plan \<and> list_all (from_cache (map cd_cached cs)) plan"
    if "?reuse = Some plan" for plan
    using search_reuse_good[OF that search_pool_ok(1,2)] search_pool_ok(4) req(2) by blast
  ultimately have "good_plan m cs q largest (st_plan st')" "st_evaluated st' \<le> sq_work_budget q"
      "reused \<longrightarrow> list_all (from_cache (map cd_cached cs)) (st_plan st')"
    using p res(1) by (auto simp: prefer_reuse_def Let_def state_ok_def split: option.splits if_splits)
  then show ?thesis using res by (auto simp: good_plan_def largest_def largest_group_def)
qed

text \<open>A plan from the caches keeps the search from failing.\<close>

lemma search_plan_reuses:
  assumes "compatible_stage_model m = None" and "cs \<noteq> []" and "sq_context q \<noteq> 0" and "sq_sessions q \<noteq> 0"
    and "sq_minimum_stages q \<noteq> 0" and "sq_minimum_stages q \<le> sq_maximum_stages q"
    and "\<forall>h. sq_head q = Some h \<longrightarrow> h < length cs" and z: "sizes_of m (sq_context q) (sq_sessions q) = Some z"
    and reuse: "search_reuse m cs q (search_pool cs q) (largest_group cs q z) = Some plan"
  shows "\<exists>r. search_plan prec m cs q = Inr r"
proof -
  let ?p = "prefer_reuse m cs q (Some plan) (search_groups prec m cs q z)"
  have "plan \<noteq> []"
    using search_reuse_good[OF reuse search_pool_ok(1,2)] search_pool_ok(4) assms(7)
    by (auto simp: good_plan_def valid_plan_def)
  then have "st_plan (fst ?p) \<noteq> []" by (auto simp: prefer_reuse_def Let_def)
  then have "\<exists>r. finish_search q (largest_group cs q z) ?p = Inr r"
    by (cases ?p) (simp add: finish_search_def)
  moreover have "search_plan prec m cs q = finish_search q (largest_group cs q z) ?p"
    using assms by (auto simp: search_plan_def Let_def split: option.split)
  ultimately show ?thesis by simp
qed

section \<open>Properties\<close>

text \<open>
  C8. Whatever the search returns can be deployed: the plan covers every layer exactly once with
  distinct candidates, starts at the asked-for head, gives every stage a range that fits what its
  candidate offers by the planner's own rule, and has a stage count within the request's bounds.
  A plan reported as coming from the caches uses only ranges on disk, and the number of splits
  tried stays within the work budget. (The KV cache of the whole model has to fit 64 bits.)
\<close>

theorem search_plan_sound:
  assumes "search_plan prec m cs q = Inr r"
    and "kv_bytes m 0 (sint (mi_layers m)) (sq_context q) (sq_sessions q) \<noteq> 0"
  shows "valid_plan m (map cd_offered_mib cs) (sq_context q) (sq_sessions q) (sq_head q) (sres_plan r)
    \<and> sq_minimum_stages q \<le> length (sres_plan r) \<and> length (sres_plan r) \<le> sq_maximum_stages q
    \<and> sres_evaluated r \<le> sq_work_budget q
    \<and> (sres_from_cache r \<longrightarrow> list_all (from_cache (map cd_cached cs)) (sres_plan r))"
  using search_plan_good[OF assms] by (auto simp: good_plan_def)

definition cache_candidates :: "search_candidate list" where
  "cache_candidates = [\<lparr>cd_offered_mib = 2048, cd_us_per_gib = 0, cd_rtt_ms = 0, cd_relayed = False,
     cd_prefill_us_per_gib = 0, cd_cached = [(0, 2)], cd_key = ''a'', cd_links = []\<rparr>]"

definition cache_request :: search_request where
  "cache_request = \<lparr>sq_context = 100, sq_sessions = 1, sq_minimum_stages = 1, sq_maximum_stages = 5,
     sq_head = None, sq_work_budget = 0, sq_pool_limit = 12, sq_cached_tolerance = 0,
     sq_relay_penalty_ms = 25, sq_prompt_rows = 0, sq_chunk_rows = 512, sq_row_bytes = 0,
     sq_first_token_limit_ms = 0\<rparr>"

definition cache_plan :: "stage_assignment list" where
  "cache_plan = [\<lparr>sa_provider = 0, sa_begin = 0, sa_end = 2, sa_model_bytes = 5000, sa_kv_bytes = 8192\<rparr>]"

lemma cache_request_fields [simp]:
  "sq_context cache_request = 100" "sq_sessions cache_request = 1" "sq_minimum_stages cache_request = 1"
  "sq_maximum_stages cache_request = 5" "sq_head cache_request = None" "sq_pool_limit cache_request = 12"
  by (simp_all add: cache_request_def)

lemma cache_pool: "search_pool cache_candidates cache_request = [0]"
proof -
  let ?pool = "search_pool cache_candidates cache_request"
  have p: "distinct ?pool" "set ?pool \<subseteq> {..<1}" "1 \<le> length ?pool"
    using search_pool_ok(1-3)[where cs = cache_candidates and q = cache_request]
    by (simp_all add: cache_candidates_def)
  then show ?thesis by (cases ?pool; cases "tl ?pool") auto
qed

lemma cache_plan_cached: "cached_plan small_model [2048] [[(0, 2)]] 100 1 1 1 None cache_plan"
proof -
  have "stage_ok small_model [2048] 100 1 (cache_plan ! 0)" by code_simp
  then show ?thesis
    by (simp add: cached_plan_def valid_plan_def cache_plan_def from_cache_def small_model_def)
qed

lemma cache_search: "\<exists>r. search_plan 64 small_model cache_candidates cache_request = Inr r"
proof -
  have "plan_from_cache small_model [2048] [[(0, 2)]] 100 1 1 1 None \<noteq> None"
    using plan_from_cache_complete[OF _ small_model_ok _ _ _ _ _ cache_plan_cached] by simp
  moreover have "largest_group cache_candidates cache_request small_sizes = 1"
    by (simp add: largest_group_def cache_pool small_sizes_def)
  ultimately obtain plan where reuse:
    "search_reuse small_model cache_candidates cache_request (search_pool cache_candidates cache_request)
      (largest_group cache_candidates cache_request small_sizes) = Some plan"
    by (auto simp: search_reuse_def cache_pool) (simp add: cache_candidates_def)
  show ?thesis
    using search_plan_reuses[OF small_model_ok _ _ _ _ _ _ _ reuse, of 64] small_sizes_of
    by (simp add: cache_candidates_def)
qed

theorem search_plan_sound_witness:
  "\<exists>r. search_plan 64 small_model cache_candidates cache_request = Inr r
     \<and> valid_plan small_model [2048] 100 1 None (sres_plan r) \<and> length (sres_plan r) \<le> 5"
proof -
  obtain r where r: "search_plan 64 small_model cache_candidates cache_request = Inr r"
    using cache_search by blast
  show ?thesis
    using search_plan_sound[OF r] small_kv r by (simp add: cache_candidates_def)
qed

text \<open>
  The round-robin over the four rankings ends with a full pool: the candidates are distinct and
  exist, and there are as many as the limit and the number of candidates allow. The rounds the
  loop is given are enough, since every round adds a candidate.
\<close>

theorem search_pool_fills:
  "distinct (search_pool cs q) \<and> set (search_pool cs q) \<subseteq> {..<length cs}
    \<and> min (sq_pool_limit q) (length cs) \<le> length (search_pool cs q)"
  using search_pool_ok(1-3)[where cs = cs and q = q] by simp

end
