(* ===== verification/Manifest.thy ===== *)
theory Manifest
  imports Prelude "HOL-Library.Code_Target_Nat"
begin

text \<open>
  Model manifests (\<^verbatim>\<open>engine/manifest.cpp\<close>): the small JSON reader, the pinned model
  selection it fills and the escaping of report texts. A position in the text is the text from
  there on; a thrown \<^verbatim>\<open>runtime_error\<close> is \<^const>\<open>Inl\<close> with its message. The
  contents of the file, \<^const>\<open>None\<close> when it cannot be opened, are an argument.
\<close>

section \<open>The JSON reader\<close>

text \<open>The text after the first occurrence of a pattern, \<^verbatim>\<open>std::string::find\<close>.\<close>

fun after_str :: "string \<Rightarrow> string \<Rightarrow> string option" where
  "after_str pat s =
     (if starts_with s pat then Some (drop (length pat) s)
      else case s of [] \<Rightarrow> None | _ # cs \<Rightarrow> after_str pat cs)"

declare after_str.simps [simp del]

lemma starts_with_code [code]:
  "starts_with s [] = True"
  "starts_with [] (d # p) = False"
  "starts_with (c # s) (d # p) = (c = d \<and> starts_with s p)"
  by (simp_all add: starts_with_def)

definition json_space :: "char \<Rightarrow> bool" where
  "json_space c \<longleftrightarrow> c = CHR '' '' \<or> c = CHR 0x09 \<or> c = CHR 0x0D \<or> c = CHR 0x0A"

definition quoted :: "string \<Rightarrow> string" where
  "quoted key = CHR 0x22 # key @ [CHR 0x22]"

definition value_start :: "string \<Rightarrow> string \<Rightarrow> string + string" where
  "value_start json key =
     (case after_str (quoted key) json of
        None \<Rightarrow> Inl (''manifest missing '' @ key)
      | Some rest \<Rightarrow>
          (case dropWhile (\<lambda>c. c \<noteq> CHR '':'') rest of
             [] \<Rightarrow> Inl ''invalid manifest''
           | _ # v \<Rightarrow> Inr (dropWhile json_space v)))"

fun string_loop :: "string \<Rightarrow> string \<Rightarrow> string + string" where
  "string_loop [] acc = Inl ''invalid manifest string''"
| "string_loop (c # cs) acc =
     (if c = CHR 0x22 then (if acc = [] then Inl ''invalid manifest string'' else Inr acc)
      else if c = CHR 0x5C then Inl ''escaped manifest strings unsupported''
      else string_loop cs (acc @ [c]))"

definition json_string :: "string \<Rightarrow> string \<Rightarrow> string + string" where
  "json_string json key =
     (case value_start json key of
        Inl e \<Rightarrow> Inl e
      | Inr v \<Rightarrow>
          if v = [] \<or> hd v \<noteq> CHR 0x22 then Inl (''manifest field is not a string: '' @ key)
          else string_loop (tl v) [])"

definition optional_json_string :: "string \<Rightarrow> string \<Rightarrow> string + string" where
  "optional_json_string json key = (if after_str (quoted key) json = None then Inr [] else json_string json key)"

fun uint_loop :: "string \<Rightarrow> u64 \<Rightarrow> string + u64" where
  "uint_loop [] v = Inr v"
| "uint_loop (c # cs) v =
     (if is_digit c then
        let v = v * 10 + word_of_nat (digit_val c)
        in if v > word_of_nat u32_max then Inl ''manifest integer overflow'' else uint_loop cs v
      else Inr v)"

definition json_uint :: "string \<Rightarrow> string \<Rightarrow> string + u32" where
  "json_uint json key =
     (case value_start json key of
        Inl e \<Rightarrow> Inl e
      | Inr v \<Rightarrow>
          case uint_loop v 0 of
            Inl e \<Rightarrow> Inl e
          | Inr w \<Rightarrow> if v = [] \<or> \<not> is_digit (hd v) then Inl ''manifest field is not an integer'' else Inr (ucast w))"

definition optional_json_uint :: "string \<Rightarrow> string \<Rightarrow> string + u32" where
  "optional_json_uint json key = (if after_str (quoted key) json = None then Inr 0 else json_uint json key)"

fun uint64_loop :: "string \<Rightarrow> u64 \<Rightarrow> string + u64" where
  "uint64_loop [] v = Inr v"
| "uint64_loop (c # cs) v =
     (if is_digit c then
        let digit = word_of_nat (digit_val c)
        in if v > (- 1 - digit) div 10 then Inl ''manifest integer overflow'' else uint64_loop cs (v * 10 + digit)
      else Inr v)"

definition json_uint64 :: "string \<Rightarrow> string \<Rightarrow> string + u64" where
  "json_uint64 json key =
     (case value_start json key of
        Inl e \<Rightarrow> Inl e
      | Inr v \<Rightarrow>
          case uint64_loop v 0 of
            Inl e \<Rightarrow> Inl e
          | Inr w \<Rightarrow> if v = [] \<or> \<not> is_digit (hd v) then Inl ''JSON field is not an integer'' else Inr w)"

section \<open>Escaping\<close>

definition hex_digit :: "nat \<Rightarrow> char" where
  "hex_digit d = (if d < 10 then char_of (48 + d) else char_of (87 + d))"

definition escape_byte :: "char \<Rightarrow> string" where
  "escape_byte c =
     (if c = CHR 0x22 then [CHR 0x5C, CHR 0x22]
      else if c = CHR 0x5C then [CHR 0x5C, CHR 0x5C]
      else if c = CHR 0x0A then [CHR 0x5C, CHR ''n'']
      else if c = CHR 0x0D then [CHR 0x5C, CHR ''r'']
      else if c = CHR 0x09 then [CHR 0x5C, CHR ''t'']
      else if (of_char c :: nat) < 32 then
        [CHR 0x5C, CHR ''u'', CHR ''0'', CHR ''0'', hex_digit (of_char c div 16), hex_digit (of_char c mod 16)]
      else [c])"

definition json_escape :: "string \<Rightarrow> string" where
  "json_escape value = concat (map escape_byte value)"

section \<open>Manifests\<close>

record manifest =
  mf_model_id :: string
  mf_architecture :: string
  mf_layers :: u32
  mf_hidden :: u32
  mf_context :: u32
  mf_quality_tier :: u32
  mf_url :: string
  mf_revision :: string
  mf_sha256 :: string

definition name_char :: "char \<Rightarrow> bool" where
  "name_char c \<longleftrightarrow> c \<in> set ''abcdefghijklmnopqrstuvwxyzABCDEFGHIJKLMNOPQRSTUVWXYZ0123456789-_.''"

definition unsafe_name :: "string \<Rightarrow> bool \<Rightarrow> bool" where
  "unsafe_name v slash \<longleftrightarrow> v = [] \<or> \<not> list_all (\<lambda>c. name_char c \<or> slash \<and> c = CHR ''/'') v
     \<or> after_str ''..'' v \<noteq> None \<or> hd v = CHR ''/'' \<or> last v = CHR ''/''"

definition manifest_url :: "string \<Rightarrow> string \<Rightarrow> string + string" where
  "manifest_url json revision =
     (case optional_json_string json ''artifact_url'' of
        Inl e \<Rightarrow> Inl e
      | Inr url \<Rightarrow>
          if url \<noteq> [] then Inr url
          else
            case json_string json ''hf_repo'' of
              Inl e \<Rightarrow> Inl e
            | Inr repository \<Rightarrow>
                case json_string json ''gguf_filename'' of
                  Inl e \<Rightarrow> Inl e
                | Inr filename \<Rightarrow>
                    if unsafe_name repository True \<or> unsafe_name filename False
                    then Inl ''invalid Hugging Face repository or GGUF filename''
                    else Inr (''https://huggingface.co/'' @ repository @ ''/resolve/'' @ revision @ ''/'' @ filename))"

definition manifest_ok :: "manifest \<Rightarrow> bool" where
  "manifest_ok m \<longleftrightarrow> \<not> (mf_model_id m = [] \<or> \<not> list_all name_char (mf_model_id m)
     \<or> mf_architecture m \<noteq> [] \<and> mf_architecture m \<noteq> ''qwen2'' \<and> mf_architecture m \<noteq> ''olmoe''
         \<and> mf_architecture m \<noteq> ''qwen3moe''
     \<or> mf_context m = 0 \<or> \<not> starts_with (mf_url m) ''https://''
     \<or> list_ex (\<lambda>c. c = CHR 0x0D \<or> c = CHR 0x0A) (mf_url m)
     \<or> \<not> hex_string (mf_revision m) 40 \<or> \<not> hex_string (mf_sha256 m) 64)"

text \<open>The fields are read in this order; the first failure ends the load.\<close>

definition and_then :: "string + 'a \<Rightarrow> ('a \<Rightarrow> string + 'b) \<Rightarrow> string + 'b" where
  "and_then r f = (case r of Inl e \<Rightarrow> Inl e | Inr x \<Rightarrow> f x)"

definition load_manifest :: "string option \<Rightarrow> string + manifest" where
  "load_manifest file =
     (case file of
        None \<Rightarrow> Inl ''could not open manifest''
      | Some json \<Rightarrow>
          and_then (json_string json ''model_id'') (\<lambda>model_id.
          and_then (optional_json_string json ''architecture'') (\<lambda>architecture.
          and_then (optional_json_uint json ''layers'') (\<lambda>layers.
          and_then (optional_json_uint json ''hidden_size'') (\<lambda>hidden.
          and_then (json_uint json ''context_size'') (\<lambda>ctx.
          and_then (optional_json_uint json ''quality_tier'') (\<lambda>quality_tier.
          and_then (json_string json ''artifact_revision'') (\<lambda>revision.
          and_then (json_string json ''artifact_sha256'') (\<lambda>sha256.
          and_then (manifest_url json revision) (\<lambda>url.
            let m = \<lparr>mf_model_id = model_id, mf_architecture = architecture, mf_layers = layers,
                  mf_hidden = hidden, mf_context = ctx, mf_quality_tier = quality_tier, mf_url = url,
                  mf_revision = revision, mf_sha256 = sha256\<rparr>
            in if manifest_ok m then Inr m
               else Inl (''manifest is not a valid pinned GGUF selection''
                 @ '' (supported architectures: qwen2, olmoe, qwen3moe)''))))))))))) "

section \<open>Numbers are exact\<close>

lemma digit_val_le: "is_digit c \<Longrightarrow> digit_val c \<le> 9"
  by (auto simp: is_digit_def digit_val_def less_eq_char_def)

lemma digits_grow: "a \<le> foldl (\<lambda>a c. a * 10 + digit_val c) a ds"
proof (induction ds arbitrary: a)
  case (Cons c ds)
  have "a \<le> a * 10 + digit_val c" by simp
  also have "\<dots> \<le> foldl (\<lambda>a c. a * 10 + digit_val c) (a * 10 + digit_val c) ds" by (rule Cons.IH)
  finally show ?case by simp
qed simp

text \<open>The guard before the multiplication is exactly that the next value does not fit.\<close>

lemma uint64_guard:
  assumes "d \<le> 9"
  shows "(v > (- 1 - word_of_nat d) div (10 :: u64)) \<longleftrightarrow> unat v * 10 + d > u64_max"
    and "unat v * 10 + d \<le> u64_max \<Longrightarrow> unat (v * 10 + word_of_nat d) = unat v * 10 + d"
proof -
  have d: "unat (word_of_nat d :: u64) = d" using assms by (simp add: unat_word_of_nat_u64)
  have le: "word_of_nat d \<le> (- 1 :: u64)" by simp
  have m: "unat ((- 1 :: u64) - word_of_nat d) = u64_max - d"
    using unat_diff_u64[OF le] d by simp
  have q: "unat (((- 1 :: u64) - word_of_nat d) div 10) = (u64_max - d) div 10"
    by (simp only: unat_div m) simp
  have "(u64_max - d) div 10 < unat v \<longleftrightarrow> u64_max - d < unat v * 10"
    by (simp add: div_less_iff_less_mult)
  also have "\<dots> \<longleftrightarrow> unat v * 10 + d > u64_max" using assms by linarith
  finally show "(v > (- 1 - word_of_nat d) div (10 :: u64)) \<longleftrightarrow> unat v * 10 + d > u64_max"
    by (simp only: word_less_nat_alt q)
  assume room: "unat v * 10 + d \<le> u64_max"
  have "unat (v * 10) = unat v * 10" using unat_mult_u64[of v 10] room by simp
  then show "unat (v * 10 + word_of_nat d) = unat v * 10 + d"
    using unat_add_u64[of "v * 10" "word_of_nat d"] d room by simp
qed

lemma uint64_loop_exact:
  "uint64_loop s v =
     (let n = foldl (\<lambda>a c. a * 10 + digit_val c) (unat v) (takeWhile is_digit s)
      in if n > u64_max then Inl ''manifest integer overflow'' else Inr (word_of_nat n))"
proof (induction s arbitrary: v)
  case (Cons c s)
  let ?f = "\<lambda>a c. a * 10 + digit_val c"
  show ?case
  proof (cases "is_digit c")
    case True
    note guard = uint64_guard[OF digit_val_le[OF True], of v]
    show ?thesis
    proof (cases "unat v * 10 + digit_val c > u64_max")
      case over: True
      have "u64_max < foldl ?f (unat v * 10 + digit_val c) (takeWhile is_digit s)"
        using over digits_grow[of "unat v * 10 + digit_val c" "takeWhile is_digit s"] by (rule less_le_trans)
      then show ?thesis using True guard(1) over by (simp add: Let_def)
    next
      case False
      then show ?thesis using True guard Cons.IH[of "v * 10 + word_of_nat (digit_val c)"] by (simp add: Let_def)
    qed
  qed (simp add: Let_def not_less)
qed (simp add: Let_def not_less)

text \<open>
  Numbers of the JSON reader are exact: once the value of a key is found, the 64-bit reader
  returns the number its leading digits write, an overflow error exactly when that number does
  not fit 64 bits, and a type error exactly when there is no digit. The guard before each
  multiplication never lets a value wrap.
\<close>

theorem json_uint64_exact:
  assumes "value_start json key = Inr v"
  shows "json_uint64 json key =
    (let ds = takeWhile is_digit v
     in if ds = [] then Inl ''JSON field is not an integer''
        else if digits_val ds > u64_max then Inl ''manifest integer overflow''
        else Inr (word_of_nat (digits_val ds)))"
  using assms uint64_loop_exact[of v 0]
  by (cases v) (simp_all add: json_uint64_def Let_def digits_val_def)

theorem json_uint64_exact_witness:
  "json_uint64 (quoted ''n'' @ '': 18446744073709551616}'') ''n'' = Inl ''manifest integer overflow''"
proof -
  have v: "value_start (quoted ''n'' @ '': 18446744073709551616}'') ''n'' = Inr ''18446744073709551616}''"
    by code_simp
  have "takeWhile is_digit ''18446744073709551616}'' = ''18446744073709551616''"
    "digits_val ''18446744073709551616'' > u64_max"
    by code_simp+
  then show ?thesis using json_uint64_exact[OF v] by (simp add: Let_def)
qed

section \<open>Escaping is lossless\<close>

definition hex_value :: "char \<Rightarrow> nat" where
  "hex_value c = (if is_digit c then of_char c - 48 else of_char c - 87)"

text \<open>What a JSON reader does with the escapes that the program writes.\<close>

fun json_unescape :: "string \<Rightarrow> string option" where
  "json_unescape [] = Some []"
| "json_unescape (c # cs) =
     (if c \<noteq> CHR 0x5C then
        (if c = CHR 0x22 \<or> (of_char c :: nat) < 32 then None else map_option ((#) c) (json_unescape cs))
      else
        case cs of
          [] \<Rightarrow> None
        | e # rest \<Rightarrow>
            if e = CHR 0x22 \<or> e = CHR 0x5C then map_option ((#) e) (json_unescape rest)
            else if e = CHR ''n'' then map_option ((#) (CHR 0x0A)) (json_unescape rest)
            else if e = CHR ''r'' then map_option ((#) (CHR 0x0D)) (json_unescape rest)
            else if e = CHR ''t'' then map_option ((#) (CHR 0x09)) (json_unescape rest)
            else if e = CHR ''u'' then
              (case rest of
                 _ # _ # h # l # rest \<Rightarrow> map_option ((#) (char_of (hex_value h * 16 + hex_value l))) (json_unescape rest)
               | _ \<Rightarrow> None)
            else None)"

lemma hex_value_digit: "d < 16 \<Longrightarrow> hex_value (hex_digit d) = d"
  by (auto simp: hex_value_def hex_digit_def is_digit_def less_eq_char_def of_char_of)

lemma unescape_escape_byte: "json_unescape (escape_byte c @ cs) = map_option ((#) c) (json_unescape cs)"
proof -
  have "of_char c div 16 < (16 :: nat)" if "of_char c < (32 :: nat)" using that by linarith
  then show ?thesis by (simp add: escape_byte_def hex_value_digit)
qed

text \<open>
  Report texts survive: whatever bytes a text holds, its escaped form decodes back to exactly
  that text, so quotes, backslashes, line breaks and other control bytes cannot end a JSON string
  early or be confused with each other.
\<close>

theorem json_escape_lossless: "json_unescape (json_escape bytes) = Some bytes"
  by (induction bytes) (simp_all add: json_escape_def unescape_escape_byte)

section \<open>Loaded manifests are pinned\<close>

lemma and_then_Inr: "and_then r f = Inr y \<longleftrightarrow> (\<exists>x. r = Inr x \<and> f x = Inr y)"
  by (auto simp: and_then_def split: sum.split)

lemma load_manifest_Inr:
  assumes "load_manifest (Some json) = Inr m"
  shows "manifest_ok m" "manifest_url json (mf_revision m) = Inr (mf_url m)"
    "json_string json ''artifact_sha256'' = Inr (mf_sha256 m)"
    "json_string json ''artifact_revision'' = Inr (mf_revision m)"
  using assms by (auto simp: load_manifest_def and_then_Inr Let_def split: if_splits)

lemma manifest_url_cases:
  assumes "manifest_url json revision = Inr url"
  shows "optional_json_string json ''artifact_url'' = Inr url \<and> url \<noteq> []
    \<or> optional_json_string json ''artifact_url'' = Inr []
      \<and> (\<exists>repository filename. json_string json ''hf_repo'' = Inr repository
        \<and> json_string json ''gguf_filename'' = Inr filename
        \<and> \<not> unsafe_name repository True \<and> \<not> unsafe_name filename False
        \<and> url = ''https://huggingface.co/'' @ repository @ ''/resolve/'' @ revision @ ''/'' @ filename)"
  using assms by (auto simp: manifest_url_def split: sum.splits if_splits)

text \<open>
  C40. A loaded manifest pins one artifact: the digest and the revision are the file's own, 64 and 40
  hexadecimal digits, and the artifact is fetched over HTTPS from a URL without line breaks. That
  URL is the file's own when it gives one; otherwise it is exactly the Hugging Face repository, at
  the pinned revision, under the file name that the manifest names, where neither name is empty or
  can climb out of its place: no \<open>..\<close>, no slash at either end of the repository, no slash in
  the file name, and otherwise no byte outside the allowed letters in either.
\<close>

theorem loaded_manifest_pinned:
  assumes "load_manifest (Some json) = Inr m"
  shows "json_string json ''artifact_revision'' = Inr (mf_revision m)
    \<and> length (mf_revision m) = 40 \<and> list_all is_hex (mf_revision m)
    \<and> json_string json ''artifact_sha256'' = Inr (mf_sha256 m)
    \<and> length (mf_sha256 m) = 64 \<and> list_all is_hex (mf_sha256 m)
    \<and> starts_with (mf_url m) ''https://'' \<and> CHR 0x0D \<notin> set (mf_url m) \<and> CHR 0x0A \<notin> set (mf_url m)
    \<and> (optional_json_string json ''artifact_url'' = Inr (mf_url m)
       \<or> optional_json_string json ''artifact_url'' = Inr []
         \<and> (\<exists>repository filename. json_string json ''hf_repo'' = Inr repository
            \<and> json_string json ''gguf_filename'' = Inr filename
            \<and> repository \<noteq> [] \<and> filename \<noteq> []
            \<and> after_str ''..'' repository = None \<and> after_str ''..'' filename = None
            \<and> list_all (\<lambda>c. name_char c \<or> c = CHR ''/'') repository
            \<and> hd repository \<noteq> CHR ''/'' \<and> last repository \<noteq> CHR ''/''
            \<and> list_all name_char filename
            \<and> mf_url m = ''https://huggingface.co/'' @ repository @ ''/resolve/'' @ mf_revision m @ ''/'' @ filename))"
proof -
  note loaded = load_manifest_Inr[OF assms]
  from loaded(1) have fields: "hex_string (mf_revision m) 40" "hex_string (mf_sha256 m) 64"
    "starts_with (mf_url m) ''https://''" "CHR 0x0D \<notin> set (mf_url m)" "CHR 0x0A \<notin> set (mf_url m)"
    by (auto simp: manifest_ok_def list_ex_iff)
  from manifest_url_cases[OF loaded(2)] loaded(3,4) fields show ?thesis
    by (auto simp: unsafe_name_def hex_string_def)
qed

definition demo_manifest :: string where
  "demo_manifest = concat (map (\<lambda>(k, v). quoted k @ '': '' @ v @ '','')
     [(''model_id'', quoted ''q''), (''context_size'', ''4096''), (''artifact_revision'', quoted (replicate 40 CHR ''a'')),
      (''artifact_sha256'', quoted (replicate 64 CHR ''0'')), (''hf_repo'', quoted ''org/repo''),
      (''gguf_filename'', quoted ''m.gguf'')])"

lemma demo_manifest_fields:
  "json_string demo_manifest ''model_id'' = Inr ''q''"
  "optional_json_string demo_manifest ''architecture'' = Inr []"
  "optional_json_uint demo_manifest ''layers'' = Inr 0"
  "optional_json_uint demo_manifest ''hidden_size'' = Inr 0"
  "json_uint demo_manifest ''context_size'' = Inr 4096"
  "optional_json_uint demo_manifest ''quality_tier'' = Inr 0"
  "json_string demo_manifest ''artifact_revision'' = Inr (replicate 40 CHR ''a'')"
  "json_string demo_manifest ''artifact_sha256'' = Inr (replicate 64 CHR ''0'')"
  "optional_json_string demo_manifest ''artifact_url'' = Inr []"
  "json_string demo_manifest ''hf_repo'' = Inr ''org/repo''"
  "json_string demo_manifest ''gguf_filename'' = Inr ''m.gguf''"
  by code_simp+

lemma demo_names: "\<not> unsafe_name ''org/repo'' True" "\<not> unsafe_name ''m.gguf'' False"
  by code_simp+

lemma demo_manifest_loads: "load_manifest (Some demo_manifest) =
  Inr \<lparr>mf_model_id = ''q'', mf_architecture = [], mf_layers = 0, mf_hidden = 0, mf_context = 4096,
    mf_quality_tier = 0,
    mf_url = ''https://huggingface.co/'' @ ''org/repo'' @ ''/resolve/'' @ replicate 40 CHR ''a'' @ ''/'' @ ''m.gguf'',
    mf_revision = replicate 40 CHR ''a'', mf_sha256 = replicate 64 CHR ''0''\<rparr>"
proof -
  have "manifest_url demo_manifest (replicate 40 CHR ''a'')
      = Inr (''https://huggingface.co/'' @ ''org/repo'' @ ''/resolve/'' @ replicate 40 CHR ''a'' @ ''/'' @ ''m.gguf'')"
    by (simp add: manifest_url_def demo_manifest_fields demo_names)
  moreover have "name_char (CHR ''q'')" "is_hex (CHR ''a'')" "is_hex (CHR ''0'')" by code_simp+
  ultimately show ?thesis
    by (simp add: load_manifest_def and_then_def demo_manifest_fields manifest_ok_def starts_with_def
        hex_string_def list_all_iff list_ex_iff)
qed

theorem loaded_manifest_pinned_witness:
  "\<exists>m. load_manifest (Some demo_manifest) = Inr m \<and> length (mf_revision m) = 40
     \<and> json_string demo_manifest ''artifact_sha256'' = Inr (mf_sha256 m)"
  using loaded_manifest_pinned[OF demo_manifest_loads] demo_manifest_loads by blast

end
