(* ===== verification/Placement_Plan.thy ===== *)
theory Placement_Plan
  imports Protocol Discovery Search Manifest
begin

text \<open>
  Planning a route over greeted workers (\<^verbatim>\<open>engine/placement.cpp\<close>): which workers can
  take part, the contexts to try, the candidates handed to the plan search, the floor of the older
  planner, and the first model that fits. The workers of an attempt are a list; a pool is a list
  of positions in it, the pointers of the code. The wall clock is the argument \<open>now\<close>.
\<close>

section \<open>Requests and workers\<close>

record model_option =
  mo_manifest :: manifest
  mo_model :: model_index

record route_preview =
  rv_model :: nat
  rv_context :: u32
  rv_stages :: nat
  rv_token_ms :: rat
  rv_first_token_ms :: rat
  rv_measured :: bool
  rv_from_cache :: bool
  rv_download_bytes :: u64
  rv_peers :: "string list"

record placement_request =
  pr_models :: "model_option list"
  pr_context :: u32
  pr_largest_context :: bool
  pr_sessions :: u32
  pr_minimum_stages :: nat
  pr_maximum_stages :: nat
  pr_search_budget :: nat
  pr_previews :: bool
  pr_reclaim_idle_s :: u32
  pr_ordinary_input_tokens :: u32
  pr_prefill_chunk_rows :: u32
  pr_first_token_limit_ms :: rat
  pr_runtime_abi :: string
  pr_lease_ms :: u32
  pr_attempts :: nat
  pr_speculate :: bool
  pr_activations :: dtype
  pr_head :: string
  pr_yield_margin :: rat

record worker =
  wk_candidate :: placement_candidate
  wk_connected :: bool
  wk_hello :: provider_capability
  wk_order_key :: string
  wk_recheck :: bool

text \<open>
  \<^verbatim>\<open>open_worker\<close>: the received greeting is an argument, \<^const>\<open>None\<close> when connecting
  or receiving failed.
\<close>

definition open_worker :: "int \<Rightarrow> frame option \<Rightarrow> placement_candidate \<Rightarrow> worker option" where
  "open_worker now greeting c =
     (case greeting of
        None \<Rightarrow> None
      | Some f \<Rightarrow>
          if fr_type f \<noteq> T_provider_available then None
          else
            case parse_available (string_of (fr_payload f)) now of
              None \<Rightarrow> None
            | Some hello \<Rightarrow>
                Some \<lparr>wk_candidate = c, wk_connected = True, wk_hello = hello,
                  wk_order_key = (if pk_peer_id c = [] then pc_id hello else pk_peer_id c),
                  wk_recheck = False\<rparr>)"

definition offers_model :: "provider_capability \<Rightarrow> string \<Rightarrow> bool" where
  "offers_model hello sha \<longleftrightarrow> list_ex (\<lambda>model. lowercase model = lowercase sha) (pc_models hello)"

definition reclaimable :: "provider_capability \<Rightarrow> placement_request \<Rightarrow> bool" where
  "reclaimable hello q \<longleftrightarrow> pr_previews q \<and> pr_reclaim_idle_s q \<noteq> 0
     \<and> (pc_state hello = ''reserved'' \<or> pc_state hello = ''serving'')
     \<and> (case pc_idle_s hello of None \<Rightarrow> False | Some idle \<Rightarrow> idle \<ge> pr_reclaim_idle_s q)
     \<and> pc_open_sessions hello = 0"

definition unusable ::
    "(string \<Rightarrow> (nat \<times> nat \<times> nat \<times> nat) option) \<Rightarrow> worker \<Rightarrow> placement_request \<Rightarrow> model_option \<Rightarrow> u32 \<Rightarrow> string" where
  "unusable pton w q opt ctx =
     (let hello = wk_hello w; peer = pk_peer_id (wk_candidate w)
      in if pc_state hello \<noteq> ''available'' \<and> \<not> reclaimable hello q then
           ''state '' @ (if pc_state hello = [] then ''unknown'' else pc_state hello)
         else if pc_runtime_abi hello \<noteq> pr_runtime_abi q then ''runtime ABI '' @ pc_runtime_abi hello
         else if \<not> offers_model hello (mf_sha256 (mo_manifest opt)) then ''model not in catalog''
         else if pc_max_context hello < ctx then ''context limit''
         else if pc_max_sessions hello < pr_sessions q then ''session limit''
         else if peer = [] then
           (if \<not> valid_private_endpoint pton (pc_ring_endpoint hello) then ''invalid direct ring endpoint'' else [])
         else if \<not> valid_p2p_target (pc_ring_endpoint hello) \<or> peer_of (pc_ring_endpoint hello) \<noteq> peer then
           ''ring address does not match the authenticated PeerID''
         else [])"

section \<open>Contexts\<close>

text \<open>
  The doubling loop: after 32 doublings a 32-bit value is zero, so it never runs longer.
\<close>

definition ladder_steps :: "u32 \<Rightarrow> u32 \<Rightarrow> u32 list" where
  "ladder_steps low highest = takeWhile (\<lambda>v. v < highest \<and> v > low) (map (\<lambda>k. low * 2 ^ k) [1..<33])"

definition largest_context :: u32 where
  "largest_context = 262144"

definition context_ladder :: "model_option \<Rightarrow> placement_request \<Rightarrow> u32 list" where
  "context_ladder opt q =
     (let low = mf_context (mo_manifest opt)
      in if pr_context q \<noteq> 0 then [pr_context q]
         else if low = 0 then []
         else if \<not> pr_largest_context q then [low]
         else
           let highest = min largest_context (max low (mi_trained_context (mo_model opt)))
           in low # ladder_steps low highest @ (if highest \<noteq> low then [highest] else []))"

section \<open>The pool and the search\<close>

definition link_cost :: "placement_candidate \<Rightarrow> u64" where
  "link_cost c = ucast (pk_rtt_ms c div 25) + (if pk_relayed c then 1 else 0)"

text \<open>
  \<^verbatim>\<open>std::sort\<close> may leave workers that tie on all three keys in either order; the model
  keeps them in the order they were reached. What is proved of a pool is only which workers are in
  it and that none is in it twice, which every order gives.
\<close>

definition worker_pool ::
    "(string \<Rightarrow> (nat \<times> nat \<times> nat \<times> nat) option) \<Rightarrow> worker list \<Rightarrow> placement_request \<Rightarrow> model_option \<Rightarrow> u32
     \<Rightarrow> nat list" where
  "worker_pool pton ws q opt ctx =
     sort_key (\<lambda>i. (unat (link_cost (wk_candidate (ws ! i))),
           - int (unat (pc_offered_vram_mib (wk_hello (ws ! i)))), wk_order_key (ws ! i)))
       (filter (\<lambda>i. wk_connected (ws ! i) \<and> unusable pton (ws ! i) q opt ctx = []) [0..<length ws])"

text \<open>The owner's own worker is moved to the front; \<^const>\<open>None\<close> when it is not in the pool.\<close>

definition head_first :: "worker list \<Rightarrow> placement_request \<Rightarrow> nat list \<Rightarrow> (nat list \<times> nat option) option" where
  "head_first ws q pool =
     (if pr_head q = [] then Some (pool, None)
      else
        map_option (\<lambda>at_head. (at_head # remove1 at_head pool, Some 0))
          (find (\<lambda>i. pk_control (wk_candidate (ws ! i)) = pr_head q) pool))"

definition measured_speed :: "worker \<Rightarrow> speed_key \<Rightarrow> int \<Rightarrow> rat" where
  "measured_speed w key now =
     (let e = estimate_speed (pc_speeds (wk_hello w)) key now (Fin 0)
      in if se_measured e then (case se_us_per_gib e of Fin x \<Rightarrow> x | _ \<Rightarrow> 0) else 0)"

definition search_candidate_of ::
    "worker \<Rightarrow> string \<Rightarrow> u32 \<Rightarrow> u32 \<Rightarrow> int \<Rightarrow> search_candidate" where
  "search_candidate_of w sha ctx sessions now =
     (let key = \<lambda>ph. \<lparr>sk_model_sha256 = sha, sk_phase = ph, sk_context = context_bucket ctx,
            sk_sessions = sessions_bucket sessions\<rparr>;
          hello = wk_hello w
      in \<lparr>cd_offered_mib = pc_offered_vram_mib hello,
          cd_us_per_gib = measured_speed w (key Decode) now,
          cd_rtt_ms = of_int (uint (pk_rtt_ms (wk_candidate w))),
          cd_relayed = pk_relayed (wk_candidate w),
          cd_prefill_us_per_gib = measured_speed w (key Prefill) now,
          cd_cached = map (\<lambda>r. (cg_begin r, cg_end r))
            (filter (\<lambda>r. lowercase (cg_model_sha256 r) = sha) (pc_cached hello)),
          cd_key = wk_order_key w,
          cd_links = map (\<lambda>l. \<lparr>lk_peer = pl_peer l, lk_rtt_ms = of_int (uint (pl_rtt_ms l)),
            lk_relayed = pl_relayed l, lk_mib_per_s = rnd (of_int (uint (pl_kib_per_s l)) / 1024)\<rparr>) (pc_links hello)\<rparr>)"

definition speaks :: "dtype \<Rightarrow> provider_capability \<Rightarrow> bool" where
  "speaks activations hello = (if activations = dt_f16le then pc_f16_activations hello else pc_fp8_activations hello)"

definition search_request_of ::
    "worker list \<Rightarrow> placement_request \<Rightarrow> model_option \<Rightarrow> u32 \<Rightarrow> nat list \<Rightarrow> nat option \<Rightarrow> search_request" where
  "search_request_of ws q opt ctx pool head =
     (let narrow = (pr_activations q \<noteq> dt_f32le \<and> list_all (\<lambda>i. speaks (pr_activations q) (wk_hello (ws ! i))) pool)
      in \<lparr>sq_context = ctx, sq_sessions = pr_sessions q, sq_minimum_stages = pr_minimum_stages q,
          sq_maximum_stages = pr_maximum_stages q, sq_head = head, sq_work_budget = pr_search_budget q,
          sq_pool_limit = 12, sq_cached_tolerance = rnd (1 / 10), sq_relay_penalty_ms = 25,
          sq_prompt_rows = pr_ordinary_input_tokens q, sq_chunk_rows = pr_prefill_chunk_rows q,
          sq_row_bytes = ucast (mf_hidden (mo_manifest opt))
            * (if \<not> narrow then 4 else if pr_activations q = dt_f16le then 2 else 1),
          sq_first_token_limit_ms = pr_first_token_limit_ms q\<rparr>)"

section \<open>The plan for one context\<close>

text \<open>Whether the older planner's plan replaces the search's.\<close>

definition floor_wins :: "search_request \<Rightarrow> search_result option \<Rightarrow> rat \<Rightarrow> rat \<Rightarrow> bool" where
  "floor_wins sq result legacy_ms legacy_first =
     (case result of
        None \<Rightarrow> True
      | Some r \<Rightarrow>
          \<not> sres_from_cache r
          \<and> (let a = first_token_rank legacy_first sq; b = first_token_rank (sres_first_token_ms r) sq
             in if a \<noteq> b then a > b else legacy_ms < rnd (sres_token_ms r - rnd (1 / 1000000000))))"

definition floor_plan ::
    "nat \<Rightarrow> model_index \<Rightarrow> search_candidate list \<Rightarrow> search_request \<Rightarrow> search_result option \<Rightarrow> search_result option" where
  "floor_plan prec m found sq result =
     (let offered = map cd_offered_mib (take 8 found)
      in case plan_stages prec m offered (sq_context sq) (sq_sessions sq)
              (min (sq_minimum_stages sq) (length offered)) (sq_head sq) of
           None \<Rightarrow> result
         | Some legacy \<Rightarrow>
             if \<not> (length legacy \<ge> sq_minimum_stages sq \<and> length legacy \<le> sq_maximum_stages sq) then result
             else
               let legacy_ms = search_token_ms m found legacy sq;
                   legacy_first = search_first_token_ms m found legacy sq
               in if floor_wins sq result legacy_ms legacy_first
                  then Some \<lparr>sres_plan = legacy, sres_token_ms = legacy_ms, sres_first_token_ms = legacy_first,
                    sres_from_cache = False, sres_evaluated = 0, sres_complete = False\<rparr>
                  else result)"

definition context_result ::
    "nat \<Rightarrow> model_index \<Rightarrow> search_candidate list \<Rightarrow> search_request \<Rightarrow> search_result option" where
  "context_result prec m found sq =
     (if length found \<ge> sq_minimum_stages sq
      then floor_plan prec m found sq (case search_plan prec m found sq of Inl _ \<Rightarrow> None | Inr r \<Rightarrow> Some r)
      else None)"

record fit =
  ft_pool :: "nat list"
  ft_plan :: "stage_assignment list"
  ft_from_cache :: bool
  ft_head :: "nat option"
  ft_context :: u32
  ft_preview :: route_preview

definition preview_of ::
    "worker list \<Rightarrow> nat \<Rightarrow> model_option \<Rightarrow> u32 \<Rightarrow> nat list \<Rightarrow> search_candidate list \<Rightarrow> search_result \<Rightarrow> route_preview" where
  "preview_of ws number opt ctx pool found r =
     (let plan = sres_plan r
      in \<lparr>rv_model = number, rv_context = ctx, rv_stages = length plan, rv_token_ms = sres_token_ms r,
          rv_first_token_ms = sres_first_token_ms r,
          rv_measured = list_all (\<lambda>s. cd_us_per_gib (found ! sa_provider s) > 0) plan,
          rv_from_cache = sres_from_cache r,
          rv_download_bytes = (\<Sum>s \<leftarrow> plan. if (sa_begin s, sa_end s) \<in> set (cd_cached (found ! sa_provider s)) then 0
             else stage_model_bytes (mo_model opt) (sa_begin s) (sa_end s)),
          rv_peers = map (\<lambda>s. let w = ws ! (pool ! sa_provider s)
             in if pk_peer_id (wk_candidate w) = [] then pc_id (wk_hello w) else pk_peer_id (wk_candidate w)) plan\<rparr>)"

definition fit_at ::
    "(string \<Rightarrow> (nat \<times> nat \<times> nat \<times> nat) option) \<Rightarrow> nat \<Rightarrow> int \<Rightarrow> worker list \<Rightarrow> placement_request \<Rightarrow> nat
     \<Rightarrow> model_option \<Rightarrow> u32 \<Rightarrow> fit option" where
  "fit_at pton prec now ws q number opt ctx =
     (case head_first ws q (worker_pool pton ws q opt ctx) of
        None \<Rightarrow> None
      | Some (pool, head) \<Rightarrow>
          let found = map (\<lambda>i. search_candidate_of (ws ! i) (lowercase (mf_sha256 (mo_manifest opt))) ctx (pr_sessions q) now) pool;
              sq = search_request_of ws q opt ctx pool head
          in map_option (\<lambda>r. \<lparr>ft_pool = pool, ft_plan = sres_plan r, ft_from_cache = sres_from_cache r,
                 ft_head = head, ft_context = ctx, ft_preview = preview_of ws number opt ctx pool found r\<rparr>)
               (context_result prec (mo_model opt) found sq))"

text \<open>The contexts in order: a larger one is kept while it needs no more stages.\<close>

fun climb :: "(u32 \<Rightarrow> fit option) \<Rightarrow> u32 list \<Rightarrow> fit option \<Rightarrow> fit option" where
  "climb f [] best = best"
| "climb f (ctx # ctxs) best =
     (case f ctx of
        None \<Rightarrow> (case best of None \<Rightarrow> climb f ctxs best | Some _ \<Rightarrow> best)
      | Some r \<Rightarrow>
          (case best of
             None \<Rightarrow> climb f ctxs (Some r)
           | Some b \<Rightarrow> if length (ft_plan r) > length (ft_plan b) then best else climb f ctxs (Some r)))"

definition best_fit ::
    "(string \<Rightarrow> (nat \<times> nat \<times> nat \<times> nat) option) \<Rightarrow> nat \<Rightarrow> int \<Rightarrow> worker list \<Rightarrow> placement_request \<Rightarrow> nat
     \<Rightarrow> model_option \<Rightarrow> fit option" where
  "best_fit pton prec now ws q number opt =
     climb (fit_at pton prec now ws q number opt) (context_ladder opt q) None"

text \<open>Every model that fits, for a preview; the first one, otherwise.\<close>

definition route_previews ::
    "(string \<Rightarrow> (nat \<times> nat \<times> nat \<times> nat) option) \<Rightarrow> nat \<Rightarrow> int \<Rightarrow> worker list \<Rightarrow> placement_request \<Rightarrow> route_preview list" where
  "route_previews pton prec now ws q =
     map (\<lambda>f. ft_preview (the f)) (filter (\<lambda>f. f \<noteq> None)
       (map (\<lambda>number. best_fit pton prec now ws q number (pr_models q ! number)) [0..<length (pr_models q)]))"

definition choose_model ::
    "(string \<Rightarrow> (nat \<times> nat \<times> nat \<times> nat) option) \<Rightarrow> nat \<Rightarrow> int \<Rightarrow> worker list \<Rightarrow> placement_request
     \<Rightarrow> (model_option \<times> fit) option" where
  "choose_model pton prec now ws q =
     first_some (\<lambda>number. map_option (Pair (pr_models q ! number))
         (best_fit pton prec now ws q number (pr_models q ! number))) [0..<length (pr_models q)]"

section \<open>The ladder\<close>

lemma takeWhile_upt: "\<exists>m \<le> n. takeWhile P (map f [1..<n]) = map f [1..<m] \<and> (\<forall>k. 1 \<le> k \<and> k < m \<longrightarrow> P (f k))"
proof (induction n)
  case (Suc n)
  then obtain m where m: "m \<le> n" "takeWhile P (map f [1..<n]) = map f [1..<m]" "\<forall>k. 1 \<le> k \<and> k < m \<longrightarrow> P (f k)"
    by blast
  show ?case
  proof (cases "1 \<le> n \<and> list_all P (map f [1..<n])")
    case True
    then have all: "P (f k)" if "1 \<le> k" "k < n" for k using that by (auto simp: list_all_iff)
    then have "takeWhile P (map f [1..<Suc n]) = map f [1..<n] @ (if P (f n) then [f n] else [])"
      using True by (simp add: takeWhile_append)
    then show ?thesis
      using all True by (intro exI[of _ "if P (f n) then Suc n else n"]) (auto simp: less_Suc_eq)
  next
    case False
    then have "takeWhile P (map f [1..<Suc n]) = takeWhile P (map f [1..<n])"
      by (auto simp: list_all_iff takeWhile_append)
    then show ?thesis using m by (intro exI[of _ m]) auto
  qed
qed simp

lemma ladder_exact:
  assumes "\<forall>j. 1 \<le> j \<and> j < m \<longrightarrow> low * 2 ^ j < highest" and "unat (low :: u32) \<le> 262144" and "unat highest \<le> 262144"
    and "k < m"
  shows "unat (low * 2 ^ k) = unat low * 2 ^ k"
  using assms(4)
proof (induction k)
  case (Suc k)
  have "unat (low * 2 ^ k) \<le> 262144"
  proof (cases "k = 0")
    case False
    then have "low * 2 ^ k < highest" using assms(1)[rule_format, of k] Suc.prems by simp
    then show ?thesis using assms(3) by (simp add: word_less_nat_alt)
  qed (use assms(2) in simp)
  then have "unat (low * 2 ^ k * 2) = unat (low * 2 ^ k) * 2"
    by (subst unat_mult_lem[THEN iffD1]) simp_all
  then show ?case using Suc.IH Suc.prems by (simp add: mult.assoc mult.commute[of _ 2] mult.left_commute)
qed simp

lemma ladder_steps_sorted:
  assumes "low \<noteq> 0" and "low \<le> largest_context" and "highest \<le> largest_context"
  shows "sorted_wrt (<) (low # ladder_steps low highest) \<and> (\<forall>v \<in> set (ladder_steps low highest). low < v \<and> v < highest)"
proof -
  obtain m where m: "ladder_steps low highest = map (\<lambda>k. low * 2 ^ k) [1..<m]"
      and P: "\<forall>k. 1 \<le> k \<and> k < m \<longrightarrow> low * 2 ^ k < highest \<and> low < low * 2 ^ k"
    using takeWhile_upt[of 33 "\<lambda>v. v < highest \<and> v > low" "\<lambda>k. low * 2 ^ k"] unfolding ladder_steps_def by auto
  have small: "unat low \<le> 262144" "unat highest \<le> 262144"
    using assms(2,3) by (simp_all add: largest_context_def word_le_nat_alt)
  have "low * 2 ^ i < low * 2 ^ j" if "i < j" "j < m" for i j
  proof -
    have "unat low * 2 ^ i < unat low * 2 ^ j" using that(1) assms(1) by (simp add: unat_gt_0)
    then show ?thesis
      using ladder_exact[of m low highest] P small that by (simp add: word_less_nat_alt)
  qed
  then have "sorted_wrt (<) (map (\<lambda>k. low * 2 ^ k) [1..<m])"
    by (auto simp: sorted_wrt_iff_nth_less simp del: power_Suc)
  then show ?thesis using P by (auto simp: m)
qed

lemma climbing_ladder:
  assumes "low \<noteq> 0" and "low \<le> largest_context" and "high \<le> largest_context" and "low \<le> high"
  shows "sorted_wrt (<) (low # ladder_steps low high @ (if high \<noteq> low then [high] else []))
    \<and> last (low # ladder_steps low high @ (if high \<noteq> low then [high] else [])) = high"
proof -
  note s = ladder_steps_sorted[OF assms(1-3)]
  show ?thesis
  proof (cases "high = low")
    case True
    then have "ladder_steps low high = []" using s by (cases "ladder_steps low high") auto
    then show ?thesis using True by simp
  next
    case False
    then have "low < high" using assms(4) by simp
    then show ?thesis using False s by (simp add: sorted_wrt_append)
  qed
qed

lemma context_ladder_eq:
  assumes "pr_context q = 0" and "pr_largest_context q" and "mf_context (mo_manifest opt) \<noteq> 0"
  shows "context_ladder opt q =
    (let low = mf_context (mo_manifest opt); high = min largest_context (max low (mi_trained_context (mo_model opt)))
     in low # ladder_steps low high @ (if high \<noteq> low then [high] else []))"
  using assms by (simp add: context_ladder_def Let_def)

lemma context_ladder_sorted:
  assumes "pr_context q = 0" and "pr_largest_context q" and "mf_context (mo_manifest opt) \<noteq> 0"
    and "mf_context (mo_manifest opt) \<le> largest_context"
  shows "sorted_wrt (<) (context_ladder opt q) \<and> hd (context_ladder opt q) = mf_context (mo_manifest opt)
    \<and> last (context_ladder opt q) = min largest_context (max (mf_context (mo_manifest opt)) (mi_trained_context (mo_model opt)))"
proof -
  define low where "low = mf_context (mo_manifest opt)"
  define high where "high = min largest_context (max low (mi_trained_context (mo_model opt)))"
  have "low \<noteq> 0" "low \<le> largest_context" "high \<le> largest_context" "low \<le> high"
    using assms(3,4) by (simp_all add: low_def high_def)
  from climbing_ladder[OF this] show ?thesis
    unfolding context_ladder_eq[OF assms(1-3)] Let_def low_def[symmetric] high_def[symmetric] by simp
qed

text \<open>Above the cap the ladder steps down.\<close>

lemma context_ladder_down:
  assumes "pr_context q = 0" and "pr_largest_context q" and "largest_context < mf_context (mo_manifest opt)"
  shows "context_ladder opt q = [mf_context (mo_manifest opt), largest_context]"
proof -
  define low where "low = mf_context (mo_manifest opt)"
  have low: "low \<noteq> 0" "largest_context < low" using assms(3) by (auto simp: low_def)
  have high: "min largest_context (max low (mi_trained_context (mo_model opt))) = largest_context"
    using low(2) by (simp add: max_def)
  have "ladder_steps low largest_context = []"
  proof -
    have "\<not> (v < largest_context \<and> v > low)" for v using low(2) by auto
    then show ?thesis by (simp add: ladder_steps_def takeWhile_eq_Nil_iff)
  qed
  then show ?thesis
    unfolding context_ladder_eq[OF assms(1,2) low(1)[unfolded low_def]] Let_def low_def[symmetric] high
    using low(2) by simp
qed

section \<open>Fits are valid plans\<close>

lemma worker_pool_ok:
  "distinct (worker_pool pton ws q opt ctx)"
  "i \<in> set (worker_pool pton ws q opt ctx) \<longleftrightarrow>
     i < length ws \<and> wk_connected (ws ! i) \<and> unusable pton (ws ! i) q opt ctx = []"
  by (auto simp: worker_pool_def)

lemma head_first_ok:
  assumes "head_first ws q pool = Some (pool', head)" and "distinct pool"
  shows "distinct pool'" "set pool' = set pool" "head = Some h \<Longrightarrow> h = 0 \<and> pool' \<noteq> []"
    "\<forall>h. head = Some h \<longrightarrow> h < length pool'"
    "pr_head q \<noteq> [] \<Longrightarrow> pk_control (wk_candidate (ws ! hd pool')) = pr_head q"
  using assms by (auto simp: head_first_def dest!: find_SomeD split: if_splits)

text \<open>A plan over the first workers of the pool is a plan over the pool.\<close>

lemma valid_plan_take:
  assumes "valid_plan m (take n offered) ctx sessions head ss"
  shows "valid_plan m offered ctx sessions head ss"
  using assms by (auto simp: valid_plan_def list_all_iff stage_ok_def)

lemma floor_plan_cases:
  assumes "floor_plan prec m found sq result = Some r"
  shows "result = Some r \<or>
    plan_stages prec m (map cd_offered_mib (take 8 found)) (sq_context sq) (sq_sessions sq)
      (min (sq_minimum_stages sq) (length (map cd_offered_mib (take 8 found)))) (sq_head sq) = Some (sres_plan r)
    \<and> sq_minimum_stages sq \<le> length (sres_plan r) \<and> length (sres_plan r) \<le> sq_maximum_stages sq"
proof (cases "plan_stages prec m (map cd_offered_mib (take 8 found)) (sq_context sq) (sq_sessions sq)
    (min (sq_minimum_stages sq) (length (map cd_offered_mib (take 8 found)))) (sq_head sq)")
  case None
  then show ?thesis using assms by (simp add: floor_plan_def Let_def)
next
  case (Some legacy)
  show ?thesis
  proof (cases "result = Some r")
    case False
    have "sres_plan r = legacy \<and> sq_minimum_stages sq \<le> length legacy \<and> length legacy \<le> sq_maximum_stages sq"
      using assms Some False unfolding floor_plan_def Let_def option.case
      by (simp split: if_splits) (auto simp: not_le)
    then show ?thesis using Some by simp
  qed simp
qed

lemma context_result_valid:
  assumes "context_result prec m found sq = Some r"
    and kv: "kv_bytes m 0 (sint (mi_layers m)) (sq_context sq) (sq_sessions sq) \<noteq> 0"
  shows "valid_plan m (map cd_offered_mib found) (sq_context sq) (sq_sessions sq) (sq_head sq) (sres_plan r)
    \<and> sq_minimum_stages sq \<le> length (sres_plan r) \<and> length (sres_plan r) \<le> sq_maximum_stages sq"
proof -
  let ?result = "case search_plan prec m found sq of Inl _ \<Rightarrow> None | Inr r \<Rightarrow> Some r"
  have "floor_plan prec m found sq ?result = Some r"
    using assms(1) by (simp add: context_result_def split: if_splits)
  from floor_plan_cases[OF this] show ?thesis
  proof
    assume "?result = Some r"
    then have "search_plan prec m found sq = Inr r" by (simp split: sum.splits)
    then show ?thesis using search_plan_good[OF _ kv] by (simp add: good_plan_def)
  next
    assume legacy: "plan_stages prec m (map cd_offered_mib (take 8 found)) (sq_context sq) (sq_sessions sq)
        (min (sq_minimum_stages sq) (length (map cd_offered_mib (take 8 found)))) (sq_head sq) = Some (sres_plan r)
      \<and> sq_minimum_stages sq \<le> length (sres_plan r) \<and> length (sres_plan r) \<le> sq_maximum_stages sq"
    then have "valid_plan m (take 8 (map cd_offered_mib found)) (sq_context sq) (sq_sessions sq) (sq_head sq) (sres_plan r)"
      using plan_stages_valid by (auto simp: take_map)
    then show ?thesis using valid_plan_take legacy by blast
  qed
qed

text \<open>What a fit promises about its workers and its plan.\<close>

definition fit_ok ::
    "(string \<Rightarrow> (nat \<times> nat \<times> nat \<times> nat) option) \<Rightarrow> worker list \<Rightarrow> placement_request \<Rightarrow> model_option \<Rightarrow> fit \<Rightarrow> bool" where
  "fit_ok pton ws q opt f \<longleftrightarrow>
     distinct (ft_pool f) \<and> ft_context f \<in> set (context_ladder opt q)
     \<and> (\<forall>i \<in> set (ft_pool f). i < length ws \<and> wk_connected (ws ! i) \<and> unusable pton (ws ! i) q opt (ft_context f) = [])
     \<and> valid_plan (mo_model opt) (map (\<lambda>i. pc_offered_vram_mib (wk_hello (ws ! i))) (ft_pool f))
         (ft_context f) (pr_sessions q) (ft_head f) (ft_plan f)
     \<and> pr_minimum_stages q \<le> length (ft_plan f) \<and> length (ft_plan f) \<le> pr_maximum_stages q
     \<and> (pr_head q \<noteq> [] \<longrightarrow> ft_head f = Some 0 \<and> pk_control (wk_candidate (ws ! hd (ft_pool f))) = pr_head q)"

lemma fit_at_ok:
  assumes "fit_at pton prec now ws q number opt ctx = Some f" and "ctx \<in> set (context_ladder opt q)"
    and kv: "kv_bytes (mo_model opt) 0 (sint (mi_layers (mo_model opt))) ctx (pr_sessions q) \<noteq> 0"
  shows "fit_ok pton ws q opt f"
proof -
  obtain pool head where p: "head_first ws q (worker_pool pton ws q opt ctx) = Some (pool, head)"
    using assms(1) by (auto simp: fit_at_def split: option.splits)
  define found where "found = map (\<lambda>i. search_candidate_of (ws ! i) (lowercase (mf_sha256 (mo_manifest opt))) ctx (pr_sessions q) now) pool"
  define sq where "sq = search_request_of ws q opt ctx pool head"
  obtain r where r: "context_result prec (mo_model opt) found sq = Some r"
    and f: "ft_pool f = pool" "ft_plan f = sres_plan r" "ft_head f = head" "ft_context f = ctx"
    using assms(1) p by (auto simp: fit_at_def Let_def found_def sq_def)
  have sq: "sq_context sq = ctx" "sq_sessions sq = pr_sessions q" "sq_head sq = head"
      "sq_minimum_stages sq = pr_minimum_stages q" "sq_maximum_stages sq = pr_maximum_stages q"
    by (simp_all add: sq_def search_request_of_def Let_def)
  have offers: "map cd_offered_mib found = map (\<lambda>i. pc_offered_vram_mib (wk_hello (ws ! i))) pool"
    by (simp add: found_def search_candidate_of_def Let_def)
  have "pr_head q \<noteq> [] \<Longrightarrow> head = Some 0" using p by (auto simp: head_first_def)
  then show ?thesis
    using context_result_valid[OF r] kv head_first_ok[OF p worker_pool_ok(1)] assms(2)
    by (auto simp: fit_ok_def f sq offers worker_pool_ok(2))
qed

lemma climb_cases:
  "climb f ctxs best = Some r \<Longrightarrow> best = Some r \<or> (\<exists>ctx \<in> set ctxs. f ctx = Some r)"
  by (induction f ctxs best rule: climb.induct) (auto split: option.splits if_splits)

lemma choose_model_ok:
  assumes "choose_model pton prec now ws q = Some (opt, f)"
    and kv: "\<forall>opt \<in> set (pr_models q). \<forall>ctx \<in> set (context_ladder opt q).
      kv_bytes (mo_model opt) 0 (sint (mi_layers (mo_model opt))) ctx (pr_sessions q) \<noteq> 0"
  shows "opt \<in> set (pr_models q) \<and> fit_ok pton ws q opt f"
proof -
  obtain number where n: "number < length (pr_models q)" "opt = pr_models q ! number"
      "best_fit pton prec now ws q number opt = Some f"
    using first_some_SomeD[OF assms(1)[unfolded choose_model_def]] by auto
  obtain ctx where "ctx \<in> set (context_ladder opt q)" "fit_at pton prec now ws q number opt ctx = Some f"
    using climb_cases[OF n(3)[unfolded best_fit_def]] by auto
  then show ?thesis using fit_at_ok kv n(1,2) by auto
qed

section \<open>Properties\<close>

text \<open>
  The contexts tried for a replica climb: from the manifest's context, when it is at most the
  cap of 262144, every next one is larger, and the last is the model's trained context cut off at
  the cap (or the manifest's own). Doubling never wraps.
\<close>

theorem context_ladder_climbs:
  assumes "pr_context q = 0" and "pr_largest_context q" and "mf_context (mo_manifest opt) \<noteq> 0"
    and "mf_context (mo_manifest opt) \<le> largest_context"
  shows "sorted_wrt (<) (context_ladder opt q) \<and> hd (context_ladder opt q) = mf_context (mo_manifest opt)
    \<and> last (context_ladder opt q) = min largest_context (max (mf_context (mo_manifest opt)) (mi_trained_context (mo_model opt)))"
  using assms by (rule context_ladder_sorted)

text \<open>
  Above the cap the ladder goes down: a manifest that promises more than 262144 positions is
  tried at its own context and then at 262144, and since the last context with no more stages
  wins, the replica is formed below the context the manifest promises whenever the smaller one
  fits in as few stages.
\<close>

theorem context_ladder_below_manifest:
  assumes "pr_context q = 0" and "pr_largest_context q" and "largest_context < mf_context (mo_manifest opt)"
    and "f (mf_context (mo_manifest opt)) = Some a" and "f largest_context = Some b"
    and "length (ft_plan b) \<le> length (ft_plan a)"
  shows "climb f (context_ladder opt q) None = Some b \<and> largest_context < mf_context (mo_manifest opt)"
  unfolding context_ladder_down[OF assms(1-3)] using assms(3-6) by simp

definition ladder_request :: placement_request where
  "ladder_request = \<lparr>pr_models = [], pr_context = 0, pr_largest_context = True, pr_sessions = 1,
     pr_minimum_stages = 1, pr_maximum_stages = 5, pr_search_budget = 4000, pr_previews = False,
     pr_reclaim_idle_s = 0, pr_ordinary_input_tokens = 2048, pr_prefill_chunk_rows = 512,
     pr_first_token_limit_ms = 0, pr_runtime_abi = ''abi'', pr_lease_ms = 30000, pr_attempts = 3,
     pr_speculate = False, pr_activations = dt_f32le, pr_head = [], pr_yield_margin = 0\<rparr>"

definition ladder_option :: "u32 \<Rightarrow> u32 \<Rightarrow> model_option" where
  "ladder_option ctx trained = \<lparr>mo_manifest = \<lparr>mf_model_id = ''m'', mf_architecture = ''qwen2'', mf_layers = 2,
     mf_hidden = 8, mf_context = ctx, mf_quality_tier = 0, mf_url = [], mf_revision = [],
     mf_sha256 = replicate 64 CHR ''0''\<rparr>, mo_model = small_model\<lparr>mi_trained_context := trained\<rparr>\<rparr>"

theorem context_ladder_climbs_witness:
  "sorted_wrt (<) (context_ladder (ladder_option 4096 20000) ladder_request)
   \<and> last (context_ladder (ladder_option 4096 20000) ladder_request) = 20000"
  using context_ladder_climbs[of ladder_request "ladder_option 4096 20000"]
  by (simp add: ladder_request_def ladder_option_def largest_context_def)

definition any_fit :: "u32 \<Rightarrow> fit" where
  "any_fit ctx = \<lparr>ft_pool = [0], ft_plan = [], ft_from_cache = False, ft_head = None, ft_context = ctx,
     ft_preview = \<lparr>rv_model = 0, rv_context = ctx, rv_stages = 0, rv_token_ms = 0, rv_first_token_ms = 0,
       rv_measured = False, rv_from_cache = False, rv_download_bytes = 0, rv_peers = []\<rparr>\<rparr>"

theorem context_ladder_below_manifest_witness:
  "climb (\<lambda>ctx. Some (any_fit ctx)) (context_ladder (ladder_option 500000 0) ladder_request) None
     = Some (any_fit 262144)"
  using context_ladder_below_manifest[of ladder_request "ladder_option 500000 0" "\<lambda>ctx. Some (any_fit ctx)" "any_fit 500000" "any_fit 262144"]
  by (simp add: ladder_request_def ladder_option_def largest_context_def any_fit_def)

end
