(* ===== verification/Connection.thy ===== *)
theory Connection
  imports Protocol Ring_Route
begin

text \<open>
  Control connections (\<^verbatim>\<open>engine/client.cpp\<close>): sending and receiving frames over a socket,
  opening and listening on endpoints, and accepting the ring's return connection. The operating
  system is the record \<open>sockets\<close>: what the next sends accept, which segments arrive, and how
  the world moves on; a connection is the number of its socket. An action either never returns
  (\<^const>\<open>None\<close>), throws (\<^const>\<open>Inl\<close> with the exception text) or returns.
\<close>

section \<open>The operating system and actions\<close>

record 'w sockets =
  so_counts :: "nat \<Rightarrow> 'w \<Rightarrow> int list"
  so_sent :: "nat \<Rightarrow> u8 list \<Rightarrow> 'w \<Rightarrow> 'w"
  so_segments :: "nat \<Rightarrow> 'w \<Rightarrow> u8 list list"
  so_received :: "nat \<Rightarrow> u8 list list option \<Rightarrow> 'w \<Rightarrow> 'w"
  so_now :: "'w \<Rightarrow> u64"
  so_resolve :: "string \<Rightarrow> string \<Rightarrow> 'w \<Rightarrow> nat list option"
  so_connect :: "nat \<Rightarrow> 'w \<Rightarrow> nat option \<times> 'w"
  so_bind_listen :: "nat \<Rightarrow> 'w \<Rightarrow> nat option \<times> 'w"
  so_accept :: "nat \<Rightarrow> 'w \<Rightarrow> (nat option \<times> 'w) option"

text \<open>The world together with each connection's count of received activations.\<close>

record 'w io =
  io_world :: 'w
  io_activations :: "nat \<Rightarrow> u64"

type_synonym ('w, 'a) act = "'w io \<Rightarrow> ((string + 'a) \<times> 'w io) option"

definition return :: "'a \<Rightarrow> ('w, 'a) act" where
  "return a = (\<lambda>w. Some (Inr a, w))"

definition throw :: "string \<Rightarrow> ('w, 'a) act" where
  "throw e = (\<lambda>w. Some (Inl e, w))"

definition then_do :: "('w, 'a) act \<Rightarrow> ('a \<Rightarrow> ('w, 'b) act) \<Rightarrow> ('w, 'b) act" where
  "then_do m k = (\<lambda>w. Option.bind (m w)
     (\<lambda>(r, w'). case r of Inl e \<Rightarrow> Some (Inl e, w') | Inr a \<Rightarrow> k a w'))"

definition catch :: "('w, 'a) act \<Rightarrow> (string \<Rightarrow> ('w, 'a) act) \<Rightarrow> ('w, 'a) act" where
  "catch m h = (\<lambda>w. Option.bind (m w)
     (\<lambda>(r, w'). case r of Inl e \<Rightarrow> h e w' | Inr a \<Rightarrow> Some (Inr a, w')))"

definition require :: "bool \<Rightarrow> string \<Rightarrow> ('w, unit) act" where
  "require ok e = (if ok then return () else throw e)"

definition lift_sum :: "string + 'a \<Rightarrow> ('w, 'a) act" where
  "lift_sum r = (\<lambda>w. Some (r, w))"

section \<open>Frames over a connection\<close>

fun frame_error_text :: "frame_error \<Rightarrow> string" where
  "frame_error_text PayloadTooLarge = ''payload exceeds 64 MiB''"
| "frame_error_text BadHeader = ''bad frame header''"
| "frame_error_text UnknownType = ''unknown frame type''"
| "frame_error_text SendDisconnected = ''peer disconnected while sending frame''"
| "frame_error_text RecvDisconnected = ''peer disconnected while receiving frame''"
| "frame_error_text PayloadDisconnected = ''peer disconnected during payload''"

definition send_on :: "'w sockets \<Rightarrow> nat \<Rightarrow> frame \<Rightarrow> ('w, unit) act" where
  "send_on so c f = (\<lambda>w.
     case send_frame f (so_counts so c (io_world w)) of
       (r, out, _) \<Rightarrow>
         let w' = w\<lparr>io_world := so_sent so c out (io_world w)\<rparr> in
         Some (case r of Inl e \<Rightarrow> Inl (frame_error_text e) | Inr u \<Rightarrow> Inr u, w'))"

definition receive_frame :: "'w sockets \<Rightarrow> nat \<Rightarrow> ('w, frame) act" where
  "receive_frame so c = (\<lambda>w.
     case recv_frame (so_segments so c (io_world w)) of
       Inl e \<Rightarrow> Some (Inl (frame_error_text e), w\<lparr>io_world := so_received so c None (io_world w)\<rparr>)
     | Inr (f, rest) \<Rightarrow>
         Some (Inr f, w\<lparr>io_world := so_received so c (Some rest) (io_world w)\<rparr>))"

text \<open>A received frame as \<^verbatim>\<open>Connection::read_reply\<close> gives it: an error frame is thrown.\<close>

definition read_reply :: "string + frame \<Rightarrow> string + frame" where
  "read_reply r =
     (case r of
        Inl e \<Rightarrow> Inl e
      | Inr f \<Rightarrow> if fr_type f = T_error then Inl (string_of (fr_payload f)) else Inr f)"

definition counted_activation :: "msg_type \<Rightarrow> bool" where
  "counted_activation t \<longleftrightarrow> t = T_activation \<or> t = T_speculative_activation \<or> t = T_prompt_chunk"

definition receive :: "'w sockets \<Rightarrow> nat \<Rightarrow> ('w, frame) act" where
  "receive so c = then_do (receive_frame so c) (\<lambda>f. then_do (lift_sum (read_reply (Inr f)))
     (\<lambda>f w. Some (Inr f,
        if counted_activation (fr_type f)
        then w\<lparr>io_activations := (io_activations w)(c := io_activations w c + 1)\<rparr> else w)))"

definition clock :: "'w sockets \<Rightarrow> ('w, u64) act" where
  "clock so = (\<lambda>w. Some (Inr (so_now so (io_world w)), w))"

definition elapsed_ns :: "'w sockets \<Rightarrow> u64 \<Rightarrow> ('w, u64) act" where
  "elapsed_ns so start = then_do (clock so) (\<lambda>t. return (t - start))"

definition exchange :: "'w sockets \<Rightarrow> nat \<Rightarrow> frame \<Rightarrow> ('w, frame \<times> u64) act" where
  "exchange so c f =
     then_do (clock so) (\<lambda>start.
     then_do (send_on so c f) (\<lambda>_.
     then_do (receive so c) (\<lambda>reply.
     then_do (elapsed_ns so start) (\<lambda>ns. return (reply, ns)))))"

section \<open>Endpoints\<close>

definition split_endpoint :: "string \<Rightarrow> (string \<times> string) option" where
  "split_endpoint endpoint =
     (case rfind_char CHR '':'' endpoint of
        None \<Rightarrow> None
      | Some colon \<Rightarrow>
          if colon = 0 \<or> colon + 1 = length endpoint then None
          else Some (take colon endpoint, drop (colon + 1) endpoint))"

primrec first_socket :: "(nat \<Rightarrow> 'w \<Rightarrow> nat option \<times> 'w) \<Rightarrow> nat list \<Rightarrow> 'w \<Rightarrow> nat option \<times> 'w" where
  "first_socket dial [] w = (None, w)"
| "first_socket dial (a # rest) w =
     (case dial a w of (Some s, w') \<Rightarrow> (Some s, w') | (None, w') \<Rightarrow> first_socket dial rest w')"

definition open_first ::
    "string \<Rightarrow> string \<Rightarrow> string \<Rightarrow> 'w sockets \<Rightarrow> (nat \<Rightarrow> 'w \<Rightarrow> nat option \<times> 'w) \<Rightarrow> string \<Rightarrow> ('w, nat) act" where
  "open_first bad_endpoint unresolved unopened so dial endpoint = (\<lambda>w.
     case split_endpoint endpoint of
       None \<Rightarrow> Some (Inl bad_endpoint, w)
     | Some (host, port) \<Rightarrow>
         (case so_resolve so host port (io_world w) of
            None \<Rightarrow> Some (Inl unresolved, w)
          | Some addresses \<Rightarrow>
              (case first_socket dial addresses (io_world w) of
                 (None, w') \<Rightarrow> Some (Inl unopened, w\<lparr>io_world := w'\<rparr>)
               | (Some s, w') \<Rightarrow>
                   Some (Inr s, w\<lparr>io_world := w', io_activations := (io_activations w)(s := 0)\<rparr>))))"

definition connect_endpoint :: "'w sockets \<Rightarrow> string \<Rightarrow> ('w, nat) act" where
  "connect_endpoint so = open_first ''invalid provider endpoint''
     ''could not resolve provider endpoint'' ''could not connect to provider'' so (so_connect so)"

definition listen_on :: "'w sockets \<Rightarrow> string \<Rightarrow> ('w, nat) act" where
  "listen_on so = open_first ''invalid listen endpoint''
     ''could not resolve listen endpoint'' ''bind/listen failed'' so (so_bind_listen so)"

section \<open>The ring's return connection\<close>

definition receive_peer_id :: "'w sockets \<Rightarrow> nat \<Rightarrow> ('w, string option) act" where
  "receive_peer_id so c = (\<lambda>w.
     case recv_peer_id (so_segments so c (io_world w)) of
       (peer, rest) \<Rightarrow> Some (Inr peer, w\<lparr>io_world := so_received so c (Some rest) (io_world w)\<rparr>))"

definition expect_tail :: "'w sockets \<Rightarrow> nat \<Rightarrow> string \<Rightarrow> ('w, unit) act" where
  "expect_tail so c expected_peer =
     (if expected_peer = [] then return ()
      else then_do (receive_peer_id so c) (\<lambda>peer.
        require (peer = Some expected_peer) ''unexpected tail PeerID''))"

definition ring_handshake :: "'w sockets \<Rightarrow> string \<Rightarrow> nat \<Rightarrow> ('w, unit) act" where
  "ring_handshake so expected_peer c =
     then_do (expect_tail so c expected_peer) (\<lambda>_.
     then_do (receive so c) (\<lambda>hello.
     then_do (require (fr_type hello = T_ack) ''unexpected ring handshake hello'') (\<lambda>_.
     then_do (send_on so c (fresh_frame\<lparr>fr_type := T_ack\<rparr>)) (\<lambda>_.
     then_do (receive so c) (\<lambda>confirmed.
       require (fr_type confirmed = T_ack) ''unexpected ring handshake confirmation'')))))"

text \<open>A failed handshake goes back to accepting, for as long as connections keep failing it.\<close>

partial_function (option) accept_ring_return ::
    "'w sockets \<Rightarrow> nat \<Rightarrow> string \<Rightarrow> 'w io \<Rightarrow> ((string + nat) \<times> 'w io) option" where
  "accept_ring_return so listener expected_peer w =
     Option.bind (so_accept so listener (io_world w)) (\<lambda>(accepted, w').
       case accepted of
         None \<Rightarrow> Some (Inl ''ring return accept failed'', w\<lparr>io_world := w'\<rparr>)
       | Some c \<Rightarrow>
           Option.bind (ring_handshake so expected_peer c
               (w\<lparr>io_world := w', io_activations := (io_activations w)(c := 0)\<rparr>))
             (\<lambda>(r, w''). case r of
                Inl e \<Rightarrow> accept_ring_return so listener expected_peer w''
              | Inr u \<Rightarrow> Some (Inr c, w'')))"

section \<open>Reasoning about actions\<close>

named_theorems act_results

lemma bind_SomeE:
  "Option.bind m k = Some y \<Longrightarrow> (\<And>x. m = Some x \<Longrightarrow> k x = Some y \<Longrightarrow> P) \<Longrightarrow> P"
  by (cases m) auto

lemma map_SomeE:
  "map_option f m = Some y \<Longrightarrow> (\<And>x. m = Some x \<Longrightarrow> y = f x \<Longrightarrow> P) \<Longrightarrow> P"
  by (cases m) auto

lemma return_result [act_results]: "return a w = Some (Inr b, w') \<longleftrightarrow> a = b \<and> w = w'"
  by (auto simp: return_def)

lemma throw_result [act_results]: "throw e w = Some (Inr b, w') \<longleftrightarrow> False"
  by (auto simp: throw_def)

lemma then_do_result [act_results]:
  "then_do m k w = Some (Inr b, w')
     \<longleftrightarrow> (\<exists>a w1. m w = Some (Inr a, w1) \<and> k a w1 = Some (Inr b, w'))"
  by (auto simp: then_do_def bind_eq_Some_conv split_sum_ex split: sum.splits)

lemma require_result_act [act_results]: "require ok e w = Some (Inr b, w') \<longleftrightarrow> ok \<and> w = w'"
  by (auto simp: require_def return_def throw_def)

lemma lift_sum_result [act_results]: "lift_sum r w = Some (Inr b, w') \<longleftrightarrow> r = Inr b \<and> w = w'"
  by (auto simp: lift_sum_def)

lemma clock_result [act_results]: "clock so w = Some (Inr t, w') \<longleftrightarrow> t = so_now so (io_world w) \<and> w = w'"
  by (auto simp: clock_def)

text \<open>An action that always comes back, with a value or an exception.\<close>

definition comes_back :: "('w, 'a) act \<Rightarrow> bool" where
  "comes_back m \<longleftrightarrow> (\<forall>w. m w \<noteq> None)"

named_theorems back_intros

lemma return_back [back_intros]: "comes_back (return a)"
  by (simp add: comes_back_def return_def)

lemma throw_back [back_intros]: "comes_back (throw e)"
  by (simp add: comes_back_def throw_def)

lemma then_do_back [back_intros]:
  "comes_back m \<Longrightarrow> (\<And>a. comes_back (k a)) \<Longrightarrow> comes_back (then_do m k)"
  unfolding comes_back_def then_do_def by (auto split: bind_splits sum.splits)

lemma catch_back [back_intros]:
  "comes_back m \<Longrightarrow> (\<And>e. comes_back (h e)) \<Longrightarrow> comes_back (catch m h)"
  unfolding comes_back_def catch_def by (auto split: bind_splits sum.splits)

lemma require_back [back_intros]: "comes_back (require ok e)"
  by (simp add: comes_back_def require_def return_def throw_def)

lemma lift_sum_back [back_intros]: "comes_back (lift_sum r)"
  by (simp add: comes_back_def lift_sum_def)

lemma if_back [back_intros]: "(b \<Longrightarrow> comes_back m) \<Longrightarrow> (\<not> b \<Longrightarrow> comes_back m') \<Longrightarrow> comes_back (if b then m else m')"
  by simp

lemma clock_back [back_intros]: "comes_back (clock so)"
  by (simp add: comes_back_def clock_def)

lemma elapsed_back [back_intros]: "comes_back (elapsed_ns so t)"
  by (simp add: elapsed_ns_def back_intros)

lemma send_on_back [back_intros]: "comes_back (send_on so c f)"
  by (auto simp: comes_back_def send_on_def Let_def split: prod.splits)

lemma receive_frame_back [back_intros]: "comes_back (receive_frame so c)"
  by (auto simp: comes_back_def receive_frame_def split: sum.splits prod.splits)

lemma receive_back [back_intros]: "comes_back (receive so c)"
  unfolding receive_def by (intro back_intros) (simp add: comes_back_def)

lemma exchange_back [back_intros]: "comes_back (exchange so c f)"
  by (simp add: exchange_def back_intros)

text \<open>No reply that a caller sees is an error frame.\<close>

lemma receive_result:
  assumes "receive so c w = Some (Inr f, w')"
  shows "fr_type f \<noteq> T_error"
  using assms by (auto simp: receive_def act_results read_reply_def split: if_splits)

lemma exchange_result:
  assumes "exchange so c f w = Some (Inr (reply, ns), w')"
  shows "fr_type reply \<noteq> T_error"
  using assms by (auto simp: exchange_def act_results dest: receive_result)

section \<open>The return connection is the tail's\<close>

definition tail_checked :: "'w sockets \<Rightarrow> string \<Rightarrow> nat \<Rightarrow> 'w io \<Rightarrow> bool" where
  "tail_checked so expected_peer c w' \<longleftrightarrow>
     (\<exists>w. ring_handshake so expected_peer c w = Some (Inr (), w')
        \<and> (expected_peer \<noteq> []
           \<longrightarrow> fst (recv_peer_id (so_segments so c (io_world w))) = Some expected_peer))"

lemma handshake_checks_tail:
  assumes "ring_handshake so expected_peer c w = Some (Inr (), w')"
  shows "tail_checked so expected_peer c w'"
  unfolding tail_checked_def using assms
  by (intro exI[of _ w])
     (auto simp: ring_handshake_def expect_tail_def receive_peer_id_def act_results
       split: prod.splits if_splits)

lemma accept_ring_return_checked:
  assumes "accept_ring_return so listener expected_peer w = Some (Inr c, w')"
  shows "tail_checked so expected_peer c w'"
proof -
  have "case y of (r, w') \<Rightarrow> \<forall>c. r = Inr c \<longrightarrow> tail_checked so expected_peer c w'"
    if "accept_ring_return so listener expected_peer w = Some y" for y
    using that
  proof (induction rule: accept_ring_return.raw_induct[rotated 1, consumes 1])
    case (1 f so listener expected_peer w y)
    from 1(2) show ?case
      by (auto simp: bind_eq_Some_conv handshake_checks_tail dest!: 1(1)
          split: prod.splits option.splits sum.splits) (metis sum.exhaust unit.exhaust)
  qed
  from this[OF assms] show ?thesis by simp
qed

section \<open>Scripted peers\<close>

text \<open>
  A world in which every peer's frames are fixed in advance: the frames still to arrive, per
  connection. The witnesses of the client's theorems run in it.
\<close>

definition scripted :: "(nat \<Rightarrow> frame list) sockets" where
  "scripted = \<lparr>so_counts = (\<lambda>_ _. [48, 100000]), so_sent = (\<lambda>_ _ w. w),
     so_segments = (\<lambda>c w. map frame_bytes (take 1 (w c))),
     so_received = (\<lambda>c _ w. w(c := tl (w c))),
     so_now = (\<lambda>_. 0), so_resolve = (\<lambda>_ _ _. Some [0]), so_connect = (\<lambda>_ w. (None, w)),
     so_bind_listen = (\<lambda>_ w. (Some 9, w)), so_accept = (\<lambda>_ w. Some (Some 8, w))\<rparr>"

definition script :: "(nat \<Rightarrow> frame list) \<Rightarrow> (nat \<Rightarrow> frame list) io" where
  "script frames = \<lparr>io_world = frames, io_activations = (\<lambda>_. 0)\<rparr>"

lemma recv_one_frame:
  assumes "length (fr_payload f) \<le> max_payload"
  shows "recv_frame [frame_bytes f] = Inr (f, [])"
proof -
  obtain h where "encode_header f = Inr h" "length h = header_size"
    using decode_encode_header[OF assms] by auto
  then have "frame_bytes f \<noteq> []" by (auto simp: frame_bytes_def header_size_def)
  then obtain segs' where "recv_frame [frame_bytes f] = Inr (f, segs')" "concat segs' = []" "[] \<notin> set segs'"
    using recv_frame_frame_bytes[of "[frame_bytes f]" f "[]"] assms by auto
  then show ?thesis by (cases segs') auto
qed

lemma send_one_frame:
  assumes "length (fr_payload f) \<le> 100000"
  shows "\<exists>cs. send_frame f [48, 100000] = (Inr (), frame_bytes f, cs)"
proof -
  from assms have "length (fr_payload f) \<le> max_payload" by (simp add: max_payload_def)
  then obtain h where h: "encode_header f = Inr h" "length h = 48"
    using decode_encode_header[of f] by (auto simp: header_size_def)
  then have "send_all h [48, 100000] = (True, h, [100000])"
    using send_all_full[of h 48 "[100000]"] by (cases h) (auto simp: int_max_def)
  moreover have "\<exists>cs. send_all (fr_payload f) [100000] = (True, fr_payload f, cs)"
    using send_all_full[of "fr_payload f" 100000 "[]"] assms
    by (cases "fr_payload f = []") (auto simp: int_max_def)
  ultimately show ?thesis using h by (auto simp: send_frame_def frame_bytes_def)
qed

lemma scripted_send [simp]:
  "length (fr_payload f) \<le> 100000 \<Longrightarrow> send_on scripted c f w = Some (Inr (), w)"
  using send_one_frame[of f] by (auto simp: send_on_def scripted_def)

lemma scripted_receive [simp]:
  assumes "io_world w c = f # fs" "length (fr_payload f) \<le> max_payload" "fr_type f \<noteq> T_error"
  shows "receive scripted c w = Some (Inr f, w\<lparr>io_world := (io_world w)(c := fs),
    io_activations := (if counted_activation (fr_type f)
      then (io_activations w)(c := io_activations w c + 1) else io_activations w)\<rparr>)"
  using assms
  by (simp add: receive_def receive_frame_def then_do_def scripted_def recv_one_frame read_reply_def
      lift_sum_def)

lemma scripted_exchange [simp]:
  assumes "length (fr_payload f) \<le> 100000" "io_world w c = g # fs"
    "length (fr_payload g) \<le> max_payload" "fr_type g \<noteq> T_error"
  shows "exchange scripted c f w = Some (Inr (g, 0), w\<lparr>io_world := (io_world w)(c := fs),
    io_activations := (if counted_activation (fr_type g)
      then (io_activations w)(c := io_activations w c + 1) else io_activations w)\<rparr>)"
  using assms
  by (simp add: exchange_def elapsed_ns_def then_do_def clock_def return_def)
    (simp add: scripted_def)

lemma scripted_clock [simp]: "clock scripted w = Some (Inr 0, w)"
  by (simp add: clock_def scripted_def)

lemma scripted_elapsed [simp]: "elapsed_ns scripted 0 w = Some (Inr 0, w)"
  by (simp add: elapsed_ns_def then_do_def return_def)

lemmas act_run = then_do_def return_def throw_def lift_sum_def require_def

section \<open>Who is at the other end of the ring\<close>

text \<open>C30. The connection taken as the ring's return path is one whose handshake completed, after as
many failed attempts as it took; and when a PeerID was expected, the first line read on that very
connection named exactly this peer.\<close>

theorem ring_return_is_expected_tail:
  assumes "accept_ring_return so listener expected_peer w = Some (Inr c, w')"
  shows "\<exists>w0. ring_handshake so expected_peer c w0 = Some (Inr (), w')
    \<and> (expected_peer \<noteq> []
       \<longrightarrow> fst (recv_peer_id (so_segments so c (io_world w0))) = Some expected_peer)"
  using accept_ring_return_checked[OF assms] unfolding tail_checked_def .

definition hello_script :: "(nat \<Rightarrow> frame list) io" where
  "hello_script = script ((\<lambda>_. [])(8 := [fresh_frame\<lparr>fr_type := T_ack\<rparr>, fresh_frame\<lparr>fr_type := T_ack\<rparr>]))"

lemma hello_script_accepts:
  "accept_ring_return scripted 9 [] hello_script = Some (Inr 8, script ((\<lambda>_. [])(8 := [])))"
proof -
  have accepting: "so_accept scripted 9 v = Some (Some 8, v)" for v by (simp add: scripted_def)
  show ?thesis
    by (subst accept_ring_return.simps)
       (simp add: accepting ring_handshake_def expect_tail_def act_run hello_script_def script_def
         fresh_frame_def max_payload_def counted_activation_def fun_eq_iff)
qed

theorem ring_return_is_expected_tail_witness:
  "\<exists>w0 w'. ring_handshake scripted [] 8 w0 = Some (Inr (), w')"
  using ring_return_is_expected_tail[OF hello_script_accepts] by blast

end
