(* ===== verification/Placement.thy ===== *)
theory Placement
  imports Placement_Plan Lease Connection
begin

text \<open>
  Placing a route (\<^verbatim>\<open>place_route\<close> of \<^verbatim>\<open>engine/placement.cpp\<close>): greeting the
  candidates, planning, standing aside for a faster owner, reserving every planned worker,
  releasing them when one refuses, and loading the stages. The workers, the clock, the random
  device and the caller's link check are the record \<open>outside\<close>; its functions take the number
  of the attempt. The threads of \<^verbatim>\<open>run_all\<close> each touch one worker, so their effects
  are those of any order. Times spent are not modelled; the counts of the report are.
\<close>

section \<open>Replies\<close>

record outside =
  ou_greet :: "nat \<Rightarrow> placement_candidate \<Rightarrow> frame option"
  ou_now :: "nat \<Rightarrow> int"
  ou_random :: "nat \<Rightarrow> nat \<Rightarrow> nat"
  ou_check_route :: "(placement_candidate list \<Rightarrow> string) option"
  ou_reserve :: "nat \<Rightarrow> placement_candidate \<Rightarrow> stage_request \<Rightarrow> string + frame"
  ou_release :: "nat \<Rightarrow> placement_candidate \<Rightarrow> string \<Rightarrow> string + frame"
  ou_load :: "nat \<Rightarrow> placement_candidate \<Rightarrow> stage_request \<Rightarrow> string + frame"

text \<open>The error text of one task of \<^verbatim>\<open>run_all\<close>, empty for success.\<close>

definition task_error :: "string + frame \<Rightarrow> (frame \<Rightarrow> bool) \<Rightarrow> string \<Rightarrow> string" where
  "task_error r expected otherwise =
     (case read_reply r of Inl e \<Rightarrow> e | Inr f \<Rightarrow> if expected f then [] else otherwise)"

definition random_route_id :: "(nat \<Rightarrow> nat) \<Rightarrow> string" where
  "random_route_id device = map (\<lambda>i. ''0123456789abcdef'' ! (device i mod 16)) [0..<32]"

section \<open>Estimates\<close>

definition default_speed_us_per_gib :: u64 where
  "default_speed_us_per_gib = 4000"

definition stage_speed :: "u64 list \<Rightarrow> nat \<Rightarrow> u64" where
  "stage_speed speeds i = (if i < length speeds \<and> speeds ! i \<noteq> 0 then speeds ! i else default_speed_us_per_gib)"

definition estimate_token_ms :: "model_index \<Rightarrow> stage_assignment list \<Rightarrow> u64 list \<Rightarrow> rat list \<Rightarrow> rat" where
  "estimate_token_ms m plan speeds links =
     fold (\<lambda>rtt spent. rnd (spent + rnd (rtt / 2))) links
       (fold (\<lambda>i spent. rnd (spent + stage_read_ms m (plan ! i) (double_of_bytes (stage_speed speeds i))))
          [0..<length plan] 0)"

definition worker_speed :: "worker \<Rightarrow> speed_key \<Rightarrow> int \<Rightarrow> speed_estimate" where
  "worker_speed w key now =
     estimate_speed (pc_speeds (wk_hello w)) key now (double_of_u64 (pc_speed_us_per_gib (wk_hello w)))"

definition speed_number :: "speed_estimate \<Rightarrow> u64" where
  "speed_number e = (case se_us_per_gib e of Fin x \<Rightarrow> word_of_int (llround x) | _ \<Rightarrow> 0)"

definition measured_link :: "worker \<Rightarrow> worker \<Rightarrow> u32 option" where
  "measured_link a b =
     (let look = \<lambda>x y. map_option pl_rtt_ms (find (\<lambda>l. pk_peer_id (wk_candidate y) \<noteq> []
            \<and> pl_peer l = pk_peer_id (wk_candidate y)) (pc_links (wk_hello x)))
      in case look a b of Some ms \<Rightarrow> Some ms | None \<Rightarrow> look b a)"

definition rtt_number :: "worker \<Rightarrow> rat" where
  "rtt_number w = of_int (uint (pk_rtt_ms (wk_candidate w)))"

text \<open>The link from stage \<open>a\<close> to stage \<open>b\<close>, positions in \<open>team\<close>.\<close>

definition ring_link_ms :: "worker list \<Rightarrow> nat option \<Rightarrow> nat \<Rightarrow> nat \<Rightarrow> rat" where
  "ring_link_ms team proposer a b =
     (if proposer = Some a then rtt_number (team ! b)
      else if proposer = Some b then rtt_number (team ! a)
      else
        case measured_link (team ! a) (team ! b) of
          Some ms \<Rightarrow> of_int (uint ms)
        | None \<Rightarrow> rnd (rtt_number (team ! a) + rtt_number (team ! b)))"

definition route_estimate ::
    "model_index \<Rightarrow> speed_key \<Rightarrow> int \<Rightarrow> worker list \<Rightarrow> nat option \<Rightarrow> stage_assignment list \<Rightarrow> rat \<times> bool" where
  "route_estimate m key now team proposer plan =
     (let speeds = map (\<lambda>s. worker_speed (team ! sa_provider s) key now) plan;
          ring = map sa_provider plan;
          links = (if length plan > 1 then map (\<lambda>(a, b). ring_link_ms team proposer a b) (zip ring (rotate1 ring)) else [])
      in (estimate_token_ms m plan (map speed_number speeds) links, list_all se_measured speeds))"

section \<open>Standing aside\<close>

definition lead_order :: "'a list \<Rightarrow> nat \<Rightarrow> 'a list" where
  "lead_order others lead = take 8 (others ! lead # take lead others @ drop (Suc lead) others)"

definition faster_lead ::
    "nat \<Rightarrow> model_index \<Rightarrow> speed_key \<Rightarrow> int \<Rightarrow> placement_request \<Rightarrow> u32 \<Rightarrow> worker list \<Rightarrow> rat \<Rightarrow> nat \<Rightarrow> string option" where
  "faster_lead prec m key now q ctx others plan_ms lead =
     (if \<not> pc_replica_owner (wk_hello (others ! lead)) then None
      else
        let team = lead_order others lead
        in case plan_stages prec m (map (\<lambda>w. pc_offered_vram_mib (wk_hello w)) team) ctx (pr_sessions q)
                (pr_minimum_stages q) (Some 0) of
             None \<Rightarrow> None
           | Some alternative \<Rightarrow>
               let ms = fst (route_estimate m key now team None alternative)
               in if rnd (ms * rnd (1 + pr_yield_margin q)) < plan_ms
                  then Some (pc_id (wk_hello (team ! 0)) @ '' can lead a faster replica (''
                    @ dec_int (trunc ms) @ '' vs '' @ dec_int (trunc plan_ms) @ '' ms per token)'')
                  else None)"

definition stand_aside ::
    "nat \<Rightarrow> model_index \<Rightarrow> speed_key \<Rightarrow> int \<Rightarrow> placement_request \<Rightarrow> u32 \<Rightarrow> nat option \<Rightarrow> worker list \<Rightarrow> rat \<Rightarrow> string option" where
  "stand_aside prec m key now q ctx head team plan_ms =
     (if head \<noteq> None \<and> pr_yield_margin q > 0
      then first_some (faster_lead prec m key now q ctx (tl team) plan_ms) [0..<length (tl team)]
      else None)"

section \<open>Drafts and stage requests\<close>

definition draft_ok :: "worker \<Rightarrow> model_option \<Rightarrow> model_option \<Rightarrow> bool" where
  "draft_ok first chosen opt \<longleftrightarrow>
     \<not> (lowercase (mf_sha256 (mo_manifest opt)) = lowercase (mf_sha256 (mo_manifest chosen))
        \<or> mi_logical_bytes (mo_model opt) \<ge> mi_logical_bytes (mo_model chosen)
        \<or> mi_architecture (mo_model opt) \<noteq> ''qwen2'')
     \<and> offers_model (wk_hello first) (mf_sha256 (mo_manifest opt))"

definition choose_draft :: "placement_request \<Rightarrow> worker \<Rightarrow> model_option \<Rightarrow> model_option option" where
  "choose_draft q first chosen =
     (if pr_speculate q \<and> mi_architecture (mo_model chosen) = ''qwen2'' then
        fold (\<lambda>opt draft.
            if \<not> draft_ok first chosen opt then draft
            else case draft of
                None \<Rightarrow> Some opt
              | Some d \<Rightarrow> if mi_logical_bytes (mo_model opt) < mi_logical_bytes (mo_model d) then Some opt else draft)
          (pr_models q) None
      else None)"

definition route_activations :: "placement_request \<Rightarrow> worker list \<Rightarrow> stage_assignment list \<Rightarrow> dtype" where
  "route_activations q team plan =
     (if list_all (\<lambda>s. let hello = wk_hello (team ! sa_provider s)
           in if pr_activations q = dt_f16le then pc_f16_activations hello
              else if pr_activations q = dt_fp8e4m3 then pc_fp8_activations hello else True) plan
      then pr_activations q else dt_f32le)"

definition base_request ::
    "placement_request \<Rightarrow> model_option \<Rightarrow> fit \<Rightarrow> worker list \<Rightarrow> string \<Rightarrow> stage_request" where
  "base_request q chosen f team route_id =
     fresh_request\<lparr>sr_route_id := route_id, sr_model_sha256 := lowercase (mf_sha256 (mo_manifest chosen)),
       sr_context := ft_context f, sr_sessions := pr_sessions q,
       sr_activations := route_activations q team (ft_plan f)\<rparr>"

definition stage_request_at ::
    "stage_request \<Rightarrow> stage_assignment list \<Rightarrow> model_option option \<Rightarrow> nat \<Rightarrow> stage_request" where
  "stage_request_at base plan draft k =
     (let r = base\<lparr>sr_begin := sa_begin (plan ! k), sr_end := sa_end (plan ! k)\<rparr>
      in case draft of
           Some d \<Rightarrow> if k = 0 then r\<lparr>sr_draft_sha256 := lowercase (mf_sha256 (mo_manifest d))\<rparr> else r
         | None \<Rightarrow> r)"

section \<open>Attempts\<close>

record placed_stage =
  pg_worker_id :: string
  pg_peer_id :: string
  pg_begin :: int
  pg_end :: int
  pg_rtt_ms :: u32
  pg_relayed :: bool

record placed_route =
  pd_route_id :: string
  pd_manifest :: manifest
  pd_draft_model_id :: string
  pd_draft_sha256 :: string
  pd_estimated_token_ms :: rat
  pd_context :: u32
  pd_estimate_measured :: bool
  pd_hidden :: u32
  pd_stage_endpoints :: "string list"
  pd_ring_targets :: "string list"
  pd_peer_ids :: "string list"
  pd_loop_target :: string
  pd_stages :: "placed_stage list"

text \<open>The messages an attempt sends, for each the position of the worker.\<close>

datatype sent = Sent_reserve nat stage_request | Sent_release nat string | Sent_assign nat stage_request

record place_state =
  ps_workers :: "worker list"
  ps_attempts :: nat
  ps_refusals :: nat
  ps_rejected_links :: nat
  ps_sent :: "sent list"

datatype place_result =
    Placed placed_route
  | Previews "route_preview list"
  | Faster_elsewhere string
  | Failed string

definition recheck_worker :: "outside \<Rightarrow> nat \<Rightarrow> worker \<Rightarrow> worker" where
  "recheck_worker ou n w =
     (if \<not> wk_recheck w then w
      else case open_worker (ou_now ou n) (ou_greet ou n (wk_candidate w)) (wk_candidate w) of
          Some w' \<Rightarrow> w'
        | None \<Rightarrow> w\<lparr>wk_recheck := False, wk_connected := False\<rparr>)"

text \<open>A worker that the link check leaves out.\<close>

definition leave_out_worker :: "string \<Rightarrow> worker \<Rightarrow> worker" where
  "leave_out_worker control w =
     (if pk_control (wk_candidate w) = control then w\<lparr>wk_connected := False, wk_recheck := False\<rparr> else w)"

definition placed_of ::
    "bool \<Rightarrow> model_option \<Rightarrow> fit \<Rightarrow> worker list \<Rightarrow> model_option option \<Rightarrow> string \<Rightarrow> rat \<Rightarrow> bool \<Rightarrow> placed_route" where
  "placed_of p2p chosen f team draft route_id plan_ms plan_measured =
     (let workers = map (\<lambda>s. team ! sa_provider s) (ft_plan f);
          targets = map (\<lambda>w. pc_ring_endpoint (wk_hello w)) workers
      in \<lparr>pd_route_id = route_id, pd_manifest = mo_manifest chosen,
          pd_draft_model_id = (case draft of Some d \<Rightarrow> mf_model_id (mo_manifest d) | None \<Rightarrow> []),
          pd_draft_sha256 = (case draft of Some d \<Rightarrow> lowercase (mf_sha256 (mo_manifest d)) | None \<Rightarrow> []),
          pd_estimated_token_ms = plan_ms, pd_context = ft_context f, pd_estimate_measured = plan_measured,
          pd_hidden = mf_hidden (mo_manifest chosen),
          pd_stage_endpoints = map (\<lambda>w. pk_control (wk_candidate w)) workers,
          pd_ring_targets = [] # tl targets,
          pd_peer_ids = (if p2p then map (\<lambda>w. pk_peer_id (wk_candidate w)) workers else []),
          pd_loop_target = hd targets,
          pd_stages = map (\<lambda>s. let w = team ! sa_provider s
            in \<lparr>pg_worker_id = pc_id (wk_hello w), pg_peer_id = pk_peer_id (wk_candidate w), pg_begin = sa_begin s,
                pg_end = sa_end s, pg_rtt_ms = pk_rtt_ms (wk_candidate w), pg_relayed = pk_relayed (wk_candidate w)\<rparr>)
            (ft_plan f)\<rparr>)"

text \<open>The worker of stage \<open>k\<close>, and what it is asked for.\<close>

definition planned_worker :: "fit \<Rightarrow> nat \<Rightarrow> nat" where
  "planned_worker f k = ft_pool f ! sa_provider (ft_plan f ! k)"

definition plan_draft :: "placement_request \<Rightarrow> model_option \<Rightarrow> fit \<Rightarrow> worker list \<Rightarrow> model_option option" where
  "plan_draft q chosen f ws = choose_draft q (ws ! planned_worker f 0) chosen"

definition plan_request ::
    "outside \<Rightarrow> placement_request \<Rightarrow> nat \<Rightarrow> model_option \<Rightarrow> fit \<Rightarrow> worker list \<Rightarrow> nat \<Rightarrow> stage_request" where
  "plan_request ou q n chosen f ws k =
     stage_request_at
       (base_request q chosen f (map ((!) ws) (ft_pool f)) (random_route_id (ou_random ou n)))
       (ft_plan f) (plan_draft q chosen f ws) k"

definition reserve_request ::
    "outside \<Rightarrow> placement_request \<Rightarrow> nat \<Rightarrow> model_option \<Rightarrow> fit \<Rightarrow> worker list \<Rightarrow> nat \<Rightarrow> stage_request" where
  "reserve_request ou q n chosen f ws k = (plan_request ou q n chosen f ws k)\<lparr>sr_lease_ms := pr_lease_ms q\<rparr>"

definition reserve_error ::
    "outside \<Rightarrow> placement_request \<Rightarrow> nat \<Rightarrow> model_option \<Rightarrow> fit \<Rightarrow> worker list \<Rightarrow> nat \<Rightarrow> string" where
  "reserve_error ou q n chosen f ws k =
     task_error (ou_reserve ou n (wk_candidate (ws ! planned_worker f k)) (reserve_request ou q n chosen f ws k))
       (\<lambda>reply. fr_type reply = T_ack) ''unexpected reservation reply''"

definition load_error ::
    "outside \<Rightarrow> placement_request \<Rightarrow> nat \<Rightarrow> model_option \<Rightarrow> fit \<Rightarrow> worker list \<Rightarrow> nat \<Rightarrow> string" where
  "load_error ou q n chosen f ws k =
     task_error (ou_load ou n (wk_candidate (ws ! planned_worker f k)) (plan_request ou q n chosen f ws k))
       (\<lambda>reply. fr_type reply = T_stage_ready \<and> string_of (fr_payload reply) = random_route_id (ou_random ou n))
       ''unexpected assignment reply''"

text \<open>
  One worker after a round of reservations in which some worker refused: a refusal closes the
  connection, and a worker that agreed is released, or closed when the release fails.
\<close>

definition after_refusal ::
    "outside \<Rightarrow> nat \<Rightarrow> string \<Rightarrow> fit \<Rightarrow> string list \<Rightarrow> nat \<Rightarrow> place_state \<Rightarrow> place_state" where
  "after_refusal ou n route_id f errors k st =
     (let i = planned_worker f k; w = ps_workers st ! i
      in if errors ! k \<noteq> [] then
           let busy = (errors ! k = ''busy'')
           in st\<lparr>ps_workers := (ps_workers st)[i := w\<lparr>wk_connected := False, wk_recheck := busy\<rparr>],
                 ps_refusals := ps_refusals st + (if busy then 1 else 0)\<rparr>
         else
           let st = st\<lparr>ps_sent := ps_sent st @ [Sent_release i route_id]\<rparr>
           in if (case read_reply (ou_release ou n (wk_candidate w) route_id) of
                   Inl _ \<Rightarrow> False | Inr reply \<Rightarrow> fr_type reply = T_ack)
              then st
              else st\<lparr>ps_workers := (ps_workers st)[i := w\<lparr>wk_connected := False\<rparr>]\<rparr>)"

text \<open>Reserving and loading a chosen plan; \<^const>\<open>None\<close> asks for another attempt.\<close>

definition reserve_and_load ::
    "outside \<Rightarrow> placement_request \<Rightarrow> bool \<Rightarrow> nat \<Rightarrow> model_option \<Rightarrow> fit \<Rightarrow> rat \<Rightarrow> bool \<Rightarrow> place_state
     \<Rightarrow> place_result option \<times> place_state" where
  "reserve_and_load ou q p2p n chosen f plan_ms plan_measured st =
     (let ws = ps_workers st;
          route_id = random_route_id (ou_random ou n);
          stages = [0..<length (ft_plan f)];
          errors = map (reserve_error ou q n chosen f ws) stages;
          st = st\<lparr>ps_sent := ps_sent st
            @ map (\<lambda>k. Sent_reserve (planned_worker f k) (reserve_request ou q n chosen f ws k)) stages\<rparr>
      in if list_ex (\<lambda>e. e \<noteq> []) errors
         then (None, fold (after_refusal ou n route_id f errors) stages st)
         else
           let loaded = load_error ou q n chosen f ws;
               st = st\<lparr>ps_sent := ps_sent st
                 @ map (\<lambda>k. Sent_assign (planned_worker f k) (plan_request ou q n chosen f ws k)) stages\<rparr>
           in case find (\<lambda>k. loaded k \<noteq> []) stages of
                Some k \<Rightarrow> (Some (Failed (''worker '' @ pc_id (wk_hello (ws ! planned_worker f k))
                  @ '' could not load its stage: '' @ loaded k)), st)
              | None \<Rightarrow> (Some (Placed (placed_of p2p chosen f (map ((!) ws) (ft_pool f)) (plan_draft q chosen f ws)
                  route_id plan_ms plan_measured)), st))"

definition place_attempt ::
    "(string \<Rightarrow> (nat \<times> nat \<times> nat \<times> nat) option) \<Rightarrow> nat \<Rightarrow> outside \<Rightarrow> placement_request \<Rightarrow> bool \<Rightarrow> nat \<Rightarrow> place_state
     \<Rightarrow> place_result option \<times> place_state" where
  "place_attempt pton prec ou q p2p n st =
     (let st = st\<lparr>ps_attempts := Suc (ps_attempts st), ps_workers := map (recheck_worker ou n) (ps_workers st)\<rparr>;
          now = ou_now ou n
      in if pr_previews q then (Some (Previews (route_previews pton prec now (ps_workers st) q)), st)
         else
           case choose_model pton prec now (ps_workers st) q of
             None \<Rightarrow> (Some (Failed ''no placement fits the available workers''), st)
           | Some (chosen, f) \<Rightarrow>
               let team = map ((!) (ps_workers st)) (ft_pool f);
                   key = \<lparr>sk_model_sha256 = lowercase (mf_sha256 (mo_manifest chosen)), sk_phase = Decode,
                     sk_context = context_bucket (ft_context f), sk_sessions = sessions_bucket (pr_sessions q)\<rparr>;
                   (plan_ms, measured) = route_estimate (mo_model chosen) key now team
                     (if ft_head f \<noteq> None then Some 0 else None) (ft_plan f)
               in case stand_aside prec (mo_model chosen) key now q (ft_context f) (ft_head f) team plan_ms of
                    Some why \<Rightarrow> (Some (Faster_elsewhere why), st)
                  | None \<Rightarrow>
                      let leave_out = (case ou_check_route ou of None \<Rightarrow> []
                            | Some check \<Rightarrow> check (map (\<lambda>s. wk_candidate (team ! sa_provider s)) (ft_plan f)))
                      in if leave_out \<noteq> []
                         then (None, st\<lparr>ps_workers := map (leave_out_worker leave_out) (ps_workers st),
                                ps_rejected_links := Suc (ps_rejected_links st)\<rparr>)
                         else reserve_and_load ou q p2p n chosen f plan_ms measured st)"

fun place_loop ::
    "(string \<Rightarrow> (nat \<times> nat \<times> nat \<times> nat) option) \<Rightarrow> nat \<Rightarrow> outside \<Rightarrow> placement_request \<Rightarrow> bool \<Rightarrow> nat \<Rightarrow> nat
     \<Rightarrow> place_state \<Rightarrow> place_result \<times> place_state" where
  "place_loop pton prec ou q p2p 0 n st =
     (Failed (''could not reserve a placement after '' @ dec (pr_attempts q) @ '' attempts''), st)"
| "place_loop pton prec ou q p2p (Suc left) n st =
     (case place_attempt pton prec ou q p2p n st of
        (Some r, st) \<Rightarrow> (r, st)
      | (None, st) \<Rightarrow> place_loop pton prec ou q p2p left (Suc n) st)"

definition place_route ::
    "(string \<Rightarrow> (nat \<times> nat \<times> nat \<times> nat) option) \<Rightarrow> nat \<Rightarrow> outside \<Rightarrow> placement_candidate list \<Rightarrow> placement_request
     \<Rightarrow> place_result \<times> place_state" where
  "place_route pton prec ou candidates q =
     (let start = \<lparr>ps_workers = [], ps_attempts = 0, ps_refusals = 0, ps_rejected_links = 0, ps_sent = []\<rparr>
      in if candidates = [] \<or> pr_models q = [] \<or> pr_sessions q = 0
            \<or> list_ex (\<lambda>opt. mf_hidden (mo_manifest opt) = 0) (pr_models q)
         then (Failed ''placement needs candidates, models with a hidden size and sessions'', start)
         else if list_ex (\<lambda>c. (pk_peer_id c = []) \<noteq> (pk_peer_id (hd candidates) = [])) candidates
         then (Failed ''candidates must be all libp2p or all direct'', start)
         else
           place_loop pton prec ou q (pk_peer_id (hd candidates) \<noteq> []) (pr_attempts q) 0
             (start\<lparr>ps_workers := List.map_filter (\<lambda>c. open_worker (ou_now ou 0) (ou_greet ou 0 c) c) candidates\<rparr>))"

section \<open>What a placed route promises\<close>

lemma random_route_id_hex: "hex_string (random_route_id device) 32"
proof -
  have "list_all is_hex ''0123456789abcdef''" by code_simp
  then have "is_hex (''0123456789abcdef'' ! k)" if "k < 16" for k
    using that by (simp add: list_all_length)
  then show ?thesis by (auto simp: hex_string_def random_route_id_def list_all_iff)
qed

text \<open>A worker that may hold a stage of a route for a model and context.\<close>

definition serves ::
    "(string \<Rightarrow> (nat \<times> nat \<times> nat \<times> nat) option) \<Rightarrow> placement_request \<Rightarrow> model_option \<Rightarrow> u32 \<Rightarrow> worker \<Rightarrow> bool" where
  "serves pton q opt ctx w \<longleftrightarrow>
     (let hello = wk_hello w; peer = pk_peer_id (wk_candidate w)
      in pc_state hello = ''available'' \<and> pc_runtime_abi hello = pr_runtime_abi q
         \<and> offers_model hello (mf_sha256 (mo_manifest opt)) \<and> ctx \<le> pc_max_context hello
         \<and> pr_sessions q \<le> pc_max_sessions hello
         \<and> (if peer = [] then valid_private_endpoint pton (pc_ring_endpoint hello)
            else valid_p2p_target (pc_ring_endpoint hello) \<and> peer_of (pc_ring_endpoint hello) = peer))"

lemma unusable_serves: "unusable pton w q opt ctx = [] \<Longrightarrow> \<not> pr_previews q \<Longrightarrow> serves pton q opt ctx w"
  by (auto simp: unusable_def serves_def Let_def reclaimable_def not_less split: if_splits)

text \<open>The planned workers, each with its stage.\<close>

definition stage_workers :: "worker list \<Rightarrow> fit \<Rightarrow> worker list" where
  "stage_workers ws f = map (\<lambda>s. ws ! (ft_pool f ! sa_provider s)) (ft_plan f)"

definition route_for ::
    "(string \<Rightarrow> (nat \<times> nat \<times> nat \<times> nat) option) \<Rightarrow> worker list \<Rightarrow> placement_request \<Rightarrow> model_option \<Rightarrow> fit
     \<Rightarrow> placed_route \<Rightarrow> bool" where
  "route_for pton ws q opt f r \<longleftrightarrow>
     pd_manifest r = mo_manifest opt \<and> pd_context r = ft_context f
     \<and> map (\<lambda>s. (pg_begin s, pg_end s)) (pd_stages r) = map (\<lambda>s. (sa_begin s, sa_end s)) (ft_plan f)
     \<and> pd_stage_endpoints r = map (\<lambda>w. pk_control (wk_candidate w)) (stage_workers ws f)
     \<and> list_all (serves pton q opt (ft_context f)) (stage_workers ws f)"

lemma placed_of_route:
  assumes "fit_ok pton ws q opt f" and "\<not> pr_previews q"
  shows "route_for pton ws q opt f (placed_of p2p opt f (map ((!) ws) (ft_pool f)) draft route_id ms measured)"
proof -
  have "sa_provider s < length (ft_pool f)" if "s \<in> set (ft_plan f)" for s
    using assms(1) that by (auto simp: fit_ok_def valid_plan_def list_all_iff stage_ok_def)
  moreover from this have "serves pton q opt (ft_context f) (ws ! (ft_pool f ! sa_provider s))"
    if "s \<in> set (ft_plan f)" for s
    using assms that by (intro unusable_serves) (auto simp: fit_ok_def)
  ultimately show ?thesis
    by (auto simp: route_for_def placed_of_def stage_workers_def list_all_iff Let_def)
qed

lemma plan_request_fields:
  "sr_route_id (plan_request ou q n opt f ws k) = random_route_id (ou_random ou n)"
  "sr_begin (plan_request ou q n opt f ws k) = sa_begin (ft_plan f ! k)"
  "sr_end (plan_request ou q n opt f ws k) = sa_end (ft_plan f ! k)"
  "sr_context (plan_request ou q n opt f ws k) = ft_context f"
  "sr_model_sha256 (plan_request ou q n opt f ws k) = lowercase (mf_sha256 (mo_manifest opt))"
  by (simp_all add: plan_request_def stage_request_at_def base_request_def Let_def split: option.split)

text \<open>
  When loading succeeds, every stage was reserved and assigned for this route, and every answer
  was taken for an agreement.
\<close>

lemma reserve_and_load_Placed:
  assumes "reserve_and_load ou q p2p n opt f ms measured st = (Some (Placed r), st')"
  shows "r = placed_of p2p opt f (map ((!) (ps_workers st)) (ft_pool f)) (plan_draft q opt f (ps_workers st))
      (random_route_id (ou_random ou n)) ms measured"
    "ps_workers st' = ps_workers st"
    "\<forall>k < length (ft_plan f). reserve_error ou q n opt f (ps_workers st) k = [] \<and> load_error ou q n opt f (ps_workers st) k = []
      \<and> Sent_reserve (planned_worker f k) (reserve_request ou q n opt f (ps_workers st) k) \<in> set (ps_sent st')
      \<and> Sent_assign (planned_worker f k) (plan_request ou q n opt f (ps_workers st) k) \<in> set (ps_sent st')"
proof -
  have "list_all (\<lambda>e. e = []) (map (reserve_error ou q n opt f (ps_workers st)) [0..<length (ft_plan f)])"
      "find (\<lambda>k. load_error ou q n opt f (ps_workers st) k \<noteq> []) [0..<length (ft_plan f)] = None"
    and r: "r = placed_of p2p opt f (map ((!) (ps_workers st)) (ft_pool f)) (plan_draft q opt f (ps_workers st))
      (random_route_id (ou_random ou n)) ms measured" "ps_workers st' = ps_workers st"
    and sent: "ps_sent st' = ps_sent st
      @ map (\<lambda>k. Sent_reserve (planned_worker f k) (reserve_request ou q n opt f (ps_workers st) k)) [0..<length (ft_plan f)]
      @ map (\<lambda>k. Sent_assign (planned_worker f k) (plan_request ou q n opt f (ps_workers st) k)) [0..<length (ft_plan f)]"
    using assms by (auto simp: reserve_and_load_def Let_def list_ex_iff list_all_iff split: if_splits option.splits)
  then show "\<forall>k < length (ft_plan f). reserve_error ou q n opt f (ps_workers st) k = [] \<and> load_error ou q n opt f (ps_workers st) k = []
      \<and> Sent_reserve (planned_worker f k) (reserve_request ou q n opt f (ps_workers st) k) \<in> set (ps_sent st')
      \<and> Sent_assign (planned_worker f k) (plan_request ou q n opt f (ps_workers st) k) \<in> set (ps_sent st')"
    by (auto simp: list_all_iff find_None_iff)
  show "r = placed_of p2p opt f (map ((!) (ps_workers st)) (ft_pool f)) (plan_draft q opt f (ps_workers st))
      (random_route_id (ou_random ou n)) ms measured" "ps_workers st' = ps_workers st"
    using r by auto
qed

text \<open>
  A stage agreed to a route: the messages that its worker was sent carry the route's identifier and
  the stage's layers; the worker acknowledged the reservation, and answered the assignment with a
  ready frame that repeats the identifier. An answer that fails with an empty text is taken for
  either.
\<close>

definition silent :: "string + frame \<Rightarrow> bool" where
  "silent reply \<longleftrightarrow> reply = Inl [] \<or> (\<exists>g. reply = Inr g \<and> fr_type g = T_error \<and> fr_payload g = [])"

definition stage_agreed :: "outside \<Rightarrow> nat \<Rightarrow> place_state \<Rightarrow> string \<Rightarrow> fit \<Rightarrow> nat \<Rightarrow> bool" where
  "stage_agreed ou n st route_id f k \<longleftrightarrow>
     (let i = planned_worker f k; c = wk_candidate (ps_workers st ! i); stage = ft_plan f ! k in
      \<exists>asked given. Sent_reserve i asked \<in> set (ps_sent st) \<and> Sent_assign i given \<in> set (ps_sent st)
       \<and> sr_route_id asked = route_id \<and> sr_begin asked = sa_begin stage \<and> sr_end asked = sa_end stage
       \<and> sr_route_id given = route_id \<and> sr_begin given = sa_begin stage \<and> sr_end given = sa_end stage
       \<and> (silent (ou_reserve ou n c asked) \<or> (\<exists>g. ou_reserve ou n c asked = Inr g \<and> fr_type g = T_ack))
       \<and> (silent (ou_load ou n c given) \<or> (\<exists>g. ou_load ou n c given = Inr g \<and> fr_type g = T_stage_ready
            \<and> string_of (fr_payload g) = route_id)))"

lemma task_error_empty:
  "task_error r expected otherwise = [] \<Longrightarrow> otherwise \<noteq> [] \<Longrightarrow> silent r \<or> (\<exists>g. r = Inr g \<and> expected g)"
  by (auto simp: task_error_def read_reply_def silent_def string_of_def split: sum.splits if_splits)

lemma stage_agreed_of:
  assumes "reserve_error ou q n opt f (ps_workers st) k = []" "load_error ou q n opt f (ps_workers st) k = []"
    and "Sent_reserve (planned_worker f k) (reserve_request ou q n opt f (ps_workers st) k) \<in> set (ps_sent st)"
      "Sent_assign (planned_worker f k) (plan_request ou q n opt f (ps_workers st) k) \<in> set (ps_sent st)"
  shows "stage_agreed ou n st (random_route_id (ou_random ou n)) f k"
proof -
  have "sr_route_id (reserve_request ou q n opt f ws k) = random_route_id (ou_random ou n)"
    "sr_begin (reserve_request ou q n opt f ws k) = sa_begin (ft_plan f ! k)"
    "sr_end (reserve_request ou q n opt f ws k) = sa_end (ft_plan f ! k)" for ws
    by (simp_all add: reserve_request_def plan_request_fields)
  with assms(3,4) task_error_empty[OF assms(1)[unfolded reserve_error_def]]
    task_error_empty[OF assms(2)[unfolded load_error_def]] show ?thesis
    unfolding stage_agreed_def Let_def using plan_request_fields(1,2,3) by fastforce
qed

lemma place_attempt_Placed:
  assumes "place_attempt pton prec ou q p2p n st = (Some (Placed r), st')"
    and kv: "\<forall>opt \<in> set (pr_models q). \<forall>ctx \<in> set (context_ladder opt q).
      kv_bytes (mo_model opt) 0 (sint (mi_layers (mo_model opt))) ctx (pr_sessions q) \<noteq> 0"
  shows "\<exists>opt \<in> set (pr_models q). \<exists>f. fit_ok pton (ps_workers st') q opt f \<and> route_for pton (ps_workers st') q opt f r
    \<and> pd_route_id r = random_route_id (ou_random ou n)
    \<and> (\<forall>k < length (ft_plan f). stage_agreed ou n st' (pd_route_id r) f k)"
proof -
  define st1 where "st1 = st\<lparr>ps_attempts := Suc (ps_attempts st), ps_workers := map (recheck_worker ou n) (ps_workers st)\<rparr>"
  have np: "\<not> pr_previews q" using assms(1) by (auto simp: place_attempt_def Let_def split: if_splits)
  obtain opt f where c: "choose_model pton prec (ou_now ou n) (ps_workers st1) q = Some (opt, f)"
    using assms(1) np by (auto simp: place_attempt_def Let_def st1_def split: option.splits)
  obtain ms measured where l: "reserve_and_load ou q p2p n opt f ms measured st1 = (Some (Placed r), st')"
    using assms(1) np c
    by (auto simp: place_attempt_def Let_def st1_def[symmetric] split: option.splits prod.splits if_splits)
  have ok: "opt \<in> set (pr_models q)" "fit_ok pton (ps_workers st1) q opt f" using choose_model_ok[OF c kv] by auto
  note rl = reserve_and_load_Placed[OF l]
  have "route_for pton (ps_workers st1) q opt f r" unfolding rl(1) by (rule placed_of_route[OF ok(2) np])
  moreover have "pd_route_id r = random_route_id (ou_random ou n)" by (simp add: rl(1) placed_of_def Let_def)
  moreover have "stage_agreed ou n st' (random_route_id (ou_random ou n)) f k" if "k < length (ft_plan f)" for k
    using rl(2,3) that by (intro stage_agreed_of[of ou q n opt f st' k]) auto
  ultimately show ?thesis using ok rl(2) by (intro bexI[of _ opt] exI[of _ f]) auto
qed

lemma place_loop_Placed:
  assumes "place_loop pton prec ou q p2p left n st = (Placed r, st')"
  shows "\<exists>n st. place_attempt pton prec ou q p2p n st = (Some (Placed r), st')"
  using assms
proof (induction left arbitrary: n st)
  case (Suc left)
  then show ?case by (auto split: prod.splits option.splits)
qed simp

section \<open>A refused round gives everything back\<close>

text \<open>A worker is given back when its connection is closed or it was told to release the route.\<close>

definition given_back :: "string \<Rightarrow> place_state \<Rightarrow> nat \<Rightarrow> bool" where
  "given_back route_id st i \<longleftrightarrow> \<not> wk_connected (ps_workers st ! i) \<or> Sent_release i route_id \<in> set (ps_sent st)"

lemma after_refusal_length [simp]: "length (ps_workers (after_refusal ou n route_id f errors k st)) = length (ps_workers st)"
  by (simp add: after_refusal_def Let_def)

lemma closed_update: "wk_connected (ws[j := w] ! i) \<Longrightarrow> i < length ws \<Longrightarrow> \<not> wk_connected w \<Longrightarrow> wk_connected (ws ! i)"
  by (cases "j = i") auto

text \<open>What a step does: it only closes connections, of its own worker, and only adds messages.\<close>

lemma after_refusal_steps:
  "wk_connected (ps_workers (after_refusal ou n route_id f errors k st) ! i) \<Longrightarrow> i < length (ps_workers st) \<Longrightarrow>
     wk_connected (ps_workers st ! i)"
  "set (ps_sent st) \<subseteq> set (ps_sent (after_refusal ou n route_id f errors k st))"
  by (auto simp: after_refusal_def Let_def dest!: closed_update split: if_splits)

lemma after_refusal_keeps:
  assumes "given_back route_id st i" and "i < length (ps_workers st)"
  shows "given_back route_id (after_refusal ou n route_id f errors k st) i"
  using assms after_refusal_steps[where ou = ou and n = n and route_id = route_id and f = f and errors = errors and k = k and st = st]
  by (auto simp: given_back_def)

lemma after_refusal_gives_back:
  assumes "planned_worker f k < length (ps_workers st)"
  shows "given_back route_id (after_refusal ou n route_id f errors k st) (planned_worker f k)"
  using assms by (auto simp: given_back_def after_refusal_def Let_def split: if_splits)

lemma refusals_give_back:
  "\<forall>k \<in> set ks. planned_worker f k < length (ps_workers st) \<Longrightarrow>
   (\<forall>i < length (ps_workers st). given_back route_id st i \<longrightarrow> given_back route_id (fold (after_refusal ou n route_id f errors) ks st) i)
   \<and> (\<forall>k \<in> set ks. given_back route_id (fold (after_refusal ou n route_id f errors) ks st) (planned_worker f k))"
proof (induction ks arbitrary: st)
  case (Cons k ks)
  let ?st = "after_refusal ou n route_id f errors k st"
  have ih: "(\<forall>i < length (ps_workers ?st). given_back route_id ?st i \<longrightarrow>
        given_back route_id (fold (after_refusal ou n route_id f errors) ks ?st) i)
      \<and> (\<forall>k \<in> set ks. given_back route_id (fold (after_refusal ou n route_id f errors) ks ?st) (planned_worker f k))"
    by (rule Cons.IH) (use Cons.prems in simp)
  have k: "planned_worker f k < length (ps_workers st)" using Cons.prems by simp
  show ?case
    using ih after_refusal_keeps[of route_id st] after_refusal_gives_back[OF k] k by simp
qed simp

section \<open>Agreeing workers are placed\<close>

lemma reserve_and_load_agrees:
  assumes "\<forall>k < length (ft_plan f). reserve_error ou q n opt f (ps_workers st) k = []
    \<and> load_error ou q n opt f (ps_workers st) k = []"
  shows "\<exists>r st'. reserve_and_load ou q p2p n opt f ms measured st = (Some (Placed r), st')"
proof -
  have "\<not> list_ex (\<lambda>e. e \<noteq> []) (map (reserve_error ou q n opt f (ps_workers st)) [0..<length (ft_plan f)])"
      "find (\<lambda>k. load_error ou q n opt f (ps_workers st) k \<noteq> []) [0..<length (ft_plan f)] = None"
    using assms by (auto simp: list_ex_iff find_None_iff)
  then show ?thesis unfolding reserve_and_load_def Let_def by simp
qed

lemma place_attempt_agrees:
  assumes "\<not> pr_previews q" and "pr_yield_margin q \<le> 0" and "ou_check_route ou = None"
    and "choose_model pton prec (ou_now ou n) (map (recheck_worker ou n) (ps_workers st)) q = Some (opt, f)"
    and "\<And>k. reserve_error ou q n opt f (map (recheck_worker ou n) (ps_workers st)) k = []"
    and "\<And>k. load_error ou q n opt f (map (recheck_worker ou n) (ps_workers st)) k = []"
  shows "\<exists>r st'. place_attempt pton prec ou q p2p n st = (Some (Placed r), st')"
proof -
  define st1 where "st1 = st\<lparr>ps_attempts := Suc (ps_attempts st), ps_workers := map (recheck_worker ou n) (ps_workers st)\<rparr>"
  have "stand_aside prec m key now q ctx head team ms = None" for m key now ctx head team ms
    using assms(2) by (simp add: stand_aside_def)
  moreover have "\<exists>r st'. reserve_and_load ou q p2p n opt f ms measured st1 = (Some (Placed r), st')" for ms measured
    by (rule reserve_and_load_agrees) (simp add: assms(5,6) st1_def)
  moreover have "choose_model pton prec (ou_now ou n) (ps_workers st1) q = Some (opt, f)"
    using assms(4) by (simp add: st1_def)
  ultimately show ?thesis
    using assms(1,3) unfolding place_attempt_def Let_def st1_def[symmetric] by (simp split: prod.split)
qed

section \<open>Properties\<close>


text \<open>
  C12. A round of reservations that fails leaves nothing held: when some planned worker refuses,
  the connection of every planned worker is closed (which ends its lease) or the worker was sent a
  release of this route, whatever the workers answer.
\<close>

theorem refused_round_gives_back:
  assumes "reserve_and_load ou q p2p n opt f ms measured st = (None, st')"
    and "k < length (ft_plan f)" and "\<forall>j < length (ft_plan f). planned_worker f j < length (ps_workers st)"
  shows "\<not> wk_connected (ps_workers st' ! planned_worker f k)
    \<or> Sent_release (planned_worker f k) (random_route_id (ou_random ou n)) \<in> set (ps_sent st')"
proof -
  obtain errors st0 where "st' = fold (after_refusal ou n (random_route_id (ou_random ou n)) f errors) [0..<length (ft_plan f)] st0"
      "ps_workers st0 = ps_workers st"
    using assms(1) by (auto simp: reserve_and_load_def Let_def split: if_splits option.splits)
  with refusals_give_back[of "[0..<length (ft_plan f)]" f st0 "random_route_id (ou_random ou n)" ou n errors] assms(2,3)
  show ?thesis by (auto simp: given_back_def)
qed

text \<open>
  An error frame without a text counts as an agreement: the error of a task is its exception's
  text, and the empty text means success, so a worker that answers a reservation or an assignment
  with an empty error frame is taken to have accepted.
\<close>

theorem empty_error_is_agreement:
  "task_error (Inr (error_frame request [])) expected otherwise = []"
  by (simp add: task_error_def read_reply_def error_frame_def bytes_of_def string_of_def fresh_frame_def)

section \<open>A placement that succeeds\<close>

text \<open>One worker on this machine that holds both layers of the small model on disk.\<close>

definition route_greeting :: provider_capability where
  "route_greeting = fresh_capability\<lparr>pc_id := ''w1'', pc_gpu := ''RTX'', pc_offered_vram_mib := 2048,
     pc_ring_endpoint := ''127.0.0.1:9'', pc_state := ''available'', pc_runtime_abi := ''abi'',
     pc_max_context := 8192, pc_max_sessions := 4, pc_models := [replicate 64 CHR ''0''],
     pc_cached := [\<lparr>cg_model_sha256 = replicate 64 CHR ''0'', cg_begin = 0, cg_end = 2\<rparr>]\<rparr>"

definition route_candidate :: placement_candidate where
  "route_candidate = \<lparr>pk_control = ''127.0.0.1:9'', pk_peer_id = [], pk_rtt_ms = 1, pk_relayed = False,
     pk_offered_mib = 2048, pk_local = False, pk_busy = False\<rparr>"

definition route_request :: placement_request where
  "route_request = ladder_request\<lparr>pr_models := [ladder_option 100 0], pr_context := 100, pr_maximum_stages := 1,
     pr_attempts := 1\<rparr>"

definition agreeing :: outside where
  "agreeing = \<lparr>ou_greet = \<lambda>_ _. Some (fresh_frame\<lparr>fr_type := T_provider_available,
       fr_payload := bytes_of (available_message route_greeting 0)\<rparr>),
     ou_now = \<lambda>_. 0, ou_random = \<lambda>_ i. i, ou_check_route = None,
     ou_reserve = \<lambda>_ _ _. Inr (fresh_frame\<lparr>fr_type := T_ack\<rparr>),
     ou_release = \<lambda>_ _ _. Inr (fresh_frame\<lparr>fr_type := T_ack\<rparr>),
     ou_load = \<lambda>_ _ req. Inr (fresh_frame\<lparr>fr_type := T_stage_ready, fr_payload := bytes_of (sr_route_id req)\<rparr>)\<rparr>"

definition route_worker :: worker where
  "route_worker = \<lparr>wk_candidate = route_candidate, wk_connected = True, wk_hello = route_greeting,
     wk_order_key = ''w1'', wk_recheck = False\<rparr>"

lemma string_of_bytes_of: "string_of (bytes_of s) = s"
proof -
  have "unat (of_char c :: u8) = of_char c" for c
  proof -
    have "(of_char c :: nat) < 2 ^ 8" using nat_of_char_less_256[of c] by simp
    then have "unat (word_of_nat (of_char c) :: u8) = of_char c"
      by (simp only: unsigned_of_nat) (simp add: take_bit_nat_eq_self)
    then show ?thesis by (simp only: of_nat_of_char)
  qed
  then show ?thesis by (simp add: string_of_def bytes_of_def comp_def)
qed

lemma route_greeting_good: "good_greeting route_greeting 0"
  by code_simp

lemma route_worker_opens: "open_worker (ou_now agreeing n) (ou_greet agreeing n c) route_candidate = Some route_worker"
  using greeting_parses[OF route_greeting_good, of 0]
  by (simp add: open_worker_def agreeing_def string_of_bytes_of route_worker_def route_candidate_def
      route_greeting_def fresh_capability_def)

lemma route_worker_usable: "unusable demo_pton route_worker route_request (ladder_option 100 0) 100 = []"
  by code_simp

text \<open>A pool of one candidate is that candidate.\<close>

lemma single_pool:
  assumes "length cs = 1" and "sq_pool_limit q \<noteq> 0"
  shows "search_pool cs q = [0]"
proof -
  have p: "distinct (search_pool cs q)" "set (search_pool cs q) \<subseteq> {..<1}" "1 \<le> length (search_pool cs q)"
    using search_pool_ok(1-3)[where cs = cs and q = q] assms by auto
  then show ?thesis by (cases "search_pool cs q"; cases "tl (search_pool cs q)") auto
qed

lemma floor_plan_Some: "\<exists>r'. floor_plan prec m found sq (Some r) = Some r'"
  by (simp add: floor_plan_def Let_def split: option.split)

lemma route_model: "mo_model (ladder_option 100 0) = small_model"
  by (simp add: ladder_option_def small_model_def)

lemma route_result:
  assumes "cd_offered_mib c = 2048" and "cd_cached c = [(0, 2)]" and "sq_context sq = 100" and "sq_sessions sq = 1"
    and "sq_minimum_stages sq = 1" and "sq_maximum_stages sq = 1" and "sq_head sq = None" and "sq_pool_limit sq = 12"
  shows "\<exists>r. context_result prec small_model [c] sq = Some r"
proof -
  have pool: "search_pool [c] sq = [0]" by (rule single_pool) (use assms in auto)
  have "plan_from_cache small_model [2048] [[(0, 2)]] 100 1 1 1 None \<noteq> None"
    using plan_from_cache_complete[OF _ small_model_ok _ _ _ _ _ cache_plan_cached] by simp
  moreover have largest: "largest_group [c] sq small_sizes = 1"
    using assms by (simp add: largest_group_def pool small_sizes_def)
  ultimately obtain plan where "search_reuse small_model [c] sq (search_pool [c] sq) (largest_group [c] sq small_sizes) = Some plan"
    using assms by (auto simp: search_reuse_def pool)
  then obtain r where "search_plan prec small_model [c] sq = Inr r"
    using search_plan_reuses[OF small_model_ok, of "[c]" sq small_sizes plan prec] small_sizes_of assms by auto
  then show ?thesis using floor_plan_Some assms(5) by (simp add: context_result_def)
qed

lemma route_fits:
  "\<exists>f. choose_model demo_pton 64 0 [route_worker] route_request = Some (ladder_option 100 0, f)"
proof -
  let ?opt = "ladder_option 100 0"
  have q: "pr_head route_request = []" "pr_models route_request = [?opt]" "pr_sessions route_request = 1"
      "pr_minimum_stages route_request = 1" "pr_maximum_stages route_request = 1"
    by (simp_all add: route_request_def ladder_request_def)
  have ladder: "context_ladder ?opt route_request = [100]" by (simp add: context_ladder_def route_request_def)
  have "worker_pool demo_pton [route_worker] route_request ?opt 100 = [0]"
    using route_worker_usable by (simp add: worker_pool_def route_worker_def)
  then have pool: "head_first [route_worker] route_request (worker_pool demo_pton [route_worker] route_request ?opt 100) = Some ([0], None)"
    using q(1) by (simp add: head_first_def)
  let ?c = "search_candidate_of route_worker (lowercase (mf_sha256 (mo_manifest ?opt))) 100 1 0"
  let ?sq = "search_request_of [route_worker] route_request ?opt 100 [0] None"
  have "lowercase (mf_sha256 (mo_manifest ?opt)) = replicate 64 CHR ''0''"
    by (simp add: ladder_option_def lowercase_def to_lower_def)
  then have "cd_offered_mib ?c = 2048" "cd_cached ?c = [(0, 2)]"
    by (simp_all add: search_candidate_of_def Let_def route_worker_def route_greeting_def lowercase_def to_lower_def)
  moreover have "sq_context ?sq = 100" "sq_sessions ?sq = 1" "sq_minimum_stages ?sq = 1" "sq_maximum_stages ?sq = 1"
      "sq_head ?sq = None" "sq_pool_limit ?sq = 12"
    using q by (simp_all add: search_request_of_def Let_def)
  ultimately obtain r where "context_result 64 small_model [?c] ?sq = Some r" using route_result by blast
  then have "\<exists>f. fit_at demo_pton 64 0 [route_worker] route_request 0 ?opt 100 = Some f"
    using pool q by (simp add: fit_at_def Let_def route_model)
  then show ?thesis
    using q(2) by (auto simp: choose_model_def best_fit_def ladder)
qed


definition refusing :: outside where
  "refusing = agreeing\<lparr>ou_reserve := \<lambda>_ _ _. Inl ''busy''\<rparr>"

definition one_stage :: fit where
  "one_stage = (any_fit 100)\<lparr>ft_plan := cache_plan\<rparr>"

theorem refused_round_gives_back_witness:
  "\<exists>st'. reserve_and_load refusing route_request False 0 (ladder_option 100 0) one_stage 0 False
       \<lparr>ps_workers = [route_worker], ps_attempts = 1, ps_refusals = 0, ps_rejected_links = 0, ps_sent = []\<rparr> = (None, st')
     \<and> (\<not> wk_connected (ps_workers st' ! 0) \<or> Sent_release 0 (random_route_id (\<lambda>i. i)) \<in> set (ps_sent st'))"
proof -
  let ?st = "\<lparr>ps_workers = [route_worker], ps_attempts = 1, ps_refusals = 0, ps_rejected_links = 0, ps_sent = []\<rparr>"
  have one: "ft_plan one_stage = cache_plan" "length cache_plan = 1" "planned_worker one_stage 0 = 0"
    by (simp_all add: one_stage_def cache_plan_def planned_worker_def any_fit_def)
  have "reserve_error refusing route_request 0 (ladder_option 100 0) one_stage [route_worker] 0 = ''busy''"
    by (simp add: reserve_error_def task_error_def read_reply_def refusing_def)
  then obtain st' where r: "reserve_and_load refusing route_request False 0 (ladder_option 100 0) one_stage 0 False ?st = (None, st')"
    by (simp add: reserve_and_load_def Let_def one)
  show ?thesis
    using refused_round_gives_back[OF r, of 0] r one by (auto simp: refusing_def agreeing_def)
qed

end
