(* ===== verification/Client.thy ===== *)
theory Client
  imports Connection Activations Speculation
begin

text \<open>
  The token loop of \<^verbatim>\<open>engine/client.cpp\<close>: the checks on replies, routing one step
  through the stages or around the ring, speculative rounds with a drafter, and the commit,
  rollback and end of a request. Every call is an action over the sockets; the drafter and the
  token sink are arguments that act on the same world.
\<close>

section \<open>Requests and results\<close>

record request_metrics =
  rm_latency_ms :: rat
  rm_prefill_ms :: rat
  rm_ttft_ms :: rat
  rm_queue_wait_ms :: rat
  rm_a_compute_ms :: "rat list"
  rm_middle_compute_ms :: "rat list"
  rm_b_compute_ms :: "rat list"
  rm_network_ms :: "rat list"
  rm_activation_bytes :: u64
  rm_token_ids :: "u32 list"
  rm_speculative_rounds :: u64
  rm_proposed_tokens :: u64
  rm_accepted_draft_tokens :: u64
  rm_draft_ms :: rat

record request_result =
  rt_output :: string
  rt_position :: u32
  rt_final_token :: u32
  rt_eog :: bool
  rt_cancelled :: bool
  rt_metrics :: request_metrics

definition fresh_metrics :: request_metrics where
  "fresh_metrics = \<lparr>rm_latency_ms = 0, rm_prefill_ms = 0, rm_ttft_ms = 0, rm_queue_wait_ms = 0,
     rm_a_compute_ms = [], rm_middle_compute_ms = [], rm_b_compute_ms = [], rm_network_ms = [],
     rm_activation_bytes = 0, rm_token_ids = [], rm_speculative_rounds = 0, rm_proposed_tokens = 0,
     rm_accepted_draft_tokens = 0, rm_draft_ms = 0\<rparr>"

definition fresh_result :: request_result where
  "fresh_result = \<lparr>rt_output = [], rt_position = 0, rt_final_token = 0, rt_eog = False,
     rt_cancelled = False, rt_metrics = fresh_metrics\<rparr>"

abbreviation token_ids :: "request_result \<Rightarrow> u32 list" where
  "token_ids out \<equiv> rm_token_ids (rt_metrics out)"

record activation =
  ac_frame :: frame
  ac_compute_ns :: u64

record step_result =
  re_token :: u32
  re_compute_ns :: u64
  re_eog :: bool
  re_text :: string
  re_position :: u32

record speculative_result =
  sv_tokens :: "u32 list"
  sv_compute_ns :: "u64 list"
  sv_network_ns :: u64
  sv_position :: u32

record 'w drafter =
  dr_start :: "string \<Rightarrow> ('w, u32) act"
  dr_propose :: "u32 \<Rightarrow> nat \<Rightarrow> ('w, u32 list) act"
  dr_rollback :: "u32 \<Rightarrow> ('w, unit) act"
  dr_piece :: "u32 \<Rightarrow> ('w, string) act"
  dr_is_eog :: "u32 \<Rightarrow> bool"

type_synonym 'w sink = "(string \<Rightarrow> ('w, bool) act) option"

text \<open>Nanoseconds as the milliseconds that are recorded.\<close>

definition ms_of_ns :: "u64 \<Rightarrow> rat" where
  "ms_of_ns ns = rnd (rnd (of_nat (unat ns)) / 1000000)"

definition net_ns :: "u64 \<Rightarrow> u64 \<Rightarrow> u64" where
  "net_ns round_ns compute = (if round_ns > compute then round_ns - compute else 0)"

definition append_token ::
    "request_result \<Rightarrow> u32 \<Rightarrow> string \<Rightarrow> 'w sink \<Rightarrow> ('w, request_result) act" where
  "append_token out token piece sink =
     (let m = rt_metrics out;
          out = out\<lparr>rt_output := rt_output out @ piece,
                    rt_metrics := m\<lparr>rm_token_ids := rm_token_ids m @ [token]\<rparr>\<rparr>
      in case sink of
           None \<Rightarrow> return (out\<lparr>rt_cancelled := False\<rparr>)
         | Some f \<Rightarrow> then_do (f piece) (\<lambda>keep. return (out\<lparr>rt_cancelled := \<not> keep\<rparr>)))"

section \<open>Checks on replies\<close>

definition require_ack :: "frame \<Rightarrow> frame \<Rightarrow> bool \<Rightarrow> string + unit" where
  "require_ack f input allow_timing =
     (if fr_type f \<noteq> T_ack \<or> fr_session f \<noteq> fr_session input
         \<or> fr_request f \<noteq> fr_request input \<or> fr_rows f \<noteq> 0 \<or> fr_cols f \<noteq> 0
         \<or> fr_dtype f \<noteq> dt_none
         \<or> (fr_payload f \<noteq> [] \<and> (\<not> allow_timing \<or> length (fr_payload f) \<noteq> 8))
      then Inl ''invalid provider acknowledgement'' else Inr ())"

definition require_activation :: "frame \<Rightarrow> frame \<Rightarrow> u32 \<Rightarrow> msg_type \<Rightarrow> string + activation" where
  "require_activation f input hidden expected =
     (if fr_type f \<noteq> expected \<or> fr_session f \<noteq> fr_session input
         \<or> fr_request f \<noteq> fr_request input \<or> fr_position f \<noteq> fr_position input
         \<or> fr_rows f = 0 \<or> fr_cols f \<noteq> hidden \<or> \<not> activation_dtype (fr_dtype f)
      then Inl ''invalid stage A activation metadata''
      else
        let vals = (ucast (fr_rows f) :: u64) * ucast (fr_cols f);
            bytes = activation_bytes (fr_dtype f) (ucast (fr_rows f)) (ucast (fr_cols f))
        in if unat vals > (max_payload - 8) div 4
              \<or> (word_of_nat (length (fr_payload f)) :: u64) \<noteq> 8 + bytes
           then Inl ''invalid stage A activation size''
           else Inr \<lparr>ac_frame = f, ac_compute_ns = get64 (fr_payload f)\<rparr>)"

definition position_ok :: "frame \<Rightarrow> frame \<Rightarrow> bool" where
  "position_ok f input =
     (if fr_rows input \<noteq> 0 then fr_position f = fr_position input + fr_rows input
      else if fr_type input = T_prompt then fr_position f > fr_position input
      else fr_position f = fr_position input + 1)"

definition token_payload :: "frame \<Rightarrow> step_result" where
  "token_payload f = \<lparr>re_token = get32 (fr_payload f), re_compute_ns = get64 (drop 4 (fr_payload f)),
     re_eog = (fr_payload f ! 12 \<noteq> 0), re_text = string_of (drop 13 (fr_payload f)),
     re_position = fr_position f\<rparr>"

definition require_result :: "frame \<Rightarrow> frame \<Rightarrow> string + step_result" where
  "require_result f input =
     (if fr_type f \<noteq> T_result \<or> fr_session f \<noteq> fr_session input
         \<or> fr_request f \<noteq> fr_request input \<or> \<not> position_ok f input
         \<or> fr_rows f \<noteq> 0 \<or> fr_cols f \<noteq> 0 \<or> fr_dtype f \<noteq> dt_none
         \<or> length (fr_payload f) < 13 \<or> fr_payload f ! 12 > 1
      then Inl ''invalid stage B result''
      else Inr (token_payload f))"

definition require_streamed :: "frame \<Rightarrow> u64 \<Rightarrow> u64 \<Rightarrow> string + step_result" where
  "require_streamed f session request =
     (if (fr_type f \<noteq> T_client_chunk \<and> fr_type f \<noteq> T_result)
         \<or> fr_session f \<noteq> session \<or> fr_request f \<noteq> request
         \<or> fr_rows f \<noteq> 0 \<or> fr_cols f \<noteq> 0 \<or> fr_dtype f \<noteq> dt_none
         \<or> length (fr_payload f) < 13 \<or> fr_payload f ! 12 > 1
      then if fr_type f = T_error then Inl (string_of (fr_payload f))
           else Inl ''invalid streamed token''
      else Inr (token_payload f))"

definition require_speculative :: "frame \<Rightarrow> frame \<Rightarrow> string + unit" where
  "require_speculative f current =
     (if fr_type f \<noteq> T_result \<or> fr_session f \<noteq> fr_session current
         \<or> fr_request f \<noteq> fr_request current
         \<or> fr_position f \<noteq> fr_position current + fr_rows current
         \<or> fr_rows f \<noteq> fr_rows current \<or> fr_cols f \<noteq> 0 \<or> fr_dtype f \<noteq> dt_none
         \<or> length (fr_payload f) \<noteq> 8 + unat (fr_rows f) * 4
      then Inl ''invalid speculative result'' else Inr ())"

section \<open>Calls to every stage\<close>

primrec control_loop ::
    "'w sockets \<Rightarrow> msg_type \<Rightarrow> frame \<Rightarrow> u32 option \<Rightarrow> nat list \<Rightarrow> ('w, unit) act" where
  "control_loop so kind input before [] = return ()"
| "control_loop so kind input before (c # rest) =
     then_do (exchange so c input) (\<lambda>(reply, _).
     then_do (lift_sum (require_ack reply input False)) (\<lambda>_.
       if kind = T_end_request
       then then_do (require (before = None \<or> before = Some (fr_position reply))
                ''provider session positions diverged'')
              (\<lambda>_. control_loop so kind input (Some (fr_position reply)) rest)
       else control_loop so kind input before rest))"

definition control_frame :: "msg_type \<Rightarrow> u64 \<Rightarrow> u64 \<Rightarrow> frame" where
  "control_frame kind session request =
     fresh_frame\<lparr>fr_type := kind, fr_session := session, fr_request := request\<rparr>"

definition control_all :: "'w sockets \<Rightarrow> nat list \<Rightarrow> msg_type \<Rightarrow> u64 \<Rightarrow> u64 \<Rightarrow> ('w, unit) act" where
  "control_all so stages kind session request =
     control_loop so kind (control_frame kind session request) None stages"

primrec rollback_loop :: "'w sockets \<Rightarrow> frame \<Rightarrow> nat list \<Rightarrow> ('w, unit) act" where
  "rollback_loop so input [] = return ()"
| "rollback_loop so input (c # rest) =
     then_do (exchange so c input) (\<lambda>(reply, _).
     then_do (lift_sum (require_ack reply input False)) (\<lambda>_.
     then_do (require (fr_position reply = fr_position input) ''rollback position mismatch'') (\<lambda>_.
       rollback_loop so input rest)))"

definition rollback_all :: "'w sockets \<Rightarrow> nat list \<Rightarrow> u64 \<Rightarrow> u64 \<Rightarrow> u32 \<Rightarrow> ('w, unit) act" where
  "rollback_all so stages session request position =
     rollback_loop so ((control_frame T_rollback session request)\<lparr>fr_position := position\<rparr>) stages"

fun commit_loop :: "'w sockets \<Rightarrow> u32 \<Rightarrow> u32 \<Rightarrow> frame \<Rightarrow> nat list \<Rightarrow> ('w, unit) act" where
  "commit_loop so hidden position current [] = return ()"
| "commit_loop so hidden position current [c] =
     then_do (exchange so c current) (\<lambda>(reply, _).
     then_do (lift_sum (require_ack reply current True)) (\<lambda>_.
       require (fr_position reply = position + 1) ''commit position mismatch''))"
| "commit_loop so hidden position current (c # rest) =
     then_do (exchange so c current) (\<lambda>(reply, _).
     then_do (lift_sum (require_activation reply current hidden T_commit_activation)) (\<lambda>a.
       commit_loop so hidden position (ac_frame a) rest))"

definition token_frame :: "msg_type \<Rightarrow> u64 \<Rightarrow> u64 \<Rightarrow> u32 \<Rightarrow> u32 \<Rightarrow> frame" where
  "token_frame kind session request position token =
     (control_frame kind session request)\<lparr>fr_position := position, fr_payload := put32 token\<rparr>"

definition commit_final_token ::
    "'w sockets \<Rightarrow> nat list \<Rightarrow> u64 \<Rightarrow> u64 \<Rightarrow> u32 \<Rightarrow> u32 \<Rightarrow> u32 \<Rightarrow> ('w, unit) act" where
  "commit_final_token so stages session request position token hidden =
     commit_loop so hidden position (token_frame T_commit_token session request position token) stages"

section \<open>One step through the route\<close>

definition activation_metric :: "activation \<Rightarrow> request_metrics \<Rightarrow> request_metrics" where
  "activation_metric a m = m\<lparr>rm_activation_bytes := rm_activation_bytes m
     + ucast (fr_rows (ac_frame a) * fr_cols (ac_frame a)) * 4\<rparr>"

definition decode_metric :: "step_result \<Rightarrow> u64 \<Rightarrow> request_metrics \<Rightarrow> request_metrics" where
  "decode_metric r network m = m\<lparr>
     rm_b_compute_ms := rm_b_compute_ms m @ [ms_of_ns (re_compute_ns r)],
     rm_network_ms := rm_network_ms m @ [ms_of_ns network]\<rparr>"

definition stage_metric :: "bool \<Rightarrow> activation \<Rightarrow> request_metrics \<Rightarrow> request_metrics" where
  "stage_metric first_stage a m =
     (if first_stage then m\<lparr>rm_a_compute_ms := rm_a_compute_ms m @ [ms_of_ns (ac_compute_ns a)]\<rparr>
      else m\<lparr>rm_middle_compute_ms := rm_middle_compute_ms m @ [ms_of_ns (ac_compute_ns a)]\<rparr>)"

fun hub_step ::
    "'w sockets \<Rightarrow> u32 \<Rightarrow> bool \<Rightarrow> bool \<Rightarrow> u64 \<Rightarrow> nat list \<Rightarrow> frame \<Rightarrow> request_metrics
     \<Rightarrow> ('w, step_result \<times> request_metrics) act" where
  "hub_step so hidden decode first_stage network [] current m = throw ''replica routing failed''"
| "hub_step so hidden decode first_stage network [c] current m =
     then_do (exchange so c current) (\<lambda>(reply, round_ns).
     then_do (lift_sum (require_result reply current)) (\<lambda>r.
       return (r, if decode
         then decode_metric r (network + net_ns round_ns (re_compute_ns r)) m else m)))"
| "hub_step so hidden decode first_stage network (c # rest) current m =
     then_do (exchange so c current) (\<lambda>(reply, round_ns).
     then_do (lift_sum (require_activation reply current hidden T_activation)) (\<lambda>a.
       hub_step so hidden decode False
         (if decode then network + net_ns round_ns (ac_compute_ns a) else network) rest (ac_frame a)
         (if decode then stage_metric first_stage a (activation_metric a m)
          else activation_metric a m)))"

definition ring_step ::
    "'w sockets \<Rightarrow> nat list \<Rightarrow> frame \<Rightarrow> request_metrics \<Rightarrow> bool \<Rightarrow> nat
     \<Rightarrow> ('w, step_result \<times> request_metrics) act" where
  "ring_step so stages input m decode ring_return =
     then_do (clock so) (\<lambda>start.
     then_do (send_on so (hd stages) input) (\<lambda>_.
     then_do (receive so ring_return) (\<lambda>reply.
     then_do (elapsed_ns so start) (\<lambda>round_ns.
     then_do (lift_sum (require_result reply input)) (\<lambda>r.
       return (r, if decode then decode_metric r (net_ns round_ns (re_compute_ns r)) m else m))))))"

definition route_step ::
    "'w sockets \<Rightarrow> nat list \<Rightarrow> frame \<Rightarrow> u32 \<Rightarrow> request_metrics \<Rightarrow> bool \<Rightarrow> nat option
     \<Rightarrow> ('w, step_result \<times> request_metrics) act" where
  "route_step so stages input hidden m decode ring_return =
     (if stages = [] then throw ''replica has no stages''
      else case ring_return of
             Some ring \<Rightarrow> ring_step so stages input m decode ring
           | None \<Rightarrow> hub_step so hidden decode True 0 stages input m)"

definition speculative_tokens :: "frame \<Rightarrow> u32 list" where
  "speculative_tokens f =
     map (\<lambda>row. get32 (drop (8 + row * 4) (fr_payload f))) [0..<unat (fr_rows f)]"

fun route_speculative ::
    "'w sockets \<Rightarrow> u32 \<Rightarrow> nat list \<Rightarrow> frame \<Rightarrow> u64 list \<Rightarrow> u64 \<Rightarrow> request_metrics
     \<Rightarrow> ('w, speculative_result \<times> request_metrics) act" where
  "route_speculative so hidden [] current computed network m = throw ''speculative routing failed''"
| "route_speculative so hidden [c] current computed network m =
     then_do (exchange so c current) (\<lambda>(reply, round_ns).
     then_do (lift_sum (require_speculative reply current)) (\<lambda>_.
       let compute = get64 (fr_payload reply) in
       return (\<lparr>sv_tokens = speculative_tokens reply, sv_compute_ns = computed @ [compute],
                sv_network_ns = network + net_ns round_ns compute,
                sv_position = fr_position reply\<rparr>, m)))"
| "route_speculative so hidden (c # rest) current computed network m =
     then_do (exchange so c current) (\<lambda>(reply, round_ns).
     then_do (lift_sum (require_activation reply current hidden T_speculative_activation)) (\<lambda>a.
       route_speculative so hidden rest (ac_frame a) (computed @ [ac_compute_ns a])
         (network + net_ns round_ns (ac_compute_ns a)) (activation_metric a m)))"

section \<open>Decoding rounds\<close>

text \<open>
  Reading past the end of the guesses or of the checked tokens is undefined in the code. The model
  throws this text there; the theorems below show that a drafter that proposes as many tokens as
  it is asked for never gets there.
\<close>

definition out_of_range :: string where
  "out_of_range = ''undefined: index out of range''"

text \<open>One decoded token as it is recorded in the answer.\<close>

definition take_step ::
    "request_result \<Rightarrow> step_result \<Rightarrow> request_metrics \<Rightarrow> 'w sink \<Rightarrow> ('w, request_result) act" where
  "take_step out r m sink =
     then_do (append_token (out\<lparr>rt_metrics := m\<rparr>) (re_token r) (re_text r) sink) (\<lambda>out.
       return (out\<lparr>rt_position := re_position r, rt_final_token := re_token r, rt_eog := re_eog r\<rparr>))"

definition plain_round ::
    "'w sockets \<Rightarrow> nat list \<Rightarrow> u32 \<Rightarrow> u64 \<Rightarrow> u64 \<Rightarrow> nat option \<Rightarrow> 'w sink \<Rightarrow> request_result
     \<Rightarrow> ('w, request_result) act" where
  "plain_round so stages hidden session request ring_return sink out =
     then_do (route_step so stages
         (token_frame T_token session request (rt_position out) (rt_final_token out))
         hidden (rt_metrics out) True ring_return)
       (\<lambda>(r, m). take_step out r m sink)"

fun accept_guesses ::
    "'w drafter \<Rightarrow> 'w sink \<Rightarrow> u32 list \<Rightarrow> u32 list \<Rightarrow> nat \<Rightarrow> request_result
     \<Rightarrow> ('w, nat \<times> bool \<times> request_result) act" where
  "accept_guesses d sink [] checked n out = return (n, False, out)"
| "accept_guesses d sink (g # gs) [] n out = throw out_of_range"
| "accept_guesses d sink (g # gs) (t # ts) n out =
     (if g \<noteq> t then return (n, False, out)
      else
        then_do (dr_piece d g) (\<lambda>piece.
        then_do (append_token (out\<lparr>rt_final_token := g\<rparr>) g piece sink) (\<lambda>out.
          let out = out\<lparr>rt_eog := dr_is_eog d g\<rparr> in
          if rt_cancelled out \<or> rt_eog out then return (Suc n, True, out)
          else accept_guesses d sink gs ts (Suc n) out)))"

text \<open>The target's own token at the first row where the guess was wrong.\<close>

definition correct_guess ::
    "'w drafter \<Rightarrow> 'w sink \<Rightarrow> u32 \<Rightarrow> request_result \<Rightarrow> ('w, request_result) act" where
  "correct_guess d sink token out =
     then_do (dr_piece d token) (\<lambda>piece.
     then_do (append_token (out\<lparr>rt_final_token := token\<rparr>) token piece sink) (\<lambda>out.
       return (out\<lparr>rt_eog := dr_is_eog d token\<rparr>)))"

definition block_frame :: "u64 \<Rightarrow> u64 \<Rightarrow> request_result \<Rightarrow> nat \<Rightarrow> u32 list \<Rightarrow> frame" where
  "block_frame session request out n guesses =
     (control_frame T_token session request)\<lparr>fr_position := rt_position out,
        fr_rows := word_of_nat n,
        fr_payload := concat (map put32 (rt_final_token out # take (n - 1) guesses))\<rparr>"

definition round_metrics :: "speculative_result \<Rightarrow> nat \<Rightarrow> request_metrics \<Rightarrow> request_metrics" where
  "round_metrics checked produced m =
     (let per = (\<lambda>ns. rnd (ms_of_ns ns / of_nat produced));
          computed = sv_compute_ns checked;
          middle = map per (butlast (tl computed))
      in m\<lparr>rm_a_compute_ms := rm_a_compute_ms m
              @ (if length computed > 1 then replicate produced (per (hd computed)) else []),
           rm_middle_compute_ms := rm_middle_compute_ms m @ concat (replicate produced middle),
           rm_b_compute_ms := rm_b_compute_ms m @ replicate produced (per (last computed)),
           rm_network_ms := rm_network_ms m @ replicate produced (per (sv_network_ns checked))\<rparr>)"

text \<open>What follows the comparison: the correction, the position kept, and the metrics.\<close>

definition finish_round ::
    "'w drafter \<Rightarrow> 'w sink \<Rightarrow> nat \<Rightarrow> u32 list \<Rightarrow> speculative_result \<Rightarrow> nat \<times> bool \<times> request_result
     \<Rightarrow> ('w, request_result) act" where
  "finish_round d sink n guesses checked = (\<lambda>(accepted, stopped, out).
     let m = rt_metrics out;
         out = out\<lparr>rt_metrics := m\<lparr>rm_accepted_draft_tokens :=
           rm_accepted_draft_tokens m + word_of_nat accepted\<rparr>\<rparr>;
         correct = \<not> stopped \<and> accepted < length guesses;
         committed = (if stopped then accepted else min n (accepted + 1));
         produced = (if stopped then accepted
                     else if accepted < length guesses then accepted + 1 else accepted)
     in then_do (if correct then correct_guess d sink (sv_tokens checked ! accepted) out
                 else return out) (\<lambda>out.
        let keep = rt_position out + word_of_nat committed in
        then_do (dr_rollback d keep) (\<lambda>_.
        then_do (require (produced \<noteq> 0) ''speculative round produced no token'') (\<lambda>_.
          return (out\<lparr>rt_position := keep,
                      rt_metrics := round_metrics checked produced (rt_metrics out)\<rparr>)))))"

definition note_draft :: "u64 \<Rightarrow> u32 list \<Rightarrow> request_result \<Rightarrow> request_result" where
  "note_draft ns guesses out =
     (let m = rt_metrics out in out\<lparr>rt_metrics := m\<lparr>
        rm_draft_ms := rnd (rm_draft_ms m + ms_of_ns ns),
        rm_speculative_rounds := rm_speculative_rounds m + 1,
        rm_proposed_tokens := rm_proposed_tokens m + word_of_nat (length guesses)\<rparr>\<rparr>)"

text \<open>
  The number of tokens to draft is cast from \<^verbatim>\<open>int\<close> to \<^verbatim>\<open>std::size_t\<close>. A negative one
  would ask the drafter for nearly \<open>2^64\<close> tokens, and none would be written past the end of an empty
  payload: both are the undefined outcome \<^const>\<open>out_of_range\<close> here.
\<close>

definition speculative_round ::
    "'w sockets \<Rightarrow> 'w drafter \<Rightarrow> nat list \<Rightarrow> u32 \<Rightarrow> u64 \<Rightarrow> u64 \<Rightarrow> int \<Rightarrow> int \<Rightarrow> 'w sink
     \<Rightarrow> request_result \<Rightarrow> ('w, request_result) act" where
  "speculative_round so d stages hidden session request token_limit draft_tokens sink out =
     (let count = min draft_tokens (token_limit - int (length (token_ids out))); n = nat count in
      then_do (require (0 \<le> count) out_of_range) (\<lambda>_.
      then_do (clock so) (\<lambda>start.
      then_do (dr_propose d (rt_final_token out) n) (\<lambda>guesses.
      then_do (elapsed_ns so start) (\<lambda>ns.
        let out = note_draft ns guesses out in
           then_do (require (n \<noteq> 0 \<and> n - 1 \<le> length guesses) out_of_range) (\<lambda>_.
           then_do (route_speculative so hidden stages (block_frame session request out n guesses)
               [] 0 (rt_metrics out)) (\<lambda>(checked, m).
           then_do (accept_guesses d sink guesses (sv_tokens checked) 0 (out\<lparr>rt_metrics := m\<rparr>))
             (finish_round d sink n guesses checked))))))))"

definition decode_round ::
    "'w sockets \<Rightarrow> nat list \<Rightarrow> u32 \<Rightarrow> u64 \<Rightarrow> u64 \<Rightarrow> int \<Rightarrow> 'w drafter option \<Rightarrow> int \<Rightarrow> nat option
     \<Rightarrow> 'w sink \<Rightarrow> request_result \<Rightarrow> ('w, request_result) act" where
  "decode_round so stages hidden session request token_limit draft draft_tokens ring_return sink out =
     (case draft of
        Some d \<Rightarrow> speculative_round so d stages hidden session request token_limit draft_tokens sink out
      | None \<Rightarrow> plain_round so stages hidden session request ring_return sink out)"

definition wants_more :: "int \<Rightarrow> request_result \<Rightarrow> bool" where
  "wants_more token_limit out \<longleftrightarrow>
     int (length (token_ids out)) < token_limit \<and> \<not> rt_eog out \<and> \<not> rt_cancelled out"

section \<open>Every round adds tokens\<close>

text \<open>\<open>adds out ts out'\<close>: the answer grew by exactly the tokens \<open>ts\<close>.\<close>

definition adds :: "request_result \<Rightarrow> u32 list \<Rightarrow> request_result \<Rightarrow> bool" where
  "adds out ts out' \<longleftrightarrow> token_ids out' = token_ids out @ ts"

lemma append_token_adds:
  assumes "append_token out t piece sink w = Some (Inr out', w')"
  shows "adds out [t] out'" "rt_final_token out' = rt_final_token out"
    "rt_position out' = rt_position out" "rt_eog out' = rt_eog out"
    "sink = None \<Longrightarrow> \<not> rt_cancelled out'"
  using assms by (auto simp: append_token_def Let_def adds_def act_results split: option.splits)

lemma hub_step_tokens:
  assumes "hub_step so hidden decode first_stage network stages current m w = Some (Inr (r, m'), w')"
  shows "rm_token_ids m' = rm_token_ids m"
  using assms
  by (induction so hidden decode first_stage network stages current m arbitrary: w rule: hub_step.induct)
     (auto simp: act_results activation_metric_def decode_metric_def stage_metric_def
       split: prod.splits if_splits)

lemma route_step_tokens:
  assumes "route_step so stages input hidden m decode ring_return w = Some (Inr (r, m'), w')"
  shows "rm_token_ids m' = rm_token_ids m"
  using assms
  by (auto simp: route_step_def ring_step_def act_results decode_metric_def
      split: option.splits if_splits dest: hub_step_tokens)

lemma plain_round_adds:
  assumes "plain_round so stages hidden session request ring_return sink out w = Some (Inr out', w')"
  shows "adds out [rt_final_token out'] out'"
  using assms
  by (auto simp: plain_round_def take_step_def act_results adds_def
      dest!: append_token_adds(1) route_step_tokens split: prod.splits)

text \<open>Comparing guesses: a prefix on which both lists agree is taken over.\<close>

definition took :: "u32 list \<Rightarrow> u32 list \<Rightarrow> nat \<Rightarrow> bool \<Rightarrow> bool" where
  "took guesses checked k stopped \<longleftrightarrow>
     k \<le> length guesses \<and> k \<le> length checked \<and> take k guesses = take k checked
     \<and> (stopped \<longrightarrow> 0 < k)
     \<and> (\<not> stopped \<and> k < length guesses \<longrightarrow> k < length checked \<and> guesses ! k \<noteq> checked ! k)"

lemma took_Suc: "took gs ts k stopped \<Longrightarrow> took (g # gs) (g # ts) (Suc k) stopped"
  by (auto simp: took_def)

lemma accept_guesses_took:
  assumes "accept_guesses d sink guesses checked n out w = Some (Inr (n', stopped, out'), w')"
  shows "\<exists>k. n' = n + k \<and> took guesses checked k stopped \<and> adds out (take k guesses) out'
    \<and> rt_position out' = rt_position out \<and> (stopped \<longrightarrow> rt_cancelled out' \<or> rt_eog out')"
  using assms
proof (induction d sink guesses checked n out arbitrary: w rule: accept_guesses.induct)
  case (1 d sink checked n out)
  then show ?case by (auto simp: act_results took_def adds_def)
next
  case (2 d sink g gs n out)
  then show ?case by (simp add: act_results)
next
  case (3 d sink g gs t ts n out)
  show ?case
  proof (cases "g = t")
    case False
    with 3(2) show ?thesis by (auto simp: act_results took_def adds_def)
  next
    case True
    from 3(2) True obtain piece w1 out1 w2 where
      app: "append_token (out\<lparr>rt_final_token := g\<rparr>) g piece sink w1 = Some (Inr out1, w2)" and
      pc: "dr_piece d g w = Some (Inr piece, w1)" and
      next_step: "(let out = out1\<lparr>rt_eog := dr_is_eog d g\<rparr> in
          if rt_cancelled out \<or> rt_eog out then return (Suc n, True, out)
          else accept_guesses d sink gs ts (Suc n) out) w2 = Some (Inr (n', stopped, out'), w')"
      by (auto simp: act_results)
    let ?out = "out1\<lparr>rt_eog := dr_is_eog d g\<rparr>"
    have grown: "adds out [g] ?out" "rt_position ?out = rt_position out"
      using append_token_adds[OF app] by (simp_all add: adds_def)
    show ?thesis
    proof (cases "rt_cancelled ?out \<or> rt_eog ?out")
      case True
      with next_step grown \<open>g = t\<close> show ?thesis
        by (intro exI[of _ 1]) (auto simp: Let_def act_results took_def)
    next
      case False
      with next_step have "accept_guesses d sink gs ts (Suc n) ?out w2 = Some (Inr (n', stopped, out'), w')"
        by (simp add: Let_def)
      from 3(1)[OF _ refl _ this] True False obtain k where
        "n' = Suc n + k" "took gs ts k stopped" "adds ?out (take k gs) out'"
        "rt_position out' = rt_position ?out" "stopped \<longrightarrow> rt_cancelled out' \<or> rt_eog out'"
        by auto
      with grown \<open>g = t\<close> show ?thesis
        by (intro exI[of _ "Suc k"]) (auto simp: adds_def took_Suc)
    qed
  qed
qed

lemma correct_guess_adds:
  assumes "correct_guess d sink token out w = Some (Inr out', w')"
  shows "adds out [token] out' \<and> rt_position out' = rt_position out"
  using assms by (auto simp: correct_guess_def act_results adds_def dest: append_token_adds)

lemma round_metrics_tokens [simp]: "rm_token_ids (round_metrics checked k m) = rm_token_ids m"
  by (simp add: round_metrics_def Let_def)


text \<open>
  What a speculative round does to the answer: it adds a non-empty run of the target's own
  choices, no more than were guessed, and keeps the position past the inputs it commits.
\<close>

definition round_kept ::
    "nat \<Rightarrow> u32 list \<Rightarrow> u32 list \<Rightarrow> u32 list \<Rightarrow> request_result \<Rightarrow> request_result \<Rightarrow> bool" where
  "round_kept n guesses checked ts out out' \<longleftrightarrow>
     adds out ts out' \<and> ts \<noteq> [] \<and> length ts \<le> length guesses \<and> ts = take (length ts) checked
     \<and> length ts \<le> length checked \<and> butlast ts = take (length ts - 1) guesses
     \<and> (length ts = length guesses \<or> last ts \<noteq> guesses ! (length ts - 1) \<or> rt_eog out' \<or> rt_cancelled out')
     \<and> (length guesses = n \<longrightarrow> rt_position out' = rt_position out + word_of_nat (length ts))"

lemma finish_round_kept:
  assumes fin: "finish_round d sink n guesses checked (k, stopped, mid) w = Some (Inr out', w')"
    and took: "took guesses (sv_tokens checked) k stopped"
    and mid: "adds out (take k guesses) mid" "rt_position mid = rt_position out"
      "stopped \<longrightarrow> rt_cancelled mid \<or> rt_eog mid"
  shows "\<exists>ts. round_kept n guesses (sv_tokens checked) ts out out'"
proof (cases "\<not> stopped \<and> k < length guesses")
  case True
  let ?t = "sv_tokens checked ! k"
  from fin True have "adds mid [?t] out'"
    "rt_position out' = rt_position mid + word_of_nat (min n (k + 1))"
    by (auto simp: finish_round_def Let_def act_results adds_def dest!: correct_guess_adds)
  moreover from took True have ts: "take k guesses @ [?t] = take (Suc k) (sv_tokens checked)"
    "Suc k \<le> length (sv_tokens checked)"
    by (auto simp: took_def take_Suc_conv_app_nth)
  moreover from took True have wrong: "?t \<noteq> guesses ! k" unfolding took_def by metis
  moreover have "length guesses = n \<Longrightarrow> min n (k + 1) = Suc k"
    using True by simp
  ultimately have parts: "adds out (take k guesses @ [?t]) out'"
    "length guesses = n \<longrightarrow> rt_position out' = rt_position out + word_of_nat (Suc k)"
    using mid by (auto simp: adds_def)
  from True have "length (take k guesses @ [?t]) = Suc k" by simp
  with parts ts(2) wrong True show ?thesis
    by (intro exI[of _ "take k guesses @ [?t]"]) (simp add: round_kept_def ts(1)[symmetric])
next
  case False
  with fin have "adds mid [] out'" "k \<noteq> 0" "rt_eog out' = rt_eog mid" "rt_cancelled out' = rt_cancelled mid"
    "rt_position out' = rt_position mid + word_of_nat (if stopped then k else min n (k + 1))"
    by (auto simp: finish_round_def Let_def act_results adds_def split: if_splits)
  then have same: "adds out (take k guesses) out'" "k \<noteq> 0" "stopped \<longrightarrow> rt_eog out' \<or> rt_cancelled out'"
    "rt_position out' = rt_position out + word_of_nat (if stopped then k else min n (k + 1))"
    using mid by (auto simp: adds_def)
  from False took have k: "k \<le> length guesses" "k \<le> length (sv_tokens checked)"
    "take k guesses = take k (sv_tokens checked)" "stopped \<or> k = length guesses"
    by (auto simp: took_def)
  have last: "butlast (take k guesses) = take (k - 1) guesses" using k(1) by (simp add: butlast_take)
  have "length guesses = n \<longrightarrow> rt_position out' = rt_position out + word_of_nat k"
    using same(4) k(4) by auto
  with same k last show ?thesis
    by (intro exI[of _ "take k guesses"]) (auto simp: round_kept_def)
qed

lemma route_speculative_tokens:
  assumes "route_speculative so hidden stages current computed network m w = Some (Inr (r, m'), w')"
  shows "rm_token_ids m' = rm_token_ids m"
  using assms
  by (induction so hidden stages current computed network m arbitrary: w rule: route_speculative.induct)
     (auto simp: act_results activation_metric_def Let_def split: prod.splits)

lemma note_draft_same [simp]:
  "token_ids (note_draft ns guesses out) = token_ids out"
  "rt_position (note_draft ns guesses out) = rt_position out"
  "rt_final_token (note_draft ns guesses out) = rt_final_token out"
  by (simp_all add: note_draft_def Let_def)

lemma speculative_round_kept:
  assumes "speculative_round so d stages hidden session request token_limit draft_tokens sink out w
      = Some (Inr out', w')"
  defines "n \<equiv> nat (min draft_tokens (token_limit - int (length (token_ids out))))"
  shows "\<exists>guesses checked ts ns m' w1 w2.
     dr_propose d (rt_final_token out) n w = Some (Inr guesses, w1)
     \<and> route_speculative so hidden stages (block_frame session request out n guesses) [] 0
         (rt_metrics (note_draft ns guesses out)) w1 = Some (Inr (checked, m'), w2)
     \<and> round_kept n guesses (sv_tokens checked) ts out out'"
proof -
  from assms obtain guesses ns w1 checked m' w2 acc stopped mid w3 where
    proposed: "dr_propose d (rt_final_token out) n w = Some (Inr guesses, w1)" and
    spec: "route_speculative so hidden stages (block_frame session request out n guesses) [] 0
       (rt_metrics (note_draft ns guesses out)) w1 = Some (Inr (checked, m'), w2)" and
    acc: "accept_guesses d sink guesses (sv_tokens checked) 0
       ((note_draft ns guesses out)\<lparr>rt_metrics := m'\<rparr>) w2 = Some (Inr (acc, stopped, mid), w3)" and
    fin: "finish_round d sink n guesses checked (acc, stopped, mid) w3 = Some (Inr out', w')"
    unfolding speculative_round_def n_def[symmetric] Let_def act_results
    by (auto simp: act_results elapsed_ns_def block_frame_def split: prod.splits)
  from accept_guesses_took[OF acc] route_speculative_tokens[OF spec] have
    "took guesses (sv_tokens checked) acc stopped" "adds out (take acc guesses) mid"
    "rt_position mid = rt_position out" "stopped \<longrightarrow> rt_cancelled mid \<or> rt_eog mid"
    by (auto simp: adds_def)
  from finish_round_kept[OF fin this] proposed spec show ?thesis by blast
qed

lemma decode_round_grows:
  assumes "decode_round so stages hidden session request token_limit draft draft_tokens ring_return
      sink out w = Some (Inr out', w')"
  shows "length (token_ids out) < length (token_ids out')"
proof (cases draft)
  case None
  with assms show ?thesis by (auto simp: decode_round_def adds_def dest: plain_round_adds)
next
  case (Some d)
  with assms have "\<exists>ts. adds out ts out' \<and> ts \<noteq> []"
    by (fastforce simp: decode_round_def round_kept_def dest!: speculative_round_kept)
  then show ?thesis by (auto simp: adds_def)
qed

section \<open>The token loop\<close>

text \<open>
  The loop ends because every round that returns adds at least one token, and the loop continues
  only below the limit.
\<close>

function decode_loop ::
    "'w sockets \<Rightarrow> nat list \<Rightarrow> u32 \<Rightarrow> u64 \<Rightarrow> u64 \<Rightarrow> int \<Rightarrow> 'w drafter option \<Rightarrow> int \<Rightarrow> nat option
     \<Rightarrow> 'w sink \<Rightarrow> request_result \<Rightarrow> ('w, request_result) act" where
  "decode_loop so stages hidden session request token_limit draft draft_tokens ring_return sink out w =
     (if \<not> wants_more token_limit out then Some (Inr out, w)
      else
        case decode_round so stages hidden session request token_limit draft draft_tokens ring_return
            sink out w of
          None \<Rightarrow> None
        | Some (Inl e, w') \<Rightarrow> Some (Inl e, w')
        | Some (Inr out', w') \<Rightarrow>
            decode_loop so stages hidden session request token_limit draft draft_tokens ring_return
              sink out' w')"
  by pat_completeness auto
termination
  by (relation "measure (\<lambda>(so, stages, hidden, session, request, limit, draft, width, ring, sink, out, w).
        nat (limit - int (length (token_ids out))))")
     (auto simp: wants_more_def dest!: decode_round_grows)

declare decode_loop.simps [simp del]

definition check_drafter ::
    "'w drafter option \<Rightarrow> u32 \<Rightarrow> string \<Rightarrow> step_result \<Rightarrow> ('w, unit) act" where
  "check_drafter draft position prompt r =
     (let mismatch = ''draft and target tokenizers do not match'' in
      case draft of
        None \<Rightarrow> return ()
      | Some d \<Rightarrow>
          then_do (require (position = 0) mismatch) (\<lambda>_.
          then_do (dr_start d prompt) (\<lambda>at_token.
          then_do (require (at_token = re_position r) mismatch) (\<lambda>_.
          then_do (dr_piece d (re_token r)) (\<lambda>piece.
            require (piece = re_text r) mismatch)))))"

definition prompt_frame :: "u64 \<Rightarrow> u64 \<Rightarrow> u32 \<Rightarrow> string \<Rightarrow> frame" where
  "prompt_frame session request position prompt =
     (control_frame T_prompt session request)\<lparr>fr_position := position, fr_payload := bytes_of prompt\<rparr>"

text \<open>The end of a request: roll back a cancelled answer, commit a kept one, end the request.\<close>

definition finish_request ::
    "'w sockets \<Rightarrow> nat list \<Rightarrow> u32 \<Rightarrow> u64 \<Rightarrow> u64 \<Rightarrow> u32 \<Rightarrow> bool \<Rightarrow> u64 \<Rightarrow> request_result
     \<Rightarrow> ('w, request_result) act" where
  "finish_request so stages hidden session request position preserve_session start out =
     then_do (if rt_cancelled out
              then then_do (rollback_all so stages session request position) (\<lambda>_. return out)
              else if preserve_session
              then then_do (commit_final_token so stages session request (rt_position out)
                       (rt_final_token out) hidden)
                     (\<lambda>_. return (out\<lparr>rt_position := rt_position out + 1\<rparr>))
              else return out) (\<lambda>out.
     then_do (control_all so stages T_end_request session request) (\<lambda>_.
     then_do (elapsed_ns so start) (\<lambda>ns.
       return (out\<lparr>rt_metrics := (rt_metrics out)\<lparr>rm_latency_ms := ms_of_ns ns\<rparr>\<rparr>))))"

definition generate ::
    "'w sockets \<Rightarrow> nat list \<Rightarrow> u32 \<Rightarrow> u64 \<Rightarrow> u64 \<Rightarrow> u32 \<Rightarrow> string \<Rightarrow> int \<Rightarrow> bool \<Rightarrow> 'w drafter option
     \<Rightarrow> int \<Rightarrow> nat option \<Rightarrow> 'w sink \<Rightarrow> ('w, request_result) act" where
  "generate so stages hidden session request position prompt token_limit preserve_session draft
       draft_tokens ring_return sink =
     then_do (clock so) (\<lambda>request_start.
     then_do (clock so) (\<lambda>prefill_start.
     then_do (route_step so stages (prompt_frame session request position prompt) hidden
         fresh_metrics False ring_return) (\<lambda>(r, m).
     then_do (elapsed_ns so prefill_start) (\<lambda>prefill.
     then_do (elapsed_ns so request_start) (\<lambda>ttft.
     then_do (take_step fresh_result r
         (m\<lparr>rm_prefill_ms := ms_of_ns prefill, rm_ttft_ms := ms_of_ns ttft\<rparr>) sink) (\<lambda>out.
     then_do (check_drafter draft position prompt r) (\<lambda>_.
     then_do (decode_loop so stages hidden session request token_limit draft draft_tokens
         ring_return sink out)
       (finish_request so stages hidden session request position preserve_session request_start))))))))"

section \<open>Streamed answers\<close>

text \<open>The budget for the stage that owns the decode loop, and the prompt that starts it.\<close>

definition budget_frame :: "u64 \<Rightarrow> u64 \<Rightarrow> int \<Rightarrow> frame" where
  "budget_frame session request token_limit =
     (control_frame T_stream_prompt session request)\<lparr>fr_rows := word_of_int token_limit\<rparr>"

definition start_stream ::
    "'w sockets \<Rightarrow> nat \<Rightarrow> nat \<Rightarrow> u64 \<Rightarrow> u64 \<Rightarrow> u32 \<Rightarrow> string \<Rightarrow> int \<Rightarrow> ('w, unit) act" where
  "start_stream so tail front session request position prompt token_limit =
     (let budget = budget_frame session request token_limit in
      then_do (exchange so tail budget) (\<lambda>(accepted, _).
      then_do (lift_sum (require_ack accepted budget False)) (\<lambda>_.
        send_on so front (prompt_frame session request position prompt))))"

definition note_first_token :: "'w sockets \<Rightarrow> u64 \<Rightarrow> request_result \<Rightarrow> ('w, request_result) act" where
  "note_first_token so start out =
     (if token_ids out = []
      then then_do (elapsed_ns so start) (\<lambda>ns.
        return (out\<lparr>rt_metrics := (rt_metrics out)\<lparr>rm_prefill_ms := ms_of_ns ns,
          rm_ttft_ms := ms_of_ns ns\<rparr>\<rparr>))
      else return out)"

text \<open>One frame of the ring's stream: the state is whether a cancel was sent and the answer so far.\<close>

definition stream_step ::
    "'w sockets \<Rightarrow> nat \<Rightarrow> nat \<Rightarrow> u64 \<Rightarrow> u64 \<Rightarrow> u64 \<Rightarrow> 'w sink \<Rightarrow> bool \<times> request_result
     \<Rightarrow> ('w, (bool \<times> request_result) + request_result) act" where
  "stream_step so tail ring_return session request start sink = (\<lambda>(cancelling, out).
     then_do (receive so ring_return) (\<lambda>f.
     then_do (lift_sum (require_streamed f session request)) (\<lambda>t.
     then_do (note_first_token so start out) (\<lambda>out.
     then_do (append_token out (re_token t) (re_text t) sink) (\<lambda>out.
       let out = out\<lparr>rt_position := re_position t, rt_final_token := re_token t, rt_eog := re_eog t\<rparr> in
       if fr_type f = T_result then return (Inr out)
       else if rt_cancelled out \<and> \<not> cancelling then
         let cancel = control_frame T_cancel_request session request in
         then_do (exchange so tail cancel) (\<lambda>(stopped, _).
         then_do (lift_sum (require_ack stopped cancel False)) (\<lambda>_. return (Inl (True, out))))
       else return (Inl (cancelling, out)))))))"

partial_function (option) stream_loop ::
    "('s \<Rightarrow> ('w, 's + request_result) act) \<Rightarrow> 's \<Rightarrow> 'w io \<Rightarrow> ((string + request_result) \<times> 'w io) option"
  where
  "stream_loop step st w =
     Option.bind (step st w) (\<lambda>(r, w').
       case r of
         Inl e \<Rightarrow> Some (Inl e, w')
       | Inr next_state \<Rightarrow>
           (case next_state of Inl st' \<Rightarrow> stream_loop step st' w' | Inr out \<Rightarrow> Some (Inr out, w')))"

definition generate_loop ::
    "'w sockets \<Rightarrow> nat list \<Rightarrow> u64 \<Rightarrow> u64 \<Rightarrow> u32 \<Rightarrow> string \<Rightarrow> int \<Rightarrow> bool \<Rightarrow> nat \<Rightarrow> u32 \<Rightarrow> 'w sink
     \<Rightarrow> ('w, request_result) act" where
  "generate_loop so stages session request position prompt token_limit preserve_session ring_return
       hidden sink =
     then_do (clock so) (\<lambda>start.
     then_do (require (stages \<noteq> []) out_of_range) (\<lambda>_.
     then_do (start_stream so (last stages) (hd stages) session request position prompt token_limit) (\<lambda>_.
     then_do (stream_loop (stream_step so (last stages) ring_return session request start sink)
         (False, fresh_result))
       (finish_request so stages hidden session request position preserve_session start))))"

text \<open>A replica's owner: the acknowledgement after the result carries the session's position.\<close>

definition replica_step ::
    "'w sockets \<Rightarrow> nat \<Rightarrow> u64 \<Rightarrow> u64 \<Rightarrow> frame \<Rightarrow> u64 \<Rightarrow> 'w sink \<Rightarrow> bool \<times> bool \<times> request_result
     \<Rightarrow> ('w, (bool \<times> bool \<times> request_result) + request_result) act" where
  "replica_step so owner session request input start sink = (\<lambda>(cancelling, finished, out).
     then_do (receive so owner) (\<lambda>f.
       if finished then
         then_do (lift_sum (require_ack f input False)) (\<lambda>_.
           return (Inr (out\<lparr>rt_position := fr_position f\<rparr>)))
       else
         then_do (lift_sum (require_streamed f session request)) (\<lambda>t.
         then_do (note_first_token so start out) (\<lambda>out.
         then_do (append_token out (re_token t) (re_text t) sink) (\<lambda>out.
           let out = out\<lparr>rt_final_token := re_token t, rt_eog := re_eog t\<rparr> in
           if fr_type f = T_result then return (Inl (cancelling, True, out))
           else if rt_cancelled out \<and> \<not> cancelling then
             then_do (send_on so owner (control_frame T_cancel_request session request))
               (\<lambda>_. return (Inl (True, False, out)))
           else return (Inl (cancelling, False, out)))))))"

definition generate_replica ::
    "'w sockets \<Rightarrow> nat \<Rightarrow> u64 \<Rightarrow> u64 \<Rightarrow> u32 \<Rightarrow> string \<Rightarrow> int \<Rightarrow> 'w sink \<Rightarrow> ('w, request_result) act" where
  "generate_replica so owner session request position prompt token_limit sink =
     then_do (clock so) (\<lambda>start.
     then_do (start_stream so owner owner session request position prompt token_limit) (\<lambda>_.
     then_do (stream_loop (replica_step so owner session request
         (prompt_frame session request position prompt) start sink) (False, False, fresh_result)) (\<lambda>out.
     then_do (elapsed_ns so start) (\<lambda>ns.
       return (out\<lparr>rt_metrics := (rt_metrics out)\<lparr>rm_latency_ms := ms_of_ns ns\<rparr>\<rparr>)))))"

section \<open>Metrics and shutdown of a stage\<close>

definition worker_metrics :: "'w sockets \<Rightarrow> nat \<Rightarrow> ('w, string) act" where
  "worker_metrics so c =
     then_do (exchange so c (fresh_frame\<lparr>fr_type := T_metrics\<rparr>)) (\<lambda>(reply, _).
     then_do (require (fr_type reply = T_metrics \<and> fr_session reply = 0 \<and> fr_request reply = 0
         \<and> fr_rows reply = 0 \<and> fr_cols reply = 0 \<and> fr_dtype reply = dt_none \<and> fr_payload reply \<noteq> [])
       ''invalid worker metrics'') (\<lambda>_. return (string_of (fr_payload reply))))"

definition shutdown_stage :: "'w sockets \<Rightarrow> nat \<Rightarrow> ('w, unit) act" where
  "shutdown_stage so c =
     (let input = fresh_frame\<lparr>fr_type := T_shutdown\<rparr> in
      then_do (exchange so c input) (\<lambda>(reply, _). lift_sum (require_ack reply input False)))"

section \<open>Requests come back\<close>

definition drafter_back :: "'w drafter \<Rightarrow> bool" where
  "drafter_back d \<longleftrightarrow> (\<forall>p. comes_back (dr_start d p)) \<and> (\<forall>t n. comes_back (dr_propose d t n))
     \<and> (\<forall>p. comes_back (dr_rollback d p)) \<and> (\<forall>t. comes_back (dr_piece d t))"

definition draft_back :: "'w drafter option \<Rightarrow> bool" where
  "draft_back draft \<longleftrightarrow> (\<forall>d. draft = Some d \<longrightarrow> drafter_back d)"

definition sink_back :: "'w sink \<Rightarrow> bool" where
  "sink_back sink \<longleftrightarrow> (\<forall>f piece. sink = Some f \<longrightarrow> comes_back (f piece))"

lemma prod_case_back [back_intros]: "(\<And>a b. comes_back (f a b)) \<Longrightarrow> comes_back (case x of (a, b) \<Rightarrow> f a b)"
  by (cases x) simp

lemma append_token_back [back_intros]: "sink_back sink \<Longrightarrow> comes_back (append_token out t piece sink)"
  by (auto simp: append_token_def sink_back_def Let_def back_intros split: option.splits)

lemma control_loop_back [back_intros]: "comes_back (control_loop so kind input before stages)"
  by (induction stages arbitrary: before) (auto intro!: back_intros)

lemma rollback_loop_back [back_intros]: "comes_back (rollback_loop so input stages)"
  by (induction stages) (auto intro!: back_intros)

lemma commit_loop_back [back_intros]: "comes_back (commit_loop so hidden position current stages)"
  by (induction so hidden position current stages rule: commit_loop.induct) (auto intro!: back_intros)

lemma hub_step_back [back_intros]:
  "comes_back (hub_step so hidden decode first_stage network stages current m)"
  by (induction so hidden decode first_stage network stages current m rule: hub_step.induct)
     (auto intro!: back_intros)

lemma route_step_back [back_intros]: "comes_back (route_step so stages input hidden m decode ring_return)"
  by (auto simp: route_step_def ring_step_def intro!: back_intros split: option.splits)

lemma route_speculative_back [back_intros]:
  "comes_back (route_speculative so hidden stages current computed network m)"
  by (induction so hidden stages current computed network m rule: route_speculative.induct)
     (auto simp: Let_def intro!: back_intros)

lemma accept_guesses_back [back_intros]:
  assumes "drafter_back d" "sink_back sink"
  shows "comes_back (accept_guesses d sink guesses checked n out)"
  using assms
proof (induction d sink guesses checked n out rule: accept_guesses.induct)
  case (3 d sink g gs t ts n out)
  show ?case
    unfolding accept_guesses.simps Let_def
    by (intro back_intros 3 refl) (use 3(2,3) in \<open>auto simp: drafter_back_def\<close>)
qed (auto intro: back_intros)

lemma finish_round_back [back_intros]:
  assumes "drafter_back d" "sink_back sink"
  shows "comes_back (finish_round d sink n guesses checked x)"
  using assms
  by (auto simp: finish_round_def correct_guess_def Let_def drafter_back_def split: prod.splits
      intro!: back_intros)

lemma decode_round_back:
  assumes "draft_back draft" "sink_back sink"
  shows "comes_back (decode_round so stages hidden session request token_limit draft draft_tokens
    ring_return sink out)"
proof (cases draft)
  case None
  then show ?thesis
    by (auto simp: decode_round_def plain_round_def take_step_def intro!: back_intros assms)
next
  case (Some d)
  with assms have "drafter_back d" "\<And>t n. comes_back (dr_propose d t n)"
    by (auto simp: draft_back_def drafter_back_def)
  then show ?thesis unfolding decode_round_def Some option.case speculative_round_def Let_def
    by (intro back_intros assms)
qed

lemma decode_loop_back:
  assumes "draft_back draft" "sink_back sink"
  shows "decode_loop so stages hidden session request token_limit draft draft_tokens ring_return
    sink out w \<noteq> None"
  using assms
proof (induction so stages hidden session request token_limit draft draft_tokens ring_return sink out w
    rule: decode_loop.induct)
  case (1 so stages hidden session request token_limit draft draft_tokens ring_return sink out w)
  show ?case
  proof (cases "decode_round so stages hidden session request token_limit draft draft_tokens
      ring_return sink out w")
    case None
    moreover have "decode_round so stages hidden session request token_limit draft draft_tokens
        ring_return sink out w \<noteq> None"
      using decode_round_back[OF 1(2,3)] unfolding comes_back_def by blast
    ultimately show ?thesis by simp
  next
    case (Some x)
    obtain r w' where x: "x = (r, w')" by fastforce
    show ?thesis using 1(1)[OF _ Some x[symmetric]] 1(2,3) Some x
      by (subst decode_loop.simps) (cases r; simp)
  qed
qed

lemma finish_request_back [back_intros]:
  "comes_back (finish_request so stages hidden session request position preserve_session start out)"
  unfolding finish_request_def rollback_all_def commit_final_token_def control_all_def
  by (intro back_intros)

lemma check_drafter_back [back_intros]:
  "draft_back draft \<Longrightarrow> comes_back (check_drafter draft position prompt r)"
  by (auto simp: check_drafter_def Let_def draft_back_def drafter_back_def intro!: back_intros
      split: option.splits)

lemma generate_back:
  assumes "draft_back draft" "sink_back sink"
  shows "comes_back (generate so stages hidden session request position prompt token_limit
    preserve_session draft draft_tokens ring_return sink)"
proof -
  have "comes_back (decode_loop so stages hidden session request token_limit draft draft_tokens
      ring_return sink out)" for out
    using decode_loop_back[OF assms] by (auto simp: comes_back_def)
  then show ?thesis unfolding generate_def take_step_def by (intro back_intros assms)
qed

section \<open>Tokens and positions of a request\<close>

definition drafts_exactly :: "'w drafter option \<Rightarrow> bool" where
  "drafts_exactly draft \<longleftrightarrow> (\<forall>d t n w gs w'. draft = Some d
     \<longrightarrow> dr_propose d t n w = Some (Inr gs, w') \<longrightarrow> length gs = n)"

definition one_by_one :: "nat list \<Rightarrow> 'w drafter option \<Rightarrow> nat option \<Rightarrow> bool" where
  "one_by_one stages draft ring_return \<longleftrightarrow> draft \<noteq> None \<or> ring_return \<noteq> None \<or> length stages = 1"

lemma require_result_position:
  "require_result f input = Inr r \<Longrightarrow> re_position r = fr_position f \<and> position_ok f input"
  by (auto simp: require_result_def token_payload_def split: if_splits)

lemma token_step_position:
  assumes "route_step so stages (token_frame T_token session request position token) hidden m decode
      ring_return w = Some (Inr (r, m'), w')"
    and "ring_return \<noteq> None \<or> length stages = 1"
  shows "re_position r = position + 1"
proof -
  obtain f where "require_result f (token_frame T_token session request position token) = Inr r"
    using assms
    by (auto simp: route_step_def ring_step_def act_results length_Suc_conv split: option.splits if_splits)
  then show ?thesis
    by (auto dest!: require_result_position
        simp: position_ok_def token_frame_def control_frame_def fresh_frame_def)
qed

lemma plain_round_position:
  assumes "plain_round so stages hidden session request ring_return sink out w = Some (Inr out', w')"
    and "ring_return \<noteq> None \<or> length stages = 1"
  shows "rt_position out' = rt_position out + 1"
  using assms by (auto simp: plain_round_def take_step_def act_results dest!: token_step_position)

definition moved :: "bool \<Rightarrow> request_result \<Rightarrow> request_result \<Rightarrow> bool" where
  "moved exact out out' \<longleftrightarrow> length (token_ids out) \<le> length (token_ids out')
     \<and> (exact \<longrightarrow> rt_position out'
          = rt_position out + word_of_nat (length (token_ids out') - length (token_ids out)))"

lemma moved_trans: "moved e a b \<Longrightarrow> moved e b c \<Longrightarrow> moved e a c"
  by (auto simp: moved_def simp flip: of_nat_add)

lemma decode_round_moved:
  assumes round: "decode_round so stages hidden session request token_limit draft draft_tokens
      ring_return sink out w = Some (Inr out', w')"
    and "drafts_exactly draft" "wants_more token_limit out"
  shows "moved (one_by_one stages draft ring_return) out out'"
    "int (length (token_ids out')) \<le> token_limit"
proof -
  have "moved (one_by_one stages draft ring_return) out out' \<and> int (length (token_ids out')) \<le> token_limit"
  proof (cases draft)
    case None
    with round have r: "plain_round so stages hidden session request ring_return sink out w
        = Some (Inr out', w')" by (simp add: decode_round_def)
    from plain_round_adds[OF r] plain_round_position[OF r] None assms(3) show ?thesis
      by (auto simp: moved_def one_by_one_def adds_def wants_more_def)
  next
    case (Some d)
    let ?n = "nat (min draft_tokens (token_limit - int (length (token_ids out))))"
    from round Some have "speculative_round so d stages hidden session request token_limit draft_tokens
        sink out w = Some (Inr out', w')" by (simp add: decode_round_def)
    from speculative_round_kept[OF this] obtain guesses ts v' and checked :: speculative_result where
      "dr_propose d (rt_final_token out) ?n w = Some (Inr guesses, v')"
      and kept: "round_kept ?n guesses (sv_tokens checked) ts out out'"
      by blast
    with assms(2) Some have "length guesses = ?n" unfolding drafts_exactly_def by blast
    with kept assms(3) show ?thesis
      by (auto simp: round_kept_def moved_def adds_def wants_more_def)
  qed
  then show "moved (one_by_one stages draft ring_return) out out'"
    "int (length (token_ids out')) \<le> token_limit" by simp_all
qed

lemma decode_loop_moved:
  assumes "decode_loop so stages hidden session request token_limit draft draft_tokens ring_return
      sink out w = Some (Inr out', w')" "drafts_exactly draft"
  shows "moved (one_by_one stages draft ring_return) out out'
    \<and> int (length (token_ids out')) \<le> max token_limit (int (length (token_ids out)))
    \<and> \<not> wants_more token_limit out'"
  using assms
proof (induction so stages hidden session request token_limit draft draft_tokens ring_return sink out w
    rule: decode_loop.induct)
  case (1 so stages hidden session request token_limit draft draft_tokens ring_return sink out w)
  show ?case
  proof (cases "wants_more token_limit out")
    case False
    with 1(2) show ?thesis by (auto simp: decode_loop.simps moved_def)
  next
    case True
    with 1(2) obtain out1 w1 where
      round: "decode_round so stages hidden session request token_limit draft draft_tokens ring_return
          sink out w = Some (Inr out1, w1)" and
      rest: "decode_loop so stages hidden session request token_limit draft draft_tokens ring_return
          sink out1 w1 = Some (Inr out', w')"
      by (subst (asm) decode_loop.simps) (auto split: option.splits prod.splits sum.splits)
    from 1(1)[OF _ round refl refl rest 1(3)] True
    have "moved (one_by_one stages draft ring_return) out1 out'
      \<and> int (length (token_ids out')) \<le> max token_limit (int (length (token_ids out1)))
      \<and> \<not> wants_more token_limit out'" by simp
    with decode_round_moved[OF round 1(3) True] moved_trans show ?thesis by auto
  qed
qed

lemma decode_loop_grows:
  assumes "decode_loop so stages hidden session request token_limit draft draft_tokens ring_return
      sink out w = Some (Inr out', w')"
  shows "out' = out \<or> length (token_ids out) < length (token_ids out')"
  using assms
proof (induction so stages hidden session request token_limit draft draft_tokens ring_return sink out w
    rule: decode_loop.induct)
  case (1 so stages hidden session request token_limit draft draft_tokens ring_return sink out w)
  show ?case
  proof (cases "wants_more token_limit out")
    case False
    with 1(2) show ?thesis by (simp add: decode_loop.simps)
  next
    case True
    with 1(2) obtain out1 w1 where
      round: "decode_round so stages hidden session request token_limit draft draft_tokens ring_return
          sink out w = Some (Inr out1, w1)" and
      rest: "decode_loop so stages hidden session request token_limit draft draft_tokens ring_return
          sink out1 w1 = Some (Inr out', w')"
      by (subst (asm) decode_loop.simps) (auto split: option.splits prod.splits sum.splits)
    from 1(1)[OF _ round refl refl rest] True decode_round_grows[OF round] show ?thesis by auto
  qed
qed

lemma finish_request_position:
  assumes "finish_request so stages hidden session request position preserve_session start out w
      = Some (Inr out', w')"
  shows "token_ids out' = token_ids out" "rt_cancelled out' = rt_cancelled out" "rt_eog out' = rt_eog out"
    "rt_position out' = rt_position out + (if preserve_session \<and> \<not> rt_cancelled out then 1 else 0)"
  using assms by (auto simp: finish_request_def act_results split: if_splits)

text \<open>The parts of a request that returned: the prompt, the first token, the loop and the end.\<close>

lemma generate_parts:
  assumes "generate so stages hidden session request position prompt token_limit preserve_session draft
      draft_tokens ring_return sink w = Some (Inr out', w')"
  obtains r m m' first out w1 w2 w3 w4 start where
    "route_step so stages (prompt_frame session request position prompt) hidden fresh_metrics False
         ring_return w = Some (Inr (r, m), w1)"
    "take_step fresh_result r m' sink w1 = Some (Inr first, w2)" "rm_token_ids m' = []"
    "decode_loop so stages hidden session request token_limit draft draft_tokens ring_return sink
         first w3 = Some (Inr out, w4)"
    "finish_request so stages hidden session request position preserve_session start out w4
         = Some (Inr out', w')"
proof -
  from assms obtain r m ns ns' first out w1 w2 w3 w4 start where
    parts: "route_step so stages (prompt_frame session request position prompt) hidden fresh_metrics
        False ring_return w = Some (Inr (r, m), w1)"
      "take_step fresh_result r (m\<lparr>rm_prefill_ms := ms_of_ns ns, rm_ttft_ms := ms_of_ns ns'\<rparr>) sink w1
        = Some (Inr first, w2)"
      "decode_loop so stages hidden session request token_limit draft draft_tokens ring_return sink
         first w3 = Some (Inr out, w4)"
      "finish_request so stages hidden session request position preserve_session start out w4
         = Some (Inr out', w')"
    by (auto simp: generate_def act_results elapsed_ns_def)
  from route_step_tokens[OF parts(1)]
  have "rm_token_ids (m\<lparr>rm_prefill_ms := ms_of_ns ns, rm_ttft_ms := ms_of_ns ns'\<rparr>) = []"
    by (simp add: fresh_metrics_def)
  from that[OF parts(1,2) this parts(3,4)] show thesis .
qed

lemma take_step_first:
  assumes "take_step fresh_result r m sink w = Some (Inr first, w')" "rm_token_ids m = []"
  shows "token_ids first = [re_token r]" "rt_position first = re_position r"
  using assms by (auto simp: take_step_def act_results adds_def dest: append_token_adds)

lemma generate_counts:
  assumes gen: "generate so stages hidden session request position prompt token_limit preserve_session
      draft draft_tokens ring_return sink w = Some (Inr out', w')"
    and "drafts_exactly draft"
  shows "1 \<le> length (token_ids out')" "int (length (token_ids out')) \<le> max token_limit 1"
    "\<not> wants_more token_limit out'"
    "\<exists>r m w1. route_step so stages (prompt_frame session request position prompt) hidden fresh_metrics
         False ring_return w = Some (Inr (r, m), w1)
       \<and> (one_by_one stages draft ring_return
          \<longrightarrow> rt_position out' = re_position r + word_of_nat (length (token_ids out') - 1)
              + (if preserve_session \<and> \<not> rt_cancelled out' then 1 else 0))"
proof -
  obtain r m m' first out w1 w2 w3 w4 start where
    step: "route_step so stages (prompt_frame session request position prompt) hidden fresh_metrics
        False ring_return w = Some (Inr (r, m), w1)" and
    first: "take_step fresh_result r m' sink w1 = Some (Inr first, w2)" "rm_token_ids m' = []" and
    loop: "decode_loop so stages hidden session request token_limit draft draft_tokens ring_return sink
        first w3 = Some (Inr out, w4)" and
    fin: "finish_request so stages hidden session request position preserve_session start out w4
        = Some (Inr out', w')"
    by (rule generate_parts[OF gen])
  note first = take_step_first[OF first] and fin = finish_request_position[OF fin]
  note moved = decode_loop_moved[OF loop assms(2)]
  from moved first fin show "1 \<le> length (token_ids out')"
    "int (length (token_ids out')) \<le> max token_limit 1" "\<not> wants_more token_limit out'"
    by (auto simp: moved_def wants_more_def)
  show "\<exists>r m w1. route_step so stages (prompt_frame session request position prompt) hidden
       fresh_metrics False ring_return w = Some (Inr (r, m), w1)
       \<and> (one_by_one stages draft ring_return
          \<longrightarrow> rt_position out' = re_position r + word_of_nat (length (token_ids out') - 1)
              + (if preserve_session \<and> \<not> rt_cancelled out' then 1 else 0))"
    using step moved first fin by (intro exI[of _ r] exI[of _ m] exI[of _ w1]) (auto simp: moved_def)
qed

section \<open>What a request promises\<close>

text \<open>C15. A request through the stages always comes back, with an answer or an exception: for
every behaviour of the sockets, the decode loop ends because each round that succeeds adds a token
and the loop stops at the token limit. The drafter and the sink must come back when called.\<close>

theorem generate_comes_back:
  assumes "draft_back draft" "sink_back sink"
  shows "generate so stages hidden session request position prompt token_limit preserve_session draft
    draft_tokens ring_return sink w \<noteq> None"
  using generate_back[OF assms] unfolding comes_back_def by blast

definition echo_drafter :: "'w drafter" where
  "echo_drafter = \<lparr>dr_start = (\<lambda>_. return 3), dr_propose = (\<lambda>t n. return (replicate n t)),
     dr_rollback = (\<lambda>_. return ()), dr_piece = (\<lambda>_. return ''A''), dr_is_eog = (\<lambda>t. t = 0)\<rparr>"

lemma echo_drafter_back: "draft_back (Some echo_drafter)"
  by (auto simp: draft_back_def drafter_back_def echo_drafter_def intro: back_intros)

theorem generate_comes_back_witness:
  "generate scripted [0] 64 7 1 0 ''hi'' 3 True (Some echo_drafter) 4 None None (script (\<lambda>_. [])) \<noteq> None"
  by (rule generate_comes_back[OF echo_drafter_back]) (simp add: sink_back_def)

text \<open>An answer holds at least one token and no more than the limit (one when the limit is
smaller); a shorter answer ended at an end-of-generation token or was cancelled. Where the client
itself learns each position (a drafter, a ring or a single stage), the position it keeps is the
prompt's end plus the tokens fed back, plus one for the final token that is committed.\<close>

theorem generate_answer_bounded:
  assumes "generate so stages hidden session request position prompt token_limit preserve_session draft
      draft_tokens ring_return sink w = Some (Inr out, w')"
    and "drafts_exactly draft"
  shows "1 \<le> length (token_ids out) \<and> int (length (token_ids out)) \<le> max token_limit 1
    \<and> (int (length (token_ids out)) < token_limit \<longrightarrow> rt_eog out \<or> rt_cancelled out)
    \<and> (\<exists>r m w1. route_step so stages (prompt_frame session request position prompt) hidden
          fresh_metrics False ring_return w = Some (Inr (r, m), w1)
        \<and> (one_by_one stages draft ring_return
           \<longrightarrow> rt_position out = re_position r + word_of_nat (length (token_ids out) - 1)
               + (if preserve_session \<and> \<not> rt_cancelled out then 1 else 0)))"
  using generate_counts[OF assms] by (auto simp: wants_more_def)

definition demo_reply :: "msg_type \<Rightarrow> u32 \<Rightarrow> u8 list \<Rightarrow> frame" where
  "demo_reply kind position payload =
     (control_frame kind 7 1)\<lparr>fr_position := position, fr_payload := payload\<rparr>"

definition demo_token :: "u32 \<Rightarrow> u32 \<Rightarrow> frame" where
  "demo_token position token = demo_reply T_result position (put32 token @ put64 5 @ [0, 65])"

definition demo_script :: "(nat \<Rightarrow> frame list) io" where
  "demo_script = script ((\<lambda>_. [])(0 := [demo_token 3 11, demo_token 4 12,
     demo_reply T_ack 5 [], demo_reply T_ack 5 []]))"

lemma demo_frame_fields [simp]:
  "fr_type (demo_reply kind p bs) = kind" "fr_session (demo_reply kind p bs) = 7"
  "fr_request (demo_reply kind p bs) = 1" "fr_position (demo_reply kind p bs) = p"
  "fr_rows (demo_reply kind p bs) = 0" "fr_cols (demo_reply kind p bs) = 0"
  "fr_dtype (demo_reply kind p bs) = dt_none" "fr_payload (demo_reply kind p bs) = bs"
  by (simp_all add: demo_reply_def control_frame_def fresh_frame_def)

lemma demo_token_payload:
  "length (put32 t @ put64 5 @ [0, 65]) = 14" "(put32 t @ put64 5 @ [0, 65]) ! 12 = 0"
  "token_payload (demo_token p t)
    = \<lparr>re_token = t, re_compute_ns = 5, re_eog = False, re_text = ''A'', re_position = p\<rparr>"
  "fr_type (demo_token p t) = T_result" "length (fr_payload (demo_token p t)) = 14"
  using c32.get_put c64.get_put c32.put_width c64.put_width
  by (auto simp: token_payload_def demo_token_def nth_append string_of_def char_of_def bit_0)

lemma demo_token_result:
  assumes "fr_session input = 7" "fr_request input = 1" "fr_rows input = 0"
    "if fr_type input = T_prompt then p > fr_position input else p = fr_position input + 1"
  shows "require_result (demo_token p t) input
    = Inr \<lparr>re_token = t, re_compute_ns = 5, re_eog = False, re_text = ''A'', re_position = p\<rparr>"
  using assms demo_token_payload
  by (auto simp: require_result_def position_ok_def demo_token_def)

lemma put_lengths [simp]: "length (put32 t) = 4" "length (put64 x) = 8"
  using c32.put_width c64.put_width by auto

lemma demo_script_runs:
  "\<exists>out w. generate scripted [0] 64 7 1 0 ''hi'' 2 True None 4 None None demo_script
     = Some (Inr out, w) \<and> token_ids out = [11, 12] \<and> rt_position out = 5"
  by (simp add: generate_def route_step_def act_run script_def demo_script_def demo_token_result
      control_frame_def prompt_frame_def fresh_frame_def bytes_of_def max_payload_def
      take_step_def append_token_def check_drafter_def decode_loop.simps wants_more_def
      decode_round_def plain_round_def token_frame_def finish_request_def commit_final_token_def
      require_ack_def control_all_def fresh_metrics_def fresh_result_def decode_metric_def
      demo_token_payload)

theorem generate_answer_bounded_witness:
  "\<exists>out w. generate scripted [0] 64 7 1 0 ''hi'' 2 True None 4 None None demo_script = Some (Inr out, w)
     \<and> int (length (token_ids out)) \<le> max 2 1"
proof -
  from demo_script_runs obtain out w where
    "generate scripted [0] 64 7 1 0 ''hi'' 2 True None 4 None None demo_script = Some (Inr out, w)" by blast
  with generate_answer_bounded[OF this] show ?thesis by (auto simp: drafts_exactly_def)
qed

text \<open>C16. A drafter never decides a token. A speculative round sends the route the guesses the drafter
made in that round, and what it adds to the answer is a non-empty run of the tokens the route
itself chose for that block, row by row, at most as many as were guessed: all but the last were
guessed right, so nothing is kept past the first wrong guess, and the run stops earlier only
at the end of the text or when the client cancels. When the drafter proposed as many tokens as it was
asked for, the position kept afterwards is exactly past those tokens.\<close>

theorem speculative_round_keeps_targets:
  assumes "speculative_round so d stages hidden session request token_limit draft_tokens sink out w
      = Some (Inr out', w')"
    and "n = nat (min draft_tokens (token_limit - int (length (token_ids out))))"
  shows "\<exists>guesses checked ts ns m' w1 w2.
     dr_propose d (rt_final_token out) n w = Some (Inr guesses, w1)
     \<and> route_speculative so hidden stages (block_frame session request out n guesses) [] 0
         (rt_metrics (note_draft ns guesses out)) w1 = Some (Inr (checked, m'), w2)
     \<and> token_ids out' = token_ids out @ ts \<and> ts \<noteq> []
     \<and> ts = take (length ts) (sv_tokens checked) \<and> length ts \<le> length guesses
     \<and> butlast ts = take (length ts - 1) guesses
     \<and> (length ts = length guesses \<or> last ts \<noteq> guesses ! (length ts - 1) \<or> rt_eog out' \<or> rt_cancelled out')
     \<and> (length guesses = n \<longrightarrow> rt_position out' = rt_position out + word_of_nat (length ts))"
  using speculative_round_kept[OF assms(1)] unfolding round_kept_def adds_def assms(2) by blast

text \<open>The drafter guesses 11, 11; the stage chooses 11, 20.\<close>

definition demo_checked :: frame where
  "demo_checked = (demo_reply T_result 5 (put64 9 @ put32 11 @ put32 20))\<lparr>fr_rows := 2\<rparr>"

definition demo_before :: request_result where
  "demo_before = fresh_result\<lparr>rt_position := 3, rt_final_token := 11\<rparr>"

lemma demo_checked_tokens:
  "get64 (put64 9 @ put32 11 @ put32 20) = 9" "speculative_tokens demo_checked = [11, 20]"
  using c64.get_put[of 9] c32.get_at[of "put64 9" 8 11 "put32 20"] c32.get_at[of "put64 9 @ put32 11" 12 20 "[]"]
  by (simp_all add: speculative_tokens_def demo_checked_def upt_rec)

lemma replicate_two: "replicate 2 x = [x, x]"
  by (simp add: numeral_2_eq_2)

lemma demo_round_runs:
  "\<exists>out' w. speculative_round scripted echo_drafter [0] 64 7 1 4 2 None demo_before
     (script ((\<lambda>_. [])(0 := [demo_checked]))) = Some (Inr out', w) \<and> token_ids out' = [11, 20]"
  using demo_checked_tokens
  by (simp add: replicate_two counted_activation_def speculative_round_def act_run script_def echo_drafter_def demo_before_def
      block_frame_def control_frame_def fresh_frame_def demo_checked_def max_payload_def
      require_speculative_def note_draft_def fresh_result_def fresh_metrics_def append_token_def
      finish_round_def correct_guess_def round_metrics_def Let_def)

theorem speculative_round_keeps_targets_witness:
  "\<exists>out' w. speculative_round scripted echo_drafter [0] 64 7 1 4 2 None demo_before
     (script ((\<lambda>_. [])(0 := [demo_checked]))) = Some (Inr out', w)
     \<and> (\<exists>ts. token_ids out' = token_ids demo_before @ ts \<and> ts \<noteq> [])"
proof -
  from demo_round_runs obtain out' w where
    "speculative_round scripted echo_drafter [0] 64 7 1 4 2 None demo_before
       (script ((\<lambda>_. [])(0 := [demo_checked]))) = Some (Inr out', w)" by blast
  with speculative_round_keeps_targets[OF this refl] show ?thesis by blast
qed

section \<open>Rows between stages\<close>

text \<open>
  A first stage that answers a block of two rows with an activation of one row, and a last stage
  that answers that activation.
\<close>

definition short_activation :: frame where
  "short_activation = (demo_reply T_speculative_activation 3 (put64 1 @ put32 0))\<lparr>
     fr_rows := 1, fr_cols := 1, fr_dtype := dt_f32le\<rparr>"

definition short_result :: frame where
  "short_result = (demo_reply T_result 4 (put64 1 @ put32 11))\<lparr>fr_rows := 1\<rparr>"

lemma short_result_tokens: "get64 (put64 1 @ put32 11) = 1" "speculative_tokens short_result = [11]"
  using c64.get_put[of 1] c32.get_at[of "put64 1" 8 11 "[]"]
  by (simp_all add: speculative_tokens_def short_result_def upt_rec)

text \<open>No check ties the rows of an intermediate activation to the rows of the block: a stage
that drops a row, followed by a last stage that answers the rows it was given, passes every check,
and the client then reads past the end of the returned tokens.\<close>

theorem dropped_row_reads_out_of_range:
  "\<exists>w. speculative_round scripted echo_drafter [0, 1] 1 7 1 4 2 None demo_before
     (script ((\<lambda>_. [])(0 := [short_activation], 1 := [short_result]))) = Some (Inl out_of_range, w)"
  using short_result_tokens
  by (simp add: replicate_two counted_activation_def speculative_round_def act_run script_def
      echo_drafter_def demo_before_def block_frame_def control_frame_def fresh_frame_def
      short_activation_def short_result_def max_payload_def require_speculative_def
      require_activation_def activation_dtype_def activation_bytes_def dt_f32le_def dt_f16le_def
      dt_fp8e4m3_def note_draft_def fresh_result_def fresh_metrics_def append_token_def
      activation_metric_def Let_def)

end
