(* ===== verification/Client_Sessions.thy ===== *)
theory Client_Sessions
  imports Client
begin

text \<open>
  \<^verbatim>\<open>InferenceClient\<close> (\<^verbatim>\<open>engine/client.cpp\<close>): a route of stages, its sessions with
  their positions and request numbers, and the ring's return connection. An operation takes the
  client and the world and gives both back also when it throws. The linking threads of a ring
  session run in an order that is an argument; random session numbers are a list of draws.
\<close>

section \<open>Routes and clients\<close>

record inference_route =
  ir_stage_endpoints :: "string list"
  ir_hidden :: u32
  ir_ring_targets :: "string list"
  ir_peer_ids :: "string list"
  ir_return_listen :: string
  ir_return_target :: string
  ir_loop_target :: string
  ir_replica :: bool

record session_state =
  sn_position :: u32
  sn_next_request :: u64

record inference_client =
  ic_route :: inference_route
  ic_stages :: "nat list"
  ic_sessions :: "u64 \<rightharpoonup> session_state"
  ic_listener :: "nat option"
  ic_ring_return :: "nat option"

type_synonym ('w, 'a) client_act =
  "inference_client \<Rightarrow> 'w io \<Rightarrow> ((string + 'a) \<times> inference_client \<times> 'w io) option"

definition ring :: "inference_route \<Rightarrow> bool" where
  "ring r \<longleftrightarrow> ir_return_listen r \<noteq> []"

definition loops :: "inference_route \<Rightarrow> bool" where
  "loops r \<longleftrightarrow> ir_loop_target r \<noteq> []"

definition validate_route :: "inference_route \<Rightarrow> string + unit" where
  "validate_route r =
     (let n = length (ir_stage_endpoints r) in
      if n = 0 then Inl ''route has no stages''
      else if ir_hidden r = 0 then Inl ''route hidden size is unknown''
      else if ir_replica r then
        (if n \<noteq> 1 \<or> ring r \<or> ir_ring_targets r \<noteq> [] \<or> ir_peer_ids r \<noteq> [] \<or> ir_loop_target r \<noteq> []
         then Inl ''a replica route is its owner alone'' else Inr ())
      else if ring r then
        (if ir_return_target r = [] \<or> length (ir_ring_targets r) \<noteq> n
            \<or> [] \<in> set (tl (ir_ring_targets r))
            \<or> (ir_peer_ids r \<noteq> [] \<and> length (ir_peer_ids r) \<noteq> n)
         then Inl ''incomplete ring route'' else Inr ())
      else if ir_ring_targets r \<noteq> [] \<or> ir_peer_ids r \<noteq> [] \<or> ir_return_target r \<noteq> []
      then Inl ''ring route fields need a return listener'' else Inr ())"

section \<open>Opening a client\<close>

primrec connect_all :: "'w sockets \<Rightarrow> string list \<Rightarrow> ('w, nat list) act" where
  "connect_all so [] = return []"
| "connect_all so (endpoint # rest) =
     then_do (connect_endpoint so endpoint) (\<lambda>c.
     then_do (connect_all so rest) (\<lambda>cs. return (c # cs)))"

definition open_listener :: "'w sockets \<Rightarrow> inference_route \<Rightarrow> ('w, nat option) act" where
  "open_listener so r =
     (if ring r then then_do (listen_on so (ir_return_listen r)) (\<lambda>l. return (Some l)) else return None)"

definition new_client :: "inference_route \<Rightarrow> nat list \<Rightarrow> nat option \<Rightarrow> inference_client" where
  "new_client r stages listener = \<lparr>ic_route = r, ic_stages = stages, ic_sessions = Map.empty,
     ic_listener = listener, ic_ring_return = None\<rparr>"

definition open_client :: "'w sockets \<Rightarrow> inference_route \<Rightarrow> ('w, inference_client) act" where
  "open_client so r =
     then_do (lift_sum (validate_route r)) (\<lambda>_.
     then_do (connect_all so (ir_stage_endpoints r)) (\<lambda>stages.
     then_do (open_listener so r) (\<lambda>listener. return (new_client r stages listener))))"

text \<open>With connections that are already open; \<^const>\<open>None\<close> is an empty pointer.\<close>

definition adopt_client ::
    "'w sockets \<Rightarrow> inference_route \<Rightarrow> nat option list \<Rightarrow> ('w, inference_client) act" where
  "adopt_client so r connections =
     then_do (lift_sum (validate_route r)) (\<lambda>_.
     then_do (require (length connections = length (ir_stage_endpoints r) \<and> None \<notin> set connections)
         ''route needs one open connection per stage'') (\<lambda>_.
     then_do (open_listener so r) (\<lambda>listener.
       return (new_client r (map the connections) listener))))"

text \<open>The return connection replaces its listener; a created session starts at position 0.\<close>

definition joined :: "nat \<Rightarrow> inference_client \<Rightarrow> inference_client" where
  "joined conn c = c\<lparr>ic_ring_return := Some conn, ic_listener := None\<rparr>"

definition fresh_session :: session_state where
  "fresh_session = \<lparr>sn_position = 0, sn_next_request = 1\<rparr>"

definition with_session :: "u64 \<Rightarrow> inference_client \<Rightarrow> inference_client" where
  "with_session session c = c\<lparr>ic_sessions := (ic_sessions c)(session \<mapsto> fresh_session)\<rparr>"

lemma session_made [simp]:
  "ic_sessions (with_session session c) = (ic_sessions c)(session \<mapsto> fresh_session)"
  "ic_stages (with_session session c) = ic_stages c"
  "ic_ring_return (with_session session c) = ic_ring_return c"
  "ic_sessions (joined conn c) = ic_sessions c" "ic_stages (joined conn c) = ic_stages c"
  "ic_ring_return (joined conn c) = Some conn" "ic_route (with_session session c) = ic_route c"
  "ic_route (joined conn c) = ic_route c"
  by (simp_all add: with_session_def joined_def)

definition close_route :: "inference_client \<Rightarrow> inference_client" where
  "close_route c = c\<lparr>ic_listener := None, ic_ring_return := None, ic_stages := [],
     ic_sessions := Map.empty\<rparr>"

section \<open>Ring sessions\<close>

definition stage_route :: "inference_route \<Rightarrow> nat \<Rightarrow> nat \<Rightarrow> ring_route" where
  "stage_route r n index =
     (let p2p = ir_peer_ids r \<noteq> [];
          is_last = (index + 1 = n);
          next_hop = (if is_last then ir_return_target r else ir_ring_targets r ! (index + 1));
          previous = (if p2p \<and> index \<noteq> 0 then ir_peer_ids r ! (index - 1) else []);
          looping = loops r
      in \<lparr>rr_next = next_hop,
          rr_previous_peer = (if looping \<and> index = 0 \<and> p2p \<and> n > 1 then last (ir_peer_ids r) else previous),
          rr_loop = (if looping \<and> is_last then (if n = 1 then loop_self else ir_loop_target r) else [])\<rparr>)"

definition link_stage :: "'w sockets \<Rightarrow> inference_client \<Rightarrow> u64 \<Rightarrow> nat \<Rightarrow> ('w, unit) act" where
  "link_stage so c session index =
     (let message = route_message (stage_route (ic_route c) (length (ic_stages c)) index);
          input = (control_frame T_create_session session 0)\<lparr>fr_payload := bytes_of message\<rparr>
      in then_do (exchange so (ic_stages c ! index) input)
           (\<lambda>(reply, _). lift_sum (require_ack reply input False)))"

text \<open>Every stage is linked; the outcome is each stage's exception text, if it threw.\<close>

primrec link_all ::
    "'w sockets \<Rightarrow> inference_client \<Rightarrow> u64 \<Rightarrow> nat list \<Rightarrow> 'w io \<Rightarrow> ((nat \<times> string option) list \<times> 'w io) option" where
  "link_all so c session [] w = Some ([], w)"
| "link_all so c session (i # order) w =
     Option.bind (link_stage so c session i w) (\<lambda>(r, w').
       map_option (\<lambda>(rs, w''). ((i, case r of Inl e \<Rightarrow> Some e | Inr _ \<Rightarrow> None) # rs, w''))
         (link_all so c session order w'))"

definition first_failure :: "nat \<Rightarrow> (nat \<times> string option) list \<Rightarrow> string option" where
  "first_failure n outcomes =
     (case List.find (\<lambda>i. Option.bind (map_of outcomes i) id \<noteq> None) [0..<n] of
        None \<Rightarrow> None
      | Some i \<Rightarrow> Option.bind (map_of outcomes i) id)"

definition linked :: "nat \<Rightarrow> (nat \<times> string option) list \<Rightarrow> nat list" where
  "linked n outcomes = filter (\<lambda>i. map_of outcomes i = Some None) [0..<n]"

primrec destroy_created ::
    "'w sockets \<Rightarrow> inference_client \<Rightarrow> u64 \<Rightarrow> nat list \<Rightarrow> ('w, unit) act" where
  "destroy_created so c session [] = return ()"
| "destroy_created so c session (i # created) =
     then_do (catch (then_do (exchange so (ic_stages c ! i) (control_frame T_destroy_session session 0))
          (\<lambda>_. return ())) (\<lambda>_. return ()))
       (\<lambda>_. destroy_created so c session created)"

text \<open>The catch block: the stages that were linked forget the session, and the route is closed.\<close>

definition undo_links ::
    "'w sockets \<Rightarrow> u64 \<Rightarrow> nat list \<Rightarrow> string \<Rightarrow> ('w, unit) client_act" where
  "undo_links so session created e c w =
     map_option (\<lambda>(_, w'). (Inl e, close_route c, w')) (destroy_created so c session created w)"

definition create_ring_session ::
    "'w sockets \<Rightarrow> nat list \<Rightarrow> u64 \<Rightarrow> ('w, unit) client_act" where
  "create_ring_session so order session c w =
     (let n = length (ic_stages c);
          expected = (if ir_peer_ids (ic_route c) \<noteq> [] then last (ir_peer_ids (ic_route c)) else [])
      in Option.bind (link_all so c session order w) (\<lambda>(outcomes, w).
        let created = linked n outcomes in
        case first_failure n outcomes of
          Some e \<Rightarrow> undo_links so session created e c w
        | None \<Rightarrow>
            (case ic_ring_return c of
               Some _ \<Rightarrow> Some (Inr (), c, w)
             | None \<Rightarrow>
                 (case ic_listener c of
                    None \<Rightarrow> undo_links so session created ''ring return accept failed'' c w
                  | Some listener \<Rightarrow>
                      Option.bind (accept_ring_return so listener expected w) (\<lambda>(accepted, w).
                        case accepted of
                          Inl e \<Rightarrow> undo_links so session created e c w
                        | Inr conn \<Rightarrow>
                            Some (Inr (), joined conn c, w))))))"

section \<open>Session numbers and sessions\<close>

fun new_session_id :: "(u64 \<rightharpoonup> session_state) \<Rightarrow> u32 list \<Rightarrow> u64 option" where
  "new_session_id sessions (high # low # draws) =
     (let candidate = push_bit 32 (ucast high) OR ucast low in
      if candidate = 0 \<or> sessions candidate \<noteq> None then new_session_id sessions draws
      else Some candidate)"
| "new_session_id sessions draws = None"

text \<open>An action on the stages that leaves the client as it is.\<close>

definition keep_client :: "('w, 'a) act \<Rightarrow> ('w, 'a) client_act" where
  "keep_client m c w = map_option (\<lambda>(r, w'). (r, c, w')) (m w)"

definition create_session ::
    "'w sockets \<Rightarrow> nat list \<Rightarrow> u32 list \<Rightarrow> ('w, u64) client_act" where
  "create_session so order draws c w =
     (if ic_stages c = [] then Some (Inl ''route is closed'', c, w)
      else Option.bind (new_session_id (ic_sessions c) draws) (\<lambda>session.
        Option.bind (if ring (ic_route c) then create_ring_session so order session c w
                     else keep_client (control_all so (ic_stages c) T_create_session session 0) c w)
          (\<lambda>(r, c, w). case r of
             Inl e \<Rightarrow> Some (Inl e, c, w)
           | Inr _ \<Rightarrow> Some (Inr session, with_session session c, w))))"

definition set_position :: "u64 \<Rightarrow> u32 \<Rightarrow> inference_client \<Rightarrow> inference_client" where
  "set_position session position c = c\<lparr>ic_sessions := (ic_sessions c)(session :=
     map_option (\<lambda>s. s\<lparr>sn_position := position\<rparr>) (ic_sessions c session))\<rparr>"

definition reset_session :: "'w sockets \<Rightarrow> u64 \<Rightarrow> ('w, unit) client_act" where
  "reset_session so session c w =
     (if ic_sessions c session = None then Some (Inl ''unknown session ID'', c, w)
      else map_option (\<lambda>(r, w'). case r of
             Inl e \<Rightarrow> (Inl e, c, w') | Inr _ \<Rightarrow> (Inr (), set_position session 0 c, w'))
        (control_all so (ic_stages c) T_reset_session session 0 w))"

definition destroy_session :: "'w sockets \<Rightarrow> u64 \<Rightarrow> ('w, unit) client_act" where
  "destroy_session so session c w =
     (if ic_sessions c session = None then Some (Inl ''unknown session ID'', c, w)
      else map_option (\<lambda>(r, w'). case r of
             Inl e \<Rightarrow> (Inl e, c, w')
           | Inr _ \<Rightarrow> (Inr (), c\<lparr>ic_sessions := (ic_sessions c)(session := None)\<rparr>, w'))
        (control_all so (ic_stages c) T_destroy_session session 0 w))"

section \<open>Chat preparation\<close>

definition chat_reply_ok :: "u64 \<Rightarrow> frame option \<Rightarrow> frame \<Rightarrow> bool" where
  "chat_reply_ok session before reply \<longleftrightarrow>
     fr_type reply = T_ack \<and> fr_session reply = session \<and> fr_request reply = 0
     \<and> fr_cols reply = 0 \<and> fr_dtype reply = dt_none \<and> fr_payload reply = []
     \<and> fr_rows reply \<noteq> 0 \<and> fr_position reply < fr_rows reply
     \<and> (\<forall>p. before = Some p \<longrightarrow> fr_position reply = fr_position p \<and> fr_rows reply = fr_rows p)"

primrec prepare_loop ::
    "'w sockets \<Rightarrow> u64 \<Rightarrow> frame \<Rightarrow> frame option \<Rightarrow> nat list \<Rightarrow> ('w, frame) act" where
  "prepare_loop so session input before [] =
     return (case before of None \<Rightarrow> fresh_frame | Some p \<Rightarrow> p)"
| "prepare_loop so session input before (s # rest) =
     then_do (exchange so s input) (\<lambda>(reply, _).
     then_do (require (chat_reply_ok session before reply) ''invalid chat preparation reply'') (\<lambda>_.
       prepare_loop so session (input\<lparr>fr_position := fr_position reply\<rparr>) (Some reply) rest))"

definition prepare_chat :: "'w sockets \<Rightarrow> u64 \<Rightarrow> string \<Rightarrow> ('w, frame) client_act" where
  "prepare_chat so session json c w =
     (if ic_sessions c session = None then Some (Inl ''unknown session ID'', c, w)
      else
        let input = (control_frame T_prepare_chat session 0)\<lparr>fr_payload := bytes_of json\<rparr> in
        Option.bind (prepare_loop so session input None (ic_stages c) w) (\<lambda>(r, w).
          case r of
            Inr prepared \<Rightarrow> Some (Inr prepared, set_position session (fr_position prepared) c, w)
          | Inl e \<Rightarrow>
              map_option (\<lambda>(r, c, w). (case r of Inl e' \<Rightarrow> Inl e' | Inr _ \<Rightarrow> Inl e, c, w))
                (reset_session so session c w)))"

section \<open>Requests of a session\<close>

definition take_request :: "u64 \<Rightarrow> inference_client \<Rightarrow> inference_client" where
  "take_request session c = c\<lparr>ic_sessions := (ic_sessions c)(session :=
     map_option (\<lambda>s. s\<lparr>sn_next_request := sn_next_request s + 1\<rparr>) (ic_sessions c session))\<rparr>"

definition run_request ::
    "'w sockets \<Rightarrow> inference_client \<Rightarrow> u64 \<Rightarrow> u64 \<Rightarrow> u32 \<Rightarrow> string \<Rightarrow> int \<Rightarrow> bool \<Rightarrow> 'w sink
     \<Rightarrow> ('w, request_result) act" where
  "run_request so c session request position prompt max_tokens preserve_session sink =
     (let r = ic_route c; stages = ic_stages c in
      if ir_replica r
      then generate_replica so (hd stages) session request position prompt max_tokens sink
      else case ic_ring_return c of
             Some ring_return \<Rightarrow>
               if loops r
               then generate_loop so stages session request position prompt max_tokens
                 preserve_session ring_return (ir_hidden r) sink
               else generate so stages (ir_hidden r) session request position prompt max_tokens
                 preserve_session None 4 (Some ring_return) sink
           | None \<Rightarrow>
               generate so stages (ir_hidden r) session request position prompt max_tokens
                 preserve_session None 4 None sink)"

definition client_generate ::
    "'w sockets \<Rightarrow> u64 \<Rightarrow> string \<Rightarrow> int \<Rightarrow> 'w sink \<Rightarrow> ('w, request_result) client_act" where
  "client_generate so session prompt max_tokens sink c w =
     (case ic_sessions c session of
        None \<Rightarrow> Some (Inl ''unknown session ID'', c, w)
      | Some state \<Rightarrow>
          let c' = take_request session c in
          map_option (\<lambda>(r, w'). case r of
              Inl e \<Rightarrow> (Inl e, c', w')
            | Inr result \<Rightarrow> (Inr result, set_position session (rt_position result) c', w'))
            (run_request so c' session (sn_next_request state) (sn_position state) prompt max_tokens
               True sink w))"

definition generate_once ::
    "'w sockets \<Rightarrow> nat list \<Rightarrow> u32 list \<Rightarrow> string \<Rightarrow> int \<Rightarrow> ('w, request_result) client_act" where
  "generate_once so order draws prompt max_tokens c w =
     Option.bind (create_session so order draws c w) (\<lambda>(r, c, w).
       case r of
         Inl e \<Rightarrow> Some (Inl e, c, w)
       | Inr session \<Rightarrow>
           let c = take_request session c in
           Option.bind (run_request so c session 1 0 prompt max_tokens False None w) (\<lambda>(r, w).
             case r of
               Inl e \<Rightarrow> Some (Inl e, c, w)
             | Inr result \<Rightarrow>
                 map_option (\<lambda>(r, c, w). (case r of Inl e \<Rightarrow> Inl e | Inr _ \<Rightarrow> Inr result, c, w))
                   (destroy_session so session c w)))"

section \<open>Totals and shutdown\<close>

primrec stage_metrics :: "'w sockets \<Rightarrow> nat list \<Rightarrow> ('w, string list) act" where
  "stage_metrics so [] = return []"
| "stage_metrics so (s # rest) =
     then_do (worker_metrics so s) (\<lambda>m. then_do (stage_metrics so rest) (\<lambda>ms. return (m # ms)))"

definition activations_received :: "inference_client \<Rightarrow> 'w io \<Rightarrow> u64" where
  "activations_received c w =
     (case ic_ring_return c of None \<Rightarrow> 0 | Some r \<Rightarrow> io_activations w r)
     + sum_list (map (io_activations w) (ic_stages c))"

primrec shutdown_stages :: "'w sockets \<Rightarrow> nat list \<Rightarrow> ('w, unit) act" where
  "shutdown_stages so [] = return ()"
| "shutdown_stages so (s # rest) = then_do (shutdown_stage so s) (\<lambda>_. shutdown_stages so rest)"

section \<open>Sessions need an open route\<close>

text \<open>
  What holds of a client at any time: a closed route has no sessions, an open one has a connection
  for every stage; session numbers are never zero; in ring mode a session implies the return
  connection, and the listener is given up once that connection is there.
\<close>

definition client_inv :: "inference_client \<Rightarrow> bool" where
  "client_inv c \<longleftrightarrow>
     (ic_stages c = [] \<longrightarrow> ic_sessions c = Map.empty)
     \<and> (ic_stages c \<noteq> [] \<longrightarrow> length (ic_stages c) = length (ir_stage_endpoints (ic_route c)))
     \<and> validate_route (ic_route c) = Inr ()
     \<and> ic_sessions c 0 = None
     \<and> (ring (ic_route c) \<and> ic_sessions c \<noteq> Map.empty \<longrightarrow> ic_ring_return c \<noteq> None)
     \<and> (ic_ring_return c \<noteq> None \<longrightarrow> ring (ic_route c) \<and> ic_listener c = None)"

inductive client_step :: "'w sockets \<Rightarrow> inference_client \<Rightarrow> inference_client \<Rightarrow> bool" for so where
  created: "create_session so order draws c w = Some (r, c', w') \<Longrightarrow> client_step so c c'"
| reset: "reset_session so session c w = Some (r, c', w') \<Longrightarrow> client_step so c c'"
| destroyed: "destroy_session so session c w = Some (r, c', w') \<Longrightarrow> client_step so c c'"
| prepared: "prepare_chat so session json c w = Some (r, c', w') \<Longrightarrow> client_step so c c'"
| generated: "client_generate so session prompt max_tokens sink c w = Some (r, c', w') \<Longrightarrow> client_step so c c'"
| once: "generate_once so order draws prompt max_tokens c w = Some (r, c', w') \<Longrightarrow> client_step so c c'"

lemma session_updates [simp]:
  "(ic_sessions (set_position session p c) = Map.empty) = (ic_sessions c = Map.empty)"
  "(ic_sessions (set_position session p c) t = None) = (ic_sessions c t = None)"
  "(ic_sessions (take_request session c) = Map.empty) = (ic_sessions c = Map.empty)"
  "(ic_sessions (take_request session c) t = None) = (ic_sessions c t = None)"
  by (auto simp: set_position_def take_request_def fun_eq_iff)

lemma session_updates_keep [simp]:
  "ic_stages (set_position session p c) = ic_stages c" "ic_route (set_position session p c) = ic_route c"
  "ic_ring_return (set_position session p c) = ic_ring_return c"
  "ic_listener (set_position session p c) = ic_listener c"
  "ic_stages (take_request session c) = ic_stages c" "ic_route (take_request session c) = ic_route c"
  "ic_ring_return (take_request session c) = ic_ring_return c"
  "ic_listener (take_request session c) = ic_listener c"
  by (simp_all add: set_position_def take_request_def)

lemma set_position_inv [simp]: "client_inv (set_position session p c) = client_inv c"
  by (simp add: client_inv_def)

lemma take_request_inv [simp]: "client_inv (take_request session c) = client_inv c"
  by (simp add: client_inv_def)

lemma close_route_inv: "client_inv c \<Longrightarrow> client_inv (close_route c)"
  by (simp add: client_inv_def close_route_def)

lemma undo_links_result:
  "undo_links so session created e c w = Some (r, c', w') \<Longrightarrow> r = Inl e \<and> c' = close_route c"
  by (auto simp: undo_links_def)

lemma new_session_id_fresh:
  "new_session_id sessions draws = Some s \<Longrightarrow> s \<noteq> 0 \<and> sessions s = None"
  by (induction sessions draws rule: new_session_id.induct) (auto simp: Let_def split: if_splits)

text \<open>A ring session either links every stage and has the return connection, or closes the route.\<close>

lemma create_ring_session_result:
  assumes "create_ring_session so order session c w = Some (r, c', w')"
  shows "(\<exists>e. r = Inl e \<and> c' = close_route c)
    \<or> (r = Inr () \<and> c' = c \<and> ic_ring_return c \<noteq> None)
    \<or> (\<exists>conn. r = Inr () \<and> c' = joined conn c \<and> ic_ring_return c = None)"
  using assms
  by (auto simp: create_ring_session_def Let_def elim!: bind_SomeE dest!: undo_links_result
      split: option.splits sum.splits) blast+

definition made_session :: "inference_client \<Rightarrow> inference_client \<Rightarrow> bool" where
  "made_session c c' \<longleftrightarrow> (if ring (ic_route c) \<and> ic_ring_return c = None
     then (\<exists>conn. c' = joined conn c) else c' = c)"

lemma made_session_keeps:
  assumes "made_session c c'"
  shows "ic_sessions c' = ic_sessions c" "ic_stages c' = ic_stages c"
    "ring (ic_route c) \<Longrightarrow> ic_ring_return c' \<noteq> None"
  using assms by (auto simp: made_session_def split: if_split_asm)

lemma make_session_result:
  assumes "(if ring (ic_route c) then create_ring_session so order session c w
      else keep_client (control_all so (ic_stages c) T_create_session session 0) c w) = Some (r, c', w')"
  shows "(\<exists>e. r = Inl e \<and> (c' = c \<or> ring (ic_route c) \<and> c' = close_route c))
    \<or> (r = Inr () \<and> made_session c c')"
proof (cases "ring (ic_route c)")
  case True
  with assms show ?thesis by (auto simp: made_session_def dest!: create_ring_session_result)
next
  case False
  with assms show ?thesis by (cases r) (auto simp: made_session_def keep_client_def)
qed

lemma create_session_result:
  assumes "create_session so order draws c w = Some (r, c', w')"
  shows "(\<exists>e. r = Inl e \<and> (c' = c \<or> ring (ic_route c) \<and> c' = close_route c))
    \<or> (\<exists>session c1. r = Inr session \<and> session \<noteq> 0 \<and> ic_sessions c session = None \<and> ic_stages c \<noteq> []
        \<and> made_session c c1 \<and> c' = with_session session c1)"
proof (cases "ic_stages c = []")
  case True
  with assms show ?thesis by (auto simp: create_session_def)
next
  case False
  with assms obtain session r1 c1 w1 where
    "new_session_id (ic_sessions c) draws = Some session"
    and made: "(if ring (ic_route c) then create_ring_session so order session c w
        else keep_client (control_all so (ic_stages c) T_create_session session 0) c w) = Some (r1, c1, w1)"
    and rest: "(case r1 of Inl e \<Rightarrow> Some (Inl e, c1, w1)
        | Inr _ \<Rightarrow> Some (Inr session, with_session session c1, w1)) = Some (r, c', w')"
    unfolding create_session_def by (auto elim!: bind_SomeE simp del: if_split)
  from make_session_result[OF made] rest False new_session_id_fresh[OF this(1)] show ?thesis
    by (auto split: sum.splits)
qed

lemma create_session_inv:
  assumes "client_inv c" "create_session so order draws c w = Some (r, c', w')"
  shows "client_inv c'"
  using create_session_result[OF assms(2)] assms(1)
  by (auto simp: close_route_inv)
     (auto simp: client_inv_def with_session_def made_session_def joined_def split: if_splits)

lemma forget_session_inv:
  "client_inv c \<Longrightarrow> client_inv (c\<lparr>ic_sessions := (ic_sessions c)(session := None)\<rparr>)"
  by (auto simp: client_inv_def)

lemma reset_session_result:
  "reset_session so session c w = Some (r, c', w')
   \<Longrightarrow> c' = set_position session 0 c \<and> r = Inr () \<or> c' = c \<and> (\<exists>e. r = Inl e)"
  by (auto simp: reset_session_def simp del: map_option_eq_Some elim!: map_SomeE
      split: if_splits sum.splits)

lemma destroy_session_inv:
  "client_inv c \<Longrightarrow> destroy_session so session c w = Some (r, c', w') \<Longrightarrow> client_inv c'"
  by (auto simp: destroy_session_def forget_session_inv simp del: map_option_eq_Some elim!: map_SomeE
      split: if_splits sum.splits)

lemma prepare_chat_result:
  "prepare_chat so session json c w = Some (r, c', w')
   \<Longrightarrow> (\<exists>p. c' = set_position session p c) \<or> c' = c"
  by (auto simp: prepare_chat_def Let_def simp del: map_option_eq_Some elim!: bind_SomeE map_SomeE
      dest!: reset_session_result
      split: if_splits sum.splits)

lemma client_generate_result:
  "client_generate so session prompt max_tokens sink c w = Some (r, c', w')
   \<Longrightarrow> c' = c \<or> c' = take_request session c \<or> (\<exists>p. c' = set_position session p (take_request session c))"
  by (auto simp: client_generate_def Let_def simp del: map_option_eq_Some elim!: map_SomeE
      split: option.splits sum.splits)

lemma generate_once_inv:
  assumes "client_inv c" "generate_once so order draws prompt max_tokens c w = Some (r, c', w')"
  shows "client_inv c'"
proof -
  from assms(2) obtain r1 c1 w1 where
    made: "create_session so order draws c w = Some (r1, c1, w1)"
    unfolding generate_once_def by (auto elim!: bind_SomeE)
  have inv: "client_inv c1" by (rule create_session_inv[OF assms(1) made])
  show ?thesis
  proof (cases r1)
    case (Inl e)
    with made assms(2) inv show ?thesis by (simp add: generate_once_def)
  next
    case (Inr session)
    with made assms(2) inv show ?thesis
      by (auto simp: generate_once_def Let_def simp del: map_option_eq_Some elim!: bind_SomeE map_SomeE
          split: sum.splits dest!: destroy_session_inv[rotated])
  qed
qed

lemma client_step_inv:
  assumes "client_step so c c'" "client_inv c"
  shows "client_inv c'"
  using assms
proof cases
  case (created order draws w r w')
  then show ?thesis using create_session_inv assms(2) by blast
next
  case (reset session w r w')
  then show ?thesis using assms(2) by (auto dest: reset_session_result)
next
  case (destroyed session w r w')
  then show ?thesis using destroy_session_inv assms(2) by blast
next
  case (prepared session json w r w')
  then show ?thesis using assms(2) by (auto dest: prepare_chat_result)
next
  case (generated session prompt max_tokens sink w r w')
  then show ?thesis using assms(2) by (auto dest!: client_generate_result)
next
  case (once order draws prompt max_tokens w r w')
  then show ?thesis using generate_once_inv assms(2) by blast
qed

text \<open>A client starts from an open route, connected or adopted.\<close>

definition opened :: "'w sockets \<Rightarrow> inference_client \<Rightarrow> bool" where
  "opened so c \<longleftrightarrow> (\<exists>r w w'. open_client so r w = Some (Inr c, w'))
     \<or> (\<exists>r conns w w'. adopt_client so r conns w = Some (Inr c, w'))"

lemma connect_all_length:
  "connect_all so endpoints w = Some (Inr cs, w') \<Longrightarrow> length cs = length endpoints"
  by (induction endpoints arbitrary: w cs) (auto simp: act_results)

lemma opened_inv: "opened so c \<Longrightarrow> client_inv c"
  by (auto simp: opened_def open_client_def adopt_client_def act_results client_inv_def new_client_def
      dest: connect_all_length)

interpretation client_sys: invariant_system "opened so" "client_step so" client_inv for so
  by unfold_locales (auto intro: opened_inv client_step_inv)

text \<open>C28. Whatever a client does after its route was opened, a session it knows has a non-zero
number and an open connection to every stage of a valid route, and in ring mode the return
connection is there; a route that was closed keeps no session.\<close>

theorem client_sessions_have_route:
  assumes "opened so c" "(client_step so)\<^sup>*\<^sup>* c c'" "ic_sessions c' session = Some state"
  shows "session \<noteq> 0 \<and> ic_stages c' \<noteq> []
    \<and> length (ic_stages c') = length (ir_stage_endpoints (ic_route c'))
    \<and> validate_route (ic_route c') = Inr () \<and> (ring (ic_route c') \<longrightarrow> ic_ring_return c' \<noteq> None)"
  using client_sys.reachable_inv[OF assms(1,2)] assms(3)
  by (auto simp: client_inv_def intro!: notI)

definition demo_route :: inference_route where
  "demo_route = \<lparr>ir_stage_endpoints = [''127.0.0.1:9''], ir_hidden = 64, ir_ring_targets = [],
     ir_peer_ids = [], ir_return_listen = [], ir_return_target = [], ir_loop_target = [],
     ir_replica = False\<rparr>"

definition demo_client :: inference_client where
  "demo_client = new_client demo_route [0] None"

lemma demo_client_opened: "opened scripted demo_client"
proof -
  have "adopt_client scripted demo_route [Some 0] (script (\<lambda>_. [])) = Some (Inr demo_client, script (\<lambda>_. []))"
    by (simp add: adopt_client_def act_run validate_route_def demo_route_def ring_def open_listener_def
        demo_client_def)
  then show ?thesis unfolding opened_def by blast
qed

definition demo_session :: u64 where
  "demo_session = 7"

lemma demo_session_created:
  "create_session scripted [] [0, 7] demo_client
     (script ((\<lambda>_. [])(0 := [control_frame T_ack demo_session 0])))
   = Some (Inr demo_session, with_session demo_session demo_client, script (\<lambda>_. []))"
  by (simp add: create_session_def demo_client_def new_client_def ring_def demo_route_def
      keep_client_def control_all_def act_run script_def control_frame_def fresh_frame_def
      max_payload_def require_ack_def demo_session_def counted_activation_def fun_eq_iff)

theorem client_sessions_have_route_witness:
  "demo_session \<noteq> 0 \<and> ic_stages (with_session demo_session demo_client) \<noteq> []"
proof -
  from demo_session_created have "client_step scripted demo_client (with_session demo_session demo_client)"
    by (rule client_step.created)
  then have "(client_step scripted)\<^sup>*\<^sup>* demo_client (with_session demo_session demo_client)" by simp
  moreover have "ic_sessions (with_session demo_session demo_client) demo_session = Some fresh_session"
    by (simp add: with_session_def)
  ultimately show ?thesis
    using client_sessions_have_route[OF demo_client_opened] by blast
qed

text \<open>C29. Creating a session either throws, leaving the client unchanged or, in ring mode, closing
its route; or it gives a non-zero number that was not in use, with the new session at position 0,
every other session as it was, and in ring mode the return connection in place.\<close>

theorem create_session_outcome:
  assumes "create_session so order draws c w = Some (r, c', w')"
  shows "(\<exists>e. r = Inl e \<and> (c' = c \<or> ring (ic_route c) \<and> ic_stages c' = [] \<and> ic_sessions c' = Map.empty))
    \<or> (\<exists>session. r = Inr session \<and> session \<noteq> 0 \<and> ic_sessions c session = None
        \<and> ic_sessions c' = (ic_sessions c)(session \<mapsto> fresh_session)
        \<and> ic_stages c' = ic_stages c \<and> (ring (ic_route c) \<longrightarrow> ic_ring_return c' \<noteq> None))"
  using create_session_result[OF assms] made_session_keeps
  by (elim disjE exE conjE) (auto simp: close_route_def)

theorem create_session_outcome_witness:
  "\<exists>session. ic_sessions (with_session demo_session demo_client)
     = (ic_sessions demo_client)(session \<mapsto> fresh_session)"
  using create_session_outcome[OF demo_session_created] by blast

section \<open>A cancelled answer\<close>

lemma prompt_step_moves:
  assumes "route_step so stages (prompt_frame session request position prompt) hidden m decode
      ring_return w = Some (Inr (r, m'), w')"
  shows "re_position r \<noteq> position"
proof -
  have hub: "re_position r \<noteq> fr_position current"
    if "hub_step so hidden decode first_stage network stages current m w = Some (Inr (r, m'), w')"
      "fr_rows current \<noteq> 0 \<or> fr_type current = T_prompt"
    for first_stage network stages current m w
    using that
    by (induction so hidden decode first_stage network stages current m arbitrary: w rule: hub_step.induct)
       (fastforce simp: act_results require_activation_def Let_def position_ok_def
         dest!: require_result_position split: if_splits)+
  have kind: "fr_type (prompt_frame session request position prompt) = T_prompt"
    "fr_position (prompt_frame session request position prompt) = position"
    "fr_rows (prompt_frame session request position prompt) = 0"
    by (simp_all add: prompt_frame_def control_frame_def fresh_frame_def)
  from assms hub kind show ?thesis
    by (fastforce simp: route_step_def ring_step_def act_results position_ok_def
        dest!: require_result_position split: if_splits option.splits)
qed

text \<open>A cancelled answer is rolled back on every stage to the position the request started
from, but the session keeps the position its tokens had reached: after an answer cancelled at its
first token, the client's position for the session is not the position the stages hold.\<close>

theorem cancelled_answer_moves_session:
  assumes "client_generate so session prompt max_tokens sink c w = Some (Inr result, c', w')"
    and "ic_sessions c session = Some state" "\<not> ir_replica (ic_route c)"
    and "ic_ring_return c = None" "rt_cancelled result" "length (token_ids result) = 1"
  shows "(\<exists>w1 w2. rollback_all so (ic_stages c) session (sn_next_request state) (sn_position state) w1
        = Some (Inr (), w2))
    \<and> (\<exists>state'. ic_sessions c' session = Some state' \<and> sn_position state' \<noteq> sn_position state)"
proof -
  from assms have gen: "generate so (ic_stages c) (ir_hidden (ic_route c)) session
      (sn_next_request state) (sn_position state) prompt max_tokens True None 4 None sink w
      = Some (Inr result, w')"
    and c': "c' = set_position session (rt_position result) (take_request session c)"
    by (auto simp: client_generate_def run_request_def Let_def simp del: map_option_eq_Some
        elim!: map_SomeE split: sum.splits)
  show ?thesis
  proof (rule generate_parts[OF gen])
    fix r m m' first out w1 w2 w3 w4 start
    assume step: "route_step so (ic_stages c) (prompt_frame session (sn_next_request state)
        (sn_position state) prompt) (ir_hidden (ic_route c)) fresh_metrics False None w
        = Some (Inr (r, m), w1)"
      and first: "take_step fresh_result r m' sink w1 = Some (Inr first, w2)" "rm_token_ids m' = []"
      and loop: "decode_loop so (ic_stages c) (ir_hidden (ic_route c)) session (sn_next_request state)
          max_tokens None 4 None sink first w3 = Some (Inr out, w4)"
      and fin: "finish_request so (ic_stages c) (ir_hidden (ic_route c)) session
          (sn_next_request state) (sn_position state) True start out w4 = Some (Inr result, w')"
    note first = take_step_first[OF first] and fin_position = finish_request_position[OF fin]
    from decode_loop_grows[OF loop] first fin_position assms(6) have "out = first" by auto
    with first fin_position assms(5) prompt_step_moves[OF step]
    have "rt_position result \<noteq> sn_position state" by simp
    moreover from fin fin_position assms(5)
    have "\<exists>w1 w2. rollback_all so (ic_stages c) session (sn_next_request state) (sn_position state) w1
        = Some (Inr (), w2)"
      by (auto simp: finish_request_def act_results)
    ultimately show ?thesis using assms(2) by (auto simp: c' set_position_def take_request_def)
  qed
qed

text \<open>A sink that refuses the first piece.\<close>

definition cancel_script :: "(nat \<Rightarrow> frame list) io" where
  "cancel_script = script ((\<lambda>_. [])(0 := [demo_token 3 11, demo_reply T_ack 0 [], demo_reply T_ack 0 []]))"

lemma cancel_client:
  "take_request demo_session (with_session demo_session demo_client)
   = demo_client\<lparr>ic_sessions := [demo_session \<mapsto> \<lparr>sn_position = 0, sn_next_request = 2\<rparr>]\<rparr>"
  by (simp add: take_request_def with_session_def demo_client_def new_client_def fresh_session_def)

lemma cancel_script_runs:
  "\<exists>result c' w'. client_generate scripted demo_session ''hi'' 5 (Some (\<lambda>_. return False))
     (with_session demo_session demo_client) cancel_script = Some (Inr result, c', w')
     \<and> rt_cancelled result \<and> length (token_ids result) = 1"
  by (simp add: client_generate_def cancel_client run_request_def demo_client_def new_client_def
      demo_route_def Let_def fresh_session_def generate_def route_step_def act_run script_def cancel_script_def
      demo_token_result demo_token_payload demo_session_def
      control_frame_def prompt_frame_def fresh_frame_def bytes_of_def max_payload_def
      take_step_def append_token_def check_drafter_def decode_loop.simps wants_more_def
      finish_request_def rollback_all_def control_all_def require_ack_def fresh_metrics_def fresh_result_def)

theorem cancelled_answer_moves_session_witness:
  "\<exists>result c' w' state'. client_generate scripted demo_session ''hi'' 5 (Some (\<lambda>_. return False))
     (with_session demo_session demo_client) cancel_script = Some (Inr result, c', w')
     \<and> ic_sessions c' demo_session = Some state' \<and> sn_position state' \<noteq> 0"
proof -
  from cancel_script_runs obtain result c' w' where
    run: "client_generate scripted demo_session ''hi'' 5 (Some (\<lambda>_. return False))
      (with_session demo_session demo_client) cancel_script = Some (Inr result, c', w')"
      "rt_cancelled result" "length (token_ids result) = 1" by blast
  from cancelled_answer_moves_session[OF run(1), of fresh_session] run(2,3)
  have "\<exists>state'. ic_sessions c' demo_session = Some state' \<and> sn_position state' \<noteq> 0"
    by (auto simp: demo_client_def new_client_def demo_route_def fresh_session_def)
  with run(1) show ?thesis by blast
qed

end
