(* ===== verification/Stage.thy ===== *)
theory Stage
  imports Activations Speculation Measurement Protocol "HOL-Library.AList"
begin

text \<open>
  One loaded stage of a worker (class \<^verbatim>\<open>Stage\<close> of \<^verbatim>\<open>engine/stage_worker.cpp\<close>): its sessions
  with their KV sequences and positions, and the handler of every frame. The model library is the
  record \<open>llama\<close>, whose context is the type parameter; a handler gives back its reply or the
  text of the exception, the chunks it emitted on the way, and the stage as it is left, also when
  it throws.
\<close>

section \<open>The model library\<close>

datatype batch_input = BToken u32 | BEmbd "float32 list"

record batch_row =
  bt_input :: batch_input
  bt_pos :: nat
  bt_seq :: nat
  bt_logits :: bool

record chat_prepared =
  ch_prompt :: "u8 list"
  ch_temp :: rat
  ch_grammar :: string
  ch_penalty_repeat :: rat
  ch_penalty_freq :: rat
  ch_penalty_present :: rat

record 'k llama =
  la_seq_rm :: "nat \<Rightarrow> int \<Rightarrow> 'k \<Rightarrow> bool \<times> 'k"
  la_decode :: "batch_row list \<Rightarrow> 'k \<Rightarrow> int \<times> 'k"
  la_embeddings :: "nat \<Rightarrow> 'k \<Rightarrow> u32 list option"
  la_fp16 :: "u32 \<Rightarrow> u16"
  la_fp32 :: "u16 \<Rightarrow> u32"
  la_tokenize :: "u8 list \<Rightarrow> nat \<Rightarrow> int \<times> u32 list"
  la_piece :: "u32 \<Rightarrow> nat \<Rightarrow> int \<times> string"
  la_is_eog :: "u32 \<Rightarrow> bool"
  la_n_vocab :: u32
  la_sample :: "int \<Rightarrow> 'k \<Rightarrow> u32"
  la_chat_sample :: "u64 \<Rightarrow> int \<Rightarrow> 'k \<Rightarrow> u32 \<times> 'k"
  la_chat :: "string \<Rightarrow> 'k \<Rightarrow> string + chat_prepared"
  la_chat_sampler :: "u64 \<Rightarrow> chat_prepared \<Rightarrow> u32 list \<Rightarrow> 'k \<Rightarrow> bool \<times> 'k"
  la_compute_ns :: "'k \<Rightarrow> u64"
  la_memory_clear :: "'k \<Rightarrow> 'k"

text \<open>\<^verbatim>\<open>std::vector::resize\<close> of a token list.\<close>

definition resize :: "nat \<Rightarrow> u32 list \<Rightarrow> u32 list" where
  "resize n xs = take n xs @ replicate (n - length xs) 0"

text \<open>\<^verbatim>\<open>tokenize\<close> and \<^verbatim>\<open>piece\<close>: one call asks for the size, a second one fills the buffer.\<close>

definition tokenize :: "'k llama \<Rightarrow> u8 list \<Rightarrow> string + u32 list" where
  "tokenize la bytes =
     (let n = - fst (la_tokenize la bytes 0) in
      if n \<le> 0 then Inl ''prompt tokenization failed''
      else case la_tokenize la bytes (nat n) of
             (m, tokens) \<Rightarrow>
               if m \<noteq> n then Inl ''prompt tokenization changed size'' else Inr (resize (nat n) tokens))"

definition piece :: "'k llama \<Rightarrow> u32 \<Rightarrow> string + string" where
  "piece la token =
     (let n = fst (la_piece la token 0) in
      if n = 0 then Inr []
      else if n > 0 then Inl ''unexpected token piece probe result''
      else case la_piece la token (nat (- n)) of
             (m, bytes) \<Rightarrow> if m < 0 then Inl ''token conversion failed'' else Inr (take (nat m) bytes))"

section \<open>Sessions and the stage\<close>

record draft_state =
  ds_policy :: adaptive_width
  ds_pending :: "u32 list"
  ds_at :: u32
  ds_request :: u64

record worker_session =
  ws_sequence :: nat
  ws_position :: u32
  ws_active_request :: u64
  ws_last_request :: u64
  ws_has_prompt :: bool
  ws_draft :: draft_state
  ws_chat_sampler :: bool
  ws_chat_request :: bool
  ws_chat_speculative :: bool
  ws_chat_pending :: bool
  ws_history :: "u32 list"
  ws_chat_tokens :: "u32 list"

record timing =
  ti_ns :: u64
  ti_rows :: u64
  ti_samples :: u32

record 'k stage =
  sg_first :: bool
  sg_last :: bool
  sg_hidden :: u32
  sg_context_size :: u32
  sg_max_sessions :: nat
  sg_wire :: dtype
  sg_draft_width :: u32
  sg_sequence_used :: "bool list"
  sg_sessions :: "(u64 \<times> worker_session) list"
  sg_active_session :: u64
  sg_shutting_down :: bool
  sg_requests_served :: u64
  sg_tokens_processed :: u64
  sg_tokens_generated :: u64
  sg_decode_batches :: u64
  sg_step_ns :: u64
  sg_timings :: "((phase \<times> u32) \<times> timing) list"
  sg_llama :: 'k

definition fresh_draft :: "u32 \<Rightarrow> draft_state" where
  "fresh_draft width = \<lparr>ds_policy = new_width width, ds_pending = [], ds_at = 0, ds_request = 0\<rparr>"

definition fresh_worker_session :: "u32 \<Rightarrow> nat \<Rightarrow> worker_session" where
  "fresh_worker_session width sequence = \<lparr>ws_sequence = sequence, ws_position = 0, ws_active_request = 0,
     ws_last_request = 0, ws_has_prompt = False, ws_draft = fresh_draft width, ws_chat_sampler = False,
     ws_chat_request = False, ws_chat_speculative = False, ws_chat_pending = False, ws_history = [],
     ws_chat_tokens = []\<rparr>"

definition session_of :: "u64 \<Rightarrow> 'k stage \<Rightarrow> worker_session option" where
  "session_of session s = map_of (sg_sessions s) session"

definition put_session :: "u64 \<Rightarrow> worker_session \<Rightarrow> 'k stage \<Rightarrow> 'k stage" where
  "put_session session ws s = s\<lparr>sg_sessions := AList.update session ws (sg_sessions s)\<rparr>"

section \<open>Frames and hidden states\<close>

definition guess_bytes :: "frame \<Rightarrow> nat" where
  "guess_bytes f =
     (if fr_type f \<noteq> T_speculative_activation \<or> fr_rows f < 2 then 0
      else
        let tail = (unat (fr_rows f) - 1) * 4 in
        if (word_of_nat (length (fr_payload f)) :: u64)
             = 8 + activation_bytes (fr_dtype f) (ucast (fr_rows f)) (ucast (fr_cols f)) + word_of_nat tail
        then tail else 0)"

definition words_of :: "u8 list \<Rightarrow> u32 list" where
  "words_of bytes = map (\<lambda>i. get32 (drop (4 * i) bytes)) [0..<length bytes div 4]"

definition carried_guesses :: "frame \<Rightarrow> u32 list" where
  "carried_guesses f = words_of (drop (length (fr_payload f) - guess_bytes f) (fr_payload f))"

text \<open>One row in the wire format: little-endian floats, half floats or a scaled fp8 row.\<close>

definition wire_row :: "'k llama \<Rightarrow> dtype \<Rightarrow> u32 list \<Rightarrow> u8 list" where
  "wire_row la wire row =
     (if wire = dt_f16le then concat (map (\<lambda>x. rev (put16 (la_fp16 la x))) row)
      else if wire = dt_fp8e4m3 then pack_fp8_row (map f32_of_bits row)
      else concat (map (\<lambda>x. rev (put32 x)) row))"

primrec hidden_rows :: "'k llama \<Rightarrow> 'k stage \<Rightarrow> nat list \<Rightarrow> u8 list option" where
  "hidden_rows la s [] = Some []"
| "hidden_rows la s (i # rest) =
     (case la_embeddings la i (sg_llama s) of
        None \<Rightarrow> None
      | Some row \<Rightarrow> map_option (\<lambda>bytes. wire_row la (sg_wire s) row @ bytes) (hidden_rows la s rest))"

text \<open>\<^verbatim>\<open>put_hidden\<close> and the time in the first eight bytes.\<close>

definition put_hidden :: "'k llama \<Rightarrow> 'k stage \<Rightarrow> frame \<Rightarrow> nat \<Rightarrow> nat \<Rightarrow> u64 \<Rightarrow> frame option" where
  "put_hidden la s output rows offset compute =
     map_option (\<lambda>bytes. output\<lparr>fr_dtype := sg_wire s, fr_payload := put64 compute @ bytes\<rparr>)
       (hidden_rows la s [offset..<offset + rows])"

definition slices :: "nat \<Rightarrow> nat \<Rightarrow> u8 list \<Rightarrow> u8 list list" where
  "slices n width bytes = map (\<lambda>i. take width (drop (i * width) bytes)) [0..<n]"

definition get_hidden :: "'k llama \<Rightarrow> frame \<Rightarrow> float32 list list" where
  "get_hidden la f =
     (let rows = unat (fr_rows f); cols = unat (fr_cols f); data = drop 8 (fr_payload f) in
      if fr_dtype f = dt_fp8e4m3 then map unpack_fp8_row (slices rows (cols + 4) data)
      else if fr_dtype f = dt_f16le
      then map (\<lambda>row. map (\<lambda>x. f32_of_bits (la_fp32 la (get16 (rev x)))) (slices cols 2 row))
             (slices rows (cols * 2) data)
      else map (\<lambda>row. map (\<lambda>x. f32_of_bits (get32 (rev x))) (slices cols 4 row))
             (slices rows (cols * 4) data))"

definition stage_ack :: "frame \<Rightarrow> u32 \<Rightarrow> u64 \<Rightarrow> frame" where
  "stage_ack input position compute = fresh_frame\<lparr>fr_type := T_ack, fr_session := fr_session input,
     fr_request := fr_request input, fr_position := position,
     fr_payload := (if compute \<noteq> 0 then put64 compute else [])\<rparr>"

definition result_frame :: "frame \<Rightarrow> u32 \<Rightarrow> u32 \<Rightarrow> u64 \<Rightarrow> bool \<Rightarrow> string \<Rightarrow> frame" where
  "result_frame input position token compute ends txt = fresh_frame\<lparr>fr_type := T_result,
     fr_session := fr_session input, fr_request := fr_request input, fr_position := position,
     fr_payload := put32 token @ put64 compute @ [if ends then 1 else 0] @ bytes_of txt\<rparr>"

definition verified_frame :: "frame \<Rightarrow> u32 \<Rightarrow> u64 \<Rightarrow> u32 list \<Rightarrow> frame" where
  "verified_frame input position compute samples = fresh_frame\<lparr>fr_type := T_result,
     fr_session := fr_session input, fr_request := fr_request input, fr_position := position,
     fr_rows := word_of_nat (length samples), fr_payload := put64 compute @ concat (map put32 samples)\<rparr>"

section \<open>Timings\<close>

definition note_timing :: "phase \<Rightarrow> u32 \<Rightarrow> nat \<Rightarrow> u64 \<Rightarrow> 'k stage \<Rightarrow> 'k stage" where
  "note_timing ph bucket rows compute s =
     (let t = (case map_of (sg_timings s) (ph, bucket) of
                 None \<Rightarrow> \<lparr>ti_ns = 0, ti_rows = 0, ti_samples = 0\<rparr> | Some t \<Rightarrow> t)
      in s\<lparr>sg_timings := AList.update (ph, bucket)
            \<lparr>ti_ns = ti_ns t + compute, ti_rows = ti_rows t + word_of_nat rows,
             ti_samples = ti_samples t + 1\<rparr> (sg_timings s)\<rparr>)"

definition note_step :: "nat \<Rightarrow> bool \<Rightarrow> u64 \<Rightarrow> 'k stage \<Rightarrow> 'k stage" where
  "note_step rows prompt compute s =
     (if rows = 0 \<or> compute = 0 then s
      else
        let active = word_of_nat (length (filter id (sg_sequence_used s)));
            s = (if \<not> prompt \<and> rows \<le> 8 then note_timing Decode (sessions_bucket active) rows compute s
                 else if rows \<ge> 64 then note_timing Prefill (sessions_bucket active) rows compute s
                 else s)
        in if prompt \<or> rows > 8 then s
           else s\<lparr>sg_step_ns := (if sg_step_ns s = 0 then compute
                                else (sg_step_ns s * 9 + compute) div 10)\<rparr>)"

section \<open>Control frames\<close>

type_synonym 'k reply = "(string + frame) \<times> 'k stage"

definition require_worker_session :: "frame \<Rightarrow> 'k stage \<Rightarrow> string + worker_session" where
  "require_worker_session input s =
     (if fr_session input = 0 then Inl ''session ID must be nonzero''
      else case session_of (fr_session input) s of
             None \<Rightarrow> Inl ''unknown session ID'' | Some ws \<Rightarrow> Inr ws)"

definition control_ok :: "frame \<Rightarrow> bool \<Rightarrow> bool" where
  "control_ok input request_required \<longleftrightarrow> empty_control input \<and> fr_session input \<noteq> 0
     \<and> (if request_required then fr_request input \<noteq> 0 else fr_request input = 0)"

text \<open>The first KV sequence that is free.\<close>

fun free_sequence :: "bool list \<Rightarrow> nat option" where
  "free_sequence [] = None"
| "free_sequence (used # rest) = (if used then map_option Suc (free_sequence rest) else Some 0)"

definition stage_create :: "frame \<Rightarrow> 'k stage \<Rightarrow> 'k reply" where
  "stage_create input s =
     (if \<not> control_ok input False then (Inl ''invalid control frame'', s)
      else if session_of (fr_session input) s \<noteq> None then (Inl ''session already exists'', s)
      else if length (sg_sessions s) \<ge> sg_max_sessions s then (Inl ''session limit reached'', s)
      else case free_sequence (sg_sequence_used s) of
             None \<Rightarrow> (Inl ''session limit reached'', s)
           | Some sequence \<Rightarrow>
               (Inr (stage_ack input 0 0),
                (put_session (fr_session input) (fresh_worker_session (sg_draft_width s) sequence) s)
                  \<lparr>sg_sequence_used := (sg_sequence_used s)[sequence := True]\<rparr>))"

text \<open>Dropping the KV of a sequence from a position on; the whole sequence for \<open>-1\<close>.\<close>

definition trim_kv :: "'k llama \<Rightarrow> nat \<Rightarrow> int \<Rightarrow> 'k stage \<Rightarrow> bool \<times> 'k stage" where
  "trim_kv la sequence from_pos s =
     (case la_seq_rm la sequence from_pos (sg_llama s) of (ok, k) \<Rightarrow> (ok, s\<lparr>sg_llama := k\<rparr>))"

definition stage_reset :: "'k llama \<Rightarrow> frame \<Rightarrow> 'k stage \<Rightarrow> 'k reply" where
  "stage_reset la input s =
     (if \<not> control_ok input False then (Inl ''invalid control frame'', s)
      else case require_worker_session input s of
        Inl e \<Rightarrow> (Inl e, s)
      | Inr old \<Rightarrow>
          if ws_active_request old \<noteq> 0 then (Inl ''cannot reset active session'', s)
          else case trim_kv la (ws_sequence old) (-1) s of
            (False, s) \<Rightarrow> (Inl ''could not clear session KV'', s)
          | (True, s) \<Rightarrow>
              (Inr (stage_ack input 0 0),
               put_session (fr_session input)
                 (old\<lparr>ws_position := 0, ws_active_request := 0, ws_last_request := 0,
                      ws_has_prompt := False, ws_draft := fresh_draft (sg_draft_width s),
                      ws_history := [], ws_chat_tokens := [], ws_chat_pending := False,
                      ws_chat_request := False, ws_chat_sampler := False\<rparr>) s))"

definition stage_destroy :: "'k llama \<Rightarrow> frame \<Rightarrow> 'k stage \<Rightarrow> 'k reply" where
  "stage_destroy la input s =
     (if \<not> control_ok input False then (Inl ''invalid control frame'', s)
      else case require_worker_session input s of
        Inl e \<Rightarrow> (Inl e, s)
      | Inr ws \<Rightarrow>
          if ws_active_request ws \<noteq> 0 then (Inl ''cannot destroy active session'', s)
          else case trim_kv la (ws_sequence ws) (-1) s of
            (False, s) \<Rightarrow> (Inl ''could not clear session KV'', s)
          | (True, s) \<Rightarrow>
              (Inr (stage_ack input 0 0),
               s\<lparr>sg_sequence_used := (sg_sequence_used s)[ws_sequence ws := False],
                 sg_sessions := AList.delete (fr_session input) (sg_sessions s)\<rparr>))"

definition stage_end_request :: "frame \<Rightarrow> 'k stage \<Rightarrow> 'k reply" where
  "stage_end_request input s =
     (if \<not> control_ok input True then (Inl ''invalid control frame'', s)
      else case require_worker_session input s of
        Inl e \<Rightarrow> (Inl e, s)
      | Inr ws \<Rightarrow>
          if ws_active_request ws \<noteq> fr_request input then (Inl ''request ID mismatch at end'', s)
          else if \<not> ws_has_prompt ws then (Inl ''request ended before prompt'', s)
          else (Inr (stage_ack input (ws_position ws) 0),
                (put_session (fr_session input)
                   (ws\<lparr>ws_last_request := fr_request input, ws_active_request := 0,
                       ws_has_prompt := False\<rparr>) s)
                  \<lparr>sg_active_session := 0, sg_requests_served := sg_requests_served s + 1\<rparr>))"

text \<open>A session truncated to a position; the first stage also truncates its token history.\<close>

definition rolled_back :: "bool \<Rightarrow> u32 \<Rightarrow> worker_session \<Rightarrow> worker_session" where
  "rolled_back first_stage position ws = ws\<lparr>ws_position := position,
     ws_history := (if first_stage then resize (unat position) (ws_history ws) else ws_history ws)\<rparr>"

definition stage_rollback :: "'k llama \<Rightarrow> frame \<Rightarrow> 'k stage \<Rightarrow> 'k reply" where
  "stage_rollback la input s =
     (case require_worker_session input s of
        Inl e \<Rightarrow> (Inl e, s)
      | Inr ws \<Rightarrow>
          if fr_request input = 0 \<or> ws_active_request ws \<noteq> fr_request input
             \<or> fr_position input > ws_position ws \<or> fr_rows input \<noteq> 0 \<or> fr_cols input \<noteq> 0
             \<or> fr_dtype input \<noteq> dt_none \<or> fr_payload input \<noteq> []
          then (Inl ''invalid rollback frame'', s)
          else case trim_kv la (ws_sequence ws) (uint (fr_position input)) s of
            (False, s) \<Rightarrow> (Inl ''could not roll back session KV'', s)
          | (True, s) \<Rightarrow>
              (Inr (stage_ack input (fr_position input) 0),
               put_session (fr_session input) (rolled_back (sg_first s) (fr_position input) ws) s))"

definition stage_shutdown :: "frame \<Rightarrow> 'k stage \<Rightarrow> 'k reply" where
  "stage_shutdown input s =
     (if \<not> empty_control input \<or> fr_session input \<noteq> 0 \<or> fr_request input \<noteq> 0
      then (Inl ''invalid shutdown frame'', s)
      else if list_ex (\<lambda>(_, ws). ws_active_request ws \<noteq> 0) (sg_sessions s)
      then (Inl ''cannot shut down with an active request'', s)
      else (Inr (fresh_frame\<lparr>fr_type := T_ack\<rparr>), s\<lparr>sg_shutting_down := True\<rparr>))"

text \<open>The report text is an argument: it is formatted from the counters.\<close>

definition stage_metrics_reply :: "('k stage \<Rightarrow> string) \<Rightarrow> frame \<Rightarrow> 'k stage \<Rightarrow> 'k reply" where
  "stage_metrics_reply report input s =
     (if \<not> empty_control input \<or> fr_session input \<noteq> 0 \<or> fr_request input \<noteq> 0
      then (Inl ''invalid metrics frame'', s)
      else (Inr (fresh_frame\<lparr>fr_type := T_metrics, fr_payload := bytes_of (report s)\<rparr>), s))"

definition coordinator_disconnected :: "'k llama \<Rightarrow> 'k stage \<Rightarrow> 'k stage" where
  "coordinator_disconnected la s =
     (let s = (if sg_sessions s = [] then s
               else s\<lparr>sg_sessions := [],
                      sg_sequence_used := map (\<lambda>_. False) (sg_sequence_used s),
                      sg_llama := la_memory_clear la (sg_llama s)\<rparr>)
      in s\<lparr>sg_active_session := 0\<rparr>)"

section \<open>Chat preparation\<close>

fun common_prefix :: "u32 list \<Rightarrow> u32 list \<Rightarrow> nat" where
  "common_prefix (x # xs) (y # ys) = (if x = y then Suc (common_prefix xs ys) else 0)"
| "common_prefix _ _ = 0"

definition greedy_chat :: "chat_prepared \<Rightarrow> bool" where
  "greedy_chat p \<longleftrightarrow> ch_temp p = 0 \<and> ch_grammar p = [] \<and> ch_penalty_repeat p = 1
     \<and> ch_penalty_freq p = 0 \<and> ch_penalty_present p = 0"

text \<open>The body of the try block; the reply carries the reused and the total tokens.\<close>

definition try_prepare ::
    "'k llama \<Rightarrow> frame \<Rightarrow> worker_session \<Rightarrow> 'k stage \<Rightarrow> 'k reply" where
  "try_prepare la input ws s =
     (case la_chat la (string_of (fr_payload input)) (sg_llama s) of
        Inl e \<Rightarrow> (Inl e, s)
      | Inr prepared \<Rightarrow>
     (case tokenize la (ch_prompt prepared) of
        Inl e \<Rightarrow> (Inl e, s)
      | Inr tokens \<Rightarrow>
          if tokens = [] \<or> length tokens \<ge> unat (sg_context_size s)
          then (Inl ''session context exhausted'', s)
          else
            let reuse = (if sg_first s
                         then min (common_prefix (ws_history ws) tokens) (length tokens - 1)
                         else unat (fr_position input))
            in if reuse > unat (ws_position ws) \<or> reuse \<ge> length tokens
               then (Inl ''invalid cached prefix'', s)
               else
                 let (ready, k) = (if sg_last s
                       then la_chat_sampler la (fr_session input) prepared tokens (sg_llama s)
                       else (True, sg_llama s));
                     s = s\<lparr>sg_llama := k\<rparr>
                 in if \<not> ready then (Inl ''sampler creation failed'', s)
                    else case trim_kv la (ws_sequence ws) (int reuse) s of
                      (False, s) \<Rightarrow> (Inl ''could not trim cached prefix'', s)
                    | (True, s) \<Rightarrow>
                        (Inr ((stage_ack input (word_of_nat reuse) 0)
                           \<lparr>fr_rows := word_of_nat (length tokens)\<rparr>),
                         put_session (fr_session input)
                           ((if sg_first s
                             then ws\<lparr>ws_position := word_of_nat reuse,
                                     ws_history := resize reuse (ws_history ws),
                                     ws_chat_tokens := drop reuse tokens, ws_chat_pending := True\<rparr>
                             else ws\<lparr>ws_position := word_of_nat reuse\<rparr>)
                              \<lparr>ws_chat_sampler := sg_last s, ws_chat_request := True,
                               ws_chat_speculative := greedy_chat prepared\<rparr>) s)))"

definition stage_prepare_chat :: "'k llama \<Rightarrow> frame \<Rightarrow> 'k stage \<Rightarrow> 'k reply" where
  "stage_prepare_chat la input s =
     (case require_worker_session input s of
        Inl e \<Rightarrow> (Inl e, s)
      | Inr ws \<Rightarrow>
          if ws_active_request ws \<noteq> 0 \<or> fr_request input \<noteq> 0 \<or> fr_rows input \<noteq> 0
             \<or> fr_cols input \<noteq> 0 \<or> fr_dtype input \<noteq> dt_none \<or> fr_payload input = []
             \<or> length (fr_payload input) > 1024 * 1024
          then (Inl ''invalid chat preparation'', s)
          else case try_prepare la input ws s of
            (Inr reply, s) \<Rightarrow> (Inr reply, s)
          | (Inl e, s) \<Rightarrow>
              (Inl (if rfind_str ''context exhausted'' e \<noteq> None then e
                    else ''invalid chat request or unsupported template/schema''), s))"

section \<open>Running the layers\<close>

type_synonym 'k run = "(string + frame) \<times> frame list \<times> 'k stage"

definition token_rows :: "worker_session \<Rightarrow> (nat \<Rightarrow> bool) \<Rightarrow> u32 list \<Rightarrow> batch_row list" where
  "token_rows ws logits tokens = map (\<lambda>i. \<lparr>bt_input = BToken (tokens ! i),
     bt_pos = unat (ws_position ws) + i, bt_seq = ws_sequence ws, bt_logits = logits i\<rparr>)
     [0..<length tokens]"

definition hidden_batch :: "'k llama \<Rightarrow> frame \<Rightarrow> worker_session \<Rightarrow> (nat \<Rightarrow> bool) \<Rightarrow> batch_row list" where
  "hidden_batch la input ws logits = map (\<lambda>i. \<lparr>bt_input = BEmbd (get_hidden la input ! i),
     bt_pos = unat (fr_position input) + i, bt_seq = ws_sequence ws, bt_logits = logits i\<rparr>)
     [0..<unat (fr_rows input)]"

definition decode :: "'k llama \<Rightarrow> batch_row list \<Rightarrow> 'k stage \<Rightarrow> bool \<times> 'k stage" where
  "decode la batch s =
     (case la_decode la batch (sg_llama s) of (code, k) \<Rightarrow> (code = 0, s\<lparr>sg_llama := k\<rparr>))"

text \<open>A session after \<open>n\<close> more positions of its sequence were computed.\<close>

definition advanced :: "nat \<Rightarrow> worker_session \<Rightarrow> worker_session" where
  "advanced n ws = ws\<lparr>ws_position := ws_position ws + word_of_nat n\<rparr>"

definition remembered :: "u32 list \<Rightarrow> worker_session \<Rightarrow> worker_session" where
  "remembered tokens ws = ws\<lparr>ws_history := ws_history ws @ tokens\<rparr>"

definition count_processed :: "nat \<Rightarrow> 'k stage \<Rightarrow> 'k stage" where
  "count_processed n s = s\<lparr>sg_tokens_processed := sg_tokens_processed s + word_of_nat n\<rparr>"

definition count_generated :: "nat \<Rightarrow> 'k stage \<Rightarrow> 'k stage" where
  "count_generated n s = s\<lparr>sg_tokens_generated := sg_tokens_generated s + word_of_nat n\<rparr>"

text \<open>\<^verbatim>\<open>sample\<close> with the text and the end flag of the sampled token.\<close>

definition sample_result ::
    "'k llama \<Rightarrow> frame \<Rightarrow> worker_session \<Rightarrow> int \<Rightarrow> u64 \<Rightarrow> 'k stage \<Rightarrow> 'k reply" where
  "sample_result la input ws index compute s =
     (let (token, k) = (if ws_chat_sampler ws
            then la_chat_sample la (fr_session input) index (sg_llama s)
            else (la_sample la index (sg_llama s), sg_llama s));
          s = s\<lparr>sg_llama := k\<rparr>
      in case piece la token of
           Inl e \<Rightarrow> (Inl e, s)
         | Inr txt \<Rightarrow>
             (Inr (result_frame input (ws_position ws) token compute (la_is_eog la token) txt),
              count_generated 1 s))"

definition greedy_samples :: "'k llama \<Rightarrow> nat \<Rightarrow> 'k stage \<Rightarrow> u32 list" where
  "greedy_samples la n s = map (\<lambda>i. la_sample la (int i) (sg_llama s)) [0..<n]"

subsection \<open>The first stage\<close>

definition is_speculative :: "frame \<Rightarrow> bool" where
  "is_speculative input \<longleftrightarrow> fr_type input = T_token \<and> fr_rows input \<noteq> 0"

text \<open>The tokens of a frame, and the session once it was read: the prompt mark stays set.\<close>

definition first_tokens ::
    "'k llama \<Rightarrow> frame \<Rightarrow> worker_session \<Rightarrow> (string + u32 list) \<times> worker_session" where
  "first_tokens la input ws =
     (if fr_type input = T_prompt then
        (if fr_position input \<noteq> ws_position ws \<or> fr_payload input = [] \<or> fr_rows input \<noteq> 0
            \<or> fr_cols input \<noteq> 0 \<or> fr_dtype input \<noteq> dt_none
         then (Inl ''bad prompt frame'', ws)
         else if ws_has_prompt ws then (Inl ''duplicate prompt in request'', ws)
         else
           let ws = ws\<lparr>ws_has_prompt := True\<rparr> in
           if ws_chat_pending ws
           then (Inr (ws_chat_tokens ws), ws\<lparr>ws_chat_tokens := [], ws_chat_pending := False\<rparr>)
           else (tokenize la (fr_payload input), ws))
      else if fr_type input = T_token \<or> fr_type input = T_commit_token then
        (let n = (if is_speculative input then unat (fr_rows input) else 1) in
         if fr_position input \<noteq> ws_position ws \<or> length (fr_payload input) \<noteq> n * 4
            \<or> (\<not> is_speculative input \<and> fr_rows input \<noteq> 0) \<or> fr_cols input \<noteq> 0
            \<or> fr_dtype input \<noteq> dt_none
         then (Inl ''bad token frame'', ws)
         else if \<not> ws_has_prompt ws then (Inl ''token received before prompt'', ws)
         else (Inr (words_of (fr_payload input)), ws))
      else (Inl ''stage A expected prompt or token'', ws))"

definition context_left :: "'k stage \<Rightarrow> worker_session \<Rightarrow> u32" where
  "context_left s ws = sg_context_size s - ws_position ws"

definition chunk_frame :: "msg_type \<Rightarrow> frame \<Rightarrow> 'k stage \<Rightarrow> worker_session \<Rightarrow> nat \<Rightarrow> frame" where
  "chunk_frame kind input s ws rows = fresh_frame\<lparr>fr_type := kind, fr_session := fr_session input,
     fr_request := fr_request input, fr_position := ws_position ws, fr_rows := word_of_nat rows,
     fr_cols := sg_hidden s\<rparr>"

definition decode_prefill_chunk ::
    "'k llama \<Rightarrow> frame \<Rightarrow> u32 list \<Rightarrow> worker_session \<Rightarrow> 'k stage
     \<Rightarrow> (string + frame) \<times> worker_session \<times> 'k stage" where
  "decode_prefill_chunk la input tokens ws s =
     (case decode la (token_rows ws (\<lambda>_. True) tokens) s of
        (False, s) \<Rightarrow> (Inl ''stage A chunk decode failed'', ws, s)
      | (True, s) \<Rightarrow>
          let compute = la_compute_ns la (sg_llama s) in
          (case put_hidden la s (chunk_frame T_prompt_chunk input s ws (length tokens))
              (length tokens) 0 compute of
             None \<Rightarrow> (Inl ''stage A chunk returned no hidden state'', ws, s)
           | Some output \<Rightarrow>
               (Inr output, advanced (length tokens) (remembered tokens ws),
                note_step (length tokens) True compute (count_processed (length tokens) s))))"

text \<open>
  All chunks but the last; the tokens of the last one are left over. The caller's function for a
  chunk is what it does: how many chunks it takes, and the text it throws for the next one.
\<close>

type_synonym chunk_sink = "nat \<times> string"

function prefill_chunks ::
    "'k llama \<Rightarrow> frame \<Rightarrow> chunk_sink \<Rightarrow> nat \<Rightarrow> u32 list \<Rightarrow> worker_session \<Rightarrow> 'k stage
     \<Rightarrow> (string + u32 list) \<times> frame list \<times> worker_session \<times> 'k stage" where
  "prefill_chunks la input sink n tokens ws s =
     (if n = 0 \<or> length tokens \<le> n then (Inr tokens, [], ws, s)
      else case decode_prefill_chunk la input (take n tokens) ws s of
        (Inl e, ws, s) \<Rightarrow> (Inl e, [], ws, s)
      | (Inr output, ws, s) \<Rightarrow>
          if fst sink = 0 then (Inl (snd sink), [], ws, s)
          else case prefill_chunks la input (fst sink - 1, snd sink) n (drop n tokens) ws s of
             (r, emitted, ws, s) \<Rightarrow> (r, output # emitted, ws, s))"
  by pat_completeness auto
termination
  by (relation "measure (\<lambda>(la, input, sink, n, tokens, ws, s). length tokens)") auto

declare prefill_chunks.simps [simp del]

text \<open>The reply of a first stage that is also the last one.\<close>

definition single_reply ::
    "'k llama \<Rightarrow> frame \<Rightarrow> nat \<Rightarrow> worker_session \<Rightarrow> u64 \<Rightarrow> 'k stage \<Rightarrow> 'k reply" where
  "single_reply la input n ws compute s =
     (if fr_type input = T_commit_token then (Inr (stage_ack input (ws_position ws) compute), s)
      else if is_speculative input
      then (Inr (verified_frame input (ws_position ws) compute (greedy_samples la n s)),
            count_generated n s)
      else case sample_result la input ws (-1) compute s of
             (Inl e, s) \<Rightarrow> (Inl e, s)
           | (Inr reply, s) \<Rightarrow> (Inr reply, note_step n (fr_type input = T_prompt) compute s))"

definition first_kind :: "frame \<Rightarrow> msg_type" where
  "first_kind input = (if fr_type input = T_commit_token then T_commit_activation
     else if is_speculative input then T_speculative_activation else T_activation)"

definition run_batch_first ::
    "'k llama \<Rightarrow> frame \<Rightarrow> u32 list \<Rightarrow> worker_session \<Rightarrow> 'k stage \<Rightarrow> 'k reply" where
  "run_batch_first la input tokens ws s =
     (let n = length tokens;
          logits = (\<lambda>i. is_speculative input \<or> \<not> sg_last s
                         \<or> (fr_type input \<noteq> T_commit_token \<and> i + 1 = n));
          put = put_session (fr_session input)
      in case decode la (token_rows ws logits tokens) s of
           (False, s) \<Rightarrow> (Inl ''stage A decode failed'', put ws s)
         | (True, s) \<Rightarrow>
             let compute = la_compute_ns la (sg_llama s); ws = remembered tokens ws in
             if sg_last s
             then single_reply la input n (advanced n ws) compute
                    (count_processed n (put (advanced n ws) s))
             else case put_hidden la s (chunk_frame (first_kind input) input s ws n) n 0 compute of
                    None \<Rightarrow> (Inl ''stage A returned no hidden state'', put ws s)
                  | Some output \<Rightarrow>
                      (Inr output, note_step n (fr_type input = T_prompt) compute
                         (count_processed n (put (advanced n ws) s))))"

definition run_first ::
    "'k llama \<Rightarrow> nat \<Rightarrow> chunk_sink option \<Rightarrow> frame \<Rightarrow> worker_session \<Rightarrow> 'k stage \<Rightarrow> 'k run" where
  "run_first la prefill_chunk emit_chunk input ws s =
     (let put = put_session (fr_session input) in
      if is_speculative input \<and> fr_rows input > max_speculative_width
      then (Inl ''speculative batch exceeds supported width'', [], s)
      else case first_tokens la input ws of
        (Inl e, ws) \<Rightarrow> (Inl e, [], put ws s)
      | (Inr tokens, ws) \<Rightarrow>
          if length tokens > u32_max \<or> length tokens > unat (context_left s ws)
          then (Inl ''session context exhausted'', [], put ws s)
          else
            let chunked = (fr_type input = T_prompt \<and> \<not> sg_last s \<and> emit_chunk \<noteq> None) in
            case prefill_chunks la input (case emit_chunk of None \<Rightarrow> (0, []) | Some sink \<Rightarrow> sink)
                (if chunked then prefill_chunk else 0) tokens ws s of
              (Inl e, emitted, ws, s) \<Rightarrow> (Inl e, emitted, put ws s)
            | (Inr tokens, emitted, ws, s) \<Rightarrow>
                (case run_batch_first la input tokens ws s of (r, s) \<Rightarrow> (r, emitted, s)))"

subsection \<open>Later stages\<close>

definition bad_activation :: "frame \<Rightarrow> worker_session \<Rightarrow> 'k stage \<Rightarrow> bool" where
  "bad_activation input ws s \<longleftrightarrow>
     fr_type input \<notin> {T_activation, T_speculative_activation, T_commit_activation, T_prompt_chunk}
     \<or> \<not> activation_dtype (fr_dtype input) \<or> fr_rows input = 0 \<or> fr_cols input \<noteq> sg_hidden s
     \<or> fr_position input \<noteq> ws_position ws"

definition marked :: "frame \<Rightarrow> worker_session \<Rightarrow> worker_session" where
  "marked input ws = (if fr_type input = T_activation \<or> fr_type input = T_speculative_activation
     then ws\<lparr>ws_has_prompt := True\<rparr> else ws)"

definition bad_shape :: "frame \<Rightarrow> worker_session \<Rightarrow> 'k stage \<Rightarrow> bool" where
  "bad_shape input ws s \<longleftrightarrow>
     (let vals = (ucast (fr_rows input) :: u64) * ucast (fr_cols input) in
      unat vals > (max_payload - 8) div 4
      \<or> (word_of_nat (length (fr_payload input)) :: u64)
          \<noteq> 8 + activation_bytes (fr_dtype input) (ucast (fr_rows input)) (ucast (fr_cols input))
            + word_of_nat (guess_bytes input)
      \<or> fr_rows input > context_left s ws)"

definition last_reply ::
    "'k llama \<Rightarrow> frame \<Rightarrow> worker_session \<Rightarrow> 'k stage \<Rightarrow> 'k reply" where
  "last_reply la input ws s =
     (let compute = la_compute_ns la (sg_llama s); n = unat (fr_rows input) in
      if fr_type input = T_commit_activation then (Inr (stage_ack input (ws_position ws) compute), s)
      else if fr_type input = T_prompt_chunk
      then (Inr (stage_ack input (ws_position ws) compute), note_step n True compute s)
      else if fr_type input = T_speculative_activation
      then (Inr (verified_frame input (ws_position ws) compute (greedy_samples la n s)),
            count_generated n (note_step n False compute s))
      else sample_result la input ws (-1) compute (note_step n False compute s))"

definition run_last :: "'k llama \<Rightarrow> frame \<Rightarrow> worker_session \<Rightarrow> 'k stage \<Rightarrow> 'k reply" where
  "run_last la input ws s =
     (let put = put_session (fr_session input); n = unat (fr_rows input) in
      if fr_type input = T_speculative_activation \<and> fr_rows input > max_speculative_width
      then (Inl ''speculative batch exceeds supported width'', s)
      else if bad_activation input ws s then (Inl ''bad activation metadata'', s)
      else if fr_type input = T_commit_activation \<and> \<not> ws_has_prompt ws
      then (Inl ''commit received before activation'', s)
      else
        let ws = marked input ws in
        if bad_shape input ws s then (Inl ''activation payload/shape mismatch'', put ws s)
        else
          let logits = (\<lambda>i. fr_type input = T_speculative_activation
                            \<or> (fr_type input = T_activation \<and> i + 1 = n)) in
          case decode la (hidden_batch la input ws logits) s of
            (False, s) \<Rightarrow> (Inl ''stage B decode failed'', put ws s)
          | (True, s) \<Rightarrow>
              last_reply la input (advanced n ws) (count_processed n (put (advanced n ws) s)))"

definition run_middle :: "'k llama \<Rightarrow> frame \<Rightarrow> worker_session \<Rightarrow> 'k stage \<Rightarrow> 'k reply" where
  "run_middle la input ws s =
     (let put = put_session (fr_session input); n = unat (fr_rows input) in
      if bad_activation input ws s then (Inl ''bad middle-stage activation metadata'', s)
      else if fr_type input = T_commit_activation \<and> \<not> ws_has_prompt ws
      then (Inl ''commit received before activation'', s)
      else
        let ws = marked input ws in
        if bad_shape input ws s then (Inl ''activation payload/shape mismatch'', put ws s)
        else case decode la (hidden_batch la input ws (\<lambda>_. True)) s of
          (False, s) \<Rightarrow> (Inl ''middle-stage decode failed'', put ws s)
        | (True, s) \<Rightarrow>
            let compute = la_compute_ns la (sg_llama s) in
            (case put_hidden la s (frame_header input) n 0 compute of
               None \<Rightarrow> (Inl ''middle stage returned no hidden state'', put ws s)
             | Some output \<Rightarrow>
                 (Inr (output\<lparr>fr_payload := fr_payload output
                     @ drop (length (fr_payload input) - guess_bytes input) (fr_payload input)\<rparr>),
                  note_step n (fr_type input = T_prompt_chunk) compute
                    (count_processed n (put (advanced n ws) s)))))"

subsection \<open>Every frame\<close>

text \<open>A frame below the session's position truncates the KV first.\<close>

definition implicit_rollback ::
    "'k llama \<Rightarrow> frame \<Rightarrow> worker_session \<Rightarrow> 'k stage \<Rightarrow> (string + worker_session) \<times> 'k stage" where
  "implicit_rollback la input ws s =
     (if fr_position input < ws_position ws
      then case trim_kv la (ws_sequence ws) (uint (fr_position input)) s of
             (False, s) \<Rightarrow> (Inl ''could not roll back session KV to a lower-position frame'', s)
           | (True, s) \<Rightarrow>
               let ws = rolled_back (sg_first s) (fr_position input) ws in
               (Inr ws, put_session (fr_session input) ws s)
      else (Inr ws, s))"

text \<open>The request a frame belongs to: a session without one takes a higher number than before.\<close>

definition begin_request ::
    "frame \<Rightarrow> worker_session \<Rightarrow> 'k stage \<Rightarrow> (string + worker_session) \<times> 'k stage" where
  "begin_request input ws s =
     (if ws_active_request ws = 0
      then if fr_request input \<le> ws_last_request ws then (Inl ''request ID is not increasing'', s)
           else
             let ws = ws\<lparr>ws_active_request := fr_request input\<rparr> in
             (Inr ws, (put_session (fr_session input) ws s)\<lparr>sg_active_session := fr_session input\<rparr>)
      else if ws_active_request ws \<noteq> fr_request input then (Inl ''request ID mismatch'', s)
      else (Inr ws, s))"

definition execute :: "'k llama \<Rightarrow> nat \<Rightarrow> chunk_sink option \<Rightarrow> frame \<Rightarrow> 'k stage \<Rightarrow> 'k run" where
  "execute la prefill_chunk emit_chunk input s =
     (if fr_request input = 0 then (Inl ''request ID must be nonzero'', [], s)
      else case require_worker_session input s of
        Inl e \<Rightarrow> (Inl e, [], s)
      | Inr ws \<Rightarrow>
          if ws_chat_request ws \<and> \<not> ws_chat_speculative ws
             \<and> (fr_type input = T_speculative_activation \<or> is_speculative input)
          then (Inl ''speculation is unavailable for this chat sampler'', [], s)
          else case begin_request input ws s of
            (Inl e, s) \<Rightarrow> (Inl e, [], s)
          | (Inr ws, s) \<Rightarrow>
              (case implicit_rollback la input ws s of
                 (Inl e, s) \<Rightarrow> (Inl e, [], s)
               | (Inr ws, s) \<Rightarrow>
                   if sg_first s then run_first la prefill_chunk emit_chunk input ws s
                   else let (r, s) = (if sg_last s then run_last la input ws s
                                      else run_middle la input ws s) in (r, [], s)))"

definition quiet :: "'k reply \<Rightarrow> 'k run" where
  "quiet = (\<lambda>(r, s). (r, [], s))"

definition handle ::
    "'k llama \<Rightarrow> ('k stage \<Rightarrow> string) \<Rightarrow> nat \<Rightarrow> chunk_sink option \<Rightarrow> frame \<Rightarrow> 'k stage \<Rightarrow> 'k run" where
  "handle la report prefill_chunk emit_chunk input s =
     (case fr_type input of
        T_create_session \<Rightarrow> quiet (stage_create input s)
      | T_prepare_chat \<Rightarrow> quiet (stage_prepare_chat la input s)
      | T_reset_session \<Rightarrow> quiet (stage_reset la input s)
      | T_destroy_session \<Rightarrow> quiet (stage_destroy la input s)
      | T_end_request \<Rightarrow> quiet (stage_end_request input s)
      | T_rollback \<Rightarrow> quiet (stage_rollback la input s)
      | T_metrics \<Rightarrow> quiet (stage_metrics_reply report input s)
      | T_shutdown \<Rightarrow> quiet (stage_shutdown input s)
      | T_prompt \<Rightarrow> execute la prefill_chunk emit_chunk input s
      | T_token \<Rightarrow> execute la prefill_chunk emit_chunk input s
      | T_commit_token \<Rightarrow> execute la prefill_chunk emit_chunk input s
      | T_activation \<Rightarrow> execute la prefill_chunk emit_chunk input s
      | T_speculative_activation \<Rightarrow> execute la prefill_chunk emit_chunk input s
      | T_commit_activation \<Rightarrow> execute la prefill_chunk emit_chunk input s
      | T_prompt_chunk \<Rightarrow> execute la prefill_chunk emit_chunk input s
      | _ \<Rightarrow> (Inl ''unexpected frame type for worker'', [], s))"

section \<open>Positions mirror the KV cache\<close>

text \<open>
  What the stage relies on of the library, for a measure \<open>len\<close> of the positions held per sequence,
  as \<^verbatim>\<open>llama.h\<close> documents it: removal truncates one sequence, or refuses and removes
  nothing; a decoded batch (code 0) that continues a sequence extends it; after the codes 1 (no slot) and
  -1 (invalid batch) the memory is as it was; samplers do not touch it. After an abort (2) or a
  fatal error (below -1) the part of the batch that was computed stays in the memory, and nothing is
  assumed; that none happens is the separate hypothesis \<open>never_fatal\<close>.
\<close>

definition continues :: "nat \<Rightarrow> nat \<Rightarrow> batch_row list \<Rightarrow> bool" where
  "continues q p batch \<longleftrightarrow> (\<forall>i < length batch. bt_seq (batch ! i) = q \<and> bt_pos (batch ! i) = p + i)"

definition trims :: "'k llama \<Rightarrow> ('k \<Rightarrow> nat \<Rightarrow> nat) \<Rightarrow> bool" where
  "trims la len \<longleftrightarrow> (\<forall>q p k k'. la_seq_rm la q p k = (True, k')
     \<longrightarrow> len k' = (len k)(q := if p < 0 then 0 else min (nat p) (len k q)))"

definition extends :: "'k llama \<Rightarrow> ('k \<Rightarrow> nat \<Rightarrow> nat) \<Rightarrow> bool" where
  "extends la len \<longleftrightarrow> (\<forall>batch k k' q. la_decode la batch k = (0, k') \<longrightarrow> continues q (len k q) batch
     \<longrightarrow> len k' = (len k)(q := len k q + length batch))"

definition restores :: "'k llama \<Rightarrow> ('k \<Rightarrow> nat \<Rightarrow> nat) \<Rightarrow> bool" where
  "restores la len \<longleftrightarrow> (\<forall>q p k k'. la_seq_rm la q p k = (False, k') \<longrightarrow> len k' = len k)
     \<and> (\<forall>batch k code k'. la_decode la batch k = (code, k') \<longrightarrow> code = 1 \<or> code = - 1 \<longrightarrow> len k' = len k)"

definition never_fatal :: "'k llama \<Rightarrow> bool" where
  "never_fatal la \<longleftrightarrow> (\<forall>batch k. fst (la_decode la batch k) \<in> {0, 1, - 1})"

definition samplers_keep :: "'k llama \<Rightarrow> ('k \<Rightarrow> nat \<Rightarrow> nat) \<Rightarrow> bool" where
  "samplers_keep la len \<longleftrightarrow> (\<forall>sid i k. len (snd (la_chat_sample la sid i k)) = len k)
     \<and> (\<forall>sid p ts k. len (snd (la_chat_sampler la sid p ts k)) = len k)
     \<and> (\<forall>k. len (la_memory_clear la k) = (\<lambda>_. 0))"

text \<open>Every row of a decoded batch that asked for output has a hidden state.\<close>

definition embeds :: "'k llama \<Rightarrow> bool" where
  "embeds la \<longleftrightarrow> (\<forall>batch k k' i. la_decode la batch k = (0, k') \<longrightarrow> i < length batch
     \<longrightarrow> bt_logits (batch ! i) \<longrightarrow> la_embeddings la i k' \<noteq> None)"

definition llama_laws :: "'k llama \<Rightarrow> ('k \<Rightarrow> nat \<Rightarrow> nat) \<Rightarrow> bool" where
  "llama_laws la len \<longleftrightarrow> trims la len \<and> extends la len \<and> restores la len \<and> samplers_keep la len
     \<and> embeds la"

definition kv_laws :: "'k llama \<Rightarrow> ('k \<Rightarrow> nat \<Rightarrow> nat) \<Rightarrow> bool" where
  "kv_laws la len \<longleftrightarrow> llama_laws la len \<and> never_fatal la"

lemma llama_lawsD:
  assumes "llama_laws la len"
  shows "trims la len" "extends la len" "samplers_keep la len" "embeds la"
    "la_seq_rm la q p k = (False, k') \<Longrightarrow> len k' = len k"
  using assms by (auto simp: llama_laws_def restores_def)

lemma kv_lawsD:
  assumes "kv_laws la len"
  shows "llama_laws la len" "la_decode la batch k = (code, k') \<Longrightarrow> code \<noteq> 0 \<Longrightarrow> len k' = len k"
proof -
  show "llama_laws la len" using assms by (simp add: kv_laws_def)
  assume "la_decode la batch k = (code, k')" "code \<noteq> 0"
  moreover from this assms have "code \<in> {0, 1, - 1}" unfolding kv_laws_def never_fatal_def by (metis fst_conv)
  ultimately show "len k' = len k" using assms by (auto simp: kv_laws_def llama_laws_def restores_def)
qed

text \<open>One session, against the cache and the context size.\<close>

definition session_ok :: "u32 \<Rightarrow> (nat \<Rightarrow> nat) \<Rightarrow> worker_session \<Rightarrow> bool" where
  "session_ok ctx held ws \<longleftrightarrow> held (ws_sequence ws) = unat (ws_position ws)
     \<and> ws_position ws \<le> ctx
     \<and> (ws_active_request ws \<noteq> 0 \<longrightarrow> ws_last_request ws < ws_active_request ws)
     \<and> (ws_chat_pending ws \<longrightarrow> ws_chat_tokens ws \<noteq> [])"

text \<open>The table of sessions against the sequences in use.\<close>

definition table_fits :: "bool list \<Rightarrow> (u64 \<rightharpoonup> worker_session) \<Rightarrow> bool" where
  "table_fits used m \<longleftrightarrow> m 0 = None
     \<and> (\<forall>sid ws. m sid = Some ws \<longrightarrow> ws_sequence ws < length used \<and> used ! ws_sequence ws)
     \<and> (\<forall>sid sid' ws ws'. m sid = Some ws \<longrightarrow> m sid' = Some ws' \<longrightarrow> ws_sequence ws = ws_sequence ws'
          \<longrightarrow> sid = sid')
     \<and> (\<forall>q < length used. used ! q \<longrightarrow> (\<exists>sid ws. m sid = Some ws \<and> ws_sequence ws = q))"

definition stage_ok :: "('k \<Rightarrow> nat \<Rightarrow> nat) \<Rightarrow> 'k stage \<Rightarrow> bool" where
  "stage_ok len s \<longleftrightarrow> length (sg_sequence_used s) = sg_max_sessions s
     \<and> table_fits (sg_sequence_used s) (\<lambda>sid. session_of sid s)
     \<and> (\<forall>sid ws. session_of sid s = Some ws \<longrightarrow> session_ok (sg_context_size s) (len (sg_llama s)) ws)
     \<and> (\<forall>q < length (sg_sequence_used s). \<not> sg_sequence_used s ! q \<longrightarrow> len (sg_llama s) q = 0)"

lemma session_of_put [simp]:
  "session_of sid' (put_session sid ws s) = (if sid' = sid then Some ws else session_of sid' s)"
  by (simp add: session_of_def put_session_def update_conv')

lemma session_of_llama [simp]: "session_of sid (s\<lparr>sg_llama := k\<rparr>) = session_of sid s"
  by (simp add: session_of_def)

lemma put_session_keeps [simp]:
  "sg_sequence_used (put_session sid ws s) = sg_sequence_used s"
  "sg_max_sessions (put_session sid ws s) = sg_max_sessions s"
  "sg_context_size (put_session sid ws s) = sg_context_size s" "sg_llama (put_session sid ws s) = sg_llama s"
  "sg_first (put_session sid ws s) = sg_first s" "sg_last (put_session sid ws s) = sg_last s"
  "sg_hidden (put_session sid ws s) = sg_hidden s"
  by (simp_all add: put_session_def)

text \<open>Two stages that agree on everything the invariant speaks about.\<close>

definition alike :: "'k stage \<Rightarrow> 'k stage \<Rightarrow> bool" where
  "alike s s' \<longleftrightarrow> sg_sequence_used s' = sg_sequence_used s \<and> sg_max_sessions s' = sg_max_sessions s
     \<and> sg_context_size s' = sg_context_size s \<and> sg_llama s' = sg_llama s
     \<and> (\<forall>sid. session_of sid s' = session_of sid s)"

lemma alike_ok: "alike s s' \<Longrightarrow> stage_ok len s' = stage_ok len s"
  by (simp add: alike_def stage_ok_def)

lemma counters_alike [simp]:
  "stage_ok len (count_processed n s) = stage_ok len s"
  "stage_ok len (count_generated n s) = stage_ok len s"
  "stage_ok len (note_step n p c s) = stage_ok len s"
  by (simp_all add: alike_ok alike_def session_of_def count_processed_def count_generated_def
      note_step_def note_timing_def Let_def)

text \<open>\<open>holds\<close>: the invariant with the session in hand in place of the stored one.\<close>

definition holds :: "('k \<Rightarrow> nat \<Rightarrow> nat) \<Rightarrow> u64 \<Rightarrow> worker_session \<Rightarrow> 'k stage \<Rightarrow> bool" where
  "holds len sid ws s \<longleftrightarrow> stage_ok len (put_session sid ws s)"

lemma holds_stored: "stage_ok len s \<Longrightarrow> session_of sid s = Some ws \<Longrightarrow> holds len sid ws s"
  unfolding holds_def by (subst alike_ok[of s]) (auto simp: alike_def)

lemma holds_put [simp]: "holds len sid ws (put_session sid ws' s) = holds len sid ws s"
proof -
  have "alike (put_session sid ws s) (put_session sid ws (put_session sid ws' s))"
    by (simp add: alike_def)
  then show ?thesis by (simp add: holds_def alike_ok)
qed

lemma stage_ok_update:
  assumes ok: "stage_ok len s" and ws: "session_of sid s = Some ws"
    and seq: "ws_sequence ws' = ws_sequence ws"
    and cache: "len k' = (len (sg_llama s))(ws_sequence ws := n)"
    and good: "session_ok (sg_context_size s) (len k') ws'"
  shows "stage_ok len (put_session sid ws' (s\<lparr>sg_llama := k'\<rparr>))"
proof -
  let ?s = "put_session sid ws' (s\<lparr>sg_llama := k'\<rparr>)"
  have look: "session_of i ?s = (if i = sid then Some ws' else session_of i s)" for i
    by (simp add: session_of_def put_session_def update_conv')
  from ok ws have fit: "table_fits (sg_sequence_used s) (\<lambda>i. session_of i s)"
    and used: "sg_sequence_used s ! ws_sequence ws" "ws_sequence ws < length (sg_sequence_used s)"
    by (auto simp: stage_ok_def table_fits_def)
  have "table_fits (sg_sequence_used s) (\<lambda>i. session_of i ?s)"
    unfolding table_fits_def look
  proof (intro conjI allI impI)
    show "(if 0 = sid then Some ws' else session_of 0 s) = None"
      using fit ws by (auto simp: table_fits_def)
  next
    fix i w assume "(if i = sid then Some ws' else session_of i s) = Some w"
    then show "ws_sequence w < length (sg_sequence_used s)" "sg_sequence_used s ! ws_sequence w"
      using fit used seq by (auto simp: table_fits_def split: if_splits)
  next
    fix i j w v assume "(if i = sid then Some ws' else session_of i s) = Some w"
      "(if j = sid then Some ws' else session_of j s) = Some v" "ws_sequence w = ws_sequence v"
    then show "i = j" using fit ws seq unfolding table_fits_def by (metis option.inject)
  next
    fix q assume "q < length (sg_sequence_used s)" "sg_sequence_used s ! q"
    then obtain i w where "session_of i s = Some w" "ws_sequence w = q"
      using fit unfolding table_fits_def by blast
    then show "\<exists>i w. (if i = sid then Some ws' else session_of i s) = Some w \<and> ws_sequence w = q"
      using ws seq by (cases "i = sid") auto
  qed
  moreover have "session_ok (sg_context_size s) (len k') w" if "session_of i s = Some w" "i \<noteq> sid" for i w
  proof -
    have "ws_sequence w \<noteq> ws_sequence ws" using fit that ws unfolding table_fits_def by blast
    with ok that cache show ?thesis by (auto simp: stage_ok_def session_ok_def)
  qed
  moreover have "session_ok (sg_context_size s) (len k') w" if "session_of i ?s = Some w" for i w
    using that good calculation(2) by (cases "i = sid") (auto simp: look)
  moreover have "len k' q = 0" if "q < length (sg_sequence_used s)" "\<not> sg_sequence_used s ! q" for q
    using that ok used cache by (auto simp: stage_ok_def)
  ultimately show ?thesis using ok unfolding stage_ok_def by simp
qed

lemma holds_update:
  assumes "holds len sid ws s" "ws_sequence ws' = ws_sequence ws"
    "len k' = (len (sg_llama s))(ws_sequence ws := n)" "session_ok (sg_context_size s) (len k') ws'"
  shows "holds len sid ws' (s\<lparr>sg_llama := k'\<rparr>)"
proof -
  have "stage_ok len (put_session sid ws' ((put_session sid ws s)\<lparr>sg_llama := k'\<rparr>))"
    using assms by (intro stage_ok_update) (auto simp: holds_def)
  moreover have "alike (put_session sid ws' ((put_session sid ws s)\<lparr>sg_llama := k'\<rparr>))
      (put_session sid ws' (s\<lparr>sg_llama := k'\<rparr>))"
    by (simp add: alike_def session_of_def put_session_def update_conv')
  ultimately show ?thesis unfolding holds_def using alike_ok by blast
qed

lemma holds_session_ok: "holds len sid ws s \<Longrightarrow> session_ok (sg_context_size s) (len (sg_llama s)) ws"
  unfolding holds_def stage_ok_def by (metis put_session_keeps(3,4) session_of_put)

lemma holds_fields:
  assumes "holds len sid ws s" "ws_sequence ws' = ws_sequence ws"
    "session_ok (sg_context_size s) (len (sg_llama s)) ws'"
  shows "holds len sid ws' s"
  using holds_update[OF assms(1,2), of "sg_llama s" "len (sg_llama s) (ws_sequence ws)"] assms(3)
  by simp

lemma holds_remembered [simp]: "holds len sid (remembered ts ws) s = holds len sid ws s"
proof -
  have "session_ok c h (remembered ts ws) = session_ok c h ws" for c h
    by (simp add: session_ok_def remembered_def)
  moreover have "ws_sequence (remembered ts ws) = ws_sequence ws" by (simp add: remembered_def)
  ultimately show ?thesis using holds_fields holds_session_ok by metis
qed

lemma holds_counters [simp]:
  "holds len sid ws (count_processed n s) = holds len sid ws s"
  "holds len sid ws (note_step n p c s) = holds len sid ws s"
proof -
  have "alike (put_session sid ws s) (put_session sid ws (count_processed n s))"
    "alike (put_session sid ws s) (put_session sid ws (note_step n p c s))"
    by (simp_all add: alike_def session_of_def put_session_def count_processed_def note_step_def
        note_timing_def Let_def)
  then show "holds len sid ws (count_processed n s) = holds len sid ws s"
    "holds len sid ws (note_step n p c s) = holds len sid ws s"
    unfolding holds_def by (simp_all add: alike_ok)
qed

text \<open>The parts of a stage that no frame changes.\<close>

definition same_role :: "'k stage \<Rightarrow> 'k stage \<Rightarrow> bool" where
  "same_role s s' \<longleftrightarrow> sg_first s' = sg_first s \<and> sg_last s' = sg_last s
     \<and> sg_context_size s' = sg_context_size s \<and> sg_max_sessions s' = sg_max_sessions s"

lemma same_role_trans: "same_role a b \<Longrightarrow> same_role b c \<Longrightarrow> same_role a c"
  by (simp add: same_role_def)

lemma same_role_simps [simp]:
  "same_role s s" "same_role s (put_session sid ws s') = same_role s s'"
  "same_role s (count_processed n s') = same_role s s'" "same_role s (count_generated n s') = same_role s s'"
  "same_role s (note_step n p c s') = same_role s s'" "same_role s (s'\<lparr>sg_llama := k\<rparr>) = same_role s s'"
  "same_role (put_session sid ws s) s' = same_role s s'" "same_role (count_processed n s) s' = same_role s s'"
  "same_role (note_step n p c s) s' = same_role s s'"
  by (simp_all add: same_role_def put_session_def count_processed_def count_generated_def note_step_def
      note_timing_def Let_def)

lemma trim_kv_ok:
  assumes "llama_laws la len" "holds len sid ws s" "trim_kv la (ws_sequence ws) (uint p) s = (ok, s')"
    "p \<le> ws_position ws"
  shows "same_role s s'" "\<not> ok \<Longrightarrow> holds len sid ws s'" "ok \<Longrightarrow> holds len sid (rolled_back first_stage p ws) s'"
proof -
  from assms(3) obtain k where k: "la_seq_rm la (ws_sequence ws) (uint p) (sg_llama s) = (ok, k)"
    "s' = s\<lparr>sg_llama := k\<rparr>"
    by (auto simp: trim_kv_def split: prod.splits)
  note old = holds_session_ok[OF assms(2)]
  show "same_role s s'" by (simp add: k)
  show "holds len sid ws s'" if "\<not> ok"
  proof -
    have "len k = len (sg_llama s)" using llama_lawsD(5)[OF assms(1)] k that by auto
    with holds_update[OF assms(2), of ws k "len (sg_llama s) (ws_sequence ws)"] old k
    show ?thesis by simp
  qed
  show "holds len sid (rolled_back first_stage p ws) s'" if ok
  proof -
    from assms(1) k that have "len k = (len (sg_llama s))(ws_sequence ws :=
        min (nat (uint p)) (len (sg_llama s) (ws_sequence ws)))"
      by (simp add: llama_laws_def trims_def)
    moreover from old assms(4) have "min (nat (uint p)) (len (sg_llama s) (ws_sequence ws)) = unat p"
      by (simp add: session_ok_def word_le_nat_alt min_absorb1)
    ultimately show ?thesis unfolding k using old assms(4)
      by (intro holds_update[OF assms(2)]) (auto simp: rolled_back_def session_ok_def)
  qed
qed

lemma unat_word_of_nat_u32: "n \<le> u32_max \<Longrightarrow> unat (word_of_nat n :: u32) = n"
  by (simp add: unsigned_of_nat take_bit_nat_eq_self)

lemma unat_advance:
  assumes "unat (p :: u32) + n \<le> u32_max"
  shows "unat (p + word_of_nat n) = unat p + n"
  using assms unat_word_of_nat_u32[of n] by (simp add: unat_word_ariths)

lemma decode_same_role: "decode la batch s = (ok, s') \<Longrightarrow> same_role s s'"
  by (auto simp: decode_def split: prod.splits)

lemma decode_ok:
  assumes "kv_laws la len" "holds len sid ws s" "decode la batch s = (ok, s')"
    "continues (ws_sequence ws) (unat (ws_position ws)) batch" "length batch \<le> unat (context_left s ws)"
  shows "same_role s s'" "\<not> ok \<Longrightarrow> holds len sid ws s'" "ok \<Longrightarrow> holds len sid (advanced (length batch) ws) s'"
proof -
  from assms(3) obtain k code where k: "la_decode la batch (sg_llama s) = (code, k)" "s' = s\<lparr>sg_llama := k\<rparr>"
    and ok: "ok = (code = 0)"
    by (auto simp: decode_def split: prod.splits)
  note old = holds_session_ok[OF assms(2)]
  show "same_role s s'" by (simp add: k)
  show "holds len sid ws s'" if "\<not> ok"
  proof -
    have "len k = len (sg_llama s)" using kv_lawsD(2)[OF assms(1) k(1)] ok that by simp
    with holds_update[OF assms(2), of ws k "len (sg_llama s) (ws_sequence ws)"] old k
    show ?thesis by simp
  qed
  show "holds len sid (advanced (length batch) ws) s'" if ok
  proof -
    let ?p = "ws_position ws" and ?n = "length batch"
    have held: "len (sg_llama s) (ws_sequence ws) = unat ?p" and top: "?p \<le> sg_context_size s"
      using old by (auto simp: session_ok_def)
    have "unat (context_left s ws) = unat (sg_context_size s) - unat ?p"
      unfolding context_left_def using top by (rule unat_sub)
    with assms(5) top have room: "unat ?p + ?n \<le> unat (sg_context_size s)"
      by (simp add: word_le_nat_alt)
    then have sum: "unat (?p + word_of_nat ?n) = unat ?p + ?n"
      using unat_u32_le[of "sg_context_size s"] by (intro unat_advance) linarith
    from k ok that have decoded: "la_decode la batch (sg_llama s) = (0, k)" by simp
    have "continues (ws_sequence ws) (len (sg_llama s) (ws_sequence ws)) batch" using assms(4) held by simp
    moreover have "extends la len" using assms(1) by (simp add: kv_laws_def llama_laws_def)
    ultimately have "len k = (len (sg_llama s))(ws_sequence ws := unat ?p + ?n)"
      using decoded held unfolding extends_def by metis
    then show ?thesis unfolding k using old room sum
      by (intro holds_update[OF assms(2)]) (auto simp: advanced_def session_ok_def word_le_nat_alt)
  qed
qed

lemma token_rows_continue: "continues (ws_sequence ws) (unat (ws_position ws)) (token_rows ws logits tokens)"
  "length (token_rows ws logits tokens) = length tokens"
  by (simp_all add: continues_def token_rows_def)

lemma hidden_batch_continue:
  "fr_position input = ws_position ws
   \<Longrightarrow> continues (ws_sequence ws) (unat (ws_position ws)) (hidden_batch la input ws logits)"
  "length (hidden_batch la input ws logits) = unat (fr_rows input)"
  by (simp_all add: continues_def hidden_batch_def)

lemma sample_result_keeps:
  assumes "kv_laws la len" "sample_result la input ws i c s = (r, s')"
  shows "stage_ok len s' = stage_ok len s" "same_role s s'"
proof -
  define k where "k = (if ws_chat_sampler ws then snd (la_chat_sample la (fr_session input) i (sg_llama s))
    else sg_llama s)"
  have keep: "len k = len (sg_llama s)" using assms(1) by (simp add: k_def kv_laws_def llama_laws_def samplers_keep_def)
  from assms(2) have "s' = s\<lparr>sg_llama := k\<rparr> \<or> s' = count_generated 1 (s\<lparr>sg_llama := k\<rparr>)"
    by (auto simp: sample_result_def k_def Let_def split: prod.splits if_splits sum.splits)
  moreover have "stage_ok len (s\<lparr>sg_llama := k\<rparr>) = stage_ok len s"
    by (simp add: stage_ok_def keep)
  ultimately show "stage_ok len s' = stage_ok len s" "same_role s s'" by auto
qed

lemma single_reply_keeps:
  assumes "kv_laws la len" "single_reply la input n ws c s = (r, s')"
  shows "stage_ok len s' = stage_ok len s" "same_role s s'"
  using assms(2) unfolding single_reply_def
  by (auto dest: sample_result_keeps[OF assms(1)] split: if_splits prod.splits sum.splits)

lemma last_reply_keeps:
  assumes "kv_laws la len" "last_reply la input ws s = (r, s')"
  shows "stage_ok len s' = stage_ok len s" "same_role s s'"
  using assms(2) unfolding last_reply_def Let_def
  by (auto dest: sample_result_keeps[OF assms(1)] split: if_splits)

lemma hidden_rows_present:
  "(\<forall>i \<in> set is. la_embeddings la i (sg_llama s) \<noteq> None) \<Longrightarrow> hidden_rows la s is \<noteq> None"
  by (induction "is") (auto split: option.splits)

lemma put_hidden_present:
  assumes "kv_laws la len" "decode la batch s = (True, s')" "length batch = n"
    "\<And>i. i < n \<Longrightarrow> bt_logits (batch ! i)"
  obtains out where "put_hidden la s' f n 0 c = Some out"
proof -
  from assms have "\<forall>i < n. la_embeddings la i (sg_llama s') \<noteq> None"
    unfolding kv_laws_def llama_laws_def embeds_def decode_def by (auto split: prod.splits)
  then have "hidden_rows la s' [0..<0 + n] \<noteq> None" by (intro hidden_rows_present) auto
  with that show thesis by (auto simp: put_hidden_def)
qed

lemma advanced_remembered: "advanced n (remembered ts w) = remembered ts (advanced n w)"
  by (simp add: advanced_def remembered_def)

lemma run_batch_first_ok:
  assumes laws: "kv_laws la len" and hold: "holds len (fr_session input) ws s"
    and room: "length tokens \<le> unat (context_left s ws)"
    and run: "run_batch_first la input tokens ws s = (r, s')"
  shows "stage_ok len s' \<and> same_role s s'"
proof -
  define logits where "logits = (\<lambda>i. is_speculative input \<or> \<not> sg_last s
    \<or> (fr_type input \<noteq> T_commit_token \<and> i + 1 = length tokens))"
  obtain ok s1 where dec: "decode la (token_rows ws logits tokens) s = (ok, s1)" by fastforce
  note step = decode_ok[OF laws hold dec token_rows_continue(1), unfolded token_rows_continue(2), OF room]
  note run' = run[unfolded run_batch_first_def Let_def, folded logits_def, unfolded dec prod.case]
  show ?thesis
  proof (cases ok)
    case False
    with run' step show ?thesis by (auto simp: holds_def)
  next
    case True
    with dec have decoded: "decode la (token_rows ws logits tokens) s = (True, s1)" by simp
    have kept: "holds len (fr_session input) (advanced (length tokens) (remembered tokens ws)) s1"
      using step(3) True by (simp add: advanced_remembered)
    show ?thesis
    proof (cases "sg_last s1")
      case last: True
      with run' True have "single_reply la input (length tokens)
          (advanced (length tokens) (remembered tokens ws)) (la_compute_ns la (sg_llama s1))
          (count_processed (length tokens) (put_session (fr_session input)
            (advanced (length tokens) (remembered tokens ws)) s1)) = (r, s')" by simp
      from single_reply_keeps[OF laws this] kept step(1) same_role_trans show ?thesis
        by (simp add: holds_def) blast
    next
      case False
      with step(1) have "\<not> sg_last s" by (simp add: same_role_def)
      then have "bt_logits (token_rows ws logits tokens ! i)" if "i < length tokens" for i
        using that by (simp add: token_rows_def logits_def)
      from put_hidden_present[OF laws decoded token_rows_continue(2) this] obtain out where
        "put_hidden la s1 (chunk_frame (first_kind input) input s1 (remembered tokens ws) (length tokens))
           (length tokens) 0 (la_compute_ns la (sg_llama s1)) = Some out" by blast
      with run' True False kept step(1) show ?thesis by (auto simp: holds_def)
    qed
  qed
qed

lemma decode_prefill_chunk_ok:
  assumes laws: "kv_laws la len" and hold: "holds len sid ws s"
    and room: "length tokens \<le> unat (context_left s ws)"
    and run: "decode_prefill_chunk la input tokens ws s = (r, ws', s')"
  shows "holds len sid ws' s' \<and> same_role s s'
    \<and> (\<forall>f. r = Inr f \<longrightarrow> unat (context_left s' ws') = unat (context_left s ws) - length tokens)"
proof -
  obtain ok s1 where dec: "decode la (token_rows ws (\<lambda>_. True) tokens) s = (ok, s1)" by fastforce
  note step = decode_ok[OF laws hold dec token_rows_continue(1), unfolded token_rows_continue(2), OF room]
  note run' = run[unfolded decode_prefill_chunk_def Let_def dec prod.case]
  show ?thesis
  proof (cases ok)
    case False
    with run' step show ?thesis by auto
  next
    case True
    with dec have decoded: "decode la (token_rows ws (\<lambda>_. True) tokens) s = (True, s1)" by simp
    have "bt_logits (token_rows ws (\<lambda>_. True) tokens ! i)" if "i < length tokens" for i
      using that by (simp add: token_rows_def)
    from put_hidden_present[OF laws decoded token_rows_continue(2) this] obtain out where
      "put_hidden la s1 (chunk_frame T_prompt_chunk input s1 ws (length tokens))
         (length tokens) 0 (la_compute_ns la (sg_llama s1)) = Some out" by blast
    with run' True have res: "ws' = advanced (length tokens) (remembered tokens ws)"
      "s' = note_step (length tokens) True (la_compute_ns la (sg_llama s1)) (count_processed (length tokens) s1)"
      by auto
    have role: "same_role s s'" using step(1) by (simp add: res)
    then have "sg_context_size s' = sg_context_size s" by (simp add: same_role_def)
    then have "context_left s' ws' = context_left s ws - word_of_nat (length tokens)"
      by (simp add: context_left_def res advanced_def remembered_def)
    moreover have "unat (word_of_nat (length tokens) :: u32) = length tokens"
      using room unat_u32_le[of "context_left s ws"] by (intro unat_word_of_nat_u32) linarith
    ultimately have "unat (context_left s' ws') = unat (context_left s ws) - length tokens"
      using room by (simp add: unat_sub word_le_nat_alt)
    with step True show ?thesis by (simp add: res advanced_remembered)
  qed
qed

lemma prefill_chunks_ok:
  assumes "kv_laws la len" "holds len sid ws s" "length tokens \<le> unat (context_left s ws)"
    "prefill_chunks la input sink n tokens ws s = (r, emitted, ws', s')"
  shows "holds len sid ws' s' \<and> same_role s s'
    \<and> (\<forall>rest. r = Inr rest \<longrightarrow> length rest \<le> unat (context_left s' ws') \<and> (tokens \<noteq> [] \<longrightarrow> rest \<noteq> []))"
  using assms
proof (induction la input sink n tokens ws s arbitrary: r emitted ws' s' rule: prefill_chunks.induct)
  case (1 la input sink n tokens ws s)
  show ?case
  proof (cases "n = 0 \<or> length tokens \<le> n")
    case True
    with 1(3-5) show ?thesis by (auto simp: prefill_chunks.simps[of la input sink n tokens])
  next
    case False
    obtain r1 ws1 s1 where chunk: "decode_prefill_chunk la input (take n tokens) ws s = (r1, ws1, s1)"
      by (metis prod_cases3)
    have "length (take n tokens) \<le> unat (context_left s ws)" using 1(4) False by auto
    note ok = decode_prefill_chunk_ok[OF 1(2,3) this chunk]
    show ?thesis
    proof (cases r1)
      case (Inl e)
      with 1(5) False chunk ok show ?thesis by (auto simp: prefill_chunks.simps[of la input sink n tokens])
    next
      case (Inr f)
      show ?thesis
      proof (cases "fst sink = 0")
        case True
        with 1(5) False chunk Inr ok show ?thesis by (auto simp: prefill_chunks.simps[of la input sink n tokens])
      next
        case more: False
        obtain r2 em ws2 s2 where
          rest: "prefill_chunks la input (fst sink - 1, snd sink) n (drop n tokens) ws1 s1 = (r2, em, ws2, s2)"
          by (metis prod_cases4)
        with 1(5) False chunk Inr more have same: "r = r2" "ws' = ws2" "s' = s2"
          by (auto simp: prefill_chunks.simps[of la input sink n tokens])
        from ok Inr have "length (drop n tokens) \<le> unat (context_left s1 ws1)" "holds len sid ws1 s1"
          using 1(4) False by auto
        from 1(1)[OF False chunk[symmetric] Inr refl more 1(2) this(2,1) rest] ok False same same_role_trans
        show ?thesis by auto
      qed
    qed
  qed
qed

lemma length_resize [simp]: "length (resize n xs) = n"
  by (simp add: resize_def)

lemma tokenize_nonempty: "tokenize la bytes = Inr tokens \<Longrightarrow> tokens \<noteq> []"
  by (auto simp: tokenize_def Let_def resize_def split: if_splits prod.splits)

lemma words_of_length [simp]: "length (words_of bytes) = length bytes div 4"
  by (simp add: words_of_def)

lemma words_of_empty [simp]: "words_of bytes = [] \<longleftrightarrow> length bytes < 4"
  by (auto simp flip: length_0_conv)

lemma first_tokens_ok:
  assumes "first_tokens la input ws = (r, ws')" "session_ok c h ws"
  shows "session_ok c h ws'" "ws_sequence ws' = ws_sequence ws" "ws_position ws' = ws_position ws"
    "r = Inr tokens \<Longrightarrow> tokens \<noteq> [] \<and> fr_position input = ws_position ws"
  using assms
  by (auto simp: first_tokens_def session_ok_def Let_def is_speculative_def unat_eq_zero
      dest: tokenize_nonempty split: if_splits)

lemma run_first_ok:
  assumes laws: "kv_laws la len" and hold: "holds len (fr_session input) ws s"
    and stored: "stage_ok len s"
    and run: "run_first la chunk emit input ws s = (r, emitted, s')"
  shows "stage_ok len s' \<and> same_role s s'"
proof -
  let ?id = "fr_session input"
  obtain r1 ws1 where toks: "first_tokens la input ws = (r1, ws1)" by fastforce
  note t = first_tokens_ok[OF toks holds_session_ok[OF hold]]
  from holds_fields[OF hold t(2) t(1)] have hold1: "holds len ?id ws1 s" .
  show ?thesis
  proof (cases "is_speculative input \<and> fr_rows input > max_speculative_width")
    case True
    with run stored show ?thesis by (auto simp: run_first_def)
  next
    case fine: False
    show ?thesis
    proof (cases r1)
      case (Inl e)
      with run fine toks hold1 show ?thesis by (auto simp: run_first_def Let_def holds_def)
    next
      case (Inr tokens)
      show ?thesis
      proof (cases "length tokens > u32_max \<or> length tokens > unat (context_left s ws1)")
        case True
        with run fine toks Inr hold1 show ?thesis by (auto simp: run_first_def Let_def holds_def)
      next
        case False
        let ?n = "if fr_type input = T_prompt \<and> \<not> sg_last s \<and> emit \<noteq> None then chunk else 0"
          and ?sink = "case emit of None \<Rightarrow> (0, []) | Some sink \<Rightarrow> sink"
        obtain r2 em ws2 s2 where pre: "prefill_chunks la input ?sink ?n tokens ws1 s = (r2, em, ws2, s2)"
          by (metis prod_cases4)
        from False have "length tokens \<le> unat (context_left s ws1)" by simp
        note p = prefill_chunks_ok[OF laws hold1 this pre]
        note run' = run[unfolded run_first_def Let_def toks prod.case Inr sum.case]
        show ?thesis
        proof (cases r2)
          case (Inl e)
          with run' fine False pre p show ?thesis by (auto simp: holds_def)
        next
          case rest: (Inr tokens')
          obtain r3 s3 where batch: "run_batch_first la input tokens' ws2 s2 = (r3, s3)" by fastforce
          from p rest have "holds len ?id ws2 s2" "length tokens' \<le> unat (context_left s2 ws2)" by auto
          from run_batch_first_ok[OF laws this batch] p run' fine False pre rest batch same_role_trans
          show ?thesis by auto
        qed
      qed
    qed
  qed
qed

lemma marked_holds:
  "holds len sid ws s \<Longrightarrow> holds len sid (marked input ws) s"
  "ws_position (marked input ws) = ws_position ws" "ws_sequence (marked input ws) = ws_sequence ws"
proof -
  show pos: "ws_position (marked input ws) = ws_position ws"
    and seq: "ws_sequence (marked input ws) = ws_sequence ws" by (simp_all add: marked_def)
  show "holds len sid (marked input ws) s" if "holds len sid ws s"
    using holds_session_ok[OF that]
    by (intro holds_fields[OF that seq]) (auto simp: session_ok_def marked_def)
qed

text \<open>The batch of a later stage: where it may start and how the session is left.\<close>

lemma hidden_decode_ok:
  assumes laws: "kv_laws la len" and hold: "holds len sid ws s"
    and fine: "\<not> bad_activation input ws s" "\<not> bad_shape input (marked input ws) s"
    and dec: "decode la (hidden_batch la input (marked input ws) logits) s = (ok, s1)"
  shows "same_role s s1" "\<not> ok \<Longrightarrow> holds len sid (marked input ws) s1"
    "ok \<Longrightarrow> holds len sid (advanced (unat (fr_rows input)) (marked input ws)) s1"
proof -
  from fine(1) have pos: "fr_position input = ws_position (marked input ws)"
    by (simp add: bad_activation_def marked_holds(2))
  from fine(2) have room: "unat (fr_rows input) \<le> unat (context_left s (marked input ws))"
    by (simp add: bad_shape_def Let_def word_le_nat_alt not_less)
  note step = decode_ok[OF laws marked_holds(1)[OF hold] dec hidden_batch_continue(1)[OF pos],
      unfolded hidden_batch_continue(2), OF room]
  from step show "same_role s s1" "\<not> ok \<Longrightarrow> holds len sid (marked input ws) s1"
    "ok \<Longrightarrow> holds len sid (advanced (unat (fr_rows input)) (marked input ws)) s1" by auto
qed

lemma run_last_ok:
  assumes laws: "kv_laws la len" and hold: "holds len (fr_session input) ws s" and stored: "stage_ok len s"
    and run: "run_last la input ws s = (r, s')"
  shows "stage_ok len s' \<and> same_role s s'"
proof -
  let ?n = "unat (fr_rows input)" and ?ws = "marked input ws"
  let ?logits = "\<lambda>i. fr_type input = T_speculative_activation \<or> (fr_type input = T_activation \<and> i + 1 = ?n)"
  show ?thesis
  proof (cases "fr_type input = T_speculative_activation \<and> fr_rows input > max_speculative_width
      \<or> bad_activation input ws s \<or> fr_type input = T_commit_activation \<and> \<not> ws_has_prompt ws")
    case True
    with run stored show ?thesis by (auto simp: run_last_def Let_def split: if_splits)
  next
    case fine: False
    show ?thesis
    proof (cases "bad_shape input ?ws s")
      case True
      with run fine marked_holds(1)[OF hold] show ?thesis
        by (auto simp: run_last_def Let_def holds_def split: if_splits)
    next
      case False
      obtain ok s1 where dec: "decode la (hidden_batch la input ?ws ?logits) s = (ok, s1)" by fastforce
      from fine have "\<not> bad_activation input ws s" by simp
      note step = hidden_decode_ok[OF laws hold this False dec]
      have run': "(r, s') = (if ok then last_reply la input (advanced ?n ?ws)
            (count_processed ?n (put_session (fr_session input) (advanced ?n ?ws) s1))
          else (Inl ''stage B decode failed'', put_session (fr_session input) ?ws s1))"
        using run fine False dec by (cases ok) (auto simp: run_last_def Let_def split: if_splits)
      show ?thesis
      proof (cases ok)
        case True
        with run' have "last_reply la input (advanced ?n ?ws)
            (count_processed ?n (put_session (fr_session input) (advanced ?n ?ws) s1)) = (r, s')" by simp
        from last_reply_keeps[OF laws this] step(1,3) True same_role_trans show ?thesis
          by (simp add: holds_def) blast
      next
        case False
        with run' step(1,2) show ?thesis by (simp add: holds_def)
      qed
    qed
  qed
qed

lemma run_middle_ok:
  assumes laws: "kv_laws la len" and hold: "holds len (fr_session input) ws s" and stored: "stage_ok len s"
    and run: "run_middle la input ws s = (r, s')"
  shows "stage_ok len s' \<and> same_role s s'"
proof -
  let ?n = "unat (fr_rows input)" and ?ws = "marked input ws"
  show ?thesis
  proof (cases "bad_activation input ws s \<or> fr_type input = T_commit_activation \<and> \<not> ws_has_prompt ws")
    case True
    with run stored show ?thesis by (auto simp: run_middle_def Let_def split: if_splits)
  next
    case fine: False
    show ?thesis
    proof (cases "bad_shape input ?ws s")
      case True
      with run fine marked_holds(1)[OF hold] show ?thesis
        by (auto simp: run_middle_def Let_def holds_def split: if_splits)
    next
      case False
      obtain ok s1 where dec: "decode la (hidden_batch la input ?ws (\<lambda>_. True)) s = (ok, s1)" by fastforce
      from fine have "\<not> bad_activation input ws s" by simp
      note step = hidden_decode_ok[OF laws hold this False dec]
      show ?thesis
      proof (cases ok)
        case True
        with dec have decoded: "decode la (hidden_batch la input ?ws (\<lambda>_. True)) s = (True, s1)" by simp
        have "bt_logits (hidden_batch la input ?ws (\<lambda>_. True) ! i)" if "i < ?n" for i
          using that by (simp add: hidden_batch_def)
        from put_hidden_present[OF laws decoded hidden_batch_continue(2) this] obtain out where
          "put_hidden la s1 (frame_header input) ?n 0 (la_compute_ns la (sg_llama s1)) = Some out" by blast
        with run fine False dec True step(1,3) show ?thesis
          by (auto simp: run_middle_def Let_def holds_def split: if_splits)
      next
        case bad: False
        with run fine False dec step(1,2) show ?thesis
          by (auto simp: run_middle_def Let_def holds_def split: if_splits)
      qed
    qed
  qed
qed

lemma begin_request_ok:
  assumes "stage_ok len s" "session_of (fr_session input) s = Some ws" "fr_request input \<noteq> 0"
    "begin_request input ws s = (r, s')"
  shows "stage_ok len s' \<and> same_role s s' \<and> (\<forall>ws'. r = Inr ws' \<longrightarrow> holds len (fr_session input) ws' s'
    \<and> session_of (fr_session input) s' = Some ws')"
proof -
  let ?id = "fr_session input" and ?ws = "ws\<lparr>ws_active_request := fr_request input\<rparr>"
  note hold = holds_stored[OF assms(1,2)]
  note ok = holds_session_ok[OF hold]
  show ?thesis
  proof (cases "ws_active_request ws = 0 \<and> \<not> fr_request input \<le> ws_last_request ws")
    case True
    with ok have "session_ok (sg_context_size s) (len (sg_llama s)) ?ws"
      by (auto simp: session_ok_def not_le)
    then have "holds len ?id ?ws s" by (intro holds_fields[OF hold]) simp_all
    then have put: "stage_ok len (put_session ?id ?ws s)" by (simp add: holds_def)
    let ?s = "(put_session ?id ?ws s)\<lparr>sg_active_session := ?id\<rparr>"
    have "alike (put_session ?id ?ws s) ?s" by (simp add: alike_def session_of_def)
    with put have "stage_ok len ?s" by (simp add: alike_ok)
    moreover have "session_of ?id ?s = Some ?ws" by (simp add: session_of_def put_session_def update_conv')
    moreover have "same_role s ?s" by (simp add: same_role_def)
    ultimately show ?thesis using assms(4) True holds_stored
      by (auto simp: begin_request_def Let_def)
  next
    case False
    with assms hold show ?thesis by (auto simp: begin_request_def split: if_splits)
  qed
qed

lemma implicit_rollback_ok:
  assumes "llama_laws la len" "stage_ok len s" "session_of (fr_session input) s = Some ws"
    "implicit_rollback la input ws s = (r, s')"
  shows "stage_ok len s' \<and> same_role s s' \<and> (\<forall>ws'. r = Inr ws' \<longrightarrow> holds len (fr_session input) ws' s')"
proof (cases "fr_position input < ws_position ws")
  case True
  obtain ok s1 where trim: "trim_kv la (ws_sequence ws) (uint (fr_position input)) s = (ok, s1)" by fastforce
  note hold = holds_stored[OF assms(2,3)]
  note t = trim_kv_ok[OF assms(1) hold trim less_imp_le[OF True]]
  have kept: "session_of (fr_session input) s1 = Some ws"
    using trim assms(3) by (auto simp: trim_kv_def split: prod.splits)
  have stays: "stage_ok len s1" if "holds len (fr_session input) ws s1"
    using that kept unfolding holds_def by (subst (asm) alike_ok[of s1]) (auto simp: alike_def)
  from assms(4) True trim t stays holds_stored show ?thesis
    by (cases ok) (auto simp: implicit_rollback_def Let_def simp flip: holds_def)
next
  case False
  with assms holds_stored show ?thesis by (auto simp: implicit_rollback_def)
qed

lemma execute_ok:
  assumes laws: "kv_laws la len" and ok: "stage_ok len s"
    and run: "execute la chunk emit input s = (r, emitted, s')"
  shows "stage_ok len s' \<and> same_role s s'"
proof (cases "fr_request input = 0 \<or> (\<exists>e. require_worker_session input s = Inl e)")
  case True
  with run ok show ?thesis by (auto simp: execute_def split: if_splits)
next
  case False
  then obtain ws where ws: "require_worker_session input s = Inr ws" by (metis sum.exhaust)
  then have stored: "session_of (fr_session input) s = Some ws"
    by (auto simp: require_worker_session_def split: if_splits option.splits)
  obtain r1 s1 where b: "begin_request input ws s = (r1, s1)" by fastforce
  from False have "fr_request input \<noteq> 0" by simp
  note b_ok = begin_request_ok[OF ok stored this b]
  show ?thesis
  proof (cases "(ws_chat_request ws \<and> \<not> ws_chat_speculative ws
      \<and> (fr_type input = T_speculative_activation \<or> is_speculative input)) \<or> (\<exists>e. r1 = Inl e)")
    case True
    with run False ws b b_ok ok show ?thesis by (auto simp: execute_def split: if_splits)
  next
    case allowed: False
    then obtain ws1 where r1: "r1 = Inr ws1" by (metis sum.exhaust)
    obtain r2 s2 where i: "implicit_rollback la input ws1 s1 = (r2, s2)" by fastforce
    from b_ok r1 have "stage_ok len s1" "session_of (fr_session input) s1 = Some ws1" by auto
    note i_ok = implicit_rollback_ok[OF kv_lawsD(1)[OF laws] this i]
    have run': "(r, emitted, s') = (case r2 of Inl e \<Rightarrow> (Inl e, [], s2)
        | Inr ws \<Rightarrow> if sg_first s2 then run_first la chunk emit input ws s2
            else let (r, s) = (if sg_last s2 then run_last la input ws s2
                               else run_middle la input ws s2) in (r, [], s))"
      using run False ws b allowed r1 i by (auto simp: execute_def)
    have trans: "same_role s s2" using b_ok i_ok same_role_trans by blast
    show ?thesis
    proof (cases r2)
      case (Inl e)
      with run' i_ok trans show ?thesis by simp
    next
      case (Inr ws2)
      with i_ok have hold: "holds len (fr_session input) ws2 s2" and now: "stage_ok len s2" by auto
      show ?thesis
      proof (cases "sg_first s2")
        case True
        with run' Inr have "run_first la chunk emit input ws2 s2 = (r, emitted, s')" by simp
        from run_first_ok[OF laws hold now this] trans same_role_trans show ?thesis by blast
      next
        case False
        obtain r3 s3 where reply: "(if sg_last s2 then run_last la input ws2 s2
            else run_middle la input ws2 s2) = (r3, s3)" by fastforce
        with run_last_ok[OF laws hold now] run_middle_ok[OF laws hold now]
        have "stage_ok len s3 \<and> same_role s2 s3" by (auto split: if_splits)
        with run' Inr False reply trans same_role_trans show ?thesis by auto
      qed
    qed
  qed
qed

subsection \<open>Control frames keep the invariant\<close>

lemma required_session:
  "require_worker_session input s = Inr ws \<Longrightarrow> session_of (fr_session input) s = Some ws"
  by (auto simp: require_worker_session_def split: if_splits option.splits)

lemma trim_kv_failed:
  assumes "kv_laws la len" "stage_ok len s" "trim_kv la q p s = (False, s')"
  shows "stage_ok len s' \<and> same_role s s'"
proof -
  from assms(3) obtain k where k: "la_seq_rm la q p (sg_llama s) = (False, k)" "s' = s\<lparr>sg_llama := k\<rparr>"
    by (auto simp: trim_kv_def split: prod.splits)
  from llama_lawsD(5)[OF kv_lawsD(1)[OF assms(1)] k(1)] have "len k = len (sg_llama s)" .
  with assms(2) k show ?thesis by (simp add: stage_ok_def)
qed

lemma free_sequence_free:
  "free_sequence used = Some q \<Longrightarrow> q < length used \<and> \<not> used ! q"
  by (induction used arbitrary: q) (auto split: if_splits)

lemma stage_create_ok:
  assumes ok: "stage_ok len s" and run: "stage_create input s = (r, s')"
  shows "stage_ok len s' \<and> same_role s s'"
proof (cases "\<exists>q. r \<noteq> Inl ''invalid control frame'' \<and> control_ok input False
    \<and> session_of (fr_session input) s = None \<and> length (sg_sessions s) < sg_max_sessions s
    \<and> free_sequence (sg_sequence_used s) = Some q")
  case False
  with run ok show ?thesis by (auto simp: stage_create_def split: if_splits option.splits)
next
  case True
  then obtain q where new: "session_of (fr_session input) s = None" "control_ok input False"
    "length (sg_sessions s) < sg_max_sessions s" and free: "free_sequence (sg_sequence_used s) = Some q" by blast
  let ?ws = "fresh_worker_session (sg_draft_width s) q" and ?id = "fr_session input"
  let ?used = "(sg_sequence_used s)[q := True]"
  let ?s = "(put_session ?id ?ws s)\<lparr>sg_sequence_used := ?used\<rparr>"
  have s': "s' = ?s" using run new free by (auto simp: stage_create_def)
  note q = free_sequence_free[OF free]
  have look: "session_of i ?s = (if i = ?id then Some ?ws else session_of i s)" for i
    by (simp add: session_of_def put_session_def update_conv')
  from ok have fit: "table_fits (sg_sequence_used s) (\<lambda>i. session_of i s)" by (simp add: stage_ok_def)
  have other: "ws_sequence w \<noteq> q" if "session_of i s = Some w" for i w
    using fit that q unfolding table_fits_def by blast
  have "table_fits ?used (\<lambda>i. session_of i ?s)"
    unfolding table_fits_def look
  proof (intro conjI allI impI)
    show "(if 0 = ?id then Some ?ws else session_of 0 s) = None"
      using fit new(2) by (auto simp: table_fits_def control_ok_def)
  next
    fix i w assume "(if i = ?id then Some ?ws else session_of i s) = Some w"
    then show "ws_sequence w < length ?used" "?used ! ws_sequence w"
      using fit q by (auto simp: table_fits_def fresh_worker_session_def nth_list_update split: if_splits)
  next
    fix i j w v assume "(if i = ?id then Some ?ws else session_of i s) = Some w"
      "(if j = ?id then Some ?ws else session_of j s) = Some v" "ws_sequence w = ws_sequence v"
    moreover have "ws_sequence ?ws = q" by (simp add: fresh_worker_session_def)
    ultimately show "i = j" using fit other[of i w] other[of j v] unfolding table_fits_def
      by (cases "i = ?id"; cases "j = ?id") auto
  next
    fix p assume p: "p < length ?used" "?used ! p"
    show "\<exists>i w. (if i = ?id then Some ?ws else session_of i s) = Some w \<and> ws_sequence w = p"
    proof (cases "p = q")
      case True
      then show ?thesis by (intro exI[of _ ?id] exI[of _ ?ws]) (simp add: fresh_worker_session_def)
    next
      case False
      with p have "sg_sequence_used s ! p" by simp
      with fit p obtain i w where "session_of i s = Some w" "ws_sequence w = p"
        unfolding table_fits_def by (metis length_list_update)
      with new(1) show ?thesis by (intro exI[of _ i] exI[of _ w]) auto
    qed
  qed
  moreover have "session_ok (sg_context_size s) (len (sg_llama s)) ?ws"
    using ok q by (simp add: stage_ok_def session_ok_def fresh_worker_session_def)
  moreover have "len (sg_llama s) p = 0" if "p < length ?used" "\<not> ?used ! p" for p
    using that ok q by (auto simp: stage_ok_def nth_list_update split: if_splits)
  ultimately have "stage_ok len ?s" using ok unfolding stage_ok_def look by auto
  then show ?thesis by (simp add: s' same_role_def)
qed

lemma stage_reset_ok:
  assumes laws: "kv_laws la len" and ok: "stage_ok len s" and run: "stage_reset la input s = (r, s')"
  shows "stage_ok len s' \<and> same_role s s'"
proof (cases "control_ok input False \<and> (\<exists>ws. require_worker_session input s = Inr ws \<and> ws_active_request ws = 0)")
  case False
  with run ok show ?thesis by (auto simp: stage_reset_def split: if_splits sum.splits)
next
  case True
  then obtain ws where ws: "require_worker_session input s = Inr ws" "ws_active_request ws = 0"
    "control_ok input False" by blast
  note stored = required_session[OF ws(1)]
  obtain c s1 where trim: "trim_kv la (ws_sequence ws) (-1) s = (c, s1)" by fastforce
  show ?thesis
  proof (cases c)
    case False
    with run ws trim trim_kv_failed[OF laws ok] show ?thesis by (auto simp: stage_reset_def)
  next
    case True
    with trim obtain k where k: "la_seq_rm la (ws_sequence ws) (-1) (sg_llama s) = (True, k)"
      "s1 = s\<lparr>sg_llama := k\<rparr>" by (auto simp: trim_kv_def split: prod.splits)
    with laws have cache: "len k = (len (sg_llama s))(ws_sequence ws := 0)"
      by (simp add: kv_laws_def llama_laws_def trims_def)
    let ?ws = "ws\<lparr>ws_position := 0, ws_active_request := 0, ws_last_request := 0,
      ws_has_prompt := False, ws_draft := fresh_draft (sg_draft_width s1), ws_history := [],
      ws_chat_tokens := [], ws_chat_pending := False, ws_chat_request := False, ws_chat_sampler := False\<rparr>"
    have "stage_ok len (put_session (fr_session input) ?ws (s\<lparr>sg_llama := k\<rparr>))"
      by (rule stage_ok_update[OF ok stored _ cache]) (simp_all add: session_ok_def cache)
    with run ws trim True k show ?thesis by (auto simp: stage_reset_def)
  qed
qed

lemma stage_rollback_ok:
  assumes laws: "kv_laws la len" and ok: "stage_ok len s" and run: "stage_rollback la input s = (r, s')"
  shows "stage_ok len s' \<and> same_role s s'"
proof (cases "\<exists>ws. require_worker_session input s = Inr ws \<and> \<not> fr_position input > ws_position ws")
  case False
  with run ok show ?thesis by (auto simp: stage_rollback_def split: if_splits sum.splits)
next
  case True
  then obtain ws where ws: "require_worker_session input s = Inr ws" "fr_position input \<le> ws_position ws" by auto
  obtain c s1 where trim: "trim_kv la (ws_sequence ws) (uint (fr_position input)) s = (c, s1)" by fastforce
  note t = trim_kv_ok[OF kv_lawsD(1)[OF laws] holds_stored[OF ok required_session[OF ws(1)]] trim ws(2)]
  show ?thesis
  proof (cases c)
    case True
    with run ok ws trim t(1,3) show ?thesis by (auto simp: stage_rollback_def holds_def split: if_splits)
  next
    case False
    with run ok ws trim trim_kv_failed[OF laws ok] show ?thesis
      by (auto simp: stage_rollback_def split: if_splits)
  qed
qed

lemma stage_end_request_ok:
  assumes ok: "stage_ok len s" and run: "stage_end_request input s = (r, s')"
  shows "stage_ok len s' \<and> same_role s s'"
proof (cases "control_ok input True \<and> (\<exists>ws. require_worker_session input s = Inr ws
    \<and> ws_active_request ws = fr_request input \<and> ws_has_prompt ws)")
  case False
  with run ok show ?thesis by (auto simp: stage_end_request_def split: if_splits sum.splits)
next
  case True
  then obtain ws where ws: "require_worker_session input s = Inr ws" "ws_active_request ws = fr_request input"
    "ws_has_prompt ws" "control_ok input True" by blast
  let ?ws = "ws\<lparr>ws_last_request := fr_request input, ws_active_request := 0, ws_has_prompt := False\<rparr>"
  note hold = holds_stored[OF ok required_session[OF ws(1)]]
  from holds_session_ok[OF hold] have "session_ok (sg_context_size s) (len (sg_llama s)) ?ws"
    by (simp add: session_ok_def)
  then have "holds len (fr_session input) ?ws s" by (intro holds_fields[OF hold]) simp_all
  then have "stage_ok len (put_session (fr_session input) ?ws s)" by (simp add: holds_def)
  moreover have "alike (put_session (fr_session input) ?ws s) s'" "same_role s s'"
    using run ws by (auto simp: stage_end_request_def alike_def same_role_def session_of_def)
  ultimately show ?thesis by (simp add: alike_ok)
qed

lemma stage_destroy_ok:
  assumes laws: "kv_laws la len" and ok: "stage_ok len s" and run: "stage_destroy la input s = (r, s')"
  shows "stage_ok len s' \<and> same_role s s'"
proof (cases "control_ok input False \<and> (\<exists>ws. require_worker_session input s = Inr ws \<and> ws_active_request ws = 0)")
  case False
  with run ok show ?thesis by (auto simp: stage_destroy_def split: if_splits sum.splits)
next
  case True
  then obtain ws where ws: "require_worker_session input s = Inr ws" "ws_active_request ws = 0"
    "control_ok input False" by blast
  note stored = required_session[OF ws(1)]
  obtain c s1 where trim: "trim_kv la (ws_sequence ws) (-1) s = (c, s1)" by fastforce
  show ?thesis
  proof (cases c)
    case False
    with run ws trim trim_kv_failed[OF laws ok] show ?thesis by (auto simp: stage_destroy_def)
  next
    case True
    with trim obtain k where k: "la_seq_rm la (ws_sequence ws) (-1) (sg_llama s) = (True, k)"
      "s1 = s\<lparr>sg_llama := k\<rparr>" by (auto simp: trim_kv_def split: prod.splits)
    with laws have cache: "len k = (len (sg_llama s))(ws_sequence ws := 0)"
      by (simp add: kv_laws_def llama_laws_def trims_def)
    let ?id = "fr_session input" and ?used = "(sg_sequence_used s)[ws_sequence ws := False]"
    have s': "s' = s\<lparr>sg_llama := k, sg_sequence_used := ?used, sg_sessions := AList.delete ?id (sg_sessions s)\<rparr>"
      using run ws trim True k by (auto simp: stage_destroy_def)
    have look: "session_of i s' = (if i = ?id then None else session_of i s)" for i
      by (simp add: s' session_of_def delete_conv' restrict_map_def)
    from ok have fit: "table_fits (sg_sequence_used s) (\<lambda>i. session_of i s)" by (simp add: stage_ok_def)
    have other: "ws_sequence w \<noteq> ws_sequence ws" if "session_of i s = Some w" "i \<noteq> ?id" for i w
      using fit that stored unfolding table_fits_def by blast
    have "table_fits ?used (\<lambda>i. session_of i s')"
      unfolding table_fits_def look
    proof (intro conjI allI impI)
      show "(if 0 = ?id then None else session_of 0 s) = None" using fit by (simp add: table_fits_def)
    next
      fix i w assume "(if i = ?id then None else session_of i s) = Some w"
      then show "ws_sequence w < length ?used" "?used ! ws_sequence w"
        using fit other[of i w] by (auto simp: table_fits_def nth_list_update split: if_splits)
    next
      fix i j w v assume "(if i = ?id then None else session_of i s) = Some w"
        "(if j = ?id then None else session_of j s) = Some v" "ws_sequence w = ws_sequence v"
      then show "i = j" using fit unfolding table_fits_def by (auto split: if_splits)
    next
      fix p assume p: "p < length ?used" "?used ! p"
      then have "p \<noteq> ws_sequence ws" by (auto simp: nth_list_update)
      with p have "sg_sequence_used s ! p" by simp
      with fit p obtain i w where "session_of i s = Some w" "ws_sequence w = p"
        unfolding table_fits_def by (metis length_list_update)
      with stored \<open>p \<noteq> ws_sequence ws\<close>
      show "\<exists>i w. (if i = ?id then None else session_of i s) = Some w \<and> ws_sequence w = p"
        by (intro exI[of _ i] exI[of _ w]) auto
    qed
    moreover have "session_ok (sg_context_size s) (len k) w" if "session_of i s' = Some w" for i w
      using that other[of i w] ok cache by (auto simp: look stage_ok_def session_ok_def split: if_splits)
    moreover have "len k p = 0" if "p < length ?used" "\<not> ?used ! p" for p
      using that ok cache by (auto simp: stage_ok_def nth_list_update split: if_splits)
    ultimately have "stage_ok len s'" using ok unfolding stage_ok_def by (simp add: s')
    then show ?thesis by (simp add: s' same_role_def)
  qed
qed

lemma stage_ok_llama: "len k = len (sg_llama s) \<Longrightarrow> stage_ok len (s\<lparr>sg_llama := k\<rparr>) = stage_ok len s"
  by (simp add: stage_ok_def)

text \<open>The session a chat preparation leaves, for a reused prefix of the prompt.\<close>

lemma chat_session_ok:
  assumes laws: "kv_laws la len" and ok: "stage_ok len s" and ws: "session_of sid s = Some ws"
    and reuse: "reuse \<le> unat (ws_position ws)" "reuse < length tokens"
    and trim: "trim_kv la (ws_sequence ws) (int reuse) s = (True, s1)"
  shows "stage_ok len (put_session sid ((if f
      then ws\<lparr>ws_position := word_of_nat reuse, ws_history := h,
              ws_chat_tokens := drop reuse tokens, ws_chat_pending := True\<rparr>
      else ws\<lparr>ws_position := word_of_nat reuse\<rparr>)
        \<lparr>ws_chat_sampler := a, ws_chat_request := b, ws_chat_speculative := c\<rparr>) s1)"
proof -
  from trim obtain k where k: "la_seq_rm la (ws_sequence ws) (int reuse) (sg_llama s) = (True, k)"
    "s1 = s\<lparr>sg_llama := k\<rparr>" by (auto simp: trim_kv_def split: prod.splits)
  from ok ws have sess: "session_ok (sg_context_size s) (len (sg_llama s)) ws" by (simp add: stage_ok_def)
  have small: "unat (word_of_nat reuse :: u32) = reuse"
    using reuse(1) unat_u32_le[of "ws_position ws"] by (intro unat_word_of_nat_u32) linarith
  from laws k sess reuse(1) have cache: "len k = (len (sg_llama s))(ws_sequence ws := reuse)"
    by (simp add: kv_laws_def llama_laws_def trims_def session_ok_def)
  show ?thesis unfolding k
    by (rule stage_ok_update[OF ok ws _ cache])
       (use sess reuse small in \<open>auto simp: session_ok_def cache word_le_nat_alt\<close>)
qed

lemma try_prepare_ok:
  assumes laws: "kv_laws la len" and ok: "stage_ok len s"
    and ws: "session_of (fr_session input) s = Some ws" and run: "try_prepare la input ws s = (r, s')"
  shows "stage_ok len s' \<and> same_role s s'"
proof (cases "\<exists>prepared tokens. la_chat la (string_of (fr_payload input)) (sg_llama s) = Inr prepared
    \<and> tokenize la (ch_prompt prepared) = Inr tokens")
  case False
  with run ok show ?thesis by (auto simp: try_prepare_def split: sum.splits)
next
  case True
  then obtain prepared tokens where chat: "la_chat la (string_of (fr_payload input)) (sg_llama s) = Inr prepared"
    "tokenize la (ch_prompt prepared) = Inr tokens" by blast
  define reuse where "reuse = (if sg_first s then min (common_prefix (ws_history ws) tokens) (length tokens - 1)
    else unat (fr_position input))"
  obtain ready k where sampler: "(if sg_last s then la_chat_sampler la (fr_session input) prepared tokens (sg_llama s)
      else (True, sg_llama s)) = (ready, k)" by fastforce
  have "samplers_keep la len" using laws by (simp add: kv_laws_def llama_laws_def)
  then have keep: "len k = len (sg_llama s)"
    using sampler unfolding samplers_keep_def by (metis prod.inject snd_conv)
  let ?s = "s\<lparr>sg_llama := k\<rparr>"
  have ok': "stage_ok len ?s" and ws': "session_of (fr_session input) ?s = Some ws"
    using ok ws keep by (simp_all add: stage_ok_llama)
  obtain c s1 where trim: "trim_kv la (ws_sequence ws) (int reuse) ?s = (c, s1)" by fastforce
  note run' = run[unfolded try_prepare_def chat sum.case, folded reuse_def, unfolded Let_def sampler prod.case trim]
  have role: "same_role s s1" using trim by (auto simp: trim_kv_def split: prod.splits)
  show ?thesis
  proof (cases "tokens = [] \<or> length tokens \<ge> unat (sg_context_size s) \<or> reuse > unat (ws_position ws)
      \<or> reuse \<ge> length tokens \<or> \<not> ready")
    case True
    with run' ok ok' show ?thesis by (auto split: if_splits)
  next
    case False
    show ?thesis
    proof (cases c)
      case True
      with trim have trimmed: "trim_kv la (ws_sequence ws) (int reuse) ?s = (True, s1)" by simp
      from False have "reuse \<le> unat (ws_position ws)" "reuse < length tokens" by auto
      note made = chat_session_ok[OF laws ok' ws' this trimmed]
      from run' False True role made[where f = True, simplified] made[where f = False, simplified]
      show ?thesis by (auto split: if_split_asm)
    next
      case bad: False
      with run' False role trim_kv_failed[OF laws ok'] trim show ?thesis by (auto split: if_splits)
    qed
  qed
qed

lemma stage_prepare_chat_ok:
  assumes "kv_laws la len" "stage_ok len s" "stage_prepare_chat la input s = (r, s')"
  shows "stage_ok len s' \<and> same_role s s'"
proof (cases "require_worker_session input s")
  case (Inl e)
  with assms show ?thesis by (simp add: stage_prepare_chat_def)
next
  case (Inr ws)
  obtain r1 s1 where "try_prepare la input ws s = (r1, s1)" by fastforce
  with try_prepare_ok[OF assms(1,2) required_session[OF Inr] this] assms(2,3) Inr show ?thesis
    by (auto simp: stage_prepare_chat_def split: if_splits sum.splits)
qed

lemma coordinator_disconnected_ok:
  assumes "kv_laws la len" "stage_ok len s"
  shows "stage_ok len (coordinator_disconnected la s)"
proof (cases "sg_sessions s = []")
  case True
  have "alike s (s\<lparr>sg_active_session := 0\<rparr>)" by (simp add: alike_def session_of_def)
  with True assms(2) show ?thesis by (simp add: coordinator_disconnected_def alike_ok)
next
  case False
  then show ?thesis using assms
    by (auto simp: coordinator_disconnected_def stage_ok_def session_of_def table_fits_def kv_laws_def
        llama_laws_def samplers_keep_def)
qed

lemma handle_ok:
  assumes "kv_laws la len" "stage_ok len s" "handle la report chunk emit input s = (r, emitted, s')"
  shows "stage_ok len s' \<and> same_role s s'"
proof -
  have shut: "stage_ok len s1 \<and> same_role s s1" if "stage_shutdown input s = (r1, s1)" for r1 s1
  proof -
    have "alike s s1 \<and> same_role s s1" using that
      by (auto simp: stage_shutdown_def alike_def same_role_def session_of_def split: if_splits)
    with assms(2) alike_ok show ?thesis by blast
  qed
  have report: "stage_ok len s1 \<and> same_role s s1" if "stage_metrics_reply report input s = (r1, s1)" for r1 s1
    using that assms(2) by (auto simp: stage_metrics_reply_def split: if_splits)
  show ?thesis
    using assms(3) execute_ok[OF assms(1,2)] stage_create_ok[OF assms(2)]
      stage_prepare_chat_ok[OF assms(1,2)] stage_reset_ok[OF assms(1,2)]
      stage_destroy_ok[OF assms(1,2)] stage_end_request_ok[OF assms(2)]
      stage_rollback_ok[OF assms(1,2)] shut report assms(2)
    unfolding handle_def quiet_def
    by (cases "fr_type input") (auto split: prod.splits)
qed

text \<open>A freshly loaded stage, and what can happen to it.\<close>

definition loaded_stage ::
    "bool \<Rightarrow> bool \<Rightarrow> u32 \<Rightarrow> u32 \<Rightarrow> nat \<Rightarrow> dtype \<Rightarrow> u32 \<Rightarrow> 'k \<Rightarrow> 'k stage" where
  "loaded_stage is_first is_last hidden ctx sessions wire width k = \<lparr>sg_first = is_first, sg_last = is_last,
     sg_hidden = hidden, sg_context_size = ctx, sg_max_sessions = sessions, sg_wire = wire,
     sg_draft_width = width, sg_sequence_used = replicate sessions False, sg_sessions = [],
     sg_active_session = 0, sg_shutting_down = False, sg_requests_served = 0, sg_tokens_processed = 0,
     sg_tokens_generated = 0, sg_decode_batches = 0, sg_step_ns = 0, sg_timings = [], sg_llama = k\<rparr>"

definition loaded :: "('k \<Rightarrow> nat \<Rightarrow> nat) \<Rightarrow> 'k stage \<Rightarrow> bool" where
  "loaded len s \<longleftrightarrow> (\<exists>is_first is_last hidden ctx sessions wire width k.
     s = loaded_stage is_first is_last hidden ctx sessions wire width k \<and> len k = (\<lambda>_. 0))"

inductive stage_step :: "'k llama \<Rightarrow> 'k stage \<Rightarrow> 'k stage \<Rightarrow> bool" for la where
  framed: "handle la report chunk emit input s = (r, emitted, s') \<Longrightarrow> stage_step la s s'"
| dropped: "stage_step la s (coordinator_disconnected la s)"

lemma loaded_ok: "loaded len s \<Longrightarrow> stage_ok len s"
  by (auto simp: loaded_def loaded_stage_def stage_ok_def session_of_def table_fits_def)

lemma stage_steps_ok:
  assumes "(stage_step la)\<^sup>*\<^sup>* s s'" "kv_laws la len" "stage_ok len s"
  shows "stage_ok len s'"
  using assms
  by (induction rule: rtranclp_induct)
     (auto elim!: stage_step.cases dest: handle_ok coordinator_disconnected_ok)


text \<open>A library whose context is the number of positions held per sequence.\<close>

definition counting :: "(nat \<Rightarrow> nat) llama" where
  "counting = \<lparr>
     la_seq_rm = (\<lambda>q p k. (True, k(q := if p < 0 then 0 else min (nat p) (k q)))),
     la_decode = (\<lambda>batch k. (0, if batch = [] then k
       else k(bt_seq (hd batch) := k (bt_seq (hd batch)) + length batch))),
     la_embeddings = (\<lambda>_ _. Some [0]), la_fp16 = (\<lambda>_. 0), la_fp32 = (\<lambda>_. 0),
     la_tokenize = (\<lambda>bytes n. if n = 0 then (- int (length bytes), [])
       else (int (length bytes), map ucast bytes)),
     la_piece = (\<lambda>_ _. (0, [])), la_is_eog = (\<lambda>_. False), la_n_vocab = 256, la_sample = (\<lambda>_ _. 7),
     la_chat_sample = (\<lambda>_ _ k. (7, k)), la_chat = (\<lambda>_ _. Inl ''unsupported''),
     la_chat_sampler = (\<lambda>_ _ _ k. (True, k)), la_compute_ns = (\<lambda>_. 5), la_memory_clear = (\<lambda>_ _. 0)\<rparr>"

lemma counting_laws:
  "kv_laws counting (\<lambda>k. k)" "llama_laws counting (\<lambda>k. k)" "never_fatal counting"
proof -
  have "extends counting (\<lambda>k. k)"
    unfolding extends_def
  proof (intro allI impI)
    fix batch :: "batch_row list" and k k' :: "nat \<Rightarrow> nat" and q
    assume dec: "la_decode counting batch k = (0, k')" and cont: "continues q (k q) batch"
    have "bt_seq (hd batch) = q" if "batch \<noteq> []" using cont that by (simp add: continues_def hd_conv_nth)
    with dec show "k' = k(q := k q + length batch)" by (auto simp: counting_def split: if_splits)
  qed
  then show "llama_laws counting (\<lambda>k. k)"
    by (simp add: llama_laws_def trims_def restores_def samplers_keep_def embeds_def counting_def)
  moreover show "never_fatal counting" by (simp add: never_fatal_def counting_def)
  ultimately show "kv_laws counting (\<lambda>k. k)" by (simp add: kv_laws_def)
qed

definition demo_stage :: "(nat \<Rightarrow> nat) stage" where
  "demo_stage = loaded_stage True True 64 100 2 dt_f32le 4 (\<lambda>_. 0)"

definition demo_create :: frame where
  "demo_create = fresh_frame\<lparr>fr_type := T_create_session, fr_session := 7\<rparr>"

definition demo_prompt :: frame where
  "demo_prompt = fresh_frame\<lparr>fr_type := T_prompt, fr_session := 7, fr_request := 1, fr_payload := [104, 105, 33]\<rparr>"

definition demo_running :: "(nat \<Rightarrow> nat) stage" where
  "demo_running = snd (snd (handle counting (\<lambda>_. []) 0 None demo_prompt
     (snd (snd (handle counting (\<lambda>_. []) 0 None demo_create demo_stage)))))"

lemma handle_steps: "stage_step la s (snd (snd (handle la report chunk emit f s)))"
  by (rule stage_step.framed[of la report chunk emit f s "fst (handle la report chunk emit f s)"
        "fst (snd (handle la report chunk emit f s))"]) simp

lemma demo_running_reached: "(stage_step counting)\<^sup>*\<^sup>* demo_stage demo_running"
  unfolding demo_running_def
  by (rule rtranclp.rtrancl_into_rtrancl, rule r_into_rtranclp, rule handle_steps, rule handle_steps)

lemma prefill_whole: "prefill_chunks la input sink 0 tokens ws s = (Inr tokens, [], ws, s)"
  by (simp add: prefill_chunks.simps)

definition demo_session_state :: worker_session where
  "demo_session_state = fresh_worker_session 4 0"

lemma demo_created:
  "snd (snd (handle counting (\<lambda>_. []) 0 None demo_create demo_stage))
   = demo_stage\<lparr>sg_sessions := [(7, demo_session_state)], sg_sequence_used := [True, False]\<rparr>"
proof -
  have "replicate 2 False = [False, False]" by (simp add: numeral_2_eq_2)
  then show ?thesis
    by (simp add: demo_create_def demo_stage_def handle_def quiet_def stage_create_def control_ok_def
        empty_control_def fresh_frame_def session_of_def loaded_stage_def put_session_def
        demo_session_state_def)
qed

lemma demo_running_session:
  "map_option (\<lambda>ws. (ws_position ws, ws_active_request ws)) (session_of 7 demo_running) = Some (3, 1)"
  unfolding demo_running_def demo_created
  by (simp add: demo_prompt_def handle_def execute_def require_worker_session_def session_of_def
      demo_stage_def loaded_stage_def fresh_frame_def begin_request_def demo_session_state_def
      fresh_worker_session_def is_speculative_def put_session_def implicit_rollback_def run_first_def
      first_tokens_def tokenize_def counting_def resize_def Let_def context_left_def prefill_whole
      run_batch_first_def decode_def token_rows_def single_reply_def sample_result_def piece_def
      count_processed_def count_generated_def note_step_def note_timing_def advanced_def
      remembered_def upt_rec)


end
