(* ===== verification/Stage_Client.thy ===== *)
theory Stage_Client
  imports Stage Client
begin

text \<open>
  A worker's stage and the client that drives it agree on the protocol: what the stage
  (\<^verbatim>\<open>engine/stage_worker.cpp\<close>) replies to the frames of the token loop passes the checks of
  the client (\<^verbatim>\<open>engine/client.cpp\<close>).
\<close>

section \<open>What a successful run did\<close>

lemma first_tokens_count:
  assumes "first_tokens la input ws = (Inr tokens, ws')" "fr_type input \<noteq> T_prompt"
  shows "length tokens = (if is_speculative input then unat (fr_rows input) else 1)"
    "fr_type input = T_token \<or> fr_type input = T_commit_token"
    "fr_rows input = 0 \<or> is_speculative input"
  using assms by (auto simp: first_tokens_def Let_def split: if_splits)

lemma begin_request_keeps:
  "begin_request input ws s = (Inr ws', s') \<Longrightarrow> ws_position ws' = ws_position ws"
  by (auto simp: begin_request_def Let_def split: if_splits)

text \<open>A run of a stage that holds the whole model: the tokens it fed and the reply it built.\<close>

lemma single_stage_run:
  assumes laws: "llama_laws la len" and ok: "stage_ok len s" and whole: "sg_first s" "sg_last s"
    and run: "execute la chunk emit input s = (Inr reply, emitted, s')"
  obtains tokens ws w0 c s1 where "tokens \<noteq> []" "fst (first_tokens la input w0) = Inr tokens"
    "ws_position ws = fr_position input + word_of_nat (length tokens)"
    "unat (ws_position ws) = unat (fr_position input) + length tokens" "emitted = []"
    "single_reply la input (length tokens) ws c s1 = (Inr reply, s')"
proof -
  from run obtain w1 where req: "require_worker_session input s = Inr w1" and nz: "fr_request input \<noteq> 0"
    by (auto simp: execute_def split: if_splits sum.splits)
  obtain r1 sa where b: "begin_request input w1 s = (r1, sa)" by fastforce
  note b_ok = begin_request_ok[OF ok required_session[OF req] nz b]
  from run req nz b obtain w2 where r1: "r1 = Inr w2"
    by (auto simp: execute_def split: if_splits sum.splits)
  obtain r2 sb where i: "implicit_rollback la input w2 sa = (r2, sb)" by fastforce
  from b_ok r1 have "stage_ok len sa" "session_of (fr_session input) sa = Some w2" by auto
  note i_ok = implicit_rollback_ok[OF laws this i]
  from run req nz b r1 i obtain w3 where r2: "r2 = Inr w3"
    by (auto simp: execute_def split: if_splits sum.splits)
  have role: "sg_first sb" "sg_last sb" "sg_context_size sb = sg_context_size s"
    using b_ok i_ok whole by (auto simp: same_role_def)
  have first: "run_first la chunk emit input w3 sb = (Inr reply, emitted, s')"
    using run req nz b r1 i r2 role by (auto simp: execute_def split: if_splits)
  from i_ok r2 have hold: "holds len (fr_session input) w3 sb" by simp
  note sess = holds_session_ok[OF hold]
  obtain r3 w4 where toks: "first_tokens la input w3 = (r3, w4)" by fastforce
  from first toks obtain tokens where r3: "r3 = Inr tokens"
    by (auto simp: run_first_def Let_def split: if_splits sum.splits)
  note t = first_tokens_ok[OF toks sess]
  from first_tokens_ok(4)[OF toks sess r3] have fed: "tokens \<noteq> []" "fr_position input = ws_position w3" by auto
  have room: "length tokens \<le> unat (context_left sb w4)"
    and batch: "run_batch_first la input tokens w4 sb = (Inr reply, s')" and quiet: "emitted = []"
    using first toks r3 role prefill_whole[of la input _ tokens w4 sb]
    by (auto simp: run_first_def Let_def not_less split: if_splits prod.splits)
  have "unat (context_left sb w4) = unat (sg_context_size sb) - unat (ws_position w3)"
    using sess t(3) by (simp add: context_left_def session_ok_def unat_sub)
  moreover have "unat (ws_position w3) \<le> unat (sg_context_size sb)"
    using sess by (simp add: session_ok_def word_le_nat_alt)
  ultimately have "unat (fr_position input) + length tokens \<le> unat (sg_context_size sb)"
    using room fed(2) by simp
  then have sum: "unat (fr_position input + word_of_nat (length tokens)) = unat (fr_position input) + length tokens"
    using unat_u32_le[of "sg_context_size sb"] by (intro unat_advance) linarith
  let ?n = "length tokens" and ?ws = "advanced (length tokens) (remembered tokens w4)"
  define logits where "logits = (\<lambda>i. is_speculative input \<or> \<not> sg_last sb
    \<or> (fr_type input \<noteq> T_commit_token \<and> i + 1 = ?n))"
  obtain fine s2 where dec: "decode la (token_rows w4 logits tokens) sb = (fine, s2)" by fastforce
  have "sg_last s2" using decode_same_role[OF dec] role by (simp add: same_role_def)
  with batch dec have reply: "single_reply la input ?n ?ws (la_compute_ns la (sg_llama s2))
       (count_processed ?n (put_session (fr_session input) ?ws s2)) = (Inr reply, s')"
    unfolding run_batch_first_def Let_def logits_def by (cases fine) (simp_all cong: if_cong)
  have moved: "ws_position ?ws = fr_position input + word_of_nat ?n"
    using t(3) fed by (simp add: advanced_def remembered_def)
  have "fst (first_tokens la input w3) = Inr tokens" using toks r3 by simp
  from that[OF fed(1) this moved _ quiet reply] sum moved show thesis by simp
qed

lemma single_payload:
  "length (put32 t @ put64 c @ [x] @ bs) = 13 + length bs" "(put32 t @ put64 c @ [x] @ bs) ! 12 = x"
  using c32.put_width c64.put_width by (auto simp: nth_append)

lemma sample_result_frame:
  "sample_result la input ws i c s = (Inr reply, s')
   \<Longrightarrow> \<exists>token ends txt. reply = result_frame input (ws_position ws) token c ends txt"
  by (auto simp: sample_result_def Let_def split: prod.splits sum.splits)

text \<open>C18. A worker that holds the whole model answers the token loop in the client's own terms: its
reply to a prompt or a token is a result the client accepts, a block of guesses is answered row by
row, and a committed token is acknowledged at the next position. No chunk is emitted.\<close>

theorem single_stage_answers_accepted:
  assumes "llama_laws la len" "stage_ok len s" "sg_first s" "sg_last s"
    and "execute la chunk emit input s = (Inr reply, emitted, s')"
  shows "emitted = []
    \<and> (fr_type input = T_prompt \<or> fr_type input = T_token \<and> fr_rows input = 0
       \<longrightarrow> (\<exists>r. require_result reply input = Inr r))
    \<and> (fr_type input = T_token \<and> fr_rows input \<noteq> 0 \<longrightarrow> require_speculative reply input = Inr ()
       \<and> length (speculative_tokens reply) = unat (fr_rows input))
    \<and> (fr_type input = T_commit_token \<longrightarrow> require_ack reply input True = Inr ()
       \<and> fr_position reply = fr_position input + 1)"
proof -
  obtain tokens ws w0 c s1 where tokens: "tokens \<noteq> []" "fst (first_tokens la input w0) = Inr tokens"
    and pos: "ws_position ws = fr_position input + word_of_nat (length tokens)"
      "unat (ws_position ws) = unat (fr_position input) + length tokens"
    and quiet: "emitted = []"
    and reply: "single_reply la input (length tokens) ws c s1 = (Inr reply, s')"
    by (rule single_stage_run[OF assms])
  then obtain w' where first: "first_tokens la input w0 = (Inr tokens, w')" by (metis fst_conv surj_pair)
  have result: "\<exists>r. require_result reply input = Inr r"
    if kind: "fr_type input = T_prompt \<or> fr_type input = T_token \<and> fr_rows input = 0"
  proof -
    from kind reply have "sample_result la input ws (-1) c s1 = (Inr reply, s') \<or>
        (\<exists>s2. sample_result la input ws (-1) c s1 = (Inr reply, s2))"
      by (auto simp: single_reply_def is_speculative_def split: prod.splits sum.splits)
    then obtain token ends words where r: "reply = result_frame input (ws_position ws) token c ends words"
      using sample_result_frame by blast
    have rows: "fr_rows input = 0" using first kind by (auto simp: first_tokens_def split: if_splits)
    have "position_ok reply input"
    proof (cases "fr_type input = T_prompt")
      case True
      with pos(2) tokens(1) rows show ?thesis
        by (simp add: position_ok_def r result_frame_def fresh_frame_def word_less_nat_alt)
    next
      case False
      with first_tokens_count(1)[OF first False] kind pos(1) rows show ?thesis
        by (simp add: position_ok_def r result_frame_def fresh_frame_def is_speculative_def)
    qed
    then show ?thesis using single_payload
      by (simp add: require_result_def r result_frame_def fresh_frame_def)
  qed
  have block: "require_speculative reply input = Inr () \<and> length (speculative_tokens reply) = unat (fr_rows input)"
    if "fr_type input = T_token \<and> fr_rows input \<noteq> 0"
  proof -
    from that have spec: "is_speculative input" by (simp add: is_speculative_def)
    with first_tokens_count(1)[OF first] that have n: "length tokens = unat (fr_rows input)" by simp
    with reply that spec have r: "reply = verified_frame input (ws_position ws) c (greedy_samples la (unat (fr_rows input)) s1)"
      by (simp add: single_reply_def)
    have "length (concat (map (put32 \<circ> f) xs)) = length xs * 4" for f and xs :: "nat list"
      using c32.put_width by (induction xs) auto
    with pos(1) n c64.put_width show ?thesis
      by (simp add: require_speculative_def r verified_frame_def fresh_frame_def greedy_samples_def
          speculative_tokens_def)
  qed
  have commit: "require_ack reply input True = Inr () \<and> fr_position reply = fr_position input + 1"
    if "fr_type input = T_commit_token"
  proof -
    from first_tokens_count(1)[OF first] that have "length tokens = 1" by (simp add: is_speculative_def)
    moreover from reply that have "reply = stage_ack input (ws_position ws) c" by (simp add: single_reply_def)
    ultimately show ?thesis using pos(1) c64.put_width
      by (simp add: require_ack_def stage_ack_def fresh_frame_def)
  qed
  from quiet result block commit show ?thesis by blast
qed

theorem single_stage_answers_accepted_witness:
  "\<exists>reply s' r. execute counting 0 None demo_prompt
      (snd (snd (handle counting (\<lambda>_. []) 0 None demo_create demo_stage))) = (Inr reply, [], s')
    \<and> require_result reply demo_prompt = Inr r"
proof -
  let ?s = "snd (snd (handle counting (\<lambda>_. []) 0 None demo_create demo_stage))"
  have "loaded (\<lambda>k. k) demo_stage" unfolding loaded_def demo_stage_def by blast
  moreover have "stage_step counting demo_stage ?s" by (rule handle_steps)
  ultimately have ok: "stage_ok (\<lambda>k. k) ?s"
    using stage_steps_ok[OF r_into_rtranclp counting_laws(1) loaded_ok] by blast
  have whole: "sg_first ?s" "sg_last ?s"
    unfolding demo_created by (simp_all add: demo_stage_def loaded_stage_def)
  have "\<exists>reply s'. execute counting 0 None demo_prompt ?s = (Inr reply, [], s')"
    unfolding demo_created
    by (simp add: demo_prompt_def execute_def require_worker_session_def session_of_def
      demo_stage_def loaded_stage_def fresh_frame_def begin_request_def demo_session_state_def
      fresh_worker_session_def is_speculative_def put_session_def implicit_rollback_def run_first_def
      first_tokens_def tokenize_def counting_def resize_def Let_def context_left_def prefill_whole
      run_batch_first_def decode_def token_rows_def single_reply_def sample_result_def piece_def)
  then obtain reply s' where run: "execute counting 0 None demo_prompt ?s = (Inr reply, [], s')" by blast
  have "fr_type demo_prompt = T_prompt" by (simp add: demo_prompt_def)
  with single_stage_answers_accepted[OF counting_laws(2) ok whole run] run show ?thesis by blast
qed

end
