(* ===== verification/Drafting.thy ===== *)
theory Drafting
  imports Stage
begin

text \<open>
  Batched decoding and speculative rounds on a worker (\<^verbatim>\<open>engine/stage_worker.cpp\<close>): several
  sessions in one batch, the guesses of the first stage from a draft model or from the text so far,
  their way to the last stage, and the tokens a verified round commits. The draft model is a second
  stage with its own library instance. What the code calls of llama.cpp's speculation helpers is
  the record \<open>upstream\<close>.
\<close>

section \<open>Several sessions in one batch\<close>

definition can_draft :: "frame \<Rightarrow> 'k stage \<Rightarrow> bool" where
  "can_draft f s = (case session_of (fr_session f) s of
     None \<Rightarrow> True | Some ws \<Rightarrow> \<not> ws_chat_request ws \<or> ws_chat_speculative ws)"

definition can_model_draft :: "frame \<Rightarrow> 'k stage \<Rightarrow> bool" where
  "can_model_draft f s = (case session_of (fr_session f) s of
     None \<Rightarrow> True | Some ws \<Rightarrow> \<not> ws_chat_request ws)"

definition batchable :: "frame \<Rightarrow> u64 \<Rightarrow> 'k stage \<Rightarrow> bool" where
  "batchable f nbytes s =
     (case session_of (fr_session f) s of
        None \<Rightarrow> False
      | Some ws \<Rightarrow>
          if fr_request f = 0 \<or> ws_active_request ws \<noteq> fr_request f \<or> \<not> ws_has_prompt ws
             \<or> fr_position f \<noteq> ws_position ws \<or> fr_position f \<ge> sg_context_size s then False
          else if sg_first s
          then fr_type f = T_token \<and> fr_rows f = 0 \<and> fr_cols f = 0 \<and> fr_dtype f = dt_none \<and> nbytes = 4
          else fr_type f = T_activation \<and> fr_rows f = 1 \<and> fr_cols f = sg_hidden s
               \<and> activation_dtype (fr_dtype f)
               \<and> nbytes = 8 + activation_bytes (fr_dtype f) 1 (ucast (fr_cols f)))"

definition payload_size :: "frame \<Rightarrow> u64" where
  "payload_size f = word_of_nat (length (fr_payload f))"

text \<open>The rows of a batch, one for each frame; a frame that does not fit is an exception.\<close>

definition batch_row_of :: "'k llama \<Rightarrow> 'k stage \<Rightarrow> frame \<Rightarrow> string + batch_row" where
  "batch_row_of la s f =
     (if \<not> batchable f (payload_size f) s then Inl ''invalid decode batch''
      else case require_worker_session f s of
        Inl e \<Rightarrow> Inl e
      | Inr ws \<Rightarrow>
          if sg_first s \<and> get32 (fr_payload f) \<ge> la_n_vocab la
          then Inl ''invalid token in decode batch''
          else Inr \<lparr>bt_input = (if sg_first s then BToken (get32 (fr_payload f))
                                else BEmbd (get_hidden la f ! 0)),
                    bt_pos = unat (fr_position f), bt_seq = ws_sequence ws, bt_logits = True\<rparr>)"

primrec batch_rows :: "'k llama \<Rightarrow> 'k stage \<Rightarrow> frame list \<Rightarrow> string + batch_row list" where
  "batch_rows la s [] = Inr []"
| "batch_rows la s (f # rest) =
     (case batch_row_of la s f of
        Inl e \<Rightarrow> Inl e
      | Inr row \<Rightarrow> (case batch_rows la s rest of Inl e \<Rightarrow> Inl e | Inr rows \<Rightarrow> Inr (row # rows)))"

text \<open>The reply to the frame in row \<open>i\<close>; its session moves one position first.\<close>

definition batch_reply :: "'k llama \<Rightarrow> nat \<Rightarrow> frame \<Rightarrow> u64 \<Rightarrow> 'k stage \<Rightarrow> 'k reply" where
  "batch_reply la i f compute s =
     (case require_worker_session f s of
        Inl e \<Rightarrow> (Inl e, s)
      | Inr ws \<Rightarrow>
          let ws = advanced 1 ws;
              ws = (if sg_first s then remembered [get32 (fr_payload f)] ws else ws);
              s = put_session (fr_session f) ws s
          in if sg_last s then sample_result la f ws (int i) compute s
             else case put_hidden la s ((frame_header f)\<lparr>fr_type := T_activation, fr_rows := 1,
                          fr_cols := sg_hidden s, fr_dtype := dt_none\<rparr>) 1 i compute of
                    None \<Rightarrow> (Inl ''batch returned no hidden state'', s)
                  | Some output \<Rightarrow> (Inr output, s))"

primrec batch_replies ::
    "'k llama \<Rightarrow> u64 \<Rightarrow> nat \<Rightarrow> frame list \<Rightarrow> 'k stage \<Rightarrow> (string + frame list) \<times> 'k stage" where
  "batch_replies la compute i [] s = (Inr [], s)"
| "batch_replies la compute i (f # rest) s =
     (case batch_reply la i f compute s of
        (Inl e, s) \<Rightarrow> (Inl e, s)
      | (Inr output, s) \<Rightarrow>
          (case batch_replies la compute (Suc i) rest s of
             (Inl e, s) \<Rightarrow> (Inl e, s)
           | (Inr outputs, s) \<Rightarrow> (Inr (output # outputs), s)))"

definition decode_batch :: "'k llama \<Rightarrow> frame list \<Rightarrow> 'k stage \<Rightarrow> (string + frame list) \<times> 'k stage" where
  "decode_batch la inputs s =
     (case batch_rows la s inputs of
        Inl e \<Rightarrow> (Inl e, s)
      | Inr rows \<Rightarrow>
          (case decode la rows s of
             (False, s) \<Rightarrow> (Inl ''batched decode failed'', s)
           | (True, s) \<Rightarrow>
               let compute = la_compute_ns la (sg_llama s) div word_of_nat (length inputs) in
               (case batch_replies la compute 0 inputs s of
                  (Inl e, s) \<Rightarrow> (Inl e, s)
                | (Inr outputs, s) \<Rightarrow>
                    (Inr outputs, (count_processed (length inputs) s)
                       \<lparr>sg_decode_batches := sg_decode_batches s + 1\<rparr>))))"

section \<open>Guesses\<close>

text \<open>
  The helpers of llama.cpp: guesses by n-gram lookup in the tokens so far, a draft object for two
  contexts (kept in the draft's context once made), guesses of the draft model, the highest
  position of a sequence, and the clock.
\<close>

record 'k upstream =
  up_ngram :: "nat \<Rightarrow> nat \<Rightarrow> u32 list \<Rightarrow> u32 \<Rightarrow> u32 list"
  up_ready :: "'k \<Rightarrow> 'k \<Rightarrow> bool \<times> 'k"
  up_draft :: "nat \<Rightarrow> u32 \<Rightarrow> u32 \<Rightarrow> u32 \<Rightarrow> u32 list \<Rightarrow> 'k \<Rightarrow> u32 list \<times> 'k"
  up_pos_max :: "nat \<Rightarrow> 'k \<Rightarrow> int"
  up_now :: "'k \<Rightarrow> 'k option \<Rightarrow> u64"

definition ngram_proposals ::
    "'k upstream \<Rightarrow> frame \<Rightarrow> u32 \<Rightarrow> 'k stage \<Rightarrow> (string + u32 list) \<times> 'k stage" where
  "ngram_proposals up f wanted s =
     (case require_worker_session f s of
        Inl e \<Rightarrow> (Inl e, s)
      | Inr ws \<Rightarrow>
          let n = min wanted (speculation_room (sg_context_size s) (fr_position f)) in
          if n < 3 then (Inr [], s)
          else if unat (fr_position f) > length (ws_history ws) then (Inl ''n-gram history mismatch'', s)
          else
            let history = resize (unat (fr_position f)) (ws_history ws) in
            (Inr (up_ngram up 3 (unat (ucast n :: u16)) history (get32 (fr_payload f))),
             put_session (fr_session f) (ws\<lparr>ws_history := history\<rparr>) s))"

definition model_proposals ::
    "'k llama \<Rightarrow> 'k upstream \<Rightarrow> 'k \<Rightarrow> frame \<Rightarrow> u32 \<Rightarrow> 'k stage \<Rightarrow> (string + u32 list) \<times> 'k stage" where
  "model_proposals ld up target f wanted s =
     (case require_worker_session f s of
        Inl e \<Rightarrow> (Inl e, s)
      | Inr ws \<Rightarrow>
          let n = min wanted (speculation_room (sg_context_size s) (fr_position f)) in
          if n = 0 then (Inr [], s)
          else case trim_kv ld (ws_sequence ws) (uint (fr_position f)) s of
            (False, s) \<Rightarrow> (Inl ''draft rollback failed'', s)
          | (True, s) \<Rightarrow>
              (case up_ready up target (sg_llama s) of
                 (False, k) \<Rightarrow> (Inl ''upstream draft initialization failed'', s\<lparr>sg_llama := k\<rparr>)
               | (True, k) \<Rightarrow>
                   let current = get32 (fr_payload f);
                       (guesses, k) = up_draft up (ws_sequence ws) n (fr_position f) current
                         (ws_history ws) k;
                       position = word_of_int (up_pos_max up (ws_sequence ws) k + 1) :: u32;
                       history = resize (unat (fr_position f)) (ws_history ws) @ [current];
                       history = history @ take (unat position - length history) guesses
                   in (Inr guesses, put_session (fr_session f)
                         (ws\<lparr>ws_position := position, ws_history := history\<rparr>) (s\<lparr>sg_llama := k\<rparr>))))"

section \<open>Rounds\<close>

text \<open>
  What the stage mutex guards: the loaded stage, the draft model's stage and each session's
  guesses of its last round. The settings are those of the command line.
\<close>

record guesses =
  gs_at :: u32
  gs_tokens :: "u32 list"
  gs_request :: u64
  gs_started :: u64

record 'k drafting =
  dg_stage :: "'k stage"
  dg_draft :: "'k stage option"
  dg_guessed :: "(u64 \<times> guesses) list"

record 'k draft_setup =
  su_target :: "'k llama"
  su_draft :: "'k llama"
  su_upstream :: "'k upstream"
  su_report :: "'k stage \<Rightarrow> string"
  su_width :: u32
  su_adaptive :: bool
  su_ngram :: bool

definition decode_frame :: "frame \<Rightarrow> u32 \<Rightarrow> u32 list \<Rightarrow> frame" where
  "decode_frame like position tokens = fresh_frame\<lparr>fr_type := T_token,
     fr_session := fr_session like, fr_request := fr_request like, fr_position := position,
     fr_rows := (if length tokens > 1 then word_of_nat (length tokens) else 0),
     fr_payload := concat (map put32 tokens)\<rparr>"

definition accepted_tokens :: "u32 list \<Rightarrow> frame \<Rightarrow> u32 list" where
  "accepted_tokens proposals verified =
     (if fr_type verified \<noteq> T_result \<or> fr_rows verified = 0
         \<or> length (fr_payload verified) < 8 + unat (fr_rows verified) * 4 then []
      else accept_speculation proposals
        (map (\<lambda>i. get32 (drop (8 + i * 4) (fr_payload verified))) [0..<unat (fr_rows verified)]))"

definition ack_frame :: "frame \<Rightarrow> frame" where
  "ack_frame input = fresh_frame\<lparr>fr_type := T_ack, fr_session := fr_session input,
     fr_request := fr_request input\<rparr>"

definition streamed_frame :: "frame \<Rightarrow> u32 \<Rightarrow> u32 \<Rightarrow> string \<Rightarrow> bool \<Rightarrow> u64 \<Rightarrow> frame" where
  "streamed_frame like position token txt ends compute = fresh_frame\<lparr>fr_type := T_result,
     fr_session := fr_session like, fr_request := fr_request like, fr_position := position,
     fr_payload := put32 token @ put64 compute @ [if ends then 1 else 0] @ bytes_of txt\<rparr>"

definition put_draft :: "u64 \<Rightarrow> draft_state \<Rightarrow> 'k stage \<Rightarrow> 'k stage" where
  "put_draft session st s =
     (case session_of session s of
        None \<Rightarrow> s | Some ws \<Rightarrow> put_session session (ws\<lparr>ws_draft := st\<rparr>) s)"

definition now_of :: "'k draft_setup \<Rightarrow> 'k drafting \<Rightarrow> u64" where
  "now_of su d = up_now (su_upstream su) (sg_llama (dg_stage d)) (map_option sg_llama (dg_draft d))"

text \<open>One frame handled by the draft's stage; the reply is not looked at.\<close>

definition draft_handle :: "'k draft_setup \<Rightarrow> frame \<Rightarrow> 'k drafting \<Rightarrow> (string + unit) \<times> 'k drafting" where
  "draft_handle su f d =
     (case dg_draft d of
        None \<Rightarrow> (Inr (), d)
      | Some s \<Rightarrow>
          (case handle (su_draft su) (su_report su) 0 None f s of
             (r, _, s) \<Rightarrow> (case r of Inl e \<Rightarrow> Inl e | Inr _ \<Rightarrow> Inr (), d\<lparr>dg_draft := Some s\<rparr>)))"

text \<open>The policy learns from a round whose successor is the next token of the same request.\<close>

definition learn_width :: "'k draft_setup \<Rightarrow> guesses \<Rightarrow> frame \<Rightarrow> 'k drafting \<Rightarrow> (string + unit) \<times> 'k drafting" where
  "learn_width su g next_frame d =
     (let behind_at = gs_at g + word_of_nat (length (gs_tokens g)) in
      if su_adaptive su \<and> fr_type next_frame = T_token \<and> fr_position next_frame > gs_at g
         \<and> fr_position next_frame \<le> behind_at + 1
      then case require_worker_session next_frame (dg_stage d) of
             Inl e \<Rightarrow> (Inl e, d)
           | Inr ws \<Rightarrow>
               let st = ws_draft ws;
                   policy = observe_width (word_of_nat (length (gs_tokens g)) + 1)
                     (fr_position next_frame - gs_at g) (now_of su d - gs_started g) (ds_policy st)
               in (Inr (), d\<lparr>dg_stage := put_draft (fr_session next_frame)
                     (st\<lparr>ds_policy := policy\<rparr>) (dg_stage d)\<rparr>)
      else (Inr (), d))"

definition catch_up_draft :: "'k draft_setup \<Rightarrow> frame \<Rightarrow> 'k drafting \<Rightarrow> (string + unit) \<times> 'k drafting" where
  "catch_up_draft su next_frame d =
     (case map_of (dg_guessed d) (fr_session next_frame) of
        None \<Rightarrow> (Inr (), d)
      | Some g \<Rightarrow>
          let d = d\<lparr>dg_guessed := AList.delete (fr_session next_frame) (dg_guessed d)\<rparr>;
              behind_at = gs_at g + word_of_nat (length (gs_tokens g))
          in if fr_request next_frame \<noteq> gs_request g then (Inr (), d)
             else case (if dg_draft d \<noteq> None \<and> can_model_draft next_frame (dg_stage d)
                           \<and> gs_tokens g \<noteq> [] \<and> fr_position next_frame = behind_at + 1
                        then draft_handle su (decode_frame next_frame behind_at [last (gs_tokens g)]) d
                        else (Inr (), d)) of
               (Inl e, d) \<Rightarrow> (Inl e, d)
             | (Inr _, d) \<Rightarrow> learn_width su g next_frame d)"

text \<open>Replays the committed inputs that the draft has not seen yet.\<close>

definition flush_draft :: "'k draft_setup \<Rightarrow> frame \<Rightarrow> 'k drafting \<Rightarrow> (string + unit) \<times> 'k drafting" where
  "flush_draft su like d =
     (case require_worker_session like (dg_stage d) of
        Inl e \<Rightarrow> (Inl e, d)
      | Inr ws \<Rightarrow>
          let st = ws_draft ws in
          if ds_pending st = [] then (Inr (), d)
          else case draft_handle su
                 ((decode_frame like (ds_at st) (ds_pending st))\<lparr>fr_request := ds_request st\<rparr>) d of
            (Inl e, d) \<Rightarrow> (Inl e, d)
          | (Inr _, d) \<Rightarrow>
              (Inr (), d\<lparr>dg_stage := put_draft (fr_session like) (st\<lparr>ds_pending := []\<rparr>) (dg_stage d)\<rparr>))"

definition draft_of :: "u64 \<Rightarrow> 'k stage \<Rightarrow> draft_state option" where
  "draft_of session s = map_option ws_draft (session_of session s)"

text \<open>The guesses for a round that starts at a token, from whichever source is on.\<close>

definition propose :: "'k draft_setup \<Rightarrow> frame \<Rightarrow> u32 \<Rightarrow> 'k drafting \<Rightarrow> (string + u32 list) \<times> 'k drafting" where
  "propose su input width d =
     (if width \<le> 1 then (Inr [], d)
      else case dg_draft d of
        Some draft \<Rightarrow>
          if can_model_draft input (dg_stage d) then
            (case flush_draft su input d of
               (Inl e, d) \<Rightarrow> (Inl e, d)
             | (Inr _, d) \<Rightarrow>
                 (case dg_draft d of
                    None \<Rightarrow> (Inr [], d)
                  | Some draft \<Rightarrow>
                      (case model_proposals (su_draft su) (su_upstream su) (sg_llama (dg_stage d)) input
                          (width - 1) draft of
                         (r, draft) \<Rightarrow> (r, d\<lparr>dg_draft := Some draft\<rparr>))))
          else if su_ngram su then
            (case ngram_proposals (su_upstream su) input (width - 1) (dg_stage d) of
               (r, s) \<Rightarrow> (r, d\<lparr>dg_stage := s\<rparr>))
          else (Inr [], d)
      | None \<Rightarrow>
          if su_ngram su then
            (case ngram_proposals (su_upstream su) input (width - 1) (dg_stage d) of
               (r, s) \<Rightarrow> (r, d\<lparr>dg_stage := s\<rparr>))
          else (Inr [], d))"

text \<open>The guarded part of a round: any failure turns the draft off and leaves no guesses.\<close>

definition try_propose :: "'k draft_setup \<Rightarrow> frame \<Rightarrow> 'k drafting \<Rightarrow> u32 list \<times> u64 \<times> 'k drafting" where
  "try_propose su input d =
     (let entered = now_of su d;
          off = (\<lambda>d. d\<lparr>dg_draft := None, dg_stage := (case draft_of (fr_session input) (dg_stage d) of
             None \<Rightarrow> dg_stage d
           | Some st \<Rightarrow> put_draft (fr_session input) (st\<lparr>ds_pending := []\<rparr>) (dg_stage d))\<rparr>)
      in case catch_up_draft su input d of
           (Inl e, d) \<Rightarrow> ([], entered, off d)
         | (Inr _, d) \<Rightarrow>
             let width = (case draft_of (fr_session input) (dg_stage d) of
                            Some st \<Rightarrow> if su_adaptive su then aw_width (ds_policy st) else su_width su
                          | None \<Rightarrow> su_width su);
                 started = now_of su d
             in case propose su input width d of
                  (Inl e, d) \<Rightarrow> ([], started, off d)
                | (Inr guesses, d) \<Rightarrow> (guesses, started, d))"

text \<open>A token the draft model was not asked about is kept for a later replay.\<close>

definition defer_token :: "frame \<Rightarrow> u32 \<Rightarrow> 'k drafting \<Rightarrow> (string + unit) \<times> 'k drafting" where
  "defer_token input token d =
     (case draft_of (fr_session input) (dg_stage d) of
        None \<Rightarrow> (Inr (), d)
      | Some st \<Rightarrow>
          let st = (if ds_pending st = []
                    then st\<lparr>ds_at := fr_position input, ds_request := fr_request input\<rparr> else st);
              d' = d\<lparr>dg_stage := put_draft (fr_session input) st (dg_stage d)\<rparr>
          in if ds_request st \<noteq> fr_request input
                \<or> unat (fr_position input) \<noteq> unat (ds_at st) + length (ds_pending st)
             then (Inl ''noncontiguous deferred draft inputs'', d')
             else (Inr (), d\<lparr>dg_stage := put_draft (fr_session input)
                    (st\<lparr>ds_pending := ds_pending st @ [token]\<rparr>) (dg_stage d)\<rparr>))"

definition note_guesses ::
    "'k draft_setup \<Rightarrow> frame \<Rightarrow> u32 list \<Rightarrow> u64 \<Rightarrow> 'k drafting \<Rightarrow> (string + unit) \<times> 'k drafting" where
  "note_guesses su input guesses started d =
     (if dg_draft d \<noteq> None \<or> su_ngram su then
        (case (if dg_draft d \<noteq> None \<and> can_model_draft input (dg_stage d) \<and> guesses = []
               then defer_token input (get32 (fr_payload input)) d else (Inr (), d)) of
           (Inl e, d) \<Rightarrow> (Inl e, d)
         | (Inr _, d) \<Rightarrow>
             (Inr (), d\<lparr>dg_guessed := AList.update (fr_session input) \<lparr>gs_at = fr_position input,
                gs_tokens = guesses, gs_request = fr_request input, gs_started = started\<rparr>
                (dg_guessed d)\<rparr>))
      else (Inr (), d\<lparr>dg_guessed := AList.delete (fr_session input) (dg_guessed d)\<rparr>))"

definition draft_round :: "'k draft_setup \<Rightarrow> frame \<Rightarrow> 'k drafting \<Rightarrow> (string + frame) \<times> 'k drafting" where
  "draft_round su input d =
     (case require_worker_session input (dg_stage d) of
        Inl e \<Rightarrow> (Inl e, d)
      | Inr _ \<Rightarrow>
          (case try_propose su input d of
             (guesses, started, d) \<Rightarrow>
               (case handle (su_target su) (su_report su) 0 None
                   (decode_frame input (fr_position input) (get32 (fr_payload input) # guesses))
                   (dg_stage d) of
                  (Inl e, _, s) \<Rightarrow> (Inl e, d\<lparr>dg_stage := s\<rparr>)
                | (Inr output, _, s) \<Rightarrow>
                    (case note_guesses su input guesses started (d\<lparr>dg_stage := s\<rparr>) of
                       (Inl e, d) \<Rightarrow> (Inl e, d)
                     | (Inr _, d) \<Rightarrow>
                         (Inr (if fr_type output = T_speculative_activation
                               then output\<lparr>fr_payload := fr_payload output @ concat (map put32 guesses)\<rparr>
                               else output), d)))))"

section \<open>What a round commits\<close>

record loop_step =
  ls_tokens :: "u32 list"
  ls_text :: "string list"
  ls_ends :: "bool list"
  ls_position :: u32
  ls_compute_ns :: u64
  ls_error :: string

definition failed_step :: "string \<Rightarrow> loop_step" where
  "failed_step e = \<lparr>ls_tokens = [], ls_text = [], ls_ends = [], ls_position = 0, ls_compute_ns = 0,
     ls_error = e\<rparr>"

primrec texts_of :: "'k llama \<Rightarrow> u32 list \<Rightarrow> string + string list" where
  "texts_of la [] = Inr []"
| "texts_of la (t # ts) =
     (case piece la t of
        Inl e \<Rightarrow> Inl e
      | Inr x \<Rightarrow> (case texts_of la ts of Inl e \<Rightarrow> Inl e | Inr xs \<Rightarrow> Inr (x # xs)))"

text \<open>The step that a verified reply makes, given the guesses on record for the session.\<close>

definition step_of :: "'k llama \<Rightarrow> u32 list \<Rightarrow> u32 \<Rightarrow> frame \<Rightarrow> loop_step" where
  "step_of la proposals position verified =
     (if proposals = [] \<and> (fr_type verified \<noteq> T_result \<or> length (fr_payload verified) < 13)
      then failed_step ''unexpected decode reply''
      else
        let accepted = (if proposals = [] then [get32 (fr_payload verified)]
                        else accepted_tokens proposals verified);
            compute = (if proposals = [] then get64 (drop 4 (fr_payload verified))
                       else if length (fr_payload verified) \<ge> 8 then get64 (fr_payload verified) else 0)
        in case texts_of la accepted of
             Inl e \<Rightarrow> failed_step e
           | Inr texts \<Rightarrow> \<lparr>ls_tokens = accepted, ls_text = texts, ls_ends = map (la_is_eog la) accepted,
               ls_position = position + word_of_nat (length accepted), ls_compute_ns = compute,
               ls_error = []\<rparr>)"

definition local_decode ::
    "'k draft_setup \<Rightarrow> u32 \<Rightarrow> u32 \<Rightarrow> frame \<Rightarrow> 'k drafting option \<Rightarrow> loop_step \<times> 'k drafting option" where
  "local_decode su token position like held =
     (case held of
        None \<Rightarrow> (failed_step ''no stage is loaded'', None)
      | Some d \<Rightarrow>
          let input = decode_frame like position [token];
              (r, d) = (if ((dg_draft d \<noteq> None \<and> can_model_draft input (dg_stage d)) \<or> su_ngram su)
                            \<and> can_draft input (dg_stage d)
                        then draft_round su input d
                        else case handle (su_target su) (su_report su) 0 None input (dg_stage d) of
                               (r, _, s) \<Rightarrow> (r, d\<lparr>dg_stage := s\<rparr>))
          in (case r of
                Inl e \<Rightarrow> failed_step e
              | Inr verified \<Rightarrow>
                  step_of (su_target su)
                    (case map_of (dg_guessed d) (fr_session like) of None \<Rightarrow> [] | Some g \<Rightarrow> gs_tokens g)
                    position verified, Some d))"

text \<open>The last stage of a longer route: the tokens of a verified batch as streamed results.\<close>

definition verify_round :: "'k llama \<Rightarrow> frame \<Rightarrow> frame \<Rightarrow> string + frame list" where
  "verify_round la input verified =
     (let accepted = accepted_tokens (carried_guesses input) verified in
      case texts_of la accepted of
        Inl e \<Rightarrow> Inl e
      | Inr texts \<Rightarrow>
          Inr (map (\<lambda>i. streamed_frame verified (fr_position input + word_of_nat i + 1) (accepted ! i)
                (texts ! i) (la_is_eog la (accepted ! i))
                (if i = 0 \<and> length (fr_payload verified) \<ge> 8 then get64 (fr_payload verified) else 0))
              [0..<length accepted]))"

section \<open>Rounds keep the stage's invariant\<close>

lemma stage_ok_fields:
  assumes "stage_ok len s" "session_of sid s = Some ws" "ws_sequence ws' = ws_sequence ws"
    "session_ok (sg_context_size s) (len (sg_llama s)) ws'"
  shows "stage_ok len (put_session sid ws' s)"
  using stage_ok_update[OF assms(1-3), of "sg_llama s" "len (sg_llama s) (ws_sequence ws)"] assms(4)
  by simp

lemma stored_session_ok:
  "stage_ok len s \<Longrightarrow> session_of sid s = Some ws \<Longrightarrow> session_ok (sg_context_size s) (len (sg_llama s)) ws"
  by (simp add: stage_ok_def)

lemma put_draft_ok: "stage_ok len s \<Longrightarrow> stage_ok len (put_draft sid st s)"
  by (auto simp: put_draft_def session_ok_def split: option.splits
      intro!: stage_ok_fields dest: stored_session_ok)

lemma put_history_ok:
  "stage_ok len s \<Longrightarrow> session_of sid s = Some ws \<Longrightarrow> stage_ok len (put_session sid (ws\<lparr>ws_history := h\<rparr>) s)"
  by (auto simp: session_ok_def intro!: stage_ok_fields dest: stored_session_ok)

lemma required_session_of: "require_worker_session f s = Inr ws \<Longrightarrow> session_of (fr_session f) s = Some ws"
  by (auto simp: require_worker_session_def split: if_splits option.splits)

named_theorems round_keeps

lemma draft_handle_keeps [round_keeps]: "draft_handle su f d = (r, d') \<Longrightarrow> dg_stage d' = dg_stage d"
  by (auto simp: draft_handle_def split: option.splits prod.splits)

lemma draft_handle_ok:
  "draft_handle su f d = (r, d') \<Longrightarrow> stage_ok len (dg_stage d) \<Longrightarrow> stage_ok len (dg_stage d')"
  by (simp add: draft_handle_keeps)

lemma learn_width_keeps [round_keeps]:
  "learn_width su g f d = (r, d') \<Longrightarrow> stage_ok len (dg_stage d) \<Longrightarrow> stage_ok len (dg_stage d')"
  by (auto simp: learn_width_def Let_def put_draft_ok split: if_splits sum.splits)

lemma catch_up_draft_keeps [round_keeps]:
  assumes "catch_up_draft su f d = (r, d')" "stage_ok len (dg_stage d)"
  shows "stage_ok len (dg_stage d')"
  using assms unfolding catch_up_draft_def Let_def
  by (auto split: option.splits if_splits prod.splits sum.splits
      dest!: draft_handle_ok[where len = len] dest: learn_width_keeps[where len = len])

lemma flush_draft_keeps [round_keeps]:
  assumes "flush_draft su f d = (r, d')" "stage_ok len (dg_stage d)"
  shows "stage_ok len (dg_stage d')"
  using assms unfolding flush_draft_def Let_def
  by (auto split: if_splits prod.splits sum.splits dest: draft_handle_keeps intro!: put_draft_ok)

lemma ngram_proposals_keeps [round_keeps]:
  assumes "ngram_proposals up f n s = (r, s')" "stage_ok len s"
  shows "stage_ok len s'"
  using assms unfolding ngram_proposals_def Let_def
  by (auto split: if_splits sum.splits dest!: required_session_of intro!: put_history_ok)

lemma propose_keeps [round_keeps]:
  assumes "propose su f width d = (r, d')" "stage_ok len (dg_stage d)"
  shows "stage_ok len (dg_stage d')"
  using assms unfolding propose_def
  by (auto split: if_splits option.splits prod.splits sum.splits
      dest: flush_draft_keeps[where len = len] ngram_proposals_keeps[where len = len])

lemma try_propose_keeps [round_keeps]:
  assumes "try_propose su f d = (guesses, started, d')" "stage_ok len (dg_stage d)"
  shows "stage_ok len (dg_stage d')"
  using assms unfolding try_propose_def Let_def
  by (auto split: option.splits prod.splits sum.splits intro!: put_draft_ok
      dest: catch_up_draft_keeps[where len = len] propose_keeps[where len = len])

lemma note_guesses_keeps [round_keeps]:
  assumes "note_guesses su f guesses started d = (r, d')" "stage_ok len (dg_stage d)"
  shows "stage_ok len (dg_stage d')"
  using assms unfolding note_guesses_def defer_token_def Let_def
  by (auto split: if_splits option.splits prod.splits sum.splits intro!: put_draft_ok)

lemma draft_round_keeps [round_keeps]:
  assumes "draft_round su f d = (r, d')" "kv_laws (su_target su) len" "stage_ok len (dg_stage d)"
  shows "stage_ok len (dg_stage d')"
proof (cases "require_worker_session f (dg_stage d)")
  case (Inr ws)
  obtain guesses started d1 where tried: "try_propose su f d = (guesses, started, d1)"
    by (cases "try_propose su f d") auto
  obtain h emitted s1 where run: "handle (su_target su) (su_report su) 0 None
      (decode_frame f (fr_position f) (get32 (fr_payload f) # guesses)) (dg_stage d1) = (h, emitted, s1)"
    by (metis prod_cases3)
  have ok: "stage_ok len s1" using handle_ok[OF assms(2) _ run] try_propose_keeps[OF tried assms(3)] by simp
  show ?thesis
  proof (cases h)
    case (Inl e)
    with assms(1) Inr tried run ok show ?thesis by (auto simp: draft_round_def)
  next
    case (Inr out)
    obtain n d2 where noted: "note_guesses su f guesses started (d1\<lparr>dg_stage := s1\<rparr>) = (n, d2)"
      by (cases "note_guesses su f guesses started (d1\<lparr>dg_stage := s1\<rparr>)") auto
    have "stage_ok len (dg_stage d2)" using note_guesses_keeps[OF noted] ok by simp
    moreover have "d' = d2"
      using assms(1) \<open>require_worker_session f (dg_stage d) = Inr ws\<close> tried run Inr noted
      by (auto simp: draft_round_def split: sum.splits)
    ultimately show ?thesis by simp
  qed
qed (use assms in \<open>simp add: draft_round_def\<close>)

lemma local_decode_keeps [round_keeps]:
  assumes "local_decode su token position like (Some d) = (step, held)" "kv_laws (su_target su) len"
    "stage_ok len (dg_stage d)"
  shows "\<exists>d'. held = Some d' \<and> stage_ok len (dg_stage d')"
  using assms unfolding local_decode_def Let_def
  by (auto split: if_splits prod.splits dest: draft_round_keeps[where len = len]
      handle_ok[where len = len])

section \<open>Guesses reach the last stage\<close>

definition row_bytes :: "dtype \<Rightarrow> nat \<Rightarrow> nat" where
  "row_bytes wire n = (if wire = dt_f32le then n * 4 else if wire = dt_f16le then n * 2 else n + 4)"

text \<open>Hidden states have as many values as the stage's hidden size says.\<close>

definition widths :: "'k llama \<Rightarrow> 'k stage \<Rightarrow> bool" where
  "widths la s \<longleftrightarrow> activation_dtype (sg_wire s)
     \<and> (\<forall>i k row. la_embeddings la i k = Some row \<longrightarrow> length row = unat (sg_hidden s))"

lemma length_concat_same: "(\<And>x. x \<in> set xs \<Longrightarrow> length (f x) = n) \<Longrightarrow> length (concat (map f xs)) = length xs * n"
  by (induction xs) auto

lemma wire_row_length:
  "activation_dtype wire \<Longrightarrow> length (wire_row la wire row) = row_bytes wire (length row)"
  using length_concat_same[of row "\<lambda>x. rev (put16 (la_fp16 la x))" 2]
    length_concat_same[of row "\<lambda>x. rev (put32 x)" 4]
  unfolding wire_row_def row_bytes_def activation_dtype_def pack_fp8_row_def
  by (auto simp: dt_f32le_def dt_f16le_def dt_fp8e4m3_def)

lemma hidden_rows_length:
  "widths la s \<Longrightarrow> hidden_rows la s is = Some bytes
   \<Longrightarrow> length bytes = length is * row_bytes (sg_wire s) (unat (sg_hidden s))"
  by (induction "is" arbitrary: bytes) (auto simp: widths_def wire_row_length split: option.splits)

lemma activation_bytes_rows:
  "activation_dtype wire \<Longrightarrow> activation_bytes wire (word_of_nat rows) (word_of_nat cols)
     = word_of_nat (rows * row_bytes wire cols)"
  by (auto simp: activation_bytes_def row_bytes_def activation_dtype_def)

text \<open>A frame of hidden states, followed by more bytes.\<close>

definition shaped :: "frame \<Rightarrow> nat \<Rightarrow> u8 list \<Rightarrow> bool" where
  "shaped f rows rest \<longleftrightarrow> activation_dtype (fr_dtype f) \<and> unat (fr_rows f) = rows
     \<and> length (fr_payload f) = 8 + rows * row_bytes (fr_dtype f) (unat (fr_cols f)) + length rest
     \<and> (\<exists>front. fr_payload f = front @ rest)"

lemma ucast_word_of_unat: "(ucast (x :: u32) :: u64) = word_of_nat (unat x)"
  by simp

lemma guess_bytes_shaped:
  assumes "shaped f rows rest" "fr_type f = T_speculative_activation" "2 \<le> rows"
    "length rest = 0 \<or> length rest = (rows - 1) * 4"
  shows "guess_bytes f = length rest"
proof -
  let ?b = "rows * row_bytes (fr_dtype f) (unat (fr_cols f))"
  have rows: "unat (fr_rows f) = rows" "\<not> fr_rows f < 2" "rows \<le> u32_max"
    using assms(1,3) unat_u32_le[of "fr_rows f"] by (auto simp: shaped_def word_less_nat_alt)
  have bytes: "activation_bytes (fr_dtype f) (ucast (fr_rows f)) (ucast (fr_cols f)) = word_of_nat ?b"
    using assms(1) rows(1) activation_bytes_rows unfolding shaped_def ucast_word_of_unat by metis
  have test: "(word_of_nat (length (fr_payload f)) :: u64) = 8 + word_of_nat ?b + word_of_nat ((rows - 1) * 4)
      \<longleftrightarrow> (word_of_nat (length rest) :: u64) = word_of_nat ((rows - 1) * 4)"
    using assms(1) by (simp add: shaped_def)
  have "(word_of_nat ((rows - 1) * 4) :: u64) \<noteq> 0"
  proof -
    have "unat (word_of_nat ((rows - 1) * 4) :: u64) = (rows - 1) * 4"
      using rows(3) by (intro unat_word_of_nat_u64) simp
    with assms(3) show ?thesis by (metis mult_is_0 numeral_2_eq_2 diff_is_0_eq not_less_eq_eq
          unat_0 zero_neq_numeral le_numeral_extra(4) One_nat_def)
  qed
  with test assms(2,4) rows bytes show ?thesis unfolding guess_bytes_def Let_def by auto
qed

lemma carried_guesses_shaped:
  assumes "shaped f rows rest" "fr_type f = T_speculative_activation" "2 \<le> rows"
    "length rest = 0 \<or> length rest = (rows - 1) * 4"
  shows "carried_guesses f = words_of rest"
proof -
  obtain front where "fr_payload f = front @ rest" using assms(1) by (auto simp: shaped_def)
  then show ?thesis by (simp add: carried_guesses_def guess_bytes_shaped[OF assms])
qed

lemma words_of_put32: "words_of (concat (map put32 ts)) = ts"
proof (induction ts)
  case (Cons t ts)
  have "words_of (put32 t @ bs) = t # words_of bs" for bs
  proof -
    have "[0..<(4 + length bs) div 4] = 0 # map Suc [0..<length bs div 4]"
      by (simp add: map_Suc_upt upt_conv_Cons)
    then show ?thesis by (simp add: words_of_def o_def c32.get_put add.commute)
  qed
  with Cons.IH show ?case by simp
qed (simp add: words_of_def)

lemma put_hidden_shaped:
  assumes "put_hidden la s f rows i c = Some out" "widths la s" "fr_cols f = sg_hidden s"
    "unat (fr_rows f) = rows"
  shows "shaped out rows []" "fr_type out = fr_type f" "fr_rows out = fr_rows f" "fr_cols out = fr_cols f"
    "fr_position out = fr_position f" "fr_session out = fr_session f"
  using assms hidden_rows_length[OF assms(2)]
  by (auto simp: put_hidden_def shaped_def widths_def)

lemma run_batch_first_shaped:
  assumes "run_batch_first la input tokens ws s = (Inr out, s')" "widths la s"
    "fr_type out = T_speculative_activation" "length tokens \<le> u32_max"
  shows "shaped out (length tokens) []" "is_speculative input"
proof -
  obtain ok s1 where dec: "decode la (token_rows ws (\<lambda>i. is_speculative input \<or> \<not> sg_last s
       \<or> (fr_type input \<noteq> T_commit_token \<and> i + 1 = length tokens)) tokens) s = (ok, s1)"
    by (cases "decode la (token_rows ws (\<lambda>i. is_speculative input \<or> \<not> sg_last s
       \<or> (fr_type input \<noteq> T_commit_token \<and> i + 1 = length tokens)) tokens) s") auto
  then have same: "sg_wire s1 = sg_wire s" "sg_hidden s1 = sg_hidden s" "sg_last s1 = sg_last s"
    by (auto simp: decode_def split: prod.splits)
  have single: "fr_type r = T_ack \<or> fr_type r = T_result"
    if "single_reply la input n w c t = (Inr r, t')" for n w c t t' r
    using that by (auto simp: single_reply_def stage_ack_def verified_frame_def sample_result_def
        result_frame_def Let_def split: if_splits prod.splits sum.splits)
  from assms(1,3) dec obtain c w where
    hid: "put_hidden la s1 (chunk_frame (first_kind input) input s1 w (length tokens)) (length tokens) 0 c = Some out"
    by (auto simp: run_batch_first_def Let_def split: bool.splits if_splits option.splits dest!: single)
  have frame: "fr_cols (chunk_frame kind input s1 w (length tokens)) = sg_hidden s1"
    "unat (fr_rows (chunk_frame kind input s1 w (length tokens))) = length tokens"
    "fr_type (chunk_frame kind input s1 w (length tokens)) = kind" for kind
    using assms(4) by (simp_all add: chunk_frame_def unat_word_of_nat_u32)
  have "widths la s1" using assms(2) same by (simp add: widths_def)
  from put_hidden_shaped[OF hid this frame(1,2)] assms(3)
  show "shaped out (length tokens) []" "is_speculative input"
    by (auto simp: frame(3) first_kind_def split: if_splits)
qed

lemma run_first_shaped:
  assumes "run_first la 0 None input ws s = (Inr out, emitted, s')" "widths la s"
    "fr_type input = T_token" "fr_type out = T_speculative_activation"
  shows "shaped out (length (fr_payload input) div 4) []" "is_speculative input"
proof -
  obtain tokens ws1 where first: "first_tokens la input ws = (Inr tokens, ws1)"
    and few: "length tokens \<le> u32_max" and rest: "run_batch_first la input tokens ws1 s = (Inr out, s')"
    using assms(1)
    by (auto simp: run_first_def prefill_whole Let_def split: if_splits prod.splits sum.splits)
  then have "tokens = words_of (fr_payload input)"
    using assms(3) by (auto simp: first_tokens_def Let_def split: if_splits)
  with run_batch_first_shaped[OF rest assms(2,4) few]
  show "shaped out (length (fr_payload input) div 4) []" "is_speculative input" by simp_all
qed

text \<open>What a frame leaves of the stage before it is run.\<close>

definition same_shape :: "'k stage \<Rightarrow> 'k stage \<Rightarrow> bool" where
  "same_shape s s' \<longleftrightarrow> sg_wire s' = sg_wire s \<and> sg_hidden s' = sg_hidden s \<and> sg_first s' = sg_first s
     \<and> sg_last s' = sg_last s"

lemma same_shape_simps [simp]:
  "same_shape s s" "same_shape s (put_session sid ws s') = same_shape s s'"
  "same_shape s (s'\<lparr>sg_llama := k\<rparr>) = same_shape s s'"
  "same_shape s (s'\<lparr>sg_active_session := a\<rparr>) = same_shape s s'"
  by (simp_all add: same_shape_def put_session_def)

lemma same_shape_trans: "same_shape a b \<Longrightarrow> same_shape b c \<Longrightarrow> same_shape a c"
  by (simp add: same_shape_def)

lemma widths_shape: "same_shape s s' \<Longrightarrow> widths la s' = widths la s"
  by (simp add: same_shape_def widths_def)

lemma begin_request_shape: "begin_request input ws s = (r, s') \<Longrightarrow> same_shape s s'"
  by (auto simp: begin_request_def Let_def split: if_splits)

lemma implicit_rollback_shape: "implicit_rollback la input ws s = (r, s') \<Longrightarrow> same_shape s s'"
  by (auto simp: implicit_rollback_def trim_kv_def Let_def split: if_splits prod.splits bool.splits)

lemma execute_runs:
  assumes "execute la chunk emit input s = (Inr out, emitted, s')"
  obtains ws s1 where "same_shape s s1"
    "(if sg_first s1 then run_first la chunk emit input ws s1
      else let (r, t) = (if sg_last s1 then run_last la input ws s1 else run_middle la input ws s1)
           in (r, [], t)) = (Inr out, emitted, s')"
proof -
  from assms obtain ws0 where "require_worker_session input s = Inr ws0"
    by (auto simp: execute_def split: if_splits sum.splits)
  moreover obtain r1 s1 where begun: "begin_request input ws0 s = (r1, s1)" by (cases "begin_request input ws0 s")
  ultimately obtain ws1 where "r1 = Inr ws1" using assms
    by (cases r1) (auto simp: execute_def split: if_splits)
  moreover obtain r2 s2 where rolled: "implicit_rollback la input ws1 s1 = (r2, s2)"
    by (cases "implicit_rollback la input ws1 s1")
  ultimately obtain ws2 where ws2: "r2 = Inr ws2"
    using assms \<open>require_worker_session input s = Inr ws0\<close> begun
    by (cases r2) (auto simp: execute_def split: if_splits)
  show thesis
  proof (rule that[of s2 ws2])
    show "same_shape s s2"
      using begin_request_shape[OF begun] implicit_rollback_shape[OF rolled] same_shape_trans by blast
  qed (use assms ws2 \<open>require_worker_session input s = Inr ws0\<close> \<open>r1 = Inr ws1\<close> begun rolled in
      \<open>simp add: execute_def split: if_splits\<close>)
qed

lemma token_reply_shaped:
  assumes "handle la report 0 None input s = (Inr out, emitted, s')" "widths la s"
    "fr_type input = T_token" "fr_type out = T_speculative_activation"
  shows "shaped out (length (fr_payload input) div 4) []" "is_speculative input"
proof -
  from assms(1,3) have "execute la 0 None input s = (Inr out, emitted, s')" by (simp add: handle_def)
  then obtain ws s1 where shape: "same_shape s s1" and
    run: "(if sg_first s1 then run_first la 0 None input ws s1
      else let (r, t) = (if sg_last s1 then run_last la input ws s1 else run_middle la input ws s1)
           in (r, [], t)) = (Inr out, emitted, s')"
    by (rule execute_runs)
  have "bad_activation input ws s1" using assms(3) by (simp add: bad_activation_def)
  with run assms(3) have "run_first la 0 None input ws s1 = (Inr out, emitted, s')"
    by (auto simp: run_last_def run_middle_def Let_def split: if_splits)
  from run_first_shaped[OF this _ assms(3,4)] assms(2) shape
  show "shaped out (length (fr_payload input) div 4) []" "is_speculative input" by (simp_all add: widths_shape)
qed

text \<open>A middle stage passes the guesses on.\<close>

lemma run_middle_passes:
  assumes "run_middle la input ws s = (Inr out, s')" "widths la s" "fr_type out = T_speculative_activation"
    "shaped input rows rest" "2 \<le> rows" "length rest = 0 \<or> length rest = (rows - 1) * 4"
  shows "shaped out rows rest"
proof -
  let ?n = "unat (fr_rows input)"
  from assms(1) have ok: "\<not> bad_activation input ws s" by (auto simp: run_middle_def Let_def split: if_splits)
  obtain good s1 where dec: "decode la (hidden_batch la input (marked input ws) (\<lambda>_. True)) s = (good, s1)"
    by (cases "decode la (hidden_batch la input (marked input ws) (\<lambda>_. True)) s")
  then have same: "sg_wire s1 = sg_wire s" "sg_hidden s1 = sg_hidden s"
    by (auto simp: decode_def split: prod.splits)
  from assms(1) ok dec obtain plain c where hid: "put_hidden la s1 (frame_header input) ?n 0 c = Some plain"
    and out: "out = plain\<lparr>fr_payload := fr_payload plain
       @ drop (length (fr_payload input) - guess_bytes input) (fr_payload input)\<rparr>"
    by (auto simp: run_middle_def Let_def split: if_splits bool.splits option.splits)
  have kind: "fr_type input = T_speculative_activation"
    using put_hidden_shaped(2)[OF hid] assms(2,3) ok out same
    by (auto simp: frame_header_def bad_activation_def widths_def put_hidden_def)
  obtain front where "fr_payload input = front @ rest" using assms(4) by (auto simp: shaped_def)
  then have tail: "drop (length (fr_payload input) - guess_bytes input) (fr_payload input) = rest"
    by (simp add: guess_bytes_shaped[OF assms(4) kind assms(5,6)])
  have "shaped plain ?n []"
    using put_hidden_shaped(1)[OF hid] assms(2) ok same by (simp add: frame_header_def bad_activation_def widths_def)
  with assms(4) show ?thesis unfolding out tail by (auto simp: shaped_def)
qed

lemma run_middle_type: "run_middle la input ws s = (Inr out, s') \<Longrightarrow> fr_type out = fr_type input"
  by (auto simp: run_middle_def put_hidden_def frame_header_def Let_def
      split: if_splits prod.splits bool.splits option.splits)

text \<open>A frame on its way through the middle stages of a route.\<close>

primrec ring_pass ::
    "('k stage \<Rightarrow> string) \<Rightarrow> ('k llama \<times> 'k stage) list \<Rightarrow> frame \<Rightarrow> frame option" where
  "ring_pass report [] f = Some f"
| "ring_pass report (p # rest) f =
     (case handle (fst p) report 0 None f (snd p) of
        (Inl e, _) \<Rightarrow> None
      | (Inr out, _) \<Rightarrow> ring_pass report rest out)"

definition middles :: "('k llama \<times> 'k stage) list \<Rightarrow> bool" where
  "middles ps \<longleftrightarrow> (\<forall>(la, s) \<in> set ps. widths la s \<and> \<not> sg_first s \<and> \<not> sg_last s)"

lemma middle_handle_passes:
  assumes "handle la report 0 None f s = (Inr out, emitted, s')" "widths la s" "\<not> sg_first s" "\<not> sg_last s"
    "fr_type f = T_speculative_activation" "shaped f rows rest" "2 \<le> rows"
    "length rest = 0 \<or> length rest = (rows - 1) * 4"
  shows "shaped out rows rest \<and> fr_type out = T_speculative_activation"
proof -
  from assms(1,5) have "execute la 0 None f s = (Inr out, emitted, s')" by (simp add: handle_def)
  then obtain ws s1 where shape: "same_shape s s1" and
    run: "(if sg_first s1 then run_first la 0 None f ws s1
      else let (r, t) = (if sg_last s1 then run_last la f ws s1 else run_middle la f ws s1)
           in (r, [], t)) = (Inr out, emitted, s')"
    by (rule execute_runs)
  with assms(3,4) have mid: "run_middle la f ws s1 = (Inr out, s')"
    by (auto simp: same_shape_def split: prod.splits)
  from run_middle_type[OF this] assms(5) have "fr_type out = T_speculative_activation" by simp
  with run_middle_passes[OF mid _ this assms(6-8)] assms(2) shape show ?thesis by (simp add: widths_shape)
qed

lemma ring_pass_passes:
  assumes "ring_pass report ps f = Some g" "middles ps" "fr_type f = T_speculative_activation"
    "shaped f rows rest" "2 \<le> rows" "length rest = 0 \<or> length rest = (rows - 1) * 4"
  shows "shaped g rows rest \<and> fr_type g = T_speculative_activation"
  using assms(1-4)
proof (induction ps arbitrary: f)
  case (Cons p ps)
  obtain la s where p: "p = (la, s)" by (cases p)
  obtain r emitted s' where run: "handle la report 0 None f s = (r, emitted, s')" by (metis prod_cases3)
  with Cons.prems(1) p obtain out where "r = Inr out" "ring_pass report ps out = Some g"
    by (cases r) auto
  moreover from Cons.prems(2) p have "widths la s" "\<not> sg_first s" "\<not> sg_last s" "middles ps"
    by (auto simp: middles_def)
  ultimately show ?case
    using Cons.IH middle_handle_passes[OF _ _ _ _ Cons.prems(3,4) assms(5,6)] run by blast
qed simp

lemma put_draft_shape [simp]: "same_shape s (put_draft sid st s') = same_shape s s'"
  by (auto simp: put_draft_def split: option.splits)

lemma catch_up_shape: "catch_up_draft su f d = (r, d') \<Longrightarrow> same_shape (dg_stage d) (dg_stage d')"
  by (auto simp: catch_up_draft_def learn_width_def Let_def
      split: option.splits if_splits prod.splits sum.splits dest!: draft_handle_keeps)

lemma propose_shape:
  assumes "propose su f width d = (r, d')"
  shows "same_shape (dg_stage d) (dg_stage d')" "r = Inr guesses \<Longrightarrow> guesses \<noteq> [] \<Longrightarrow> dg_draft d' \<noteq> None \<or> su_ngram su"
proof -
  have flush: "same_shape (dg_stage d) (dg_stage d1)" if "flush_draft su f d = (q, d1)" for q d1
    using that by (auto simp: flush_draft_def Let_def split: if_splits prod.splits sum.splits
        dest!: draft_handle_keeps)
  have ngram: "same_shape s s1" if "ngram_proposals up f n s = (q, s1)" for up n s q s1
    using that by (auto simp: ngram_proposals_def Let_def split: if_splits sum.splits)
  show "same_shape (dg_stage d) (dg_stage d')"
    using assms by (auto simp: propose_def split: if_splits option.splits prod.splits sum.splits
        dest: flush ngram)
  show "dg_draft d' \<noteq> None \<or> su_ngram su" if "r = Inr guesses" "guesses \<noteq> []"
    using assms that by (auto simp: propose_def split: if_splits option.splits prod.splits sum.splits)
qed

lemma try_propose_shape:
  assumes "try_propose su f d = (guesses, started, d')"
  shows "same_shape (dg_stage d) (dg_stage d')"
  using assms unfolding try_propose_def Let_def
  by (auto split: option.splits prod.splits sum.splits dest!: catch_up_shape propose_shape(1)
      intro: same_shape_trans)

lemma try_propose_source:
  assumes "try_propose su f d = (guesses, started, d')" "guesses \<noteq> []"
  shows "dg_draft d' \<noteq> None \<or> su_ngram su"
  using assms unfolding try_propose_def Let_def
  by (auto split: option.splits prod.splits sum.splits dest: propose_shape(2))

lemma note_guesses_records:
  assumes "note_guesses su f guesses started d = (Inr u, d')" "guesses \<noteq> []" "dg_draft d \<noteq> None \<or> su_ngram su"
  shows "map_of (dg_guessed d') (fr_session f) = Some \<lparr>gs_at = fr_position f, gs_tokens = guesses,
    gs_request = fr_request f, gs_started = started\<rparr>"
  using assms by (auto simp: note_guesses_def update_conv')

lemma draft_round_shaped:
  assumes "draft_round su f d = (Inr out, d')" "widths (su_target su) (dg_stage d)"
    "fr_type out = T_speculative_activation"
  shows "\<exists>g. map_of (dg_guessed d') (fr_session f) = Some g \<and> gs_at g = fr_position f
    \<and> gs_tokens g \<noteq> [] \<and> shaped out (length (gs_tokens g) + 1) (concat (map put32 (gs_tokens g)))"
proof -
  obtain guesses started d1 where tried: "try_propose su f d = (guesses, started, d1)"
    by (cases "try_propose su f d") auto
  obtain h emitted s1 where run: "handle (su_target su) (su_report su) 0 None
      (decode_frame f (fr_position f) (get32 (fr_payload f) # guesses)) (dg_stage d1) = (h, emitted, s1)"
    by (metis prod_cases3)
  obtain n d2 where noted: "note_guesses su f guesses started (d1\<lparr>dg_stage := s1\<rparr>) = (n, d2)"
    by (cases "note_guesses su f guesses started (d1\<lparr>dg_stage := s1\<rparr>)") auto
  obtain ws where ws: "require_worker_session f (dg_stage d) = Inr ws"
    using assms(1) by (cases "require_worker_session f (dg_stage d)") (auto simp: draft_round_def)
  obtain plain where plain: "h = Inr plain"
    using assms(1) ws tried run by (cases h) (auto simp: draft_round_def)
  have n: "n = Inr ()" using assms(1) ws tried run noted plain by (cases n) (auto simp: draft_round_def)
  have shown: "out = (if fr_type plain = T_speculative_activation
      then plain\<lparr>fr_payload := fr_payload plain @ concat (map put32 guesses)\<rparr> else plain)" "d' = d2"
    using assms(1) ws tried run noted plain n by (auto simp: draft_round_def)
  then have h: "h = Inr plain" "n = Inr ()" "d' = d2" "fr_type plain = T_speculative_activation"
    "out = plain\<lparr>fr_payload := fr_payload plain @ concat (map put32 guesses)\<rparr>"
    using assms(3) plain n by (auto split: if_splits)
  have "widths (su_target su) (dg_stage d1)" using try_propose_shape[OF tried] assms(2) by (simp add: widths_shape)
  note reply = token_reply_shaped[OF run[unfolded h(1)] this _ h(4)]
  from reply(1) have shaped: "shaped plain (length guesses + 1) []"
    by (simp add: decode_frame_def length_concat_same)
  from reply(2) have some: "guesses \<noteq> []" by (auto simp: is_speculative_def decode_frame_def)
  from shaped have "shaped out (length guesses + 1) (concat (map put32 guesses))"
    by (auto simp: h(5) shaped_def length_concat_same)
  moreover have "map_of (dg_guessed d') (fr_session f) = Some \<lparr>gs_at = fr_position f, gs_tokens = guesses,
      gs_request = fr_request f, gs_started = started\<rparr>"
    using note_guesses_records[of su f guesses started "d1\<lparr>dg_stage := s1\<rparr>" "()" d2] noted h(2,3) some
      try_propose_source[OF tried some] by simp
  ultimately show ?thesis using some by auto
qed

lemma verify_round_tokens:
  assumes "verify_round la input verified = Inr frames"
  shows "map (\<lambda>f. get32 (fr_payload f)) frames = accepted_tokens (carried_guesses input) verified"
    "map fr_position frames = map (\<lambda>i. fr_position input + word_of_nat i + 1) [0..<length frames]"
  using assms by (auto simp: verify_round_def streamed_frame_def Let_def c32.get_put map_nth
      split: sum.splits intro!: nth_equalityI)

lemma arrived_guesses:
  assumes "draft_round su f d = (Inr out, d')" "fr_type out = T_speculative_activation"
    "widths (su_target su) (dg_stage d)" "ring_pass report ps out = Some arrived" "middles ps"
  shows "\<exists>g. map_of (dg_guessed d') (fr_session f) = Some g \<and> gs_tokens g \<noteq> []
    \<and> carried_guesses arrived = gs_tokens g"
proof -
  from draft_round_shaped[OF assms(1,3,2)] obtain g where
    g: "map_of (dg_guessed d') (fr_session f) = Some g" "gs_tokens g \<noteq> []"
    and out: "shaped out (length (gs_tokens g) + 1) (concat (map put32 (gs_tokens g)))" by blast
  have rows: "2 \<le> length (gs_tokens g) + 1" using g(2) by (cases "gs_tokens g") auto
  have len: "length (concat (map put32 (gs_tokens g))) = (length (gs_tokens g) + 1 - 1) * 4"
    by (simp add: length_concat_same)
  from ring_pass_passes[OF assms(4,5,2) out rows disjI2[OF len]]
  have "carried_guesses arrived = words_of (concat (map put32 (gs_tokens g)))"
    using carried_guesses_shaped[OF _ _ rows disjI2[OF len]] by blast
  with g show ?thesis by (auto simp: words_of_put32)
qed

text \<open>
  C26. The guesses of a round reach the last stage as they were made: whatever number of middle
  stages a speculative batch passes, the guesses carried by the frame that arrives are the ones the
  first stage recorded for the session, and a verified round there commits exactly the tokens the
  acceptance rule gives for them, at consecutive positions after the batch's first.
\<close>

theorem guesses_reach_last_stage:
  assumes "draft_round su f d = (Inr out, d')" "fr_type out = T_speculative_activation"
    "widths (su_target su) (dg_stage d)" "ring_pass report ps out = Some arrived" "middles ps"
  shows "\<exists>g. map_of (dg_guessed d') (fr_session f) = Some g \<and> gs_tokens g \<noteq> []
    \<and> carried_guesses arrived = gs_tokens g
    \<and> (\<forall>la verified frames. verify_round la arrived verified = Inr frames \<longrightarrow>
         map (\<lambda>f. get32 (fr_payload f)) frames = accepted_tokens (gs_tokens g) verified
         \<and> map fr_position frames = map (\<lambda>i. fr_position arrived + word_of_nat i + 1) [0..<length frames])"
  using arrived_guesses[OF assms] verify_round_tokens by metis

text \<open>A first stage that guesses by lookup, and a middle stage.\<close>

definition lookup_setup :: "(nat \<Rightarrow> nat) draft_setup" where
  "lookup_setup = \<lparr>su_target = counting, su_draft = counting,
     su_upstream = \<lparr>up_ngram = (\<lambda>_ _ _ _. [8, 9, 8]), up_ready = (\<lambda>_ k. (True, k)),
       up_draft = (\<lambda>_ _ _ _ _ k. ([], k)), up_pos_max = (\<lambda>_ _. 0), up_now = (\<lambda>_ _. 0)\<rparr>,
     su_report = (\<lambda>_. []), su_width = 4, su_adaptive = False, su_ngram = True\<rparr>"

definition busy_session :: worker_session where
  "busy_session = (fresh_worker_session 4 0)\<lparr>ws_position := 3, ws_active_request := 1, ws_has_prompt := True,
     ws_history := [1, 2, 3]\<rparr>"

definition busy_stage :: "bool \<Rightarrow> (nat \<Rightarrow> nat) stage" where
  "busy_stage is_first = (loaded_stage is_first False 1 100 2 dt_f32le 4 (\<lambda>_. 3))
     \<lparr>sg_sessions := [(7, busy_session)]\<rparr>"

definition next_token :: frame where
  "next_token = decode_frame (fresh_frame\<lparr>fr_session := 7, fr_request := 1\<rparr>) 3 [5]"

lemma busy_required:
  "fr_session f = 7 \<Longrightarrow> require_worker_session f (busy_stage b) = Inr busy_session"
  by (simp add: require_worker_session_def session_of_def busy_stage_def)

lemma lookup_tried:
  "try_propose lookup_setup next_token \<lparr>dg_stage = busy_stage True, dg_draft = None, dg_guessed = []\<rparr>
    = ([8, 9, 8], 0, \<lparr>dg_stage = busy_stage True, dg_draft = None, dg_guessed = []\<rparr>)"
proof -
  have room: "speculation_room 100 3 = 96" by (simp add: speculation_room_def)
  have token: "fr_session next_token = 7" "fr_position next_token = 3"
    by (simp_all add: next_token_def decode_frame_def fresh_frame_def)
  have stage: "sg_context_size (busy_stage True) = 100" "ws_history busy_session = [1, 2, 3]"
    by (simp_all add: busy_stage_def loaded_stage_def busy_session_def)
  have "put_session 7 (busy_session\<lparr>ws_history := [1, 2, 3]\<rparr>) (busy_stage True) = busy_stage True"
    by (simp add: put_session_def busy_stage_def busy_session_def)
  then have "ngram_proposals (su_upstream lookup_setup) next_token 3 (busy_stage True) = (Inr [8, 9, 8], busy_stage True)"
    by (simp add: ngram_proposals_def busy_required token stage room Let_def resize_def lookup_setup_def)
  moreover have "\<not> (4 :: u32) \<le> 1" by (simp add: word_le_nat_alt)
  ultimately show ?thesis
    by (simp add: try_propose_def catch_up_draft_def propose_def Let_def draft_of_def session_of_def
        lookup_setup_def now_of_def token busy_stage_def)
qed

lemma four_words: "words_of (put32 a @ put32 b @ put32 c @ put32 d) = [a, b, c, d]"
  using words_of_put32[of "[a, b, c, d]"] by simp

lemma lookup_reply:
  "\<exists>s'. handle counting (\<lambda>_. []) 0 None (decode_frame next_token 3 [5, 8, 9, 8]) (busy_stage True)
     = (Inr (fresh_frame\<lparr>fr_type := T_speculative_activation, fr_session := 7, fr_request := 1,
          fr_position := 3, fr_rows := 4, fr_cols := 1, fr_dtype := dt_f32le,
          fr_payload := put64 5 @ replicate 16 0\<rparr>), [], s')"
proof -
  have zero: "rev (put32 0) = [0, 0, 0, 0]" by (simp add: put32_def put_bytes_def)
  have narrow: "\<not> max_speculative_width < (4 :: u32)" "\<not> unat (97 :: u32) < 4"
    by (simp_all add: max_speculative_width_def word_less_nat_alt)
  have sixteen: "replicate 16 (0 :: u8) = [0,0,0,0,0,0,0,0,0,0,0,0,0,0,0,0]" by (simp add: numeral_eq_Suc)
  show ?thesis
    by (simp add: handle_def execute_def busy_required decode_frame_def next_token_def fresh_frame_def
        begin_request_def implicit_rollback_def run_first_def is_speculative_def first_tokens_def
        four_words narrow prefill_whole context_left_def busy_stage_def busy_session_def loaded_stage_def
        fresh_worker_session_def Let_def run_batch_first_def decode_def token_rows_def counting_def
        put_hidden_def upt_rec wire_row_def zero chunk_frame_def first_kind_def sixteen
        dt_f32le_def dt_f16le_def dt_fp8e4m3_def dt_none_def remembered_def require_worker_session_def session_of_def)
qed

definition guessed_frame :: frame where
  "guessed_frame = fresh_frame\<lparr>fr_type := T_speculative_activation, fr_session := 7, fr_request := 1,
     fr_position := 3, fr_rows := 4, fr_cols := 1, fr_dtype := dt_f32le,
     fr_payload := put64 5 @ replicate 16 0 @ put32 8 @ put32 9 @ put32 8\<rparr>"

lemma lookup_round:
  "\<exists>d'. draft_round lookup_setup next_token \<lparr>dg_stage = busy_stage True, dg_draft = None, dg_guessed = []\<rparr>
     = (Inr guessed_frame, d')"
proof -
  obtain s' where reply: "handle counting (\<lambda>_. []) 0 None (decode_frame next_token 3 [5, 8, 9, 8]) (busy_stage True)
     = (Inr (fresh_frame\<lparr>fr_type := T_speculative_activation, fr_session := 7, fr_request := 1,
          fr_position := 3, fr_rows := 4, fr_cols := 1, fr_dtype := dt_f32le,
          fr_payload := put64 5 @ replicate 16 0\<rparr>), [], s')"
    using lookup_reply by blast
  have token: "fr_session next_token = 7" "fr_position next_token = 3" "get32 (fr_payload next_token) = 5"
    using c32.get_put[of 5 "[]"] by (simp_all add: next_token_def decode_frame_def fresh_frame_def)
  have lib: "su_target lookup_setup = counting" "su_report lookup_setup = (\<lambda>_. [])" "su_ngram lookup_setup"
    by (simp_all add: lookup_setup_def)
  show ?thesis
    by (simp add: draft_round_def busy_required token lookup_tried lib reply note_guesses_def
        guessed_frame_def fresh_frame_def)
qed

lemma guessed_bytes: "guess_bytes guessed_frame = 12"
proof -
  have "shaped guessed_frame 4 (put32 8 @ put32 9 @ put32 8)"
    by (auto simp: shaped_def guessed_frame_def fresh_frame_def activation_dtype_def row_bytes_def)
  from guess_bytes_shaped[OF this] show ?thesis by (simp add: guessed_frame_def fresh_frame_def)
qed

lemma guessed_fields:
  "fr_type guessed_frame = T_speculative_activation" "fr_session guessed_frame = 7" "fr_request guessed_frame = 1"
  "fr_position guessed_frame = 3" "fr_rows guessed_frame = 4" "fr_cols guessed_frame = 1"
  "fr_dtype guessed_frame = dt_f32le" "length (fr_payload guessed_frame) = 36"
  by (simp_all add: guessed_frame_def fresh_frame_def)

lemma busy_fields:
  "sg_first (busy_stage b) = b" "\<not> sg_last (busy_stage b)" "ws_active_request busy_session = 1"
  "\<not> ws_chat_request busy_session" "ws_position busy_session = 3" "ws_has_prompt busy_session"
  by (simp_all add: busy_stage_def loaded_stage_def busy_session_def fresh_worker_session_def)

lemma middle_passes_demo: "ring_pass (\<lambda>_. []) [(counting, busy_stage False)] guessed_frame \<noteq> None"
proof -
  obtain r e s where run: "handle counting (\<lambda>_. []) 0 None guessed_frame (busy_stage False) = (r, e, s)"
    by (metis prod_cases3)
  have "\<not> bad_shape guessed_frame busy_session (busy_stage False)"
    by (simp add: bad_shape_def guessed_bytes guessed_fields activation_bytes_def busy_session_def
        context_left_def busy_stage_def loaded_stage_def max_payload_def Let_def word_less_nat_alt)
  moreover have "\<not> bad_activation guessed_frame busy_session (busy_stage False)"
    by (simp add: bad_activation_def guessed_fields activation_dtype_def busy_session_def busy_stage_def
        loaded_stage_def)
  moreover have "marked guessed_frame busy_session = busy_session"
    by (simp add: marked_def guessed_fields busy_session_def)
  moreover obtain s1 where "decode counting (hidden_batch counting guessed_frame busy_session (\<lambda>_. True))
      (busy_stage False) = (True, s1)"
    by (simp add: decode_def counting_def)
  moreover obtain out where "put_hidden counting s1 (frame_header guessed_frame) 4 0
      (la_compute_ns counting (sg_llama s1)) = Some out"
    by (simp add: put_hidden_def upt_rec counting_def)
  moreover have "execute counting 0 None guessed_frame (busy_stage False)
    = (let (r, s) = run_middle counting guessed_frame busy_session (busy_stage False) in (r, [], s))"
    by (simp add: execute_def busy_required guessed_fields begin_request_def implicit_rollback_def
        busy_fields)
  ultimately have "\<exists>f. r = Inr f"
    using run by (auto simp: handle_def guessed_fields busy_fields run_middle_def Let_def)
  then show ?thesis using run by auto
qed

theorem guesses_reach_last_stage_witness:
  "\<exists>d' arrived g. draft_round lookup_setup next_token
       \<lparr>dg_stage = busy_stage True, dg_draft = None, dg_guessed = []\<rparr> = (Inr guessed_frame, d')
     \<and> ring_pass (\<lambda>_. []) [(counting, busy_stage False)] guessed_frame = Some arrived
     \<and> map_of (dg_guessed d') 7 = Some g \<and> carried_guesses arrived = gs_tokens g"
proof -
  obtain d' where round: "draft_round lookup_setup next_token
      \<lparr>dg_stage = busy_stage True, dg_draft = None, dg_guessed = []\<rparr> = (Inr guessed_frame, d')"
    using lookup_round by blast
  obtain arrived where pass: "ring_pass (\<lambda>_. []) [(counting, busy_stage False)] guessed_frame = Some arrived"
    using middle_passes_demo by blast
  have "widths counting (busy_stage b)" for b
    by (simp add: widths_def counting_def busy_stage_def loaded_stage_def activation_dtype_def)
  then have "middles [(counting, busy_stage False)]" "widths (su_target lookup_setup) (busy_stage True)"
    by (simp_all add: middles_def busy_stage_def loaded_stage_def lookup_setup_def)
  from guesses_reach_last_stage[OF round guessed_fields(1) _ pass this(1)] this(2) round pass
  show ?thesis by (auto simp: next_token_def decode_frame_def fresh_frame_def)
qed

section \<open>Guesses of an earlier request\<close>

text \<open>
  When a session may not draft any more, its next token is handled as a plain one, but guesses that
  an earlier round left on record are still looked up: the plain reply is read as a verified batch
  of no rows, and the step commits nothing although the stage has moved on.
\<close>

lemma stale_guesses_commit_nothing:
  assumes "\<not> can_draft (decode_frame like position [token]) (dg_stage d)"
    and "map_of (dg_guessed d) (fr_session like) = Some g" "gs_tokens g \<noteq> []"
    and "handle (su_target su) (su_report su) 0 None (decode_frame like position [token]) (dg_stage d)
      = (Inr verified, emitted, s')" "fr_rows verified = 0"
  shows "ls_tokens (fst (local_decode su token position like (Some d))) = []"
    "snd (local_decode su token position like (Some d)) = Some (d\<lparr>dg_stage := s'\<rparr>)"
  using assms by (auto simp: local_decode_def step_of_def accepted_tokens_def Let_def)

section \<open>A batch moves each of its sessions once\<close>

text \<open>A batch with one row for each of several sequences, each at the end of its sequence.\<close>

definition extends_each :: "'k llama \<Rightarrow> ('k \<Rightarrow> nat \<Rightarrow> nat) \<Rightarrow> bool" where
  "extends_each la len \<longleftrightarrow> (\<forall>batch k k'. la_decode la batch k = (0, k')
     \<longrightarrow> distinct (map bt_seq batch) \<longrightarrow> (\<forall>r \<in> set batch. bt_pos r = len k (bt_seq r))
     \<longrightarrow> len k' = (\<lambda>q. len k q + (if q \<in> bt_seq ` set batch then 1 else 0)))"

definition moved_one :: "worker_session \<Rightarrow> worker_session \<Rightarrow> bool" where
  "moved_one ws ws' \<longleftrightarrow> ws_sequence ws' = ws_sequence ws \<and> ws_position ws' = ws_position ws + 1
     \<and> ws_active_request ws' = ws_active_request ws \<and> ws_last_request ws' = ws_last_request ws
     \<and> ws_chat_pending ws' = ws_chat_pending ws \<and> ws_chat_tokens ws' = ws_chat_tokens ws"

text \<open>Everything but the sessions of a stage, as the invariant sees it.\<close>

definition same_frame :: "('k \<Rightarrow> nat \<Rightarrow> nat) \<Rightarrow> 'k stage \<Rightarrow> 'k stage \<Rightarrow> bool" where
  "same_frame len s s' \<longleftrightarrow> sg_sequence_used s' = sg_sequence_used s \<and> sg_max_sessions s' = sg_max_sessions s
     \<and> sg_context_size s' = sg_context_size s \<and> len (sg_llama s') = len (sg_llama s)
     \<and> sg_first s' = sg_first s \<and> sg_last s' = sg_last s"

lemma sample_result_same_frame:
  assumes "samplers_keep la len" "sample_result la f ws i c s = (r, s')"
  shows "same_frame len s s'" "session_of sid s' = session_of sid s"
proof -
  have "len k = len (sg_llama s)" if "la_chat_sample la (fr_session f) i (sg_llama s) = (t, k)" for t k
    using assms(1) that unfolding samplers_keep_def by (metis snd_conv)
  with assms(2) show "same_frame len s s'" "session_of sid s' = session_of sid s"
    by (auto simp: sample_result_def same_frame_def count_generated_def session_of_def Let_def
        split: if_splits prod.splits sum.splits)
qed

lemma batch_reply_moves:
  assumes "batch_reply la i f c s = (Inr out, s')" "samplers_keep la len"
  obtains ws ws' where "session_of (fr_session f) s = Some ws" "session_of (fr_session f) s' = Some ws'"
    "moved_one ws ws'" "\<And>sid. sid \<noteq> fr_session f \<Longrightarrow> session_of sid s' = session_of sid s" "same_frame len s s'"
proof -
  from assms(1) obtain ws where req: "require_worker_session f s = Inr ws"
    by (auto simp: batch_reply_def split: sum.splits)
  define w where "w = (if sg_first s then remembered [get32 (fr_payload f)] (advanced 1 ws) else advanced 1 ws)"
  have w: "moved_one ws w" by (simp add: w_def moved_one_def remembered_def advanced_def)
  have frame: "same_frame len s (put_session (fr_session f) w s)" by (simp add: same_frame_def)
  show thesis
  proof (cases "sg_last s")
    case True
    with assms(1) req have "sample_result la f w (int i) c (put_session (fr_session f) w s) = (Inr out, s')"
      by (simp add: batch_reply_def w_def Let_def split: if_splits)
    from sample_result_same_frame[OF assms(2) this] required_session_of[OF req] w frame
    show ?thesis by (intro that[of ws w]) (auto simp: same_frame_def)
  next
    case False
    with assms(1) req have "s' = put_session (fr_session f) w s"
      by (auto simp: batch_reply_def w_def Let_def split: option.splits)
    with required_session_of[OF req] w frame show ?thesis by (intro that[of ws w]) auto
  qed
qed

lemma batch_replies_move:
  assumes "batch_replies la c i fs s = (Inr outs, s')" "samplers_keep la len" "distinct (map fr_session fs)"
  shows "length outs = length fs \<and> same_frame len s s'
    \<and> (\<forall>f \<in> set fs. \<exists>ws ws'. session_of (fr_session f) s = Some ws
          \<and> session_of (fr_session f) s' = Some ws' \<and> moved_one ws ws')
    \<and> (\<forall>sid. sid \<notin> fr_session ` set fs \<longrightarrow> session_of sid s' = session_of sid s)"
  using assms(1,3)
proof (induction fs arbitrary: i s outs s')
  case (Cons f fs)
  obtain r s1 where one: "batch_reply la i f c s = (r, s1)" by (cases "batch_reply la i f c s")
  obtain q s2 where more: "batch_replies la c (Suc i) fs s1 = (q, s2)" by (cases "batch_replies la c (Suc i) fs s1")
  from Cons.prems(1) one more obtain out rest where r: "r = Inr out" "q = Inr rest" "outs = out # rest" "s' = s2"
    by (cases r; cases q) auto
  from batch_reply_moves[OF one[unfolded r(1)] assms(2)] obtain ws ws' where
    hd: "session_of (fr_session f) s = Some ws" "session_of (fr_session f) s1 = Some ws'" "moved_one ws ws'"
      "\<And>sid. sid \<noteq> fr_session f \<Longrightarrow> session_of sid s1 = session_of sid s" "same_frame len s s1" by blast
  from Cons.prems(2) have new: "fr_session f \<notin> fr_session ` set fs" "distinct (map fr_session fs)" by auto
  from Cons.IH[OF more[unfolded r(2)] new(2)] have
    tl: "length rest = length fs" "same_frame len s1 s2"
      "\<And>g. g \<in> set fs \<Longrightarrow> \<exists>ws ws'. session_of (fr_session g) s1 = Some ws
          \<and> session_of (fr_session g) s2 = Some ws' \<and> moved_one ws ws'"
      "\<And>sid. sid \<notin> fr_session ` set fs \<Longrightarrow> session_of sid s2 = session_of sid s1" by blast+
  have "same_frame len s s2" using hd(5) tl(2) by (simp add: same_frame_def)
  moreover have "\<exists>ws ws'. session_of (fr_session g) s = Some ws \<and> session_of (fr_session g) s2 = Some ws'
      \<and> moved_one ws ws'" if "g \<in> set (f # fs)" for g
  proof (cases "g \<in> set fs")
    case True
    with new(1) have "fr_session g \<noteq> fr_session f" by (metis imageI)
    with tl(3)[OF True] hd(4) show ?thesis by auto
  next
    case False
    with that hd tl(4)[OF new(1)] show ?thesis by auto
  qed
  moreover have "session_of sid s2 = session_of sid s" if "sid \<notin> fr_session ` set (f # fs)" for sid
    using that tl(4) hd(4) by auto
  ultimately show ?case unfolding r(3,4) using tl(1) by simp
qed (simp add: same_frame_def)

lemma batch_rows_follow:
  assumes "batch_rows la s fs = Inr rows"
  shows "list_all2 (\<lambda>f r. batchable f (payload_size f) s \<and> (\<exists>ws. session_of (fr_session f) s = Some ws
    \<and> bt_seq r = ws_sequence ws \<and> bt_pos r = unat (ws_position ws) \<and> fr_position f = ws_position ws
    \<and> ws_position ws < sg_context_size s)) fs rows"
  using assms
proof (induction fs arbitrary: rows)
  case (Cons f fs)
  then obtain r rest where r: "batch_row_of la s f = Inr r" "batch_rows la s fs = Inr rest" "rows = r # rest"
    by (auto split: sum.splits)
  from r(1) have fits: "batchable f (payload_size f) s" by (auto simp: batch_row_of_def split: if_splits)
  from r(1) fits obtain ws where ws: "require_worker_session f s = Inr ws" "bt_seq r = ws_sequence ws"
    "bt_pos r = unat (fr_position f)"
    by (auto simp: batch_row_of_def split: if_splits sum.splits)
  have "fr_position f = ws_position ws" "ws_position ws < sg_context_size s"
    using fits required_session_of[OF ws(1)] by (auto simp: batchable_def not_le split: if_splits)
  with ws fits required_session_of[OF ws(1)] Cons.IH[OF r(2)] r(3) show ?case by auto
qed simp

lemma moved_session_ok:
  assumes "session_ok ctx held ws" "moved_one ws ws'" "ws_position ws < ctx"
    "held' (ws_sequence ws) = held (ws_sequence ws) + 1"
  shows "session_ok ctx held' ws'"
proof -
  from assms(3) have "unat (ws_position ws) + 1 \<le> unat ctx" by (simp add: word_less_nat_alt)
  then have "unat (ws_position ws) + 1 \<le> u32_max" using unat_u32_le[of ctx] by linarith
  from unat_advance[OF this] have "unat (ws_position ws + 1) = unat (ws_position ws) + 1" by simp
  with assms show ?thesis
    by (auto simp: session_ok_def moved_one_def word_le_nat_alt word_less_nat_alt)
qed

lemma batch_rows_extend:
  assumes ok: "stage_ok len s" and rows: "batch_rows la s fs = Inr rows" and dist: "distinct (map fr_session fs)"
    and laws: "extends_each la len" and dec: "la_decode la rows (sg_llama s) = (0, k)"
  shows "len k = (\<lambda>q. len (sg_llama s) q
    + (if \<exists>f \<in> set fs. \<exists>ws. session_of (fr_session f) s = Some ws \<and> ws_sequence ws = q then 1 else 0))"
proof -
  note follow = batch_rows_follow[OF rows]
  then have len: "length rows = length fs" by (simp add: list_all2_lengthD)
  have row: "\<exists>ws. session_of (fr_session (fs ! i)) s = Some ws \<and> bt_seq (rows ! i) = ws_sequence ws
      \<and> bt_pos (rows ! i) = unat (ws_position ws)" if "i < length fs" for i
    using list_all2_nthD[OF follow that] by blast
  have "distinct (map bt_seq rows)"
    unfolding distinct_conv_nth length_map len
  proof (intro allI impI)
    fix i j assume ij: "i < length fs" "j < length fs" "i \<noteq> j"
    then have "fr_session (fs ! i) \<noteq> fr_session (fs ! j)" using dist by (auto simp: distinct_conv_nth)
    with ok row[OF ij(1)] row[OF ij(2)] have "bt_seq (rows ! i) \<noteq> bt_seq (rows ! j)"
      unfolding stage_ok_def table_fits_def by metis
    with ij len show "map bt_seq rows ! i \<noteq> map bt_seq rows ! j" by simp
  qed
  moreover have "bt_pos r = len (sg_llama s) (bt_seq r)" if "r \<in> set rows" for r
  proof -
    from that len obtain i where "i < length fs" "r = rows ! i" by (metis in_set_conv_nth)
    with row stored_session_ok[OF ok] show ?thesis by (fastforce simp: session_ok_def)
  qed
  ultimately have "len k = (\<lambda>q. len (sg_llama s) q + (if q \<in> bt_seq ` set rows then 1 else 0))"
    using laws dec unfolding extends_each_def by blast
  moreover have "q \<in> bt_seq ` set rows \<longleftrightarrow> (\<exists>f \<in> set fs. \<exists>ws. session_of (fr_session f) s = Some ws
      \<and> ws_sequence ws = q)" for q
    using row len by (metis (no_types, lifting) image_iff in_set_conv_nth option.inject)
  ultimately show ?thesis by simp
qed

text \<open>A table in which every session keeps its sequence fits the same sequences.\<close>

lemma table_fits_follow:
  assumes "table_fits used m"
    and "\<And>sid ws. m' sid = Some ws \<Longrightarrow> \<exists>ws'. m sid = Some ws' \<and> ws_sequence ws' = ws_sequence ws"
    and "\<And>sid ws. m sid = Some ws \<Longrightarrow> \<exists>ws'. m' sid = Some ws' \<and> ws_sequence ws' = ws_sequence ws"
  shows "table_fits used m'"
proof -
  have "m' 0 = None" using assms(1,2) unfolding table_fits_def by (metis not_None_eq option.distinct(1))
  moreover have "ws_sequence ws < length used \<and> used ! ws_sequence ws" if "m' sid = Some ws" for sid ws
    using assms(1) assms(2)[OF that] unfolding table_fits_def by metis
  moreover have "sid = sid'" if "m' sid = Some ws" "m' sid' = Some ws'" "ws_sequence ws = ws_sequence ws'"
    for sid sid' ws ws'
    using assms(1) assms(2)[OF that(1)] assms(2)[OF that(2)] that(3) unfolding table_fits_def by metis
  moreover have "\<exists>sid ws. m' sid = Some ws \<and> ws_sequence ws = q" if "q < length used" "used ! q" for q
    using assms(1,3) that unfolding table_fits_def by metis
  ultimately show ?thesis unfolding table_fits_def by blast
qed

lemma stage_ok_moves:
  assumes ok: "stage_ok len s" and same: "same_frame len (s\<lparr>sg_llama := k\<rparr>) s2"
    and grown: "len k = (\<lambda>q. len (sg_llama s) q
      + (if \<exists>sid \<in> S. \<exists>ws. session_of sid s = Some ws \<and> ws_sequence ws = q then 1 else 0))"
    and moves: "\<And>sid. sid \<in> S \<Longrightarrow> \<exists>ws ws'. session_of sid s = Some ws \<and> session_of sid s2 = Some ws'
      \<and> moved_one ws ws' \<and> ws_position ws < sg_context_size s"
    and kept: "\<And>sid. sid \<notin> S \<Longrightarrow> session_of sid s2 = session_of sid s"
  shows "stage_ok len s2"
proof -
  have fit: "table_fits (sg_sequence_used s) (\<lambda>sid. session_of sid s)" using ok by (simp add: stage_ok_def)
  have there: "\<exists>ws'. session_of sid s = Some ws' \<and> ws_sequence ws' = ws_sequence ws
      \<and> session_ok (sg_context_size s) (len k) ws" if "session_of sid s2 = Some ws" for sid ws
  proof (cases "sid \<in> S")
    case True
    with moves[OF True] that obtain old where old: "session_of sid s = Some old" "moved_one old ws"
      "ws_position old < sg_context_size s" by auto
    with grown True have "len k (ws_sequence old) = len (sg_llama s) (ws_sequence old) + 1" by auto
    with old moved_session_ok[OF stored_session_ok[OF ok old(1)] old(2,3)] show ?thesis
      by (auto simp: moved_one_def)
  next
    case False
    with kept that have here: "session_of sid s = Some ws" by simp
    have "\<not> (\<exists>i \<in> S. \<exists>w. session_of i s = Some w \<and> ws_sequence w = ws_sequence ws)"
      using fit here False unfolding table_fits_def by metis
    with grown have "len k (ws_sequence ws) = len (sg_llama s) (ws_sequence ws)" by simp
    with here stored_session_ok[OF ok here] show ?thesis by (simp add: session_ok_def)
  qed
  have "\<exists>ws'. session_of sid s2 = Some ws' \<and> ws_sequence ws' = ws_sequence ws"
    if "session_of sid s = Some ws" for sid ws
    using that moves[of sid] kept[of sid] by (cases "sid \<in> S") (auto simp: moved_one_def)
  with there have "table_fits (sg_sequence_used s) (\<lambda>sid. session_of sid s2)"
    by (intro table_fits_follow[OF fit]) blast+
  moreover have "len k q = 0" if "q < length (sg_sequence_used s)" "\<not> sg_sequence_used s ! q" for q
    using that ok grown fit unfolding stage_ok_def table_fits_def by auto
  moreover have "length (sg_sequence_used s) = sg_max_sessions s" using ok by (simp add: stage_ok_def)
  moreover have "session_ok (sg_context_size s) (len k) ws" if "session_of sid s2 = Some ws" for sid ws
    using there[OF that] by blast
  ultimately show ?thesis using same unfolding stage_ok_def same_frame_def by simp
qed

lemma decode_batch_moves:
  assumes laws: "kv_laws la len" "extends_each la len" and ok: "stage_ok len s"
    and run: "decode_batch la fs s = (Inr outs, s')" and dist: "distinct (map fr_session fs)"
  shows "stage_ok len s'" "length outs = length fs"
    "\<And>f. f \<in> set fs \<Longrightarrow> \<exists>ws ws'. session_of (fr_session f) s = Some ws
      \<and> session_of (fr_session f) s' = Some ws' \<and> ws_position ws' = ws_position ws + 1"
proof -
  from run obtain rows where rows: "batch_rows la s fs = Inr rows" by (auto simp: decode_batch_def split: sum.splits)
  obtain good s1 where dec: "decode la rows s = (good, s1)" by (cases "decode la rows s")
  from run rows dec obtain c s2 where rep: "batch_replies la c 0 fs s1 = (Inr outs, s2)" and good
    and s': "s' = (count_processed (length fs) s2)\<lparr>sg_decode_batches := sg_decode_batches s2 + 1\<rparr>"
    by (cases good) (auto simp: decode_batch_def Let_def split: prod.splits sum.splits)
  from dec obtain k where k: "la_decode la rows (sg_llama s) = (0, k)" "s1 = s\<lparr>sg_llama := k\<rparr>"
    using \<open>good\<close> by (auto simp: decode_def split: prod.splits)
  have samplers: "samplers_keep la len" using laws(1) by (simp add: kv_laws_def llama_laws_def)
  note replies = batch_replies_move[OF rep samplers dist]
  have moves: "\<exists>ws ws'. session_of (fr_session f) s = Some ws \<and> session_of (fr_session f) s2 = Some ws'
      \<and> moved_one ws ws' \<and> ws_position ws < sg_context_size s" if "f \<in> set fs" for f
  proof -
    from that obtain i where i: "i < length fs" "f = fs ! i" by (metis in_set_conv_nth)
    from list_all2_nthD[OF batch_rows_follow[OF rows] i(1)] i(2) replies that k(2) show ?thesis by auto
  qed
  have "stage_ok len s2"
  proof (rule stage_ok_moves[OF ok, of k s2 "fr_session ` set fs"])
    show "same_frame len (s\<lparr>sg_llama := k\<rparr>) s2" using replies k(2) by simp
  qed (use replies moves k(2) batch_rows_extend[OF ok rows dist laws(2) k(1)] in auto)
  moreover have "alike s2 s'" unfolding s' by (simp add: alike_def count_processed_def session_of_def)
  ultimately show "stage_ok len s'" by (simp add: alike_ok)
  show "length outs = length fs" using replies by simp
  show "\<exists>ws ws'. session_of (fr_session f) s = Some ws \<and> session_of (fr_session f) s' = Some ws'
      \<and> ws_position ws' = ws_position ws + 1" if "f \<in> set fs" for f
    using moves[OF that] \<open>alike s2 s'\<close> by (auto simp: moved_one_def alike_def)
qed

text \<open>
  Every token has a text, in the terms of \<^verbatim>\<open>llama.h\<close>: asked with no room the library answers
  the size it needs, negated, and asked again with that room it succeeds. A batch that was decoded
  then has a reply for each of its rows.
\<close>

definition spells :: "'k llama \<Rightarrow> bool" where
  "spells la \<longleftrightarrow> (\<forall>token. fst (la_piece la token 0) \<le> 0
     \<and> 0 \<le> fst (la_piece la token (nat (- fst (la_piece la token 0)))))"

lemma piece_present: "spells la \<Longrightarrow> \<exists>words. piece la token = Inr words"
  unfolding spells_def piece_def Let_def
  by (auto split: prod.splits) (metis fst_conv not_less)+

lemma batch_reply_present:
  assumes "spells la" "require_worker_session f s = Inr ws"
    and "\<not> sg_last s \<Longrightarrow> la_embeddings la i (sg_llama s) \<noteq> None"
  obtains out s' where "batch_reply la i f c s = (Inr out, s')" "sg_last s' = sg_last s"
    "\<not> sg_last s \<Longrightarrow> sg_llama s' = sg_llama s"
proof -
  define w where "w = (if sg_first s then remembered [get32 (fr_payload f)] (advanced 1 ws) else advanced 1 ws)"
  let ?s = "put_session (fr_session f) w s"
  show thesis
  proof (cases "sg_last s")
    case True
    obtain r s' where run: "sample_result la f w (int i) c ?s = (r, s')" by fastforce
    have "\<not> isl r"
    proof
      assume "isl r"
      with run obtain token e where "piece la token = Inl e"
        by (cases r) (auto simp: sample_result_def Let_def split: prod.splits sum.splits)
      with piece_present[OF assms(1), of token] show False by simp
    qed
    then obtain out where "r = Inr out" by (cases r) auto
    moreover from run have "sg_last s' = sg_last s"
      unfolding sample_result_def Let_def
      by (auto simp: count_generated_def split: prod.splits if_splits sum.splits)
    ultimately show ?thesis using run assms(2) True
      by (intro that[of out s']) (simp_all add: batch_reply_def w_def Let_def split: if_splits)
  next
    case False
    from hidden_rows_present[of "[i..<i + 1]" la ?s] assms(3)[OF False]
    obtain out where "put_hidden la ?s ((frame_header f)\<lparr>fr_type := T_activation, fr_rows := 1,
        fr_cols := sg_hidden s, fr_dtype := dt_none\<rparr>) 1 i c = Some out"
      by (auto simp: put_hidden_def)
    with assms(2) False show ?thesis
      by (intro that[of out ?s]) (simp_all add: batch_reply_def w_def Let_def split: if_splits)
  qed
qed

lemma batch_reply_sessions:
  assumes "batch_reply la i f c s = (r, s')" "session_of sid s = Some ws"
  shows "session_of sid s' \<noteq> None"
  using assms
  by (auto simp: batch_reply_def sample_result_def session_of_def put_session_def count_generated_def update_conv'
      Let_def split: sum.splits prod.splits option.splits if_splits)

lemma batch_replies_present:
  assumes "spells la" "\<And>f. f \<in> set fs \<Longrightarrow> \<exists>ws. require_worker_session f s = Inr ws"
    and "\<And>j. \<not> sg_last s \<Longrightarrow> j < length fs \<Longrightarrow> la_embeddings la (i + j) (sg_llama s) \<noteq> None"
  shows "\<exists>outs s'. batch_replies la c i fs s = (Inr outs, s')"
  using assms(2,3)
proof (induction fs arbitrary: i s)
  case (Cons f fs)
  from Cons.prems(1)[of f] obtain ws where ws: "require_worker_session f s = Inr ws" by auto
  from Cons.prems(2)[of 0] have "\<not> sg_last s \<Longrightarrow> la_embeddings la i (sg_llama s) \<noteq> None" by simp
  from batch_reply_present[OF assms(1) ws this] obtain out s1 where
    one: "batch_reply la i f c s = (Inr out, s1)" "sg_last s1 = sg_last s" "\<not> sg_last s \<Longrightarrow> sg_llama s1 = sg_llama s"
    by blast
  have "\<exists>ws. require_worker_session g s1 = Inr ws" if "g \<in> set fs" for g
  proof -
    from Cons.prems(1)[of g] that obtain v where "require_worker_session g s = Inr v" by auto
    moreover from batch_reply_sessions[OF one(1) required_session_of[OF this]] obtain v' where
      "session_of (fr_session g) s1 = Some v'" by blast
    ultimately show ?thesis by (auto simp: require_worker_session_def split: if_splits)
  qed
  moreover have "la_embeddings la (Suc i + j) (sg_llama s1) \<noteq> None" if "\<not> sg_last s1" "j < length fs" for j
    using Cons.prems(2)[of "Suc j"] that one by simp
  ultimately obtain outs s2 where "batch_replies la c (Suc i) fs s1 = (Inr outs, s2)"
    using Cons.IH[of s1 "Suc i"] by blast
  with one show ?case by simp
qed simp

lemma batch_rows_answerable:
  assumes "batch_rows la s fs = Inr rows"
  shows "length rows = length fs" "\<And>i. i < length fs \<Longrightarrow> bt_logits (rows ! i)"
    "\<And>f. f \<in> set fs \<Longrightarrow> \<exists>ws. require_worker_session f s = Inr ws"
proof -
  have "list_all2 (\<lambda>f r. bt_logits r \<and> (\<exists>ws. require_worker_session f s = Inr ws)) fs rows"
    using assms
  proof (induction fs arbitrary: rows)
    case (Cons f fs)
    then obtain r rest where r: "batch_row_of la s f = Inr r" "batch_rows la s fs = Inr rest" "rows = r # rest"
      by (auto split: sum.splits)
    from r(1) have "bt_logits r" "\<exists>ws. require_worker_session f s = Inr ws"
      by (auto simp: batch_row_of_def split: if_splits sum.splits)
    with r Cons.IH[OF r(2)] show ?case by simp
  qed simp
  then show "length rows = length fs" "\<And>i. i < length fs \<Longrightarrow> bt_logits (rows ! i)"
    "\<And>f. f \<in> set fs \<Longrightarrow> \<exists>ws. require_worker_session f s = Inr ws"
    by (auto simp: list_all2_conv_all_nth in_set_conv_nth)
qed

text \<open>A batch either moves each of its sessions, or is refused and the stage is as it was.\<close>

lemma decode_batch_ok:
  assumes laws: "kv_laws la len" "extends_each la len" "spells la" and ok: "stage_ok len s"
    and run: "decode_batch la fs s = (r, s')" and dist: "distinct (map fr_session fs)"
  shows "stage_ok len s'"
proof (cases r)
  case (Inr outs)
  with decode_batch_moves(1)[OF laws(1,2) ok _ dist] run show ?thesis by simp
next
  case (Inl e)
  show ?thesis
  proof (cases "batch_rows la s fs")
    case (Inl e')
    with run ok show ?thesis by (simp add: decode_batch_def)
  next
    case (Inr rows)
    obtain good s1 where dec: "decode la rows s = (good, s1)" by fastforce
    then obtain code k where k: "la_decode la rows (sg_llama s) = (code, k)" "s1 = s\<lparr>sg_llama := k\<rparr>"
      "good = (code = 0)"
      by (auto simp: decode_def split: prod.splits)
    note rows = batch_rows_answerable[OF Inr]
    have "\<not> good"
    proof
      assume good
      with k rows laws(1) have "la_embeddings la (0 + j) (sg_llama s1) \<noteq> None" if "j < length fs" for j
        using that by (auto simp: kv_laws_def llama_laws_def embeds_def)
      moreover have "\<exists>ws. require_worker_session f s1 = Inr ws" if "f \<in> set fs" for f
        using rows(3)[OF that] k(2) by (simp add: require_worker_session_def session_of_def split: if_splits)
      ultimately have "\<exists>outs s2. batch_replies la c 0 fs s1 = (Inr outs, s2)" for c
        using batch_replies_present[OF laws(3), of fs s1 0 c] by blast
      from this[of "la_compute_ns la (sg_llama s1) div word_of_nat (length fs)"] run Inr dec \<open>good\<close> \<open>r = Inl e\<close>
      show False by (auto simp: decode_batch_def Let_def)
    qed
    with kv_lawsD(2)[OF laws(1) k(1)] k(3) have "len k = len (sg_llama s)" by simp
    moreover from \<open>\<not> good\<close> run Inr dec k(2) have "s' = s\<lparr>sg_llama := k\<rparr>" by (simp add: decode_batch_def)
    ultimately show ?thesis using ok by (simp add: stage_ok_def)
  qed
qed

section \<open>Everything a worker does with its stage\<close>

text \<open>
  The steps of a worker with a stage loaded: a frame handled alone, a speculative round, a step of
  local decoding, a batch of frames of different sessions, decoded or refused, and the loss of the
  client. The draft model's stage and the guesses on record change with them.
\<close>

inductive round_step :: "'k draft_setup \<Rightarrow> 'k drafting \<Rightarrow> 'k drafting \<Rightarrow> bool" for su where
  alone: "handle (su_target su) (su_report su) chunk emit f (dg_stage d) = (r, emitted, s')
    \<Longrightarrow> round_step su d (d\<lparr>dg_stage := s'\<rparr>)"
| round: "draft_round su f d = (r, d') \<Longrightarrow> round_step su d d'"
| local: "local_decode su token position like (Some d) = (step, Some d') \<Longrightarrow> round_step su d d'"
| batched: "decode_batch (su_target su) fs (dg_stage d) = (r, s') \<Longrightarrow> distinct (map fr_session fs)
    \<Longrightarrow> round_step su d (d\<lparr>dg_stage := s'\<rparr>)"
| dropped: "round_step su d (d\<lparr>dg_stage := coordinator_disconnected (su_target su) (dg_stage d),
    dg_draft := map_option (coordinator_disconnected (su_draft su)) (dg_draft d), dg_guessed := []\<rparr>)"

inductive_cases round_stepE: "round_step su d d'"

lemma round_step_ok:
  assumes "round_step su d d'" "kv_laws (su_target su) len" "extends_each (su_target su) len"
    "spells (su_target su)" "stage_ok len (dg_stage d)"
  shows "stage_ok len (dg_stage d')"
  using assms(1)
proof (cases rule: round_step.cases)
  case (alone chunk emit f r emitted s')
  with handle_ok[OF assms(2,5) alone(2)] show ?thesis by simp
next
  case (round f r)
  with draft_round_keeps[OF round assms(2,5)] show ?thesis by simp
next
  case (local token position like step)
  with local_decode_keeps[OF local assms(2,5)] show ?thesis by auto
next
  case (batched fs r s')
  with decode_batch_ok[OF assms(2-5) batched(2,3)] show ?thesis by simp
next
  case dropped
  with coordinator_disconnected_ok[OF assms(2,5)] show ?thesis by simp
qed

lemma rounds_ok:
  assumes "(round_step su)\<^sup>*\<^sup>* d d'" "kv_laws (su_target su) len" "extends_each (su_target su) len"
    "spells (su_target su)" "stage_ok len (dg_stage d)"
  shows "stage_ok len (dg_stage d')"
  using assms by (induction rule: rtranclp_induct) (auto dest: round_step_ok)


text \<open>A library whose context counts positions per sequence, row by row.\<close>

definition row_counting :: "(nat \<Rightarrow> nat) llama" where
  "row_counting = counting\<lparr>la_decode := (\<lambda>batch k. (0, \<lambda>q. k q + length (filter (\<lambda>r. bt_seq r = q) batch)))\<rparr>"

lemma continues_rows: "continues q p batch \<Longrightarrow> r \<in> set batch \<Longrightarrow> bt_seq r = q"
  by (auto simp: continues_def in_set_conv_nth)

lemma row_counting_laws: "llama_laws row_counting (\<lambda>k. k)" "never_fatal row_counting" "spells row_counting"
  "extends_each row_counting (\<lambda>k. k)"
proof -
  have "extends row_counting (\<lambda>k. k)"
    unfolding extends_def
  proof (intro allI impI)
    fix batch :: "batch_row list" and k k' :: "nat \<Rightarrow> nat" and q
    assume dec: "la_decode row_counting batch k = (0, k')" and cont: "continues q (k q) batch"
    have "filter (\<lambda>r. bt_seq r = i) batch = (if i = q then batch else [])" for i
      using continues_rows[OF cont] by (auto simp: filter_empty_conv filter_id_conv)
    with dec show "k' = k(q := k q + length batch)" by (auto simp: row_counting_def)
  qed
  then show "llama_laws row_counting (\<lambda>k. k)"
    by (simp add: llama_laws_def trims_def restores_def samplers_keep_def embeds_def row_counting_def counting_def)
  show "never_fatal row_counting" "spells row_counting"
    by (simp_all add: never_fatal_def spells_def row_counting_def counting_def)
  have "length (filter (\<lambda>r. bt_seq r = q) batch) = (if q \<in> bt_seq ` set batch then 1 else 0)"
    if "distinct (map bt_seq batch)" for q and batch :: "batch_row list"
    using that by (induction batch) (auto simp: filter_empty_conv)
  then show "extends_each row_counting (\<lambda>k. k)" by (auto simp: extends_each_def row_counting_def)
qed

definition counting_setup :: "(nat \<Rightarrow> nat) draft_setup" where
  "counting_setup = lookup_setup\<lparr>su_target := row_counting\<rparr>"

definition demo_round :: "(nat \<Rightarrow> nat) drafting" where
  "demo_round = \<lparr>dg_stage = demo_stage, dg_draft = None, dg_guessed = []\<rparr>"


end
