(* ===== verification/Ring_Links.thy ===== *)
theory Ring_Links
  imports Connection
begin

text \<open>
  The connections a worker keeps to its neighbours on the ring (\<^verbatim>\<open>engine/stage_worker.cpp\<close>):
  the handshakes of both ends, dialling a neighbour until a deadline, binding the route a client
  asks for, releasing it, and admitting a predecessor. What the worker needs of the system beyond
  sockets is the record \<open>worker_os\<close>: sleeping, the bytes that wait unread on a socket, the
  connection that a background dial has left once a wait for it ends, the wall clock, and
  \<^verbatim>\<open>inet_pton\<close>. Receive time-outs only turn a silent peer into a failed receive, which the
  socket's segments already express.
\<close>

record 'w worker_os =
  wo_sleep_ms :: "u64 \<Rightarrow> 'w \<Rightarrow> 'w"
  wo_waiting :: "nat \<Rightarrow> 'w \<Rightarrow> u8 list option"
  wo_await_loop :: "u64 \<Rightarrow> 'w \<Rightarrow> nat option \<times> 'w"
  wo_unix_s :: "'w \<Rightarrow> int"
  wo_pton :: "string \<Rightarrow> (nat \<times> nat \<times> nat \<times> nat) option"

record ring_links =
  rl_p2p :: bool
  rl_ring_proxy :: string
  rl_listener :: "nat option"
  rl_next :: "nat option"
  rl_loop :: "nat option"
  rl_loop_target :: string
  rl_loop_dialing :: bool
  rl_generation :: u64
  rl_loop_self :: bool
  rl_expected_previous :: string
  rl_connect_budget_ms :: u64

section \<open>Handshakes\<close>

definition hello_ack :: frame where
  "hello_ack = fresh_frame\<lparr>fr_type := T_ack\<rparr>"

text \<open>A failed send or receive is reported as \<^const>\<open>False\<close>.\<close>

definition ring_handshake_connect :: "'w sockets \<Rightarrow> nat \<Rightarrow> ('w, bool) act" where
  "ring_handshake_connect so c =
     catch (then_do (send_on so c hello_ack) (\<lambda>_.
            then_do (receive_frame so c) (\<lambda>reply.
              if fr_type reply \<noteq> T_ack then return False
              else then_do (send_on so c hello_ack) (\<lambda>_. return True))))
       (\<lambda>_. return False)"

definition ring_handshake_accept :: "'w sockets \<Rightarrow> nat \<Rightarrow> ('w, bool) act" where
  "ring_handshake_accept so c =
     catch (then_do (receive_frame so c) (\<lambda>hello.
              if fr_type hello \<noteq> T_ack then return False
              else then_do (send_on so c hello_ack) (\<lambda>_.
                   then_do (receive_frame so c) (\<lambda>confirmed. return (fr_type confirmed = T_ack)))))
       (\<lambda>_. return False)"

definition send_bytes :: "'w sockets \<Rightarrow> nat \<Rightarrow> u8 list \<Rightarrow> ('w, bool) act" where
  "send_bytes so c bytes = (\<lambda>w. case send_all bytes (so_counts so c (io_world w)) of
     (ok, out, _) \<Rightarrow> Some (Inr ok, w\<lparr>io_world := so_sent so c out (io_world w)\<rparr>))"

definition receive_bytes :: "'w sockets \<Rightarrow> nat \<Rightarrow> nat \<Rightarrow> ('w, u8 list option) act" where
  "receive_bytes so c n = (\<lambda>w. case recv_all n (so_segments so c (io_world w)) of
     None \<Rightarrow> Some (Inr None, w\<lparr>io_world := so_received so c None (io_world w)\<rparr>)
   | Some (bytes, rest) \<Rightarrow>
       Some (Inr (Some bytes), w\<lparr>io_world := so_received so c (Some rest) (io_world w)\<rparr>))"

definition connect_ring_proxy :: "'w sockets \<Rightarrow> nat \<Rightarrow> string \<Rightarrow> ('w, bool) act" where
  "connect_ring_proxy so c target =
     then_do (send_bytes so c (bytes_of (''DAN-RING/1 '' @ target @ [CHR 0x0A]))) (\<lambda>sent.
       if \<not> sent then return False
       else then_do (receive_bytes so c 3) (\<lambda>response.
              return (response = Some (bytes_of (''OK'' @ [CHR 0x0A])))))"

section \<open>Dialling\<close>

definition connect_to :: "'w sockets \<Rightarrow> string \<Rightarrow> ('w, nat) act" where
  "connect_to so = open_first ''invalid coordinator endpoint'' ''could not resolve coordinator''
     ''could not connect to coordinator'' so (so_connect so)"

definition reach_neighbour :: "'w sockets \<Rightarrow> ring_links \<Rightarrow> string \<Rightarrow> nat \<Rightarrow> ('w, bool) act" where
  "reach_neighbour so l target c =
     (if rl_p2p l then then_do (connect_ring_proxy so c target) (\<lambda>ok.
        if ok then ring_handshake_connect so c else return False)
      else ring_handshake_connect so c)"

definition remaining_ms :: "u64 \<Rightarrow> u64 \<Rightarrow> u32" where
  "remaining_ms deadline now = ucast (if now < deadline then max 1 ((deadline - now) div 1000000) else 1)"

text \<open>Tries until a neighbour answers or the deadline has passed, with a pause of at most a second.\<close>

partial_function (option) dial_ring_target ::
    "'w sockets \<Rightarrow> 'w worker_os \<Rightarrow> ring_links \<Rightarrow> string \<Rightarrow> u64 \<Rightarrow> bool \<Rightarrow> 'w io
     \<Rightarrow> (nat option \<times> 'w io) option" where
  "dial_ring_target so os l target deadline first w =
     (if so_now so (io_world w) \<ge> deadline then Some (None, w)
      else
        let pause = min 1000 (ucast (remaining_ms deadline (so_now so (io_world w))));
            w = (if first then w else w\<lparr>io_world := wo_sleep_ms os pause (io_world w)\<rparr>)
        in Option.bind (connect_to so (if rl_p2p l then rl_ring_proxy l else target) w) (\<lambda>(r, w).
             case r of
               Inl e \<Rightarrow> dial_ring_target so os l target deadline False w
             | Inr c \<Rightarrow>
                 Option.bind (reach_neighbour so l target c w) (\<lambda>(ok, w).
                   if ok = Inr True then Some (Some c, w)
                   else dial_ring_target so os l target deadline False w)))"

section \<open>The route of a client\<close>

type_synonym ('w, 'a) link_act = "ring_links \<Rightarrow> 'w io \<Rightarrow> ((string + 'a) \<times> ring_links \<times> 'w io) option"

text \<open>What is refused before anything is changed.\<close>

definition route_refused :: "'w worker_os \<Rightarrow> ring_links \<Rightarrow> ring_route \<Rightarrow> bool \<Rightarrow> string option" where
  "route_refused os l route is_first =
     (if rl_p2p l \<and> \<not> valid_p2p_target (rr_next route)
      then Some ''ring target must be a libp2p peer address''
      else if \<not> rl_p2p l \<and> \<not> valid_private_endpoint (wo_pton os) (rr_next route)
      then Some ''ring target must be a private IPv4 host:port''
      else if \<not> rl_p2p l \<and> rr_previous_peer route \<noteq> []
      then Some ''previous_peer needs --peer-header to be verified''
      else if rl_p2p l \<and> \<not> is_first \<and> rr_previous_peer route = []
      then Some ''a non-first stage needs previous_peer''
      else if \<not> is_first \<and> rl_listener l = None
      then Some ''a non-first stage needs --ring-listen''
      else None)"

text \<open>The next hop is connected; the way back to the first stage is dialled in the background.\<close>

definition bound_links :: "ring_route \<Rightarrow> nat \<Rightarrow> ring_links \<Rightarrow> ring_links" where
  "bound_links route c l =
     (let itself = rr_loop route = loop_self; target = (if itself then [] else rr_loop route) in
      l\<lparr>rl_next := Some c, rl_loop_self := itself, rl_loop_target := target,
        rl_loop_dialing := (if target \<noteq> [] then True else rl_loop_dialing l)\<rparr>)"

definition deadline_of :: "ring_links \<Rightarrow> u64 \<Rightarrow> u64" where
  "deadline_of l now = now + rl_connect_budget_ms l * 1000000"

definition bind_route ::
    "'w sockets \<Rightarrow> 'w worker_os \<Rightarrow> ring_route \<Rightarrow> bool \<Rightarrow> string \<Rightarrow> ('w, string) link_act" where
  "bind_route so os route is_first bound l w =
     (case route_refused os l route is_first of
        Some e \<Rightarrow> Some (Inl e, l, w)
      | None \<Rightarrow>
          if bound \<noteq> [] then
            (if bound \<noteq> rr_next route \<or> rl_expected_previous l \<noteq> rr_previous_peer route
             then Some (Inl ''worker is bound to a different route'', l, w)
             else Some (Inr bound, l, w))
          else if rl_next l \<noteq> None then Some (Inl ''worker already serves another route'', l, w)
          else
            let l = l\<lparr>rl_expected_previous := rr_previous_peer route\<rparr> in
            Option.bind (dial_ring_target so os l (rr_next route)
                (deadline_of l (so_now so (io_world w))) True w) (\<lambda>(reached, w).
              case reached of
                None \<Rightarrow>
                  Some (Inl (''could not reach the route's next hop within ''
                      @ dec (unat (rl_connect_budget_ms l)) @ '' ms''),
                    l\<lparr>rl_expected_previous := []\<rparr>, w)
              | Some c \<Rightarrow> Some (Inr (rr_next route), bound_links route c l, w)))"

text \<open>
  The end of a background dial that was started in some generation of the route: the generation is
  tested first and the connection is installed, if there is none, by a separate exchange; another
  thread may change the links between the two, which is the argument \<open>meanwhile\<close>.
\<close>

definition dial_current :: "u64 \<Rightarrow> ring_links \<Rightarrow> bool" where
  "dial_current generation l \<longleftrightarrow> rl_generation l = generation"

definition install_loop :: "nat \<Rightarrow> ring_links \<Rightarrow> ring_links" where
  "install_loop c l = (if rl_loop l = None then l\<lparr>rl_loop := Some c\<rparr> else l)"

definition finish_loop_dial :: "(ring_links \<Rightarrow> ring_links) \<Rightarrow> u64 \<Rightarrow> nat option \<Rightarrow> ring_links \<Rightarrow> ring_links" where
  "finish_loop_dial meanwhile generation reached l =
     (case reached of
        None \<Rightarrow> l
      | Some c \<Rightarrow> if dial_current generation l then install_loop c (meanwhile l) else l)
       \<lparr>rl_loop_dialing := False\<rparr>"

definition release_links :: "ring_links \<Rightarrow> ring_links" where
  "release_links l = l\<lparr>rl_generation := rl_generation l + 1, rl_next := None, rl_loop := None,
     rl_loop_self := False, rl_loop_target := [], rl_expected_previous := []\<rparr>"

section \<open>Predecessors\<close>

text \<open>An accepted connection is served when its peer is the expected one and shakes hands.\<close>

definition admit_predecessor :: "'w sockets \<Rightarrow> ring_links \<Rightarrow> nat \<Rightarrow> ('w, string option) act" where
  "admit_predecessor so l c =
     (if rl_p2p l then
        then_do (receive_peer_id so c) (\<lambda>peer.
          if peer = None \<or> rl_expected_previous l = [] \<or> peer \<noteq> Some (rl_expected_previous l) then return None
          else then_do (ring_handshake_accept so c) (\<lambda>ok. return (if ok then peer else None)))
      else then_do (ring_handshake_accept so c) (\<lambda>ok. return (if ok then Some [] else None)))"

end
