(* ===== verification/Decode_Loop.thy ===== *)
theory Decode_Loop
  imports Drafting Ring_Links
begin

text \<open>
  The decode loop of the last stage (\<^verbatim>\<open>engine/stage_worker.cpp\<close>): the client sends a token
  budget, and this stage streams every token to the client and feeds it back, to the first stage or
  to itself when it is the whole route, until the budget is used, the text ends or the client
  cancels. The frames sent to the client are part of what a run of the loop gives back.
\<close>

section \<open>Streaming requests\<close>

record stream =
  sm_request :: u64
  sm_remaining :: u32
  sm_cancelled :: bool

type_synonym streams = "(u64 \<times> stream) list"

definition find_stream :: "frame \<Rightarrow> streams \<Rightarrow> stream option" where
  "find_stream f ss = (case map_of ss (fr_session f) of
     None \<Rightarrow> None | Some st \<Rightarrow> if sm_request st = fr_request f then Some st else None)"

definition owns_stream :: "frame \<Rightarrow> streams \<Rightarrow> bool" where
  "owns_stream f ss \<longleftrightarrow> find_stream f ss \<noteq> None"

definition end_stream :: "frame \<Rightarrow> streams \<Rightarrow> streams" where
  "end_stream f ss = (if owns_stream f ss then AList.delete (fr_session f) ss else ss)"

definition cancel_stream :: "frame \<Rightarrow> streams \<Rightarrow> streams" where
  "cancel_stream f ss = (case find_stream f ss of
     None \<Rightarrow> ss | Some st \<Rightarrow> AList.update (fr_session f) (st\<lparr>sm_cancelled := True\<rparr>) ss)"

text \<open>The client's budget for a request, or its cancellation: the reply and the streams.\<close>

definition stream_control :: "frame \<Rightarrow> streams \<Rightarrow> (string + frame) \<times> streams" where
  "stream_control input ss =
     (if fr_type input = T_cancel_request then (Inr (ack_frame input), cancel_stream input ss)
      else if fr_rows input = 0 \<or> fr_payload input \<noteq> [] then (Inl ''bad stream_prompt frame'', ss)
      else if map_of ss (fr_session input) \<noteq> None
      then (Inl ''this session is already streaming a request'', ss)
      else (Inr (ack_frame input), AList.update (fr_session input)
        \<lparr>sm_request = fr_request input, sm_remaining = fr_rows input, sm_cancelled = False\<rparr> ss))"

text \<open>Whether a token is the last one of its request, and what is left of the streams.\<close>

definition advance_stream :: "frame \<Rightarrow> streams \<Rightarrow> bool \<times> streams" where
  "advance_stream f ss =
     (case find_stream f ss of
        None \<Rightarrow> (True, ss)
      | Some st \<Rightarrow>
          if length (fr_payload f) < 13 \<or> fr_payload f ! 12 \<noteq> 0 \<or> sm_cancelled st \<or> sm_remaining st \<le> 1
          then (True, end_stream f ss)
          else (False, AList.update (fr_session f) (st\<lparr>sm_remaining := sm_remaining st - 1\<rparr>) ss))"

section \<open>One turn of the loop\<close>

definition peek_ready_frame :: "'w worker_os \<Rightarrow> nat \<Rightarrow> 'w \<Rightarrow> (frame \<times> u64) option" where
  "peek_ready_frame os c w =
     (case wo_waiting os c w of
        None \<Rightarrow> None
      | Some bytes \<Rightarrow>
          if length bytes < header_size then None
          else case decode_header (take header_size bytes) of
                 Inl e \<Rightarrow> None
               | Inr (f, nbytes) \<Rightarrow> if length bytes \<ge> header_size + unat nbytes then Some (f, nbytes) else None)"

text \<open>A cancellation that waits on the control connection is answered between two tokens.\<close>

definition service_cancel ::
    "'w sockets \<Rightarrow> 'w worker_os \<Rightarrow> nat option \<Rightarrow> streams \<Rightarrow> 'w io \<Rightarrow> ((string + unit) \<times> streams \<times> 'w io) option" where
  "service_cancel so os control ss w =
     (case control of
        None \<Rightarrow> Some (Inr (), ss, w)
      | Some c \<Rightarrow>
          (case peek_ready_frame os c (io_world w) of
             None \<Rightarrow> Some (Inr (), ss, w)
           | Some (f, nbytes) \<Rightarrow>
               if fr_type f \<noteq> T_cancel_request \<or> nbytes \<noteq> 0 then Some (Inr (), ss, w)
               else Option.bind (receive_frame so c w) (\<lambda>(r, w).
                 case r of
                   Inl e \<Rightarrow> Some (Inl e, ss, w)
                 | Inr cancel \<Rightarrow>
                     let ss = cancel_stream cancel ss in
                     map_option (\<lambda>(r, w). (r, ss, w)) (send_on so c (ack_frame cancel) w))))"

definition deliver :: "'w sockets \<Rightarrow> nat option \<Rightarrow> frame \<Rightarrow> ('w, unit) act" where
  "deliver so to_socket f = (case to_socket of None \<Rightarrow> throw [] | Some c \<Rightarrow> send_on so c f)"

text \<open>The token goes back to the first stage, over a connection that may have to be made first.\<close>

definition loop_socket ::
    "'w sockets \<Rightarrow> 'w worker_os \<Rightarrow> ring_links \<Rightarrow> 'w io \<Rightarrow> (ring_links \<times> 'w io) option" where
  "loop_socket so os l w =
     (let give_up = deadline_of l (so_now so (io_world w));
          (l, w) = (if rl_loop l = None \<and> rl_loop_dialing l
            then case wo_await_loop os give_up (io_world w) of
                   (reached, world) \<Rightarrow> (l\<lparr>rl_loop := reached\<rparr>, w\<lparr>io_world := world\<rparr>)
            else (l, w))
      in if rl_loop l = None \<and> rl_loop_target l \<noteq> []
         then map_option (\<lambda>(reached, w). (l\<lparr>rl_loop := reached\<rparr>, w))
                (dial_ring_target so os l (rl_loop_target l) (deadline_of l (so_now so (io_world w))) True w)
         else Some (l, w))"

definition feed_back ::
    "'w sockets \<Rightarrow> 'w worker_os \<Rightarrow> frame \<Rightarrow> ('w, unit) link_act" where
  "feed_back so os f l w =
     Option.bind (loop_socket so os l w) (\<lambda>(l, w).
       map_option (\<lambda>(r, w). (case r of
            Inl e \<Rightarrow> Inl (if e = [] then ''could not reach the route's first stage'' else e)
          | Inr u \<Rightarrow> Inr u, l, w))
         (deliver so (rl_loop l) (decode_frame f (fr_position f) [get32 (fr_payload f)]) w))"

definition step_frames :: "frame \<Rightarrow> loop_step \<Rightarrow> frame list" where
  "step_frames f step = map (\<lambda>i. streamed_frame f (fr_position f + word_of_nat i + 1) (ls_tokens step ! i)
     (ls_text step ! i) (ls_ends step ! i) (if i = 0 then ls_compute_ns step else 0))
     [0..<length (ls_tokens step)]"

section \<open>The loop\<close>

definition tokens_left :: "streams \<Rightarrow> nat" where
  "tokens_left ss = sum_list (map (unat \<circ> sm_remaining \<circ> snd) ss)"

lemma tokens_left_update:
  "map_of ss k = Some st \<Longrightarrow>
   tokens_left (AList.update k st' ss) + unat (sm_remaining st) = tokens_left ss + unat (sm_remaining st')"
  by (induction ss) (auto simp: tokens_left_def)

lemma find_stream_map: "find_stream f ss = Some st \<Longrightarrow> map_of ss (fr_session f) = Some st"
  by (auto simp: find_stream_def split: option.splits if_splits)

lemma cancel_stream_left [simp]: "tokens_left (cancel_stream f ss) = tokens_left ss"
proof (cases "find_stream f ss")
  case (Some st)
  from tokens_left_update[OF find_stream_map[OF this], of "st\<lparr>sm_cancelled := True\<rparr>"] Some
  show ?thesis by (simp add: cancel_stream_def)
qed (simp add: cancel_stream_def)

lemma advance_stream_left:
  assumes "advance_stream f ss = (False, ss')"
  shows "tokens_left ss' < tokens_left ss"
proof -
  from assms obtain st where st: "find_stream f ss = Some st" "\<not> sm_remaining st \<le> 1"
    and ss': "ss' = AList.update (fr_session f) (st\<lparr>sm_remaining := sm_remaining st - 1\<rparr>) ss"
    by (auto simp: advance_stream_def split: option.splits if_splits)
  from st(2) have "unat (sm_remaining st - 1) < unat (sm_remaining st)"
    by (simp add: word_le_nat_alt unat_sub)
  with tokens_left_update[OF find_stream_map[OF st(1)], of "st\<lparr>sm_remaining := sm_remaining st - 1\<rparr>"] ss'
  show ?thesis by simp
qed

lemma service_cancel_left:
  "service_cancel so os control ss w = Some (r, ss', w') \<Longrightarrow> tokens_left ss' = tokens_left ss"
  by (auto simp: service_cancel_def Let_def split: option.splits prod.splits if_splits sum.splits
      elim!: bind_SomeE map_SomeE simp del: map_option_eq_Some)

type_synonym ('w, 's) loop_end =
  "((string + unit) \<times> frame list \<times> ring_links \<times> streams \<times> 's \<times> 'w io) option"

text \<open>
  \<^verbatim>\<open>continue_loop\<close>: \<open>next_step\<close> decodes locally on the state \<open>st\<close> and is used only when this
  worker is the whole route. The result is whether the way to the client held (an exception text
  otherwise), the frames sent to the client, and the state.
\<close>

function continue_loop ::
    "'w sockets \<Rightarrow> 'w worker_os \<Rightarrow> nat option \<Rightarrow> (u32 \<Rightarrow> u32 \<Rightarrow> frame \<Rightarrow> 's \<Rightarrow> loop_step \<times> 's)
     \<Rightarrow> frame list \<Rightarrow> ring_links \<Rightarrow> streams \<Rightarrow> 's \<Rightarrow> 'w io \<Rightarrow> ('w, 's) loop_end" where
  "continue_loop so os control next_step [] l ss st w = Some (Inr (), [], l, ss, st, w)"
| "continue_loop so os control next_step (f # pending) l ss st w =
     Option.bind (service_cancel so os control ss w) (\<lambda>(r, ss, w).
       case r of
         Inl e \<Rightarrow> Some (Inl e, [], l, ss, st, w)
       | Inr _ \<Rightarrow>
           (case advance_stream f ss of (final, ss) \<Rightarrow>
              let to_client = (if final then f else f\<lparr>fr_type := T_client_chunk\<rparr>) in
              Option.bind (deliver so (rl_next l) to_client w) (\<lambda>(r, w).
                case r of
                  Inl e \<Rightarrow> Some (Inl e, [], l, [], st, w)
                | Inr _ \<Rightarrow>
                    if final then Some (Inr (), [to_client], l, ss, st, w)
                    else if pending \<noteq> [] then
                      map_option (\<lambda>(r, sent, s). (r, to_client # sent, s))
                        (continue_loop so os control next_step pending l ss st w)
                    else if \<not> rl_loop_self l then
                      map_option (\<lambda>(r, l, w). (r, [to_client], l, if r = Inr () then ss else [], st, w))
                        (feed_back so os f l w)
                    else
                      (case next_step (get32 (fr_payload f)) (fr_position f) f st of (step, st) \<Rightarrow>
                         if ls_error step \<noteq> [] \<or> ls_tokens step = [] then
                           let failure = error_frame f (if ls_error step = [] then ''decode produced no token''
                                 else ls_error step)
                           in map_option (\<lambda>(r, w). (r, to_client # (if r = Inr () then [failure] else []), l,
                                  end_stream f ss, st, w))
                                (deliver so (rl_next l) failure w)
                         else map_option (\<lambda>(r, sent, s). (r, to_client # sent, s))
                                (continue_loop so os control next_step (step_frames f step) l ss st w)))))"
  by pat_completeness auto
termination
  by (relation "measure (\<lambda>(so, os, control, next_step, pending, l, ss, st, w). tokens_left ss)")
     (auto dest!: advance_stream_left[OF sym] service_cancel_left)

declare continue_loop.simps(2) [simp del]

text \<open>The loop may connect to the first stage, but it stays in its generation of the route.\<close>

lemma loop_socket_generation:
  "loop_socket so os l w = Some (l', w') \<Longrightarrow> rl_generation l' = rl_generation l"
  by (auto simp: loop_socket_def Let_def split: if_splits prod.splits)

lemma feed_back_generation:
  "feed_back so os f l w = Some (r, l', w') \<Longrightarrow> rl_generation l' = rl_generation l"
  by (auto simp: feed_back_def elim!: bind_SomeE dest!: loop_socket_generation)

section \<open>What the client sees of a request\<close>

text \<open>The budget that is left for the request a frame belongs to.\<close>

definition budget_left :: "frame \<Rightarrow> streams \<Rightarrow> nat" where
  "budget_left f ss = (case find_stream f ss of None \<Rightarrow> 0 | Some st \<Rightarrow> unat (sm_remaining st))"

definition same_request :: "frame \<Rightarrow> frame \<Rightarrow> bool" where
  "same_request f g \<longleftrightarrow> fr_session f = fr_session g \<and> fr_request f = fr_request g"

lemma find_stream_same: "same_request f g \<Longrightarrow> find_stream f = find_stream g"
  by (auto simp: same_request_def find_stream_def fun_eq_iff split: option.splits)

lemma budget_left_same: "same_request f g \<Longrightarrow> budget_left f = budget_left g"
  by (simp add: budget_left_def fun_eq_iff find_stream_same)

lemma budget_left_cancel [simp]: "budget_left f (cancel_stream g ss) = budget_left f ss"
  by (auto simp: budget_left_def cancel_stream_def find_stream_def update_conv' split: option.splits if_splits)

lemma find_stream_ended: "find_stream f (end_stream f ss) = None"
  by (auto simp: end_stream_def owns_stream_def find_stream_def delete_conv' split: option.splits)

lemma service_cancel_returns:
  "\<exists>r ss' w'. service_cancel so os control ss w = Some (r, ss', w') \<and> budget_left f ss' = budget_left f ss"
  by (auto simp: service_cancel_def receive_frame_def send_on_def Let_def
      split: option.splits prod.splits sum.splits)

lemma deliver_returns: "\<exists>r w'. deliver so c f w = Some (r, w')"
  by (auto simp: deliver_def throw_def send_on_def Let_def split: option.splits prod.splits)

lemma advance_stream_cases:
  assumes "advance_stream f ss = (final, ss')"
  shows "final \<Longrightarrow> find_stream f ss' = None"
    "\<not> final \<Longrightarrow> 2 \<le> budget_left f ss \<and> budget_left f ss' = budget_left f ss - 1"
proof -
  show "find_stream f ss' = None" if final
    using assms that find_stream_ended[of f ss]
    by (auto simp: advance_stream_def split: option.splits if_splits)
  show "2 \<le> budget_left f ss \<and> budget_left f ss' = budget_left f ss - 1" if "\<not> final"
  proof -
    from assms that obtain st where st: "find_stream f ss = Some st" "\<not> sm_remaining st \<le> 1"
      and ss': "ss' = AList.update (fr_session f) (st\<lparr>sm_remaining := sm_remaining st - 1\<rparr>) ss"
      by (auto simp: advance_stream_def split: option.splits if_splits)
    from st(2) have "1 < unat (sm_remaining st)" "unat (sm_remaining st - 1) = unat (sm_remaining st) - 1"
      by (auto simp: word_le_nat_alt unat_sub)
    with st(1) ss' show ?thesis
      by (auto simp: budget_left_def find_stream_def update_conv' split: option.splits if_splits)
  qed
qed

lemma continue_loop_generation:
  "continue_loop so os control next_step pending l ss st w = Some (r, sent, l', ss', st', w')
   \<Longrightarrow> rl_generation l' = rl_generation l"
proof (induction so os control next_step pending l ss st w arbitrary: r sent l' ss' st' w' rule: continue_loop.induct)
  case (2 so os control next_step f pending l ss st w)
  obtain c ss1 w1 where cancel: "service_cancel so os control ss w = Some (c, ss1, w1)"
    using service_cancel_returns by blast
  show ?case
  proof (cases c)
    case (Inl e)
    with cancel 2(3) show ?thesis by (auto simp: continue_loop.simps(2))
  next
    case (Inr u)
    obtain final ss2 where adv: "advance_stream f ss1 = (final, ss2)" by fastforce
    define shown where "shown = (if final then f else f\<lparr>fr_type := T_client_chunk\<rparr>)"
    obtain q w2 where del: "deliver so (rl_next l) shown w1 = Some (q, w2)" using deliver_returns by blast
    obtain step st1 where step: "next_step (get32 (fr_payload f)) (fr_position f) f st = (step, st1)" by fastforce
    note run = 2(3)[unfolded continue_loop.simps(2), simplified cancel Option.bind.simps prod.case Inr sum.case adv
      Let_def shown_def[symmetric] del step]
    note more = 2(1)[OF cancel refl refl Inr adv[symmetric] shown_def del refl]
      and ahead = 2(2)[OF cancel refl refl Inr adv[symmetric] shown_def del refl _ _ _ _ step[symmetric]]
    show ?thesis
    proof (cases "pending = [] \<and> \<not> rl_loop_self l \<or> q \<noteq> Inr () \<or> final")
      case True
      with run show ?thesis
        by (cases q) (auto elim!: map_SomeE simp del: map_option_eq_Some split: if_splits dest!: feed_back_generation
            dest: more)
    next
      case False
      with run more ahead show ?thesis
        by (auto elim!: map_SomeE simp del: map_option_eq_Some split: if_splits)
    qed
  qed
qed simp

text \<open>The frames of one request as a client expects them: chunks, then one result or an error.\<close>

definition answer_shape :: "frame list \<Rightarrow> bool" where
  "answer_shape sent \<longleftrightarrow> sent \<noteq> [] \<and> fr_type (last sent) \<in> {T_result, T_error}
     \<and> (\<forall>f \<in> set (butlast sent). fr_type f = T_client_chunk)"

lemma answer_shape_Cons: "answer_shape sent \<Longrightarrow> fr_type f = T_client_chunk \<Longrightarrow> answer_shape (f # sent)"
  by (simp add: answer_shape_def)

lemma step_frames_request:
  "g \<in> set (step_frames f step) \<Longrightarrow> fr_type g = T_result \<and> same_request g f"
  by (auto simp: step_frames_def streamed_frame_def same_request_def)

lemma step_frames_empty [simp]: "step_frames f step = [] \<longleftrightarrow> ls_tokens step = []"
  by (simp add: step_frames_def)

definition loop_ends :: "frame \<Rightarrow> streams \<Rightarrow> ('w, 's) loop_end \<Rightarrow> bool" where
  "loop_ends like ss e \<longleftrightarrow> (\<exists>r sent l' ss' st' w'. e = Some (r, sent, l', ss', st', w')
     \<and> length sent \<le> max 1 (budget_left like ss)
     \<and> (r = Inr () \<longrightarrow> answer_shape sent \<and> find_stream like ss' = None))"

lemma loop_ends_Cons:
  assumes "loop_ends like ss' e" "2 \<le> budget_left like ss" "budget_left like ss' = budget_left like ss - 1"
    "fr_type f = T_client_chunk"
  shows "loop_ends like ss (map_option (\<lambda>(r, sent, s). (r, f # sent, s)) e)"
  using assms answer_shape_Cons[OF _ assms(4)] by (fastforce simp: loop_ends_def)

lemma self_loop_ends:
  assumes "rl_loop_self l" "pending \<noteq> []" "\<forall>f \<in> set pending. fr_type f = T_result \<and> same_request f like"
  shows "loop_ends like ss (continue_loop so os control next_step pending l ss st w)"
  using assms
proof (induction so os control next_step pending l ss st w rule: continue_loop.induct)
  case (2 so os control next_step f pending l ss st w)
  obtain r ss1 w1 where cancel: "service_cancel so os control ss w = Some (r, ss1, w1)"
    and same: "budget_left like ss1 = budget_left like ss" using service_cancel_returns by blast
  show ?case
  proof (cases r)
    case (Inl e)
    with cancel show ?thesis by (simp add: continue_loop.simps(2) loop_ends_def)
  next
    case (Inr u)
    obtain final ss2 where adv: "advance_stream f ss1 = (final, ss2)" by fastforce
    define shown where "shown = (if final then f else f\<lparr>fr_type := T_client_chunk\<rparr>)"
    obtain q w2 where del: "deliver so (rl_next l) shown w1 = Some (q, w2)" using deliver_returns by blast
    have like: "same_request f like" "fr_type f = T_result" using 2(4,5) by auto
    note budget = advance_stream_cases[OF adv, unfolded budget_left_same[OF like(1)] same]
    let ?rest = "if final then Some (Inr (), [shown], l, ss2, st, w2)
      else if pending \<noteq> [] then map_option (\<lambda>(r, sent, s). (r, shown # sent, s))
             (continue_loop so os control next_step pending l ss2 st w2)
      else case next_step (get32 (fr_payload f)) (fr_position f) f st of (step, st) \<Rightarrow>
             if ls_error step \<noteq> [] \<or> ls_tokens step = [] then
               let failure = error_frame f (if ls_error step = [] then ''decode produced no token''
                     else ls_error step)
               in map_option (\<lambda>(r, w). (r, shown # (if r = Inr () then [failure] else []), l,
                      end_stream f ss2, st, w)) (deliver so (rl_next l) failure w2)
             else map_option (\<lambda>(r, sent, s). (r, shown # sent, s))
                    (continue_loop so os control next_step (step_frames f step) l ss2 st w2)"
    have run: "continue_loop so os control next_step (f # pending) l ss st w
        = (case q of Inl e \<Rightarrow> Some (Inl e, [], l, [], st, w2) | Inr _ \<Rightarrow> ?rest)"
      using 2(3) by (simp only: continue_loop.simps(2) cancel Option.bind.simps prod.case Inr sum.case adv
          Let_def shown_def[symmetric] del not_True_eq_False if_False)
    show ?thesis
    proof (cases "final \<or> q \<noteq> Inr ()")
      case True
      then show ?thesis using budget(1) find_stream_same[OF like(1)] like(2)
        by (cases q) (auto simp: run loop_ends_def answer_shape_def shown_def)
    next
      case False
      then have on: "\<not> final" "q = Inr ()" by auto
      then have chunk: "fr_type shown = T_client_chunk" by (simp add: shown_def)
      note left = budget(2)[OF on(1)]
      show ?thesis
      proof (cases "pending = []")
        case False
        have "loop_ends like ss2 (continue_loop so os control next_step pending l ss2 st w2)"
          using 2(1)[OF cancel refl refl Inr adv[symmetric] shown_def del refl on(2) on(1) False 2(3) False] 2(5)
          by simp
        from loop_ends_Cons[OF this conjunct1[OF left] conjunct2[OF left] chunk] False on show ?thesis
          by (simp add: run)
      next
        case True
        obtain step st1 where step: "next_step (get32 (fr_payload f)) (fr_position f) f st = (step, st1)" by fastforce
        show ?thesis
        proof (cases "ls_error step \<noteq> [] \<or> ls_tokens step = []")
          case failed: True
          define failure where "failure = error_frame f (if ls_error step = [] then ''decode produced no token''
            else ls_error step)"
          obtain t w3 where sent: "deliver so (rl_next l) failure w2 = Some (t, w3)" using deliver_returns by blast
          have "fr_type failure = T_error" by (simp add: failure_def error_frame_def)
          moreover have "continue_loop so os control next_step (f # pending) l ss st w
              = Some (t, shown # (if t = Inr () then [failure] else []), l, end_stream f ss2, st1, w3)"
            unfolding run using failed True on step sent by (auto simp: Let_def failure_def[symmetric])
          ultimately show ?thesis
            using left chunk find_stream_ended[of f ss2] find_stream_same[OF like(1)]
            by (auto simp: loop_ends_def answer_shape_def)
        next
          case False
          have "\<forall>g \<in> set (step_frames f step). fr_type g = T_result \<and> same_request g like"
            using step_frames_request like(1) by (fastforce simp: same_request_def)
          with 2(2)[OF cancel refl refl Inr adv[symmetric] shown_def del refl on(2) on(1) _ _ step[symmetric] False]
            True False 2(3)
          have "loop_ends like ss2 (continue_loop so os control next_step (step_frames f step) l ss2 st1 w2)" by simp
          from loop_ends_Cons[OF this conjunct1[OF left] conjunct2[OF left] chunk] True False on step
          show ?thesis unfolding run by simp
        qed
      qed
    qed
  qed
qed simp

text \<open>
  C19. A worker that is the whole route answers a streamed request in finitely many steps, whatever the
  model computes and whenever the client cancels: it sends the client at most as many frames as
  the budget has tokens (and at least one), and when no send fails these are token chunks followed
  by exactly one result or one error, after which the request no longer streams.
\<close>

theorem streamed_answer_bounded:
  assumes "rl_loop_self l" "pending \<noteq> []" "\<forall>f \<in> set pending. fr_type f = T_result \<and> same_request f like"
  shows "\<exists>r sent l' ss' st' w'.
    continue_loop so os control next_step pending l ss st w = Some (r, sent, l', ss', st', w')
    \<and> length sent \<le> max 1 (budget_left like ss)
    \<and> (r = Inr () \<longrightarrow> answer_shape sent \<and> find_stream like ss' = None)"
  using self_loop_ends[OF assms] unfolding loop_ends_def .

text \<open>A worker with a budget of two tokens whose next step fails.\<close>

definition demo_links :: ring_links where
  "demo_links = \<lparr>rl_p2p = False, rl_ring_proxy = [], rl_listener = None, rl_next = Some 3, rl_loop = None,
     rl_loop_target = [], rl_loop_dialing = False, rl_generation = 0, rl_loop_self = True,
     rl_expected_previous = [], rl_connect_budget_ms = 20000\<rparr>"

definition demo_token_frame :: frame where
  "demo_token_frame = streamed_frame (fresh_frame\<lparr>fr_session := 7, fr_request := 1\<rparr>) 4 9 ''a'' False 5"

definition demo_streams :: streams where
  "demo_streams = [(7, \<lparr>sm_request = 1, sm_remaining = 2, sm_cancelled = False\<rparr>)]"

definition demo_os :: "(nat \<Rightarrow> frame list) worker_os" where
  "demo_os = \<lparr>wo_sleep_ms = (\<lambda>_ w. w), wo_waiting = (\<lambda>_ _. None), wo_await_loop = (\<lambda>_ w. (None, w)),
     wo_unix_s = (\<lambda>_. 0), wo_pton = (\<lambda>_. None)\<rparr>"

theorem streamed_answer_bounded_witness:
  "\<exists>r sent l' ss' st' w'. continue_loop scripted demo_os None (\<lambda>_ _ _ n. (failed_step ''stopped'', Suc n))
       [demo_token_frame] demo_links demo_streams (0 :: nat) (script (\<lambda>_. [])) = Some (r, sent, l', ss', st', w')
     \<and> length sent \<le> 2 \<and> (r = Inr () \<longrightarrow> answer_shape sent \<and> find_stream demo_token_frame ss' = None)"
proof -
  have "fr_type demo_token_frame = T_result" by (simp add: demo_token_frame_def streamed_frame_def)
  moreover have "budget_left demo_token_frame demo_streams = 2"
    by (simp add: budget_left_def find_stream_def demo_streams_def demo_token_frame_def streamed_frame_def
        fresh_frame_def)
  moreover have "rl_loop_self demo_links" by (simp add: demo_links_def)
  ultimately show ?thesis
    using streamed_answer_bounded[of demo_links "[demo_token_frame]" demo_token_frame scripted demo_os None
        "\<lambda>_ _ _ n. (failed_step ''stopped'', Suc n)" demo_streams 0 "script (\<lambda>_. [])"]
    by (simp add: same_request_def numeral_2_eq_2)
qed

end
