(* ===== verification/Worker_Turns.thy ===== *)
theory Worker_Turns
  imports Decode_Loop
begin

text \<open>
  The two threads of a worker that serves a route (\<^verbatim>\<open>engine/stage_worker.cpp\<close>): the ring
  thread, which feeds a predecessor's frames through the stage and passes every outcome on
  (\<^verbatim>\<open>run_ring\<close>), and the control thread, which answers the client
  (\<^verbatim>\<open>serve_control\<close>). A turn is one pass through the loop of a thread; the stage mutex
  makes the turns of the two threads alternate. A turn gives back whether the thread goes on, and
  the frames it put on the connection to the next hop.
\<close>

record 'k worker_state =
  wr_links :: ring_links
  wr_streams :: streams
  wr_held :: "'k drafting option"
  wr_bandwidth :: "bandwidth_entry list"
  wr_shutdown :: bool

definition disconnected :: "'k draft_setup \<Rightarrow> 'k worker_state \<Rightarrow> 'k worker_state" where
  "disconnected su k = k\<lparr>wr_held := map_option (\<lambda>d. d\<lparr>
       dg_stage := coordinator_disconnected (su_target su) (dg_stage d),
       dg_draft := map_option (coordinator_disconnected (su_draft su)) (dg_draft d),
       dg_guessed := []\<rparr>) (wr_held k)\<rparr>"

definition release_route :: "'k worker_state \<Rightarrow> 'k worker_state" where
  "release_route k = k\<lparr>wr_links := release_links (wr_links k), wr_streams := []\<rparr>"

section \<open>The ring thread\<close>

text \<open>A frame from the predecessor; a large one that did not wait measures the link.\<close>

definition link_seconds :: "u64 \<Rightarrow> u64 \<Rightarrow> double" where
  "link_seconds started now = double_div (double_of_u64 (now - started)) (Fin 1000000000)"

definition recv_ring_frame ::
    "'w sockets \<Rightarrow> 'w worker_os \<Rightarrow> string \<Rightarrow> nat \<Rightarrow> bandwidth_entry list \<Rightarrow> 'w io
     \<Rightarrow> ((string + frame) \<times> bandwidth_entry list \<times> 'w io) option" where
  "recv_ring_frame so os peer c entries w =
     (let waiting = (if peer = [] then None else map_option length (wo_waiting os c (io_world w))) in
      Option.bind (receive_bytes so c header_size w) (\<lambda>(r, w).
        case r of
          Inl e \<Rightarrow> Some (Inl e, entries, w)
        | Inr None \<Rightarrow> Some (Inl ''peer disconnected while receiving frame'', entries, w)
        | Inr (Some header) \<Rightarrow>
            let started = so_now so (io_world w) in
            (case decode_header header of
               Inl e \<Rightarrow> Some (Inl (frame_error_text e), entries, w)
             | Inr (f, nbytes) \<Rightarrow>
                 Option.bind (receive_bytes so c (unat nbytes) w) (\<lambda>(r, w).
                   case r of
                     Inl e \<Rightarrow> Some (Inl e, entries, w)
                   | Inr None \<Rightarrow> Some (Inl ''peer disconnected during payload'', entries, w)
                   | Inr (Some payload) \<Rightarrow>
                       Some (Inr (f\<lparr>fr_payload := payload\<rparr>),
                         if waiting = Some 0 \<and> nbytes \<ge> min_bandwidth_frame_bytes
                         then observe_bandwidth peer nbytes (link_seconds started (so_now so (io_world w)))
                                (wo_unix_s os (io_world w)) entries
                         else entries, w)))))"

text \<open>Frames of other sessions that are ready and fit join the batch.\<close>

primrec gather_batch ::
    "'w sockets \<Rightarrow> 'w worker_os \<Rightarrow> nat \<Rightarrow> 'k stage \<Rightarrow> nat \<Rightarrow> frame list \<Rightarrow> ('w, frame list) act" where
  "gather_batch so os c s 0 batch w = Some (Inr batch, w)"
| "gather_batch so os c s (Suc n) batch w =
     (case peek_ready_frame os c (io_world w) of
        None \<Rightarrow> Some (Inr batch, w)
      | Some (candidate, nbytes) \<Rightarrow>
          if \<not> batchable candidate nbytes s \<or> (\<exists>f \<in> set batch. fr_session f = fr_session candidate)
          then Some (Inr batch, w)
          else Option.bind (receive_frame so c w) (\<lambda>(r, w).
                 case r of
                   Inl e \<Rightarrow> Some (Inl ''batch connection closed'', w)
                 | Inr f \<Rightarrow> gather_batch so os c s n (batch @ [f]) w))"

definition may_draft :: "'k draft_setup \<Rightarrow> frame \<Rightarrow> 'k drafting \<Rightarrow> bool" where
  "may_draft su f d \<longleftrightarrow> ((dg_draft d \<noteq> None \<and> can_model_draft f (dg_stage d)) \<or> su_ngram su)
     \<and> can_draft f (dg_stage d)"

definition starts_round :: "'k draft_setup \<Rightarrow> frame \<Rightarrow> 'k drafting \<Rightarrow> bool" where
  "starts_round su f d \<longleftrightarrow> may_draft su f d \<and> \<not> sg_last (dg_stage d) \<and> sg_first (dg_stage d)
     \<and> fr_type f = T_token \<and> fr_rows f = 0 \<and> length (fr_payload f) = 4"

text \<open>The reply to a batch, one frame for each of its frames, errors included.\<close>

definition batch_outcome ::
    "'k draft_setup \<Rightarrow> frame list \<Rightarrow> 'k drafting \<Rightarrow> frame list \<times> 'k drafting" where
  "batch_outcome su batch d =
     (case decode_batch (su_target su) batch (dg_stage d) of
        (Inl e, s) \<Rightarrow> (map (\<lambda>f. error_frame f ''batched decode failed'') batch, d\<lparr>dg_stage := s\<rparr>)
      | (Inr outputs, s) \<Rightarrow> (outputs, d\<lparr>dg_stage := s\<rparr>))"

definition frame_outcome :: "'k draft_setup \<Rightarrow> frame \<Rightarrow> 'k drafting \<Rightarrow> (string + frame) \<times> 'k drafting" where
  "frame_outcome su input d =
     (if starts_round su input d then draft_round su input d
      else case handle (su_target su) (su_report su) 0 None input (dg_stage d) of
             (r, _, s) \<Rightarrow> (r, d\<lparr>dg_stage := s\<rparr>))"

text \<open>
  What a frame comes to: whether it failed, the reply, the frames that wait with their replies, and the tokens that a
  verified round commits. An exception is the error text.
\<close>

definition ring_outcome ::
    "'k draft_setup \<Rightarrow> bool \<Rightarrow> 'w sockets \<Rightarrow> 'w worker_os \<Rightarrow> nat \<Rightarrow> frame \<Rightarrow> 'k drafting \<Rightarrow> 'w io
     \<Rightarrow> ((string + bool \<times> frame \<times> (frame \<times> frame) list \<times> frame list) \<times> 'k drafting \<times> 'w io) option" where
  "ring_outcome su batching so os c input d w =
     (let s = dg_stage d;
          room = (if batching \<and> dg_draft d = None \<and> \<not> su_ngram su \<and> batchable input (payload_size input) s
                  then min 32 (sg_max_sessions s) - 1 else 0)
      in Option.bind (gather_batch so os c s room [input] w) (\<lambda>(r, w).
           case r of
             Inl e \<Rightarrow> Some (Inl e, d, w)
           | Inr batch \<Rightarrow>
               if length batch > 1 then
                 (case batch_outcome su batch d of (replies, d) \<Rightarrow>
                    Some (Inr (fr_type (hd replies) = T_error, hd replies, zip (tl batch) (tl replies), []), d, w))
               else
                 (case frame_outcome su input d of
                    (Inl e, d) \<Rightarrow> Some (Inl e, d, w)
                  | (Inr output, d) \<Rightarrow>
                      if sg_last (dg_stage d) \<and> fr_type output = T_result \<and> fr_rows output > 0
                      then case verify_round (su_target su) input output of
                             Inl e \<Rightarrow> Some (Inl e, d, w)
                           | Inr committed \<Rightarrow> Some (Inr (False, output, [], committed), d, w)
                      else Some (Inr (False, output, [], []), d, w))))"

type_synonym ('k, 'w) ring_end =
  "(bool \<times> frame list \<times> (frame \<times> frame) list \<times> 'k worker_state \<times> 'w io) option"

definition is_last :: "'k worker_state \<Rightarrow> bool" where
  "is_last k \<longleftrightarrow> (case wr_held k of None \<Rightarrow> False | Some d \<Rightarrow> sg_last (dg_stage d))"

text \<open>An outcome that no decode loop takes over goes to the next hop, except the reply to a chunk.\<close>

definition forward ::
    "'k draft_setup \<Rightarrow> 'w sockets \<Rightarrow> bool \<Rightarrow> frame \<Rightarrow> (frame \<times> frame) list \<Rightarrow> 'k worker_state \<Rightarrow> 'w io
     \<Rightarrow> ('k, 'w) ring_end" where
  "forward su so drop_it output waiting k w =
     (if drop_it then Some (True, [], waiting, k, w)
      else map_option (\<lambda>(r, w). case r of
               Inl e \<Rightarrow> (False, [], [], disconnected su k, w)
             | Inr _ \<Rightarrow> (True, [output], waiting, k, w))
             (deliver so (rl_next (wr_links k)) output w))"

definition pass_on ::
    "'k draft_setup \<Rightarrow> 'w sockets \<Rightarrow> 'w worker_os \<Rightarrow> bool \<Rightarrow> frame \<Rightarrow> frame \<Rightarrow> (frame \<times> frame) list \<Rightarrow> frame list
     \<Rightarrow> 'k worker_state \<Rightarrow> 'w io \<Rightarrow> ('k, 'w) ring_end" where
  "pass_on su so os errored input output waiting committed k w =
     (if \<not> errored \<and> is_last k \<and> fr_type output = T_result \<and> owns_stream output (wr_streams k)
      then map_option (\<lambda>(r, sent, l, ss, held, w).
             let k = k\<lparr>wr_links := l, wr_streams := ss, wr_held := held\<rparr> in
             case r of Inl e \<Rightarrow> (False, sent, [], disconnected su k, w) | Inr _ \<Rightarrow> (True, sent, waiting, k, w))
           (continue_loop so os None (local_decode su) (if committed = [] then [output] else committed)
              (wr_links k) (wr_streams k) (wr_held k) w)
      else
        let k = (if errored \<and> is_last k then k\<lparr>wr_streams := end_stream output (wr_streams k)\<rparr> else k) in
        forward su so (\<not> errored \<and> is_last k \<and> fr_type input = T_prompt_chunk) output waiting k w)"

definition ring_turn ::
    "'k draft_setup \<Rightarrow> bool \<Rightarrow> 'w sockets \<Rightarrow> 'w worker_os \<Rightarrow> nat \<Rightarrow> string \<Rightarrow> (frame \<times> frame) list \<Rightarrow> 'k worker_state
     \<Rightarrow> 'w io \<Rightarrow> ('k, 'w) ring_end" where
  "ring_turn su batching so os c peer waiting k w =
     (case waiting of
        (input, output) # rest \<Rightarrow>
          pass_on su so os (fr_type output = T_error) input output rest [] k w
      | [] \<Rightarrow>
          Option.bind (recv_ring_frame so os peer c (wr_bandwidth k) w) (\<lambda>(r, entries, w).
            let k = k\<lparr>wr_bandwidth := entries\<rparr> in
            case r of
              Inl e \<Rightarrow> Some (False, [], [], disconnected su k, w)
            | Inr input \<Rightarrow>
                if fr_type input = T_error then pass_on su so os True input input [] [] k w
                else
                  (case wr_held k of
                     None \<Rightarrow> pass_on su so os True input (error_frame input ''no stage is loaded'') [] [] k w
                   | Some d \<Rightarrow>
                       Option.bind (ring_outcome su batching so os c input d w) (\<lambda>(r, d, w).
                         let k = k\<lparr>wr_held := Some d\<rparr> in
                         case r of
                           Inl e \<Rightarrow> pass_on su so os True input (error_frame input e) [] [] k w
                         | Inr (errored, output, waiting, committed) \<Rightarrow>
                             pass_on su so os errored input output waiting committed k w))))"

text \<open>The frames of one predecessor, until its connection ends or the worker shuts down.\<close>

partial_function (option) serve_predecessor ::
    "'k draft_setup \<Rightarrow> bool \<Rightarrow> 'w sockets \<Rightarrow> 'w worker_os \<Rightarrow> nat \<Rightarrow> string \<Rightarrow> (frame \<times> frame) list \<Rightarrow> 'k worker_state
     \<Rightarrow> 'w io \<Rightarrow> ('k worker_state \<times> 'w io) option" where
  "serve_predecessor su batching so os c peer waiting k w =
     (if wr_shutdown k then Some (k, w)
      else Option.bind (ring_turn su batching so os c peer waiting k w) (\<lambda>(on, sent, waiting, k, w).
             if on then serve_predecessor su batching so os c peer waiting k w else Some (k, w)))"

text \<open>One predecessor after the other; a failed accept ends the thread.\<close>

partial_function (option) run_ring ::
    "'k draft_setup \<Rightarrow> bool \<Rightarrow> 'w sockets \<Rightarrow> 'w worker_os \<Rightarrow> ('w \<Rightarrow> bool) \<Rightarrow> nat \<Rightarrow> 'k worker_state \<Rightarrow> 'w io
     \<Rightarrow> ('k worker_state \<times> 'w io) option" where
  "run_ring su batching so os stop listener k w =
     (if wr_shutdown k \<or> stop (io_world w) then Some (k, w)
      else Option.bind (so_accept so listener (io_world w)) (\<lambda>(accepted, world).
        case accepted of
          None \<Rightarrow> Some (k, w\<lparr>io_world := world\<rparr>)
        | Some c \<Rightarrow>
            Option.bind (admit_predecessor so (wr_links k) c (w\<lparr>io_world := world\<rparr>)) (\<lambda>(r, w).
              case r of
                Inr (Some peer) \<Rightarrow>
                  Option.bind (serve_predecessor su batching so os c peer [] k w) (\<lambda>(k, w).
                    run_ring su batching so os stop listener k w)
              | _ \<Rightarrow> run_ring su batching so os stop listener k w)))"

section \<open>The control thread\<close>

definition is_hot_path :: "msg_type \<Rightarrow> bool" where
  "is_hot_path t \<longleftrightarrow> t \<in> {T_prompt, T_token, T_activation, T_speculative_activation}"

text \<open>Chunks of a prompt go to the next hop one by one: how many were taken, and the first failure.\<close>

primrec send_chunks ::
    "'w sockets \<Rightarrow> nat option \<Rightarrow> frame list \<Rightarrow> 'w io \<Rightarrow> (nat \<times> string option \<times> 'w io) option" where
  "send_chunks so c [] w = Some (0, None, w)"
| "send_chunks so c (f # rest) w =
     Option.bind (deliver so c f w) (\<lambda>(r, w).
       case r of
         Inl e \<Rightarrow> Some (0, Some (if e = [] then ''ring next hop unavailable'' else e), w)
       | Inr _ \<Rightarrow> map_option (\<lambda>(n, e, w). (Suc n, e, w)) (send_chunks so c rest w))"

text \<open>
  The stage handles a frame and emits chunks as it goes. The chunks do not depend on what becomes of
  them, so they are those of a caller that takes every chunk; when a send fails, the stage is the one
  that stopped at that chunk.
\<close>

definition handle_emitting ::
    "'k draft_setup \<Rightarrow> 'w sockets \<Rightarrow> nat \<Rightarrow> nat option \<Rightarrow> frame \<Rightarrow> 'k stage \<Rightarrow> 'w io
     \<Rightarrow> ((string + frame) \<times> frame list \<times> 'k stage \<times> 'w io) option" where
  "handle_emitting su so prefill_chunk c input s w =
     (let run = (\<lambda>sink. handle (su_target su) (su_report su) prefill_chunk (Some sink) input s) in
      case run (u32_max, []) of
        (r, emitted, s') \<Rightarrow>
          map_option (\<lambda>(n, failure, w). case failure of
                None \<Rightarrow> (r, emitted, s', w)
              | Some e \<Rightarrow> (case run (n, e) of (r, emitted, s') \<Rightarrow> (r, emitted, s', w)))
            (send_chunks so c emitted w))"

definition bookkeeping_types :: "msg_type set" where
  "bookkeeping_types = {T_create_session, T_reset_session, T_destroy_session, T_end_request, T_rollback,
     T_commit_token, T_prompt}"

definition forget_guesses :: "u64 \<Rightarrow> 'k drafting \<Rightarrow> 'k drafting" where
  "forget_guesses session d = d\<lparr>dg_guessed := AList.delete session (dg_guessed d)\<rparr>"

text \<open>The draft model sees the frames that change a session's text or its bookkeeping.\<close>

definition mirror_frame :: "'k draft_setup \<Rightarrow> frame \<Rightarrow> 'k drafting \<Rightarrow> (string + unit) \<times> 'k drafting" where
  "mirror_frame su input d =
     (let t = fr_type input;
          mirrored = (if t = T_prompt \<or> t = T_commit_token then input else input\<lparr>fr_payload := []\<rparr>)
      in case (if t \<in> {T_commit_token, T_prompt, T_rollback} then catch_up_draft su input d else (Inr (), d)) of
           (Inl e, d) \<Rightarrow> (Inl e, d)
         | (Inr _, d) \<Rightarrow>
             (case (if t \<in> {T_commit_token, T_prompt, T_end_request, T_rollback}
                    then flush_draft su input d else (Inr (), d)) of
                (Inl e, d) \<Rightarrow> (Inl e, d)
              | (Inr _, d) \<Rightarrow>
                  draft_handle su mirrored
                    (if t \<in> {T_end_request, T_rollback} then forget_guesses (fr_session input) d else d)))"

definition follow_draft :: "'k draft_setup \<Rightarrow> frame \<Rightarrow> 'k drafting \<Rightarrow> 'k drafting" where
  "follow_draft su input d =
     (let t = fr_type input;
          d = (if t \<in> {T_reset_session, T_destroy_session} then forget_guesses (fr_session input) d else d)
      in if dg_draft d \<noteq> None \<and> \<not> can_model_draft input (dg_stage d) then forget_guesses (fr_session input) d
         else if dg_draft d \<noteq> None \<and> t \<in> bookkeeping_types then
           (case mirror_frame su input d of
              (Inr _, d) \<Rightarrow> d
            | (Inl e, d) \<Rightarrow>
                if t \<in> {T_prompt, T_commit_token, T_rollback, T_end_request}
                then forget_guesses (fr_session input) (d\<lparr>dg_draft := None\<rparr>) else d)
         else d)"

text \<open>The route in a \<^verbatim>\<open>create_session\<close> frame is bound first; the frame then carries no payload.\<close>

definition bind_session ::
    "'w sockets \<Rightarrow> 'w worker_os \<Rightarrow> bool \<Rightarrow> frame \<Rightarrow> string \<Rightarrow> 'k worker_state \<Rightarrow> 'w io
     \<Rightarrow> ((string + frame) \<times> string \<times> 'k worker_state \<times> 'w io) option" where
  "bind_session so os routed input bound k w =
     (if fr_type input \<noteq> T_create_session \<or> fr_payload input = [] then Some (Inr input, bound, k, w)
      else if \<not> routed then Some (Inl ''this worker uses a fixed --next'', bound, k, w)
      else case parse_route (string_of (fr_payload input)) of
        None \<Rightarrow> Some (Inl ''invalid ring route'', bound, k, w)
      | Some route \<Rightarrow>
          (case wr_held k of
             None \<Rightarrow> Some (Inl ''no stage is loaded'', bound, k, w)
           | Some d \<Rightarrow>
               map_option (\<lambda>(r, l, w). let k = k\<lparr>wr_links := l\<rparr> in
                   case r of Inl e \<Rightarrow> (Inl e, bound, k, w)
                   | Inr b \<Rightarrow> (Inr (input\<lparr>fr_payload := []\<rparr>), b, k, w))
                 (bind_route so os route (sg_first (dg_stage d)) bound (wr_links k) w)))"

definition run_control_frame ::
    "'k draft_setup \<Rightarrow> 'w sockets \<Rightarrow> nat \<Rightarrow> frame \<Rightarrow> 'k worker_state \<Rightarrow> 'w io
     \<Rightarrow> ((string + frame) \<times> frame list \<times> 'k worker_state \<times> 'w io) option" where
  "run_control_frame su so prefill_chunk input k w =
     (case wr_held k of
        None \<Rightarrow> Some (Inl ''no stage is loaded'', [], k, w)
      | Some d \<Rightarrow>
          map_option (\<lambda>(r, emitted, s, w).
              let d = d\<lparr>dg_stage := s\<rparr> in
              case r of
                Inl e \<Rightarrow> (Inl e, emitted, k\<lparr>wr_held := Some d\<rparr>, w)
              | Inr output \<Rightarrow>
                  (Inr output, emitted, k\<lparr>wr_held := Some (follow_draft su input d),
                     wr_shutdown := (wr_shutdown k \<or> sg_shutting_down s)\<rparr>, w))
            (handle_emitting su so prefill_chunk (rl_next (wr_links k)) input (dg_stage d) w))"

type_synonym ('k, 'w) control_end = "(bool \<times> string \<times> frame list \<times> 'k worker_state \<times> 'w io) option"

definition stop_serving :: "'k draft_setup \<Rightarrow> string \<Rightarrow> frame list \<Rightarrow> 'k worker_state \<Rightarrow> 'w io \<Rightarrow> ('k, 'w) control_end" where
  "stop_serving su bound sent k w = Some (False, bound, sent, disconnected su k, w)"

text \<open>A budget or a cancellation; on a linked route a bad one is that session's problem only.\<close>

definition stream_turn ::
    "'k draft_setup \<Rightarrow> 'w sockets \<Rightarrow> nat \<Rightarrow> frame \<Rightarrow> string \<Rightarrow> 'k worker_state \<Rightarrow> 'w io \<Rightarrow> ('k, 'w) control_end" where
  "stream_turn su so client input bound k w =
     (case stream_control input (wr_streams k) of (r, ss) \<Rightarrow>
        let k = k\<lparr>wr_streams := ss\<rparr>;
            reply = (case r of Inl e \<Rightarrow> error_frame input e | Inr f \<Rightarrow> f)
        in Option.bind (send_on so client reply w) (\<lambda>(sent, w).
             if sent \<noteq> Inr () \<or> ((\<exists>e. r = Inl e) \<and> bound = []) then stop_serving su bound [] k w
             else Some (True, bound, [], k, w)))"

text \<open>The reply of a frame: on the ring's next hop for the hot path, else on the control connection.\<close>

definition reply_turn ::
    "'k draft_setup \<Rightarrow> 'w sockets \<Rightarrow> nat \<Rightarrow> frame \<Rightarrow> string + frame \<Rightarrow> string \<Rightarrow> frame list \<Rightarrow> 'k worker_state \<Rightarrow> 'w io
     \<Rightarrow> ('k, 'w) control_end" where
  "reply_turn su so client input r bound emitted k w =
     (let output = (case r of Inl e \<Rightarrow> error_frame input e | Inr f \<Rightarrow> f);
          ringed = (rl_next (wr_links k) \<noteq> None \<and> is_hot_path (fr_type input));
          sent = (if ringed then emitted @ [output] else emitted)
      in Option.bind (deliver so (if ringed then rl_next (wr_links k) else Some client) output w) (\<lambda>(q, w).
           if q \<noteq> Inr () then stop_serving su bound emitted k w
           else case r of
             Inr _ \<Rightarrow> Some (True, bound, sent, k, w)
           | Inl _ \<Rightarrow>
               let k = k\<lparr>wr_streams := end_stream input (wr_streams k)\<rparr> in
               if bound = [] \<or> fr_session input = 0 then stop_serving su bound sent k w
               else Some (True, bound, sent, k, w)))"

definition answer_turn ::
    "'k draft_setup \<Rightarrow> 'w sockets \<Rightarrow> 'w worker_os \<Rightarrow> nat \<Rightarrow> frame \<Rightarrow> string + frame \<Rightarrow> string \<Rightarrow> frame list
     \<Rightarrow> 'k worker_state \<Rightarrow> 'w io \<Rightarrow> ('k, 'w) control_end" where
  "answer_turn su so os client input r bound emitted k w =
     (case r of
        Inr output \<Rightarrow>
          if is_last k \<and> fr_type output = T_result \<and> owns_stream output (wr_streams k)
          then Option.bind (continue_loop so os (Some client) (local_decode su) [output] (wr_links k)
                 (wr_streams k) (wr_held k) w) (\<lambda>(q, sent, l, ss, held, w).
               let k = k\<lparr>wr_links := l, wr_streams := ss, wr_held := held\<rparr> in
               if q \<noteq> Inr () then stop_serving su bound sent k w else Some (True, bound, sent, k, w))
          else reply_turn su so client input r bound emitted k w
      | Inl e \<Rightarrow> reply_turn su so client input r bound emitted k w)"

definition serve_turn ::
    "'k draft_setup \<Rightarrow> 'w sockets \<Rightarrow> 'w worker_os \<Rightarrow> nat \<Rightarrow> bool \<Rightarrow> nat \<Rightarrow> string \<Rightarrow> 'k worker_state \<Rightarrow> 'w io
     \<Rightarrow> ('k, 'w) control_end" where
  "serve_turn su so os prefill_chunk routed client bound k w =
     Option.bind (receive_frame so client w) (\<lambda>(r, w).
       case r of
         Inl e \<Rightarrow> stop_serving su bound [] k w
       | Inr input \<Rightarrow>
           if fr_type input = T_stream_prompt \<or> fr_type input = T_cancel_request
           then stream_turn su so client input bound k w
           else Option.bind (bind_session so os routed input bound k w) (\<lambda>(r, bound, k, w).
             case r of
               Inl e \<Rightarrow> answer_turn su so os client input (Inl e) bound [] k w
             | Inr input \<Rightarrow>
                 Option.bind (run_control_frame su so prefill_chunk input k w) (\<lambda>(r, emitted, k, w).
                   answer_turn su so os client input r bound emitted k w)))"

text \<open>One client, until its connection ends or the worker shuts down; then its route is released.\<close>

partial_function (option) serve_client ::
    "'k draft_setup \<Rightarrow> 'w sockets \<Rightarrow> 'w worker_os \<Rightarrow> nat \<Rightarrow> bool \<Rightarrow> nat \<Rightarrow> string \<Rightarrow> 'k worker_state \<Rightarrow> 'w io
     \<Rightarrow> ('k worker_state \<times> 'w io) option" where
  "serve_client su so os prefill_chunk routed client bound k w =
     (if wr_shutdown k then Some (k, w)
      else Option.bind (serve_turn su so os prefill_chunk routed client bound k w) (\<lambda>(on, bound, sent, k, w).
             if on then serve_client su so os prefill_chunk routed client bound k w else Some (k, w)))"

definition serve_control ::
    "'k draft_setup \<Rightarrow> 'w sockets \<Rightarrow> 'w worker_os \<Rightarrow> nat \<Rightarrow> bool \<Rightarrow> nat \<Rightarrow> 'k worker_state \<Rightarrow> 'w io
     \<Rightarrow> ('k worker_state \<times> 'w io) option" where
  "serve_control su so os prefill_chunk routed client k w =
     map_option (\<lambda>(k, w). (if routed then release_route k else k, w))
       (serve_client su so os prefill_chunk routed client [] k w)"

section \<open>A client that leaves\<close>

definition vacant :: "'k worker_state \<Rightarrow> bool" where
  "vacant k \<longleftrightarrow> (\<forall>d. wr_held k = Some d \<longrightarrow> sg_sessions (dg_stage d) = [] \<and> dg_guessed d = []
     \<and> (\<forall>s. dg_draft d = Some s \<longrightarrow> sg_sessions s = []))"

lemma disconnected_sessions: "sg_sessions (coordinator_disconnected la s) = []"
  by (simp add: coordinator_disconnected_def)

lemma disconnected_vacant: "vacant (disconnected su k)"
  by (auto simp: vacant_def disconnected_def disconnected_sessions)

lemma turn_stops_vacant:
  "serve_turn su so os chunk routed client bound k w = Some (False, bound', sent, k', w') \<Longrightarrow> vacant k'"
  by (auto simp: serve_turn_def stream_turn_def answer_turn_def reply_turn_def stop_serving_def disconnected_vacant Let_def
      split: sum.splits if_splits prod.splits elim!: bind_SomeE)

lemma serve_client_ends:
  assumes "serve_client su so os chunk routed client bound k w = Some (k', w')"
  shows "wr_shutdown k' \<or> vacant k'"
proof -
  have "case r of (k', w') \<Rightarrow> wr_shutdown k' \<or> vacant k'"
    if "serve_client su so os chunk routed client bound k w = Some r" for r
    using that
  proof (induction rule: serve_client.raw_induct[rotated 1, consumes 1])
    case (1 serve su so os chunk routed client bound k w r)
    from 1(2) show ?case
      by (auto split: if_splits elim!: bind_SomeE dest!: 1(1) dest: turn_stops_vacant)
  qed
  from this[OF assms] show ?thesis by simp
qed

text \<open>A connection is served in one generation of the route; only the release starts the next.\<close>

lemma bind_route_generation:
  "bind_route so os route is_first bound l w = Some (r, l', w') \<Longrightarrow> rl_generation l' = rl_generation l"
  by (auto simp: bind_route_def bound_links_def Let_def split: if_splits option.splits elim!: bind_SomeE)

lemma bind_session_generation:
  "bind_session so os routed f bound k w = Some (r, bound', k', w')
   \<Longrightarrow> rl_generation (wr_links k') = rl_generation (wr_links k)"
  by (auto simp: bind_session_def Let_def split: if_splits option.splits sum.splits elim!: map_SomeE
      simp del: map_option_eq_Some dest!: bind_route_generation)

lemma run_control_frame_links:
  "run_control_frame su so chunk f k w = Some (r, emitted, k', w') \<Longrightarrow> wr_links k' = wr_links k"
  by (auto simp: run_control_frame_def Let_def split: option.splits sum.splits elim!: map_SomeE
      simp del: map_option_eq_Some)

lemma answer_turn_generation:
  "answer_turn su so os client f r bound emitted k w = Some (on, bound', sent, k', w')
   \<Longrightarrow> rl_generation (wr_links k') = rl_generation (wr_links k)"
  by (auto simp: answer_turn_def reply_turn_def stop_serving_def disconnected_def Let_def
      split: sum.splits if_splits elim!: bind_SomeE dest!: continue_loop_generation)

lemma serve_turn_generation:
  assumes "serve_turn su so os chunk routed client bound k w = Some (on, bound', sent, k', w')"
  shows "rl_generation (wr_links k') = rl_generation (wr_links k)"
  using assms
  by (auto simp: serve_turn_def stream_turn_def stop_serving_def disconnected_def Let_def
      split: sum.splits if_splits prod.splits elim!: bind_SomeE
      dest!: answer_turn_generation bind_session_generation run_control_frame_links)

lemma serve_client_generation:
  assumes "serve_client su so os chunk routed client bound k w = Some (k', w')"
  shows "rl_generation (wr_links k') = rl_generation (wr_links k)"
proof -
  have "case r of (k', w') \<Rightarrow> rl_generation (wr_links k') = rl_generation (wr_links k)"
    if "serve_client su so os chunk routed client bound k w = Some r" for r
    using that
  proof (induction rule: serve_client.raw_induct[rotated 1, consumes 1])
    case (1 serve su so os chunk routed client bound k w r)
    from 1(2) show ?case
      by (auto split: if_splits elim!: bind_SomeE dest!: 1(1) serve_turn_generation)
  qed
  from this[OF assms] show ?thesis by simp
qed


text \<open>
  The test and the exchange are two steps: a dial that has passed the test when the route is
  released installs its connection on the freed worker, where the next route finds it.
\<close>

lemma stale_dial_installs:
  assumes "dial_current generation (wr_links k)"
  shows "rl_loop (finish_loop_dial release_links generation (Some c) (wr_links k)) = Some c
    \<and> rl_next (finish_loop_dial release_links generation (Some c) (wr_links k)) = None"
  using assms by (simp add: finish_loop_dial_def install_loop_def release_links_def)

text \<open>A worker with two sessions, one of which streams.\<close>

definition shared_stage :: "(nat \<Rightarrow> nat) stage" where
  "shared_stage = demo_stage\<lparr>sg_sessions := [(7, demo_session_state), (9, fresh_worker_session 4 1)],
     sg_sequence_used := [True, True]\<rparr>"

definition shared_worker :: "(nat \<Rightarrow> nat) worker_state" where
  "shared_worker = \<lparr>wr_links = demo_links, wr_streams = [(9, \<lparr>sm_request = 1, sm_remaining = 6, sm_cancelled = False\<rparr>)],
     wr_held = Some (demo_round\<lparr>dg_stage := shared_stage\<rparr>), wr_bandwidth = [], wr_shutdown = False\<rparr>"


end
