(* ===== verification/Isolation.thy ===== *)
theory Isolation
  imports Worker_Turns
begin

text \<open>
  Sessions do not touch each other: whatever a worker does with the frame of one session, on the
  control connection or on the ring, the sessions of the other clients of its stage stay as they
  are. The lemmas follow a frame through the stage, the draft rounds, the batches and the decode
  loop; each is about one operation and a session that the operation is not for.
\<close>

section \<open>The stage\<close>

named_theorems session_kept

text \<open>What a turn of another session must leave alone: the session, and the role of the stage.\<close>

definition seen :: "u64 \<Rightarrow> 'k stage \<Rightarrow> worker_session option \<times> bool" where
  "seen sid s = (session_of sid s, sg_last s)"

lemma counters_keep [simp]:
  "seen sid (count_processed n s) = seen sid s"
  "seen sid (count_generated n s) = seen sid s"
  "seen sid (note_step n p c s) = seen sid s"
  by (simp_all add: seen_def session_of_def count_processed_def count_generated_def note_step_def note_timing_def Let_def)

lemma flags_keep [simp]:
  "seen sid (s\<lparr>sg_sequence_used := us\<rparr>) = seen sid s"
  "seen sid (s\<lparr>sg_active_session := a, sg_requests_served := n\<rparr>) = seen sid s"
  "seen sid (s\<lparr>sg_active_session := a\<rparr>) = seen sid s"
  "seen sid (s\<lparr>sg_shutting_down := b\<rparr>) = seen sid s"
  "seen sid (s\<lparr>sg_decode_batches := n\<rparr>) = seen sid s"
  "seen sid (s\<lparr>sg_llama := k\<rparr>) = seen sid s"
  "sid \<noteq> q \<Longrightarrow> seen sid (put_session q ws s) = seen sid s"
  by (simp_all add: seen_def session_of_def put_session_def update_conv')

lemma deleted_kept [simp]:
  "sid \<noteq> q \<Longrightarrow> seen sid (s\<lparr>sg_sequence_used := us, sg_sessions := AList.delete q (sg_sessions s)\<rparr>) = seen sid s"
  by (simp add: seen_def session_of_def delete_conv')

lemma trim_kv_kept [session_kept]: "trim_kv la q p s = (r, s') \<Longrightarrow> seen sid s' = seen sid s"
  by (auto simp: trim_kv_def split: prod.splits)

lemma decode_kept [session_kept]: "decode la batch s = (r, s') \<Longrightarrow> seen sid s' = seen sid s"
  by (auto simp: decode_def split: prod.splits)

lemma stage_create_kept [session_kept]:
  "stage_create f s = (r, s') \<Longrightarrow> sid \<noteq> fr_session f \<Longrightarrow> seen sid s' = seen sid s"
  by (auto simp: stage_create_def split: if_splits option.splits)

lemma stage_reset_kept [session_kept]:
  "stage_reset la f s = (r, s') \<Longrightarrow> sid \<noteq> fr_session f \<Longrightarrow> seen sid s' = seen sid s"
  by (auto simp: stage_reset_def split: if_splits sum.splits prod.splits bool.splits dest: trim_kv_kept)

lemma stage_destroy_kept [session_kept]:
  "stage_destroy la f s = (r, s') \<Longrightarrow> sid \<noteq> fr_session f \<Longrightarrow> seen sid s' = seen sid s"
  by (auto simp: stage_destroy_def split: if_splits sum.splits prod.splits bool.splits dest: trim_kv_kept)

lemma stage_end_request_kept [session_kept]:
  "stage_end_request f s = (r, s') \<Longrightarrow> sid \<noteq> fr_session f \<Longrightarrow> seen sid s' = seen sid s"
  by (auto simp: stage_end_request_def split: if_splits sum.splits)

lemma stage_rollback_kept [session_kept]:
  "stage_rollback la f s = (r, s') \<Longrightarrow> sid \<noteq> fr_session f \<Longrightarrow> seen sid s' = seen sid s"
  by (auto simp: stage_rollback_def split: if_splits sum.splits prod.splits bool.splits dest: trim_kv_kept)

lemma stage_shutdown_kept [session_kept]: "stage_shutdown f s = (r, s') \<Longrightarrow> seen sid s' = seen sid s"
  by (auto simp: stage_shutdown_def split: if_splits)

lemma stage_metrics_kept [session_kept]:
  "stage_metrics_reply report f s = (r, s') \<Longrightarrow> seen sid s' = seen sid s"
  by (auto simp: stage_metrics_reply_def split: if_splits)

lemma try_prepare_kept [session_kept]:
  "try_prepare la f ws s = (r, s') \<Longrightarrow> sid \<noteq> fr_session f \<Longrightarrow> seen sid s' = seen sid s"
  by (auto simp: try_prepare_def Let_def split: if_splits sum.splits prod.splits bool.splits dest: trim_kv_kept)

lemma stage_prepare_chat_kept [session_kept]:
  "stage_prepare_chat la f s = (r, s') \<Longrightarrow> sid \<noteq> fr_session f \<Longrightarrow> seen sid s' = seen sid s"
  by (auto simp: stage_prepare_chat_def split: if_splits sum.splits prod.splits dest: try_prepare_kept)

lemma sample_result_kept [session_kept]:
  "sample_result la f ws i c s = (r, s') \<Longrightarrow> seen sid s' = seen sid s"
  by (auto simp: sample_result_def Let_def split: if_splits sum.splits prod.splits)

lemma single_reply_kept [session_kept]:
  "single_reply la f n ws c s = (r, s') \<Longrightarrow> seen sid s' = seen sid s"
  by (auto simp: single_reply_def split: if_splits sum.splits prod.splits dest: sample_result_kept)

lemma last_reply_kept [session_kept]:
  "last_reply la f ws s = (r, s') \<Longrightarrow> seen sid s' = seen sid s"
  by (auto simp: last_reply_def Let_def split: if_splits dest: sample_result_kept)

lemma prefill_chunk_kept [session_kept]:
  "decode_prefill_chunk la f tokens ws s = (r, ws', s') \<Longrightarrow> seen sid s' = seen sid s"
  by (auto simp: decode_prefill_chunk_def Let_def split: prod.splits bool.splits option.splits dest: decode_kept)

lemma prefill_chunks_kept [session_kept]:
  "prefill_chunks la f sink n tokens ws s = (r, emitted, ws', s') \<Longrightarrow> seen sid s' = seen sid s"
proof (induction la f sink n tokens ws s arbitrary: r emitted ws' s' rule: prefill_chunks.induct)
  case (1 la f sink n tokens ws s)
  obtain q ws1 s1 where chunk: "decode_prefill_chunk la f (take n tokens) ws s = (q, ws1, s1)"
    by (metis prod_cases3)
  note first = prefill_chunk_kept[OF chunk, of sid]
  show ?case
  proof (cases "(n = 0 \<or> length tokens \<le> n) \<or> (\<exists>e. q = Inl e) \<or> fst sink = 0")
    case True
    with 1(2) chunk first show ?thesis
      by (subst (asm) prefill_chunks.simps) (auto split: if_splits sum.splits)
  next
    case False
    then obtain out where q: "q = Inr out" by (cases q) auto
    with False 1(2) chunk obtain emitted' where
      "prefill_chunks la f (fst sink - 1, snd sink) n (drop n tokens) ws1 s1 = (r, emitted', ws', s')"
      by (subst (asm) prefill_chunks.simps) (auto split: prod.splits)
    with 1(1)[OF _ chunk[symmetric] q refl] False first show ?thesis by simp
  qed
qed

lemma run_batch_first_kept [session_kept]:
  "run_batch_first la f tokens ws s = (r, s') \<Longrightarrow> sid \<noteq> fr_session f \<Longrightarrow> seen sid s' = seen sid s"
  by (auto simp: run_batch_first_def Let_def split: prod.splits bool.splits if_splits option.splits
      dest!: decode_kept[where sid = sid] single_reply_kept[where sid = sid])

lemma run_first_kept [session_kept]:
  "run_first la n sink f ws s = (r, emitted, s') \<Longrightarrow> sid \<noteq> fr_session f \<Longrightarrow> seen sid s' = seen sid s"
  by (auto simp: run_first_def Let_def split: prod.splits if_splits sum.splits option.splits
      dest!: prefill_chunks_kept[where sid = sid] run_batch_first_kept[where sid = sid])

lemma run_last_kept [session_kept]:
  "run_last la f ws s = (r, s') \<Longrightarrow> sid \<noteq> fr_session f \<Longrightarrow> seen sid s' = seen sid s"
  by (auto simp: run_last_def Let_def split: prod.splits if_splits bool.splits
      dest!: decode_kept[where sid = sid] last_reply_kept[where sid = sid])

lemma run_middle_kept [session_kept]:
  "run_middle la f ws s = (r, s') \<Longrightarrow> sid \<noteq> fr_session f \<Longrightarrow> seen sid s' = seen sid s"
  by (auto simp: run_middle_def Let_def split: prod.splits if_splits bool.splits option.splits
      dest!: decode_kept[where sid = sid])

lemma begin_request_kept [session_kept]:
  "begin_request f ws s = (r, s') \<Longrightarrow> sid \<noteq> fr_session f \<Longrightarrow> seen sid s' = seen sid s"
  by (auto simp: begin_request_def Let_def split: if_splits)

lemma implicit_rollback_kept [session_kept]:
  "implicit_rollback la f ws s = (r, s') \<Longrightarrow> sid \<noteq> fr_session f \<Longrightarrow> seen sid s' = seen sid s"
  by (auto simp: implicit_rollback_def Let_def split: if_splits prod.splits bool.splits
      dest!: trim_kv_kept[where sid = sid])

lemma execute_kept [session_kept]:
  "execute la n sink f s = (r, emitted, s') \<Longrightarrow> sid \<noteq> fr_session f \<Longrightarrow> seen sid s' = seen sid s"
  by (auto simp: execute_def Let_def split: if_splits prod.splits sum.splits
      dest!: begin_request_kept[where sid = sid] implicit_rollback_kept[where sid = sid]
        run_first_kept[where sid = sid] run_last_kept[where sid = sid] run_middle_kept[where sid = sid])

lemma handle_kept [session_kept]:
  assumes "handle la report n sink f s = (r, emitted, s')" "sid \<noteq> fr_session f"
  shows "seen sid s' = seen sid s"
  using assms unfolding handle_def quiet_def
  by (cases "fr_type f") (auto split: prod.splits dest: session_kept)

section \<open>Rounds\<close>

lemma put_draft_kept [simp]: "sid \<noteq> q \<Longrightarrow> seen sid (put_draft q st s) = seen sid s"
  by (simp add: put_draft_def split: option.split)

lemma learn_width_kept:
  "learn_width su g f d = (r, d') \<Longrightarrow> sid \<noteq> fr_session f
   \<Longrightarrow> seen sid (dg_stage d') = seen sid (dg_stage d)"
  by (auto simp: learn_width_def Let_def split: if_splits sum.splits)

lemma catch_up_draft_kept:
  "catch_up_draft su f d = (r, d') \<Longrightarrow> sid \<noteq> fr_session f
   \<Longrightarrow> seen sid (dg_stage d') = seen sid (dg_stage d)"
  by (auto simp: catch_up_draft_def Let_def split: option.splits if_splits prod.splits sum.splits
      dest!: draft_handle_keeps learn_width_kept[where sid = sid])

lemma flush_draft_kept:
  "flush_draft su f d = (r, d') \<Longrightarrow> sid \<noteq> fr_session f
   \<Longrightarrow> seen sid (dg_stage d') = seen sid (dg_stage d)"
  by (auto simp: flush_draft_def Let_def split: if_splits prod.splits sum.splits dest!: draft_handle_keeps)

lemma ngram_proposals_kept:
  "ngram_proposals up f n s = (r, s') \<Longrightarrow> sid \<noteq> fr_session f \<Longrightarrow> seen sid s' = seen sid s"
  by (auto simp: ngram_proposals_def Let_def split: if_splits sum.splits)

lemma propose_kept:
  "propose su f width d = (r, d') \<Longrightarrow> sid \<noteq> fr_session f
   \<Longrightarrow> seen sid (dg_stage d') = seen sid (dg_stage d)"
  by (auto simp: propose_def split: if_splits option.splits prod.splits sum.splits
      dest!: flush_draft_kept[where sid = sid] ngram_proposals_kept[where sid = sid])

lemma try_propose_kept:
  "try_propose su f d = (guesses, started, d') \<Longrightarrow> sid \<noteq> fr_session f
   \<Longrightarrow> seen sid (dg_stage d') = seen sid (dg_stage d)"
  by (auto simp: try_propose_def Let_def split: option.splits prod.splits sum.splits
      dest!: catch_up_draft_kept[where sid = sid] propose_kept[where sid = sid])

lemma note_guesses_kept:
  "note_guesses su f guesses started d = (r, d') \<Longrightarrow> sid \<noteq> fr_session f
   \<Longrightarrow> seen sid (dg_stage d') = seen sid (dg_stage d)"
  by (auto simp: note_guesses_def defer_token_def Let_def split: if_splits option.splits prod.splits sum.splits)

lemma decode_frame_session [simp]: "fr_session (decode_frame f p ts) = fr_session f"
  by (simp add: decode_frame_def)

lemma draft_round_kept:
  "draft_round su f d = (r, d') \<Longrightarrow> sid \<noteq> fr_session f
   \<Longrightarrow> seen sid (dg_stage d') = seen sid (dg_stage d)"
  by (auto simp: draft_round_def split: prod.splits sum.splits dest!: try_propose_kept[where sid = sid]
      note_guesses_kept[where sid = sid] handle_kept[where sid = sid])

definition seen_in :: "u64 \<Rightarrow> 'k drafting option \<Rightarrow> (worker_session option \<times> bool) option" where
  "seen_in sid held = map_option (\<lambda>d. seen sid (dg_stage d)) held"

lemma seen_in_simps [simp]:
  "seen_in sid None = None" "seen_in sid (Some d) = Some (seen sid (dg_stage d))"
  by (simp_all add: seen_in_def)

lemma local_decode_kept:
  "local_decode su token position like held = (step, held') \<Longrightarrow> sid \<noteq> fr_session like
   \<Longrightarrow> seen_in sid held' = seen_in sid held"
  by (auto simp: local_decode_def Let_def split: option.splits prod.splits if_splits
      dest!: draft_round_kept[where sid = sid] handle_kept[where sid = sid])

lemma batch_reply_kept:
  "batch_reply la i f c s = (r, s') \<Longrightarrow> sid \<noteq> fr_session f \<Longrightarrow> seen sid s' = seen sid s"
  by (auto simp: batch_reply_def Let_def split: sum.splits if_splits option.splits
      dest!: sample_result_kept[where sid = sid])

lemma batch_replies_kept:
  "batch_replies la c i fs s = (r, s') \<Longrightarrow> sid \<notin> fr_session ` set fs \<Longrightarrow> seen sid s' = seen sid s"
  by (induction fs arbitrary: i s r s')
     (auto split: prod.splits sum.splits dest!: batch_reply_kept[where sid = sid])

lemma decode_batch_kept:
  "decode_batch la fs s = (r, s') \<Longrightarrow> sid \<notin> fr_session ` set fs \<Longrightarrow> seen sid s' = seen sid s"
  by (auto simp: decode_batch_def Let_def split: sum.splits prod.splits bool.splits
      dest!: decode_kept[where sid = sid] batch_replies_kept[where sid = sid])

section \<open>The decode loop\<close>

text \<open>What a stream promises its client: the request and the tokens left; cancelling keeps both.\<close>

definition promised :: "u64 \<Rightarrow> streams \<Rightarrow> (u64 \<times> u32) option" where
  "promised sid ss = map_option (\<lambda>st. (sm_request st, sm_remaining st)) (map_of ss sid)"

lemma promised_cancel [simp]: "promised sid (cancel_stream f ss) = promised sid ss"
  by (auto simp: promised_def cancel_stream_def find_stream_def update_conv' split: option.splits if_splits)

lemma promised_end [simp]: "sid \<noteq> fr_session f \<Longrightarrow> promised sid (end_stream f ss) = promised sid ss"
  by (simp add: promised_def end_stream_def delete_conv')

lemma promised_advance:
  "advance_stream f ss = (final, ss') \<Longrightarrow> sid \<noteq> fr_session f \<Longrightarrow> promised sid ss' = promised sid ss"
  by (auto simp: advance_stream_def split: option.splits if_splits) (simp add: promised_def update_conv')

lemma promised_control:
  "stream_control f ss = (r, ss') \<Longrightarrow> sid \<noteq> fr_session f \<Longrightarrow> promised sid ss' = promised sid ss"
  by (auto simp: stream_control_def split: if_splits) (simp add: promised_def update_conv')

lemma service_cancel_kept:
  "service_cancel so os control ss w = Some (r, ss', w') \<Longrightarrow> promised sid ss' = promised sid ss"
  by (auto simp: service_cancel_def Let_def split: option.splits prod.splits if_splits sum.splits
      elim!: bind_SomeE map_SomeE simp del: map_option_eq_Some)

lemma continue_loop_kept:
  assumes "continue_loop so os control next_step pending l ss st w = Some (r, sent, l', ss', st', w')"
    "\<forall>f \<in> set pending. fr_session f \<noteq> sid"
    "\<And>t p f st step st'. next_step t p f st = (step, st') \<Longrightarrow> fr_session f \<noteq> sid \<Longrightarrow> P st' = P st"
  shows "P st' = P st \<and> (r = Inr () \<longrightarrow> promised sid ss' = promised sid ss)"
  using assms
proof (induction so os control next_step pending l ss st w arbitrary: r sent l' ss' st' w' rule: continue_loop.induct)
  case (2 so os control next_step f pending l ss st w)
  obtain c ss1 w1 where cancel: "service_cancel so os control ss w = Some (c, ss1, w1)"
    using service_cancel_returns by blast
  show ?case
  proof (cases c)
    case (Inl e)
    with cancel 2(3) show ?thesis by (auto simp: continue_loop.simps(2))
  next
    case (Inr u)
    obtain final ss2 where adv: "advance_stream f ss1 = (final, ss2)" by fastforce
    define shown where "shown = (if final then f else f\<lparr>fr_type := T_client_chunk\<rparr>)"
    obtain q w2 where del: "deliver so (rl_next l) shown w1 = Some (q, w2)" using deliver_returns by blast
    have f: "fr_session f \<noteq> sid" "sid \<noteq> fr_session f" using 2(4) by auto
    have same: "promised sid ss2 = promised sid ss"
      using promised_advance[OF adv f(2)] service_cancel_kept[OF cancel, of sid] by simp
    obtain step st1 where step: "next_step (get32 (fr_payload f)) (fr_position f) f st = (step, st1)" by fastforce
    note st1 = 2(5)[OF step f(1)]
    note run = 2(3)[unfolded continue_loop.simps(2), simplified cancel Option.bind.simps prod.case Inr sum.case adv
      Let_def shown_def[symmetric] del step]
    have rest: "\<forall>g \<in> set (step_frames f step). fr_session g \<noteq> sid"
      using step_frames_request[of _ f step] f by (auto simp: same_request_def)
    consider (lost) e where "q = Inl e" | (final) "q = Inr ()" final | (more) "q = Inr ()" "\<not> final" "pending \<noteq> []"
      | (ahead) "q = Inr ()" "\<not> final" "pending = []" "\<not> rl_loop_self l"
      | (self) "q = Inr ()" "\<not> final" "pending = []" "rl_loop_self l"
      by (cases q) auto
    then show ?thesis
    proof cases
      case more
      with run obtain sent1 where
        on: "continue_loop so os control next_step pending l ss2 st w2 = Some (r, sent1, l', ss', st', w')"
        by (auto elim!: map_SomeE simp del: map_option_eq_Some)
      from 2(1)[OF cancel refl refl Inr adv[symmetric] shown_def del refl more(1,2,3) on _ 2(5)] 2(4) same
      show ?thesis by auto
    next
      case self
      show ?thesis
      proof (cases "ls_error step \<noteq> [] \<or> ls_tokens step = []")
        case True
        with run self st1 same f(2) show ?thesis by (auto elim!: map_SomeE simp del: map_option_eq_Some)
      next
        case False
        with run self obtain sent1 where on: "continue_loop so os control next_step (step_frames f step) l ss2 st1 w2
            = Some (r, sent1, l', ss', st', w')"
          by (auto elim!: map_SomeE simp del: map_option_eq_Some)
        have "P st' = P st1 \<and> (r = Inr () \<longrightarrow> promised sid ss' = promised sid ss2)"
          using 2(2)[OF cancel refl refl Inr adv[symmetric] shown_def del refl self(1,2) _ _ step[symmetric] False
            on rest 2(5)] self by simp
        with same st1 show ?thesis by simp
      qed
    qed (use run same st1 in \<open>auto elim!: map_SomeE simp del: map_option_eq_Some\<close>)
  qed
qed simp

section \<open>Replies\<close>

text \<open>A reply carries the session of its frame.\<close>

lemma put_hidden_session: "put_hidden la s f n g c = Some out \<Longrightarrow> fr_session out = fr_session f"
  by (auto simp: put_hidden_def split: option.splits)

lemma frames_session [simp]:
  "fr_session (stage_ack f p c) = fr_session f" "fr_session (result_frame f p t c e x) = fr_session f"
  "fr_session (verified_frame f p c ts) = fr_session f" "fr_session (chunk_frame kind f s ws n) = fr_session f"
  "fr_session (frame_header f) = fr_session f" "fr_session (error_frame f msg) = fr_session f"
  by (simp_all add: stage_ack_def result_frame_def verified_frame_def chunk_frame_def frame_header_def error_frame_def)

lemma sample_result_session: "sample_result la f ws i c s = (Inr out, s') \<Longrightarrow> fr_session out = fr_session f"
  by (auto simp: sample_result_def Let_def split: sum.splits prod.splits)

lemma single_reply_session: "single_reply la f n ws c s = (Inr out, s') \<Longrightarrow> fr_session out = fr_session f"
  by (auto simp: single_reply_def split: if_splits sum.splits prod.splits dest: sample_result_session)

lemma run_batch_first_session:
  "run_batch_first la f tokens ws s = (Inr out, s') \<Longrightarrow> fr_session out = fr_session f"
  by (auto simp: run_batch_first_def Let_def split: prod.splits bool.splits if_splits option.splits
      dest!: single_reply_session put_hidden_session)

lemma run_first_session: "run_first la n sink f ws s = (Inr out, emitted, s') \<Longrightarrow> fr_session out = fr_session f"
  by (auto simp: run_first_def Let_def split: prod.splits if_splits sum.splits dest: run_batch_first_session)

lemma run_last_session: "run_last la f ws s = (Inr out, s') \<Longrightarrow> fr_session out = fr_session f"
  by (auto simp: run_last_def last_reply_def Let_def split: prod.splits if_splits bool.splits
      dest: sample_result_session)

lemma run_middle_session: "run_middle la f ws s = (Inr out, s') \<Longrightarrow> fr_session out = fr_session f"
  by (auto simp: run_middle_def Let_def split: prod.splits if_splits bool.splits option.splits
      dest!: put_hidden_session)

lemma execute_session: "execute la n sink f s = (Inr out, emitted, s') \<Longrightarrow> fr_session out = fr_session f"
  by (auto simp: execute_def Let_def split: if_splits prod.splits sum.splits
      dest: run_first_session run_last_session run_middle_session)

lemma control_session:
  "stage_create f s = (Inr out, s') \<Longrightarrow> fr_session out = fr_session f"
  "stage_reset la f s = (Inr out, s') \<Longrightarrow> fr_session out = fr_session f"
  "stage_destroy la f s = (Inr out, s') \<Longrightarrow> fr_session out = fr_session f"
  "stage_end_request f s = (Inr out, s') \<Longrightarrow> fr_session out = fr_session f"
  "stage_rollback la f s = (Inr out, s') \<Longrightarrow> fr_session out = fr_session f"
  "stage_shutdown f s = (Inr out, s') \<Longrightarrow> fr_session out = fr_session f"
  "stage_metrics_reply report f s = (Inr out, s') \<Longrightarrow> fr_session out = fr_session f"
  by (auto simp: stage_create_def stage_reset_def stage_destroy_def stage_end_request_def stage_rollback_def
      stage_shutdown_def stage_metrics_reply_def fresh_frame_def
      split: if_splits sum.splits option.splits prod.splits bool.splits)

lemma prepare_session: "stage_prepare_chat la f s = (Inr out, s') \<Longrightarrow> fr_session out = fr_session f"
  by (auto simp: stage_prepare_chat_def try_prepare_def Let_def
      split: if_splits sum.splits prod.splits bool.splits)

lemma handle_session:
  assumes "handle la report n sink f s = (Inr out, emitted, s')"
  shows "fr_session out = fr_session f"
  using assms unfolding handle_def quiet_def
  by (cases "fr_type f") (auto split: prod.splits dest: execute_session control_session prepare_session)

lemma draft_round_session: "draft_round su f d = (Inr out, d') \<Longrightarrow> fr_session out = fr_session f"
  by (auto simp: draft_round_def split: prod.splits sum.splits if_splits dest!: handle_session)

section \<open>Turns of the ring thread\<close>

lemma frame_outcome_kept:
  assumes "frame_outcome su f d = (r, d')" "sid \<noteq> fr_session f"
  shows "seen sid (dg_stage d') = seen sid (dg_stage d)"
  using assms by (auto simp: frame_outcome_def split: if_splits prod.splits dest: draft_round_kept handle_kept)

lemma frame_outcome_session: "frame_outcome su f d = (Inr out, d') \<Longrightarrow> fr_session out = fr_session f"
  by (auto simp: frame_outcome_def split: if_splits prod.splits dest: draft_round_session handle_session)

lemma batch_outcome_kept:
  assumes "batch_outcome su fs d = (replies, d')" "sid \<notin> fr_session ` set fs"
  shows "seen sid (dg_stage d') = seen sid (dg_stage d)"
  using assms by (auto simp: batch_outcome_def split: prod.splits sum.splits dest!: decode_batch_kept[where sid = sid])

lemma batch_reply_session: "batch_reply la i f c s = (Inr out, s') \<Longrightarrow> fr_session out = fr_session f"
  by (auto simp: batch_reply_def Let_def split: sum.splits if_splits option.splits
      dest!: sample_result_session put_hidden_session)

lemma batch_replies_session:
  "batch_replies la c i fs s = (Inr outs, s') \<Longrightarrow> map fr_session outs = map fr_session fs"
  by (induction fs arbitrary: i s outs s') (auto split: prod.splits sum.splits dest!: batch_reply_session)

lemma batch_outcome_session:
  assumes "batch_outcome su fs d = (replies, d')"
  shows "map fr_session replies = map fr_session fs"
  using assms by (auto simp: batch_outcome_def decode_batch_def Let_def split: prod.splits sum.splits bool.splits
      dest!: batch_replies_session)

lemma verify_round_session:
  "verify_round la f verified = Inr out \<Longrightarrow> \<forall>g \<in> set out. fr_session g = fr_session verified"
  by (auto simp: verify_round_def Let_def streamed_frame_def split: sum.splits)

lemma gather_batch_first:
  "gather_batch so os c s n batch w = Some (Inr batch', w') \<Longrightarrow> \<exists>rest. batch' = batch @ rest"
proof (induction n arbitrary: batch w)
  case (Suc n)
  then show ?case
    by (auto split: option.splits if_splits prod.splits sum.splits elim!: bind_SomeE)
       (metis append.assoc)
qed simp

text \<open>Frames that wait with their replies: a reply is for the session of its frame.\<close>

definition paired :: "(frame \<times> frame) list \<Rightarrow> bool" where
  "paired waiting \<longleftrightarrow> (\<forall>(input, output) \<in> set waiting. fr_session output = fr_session input)"

definition sessions_of :: "(frame \<times> frame) list \<Rightarrow> u64 set" where
  "sessions_of waiting = fr_session ` fst ` set waiting"

lemma paired_zip: "map fr_session replies = map fr_session fs \<Longrightarrow> paired (zip fs replies)"
  by (induction fs replies rule: list_induct2') (auto simp: paired_def)

lemma sessions_of_zip: "length replies = length fs \<Longrightarrow> sessions_of (zip fs replies) = fr_session ` set fs"
  by (metis sessions_of_def map_fst_zip set_map)

lemma ring_outcome_kept:
  assumes "ring_outcome su batching so os c input d w = Some (r, d', w')"
  shows "(\<forall>e. r = Inl e \<longrightarrow> (\<forall>sid. sid \<noteq> fr_session input \<longrightarrow> seen sid (dg_stage d') = seen sid (dg_stage d)))
    \<and> (\<forall>errored output waiting committed. r = Inr (errored, output, waiting, committed) \<longrightarrow>
        paired waiting \<and> fr_session output = fr_session input
        \<and> (\<forall>f \<in> set committed. fr_session f = fr_session input)
        \<and> (\<forall>sid. sid \<noteq> fr_session input \<longrightarrow> sid \<notin> sessions_of waiting
             \<longrightarrow> seen sid (dg_stage d') = seen sid (dg_stage d)))"
proof -
  from assms obtain n g w1 where batch: "gather_batch so os c (dg_stage d) n [input] w = Some (g, w1)"
    and rest: "(case g of Inl e \<Rightarrow> Some (Inl e, d, w1)
       | Inr batch \<Rightarrow>
           if length batch > 1 then
             (case batch_outcome su batch d of (replies, d) \<Rightarrow>
                Some (Inr (fr_type (hd replies) = T_error, hd replies, zip (tl batch) (tl replies), []), d, w1))
           else
             (case frame_outcome su input d of
                (Inl e, d) \<Rightarrow> Some (Inl e, d, w1)
              | (Inr output, d) \<Rightarrow>
                  if sg_last (dg_stage d) \<and> fr_type output = T_result \<and> fr_rows output > 0
                  then case verify_round (su_target su) input output of
                         Inl e \<Rightarrow> Some (Inl e, d, w1)
                       | Inr committed \<Rightarrow> Some (Inr (False, output, [], committed), d, w1)
                  else Some (Inr (False, output, [], []), d, w1))) = Some (r, d', w')"
    by (auto simp: ring_outcome_def Let_def elim!: bind_SomeE)
  show ?thesis
  proof (cases g)
    case (Inr fs)
    then obtain more where fs: "fs = input # more" using gather_batch_first[OF batch[unfolded Inr]] by auto
    show ?thesis
    proof (cases "more = []")
      case True
      with rest Inr fs show ?thesis
        by (auto split: prod.splits sum.splits if_splits simp: paired_def
            dest!: verify_round_session dest: frame_outcome_kept frame_outcome_session)
    next
      case False
      obtain replies d1 where out: "batch_outcome su fs d = (replies, d1)" by fastforce
      from batch_outcome_session[OF out] fs obtain first others where replies: "replies = first # others"
        and same: "fr_session first = fr_session input" "map fr_session others = map fr_session more"
        by (cases replies) auto
      from same(2) have "length others = length more" by (metis length_map)
      with rest Inr fs False out replies same paired_zip[OF same(2)] sessions_of_zip[of others more]
        batch_outcome_kept[OF out]
      show ?thesis by auto
    qed
  qed (use rest in auto)
qed

lemma pass_on_kept:
  assumes "pass_on su so os errored input output waiting committed k w = Some (True, sent, waiting', k', w')"
    "sid \<noteq> fr_session output" "\<forall>f \<in> set committed. fr_session f \<noteq> sid"
  shows "seen_in sid (wr_held k') = seen_in sid (wr_held k) \<and> promised sid (wr_streams k') = promised sid (wr_streams k)"
proof (cases "\<not> errored \<and> is_last k \<and> fr_type output = T_result \<and> owns_stream output (wr_streams k)")
  case True
  define pending where "pending = (if committed = [] then [output] else committed)"
  with assms(2,3) have pending: "\<forall>f \<in> set pending. fr_session f \<noteq> sid" by auto
  from assms(1) True obtain l ss held where
    loop: "continue_loop so os None (local_decode su) pending (wr_links k) (wr_streams k) (wr_held k) w
        = Some (Inr (), sent, l, ss, held, w')" and k': "k' = k\<lparr>wr_links := l, wr_streams := ss, wr_held := held\<rparr>"
    by (auto simp: pass_on_def pending_def[symmetric] Let_def split: sum.splits elim!: map_SomeE
        simp del: map_option_eq_Some)
  from continue_loop_kept[OF loop pending, where P = "seen_in sid"] local_decode_kept k' show ?thesis by force
next
  case False
  define k1 where "k1 = (if errored \<and> is_last k then k\<lparr>wr_streams := end_stream output (wr_streams k)\<rparr> else k)"
  from assms(1) False have
    "forward su so (\<not> errored \<and> is_last k1 \<and> fr_type input = T_prompt_chunk) output waiting k1 w
      = Some (True, sent, waiting', k', w')"
    by (simp add: pass_on_def k1_def Let_def del: split_paired_Ex)
  then have "k' = k1"
    by (auto simp: forward_def split: if_splits sum.splits elim!: map_SomeE simp del: map_option_eq_Some)
  with assms(2) show ?thesis by (simp add: k1_def)
qed

text \<open>The frame that a turn of the ring thread is about.\<close>

definition ring_input ::
    "'w sockets \<Rightarrow> 'w worker_os \<Rightarrow> nat \<Rightarrow> string \<Rightarrow> (frame \<times> frame) list \<Rightarrow> 'k worker_state \<Rightarrow> 'w io \<Rightarrow> frame option" where
  "ring_input so os c peer waiting k w =
     (case waiting of
        (input, _) # _ \<Rightarrow> Some input
      | [] \<Rightarrow> (case recv_ring_frame so os peer c (wr_bandwidth k) w of
               Some (Inr input, _, _) \<Rightarrow> Some input | _ \<Rightarrow> None))"

definition untouched :: "u64 \<Rightarrow> 'k worker_state \<Rightarrow> 'k worker_state \<Rightarrow> bool" where
  "untouched sid k k' \<longleftrightarrow> seen_in sid (wr_held k') = seen_in sid (wr_held k)
     \<and> promised sid (wr_streams k') = promised sid (wr_streams k)"

lemma pass_on_waiting:
  "pass_on su so os errored input output waiting committed k w = Some (True, sent, waiting', k', w')
   \<Longrightarrow> waiting' = waiting"
  by (auto simp: pass_on_def forward_def Let_def split: sum.splits if_splits elim!: map_SomeE
      simp del: map_option_eq_Some)

text \<open>A turn that goes on ends by passing an outcome on, with the batch's other replies in the queue.\<close>

lemma ring_turn_passes:
  assumes "paired waiting" "ring_turn su batching so os c peer waiting k w = Some (True, sent, waiting', k', w')"
    "ring_input so os c peer waiting k w = Some input"
  obtains errored reply queue committed k1 w1
  where "pass_on su so os errored input reply queue committed k1 w1 = Some (True, sent, waiting', k', w')"
    "paired queue" "fr_session reply = fr_session input" "\<forall>f \<in> set committed. fr_session f = fr_session input"
    "\<And>sid. sid \<noteq> fr_session input \<Longrightarrow> sid \<notin> sessions_of queue \<Longrightarrow> untouched sid k k1"
proof (cases waiting)
  case (Cons p rest)
  obtain i reply where p: "p = (i, reply)" by fastforce
  with Cons assms have "input = i" "fr_session reply = fr_session i" "paired rest"
    by (auto simp: ring_input_def paired_def)
  with assms(2) Cons p show ?thesis
    by (intro that[of "fr_type reply = T_error" reply rest "[]" k w]) (auto simp: ring_turn_def untouched_def)
next
  case Nil
  with assms(3) obtain entries w1 where read: "recv_ring_frame so os peer c (wr_bandwidth k) w = Some (Inr input, entries, w1)"
    by (auto simp: ring_input_def split: option.splits sum.splits)
  show ?thesis
  proof (cases "fr_type input = T_error \<or> wr_held k = None")
    case True
    with assms(2) Nil read show ?thesis
      by (intro that[of True "if fr_type input = T_error then input else error_frame input ''no stage is loaded''"
            "[]" "[]" "k\<lparr>wr_bandwidth := entries\<rparr>" w1])
         (auto simp: ring_turn_def Let_def paired_def untouched_def)
  next
    case False
    then obtain d where d: "wr_held k = Some d" by auto
    with assms(2) Nil read False obtain r d' w2 where out: "ring_outcome su batching so os c input d w1 = Some (r, d', w2)"
      by (auto simp: ring_turn_def Let_def elim!: bind_SomeE)
    let ?k1 = "k\<lparr>wr_bandwidth := entries, wr_held := Some d'\<rparr>"
    have turn: "(case r of Inl e \<Rightarrow> pass_on su so os True input (error_frame input e) [] [] ?k1 w2
      | Inr (errored, output, waiting, committed) \<Rightarrow> pass_on su so os errored input output waiting committed ?k1 w2)
      = Some (True, sent, waiting', k', w')"
      using assms(2) Nil read False d out by (simp add: ring_turn_def Let_def split: sum.splits prod.splits)
    note kept = ring_outcome_kept[OF out]
    show ?thesis
    proof (cases r)
      case (Inl e)
      with kept turn d show ?thesis
        by (intro that[of True "error_frame input e" "[]" "[]" ?k1 w2]) (auto simp: paired_def untouched_def)
    next
      case (Inr x)
      obtain errored reply queue committed where x: "x = (errored, reply, queue, committed)" by (metis prod_cases4)
      with kept turn d Inr show ?thesis
        by (intro that[of errored reply queue committed ?k1 w2]) (auto simp: untouched_def)
    qed
  qed
qed

lemma untouched_trans: "untouched sid a b \<Longrightarrow> untouched sid b c \<Longrightarrow> untouched sid a c"
  by (simp add: untouched_def)

lemma ring_turn_kept:
  assumes "paired waiting" "ring_turn su batching so os c peer waiting k w = Some (True, sent, waiting', k', w')"
    "ring_input so os c peer waiting k w = Some input"
  shows "paired waiting'"
    "sid \<noteq> fr_session input \<Longrightarrow> sid \<notin> sessions_of waiting' \<Longrightarrow> untouched sid k k'"
proof -
  obtain errored reply queue committed k1 w1
    where on: "pass_on su so os errored input reply queue committed k1 w1 = Some (True, sent, waiting', k', w')"
    and turn: "paired queue" "fr_session reply = fr_session input"
      "\<forall>f \<in> set committed. fr_session f = fr_session input"
      "\<And>sid. sid \<noteq> fr_session input \<Longrightarrow> sid \<notin> sessions_of queue \<Longrightarrow> untouched sid k k1"
    using ring_turn_passes[OF assms] by metis
  note queue = pass_on_waiting[OF on]
  from queue turn(1) show "paired waiting'" by simp
  assume sid: "sid \<noteq> fr_session input" "sid \<notin> sessions_of waiting'"
  with turn(2,3) have "sid \<noteq> fr_session reply" "\<forall>f \<in> set committed. fr_session f \<noteq> sid" by auto
  from pass_on_kept[OF on this] have "untouched sid k1 k'" by (simp add: untouched_def)
  with turn(4)[of sid] sid queue show "untouched sid k k'" by (auto intro: untouched_trans)
qed

section \<open>Turns of the control thread\<close>

lemma forget_guesses_stage [simp]: "dg_stage (forget_guesses q d) = dg_stage d"
  by (simp add: forget_guesses_def)

lemma mirror_frame_kept:
  assumes "mirror_frame su f d = (r, d')" "sid \<noteq> fr_session f"
  shows "seen sid (dg_stage d') = seen sid (dg_stage d)"
  using assms unfolding mirror_frame_def Let_def
  by (auto split: prod.splits sum.splits if_splits dest!: draft_handle_keeps catch_up_draft_kept[where sid = sid]
      flush_draft_kept[where sid = sid])

lemma follow_draft_kept:
  "sid \<noteq> fr_session f \<Longrightarrow> seen sid (dg_stage (follow_draft su f d)) = seen sid (dg_stage d)"
  by (auto simp: follow_draft_def Let_def split: prod.splits sum.splits dest!: mirror_frame_kept[where sid = sid])

lemma handle_emitting_kept:
  assumes "handle_emitting su so chunk c f s w = Some (r, emitted, s', w')"
  shows "sid \<noteq> fr_session f \<Longrightarrow> seen sid s' = seen sid s" "r = Inr out \<Longrightarrow> fr_session out = fr_session f"
  using assms unfolding handle_emitting_def Let_def
  by (auto split: prod.splits option.splits elim!: map_SomeE simp del: map_option_eq_Some
      dest: handle_kept[where sid = sid] handle_session)

lemma send_chunks_returns: "\<exists>n e w'. send_chunks so c fs w = Some (n, e, w')"
proof (induction fs arbitrary: w)
  case (Cons f fs)
  obtain r w1 where "deliver so c f w = Some (r, w1)" using deliver_returns by blast
  with Cons[of w1] show ?case by (cases r) auto
qed simp

lemma handle_emitting_returns: "\<exists>r emitted s' w'. handle_emitting su so chunk c f s w = Some (r, emitted, s', w')"
proof -
  define run where "run = (\<lambda>sink. handle (su_target su) (su_report su) chunk (Some sink) f s)"
  obtain r emitted s1 where first: "run (u32_max, []) = (r, emitted, s1)" by (metis prod_cases3)
  obtain n e w1 where "send_chunks so c emitted w = Some (n, e, w1)" using send_chunks_returns by blast
  with first show ?thesis
    by (cases e; cases "run (n, the e)") (auto simp: handle_emitting_def run_def)
qed

lemma run_control_frame_kept:
  assumes "run_control_frame su so chunk f k w = Some (r, emitted, k', w')"
  shows "sid \<noteq> fr_session f \<Longrightarrow> untouched sid k k'" "r = Inr out \<Longrightarrow> fr_session out = fr_session f"
    "wr_links k' = wr_links k"
  using assms unfolding run_control_frame_def Let_def
  by (auto simp: untouched_def follow_draft_kept split: option.splits prod.splits sum.splits
      elim!: map_SomeE simp del: map_option_eq_Some dest: handle_emitting_kept)

lemma run_control_frame_returns:
  "\<exists>r emitted k' w'. run_control_frame su so chunk f k w = Some (r, emitted, k', w')"
proof (cases "wr_held k")
  case (Some d)
  obtain r emitted s' w' where "handle_emitting su so chunk (rl_next (wr_links k)) f (dg_stage d) w = Some (r, emitted, s', w')"
    using handle_emitting_returns by blast
  with Some show ?thesis by (cases r) (auto simp: run_control_frame_def Let_def)
qed (simp add: run_control_frame_def)

lemma is_last_untouched: "untouched sid k k' \<Longrightarrow> is_last k' = is_last k"
  by (auto simp: untouched_def is_last_def seen_in_def seen_def split: option.splits)

lemma bind_session_kept:
  assumes "bind_session so os routed f bound k w = Some (r, bound', k', w')"
  shows "untouched sid k k'" "r = Inr f' \<Longrightarrow> fr_session f' = fr_session f"
  using assms unfolding bind_session_def Let_def
  by (auto simp: untouched_def split: if_splits option.splits sum.splits elim!: map_SomeE simp del: map_option_eq_Some)

lemma stream_turn_kept:
  assumes "stream_turn su so client f bound k w = Some (True, bound', sent, k', w')" "sid \<noteq> fr_session f"
  shows "untouched sid k k'"
proof -
  obtain r ss where control: "stream_control f (wr_streams k) = (r, ss)" by fastforce
  with assms(1) have "k' = k\<lparr>wr_streams := ss\<rparr>"
    by (auto simp: stream_turn_def stop_serving_def Let_def split: if_splits elim!: bind_SomeE)
  with promised_control[OF control assms(2)] show ?thesis by (simp add: untouched_def)
qed

lemma reply_turn_kept:
  assumes "reply_turn su so client f r bound emitted k w = Some (True, bound', sent, k', w')" "sid \<noteq> fr_session f"
  shows "untouched sid k k'"
  using assms unfolding reply_turn_def stop_serving_def Let_def
  by (auto simp: untouched_def split: if_splits sum.splits elim!: bind_SomeE)

lemma answer_turn_kept:
  assumes "answer_turn su so os client f r bound emitted k w = Some (True, bound', sent, k', w')"
    "\<And>out. r = Inr out \<Longrightarrow> fr_session out = fr_session f" "sid \<noteq> fr_session f"
  shows "untouched sid k k'"
proof (cases "\<exists>out. r = Inr out \<and> is_last k \<and> fr_type out = T_result \<and> owns_stream out (wr_streams k)")
  case True
  then obtain out where out: "r = Inr out" "is_last k" "fr_type out = T_result" "owns_stream out (wr_streams k)" by blast
  with assms(1) obtain l ss held where
    loop: "continue_loop so os (Some client) (local_decode su) [out] (wr_links k) (wr_streams k) (wr_held k) w
        = Some (Inr (), sent, l, ss, held, w')" and k': "k' = k\<lparr>wr_links := l, wr_streams := ss, wr_held := held\<rparr>"
    by (auto simp: answer_turn_def stop_serving_def Let_def split: if_splits elim!: bind_SomeE)
  from continue_loop_kept[OF loop, where P = "seen_in sid" and sid = sid] local_decode_kept assms(2)[OF out(1)] assms(3) k'
  show ?thesis by (force simp: untouched_def)
next
  case False
  with assms(1) have "reply_turn su so client f r bound emitted k w = Some (True, bound', sent, k', w')"
    by (cases r) (auto simp: answer_turn_def)
  with assms(3) reply_turn_kept show ?thesis by blast
qed

lemma serve_turn_kept:
  assumes "serve_turn su so os chunk routed client bound k w = Some (True, bound', sent, k', w')"
    "receive_frame so client w = Some (Inr input, w1)" "sid \<noteq> fr_session input"
  shows "untouched sid k k'"
proof (cases "fr_type input = T_stream_prompt \<or> fr_type input = T_cancel_request")
  case True
  with assms stream_turn_kept show ?thesis by (auto simp: serve_turn_def)
next
  case False
  with assms(1,2) obtain r b1 k1 w2 where bind: "bind_session so os routed input bound k w1 = Some (r, b1, k1, w2)"
    by (auto simp: serve_turn_def elim!: bind_SomeE)
  note bound = bind_session_kept(1)[OF bind, of sid]
  show ?thesis
  proof (cases r)
    case (Inl e)
    with False assms(1,2) bind have "answer_turn su so os client input (Inl e) b1 [] k1 w2 = Some (True, bound', sent, k', w')"
      by (simp add: serve_turn_def)
    from answer_turn_kept[OF this _ assms(3)] bound show ?thesis by (auto intro: untouched_trans)
  next
    case (Inr f)
    obtain q emitted k2 w3 where run: "run_control_frame su so chunk f k1 w2 = Some (q, emitted, k2, w3)"
      using run_control_frame_returns by blast
    note same = bind_session_kept(2)[OF bind Inr]
    from False assms(1,2) bind Inr run have "answer_turn su so os client f q b1 emitted k2 w3 = Some (True, bound', sent, k', w')"
      by (simp add: serve_turn_def)
    from answer_turn_kept[OF this] run_control_frame_kept(2)[OF run] same assms(3)
    have "untouched sid k2 k'" by auto
    with run_control_frame_kept(1)[OF run, of sid] same assms(3) bound show ?thesis
      by (auto intro: untouched_trans)
  qed
qed

section \<open>What one session does to the others\<close>

text \<open>Three frames for the worker with two sessions.\<close>

definition budget_frame :: frame where
  "budget_frame = fresh_frame\<lparr>fr_type := T_stream_prompt, fr_session := 7, fr_request := 1, fr_rows := 5\<rparr>"

definition refused_frame :: frame where
  "refused_frame = fresh_frame\<lparr>fr_type := T_reset_session, fr_session := 5\<rparr>"

definition hidden_frame :: frame where
  "hidden_frame = fresh_frame\<lparr>fr_type := T_activation, fr_session := 7, fr_request := 1, fr_rows := 1\<rparr>"

lemma scripted_frame:
  "length (fr_payload f) \<le> max_payload \<Longrightarrow> receive_frame scripted c (script (\<lambda>_. [f]))
     = Some (Inr f, (script (\<lambda>_. [f]))\<lparr>io_world := (\<lambda>_. [f])(c := [])\<rparr>)"
  by (simp add: receive_frame_def scripted_def script_def recv_one_frame)

lemma budget_turn:
  "\<exists>k' w'. serve_turn counting_setup scripted demo_os 0 True 8 [] shared_worker (script (\<lambda>_. [budget_frame]))
      = Some (True, [], [], k', w')
    \<and> map_of (wr_streams k') 7 = Some \<lparr>sm_request = 1, sm_remaining = 5, sm_cancelled = False\<rparr>"
proof -
  have fields: "fr_type budget_frame = T_stream_prompt" "fr_session budget_frame = 7" "fr_request budget_frame = 1"
    "fr_rows budget_frame = 5" "fr_payload budget_frame = []"
    by (simp_all add: budget_frame_def fresh_frame_def)
  have "length (fr_payload (ack_frame budget_frame)) \<le> 100000" by (simp add: ack_frame_def fresh_frame_def)
  with fields show ?thesis
    by (simp add: serve_turn_def scripted_frame stream_turn_def stream_control_def shared_worker_def Let_def update_conv')
qed



text \<open>
  C21. A turn of the ring thread after which the connection goes on changes only the session of its
  frame and the sessions whose frames joined its batch, and every reply that is queued for a later
  turn is a reply to the session of its frame.
\<close>

theorem ring_turn_isolates:
  assumes "paired waiting" "ring_turn su batching so os c peer waiting k w = Some (True, sent, waiting', k', w')"
    "ring_input so os c peer waiting k w = Some input"
  shows "paired waiting' \<and> (\<forall>sid. sid \<noteq> fr_session input \<longrightarrow> sid \<notin> sessions_of waiting' \<longrightarrow>
      seen_in sid (wr_held k') = seen_in sid (wr_held k)
      \<and> promised sid (wr_streams k') = promised sid (wr_streams k))"
  using ring_turn_kept[OF assms] by (simp add: untouched_def)

theorem ring_turn_isolates_witness:
  "\<exists>k' w'. ring_turn counting_setup True scripted demo_os 4 [] [(hidden_frame, hidden_frame)] shared_worker
      (script (\<lambda>_. [])) = Some (True, [hidden_frame], [], k', w')
    \<and> seen_in 9 (wr_held k') = Some (seen 9 shared_stage) \<and> promised 9 (wr_streams k') = Some (1, 6)"
proof -
  have fields: "fr_type hidden_frame = T_activation" "fr_session hidden_frame = 7" "fr_payload hidden_frame = []"
    by (simp_all add: hidden_frame_def fresh_frame_def)
  have turn: "ring_turn counting_setup True scripted demo_os 4 [] [(hidden_frame, hidden_frame)] shared_worker
      (script (\<lambda>_. [])) = Some (True, [hidden_frame], [], shared_worker, script (\<lambda>_. []))"
    using fields by (simp add: ring_turn_def pass_on_def forward_def deliver_def shared_worker_def demo_links_def)
  have "ring_input scripted demo_os 4 [] [(hidden_frame, hidden_frame)] shared_worker (script (\<lambda>_. [])) = Some hidden_frame"
    by (simp add: ring_input_def)
  with ring_turn_isolates[OF _ turn] fields
  have "seen_in 9 (wr_held shared_worker) = Some (seen 9 shared_stage) \<and> promised 9 (wr_streams shared_worker) = Some (1, 6)"
    by (simp add: shared_worker_def promised_def paired_def)
  with turn show ?thesis by blast
qed


lemma refused_run:
  "run_control_frame counting_setup scripted 0 refused_frame shared_worker w
    = Some (Inl ''unknown session ID'', [], shared_worker, w)"
proof -
  have fields: "fr_type refused_frame = T_reset_session" "fr_session refused_frame = 5"
    "control_ok refused_frame False" "require_worker_session refused_frame shared_stage = Inl ''unknown session ID''"
    by (simp_all add: refused_frame_def fresh_frame_def control_ok_def empty_control_def require_worker_session_def
        shared_stage_def session_of_def)
  then show ?thesis
    by (simp add: run_control_frame_def handle_emitting_def Let_def handle_def quiet_def stage_reset_def
        shared_worker_def demo_round_def)
qed


end
