(* ===== verification/Vocab.thy ===== *)
theory Vocab
  imports Prelude
begin

text \<open>
  Whether a draft model may guess for a main model (\<^verbatim>\<open>vocab_compat.hpp\<close>): tokens of one are fed
  to the other, so both tables, the special tokens and the tokens of a fixed corpus must agree. A
  vocabulary is what the model library tells about it; a missing entry is reported as a mismatch.
\<close>

record vocab =
  vo_type :: int
  vo_n_tokens :: int
  vo_add_bos :: bool
  vo_add_eos :: bool
  vo_add_sep :: bool
  vo_special :: "string \<Rightarrow> int"
  vo_text :: "nat \<Rightarrow> string option"
  vo_score :: "nat \<Rightarrow> u32"
  vo_attr :: "nat \<Rightarrow> u32"
  vo_is_eog :: "nat \<Rightarrow> bool"
  vo_is_control :: "nat \<Rightarrow> bool"
  vo_tokenize :: "string \<Rightarrow> nat \<Rightarrow> bool \<Rightarrow> int \<times> int list"

record vocab_model =
  vm_meta :: "string \<Rightarrow> int \<times> string"
  vm_vocab :: "vocab option"

section \<open>Observations\<close>

definition metadata :: "vocab_model \<Rightarrow> string \<Rightarrow> string" where
  "metadata m key =
     (case vm_meta m key of (n, buffer) \<Rightarrow>
        if n < 0 then ''<none>''
        else if n \<ge> 256 then ''<long>'' @ dec_int n
        else take (nat n) buffer)"

text \<open>The first call asks for the count; the second fills a buffer of that many tokens.\<close>

definition vocab_tokenize :: "vocab \<Rightarrow> string \<Rightarrow> bool \<Rightarrow> bool \<times> int list" where
  "vocab_tokenize v txt special =
     (let wanted = fst (vo_tokenize v txt 0 special) in
      if wanted = - (2 ^ 31) then (False, [])
      else
        let n = nat \<bar>wanted\<bar>; (got, tokens) = vo_tokenize v txt n special;
            buffer = take n (tokens @ replicate n 0)
        in if got < 0 then (False, buffer) else (True, take (nat got) (buffer @ replicate (nat got) 0)))"

definition corpus :: "string list" where
  "corpus = [
     [],
     ''Hello, world!'',
     ''  leading and trailing spaces  '',
     ''tabs'' @ [CHR 0x09] @ ''and'' @ [CHR 0x0A] @ ''newlines'' @ [CHR 0x0D, CHR 0x0A, CHR 0x0D, CHR 0x0A]
       @ ''and    runs of spaces'',
     ''The quick brown fox jumps over the lazy dog. 0123456789 3.14159 1,000,000'',
     ''def f(x):'' @ [CHR 0x0A] @ ''    return x ** 2  # squares'' @ [CHR 0x0A, CHR 0x09] @ ''if x: pass'',
     ''{'' @ [CHR 0x22] @ ''key'' @ [CHR 0x22] @ '': [1, 2, 3], '' @ [CHR 0x22] @ ''nested'' @ [CHR 0x22]
       @ '': {'' @ [CHR 0x22] @ ''a'' @ [CHR 0x22] @ '': null}} <html><body>&amp;</body></html>'',
     ''Caf'' @ [CHR 0xC3, CHR 0xA9] @ '' na'' @ [CHR 0xC3, CHR 0xAF] @ ''ve '' @ [CHR 0xE2, CHR 0x80, CHR 0x9C]
       @ ''quotes'' @ [CHR 0xE2, CHR 0x80, CHR 0x9D] @ '' '' @ [CHR 0xE2, CHR 0x82, CHR 0xAC] @ '' 5 ''
       @ [CHR 0xE2, CHR 0x80, CHR 0x94] @ '' dash'',
     [CHR 0xE4, CHR 0xBD, CHR 0xA0, CHR 0xE5, CHR 0xA5, CHR 0xBD, CHR 0xEF, CHR 0xBC, CHR 0x8C, CHR 0xE4,
      CHR 0xB8, CHR 0x96, CHR 0xE7, CHR 0x95, CHR 0x8C, CHR 0xE3, CHR 0x80, CHR 0x82] @ '' ''
       @ [CHR 0xD0, CHR 0x9F, CHR 0xD1, CHR 0x80, CHR 0xD0, CHR 0xB8, CHR 0xD0, CHR 0xB2, CHR 0xD0, CHR 0xB5,
          CHR 0xD1, CHR 0x82] @ '' ''
       @ [CHR 0xD9, CHR 0x85, CHR 0xD8, CHR 0xB1, CHR 0xD8, CHR 0xAD, CHR 0xD8, CHR 0xA8, CHR 0xD8, CHR 0xA7] @ '' ''
       @ [CHR 0xE3, CHR 0x81, CHR 0x93, CHR 0xE3, CHR 0x82, CHR 0x93, CHR 0xE3, CHR 0x81, CHR 0xAB, CHR 0xE3,
          CHR 0x81, CHR 0xA1, CHR 0xE3, CHR 0x81, CHR 0xAF],
     ''emoji '' @ [CHR 0xF0, CHR 0x9F, CHR 0x98, CHR 0x80, CHR 0xF0, CHR 0x9F, CHR 0x91, CHR 0x8D, CHR 0xF0,
       CHR 0x9F, CHR 0x8F, CHR 0xBD] @ '' end '' @ [CHR 0xF0, CHR 0x9F, CHR 0xA6, CHR 0x84],
     ''don'' @ [CHR 0x27] @ ''t we'' @ [CHR 0x27] @ ''ve I'' @ [CHR 0x27] @ ''m you'' @ [CHR 0x27] @ ''ll they''
       @ [CHR 0x27] @ ''re it'' @ [CHR 0x27] @ ''s O'' @ [CHR 0x27] @ ''Neill'',
     ''<|im_start|>system'' @ [CHR 0x0A] @ ''You are a helpful assistant.<|im_end|>'' @ [CHR 0x0A]
       @ ''<|im_start|>user'' @ [CHR 0x0A] @ ''Hi<|im_end|>'' @ [CHR 0x0A] @ ''<|im_start|>assistant'' @ [CHR 0x0A],
     ''<|endoftext|><s></s><unk><pad>[INST] [/INST] <|begin_of_text|><|eot_id|>'',
     replicate 80 (CHR ''a''),
     ''https://example.com/path?query=1&x=y#frag user@example.org C:'' @ [CHR 0x5C] @ ''Users'' @ [CHR 0x5C]
       @ ''Test'' @ [CHR 0x5C] @ ''file.txt'',
     [CHR 0xFF, CHR 0xFE] @ '' broken '' @ [CHR 0xC3] @ '' utf8'']"

section \<open>The comparison\<close>

definition special_tokens :: "string list" where
  "special_tokens = [''bos'', ''eos'', ''eot'', ''sep'', ''pad'', ''mask'']"

definition metadata_keys :: "string list" where
  "metadata_keys = [''tokenizer.ggml.model'', ''tokenizer.ggml.pre'']"

definition corpus_cases :: "(string \<times> bool) list" where
  "corpus_cases = concat (map (\<lambda>txt. [(txt, True), (txt, False)]) corpus)"

text \<open>What to report of one token.\<close>

definition token_problem :: "vocab \<Rightarrow> vocab \<Rightarrow> nat \<Rightarrow> string option" where
  "token_problem a b i =
     (if vo_text a i = None \<or> vo_text b i = None \<or> vo_text a i \<noteq> vo_text b i
      then Some (''token '' @ dec i @ '' text differs'')
      else if vo_score a i \<noteq> vo_score b i \<or> vo_attr a i \<noteq> vo_attr b i \<or> vo_is_eog a i \<noteq> vo_is_eog b i
        \<or> vo_is_control a i \<noteq> vo_is_control b i
      then Some (''token '' @ dec i @ '' attributes differ'')
      else None)"

fun first_report :: "('a \<Rightarrow> string option) \<Rightarrow> 'a list \<Rightarrow> string option" where
  "first_report f [] = None"
| "first_report f (x # xs) = (case f x of Some e \<Rightarrow> Some e | None \<Rightarrow> first_report f xs)"

definition corpus_problem :: "vocab \<Rightarrow> vocab \<Rightarrow> string \<times> bool \<Rightarrow> string option" where
  "corpus_problem a b = (\<lambda>(txt, special).
     if vocab_tokenize a txt special \<noteq> vocab_tokenize b txt special
     then Some (''tokenization differs on '' @ [CHR 0x22] @ take 24 txt @ [CHR 0x22]) else None)"

definition metadata_problem :: "vocab_model \<Rightarrow> vocab_model \<Rightarrow> string \<Rightarrow> string option" where
  "metadata_problem main draft key =
     (if metadata main key \<noteq> metadata draft key then Some (key @ '' differs'') else None)"

text \<open>\<^verbatim>\<open>vocabularies_match\<close>: \<^const>\<open>None\<close> for a match, else the first difference.\<close>

definition vocabularies_match :: "vocab_model option \<Rightarrow> vocab_model option \<Rightarrow> string option" where
  "vocabularies_match main draft =
     (case (main, draft) of
        (Some m, Some d) \<Rightarrow>
          (case (vm_vocab m, vm_vocab d) of
             (Some a, Some b) \<Rightarrow>
               if vo_type a \<noteq> vo_type b then Some ''tokenizer type differs''
               else if vo_n_tokens a \<le> 0 \<or> vo_n_tokens a \<noteq> vo_n_tokens b then Some ''vocabulary size differs''
               else (case first_report (metadata_problem m d) metadata_keys of
                 Some e \<Rightarrow> Some e
               | None \<Rightarrow>
                   if vo_add_bos a \<noteq> vo_add_bos b \<or> vo_add_eos a \<noteq> vo_add_eos b \<or> vo_add_sep a \<noteq> vo_add_sep b
                   then Some ''BOS/EOS/SEP insertion policy differs''
                   else if \<exists>name \<in> set special_tokens. vo_special a name \<noteq> vo_special b name
                   then Some ''special token ids differ''
                   else (case first_report (token_problem a b) [0..<nat (vo_n_tokens a)] of
                     Some e \<Rightarrow> Some e
                   | None \<Rightarrow> first_report (corpus_problem a b) corpus_cases))
           | _ \<Rightarrow> Some ''vocabulary missing'')
      | _ \<Rightarrow> Some ''model missing'')"

section \<open>Lemmas\<close>

lemma first_report_None: "first_report f xs = None \<longleftrightarrow> (\<forall>x \<in> set xs. f x = None)"
  by (induction xs) (auto split: option.splits)

text \<open>What a match establishes of two vocabularies.\<close>

definition same_policy :: "vocab \<Rightarrow> vocab \<Rightarrow> bool" where
  "same_policy a b \<longleftrightarrow> vo_type a = vo_type b \<and> vo_add_bos a = vo_add_bos b \<and> vo_add_eos a = vo_add_eos b
     \<and> vo_add_sep a = vo_add_sep b \<and> (\<forall>name \<in> set special_tokens. vo_special a name = vo_special b name)"

definition same_table :: "vocab \<Rightarrow> vocab \<Rightarrow> bool" where
  "same_table a b \<longleftrightarrow> vo_n_tokens a > 0 \<and> vo_n_tokens a = vo_n_tokens b
     \<and> (\<forall>i < nat (vo_n_tokens a). vo_text a i \<noteq> None \<and> vo_text a i = vo_text b i \<and> vo_score a i = vo_score b i
          \<and> vo_attr a i = vo_attr b i \<and> vo_is_eog a i = vo_is_eog b i \<and> vo_is_control a i = vo_is_control b i)"

definition same_tokens :: "vocab \<Rightarrow> vocab \<Rightarrow> bool" where
  "same_tokens a b \<longleftrightarrow> (\<forall>txt \<in> set corpus. \<forall>special. vocab_tokenize a txt special = vocab_tokenize b txt special)"

definition interchangeable :: "vocab_model \<Rightarrow> vocab_model \<Rightarrow> bool" where
  "interchangeable m d \<longleftrightarrow> (\<forall>key \<in> set metadata_keys. metadata m key = metadata d key)
     \<and> (\<exists>a b. vm_vocab m = Some a \<and> vm_vocab d = Some b \<and> same_policy a b \<and> same_table a b \<and> same_tokens a b)"

lemma token_problem_None:
  "token_problem a b i = None \<longleftrightarrow> vo_text a i \<noteq> None \<and> vo_text a i = vo_text b i \<and> vo_score a i = vo_score b i
     \<and> vo_attr a i = vo_attr b i \<and> vo_is_eog a i = vo_is_eog b i \<and> vo_is_control a i = vo_is_control b i"
  by (auto simp: token_problem_def)

lemma same_tokens_reported: "first_report (corpus_problem a b) corpus_cases = None \<longleftrightarrow> same_tokens a b"
  by (auto simp: first_report_None corpus_problem_def corpus_cases_def same_tokens_def all_bool_eq)

lemma same_table_reported:
  "same_table a b \<longleftrightarrow> vo_n_tokens a > 0 \<and> vo_n_tokens a = vo_n_tokens b
     \<and> first_report (token_problem a b) [0..<nat (vo_n_tokens a)] = None"
  by (auto simp: first_report_None same_table_def token_problem_None)

lemma metadata_reported:
  "first_report (metadata_problem m d) keys = None \<longleftrightarrow> (\<forall>key \<in> set keys. metadata m key = metadata d key)"
  by (auto simp: first_report_None metadata_problem_def)

text \<open>
  A draft model is used with a main model exactly when both have a vocabulary and these agree on
  everything the check looks at: the tokenizer and its insertion policy, the special tokens, the
  text, score and attributes of every token, and the tokens of every text of the corpus.
\<close>

theorem vocabularies_match_exact:
  "vocabularies_match (Some m) (Some d) = None \<longleftrightarrow> interchangeable m d"
proof (cases "vm_vocab m = None \<or> vm_vocab d = None")
  case True
  then show ?thesis by (cases "vm_vocab m"; cases "vm_vocab d") (simp_all add: vocabularies_match_def interchangeable_def)
next
  case False
  then obtain a b where v: "vm_vocab m = Some a" "vm_vocab d = Some b" by auto
  define early where "early = first_report (metadata_problem m d) metadata_keys"
  define table where "table = first_report (token_problem a b) [0..<nat (vo_n_tokens a)]"
  have "interchangeable m d \<longleftrightarrow> early = None \<and> same_policy a b \<and> same_table a b
      \<and> first_report (corpus_problem a b) corpus_cases = None"
    by (simp add: interchangeable_def v early_def metadata_reported same_tokens_reported)
  moreover have "same_table a b \<longleftrightarrow> \<not> (vo_n_tokens a \<le> 0 \<or> vo_n_tokens a \<noteq> vo_n_tokens b) \<and> table = None"
    by (auto simp: same_table_reported table_def)
  moreover have "same_policy a b \<longleftrightarrow> vo_type a = vo_type b
      \<and> \<not> (vo_add_bos a \<noteq> vo_add_bos b \<or> vo_add_eos a \<noteq> vo_add_eos b \<or> vo_add_sep a \<noteq> vo_add_sep b)
      \<and> \<not> (\<exists>name \<in> set special_tokens. vo_special a name \<noteq> vo_special b name)"
    by (simp only: same_policy_def) blast
  ultimately show ?thesis
    unfolding vocabularies_match_def v prod.case option.case early_def[symmetric] table_def[symmetric]
    by (simp only: split: if_split option.split) simp
qed

lemma same_table_sym: "same_table a b \<Longrightarrow> same_table b a"
  by (auto simp: same_table_def simp del: not_None_eq)

lemma same_policy_sym: "same_policy a b \<Longrightarrow> same_policy b a"
  by (auto simp: same_policy_def)

lemma same_tokens_sym: "same_tokens a b \<Longrightarrow> same_tokens b a"
  by (auto simp: same_tokens_def)

lemma interchangeable_sym: "interchangeable m d \<Longrightarrow> interchangeable d m"
  by (auto simp: interchangeable_def intro: same_policy_sym same_table_sym same_tokens_sym)

lemma interchangeable_trans:
  assumes "interchangeable l m" "interchangeable m d"
  shows "interchangeable l d"
proof -
  obtain a b c where v: "vm_vocab l = Some a" "vm_vocab m = Some b" "vm_vocab d = Some c"
    "same_policy a b" "same_table a b" "same_tokens a b" "same_policy b c" "same_table b c" "same_tokens b c"
    using assms unfolding interchangeable_def by auto
  from v(4,7) have "same_policy a c" by (simp add: same_policy_def)
  moreover from v(5,8) have "same_table a c" by (auto simp: same_table_def simp del: not_None_eq)
  moreover from v(6,9) have "same_tokens a c" by (simp add: same_tokens_def)
  ultimately show ?thesis using v assms by (simp add: interchangeable_def)
qed

end
