(* ===== verification/Serve_Mode.thy ===== *)
theory Serve_Mode
  imports Worker_Turns Formation Manifest Range_Download Vocab
begin

text \<open>
  Serve mode of a worker (\<^verbatim>\<open>engine/stage_worker.cpp\<close>, from \<^verbatim>\<open>ServeContext\<close> on): control
  connections that greet a client, let one client at a time reserve a stage, load it, serve its
  route and give the lease back. The machine is the record \<open>host\<close>: downloads and the disk, the model
  library, the free memory of the GPU, the files of the cache directory, the status file of the
  sidecar and the clocks. The dashboard and log lines are left out.
\<close>

record ('k, 'w) host =
  ho_env :: "'w \<Rightarrow> range_env"
  ho_model :: "u8 list option \<Rightarrow> int \<Rightarrow> int \<Rightarrow> 'w \<Rightarrow> (int \<times> u32 \<times> vocab_model) option"
  ho_context :: "u8 list option \<Rightarrow> int \<Rightarrow> int \<Rightarrow> u64 \<Rightarrow> 'w \<Rightarrow> 'k option"
  ho_free_mib :: "'w \<Rightarrow> u64"
  ho_entries :: "'w \<Rightarrow> (string \<times> bool) list"
  ho_net_status :: "'w \<Rightarrow> string option"
  ho_unix_ms :: "'w \<Rightarrow> int"
  ho_unix_s :: "'w \<Rightarrow> int"
  ho_computing :: "'w \<Rightarrow> bool"
  ho_idle_s :: "'w \<Rightarrow> u32"

record 'k serve_context =
  cx_worker :: "'k worker_state"
  cx_lease :: worker_lease
  cx_catalog :: "(string \<times> manifest \<times> model_index) list"
  cx_hello :: provider_capability
  cx_cache_dir :: string
  cx_prefill_chunk :: nat
  cx_holds_layers :: bool
  cx_vocab :: "vocab_model option"
  cx_draft :: "('k stage \<times> vocab_model) option"
  cx_loaded :: "stage_request option"
  cx_cached_hint :: "stage_request option"
  cx_peers :: "(string \<times> nat) list"
  cx_replica_owner :: bool
  cx_speed :: u64
  cx_speeds :: "speed_record list"
  cx_finished_tokens :: u64
  cx_finished_requests :: u64
  cx_routes_served :: nat
  cx_files :: "string \<Rightarrow> cache_files"

section \<open>What a worker can take\<close>

definition available_mib :: "('k, 'w) host \<Rightarrow> 'w \<Rightarrow> 'k serve_context \<Rightarrow> u64" where
  "available_mib ho w cx =
     (let quota = pc_offered_vram_mib (cx_hello cx); free = ho_free_mib ho w in
      if cx_holds_layers cx then quota else if free = 0 then quota else min quota free)"

text \<open>The most rows the first stage puts into one frame.\<close>

definition largest_rows :: "'k serve_context \<Rightarrow> stage_request \<Rightarrow> u64" where
  "largest_rows cx request =
     (if cx_prefill_chunk cx = 0 then ucast (sr_context request)
      else min (ucast (sr_context request))
             (max (word_of_nat (cx_prefill_chunk cx)) (ucast max_speculative_width)))"

definition reservation_problem ::
    "('k, 'w) host \<Rightarrow> 'w \<Rightarrow> 'k serve_context \<Rightarrow> stage_request \<Rightarrow> string option" where
  "reservation_problem ho w cx request =
     (case map_of (cx_catalog cx) (lowercase (sr_model_sha256 request)) of
        None \<Rightarrow> Some ''unknown_model''
      | Some (_, m) \<Rightarrow>
          let whole_model = (sr_begin request = 0 \<and> sr_end request = sint (mi_layers m)) in
          if sr_end request > sint (mi_layers m) then Some ''invalid_range''
          else if sr_lease_ms request = 0 then Some ''invalid_lease''
          else if sr_context request > pc_max_context (cx_hello cx)
            \<or> sr_sessions request > pc_max_sessions (cx_hello cx) then Some ''limits_exceeded''
          else if \<not> whole_model \<and> sr_begin request = 0
            \<and> largest_rows cx request * ucast (mi_hidden m) * 4 > word_of_nat (max_payload - 8)
          then Some ''context_too_large''
          else if stage_fits m (available_mib ho w cx) (sr_begin request) (sr_end request)
              (sr_context request) (sr_sessions request) = None
          then Some ''insufficient_memory''
          else None)"

section \<open>What a worker greets with\<close>

text \<open>Round trips from the sidecar's status file; a number wraps at 64 bits.\<close>

definition leading_number :: "string \<Rightarrow> u64" where
  "leading_number s = foldl (\<lambda>v c. v * 10 + word_of_nat (digit_val c)) 0 (takeWhile is_digit s)"

definition number_after :: "string \<Rightarrow> string \<Rightarrow> u64 option" where
  "number_after key object =
     (case after_str key object of
        None \<Rightarrow> None
      | Some rest \<Rightarrow> if rest = [] \<or> \<not> is_digit (hd rest) then None else Some (leading_number rest))"

definition quote :: "string \<Rightarrow> string" where
  "quote s = CHR 0x22 # s @ [CHR 0x22]"

definition link_of :: "string \<Rightarrow> peer_link option" where
  "link_of object =
     (case (after_str (quote ''peer'' @ CHR '':'' # [CHR 0x22]) object, number_after (quote ''rtt_ms'' @ '':'') object) of
        (Some rest, Some rtt) \<Rightarrow>
          (case find_char (CHR 0x22) rest of
             None \<Rightarrow> None
           | Some n \<Rightarrow>
               if rtt > 60000 \<or> \<not> valid_peer_id (take n rest) then None
               else Some \<lparr>pl_peer = take n rest, pl_rtt_ms = ucast rtt,
                  pl_relayed = (after_str (quote ''path'' @ '':'' @ quote ''relay'') object \<noteq> None),
                  pl_kib_per_s = 0\<rparr>)
      | _ \<Rightarrow> None)"

function link_objects :: "string \<Rightarrow> peer_link list \<Rightarrow> peer_link list" where
  "link_objects rest links =
     (case find_char (CHR ''{'') rest of
        None \<Rightarrow> links
      | Some i \<Rightarrow>
          if length links \<ge> max_greeting_links then links
          else case find_char (CHR ''}'') (drop i rest) of
                 None \<Rightarrow> links
               | Some j \<Rightarrow>
                   link_objects (drop (Suc i) rest)
                     (case link_of (take j (drop i rest)) of None \<Rightarrow> links | Some l \<Rightarrow> links @ [l]))"
  by pat_completeness auto
termination
  by (relation "measure (\<lambda>(rest, links). length rest)") (auto dest: find_char_less)

definition measured_links :: "('k, 'w) host \<Rightarrow> 'w \<Rightarrow> peer_link list" where
  "measured_links ho w =
     (case ho_net_status ho w of
        None \<Rightarrow> []
      | Some txt \<Rightarrow>
          (case number_after (quote ''updated_unix_ms'' @ '':'') txt of
             None \<Rightarrow> []
           | Some updated \<Rightarrow>
               if ho_unix_ms ho w - sint updated > 10000 then []
               else case after_str (quote ''links'' @ '':['') txt of
                      None \<Rightarrow> []
                    | Some rest \<Rightarrow>
                        (case find_char (CHR '']'') rest of
                           None \<Rightarrow> [] | Some n \<Rightarrow> link_objects (take n rest) [])))"

text \<open>\<^verbatim>\<open>std::stoi\<close>: leading digits after white space and a sign; \<^const>\<open>None\<close> for an exception.\<close>

definition stoi :: "string \<Rightarrow> int option" where
  "stoi s =
     (let s = dropWhile (\<lambda>c. c \<in> set '' '' \<union> {CHR 0x09, CHR 0x0A, CHR 0x0B, CHR 0x0C, CHR 0x0D}) s;
          minus = (s \<noteq> [] \<and> hd s = CHR ''-'');
          ds = takeWhile is_digit (if s \<noteq> [] \<and> (hd s = CHR ''-'' \<or> hd s = CHR ''+'') then tl s else s);
          v = (if minus then - int (digits_val ds) else int (digits_val ds))
      in if ds = [] \<or> v < - (2 ^ 31) \<or> v \<ge> 2 ^ 31 then None else Some v)"

definition cached_entry :: "string \<Rightarrow> string \<Rightarrow> string \<times> bool \<Rightarrow> cached_range option" where
  "cached_entry model_id sha = (\<lambda>(name, complete).
     if \<not> starts_with name (model_id @ ''-'') \<or> \<not> ends_with name ''.gguf'' \<or> \<not> complete then None
     else
       let span = take (length name - length model_id - 1 - 5) (drop (length model_id + 1) name) in
       case find_char (CHR ''-'') span of
         None \<Rightarrow> None
       | Some n \<Rightarrow>
           (case (stoi (take n span), stoi (drop (Suc n) span)) of
              (Some b, Some e) \<Rightarrow>
                if e > b then Some \<lparr>cg_model_sha256 = sha, cg_begin = b, cg_end = e\<rparr> else None
            | _ \<Rightarrow> None))"

definition cached_ranges :: "('k, 'w) host \<Rightarrow> 'w \<Rightarrow> string \<Rightarrow> string \<Rightarrow> cached_range list" where
  "cached_ranges ho w model_id sha = List.map_filter (cached_entry model_id sha) (ho_entries ho w)"

definition greeting_of ::
    "('k, 'w) host \<Rightarrow> int \<Rightarrow> 'w \<Rightarrow> 'k serve_context \<Rightarrow> provider_capability \<times> 'k serve_context" where
  "greeting_of ho now w cx =
     (case state_at now (cx_lease cx) of (st, lease) \<Rightarrow>
        let cx = cx\<lparr>cx_lease := lease\<rparr>; k = cx_worker cx; busy = (st \<noteq> Available);
            links = map (\<lambda>l. l\<lparr>pl_kib_per_s := kib_per_s (wr_bandwidth k) (pl_peer l) (ho_unix_s ho w)\<rparr>)
              (measured_links ho w)
        in ((cx_hello cx)\<lparr>pc_offered_vram_mib := available_mib ho w cx, pc_state := state_name st,
              pc_cached := pc_cached (cx_hello cx)
                @ concat (map (\<lambda>(sha, mf, _). cached_ranges ho w (mf_model_id mf) sha) (cx_catalog cx)),
              pc_speed_us_per_gib := cx_speed cx, pc_speeds := cx_speeds cx,
              pc_idle_s := (if busy \<and> ho_computing ho w then Some 0
                 else if busy \<and> wr_held k \<noteq> None then Some (ho_idle_s ho w) else pc_idle_s (cx_hello cx)),
              pc_open_sessions := (if busy \<and> ho_computing ho w then 1
                 else if busy then case wr_held k of
                   None \<Rightarrow> pc_open_sessions (cx_hello cx)
                 | Some d \<Rightarrow> word_of_nat (length (sg_sessions (dg_stage d)))
                 else pc_open_sessions (cx_hello cx)),
              pc_links := links, pc_replica_owner := cx_replica_owner cx,
              pc_f16_activations := True, pc_fp8_activations := True\<rparr>, cx))"

section \<open>Loading a stage\<close>

text \<open>The constructor of \<^verbatim>\<open>Stage\<close>; the library loads the layers and makes the shared context.\<close>

definition new_stage ::
    "('k, 'w) host \<Rightarrow> 'w \<Rightarrow> u8 list option \<Rightarrow> int \<Rightarrow> int \<Rightarrow> int \<Rightarrow> nat \<Rightarrow> u32 \<Rightarrow> string + 'k stage \<times> vocab_model" where
  "new_stage ho w file b e ctx sessions width =
     (case ho_model ho file b e w of
        None \<Rightarrow> Inl ''model load failed''
      | Some (layers, hidden, vocabulary) \<Rightarrow>
          let pool = (word_of_int ctx :: u64) * word_of_nat sessions in
          if b < 0 \<or> b \<ge> e \<or> e > layers then Inl ''bad stage range''
          else if sessions > u32_max \<or> pool > word_of_nat u32_max
          then Inl ''session context pool is too large''
          else case ho_context ho file b e pool w of
                 None \<Rightarrow> Inl ''shared session context creation failed''
               | Some k \<Rightarrow> Inr (loaded_stage (b = 0) (e = layers) hidden (word_of_int ctx) sessions dt_f32le width k,
                   vocabulary))"

definition stage_path :: "'k serve_context \<Rightarrow> manifest \<Rightarrow> int \<Rightarrow> int \<Rightarrow> string" where
  "stage_path cx mf b e = cx_cache_dir cx @ ''/'' @ mf_model_id mf @ ''-'' @ dec_int b @ ''-'' @ dec_int e @ ''.gguf''"

definition draft_path :: "'k serve_context \<Rightarrow> manifest \<Rightarrow> string" where
  "draft_path cx mf = cx_cache_dir cx @ ''/'' @ mf_model_id mf @ ''-draft.gguf''"

text \<open>The layers of a model in the cache directory, downloaded when they are not there yet.\<close>

definition fetch_layers ::
    "('k, 'w) host \<Rightarrow> 'w \<Rightarrow> manifest \<Rightarrow> string \<Rightarrow> int \<Rightarrow> int \<Rightarrow> 'k serve_context
     \<Rightarrow> (string + u8 list option) \<times> 'k serve_context" where
  "fetch_layers ho w mf path b e cx =
     (case prepare_range_model (ho_env ho w) \<lparr>rq_url = mf_url mf, rq_revision = mf_revision mf,
          rq_full_sha256 = mf_sha256 mf, rq_path = path, rq_stage_start = b, rq_stage_end = e\<rparr> (cx_files cx path) of
        (r, files) \<Rightarrow>
          (case r of Inl msg \<Rightarrow> Inl msg | Inr _ \<Rightarrow> Inr (cf_model files),
           cx\<lparr>cx_files := (cx_files cx)(path := files)\<rparr>))"

definition with_draft :: "'k stage option \<Rightarrow> 'k serve_context \<Rightarrow> 'k serve_context" where
  "with_draft draft cx = cx\<lparr>cx_worker := (cx_worker cx)
     \<lparr>wr_held := map_option (\<lambda>d. d\<lparr>dg_draft := draft\<rparr>) (wr_held (cx_worker cx))\<rparr>\<rparr>"

definition draft_off :: "'k serve_context \<Rightarrow> 'k serve_context" where
  "draft_off cx = with_draft None (cx\<lparr>cx_draft := None\<rparr>)"

datatype draft_choice = No_draft | Same_draft | New_draft manifest model_index

definition draft_reusable :: "'k serve_context \<Rightarrow> stage_request \<Rightarrow> bool" where
  "draft_reusable cx request \<longleftrightarrow> (case (cx_draft cx, cx_loaded cx) of
     (Some (s, _), Some l) \<Rightarrow> lowercase (sr_draft_sha256 l) = lowercase (sr_draft_sha256 request)
        \<and> sg_context_size s = sr_context request \<and> sg_max_sessions s = unat (sr_sessions request)
   | _ \<Rightarrow> False)"

text \<open>Whether a request gets a draft model: every doubt turns it off.\<close>

definition draft_wanted :: "'k serve_context \<Rightarrow> stage_request \<Rightarrow> draft_choice" where
  "draft_wanted cx request =
     (case map_of (cx_catalog cx) (lowercase (sr_draft_sha256 request)) of
        None \<Rightarrow> No_draft
      | Some (mf, dm) \<Rightarrow>
          if sr_draft_sha256 request = [] \<or> sr_begin request \<noteq> 0 then No_draft
          else case map_of (cx_catalog cx) (lowercase (sr_model_sha256 request)) of
                 None \<Rightarrow> No_draft
               | Some (_, m) \<Rightarrow>
                   if mi_architecture m \<noteq> ''qwen2'' \<or> mi_architecture dm \<noteq> ''qwen2'' then No_draft
                   else if wr_held (cx_worker cx) = None
                     \<or> \<not> stage_with_draft_fits m dm (pc_offered_vram_mib (cx_hello cx)) (sr_end request)
                          (sr_context request) (sr_sessions request) then No_draft
                   else if draft_reusable cx request then Same_draft else New_draft mf dm)"

text \<open>The new draft is used only when its vocabulary is the main model's.\<close>

definition take_draft ::
    "('k, 'w) host \<Rightarrow> 'w \<Rightarrow> 'k draft_setup \<Rightarrow> manifest \<Rightarrow> model_index \<Rightarrow> stage_request \<Rightarrow> 'k serve_context
     \<Rightarrow> 'k serve_context" where
  "take_draft ho w su mf dm request cx =
     (case fetch_layers ho w mf (draft_path cx mf) 0 (sint (mi_layers dm)) cx of
        (Inl _, cx) \<Rightarrow> cx
      | (Inr file, cx) \<Rightarrow>
          (case new_stage ho w file 0 (sint (mi_layers dm)) (sint (sr_context request))
              (unat (sr_sessions request)) (su_width su) of
             Inl _ \<Rightarrow> cx
           | Inr (s, vocabulary) \<Rightarrow>
               if vocabularies_match (cx_vocab cx) (Some vocabulary) \<noteq> None then cx
               else with_draft (Some s) (cx\<lparr>cx_draft := Some (s, vocabulary)\<rparr>)))"

text \<open>
  The draft kept from the last route is the object last seen in use; it starts without sessions,
  and a vocabulary that no longer matches turns it off.
\<close>

definition load_draft_model ::
    "('k, 'w) host \<Rightarrow> 'w \<Rightarrow> 'k draft_setup \<Rightarrow> stage_request \<Rightarrow> 'k serve_context \<Rightarrow> 'k serve_context" where
  "load_draft_model ho w su request cx =
     (case draft_wanted cx request of
        No_draft \<Rightarrow> draft_off cx
      | Same_draft \<Rightarrow>
          (case cx_draft cx of
             None \<Rightarrow> cx
           | Some (s, vocabulary) \<Rightarrow>
               if vocabularies_match (cx_vocab cx) (Some vocabulary) \<noteq> None then draft_off cx
               else
                 let s = coordinator_disconnected (su_draft su) s; k = cx_worker cx in
                 with_draft (Some s) (cx\<lparr>cx_draft := Some (s, vocabulary), cx_worker := k\<lparr>wr_held :=
                   map_option (\<lambda>d. d\<lparr>dg_guessed := []\<rparr>) (wr_held k)\<rparr>\<rparr>))
      | New_draft mf dm \<Rightarrow> take_draft ho w su mf dm request (draft_off cx))"

definition set_wire :: "dtype \<Rightarrow> 'k drafting \<Rightarrow> 'k drafting" where
  "set_wire t d = d\<lparr>dg_stage := (dg_stage d)\<lparr>sg_wire := t\<rparr>\<rparr>"

definition stage_reusable :: "'k serve_context \<Rightarrow> stage_request \<Rightarrow> bool" where
  "stage_reusable cx request \<longleftrightarrow> wr_held (cx_worker cx) \<noteq> None \<and> (case cx_loaded cx of
     None \<Rightarrow> False
   | Some l \<Rightarrow> lowercase (sr_model_sha256 l) = lowercase (sr_model_sha256 request) \<and> sr_begin l = sr_begin request
       \<and> sr_end l = sr_end request \<and> sr_context l = sr_context request \<and> sr_sessions l = sr_sessions request)"

definition unload_stage :: "'k serve_context \<Rightarrow> 'k serve_context" where
  "unload_stage cx =
     (let cx = (case wr_held (cx_worker cx) of
            None \<Rightarrow> cx
          | Some d \<Rightarrow> cx\<lparr>cx_finished_tokens := cx_finished_tokens cx + sg_tokens_processed (dg_stage d),
              cx_finished_requests := cx_finished_requests cx + sg_requests_served (dg_stage d)\<rparr>)
      in cx\<lparr>cx_worker := (cx_worker cx)\<lparr>wr_held := None\<rparr>, cx_holds_layers := False, cx_loaded := None\<rparr>)"

definition load_assigned_stage ::
    "('k, 'w) host \<Rightarrow> 'w \<Rightarrow> 'k draft_setup \<Rightarrow> stage_request \<Rightarrow> 'k serve_context
     \<Rightarrow> (string + unit) \<times> 'k serve_context" where
  "load_assigned_stage ho w su request cx =
     (if stage_reusable cx request then
        let k = cx_worker cx;
            cx = cx\<lparr>cx_worker := k\<lparr>wr_held := map_option (set_wire (sr_activations request)) (wr_held k)\<rparr>\<rparr>
        in (Inr (), (load_draft_model ho w su request cx)\<lparr>cx_loaded := Some request\<rparr>)
      else
        let cx = unload_stage cx in
        case map_of (cx_catalog cx) (lowercase (sr_model_sha256 request)) of
          None \<Rightarrow> (Inl ''unordered_map::at'', cx)
        | Some (mf, m) \<Rightarrow>
            (case fetch_layers ho w mf (stage_path cx mf (sr_begin request) (sr_end request))
                (sr_begin request) (sr_end request) cx of
               (Inl e, cx) \<Rightarrow> (Inl (''range-backed model: '' @ e), cx)
             | (Inr file, cx) \<Rightarrow>
                 (case new_stage ho w file (sr_begin request) (sr_end request) (sint (sr_context request))
                     (unat (sr_sessions request)) (su_width su) of
                    Inl e \<Rightarrow> (Inl e, cx)
                  | Inr (s, vocabulary) \<Rightarrow>
                      let d = set_wire (sr_activations request) \<lparr>dg_stage = s, dg_draft = None, dg_guessed = []\<rparr>;
                          cx = cx\<lparr>cx_worker := (cx_worker cx)\<lparr>wr_held := Some d\<rparr>, cx_holds_layers := True,
                            cx_vocab := Some vocabulary\<rparr>
                      in (Inr (), (load_draft_model ho w su request cx)
                           \<lparr>cx_loaded := Some request, cx_cached_hint := Some request\<rparr>))))"

section \<open>Control connections\<close>

text \<open>
  A connection first talks about a reservation, then loads the stage it was assigned, then serves
  the route. It keeps the route it holds and whether it served it.
\<close>

datatype conn_phase = Talking | Fetching frame stage_request | Routed

record conn =
  cn_peer :: string
  cn_held :: string
  cn_phase :: conn_phase
  cn_served :: bool

definition per_peer_connections :: nat where
  "per_peer_connections = 4"

definition peer_count :: "string \<Rightarrow> 'k serve_context \<Rightarrow> nat" where
  "peer_count peer cx = (case map_of (cx_peers cx) peer of None \<Rightarrow> 0 | Some n \<Rightarrow> n)"

definition admit_peer :: "string \<Rightarrow> 'k serve_context \<Rightarrow> 'k serve_context option" where
  "admit_peer peer cx =
     (if peer \<noteq> [] \<and> peer_count peer cx \<ge> per_peer_connections then None
      else Some (cx\<lparr>cx_peers := AList.update peer (peer_count peer cx + 1) (cx_peers cx)\<rparr>))"

definition leave_peer :: "string \<Rightarrow> 'k serve_context \<Rightarrow> 'k serve_context" where
  "leave_peer peer cx = cx\<lparr>cx_peers :=
     (if peer_count peer cx \<le> 1 then AList.delete peer (cx_peers cx)
      else AList.update peer (peer_count peer cx - 1) (cx_peers cx))\<rparr>"

definition end_connection :: "conn \<Rightarrow> 'k serve_context \<Rightarrow> 'k serve_context" where
  "end_connection cn cx = leave_peer (cn_peer cn)
     (if cn_held cn = [] then cx
      else cx\<lparr>cx_lease := snd (release (cn_held cn) (cx_lease cx)),
              cx_routes_served := cx_routes_served cx + (if cn_served cn then 1 else 0)\<rparr>)"

definition lease_ack :: "frame \<Rightarrow> frame" where
  "lease_ack input = fresh_frame\<lparr>fr_type := T_ack, fr_session := fr_session input, fr_request := fr_request input\<rparr>"

text \<open>One frame of the conversation: the reply, whether the connection goes on, and what it holds.\<close>

type_synonym 'k talk = "frame option \<times> bool \<times> conn \<times> 'k serve_context"

definition reserve_frame ::
    "('k, 'w) host \<Rightarrow> int \<Rightarrow> 'w \<Rightarrow> frame \<Rightarrow> conn \<Rightarrow> 'k serve_context \<Rightarrow> 'k talk" where
  "reserve_frame ho now w input cn cx =
     (let refuse = (\<lambda>problem cx. (Some (error_frame input problem), True, cn, cx)) in
      if cn_held cn \<noteq> [] then refuse ''already_reserved'' cx
      else case parse_stage_request (string_of (fr_payload input)) of
        None \<Rightarrow> refuse ''invalid_reservation'' cx
      | Some request \<Rightarrow>
          (case reservation_problem ho w cx request of
             Some problem \<Rightarrow> refuse problem cx
           | None \<Rightarrow>
               (case reserve request now (cx_lease cx) of
                  (False, lease) \<Rightarrow> refuse ''busy'' (cx\<lparr>cx_lease := lease\<rparr>)
                | (True, lease) \<Rightarrow>
                    (Some (lease_ack input), True, cn\<lparr>cn_held := sr_route_id request\<rparr>, cx\<lparr>cx_lease := lease\<rparr>))))"

definition release_frame :: "frame \<Rightarrow> conn \<Rightarrow> 'k serve_context \<Rightarrow> 'k talk" where
  "release_frame input cn cx =
     (if cn_held cn = [] \<or> string_of (fr_payload input) \<noteq> cn_held cn
      then (Some (error_frame input ''route_not_held''), True, cn, cx)
      else (Some (lease_ack input), True, cn\<lparr>cn_held := []\<rparr>,
            cx\<lparr>cx_lease := snd (release (cn_held cn) (cx_lease cx))\<rparr>))"

definition assign_frame :: "int \<Rightarrow> frame \<Rightarrow> conn \<Rightarrow> 'k serve_context \<Rightarrow> 'k talk" where
  "assign_frame now input cn cx =
     (let refuse = (\<lambda>cx. (Some (error_frame input ''reservation_expired_or_mismatched''), False, cn, cx)) in
      if cn_held cn = [] then refuse cx
      else case parse_stage_request (string_of (fr_payload input)) of
        None \<Rightarrow> refuse cx
      | Some request \<Rightarrow>
          if sr_route_id request \<noteq> cn_held cn then refuse cx
          else case begin_loading request now (cx_lease cx) of
                 (False, lease) \<Rightarrow> refuse (cx\<lparr>cx_lease := lease\<rparr>)
               | (True, lease) \<Rightarrow> (None, True, cn\<lparr>cn_phase := Fetching input request\<rparr>, cx\<lparr>cx_lease := lease\<rparr>))"

definition talk_frame ::
    "('k, 'w) host \<Rightarrow> int \<Rightarrow> 'w \<Rightarrow> frame \<Rightarrow> conn \<Rightarrow> 'k serve_context \<Rightarrow> 'k talk" where
  "talk_frame ho now w input cn cx =
     (if fr_type input = T_reserve then reserve_frame ho now w input cn cx
      else if fr_type input = T_release_route then release_frame input cn cx
      else if fr_type input = T_assign_stage then assign_frame now input cn cx
      else (Some (error_frame input ''reserve a stage first''), False, cn, cx))"

type_synonym ('k, 'w) conn_end = "(bool \<times> conn \<times> 'k serve_context \<times> 'w io) option"

definition steady :: "'w sockets \<Rightarrow> 'w io \<Rightarrow> int" where
  "steady so w = uint (so_now so (io_world w))"

definition talk_turn ::
    "('k, 'w) host \<Rightarrow> 'w sockets \<Rightarrow> nat \<Rightarrow> conn \<Rightarrow> 'k serve_context \<Rightarrow> 'w io \<Rightarrow> ('k, 'w) conn_end" where
  "talk_turn ho so client cn cx w =
     Option.bind (receive_frame so client w) (\<lambda>(r, w).
       case r of
         Inl e \<Rightarrow> Some (False, cn, cx, w)
       | Inr input \<Rightarrow>
           (case talk_frame ho (steady so w) (io_world w) input cn cx of (answer, on, cn, cx) \<Rightarrow>
              case answer of
                None \<Rightarrow> Some (on, cn, cx, w)
              | Some f \<Rightarrow> map_option (\<lambda>(sent, w). (on \<and> sent = Inr (), cn, cx, w)) (send_on so client f w)))"

definition stage_ready_frame :: "string \<Rightarrow> frame" where
  "stage_ready_frame route = fresh_frame\<lparr>fr_type := T_stage_ready, fr_payload := bytes_of route\<rparr>"

definition fetch_turn ::
    "('k, 'w) host \<Rightarrow> 'k draft_setup \<Rightarrow> 'w sockets \<Rightarrow> nat \<Rightarrow> frame \<Rightarrow> stage_request \<Rightarrow> conn \<Rightarrow> 'k serve_context
     \<Rightarrow> 'w io \<Rightarrow> ('k, 'w) conn_end" where
  "fetch_turn ho su so client input request cn cx w =
     (case load_assigned_stage ho (io_world w) su request cx of
        (Inl e, cx) \<Rightarrow> map_option (\<lambda>(_, w). (False, cn, cx, w)) (send_on so client (error_frame input e) w)
      | (Inr _, cx) \<Rightarrow>
          let cx = cx\<lparr>cx_lease := snd (serving (cn_held cn) (cx_lease cx))\<rparr> in
          map_option (\<lambda>(sent, w). if sent = Inr () then (True, cn\<lparr>cn_phase := Routed, cn_served := True\<rparr>, cx, w)
               else (False, cn, cx, w))
            (send_on so client (stage_ready_frame (cn_held cn)) w))"

text \<open>The route is served until the client leaves; the draft in use at the end is the one kept.\<close>

definition keep_draft :: "'k serve_context \<Rightarrow> 'k serve_context" where
  "keep_draft cx = (case (wr_held (cx_worker cx), cx_draft cx) of
     (Some d, Some (s, vocabulary)) \<Rightarrow>
       (case dg_draft d of Some s \<Rightarrow> cx\<lparr>cx_draft := Some (s, vocabulary)\<rparr> | None \<Rightarrow> cx)
   | _ \<Rightarrow> cx)"

definition route_turn ::
    "'k draft_setup \<Rightarrow> 'w sockets \<Rightarrow> 'w worker_os \<Rightarrow> nat \<Rightarrow> conn \<Rightarrow> 'k serve_context \<Rightarrow> 'w io \<Rightarrow> ('k, 'w) conn_end" where
  "route_turn su so os client cn cx w =
     map_option (\<lambda>(k, w). (False, cn, keep_draft (cx\<lparr>cx_worker := k\<rparr>), w))
       (serve_control su so os (cx_prefill_chunk cx) True client (cx_worker cx) w)"

definition conn_turn ::
    "('k, 'w) host \<Rightarrow> 'k draft_setup \<Rightarrow> 'w sockets \<Rightarrow> 'w worker_os \<Rightarrow> nat \<Rightarrow> conn \<Rightarrow> 'k serve_context \<Rightarrow> 'w io
     \<Rightarrow> ('k, 'w) conn_end" where
  "conn_turn ho su so os client cn cx w =
     (case cn_phase cn of
        Talking \<Rightarrow> talk_turn ho so client cn cx w
      | Fetching input request \<Rightarrow> fetch_turn ho su so client input request cn cx w
      | Routed \<Rightarrow> route_turn su so os client cn cx w)"

text \<open>A new connection is admitted by its peer and greeted.\<close>

definition open_connection ::
    "('k, 'w) host \<Rightarrow> 'w sockets \<Rightarrow> nat \<Rightarrow> string \<Rightarrow> 'k serve_context \<Rightarrow> 'w io \<Rightarrow> ('k, 'w) conn_end" where
  "open_connection ho so client peer cx w =
     (case admit_peer peer cx of
        None \<Rightarrow> None
      | Some cx \<Rightarrow>
          (case greeting_of ho (steady so w) (io_world w) cx of (hello, cx) \<Rightarrow>
             map_option (\<lambda>(sent, w). (sent = Inr (),
                 \<lparr>cn_peer = peer, cn_held = [], cn_phase = Talking, cn_served = False\<rparr>, cx, w))
               (send_on so client (fresh_frame\<lparr>fr_type := T_provider_available,
                  fr_payload := bytes_of (available_message hello (ho_unix_s ho (io_world w)))\<rparr>) w)))"

text \<open>\<^verbatim>\<open>serve_connection\<close> is the turns of one connection, then its end.\<close>

partial_function (option) connection_turns ::
    "('k, 'w) host \<Rightarrow> 'k draft_setup \<Rightarrow> 'w sockets \<Rightarrow> 'w worker_os \<Rightarrow> nat \<Rightarrow> conn \<Rightarrow> 'k serve_context \<Rightarrow> 'w io
     \<Rightarrow> ('k serve_context \<times> 'w io) option" where
  "connection_turns ho su so os client cn cx w =
     Option.bind (conn_turn ho su so os client cn cx w) (\<lambda>(on, cn, cx, w).
       if on then connection_turns ho su so os client cn cx w else Some (end_connection cn cx, w))"

definition max_connections :: nat where
  "max_connections = 16"

definition serve_connection ::
    "('k, 'w) host \<Rightarrow> 'k draft_setup \<Rightarrow> 'w sockets \<Rightarrow> 'w worker_os \<Rightarrow> nat \<Rightarrow> 'k serve_context \<Rightarrow> 'w io
     \<Rightarrow> ('k serve_context \<times> 'w io) option" where
  "serve_connection ho su so os client cx w =
     Option.bind (if rl_p2p (wr_links (cx_worker cx)) then receive_peer_id so client w else Some (Inr (Some []), w))
       (\<lambda>(r, w). case r of
          Inr (Some peer) \<Rightarrow>
            if admit_peer peer cx = None then Some (cx, w)
            else Option.bind (open_connection ho so client peer cx w) (\<lambda>(on, cn, cx, w).
                   if on then connection_turns ho su so os client cn cx w else Some (end_connection cn cx, w))
        | _ \<Rightarrow> Some (cx, w))"

section \<open>Status and speed\<close>

definition json_member :: "string \<Rightarrow> string \<Rightarrow> string" where
  "json_member key v = '','' @ quote key @ '':'' @ v"

fun comma_joined :: "string list \<Rightarrow> string" where
  "comma_joined [] = []"
| "comma_joined [x] = x"
| "comma_joined (x # y # xs) = x @ '','' @ comma_joined (y # xs)"

definition status_model :: "stage_request option \<Rightarrow> string \<times> manifest \<times> model_index \<Rightarrow> string" where
  "status_model cached = (\<lambda>(sha, _, m).
     ''{'' @ quote ''sha256'' @ '':'' @ quote sha @ json_member ''layers'' (dec_u32 (mi_layers m))
     @ json_member ''hidden'' (dec_u32 (mi_hidden m)) @ json_member ''cached'' (''['' @ (case cached of
         Some c \<Rightarrow> if lowercase (sr_model_sha256 c) = sha
           then ''{'' @ quote ''begin'' @ '':'' @ dec_int (sr_begin c) @ json_member ''end'' (dec_int (sr_end c)) @ ''}'' else []
       | None \<Rightarrow> []) @ '']'') @ ''}'')"

definition status_json :: "int \<Rightarrow> 'k serve_context \<Rightarrow> string \<times> 'k serve_context" where
  "status_json now cx =
     (case state_at now (cx_lease cx) of (st, lease) \<Rightarrow>
      case current now lease of (assignment, lease) \<Rightarrow>
        let hello = cx_hello cx in
        (''{'' @ quote ''protocol_version'' @ '':1'' @ json_member ''worker_id'' (quote (json_escape (pc_id hello)))
         @ json_member ''runtime_abi'' (quote (json_escape (pc_runtime_abi hello)))
         @ json_member ''device'' (quote (json_escape (pc_gpu hello)))
         @ json_member ''offered_memory_mib'' (dec_u64 (pc_offered_vram_mib hello))
         @ json_member ''max_context'' (dec_u32 (pc_max_context hello))
         @ json_member ''max_sessions'' (dec_u32 (pc_max_sessions hello))
         @ json_member ''state'' (quote (state_name st))
         @ json_member ''models'' (''['' @ comma_joined (map (status_model (cx_cached_hint cx)) (cx_catalog cx)) @ '']'')
         @ (case assignment of
              None \<Rightarrow> []
            | Some a \<Rightarrow> json_member ''assignment'' (''{'' @ quote ''route_id'' @ '':'' @ quote (sr_route_id a)
                @ json_member ''model_sha256'' (quote (lowercase (sr_model_sha256 a)))
                @ json_member ''begin'' (dec_int (sr_begin a)) @ json_member ''end'' (dec_int (sr_end a)) @ ''}'')),
         cx\<lparr>cx_lease := lease\<rparr>))"

text \<open>The measured time of a stage's steps, per GiB of its weights.\<close>

definition gib_of :: "u64 \<Rightarrow> double" where
  "gib_of bytes = double_div (double_of_u64 bytes) (Fin 1073741824)"

definition timing_speed :: "double \<Rightarrow> timing \<Rightarrow> double \<Rightarrow> double" where
  "timing_speed per t gib = double_div (double_div (double_div (double_of_u64 (ti_ns t)) (Fin 1000)) per) gib"

definition note_speed ::
    "stage_request \<Rightarrow> double \<Rightarrow> int \<Rightarrow> (phase \<times> u32) \<times> timing \<Rightarrow> speed_record list \<Rightarrow> speed_record list" where
  "note_speed l gib now = (\<lambda>((ph, bucket), t) records.
     let per = (if ph = Decode then double_of_u64 (ucast (ti_samples t)) else double_of_u64 (ti_rows t)) in
     if per = Fin 0 then records
     else observe_speed \<lparr>sk_model_sha256 = lowercase (sr_model_sha256 l), sk_phase = ph,
            sk_context = context_bucket (sr_context l), sk_sessions = bucket\<rparr>
            (timing_speed per t gib) (ti_samples t) now records)"

definition step_speed :: "u64 \<Rightarrow> u64 \<Rightarrow> u64" where
  "step_speed step bytes =
     (case double_div (double_mult (double_div (double_of_u64 step) (Fin 1000)) (Fin 1073741824)) (double_of_u64 bytes) of
        Fin x \<Rightarrow> word_of_int (trunc x) | _ \<Rightarrow> 0)"

text \<open>The order of a \<^verbatim>\<open>std::map\<close> by phase and bucket.\<close>

definition in_slot_order :: "((phase \<times> u32) \<times> timing) list \<Rightarrow> ((phase \<times> u32) \<times> timing) list" where
  "in_slot_order = sort_key (\<lambda>((ph, bucket), _). (if ph = Decode then 0 else 1 :: nat, bucket))"

definition update_speed :: "int \<Rightarrow> 'k serve_context \<Rightarrow> 'k serve_context" where
  "update_speed now cx =
     (case cx_loaded cx of
        None \<Rightarrow> cx
      | Some l \<Rightarrow>
          let k = cx_worker cx;
              (step, timings) = (case wr_held k of None \<Rightarrow> (0, [])
                | Some d \<Rightarrow> (sg_step_ns (dg_stage d), sg_timings (dg_stage d)));
              cx = cx\<lparr>cx_worker := k\<lparr>wr_held := map_option
                (\<lambda>d. d\<lparr>dg_stage := (dg_stage d)\<lparr>sg_timings := []\<rparr>\<rparr>) (wr_held k)\<rparr>\<rparr>
          in case map_of (cx_catalog cx) (lowercase (sr_model_sha256 l)) of
               None \<Rightarrow> cx
             | Some (_, m) \<Rightarrow>
                 let bytes = decode_bytes m (sr_begin l) (sr_end l) in
                 if bytes = 0 then cx
                 else
                   let cx = cx\<lparr>cx_speeds := fold (note_speed l (gib_of bytes) now) (in_slot_order timings) (cx_speeds cx)\<rparr>;
                       speed = step_speed step bytes; known = cx_speed cx
                   in if step = 0 \<or> speed = 0 \<or> (known \<noteq> 0 \<and> speed * 20 > known * 19 \<and> speed * 20 < known * 21)
                      then cx else cx\<lparr>cx_speed := speed\<rparr>)"

section \<open>Lemmas\<close>

lemma with_draft_keeps [simp]:
  "cx_lease (with_draft d cx) = cx_lease cx" "cx_peers (with_draft d cx) = cx_peers cx"
  "cx_lease (draft_off cx) = cx_lease cx" "cx_peers (draft_off cx) = cx_peers cx"
  "cx_lease (unload_stage cx) = cx_lease cx" "cx_peers (unload_stage cx) = cx_peers cx"
  "cx_lease (keep_draft cx) = cx_lease cx" "cx_peers (keep_draft cx) = cx_peers cx"
  by (simp_all add: with_draft_def draft_off_def unload_stage_def keep_draft_def Let_def split: option.split prod.split)

lemma fetch_layers_keeps:
  "fetch_layers ho w mf path b e cx = (r, cx') \<Longrightarrow> cx_lease cx' = cx_lease cx \<and> cx_peers cx' = cx_peers cx"
  by (auto simp: fetch_layers_def split: prod.splits)

lemma load_draft_keeps [simp]:
  "cx_lease (load_draft_model ho w su request cx) = cx_lease cx"
  "cx_peers (load_draft_model ho w su request cx) = cx_peers cx"
  by (auto simp: load_draft_model_def take_draft_def Let_def dest!: fetch_layers_keeps
      split: draft_choice.splits option.splits prod.splits sum.splits)

lemma load_stage_keeps:
  "load_assigned_stage ho w su request cx = (r, cx') \<Longrightarrow> cx_lease cx' = cx_lease cx \<and> cx_peers cx' = cx_peers cx"
  by (auto simp: load_assigned_stage_def Let_def dest!: fetch_layers_keeps
      split: if_splits option.splits prod.splits sum.splits)

section \<open>A worker and its connections\<close>

text \<open>
  Any number of connections in any order: each step is one turn of one connection. The state is the
  worker's context and its open connections.
\<close>

type_synonym 'k node = "'k serve_context \<times> (nat \<times> conn) list"

inductive node_step :: "('k, 'w) host \<Rightarrow> 'k draft_setup \<Rightarrow> 'w sockets \<Rightarrow> 'w worker_os \<Rightarrow> 'k node \<Rightarrow> 'k node \<Rightarrow> bool"
  for ho su so os where
  opened: "length conns < max_connections \<Longrightarrow> map_of conns c = None
    \<Longrightarrow> open_connection ho so c peer cx w = Some (True, cn, cx', w')
    \<Longrightarrow> node_step ho su so os (cx, conns) (cx', (c, cn) # conns)"
| lost: "length conns < max_connections \<Longrightarrow> map_of conns c = None
    \<Longrightarrow> open_connection ho so c peer cx w = Some (False, cn, cx', w')
    \<Longrightarrow> node_step ho su so os (cx, conns) (end_connection cn cx', conns)"
| turned: "map_of conns c = Some cn \<Longrightarrow> conn_turn ho su so os c cn cx w = Some (True, cn', cx', w')
    \<Longrightarrow> node_step ho su so os (cx, conns) (cx', AList.update c cn' conns)"
| ended: "map_of conns c = Some cn \<Longrightarrow> conn_turn ho su so os c cn cx w = Some (False, cn', cx', w')
    \<Longrightarrow> node_step ho su so os (cx, conns) (end_connection cn' cx', AList.delete c conns)"

text \<open>A stage that is loaded or served belongs to an open connection; peers are counted.\<close>

definition leased :: "worker_lease \<Rightarrow> bool" where
  "leased l \<longleftrightarrow> wl_state l \<in> {Loading, Serving}"

definition lease_kept :: "worker_lease \<Rightarrow> (nat \<times> conn) list \<Rightarrow> bool" where
  "lease_kept l conns \<longleftrightarrow> (wl_state l \<noteq> Available \<longrightarrow> sr_route_id (wl_request l) \<noteq> [])
     \<and> (leased l \<longrightarrow> (\<exists>c cn. map_of conns c = Some cn \<and> cn_held cn = sr_route_id (wl_request l)))"

text \<open>What one turn of a connection does to the lease.\<close>

definition lease_move :: "conn \<Rightarrow> worker_lease \<Rightarrow> conn \<Rightarrow> worker_lease \<Rightarrow> bool" where
  "lease_move cn l cn' l' \<longleftrightarrow> cn_peer cn' = cn_peer cn
     \<and> (wl_state l' \<noteq> Available \<longrightarrow>
          (wl_state l \<noteq> Available \<and> wl_request l' = wl_request l
             \<or> \<not> leased l' \<and> sr_route_id (wl_request l') \<noteq> [])
          \<and> (leased l' \<longrightarrow> (leased l \<and> (cn_held cn = sr_route_id (wl_request l') \<longrightarrow> cn_held cn' = cn_held cn)
               \<or> cn_held cn' = sr_route_id (wl_request l'))))"

lemma expire_cases: "expire_locked now l = l \<or> wl_state (expire_locked now l) = Available"
  by (simp add: expire_locked_def)

lemma hex_nonempty: "hex_string s n \<Longrightarrow> 0 < n \<Longrightarrow> s \<noteq> []"
  by (auto simp: hex_string_def)

lemma parsed_route_id: "parse_stage_request txt = Some request \<Longrightarrow> sr_route_id request \<noteq> []"
  by (auto simp: parse_stage_request_def request_ok_def dest!: hex_nonempty split: option.splits if_splits)

lemma lease_move_refl [simp]: "lease_move cn l cn l"
  by (simp add: lease_move_def)

lemma reserve_frame_move:
  assumes "reserve_frame ho now w input cn cx = (answer, on, cn', cx')"
  shows "lease_move cn (cx_lease cx) cn' (cx_lease cx') \<and> cx_peers cx' = cx_peers cx"
  using assms expire_cases[of now "cx_lease cx"]
  by (auto simp: reserve_frame_def Let_def reserve_def lease_move_def leased_def
      dest: parsed_route_id split: if_splits option.splits prod.splits bool.splits)

lemma release_frame_move:
  assumes "release_frame input cn cx = (answer, on, cn', cx')"
  shows "lease_move cn (cx_lease cx) cn' (cx_lease cx') \<and> cx_peers cx' = cx_peers cx"
  using assms by (auto simp: release_frame_def release_def lease_move_def split: if_splits)

lemma assign_frame_move:
  assumes "assign_frame now input cn cx = (answer, on, cn', cx')"
  shows "lease_move cn (cx_lease cx) cn' (cx_lease cx') \<and> cx_peers cx' = cx_peers cx"
  using assms expire_cases[of now "cx_lease cx"]
  by (auto simp: assign_frame_def Let_def begin_loading_def lease_move_def leased_def same_stage_def
      dest: parsed_route_id split: if_splits option.splits prod.splits bool.splits)

lemma talk_frame_move:
  assumes "talk_frame ho now w input cn cx = (answer, on, cn', cx')"
  shows "lease_move cn (cx_lease cx) cn' (cx_lease cx') \<and> cx_peers cx' = cx_peers cx"
  using assms by (auto simp: talk_frame_def split: if_splits dest: reserve_frame_move release_frame_move assign_frame_move)

lemma fetch_turn_move:
  assumes "fetch_turn ho su so client input request cn cx w = Some (on, cn', cx', w')"
  shows "lease_move cn (cx_lease cx) cn' (cx_lease cx') \<and> cx_peers cx' = cx_peers cx"
proof -
  obtain r cx1 where load: "load_assigned_stage ho (io_world w) su request cx = (r, cx1)" by fastforce
  from load_stage_keeps[OF load] have "cx_lease cx1 = cx_lease cx" "cx_peers cx1 = cx_peers cx" by auto
  with assms load show ?thesis
    by (auto simp: fetch_turn_def serving_def lease_move_def leased_def Let_def split: sum.splits if_splits
        elim!: map_SomeE simp del: map_option_eq_Some)
qed

lemma conn_turn_move:
  assumes "conn_turn ho su so os client cn cx w = Some (on, cn', cx', w')"
  shows "lease_move cn (cx_lease cx) cn' (cx_lease cx') \<and> cx_peers cx' = cx_peers cx"
proof (cases "cn_phase cn")
  case Talking
  with assms(1) have turn: "talk_turn ho so client cn cx w = Some (on, cn', cx', w')" by (simp add: conn_turn_def)
  then show ?thesis
    by (auto simp: talk_turn_def split: sum.splits prod.splits option.splits elim!: bind_SomeE map_SomeE
        simp del: map_option_eq_Some dest: talk_frame_move)
next
  case (Fetching input request)
  with assms fetch_turn_move show ?thesis by (simp add: conn_turn_def)
next
  case Routed
  with assms show ?thesis
    by (auto simp: conn_turn_def route_turn_def elim!: map_SomeE simp del: map_option_eq_Some)
qed

lemma lease_kept_turn:
  assumes "lease_kept l conns" "map_of conns c = Some cn" "lease_move cn l cn' l'"
  shows "lease_kept l' (AList.update c cn' conns)"
proof -
  have "\<exists>c0 h. map_of (AList.update c cn' conns) c0 = Some h \<and> cn_held h = sr_route_id (wl_request l')" if "leased l'"
  proof (cases "cn_held cn' = sr_route_id (wl_request l')")
    case True
    then show ?thesis by (auto simp: update_conv' intro!: exI[of _ c])
  next
    case False
    from that have "wl_state l' \<noteq> Available" by (auto simp: leased_def)
    with assms(3) that False have "leased l" and same: "wl_request l' = wl_request l"
      and own: "cn_held cn = sr_route_id (wl_request l') \<longrightarrow> cn_held cn' = cn_held cn" by (auto simp: lease_move_def)
    with assms(1) obtain c0 h where "map_of conns c0 = Some h" "cn_held h = sr_route_id (wl_request l')"
      by (auto simp: lease_kept_def)
    with own False assms(2) show ?thesis by (intro exI[of _ c0] exI[of _ h]) (auto simp: update_conv')
  qed
  with assms(1,3) show ?thesis by (auto simp: lease_kept_def lease_move_def)
qed

lemma lease_kept_holders:
  assumes "lease_kept l conns"
    "\<And>c h. map_of conns c = Some h \<Longrightarrow> cn_held h = sr_route_id (wl_request l) \<Longrightarrow> map_of conns' c = Some h"
  shows "lease_kept l conns'"
  using assms unfolding lease_kept_def by blast

lemma available_kept: "wl_state l = Available \<Longrightarrow> lease_kept l conns"
  by (simp add: lease_kept_def leased_def)

definition given_back :: "conn \<Rightarrow> worker_lease \<Rightarrow> worker_lease" where
  "given_back cn l = (if cn_held cn = [] then l else snd (release (cn_held cn) l))"

lemma lease_kept_end:
  assumes "lease_kept l conns" "map_of conns c = Some cn"
  shows "lease_kept (given_back cn l) (AList.delete c conns)"
proof (cases "wl_state (given_back cn l) = Available")
  case False
  then have same: "given_back cn l = l" and other: "cn_held cn \<noteq> sr_route_id (wl_request l)"
    using assms(1) by (auto simp: given_back_def release_def lease_kept_def split: if_splits)
  show ?thesis unfolding same using assms(2) other by (intro lease_kept_holders[OF assms(1)]) (auto simp: delete_conv')
qed (rule available_kept)

lemma lease_kept_same: "lease_kept l conns \<Longrightarrow> lease_kept (expire_locked now l) conns"
  using expire_cases[of now l] available_kept by fastforce

lemma lease_kept_more:
  assumes "lease_kept l conns" "map_of conns c = None"
  shows "lease_kept l ((c, cn) # conns)"
  using assms(2) by (intro lease_kept_holders[OF assms(1)]) auto

definition peer_load :: "string \<Rightarrow> (nat \<times> conn) list \<Rightarrow> nat" where
  "peer_load peer conns = length (filter (\<lambda>(_, cn). cn_peer cn = peer) conns)"

lemma peer_load_update:
  "map_of conns c = Some cn \<Longrightarrow> cn_peer cn' = cn_peer cn \<Longrightarrow> peer_load p (AList.update c cn' conns) = peer_load p conns"
  by (induction conns) (auto simp: peer_load_def split: if_splits)

lemma peer_load_delete:
  "distinct (map fst conns) \<Longrightarrow> map_of conns c = Some cn
   \<Longrightarrow> peer_load p (AList.delete c conns) + (if cn_peer cn = p then 1 else 0) = peer_load p conns"
proof (induction conns)
  case (Cons x xs)
  obtain k v where x: "x = (k, v)" by fastforce
  have gone: "AList.delete k xs = xs" if "k \<notin> fst ` set xs" using that by (rule delete_id)
  show ?case using Cons x gone by (auto simp: peer_load_def split: if_splits)
qed simp

definition node_ok :: "'k node \<Rightarrow> bool" where
  "node_ok = (\<lambda>(cx, conns). distinct (map fst conns) \<and> length conns \<le> max_connections
     \<and> lease_kept (cx_lease cx) conns
     \<and> (\<forall>peer. peer_count peer cx = peer_load peer conns \<and> (peer \<noteq> [] \<longrightarrow> peer_load peer conns \<le> per_peer_connections)))"

lemma end_connection_fields:
  "cx_lease (end_connection cn cx) = given_back cn (cx_lease cx)"
  "peer_count p (end_connection cn cx) = (if p = cn_peer cn then peer_count p cx - 1 else peer_count p cx)"
  by (auto simp: end_connection_def leave_peer_def given_back_def peer_count_def update_conv' delete_conv'
      split: option.splits)

lemma peer_count_lease [simp]: "peer_count p (cx\<lparr>cx_lease := l\<rparr>) = peer_count p cx"
  by (simp add: peer_count_def)

lemma greeting_keeps:
  "greeting_of ho now w cx = (hello, cx') \<Longrightarrow> cx' = cx\<lparr>cx_lease := expire_locked now (cx_lease cx)\<rparr>"
  by (simp add: greeting_of_def state_at_def Let_def)

lemma admitted_peer:
  assumes "admit_peer peer cx = Some cx'"
  shows "cx_lease cx' = cx_lease cx" "peer_count p cx' = peer_count p cx + (if p = peer then 1 else 0)"
    "peer \<noteq> [] \<Longrightarrow> peer_count peer cx < per_peer_connections"
  using assms by (auto simp: admit_peer_def peer_count_def update_conv' split: if_splits)

lemma opened_fields:
  assumes "open_connection ho so client peer cx w = Some (on, cn, cx', w')"
  shows "cn_peer cn = peer" "cn_held cn = []" "\<exists>now. cx_lease cx' = expire_locked now (cx_lease cx)"
    "peer_count p cx' = peer_count p cx + (if p = peer then 1 else 0)"
    "peer \<noteq> [] \<Longrightarrow> peer_count peer cx < per_peer_connections"
proof -
  obtain cx1 where admitted: "admit_peer peer cx = Some cx1" using assms
    by (auto simp: open_connection_def split: option.splits)
  obtain hello cx2 where greeted: "greeting_of ho (steady so w) (io_world w) cx1 = (hello, cx2)" by fastforce
  from assms admitted greeted have "cx' = cx2" "cn = \<lparr>cn_peer = peer, cn_held = [], cn_phase = Talking, cn_served = False\<rparr>"
    by (auto simp: open_connection_def)
  with greeting_keeps[OF greeted] admitted_peer[OF admitted]
  show "cn_peer cn = peer" "cn_held cn = []" "\<exists>now. cx_lease cx' = expire_locked now (cx_lease cx)"
    "peer_count p cx' = peer_count p cx + (if p = peer then 1 else 0)"
    "peer \<noteq> [] \<Longrightarrow> peer_count peer cx < per_peer_connections" by auto
qed

lemma node_step_ok:
  assumes "node_step ho su so os a b" "node_ok a"
  shows "node_ok b"
  using assms
proof (induction rule: node_step.induct)
  case (opened conns c peer cx w cn cx' w')
  note f = opened_fields[OF opened(3)]
  have load: "peer_load p ((c, cn) # conns) = peer_load p conns + (if p = peer then 1 else 0)" for p
    using f(1) by (simp add: peer_load_def)
  obtain now where now: "cx_lease cx' = expire_locked now (cx_lease cx)" using f(3) by blast
  have "lease_kept (cx_lease cx) conns" using opened(4) by (simp add: node_ok_def)
  then have "lease_kept (cx_lease cx') ((c, cn) # conns)"
    unfolding now by (intro lease_kept_more lease_kept_same opened(2))
  moreover have "c \<notin> fst ` set conns" using opened(2) by (simp add: map_of_eq_None_iff)
  ultimately show ?case
    using opened(1,4) f(4,5) by (auto simp: node_ok_def load le_less_Suc_eq max_connections_def)
next
  case (lost conns c peer cx w cn cx' w')
  note f = opened_fields[OF lost(3)]
  obtain now where now: "cx_lease cx' = expire_locked now (cx_lease cx)" using f(3) by blast
  have "lease_kept (cx_lease cx) conns" using lost(4) by (simp add: node_ok_def)
  then have "lease_kept (given_back cn (cx_lease cx')) conns"
    using f(2) unfolding now by (simp add: given_back_def lease_kept_same)
  with lost(4) f(1,4) show ?case by (auto simp: node_ok_def end_connection_fields)
next
  case (turned conns c cn cx w cn' cx' w')
  note move = conn_turn_move[OF turned(2)]
  then have peer: "cn_peer cn' = cn_peer cn" "peer_count p cx' = peer_count p cx" for p
    by (simp_all add: lease_move_def peer_count_def)
  have "c \<in> fst ` set conns" using turned(1) by (metis domI dom_map_of_conv_image_fst)
  then have "length (AList.update c cn' conns) = length conns" by (metis length_map update_keys in_set_conv_decomp_first list.set_map)
  then show ?case
    using turned(1,3) move peer lease_kept_turn[OF _ turned(1), of "cx_lease cx" cn' "cx_lease cx'"]
    by (auto simp: node_ok_def distinct_update peer_load_update)
next
  case (ended conns c cn cx w cn' cx' w')
  note move = conn_turn_move[OF ended(2)]
  then have peer: "cn_peer cn' = cn_peer cn" "peer_count p cx' = peer_count p cx" for p
    by (simp_all add: lease_move_def peer_count_def)
  have "lease_kept (cx_lease cx') (AList.update c cn' conns)"
    using ended(3) move lease_kept_turn[OF _ ended(1)] by (auto simp: node_ok_def)
  from lease_kept_end[OF this, of c cn'] have "lease_kept (given_back cn' (cx_lease cx')) (AList.delete c conns)"
    by (simp add: update_conv' delete_update_same)
  moreover have "length (AList.delete c conns) \<le> length conns" by (simp add: length_delete_le)
  moreover have "peer_load p (AList.delete c conns) = peer_load p conns - (if p = cn_peer cn then 1 else 0)" for p
    using peer_load_delete[of conns c cn p] ended(1,3) by (auto simp: node_ok_def)
  ultimately show ?case
    using ended(3) peer by (auto simp: node_ok_def end_connection_fields distinct_delete le_diff_conv)
qed

definition starting :: "'k node \<Rightarrow> bool" where
  "starting = (\<lambda>(cx, conns). cx_lease cx = new_lease \<and> cx_peers cx = [] \<and> conns = [])"

interpretation node_sys: invariant_system starting "node_step ho su so os" node_ok for ho su so os
proof
  show "node_ok s" if "starting s" for s :: "'a node"
    using that by (auto simp: starting_def node_ok_def lease_kept_def leased_def new_lease_def peer_count_def peer_load_def)
  show "node_ok t" if "node_ok s" "node_step ho su so os s t" for s t using node_step_ok that by blast
qed

text \<open>
  C24. Whatever clients do, in any order and whenever their connections break: a worker that loads or
  serves a stage does so for a route that one of its open connections holds, so its lease ends with
  that connection; it has at most sixteen control connections, and at most four of one peer.
\<close>

theorem leased_worker_has_holder:
  assumes "(node_step ho su so os)\<^sup>*\<^sup>* (cx0, []) (cx, conns)" "cx_lease cx0 = new_lease" "cx_peers cx0 = []"
  shows "(wl_state (cx_lease cx) \<in> {Loading, Serving} \<longrightarrow>
        (\<exists>c cn. map_of conns c = Some cn \<and> cn_held cn = sr_route_id (wl_request (cx_lease cx))))
    \<and> length conns \<le> 16 \<and> (\<forall>peer. peer \<noteq> [] \<longrightarrow> length (filter (\<lambda>(_, cn). cn_peer cn = peer) conns) \<le> 4)"
proof -
  have "starting (cx0, [])" using assms(2,3) by (simp add: starting_def)
  from node_sys.reachable_inv[OF this assms(1)] show ?thesis
    unfolding node_ok_def lease_kept_def leased_def max_connections_def per_peer_connections_def peer_load_def prod.case
    by blast
qed

text \<open>A worker with one model, 2 GiB and nothing loaded, and its machine.\<close>

definition demo_host :: "(nat \<Rightarrow> nat, nat \<Rightarrow> frame list) host" where
  "demo_host = \<lparr>ho_env = (\<lambda>_. \<lparr>en_curl = (\<lambda>_ _ _. Inl ''offline''), en_sha256 = (\<lambda>_. []), en_ok = (\<lambda>_. True),
       en_space = None, en_blocks = (\<lambda>_. 0)\<rparr>),
     ho_model = (\<lambda>_ _ _ _. None), ho_context = (\<lambda>_ _ _ _ _. None), ho_free_mib = (\<lambda>_. 2048), ho_entries = (\<lambda>_. []),
     ho_net_status = (\<lambda>_. None), ho_unix_ms = (\<lambda>_. 0), ho_unix_s = (\<lambda>_. 0), ho_computing = (\<lambda>_. False),
     ho_idle_s = (\<lambda>_. 0)\<rparr>"

definition demo_catalog :: "(string \<times> manifest \<times> model_index) list" where
  "demo_catalog = [(replicate 64 (CHR ''a''), \<lparr>mf_model_id = ''small'', mf_architecture = ''qwen2'', mf_layers = 2,
     mf_hidden = 8, mf_context = 512, mf_quality_tier = 1, mf_url = [], mf_revision = [], mf_sha256 = []\<rparr>, small_model)]"

definition demo_serve :: "(nat \<Rightarrow> nat) serve_context" where
  "demo_serve = \<lparr>cx_worker = shared_worker\<lparr>wr_held := None\<rparr>, cx_lease = new_lease, cx_catalog = demo_catalog,
     cx_hello = fresh_capability\<lparr>pc_offered_vram_mib := 4096, pc_max_context := 512, pc_max_sessions := 2\<rparr>,
     cx_cache_dir = ''cache'', cx_prefill_chunk = 64, cx_holds_layers = False, cx_vocab = None, cx_draft = None,
     cx_loaded = None, cx_cached_hint = None, cx_peers = [], cx_replica_owner = False, cx_speed = 0, cx_speeds = [],
     cx_finished_tokens = 0, cx_finished_requests = 0, cx_routes_served = 0,
     cx_files = (\<lambda>_. \<lparr>cf_model = None, cf_ranges = None, cf_partial = None\<rparr>)\<rparr>"

definition demo_reservation :: stage_request where
  "demo_reservation = fresh_request\<lparr>sr_route_id := replicate 32 (CHR ''1''), sr_model_sha256 := replicate 64 (CHR ''A''),
     sr_begin := 0, sr_end := 1, sr_context := 100, sr_sessions := 1, sr_lease_ms := 5000\<rparr>"

lemma demo_opened:
  "\<exists>cn cx w. open_connection demo_host scripted 8 [] demo_serve (script (\<lambda>_. [])) = Some (True, cn, cx, w)"
proof -
  obtain hello cx where greeted: "greeting_of demo_host (steady scripted (script (\<lambda>_. []))) (io_world (script (\<lambda>_. [])))
      (demo_serve\<lparr>cx_peers := [([], 1)]\<rparr>) = (hello, cx)" by fastforce
  then have "hello = (cx_hello demo_serve)\<lparr>pc_offered_vram_mib := 2048, pc_state := ''available'',
      pc_f16_activations := True, pc_fp8_activations := True\<rparr>"
    by (auto simp: greeting_of_def state_at_def expire_locked_def demo_serve_def new_lease_def demo_catalog_def
        cached_ranges_def demo_host_def measured_links_def available_mib_def fresh_capability_def List.map_filter_def Let_def)
  then have "length (bytes_of (available_message hello 0)) \<le> 100000"
    by (simp add: available_message_def demo_serve_def fresh_capability_def line_of_def opt_line_def bytes_of_def
        activations_text_def dec_u64_def dec_u32_def dec.simps)
  with greeted show ?thesis
    by (auto simp: open_connection_def admit_peer_def peer_count_def demo_serve_def demo_host_def)
qed

theorem leased_worker_has_holder_witness:
  "\<exists>cx conns. (node_step demo_host counting_setup scripted demo_os)\<^sup>*\<^sup>* (demo_serve, []) (cx, conns) \<and> conns \<noteq> []
    \<and> length conns \<le> 16 \<and> (wl_state (cx_lease cx) \<in> {Loading, Serving} \<longrightarrow>
        (\<exists>c cn. map_of conns c = Some cn \<and> cn_held cn = sr_route_id (wl_request (cx_lease cx))))"
proof -
  obtain cn cx w where "open_connection demo_host scripted 8 [] demo_serve (script (\<lambda>_. [])) = Some (True, cn, cx, w)"
    using demo_opened by blast
  then have "node_step demo_host counting_setup scripted demo_os (demo_serve, []) (cx, [(8, cn)])"
    by (intro node_step.opened) (simp_all add: max_connections_def)
  then have reach: "(node_step demo_host counting_setup scripted demo_os)\<^sup>*\<^sup>* (demo_serve, []) (cx, [(8, cn)])" ..
  have "cx_lease demo_serve = new_lease" "cx_peers demo_serve = []" by (simp_all add: demo_serve_def)
  note held = conjunct1[OF leased_worker_has_holder[OF reach this]]
  show ?thesis by (rule exI[of _ cx], rule exI[of _ "[(8, cn)]"], intro conjI reach held) simp_all
qed

section \<open>Reservations\<close>

lemma largest_rows_context: "unat (largest_rows cx request) \<le> unat (sr_context request)"
  by (auto simp: largest_rows_def min_def word_le_nat_alt)

lemma frame_size_checked:
  assumes "r * h * 4 \<le> word_of_nat (max_payload - 8)" "unat r \<le> u32_max" "unat h < 2 ^ 30"
  shows "8 + unat (r :: u64) * unat h * 4 \<le> max_payload"
proof -
  have "unat r * unat h \<le> u32_max * 2 ^ 30" using assms(2,3) by (intro mult_le_mono) auto
  then have first: "unat (r * h) = unat r * unat h" by (intro unat_mult_u64) simp
  have "unat (r * h * 4) = unat (r * h) * unat (4 :: u64)"
    using \<open>unat r * unat h \<le> u32_max * 2 ^ 30\<close> first by (intro unat_mult_u64) simp
  with assms(1) first show ?thesis by (simp add: word_le_nat_alt max_payload_def)
qed

lemma accepted_frames_fit:
  assumes "reservation_problem ho w cx request = None"
    "map_of (cx_catalog cx) (lowercase (sr_model_sha256 request)) = Some (mf, m)" "unat (mi_hidden m) < 2 ^ 30"
    and rows: "rows \<le> unat (largest_rows cx request)"
    and part: "sr_begin request = 0" "sr_end request < sint (mi_layers m)"
  shows "8 + rows * unat (mi_hidden m) * 4 \<le> max_payload"
proof -
  have "largest_rows cx request * ucast (mi_hidden m) * 4 \<le> word_of_nat (max_payload - 8)"
    using assms(1,2) part by (auto simp: reservation_problem_def Let_def not_less split: if_splits)
  then have "8 + unat (largest_rows cx request) * unat (mi_hidden m) * 4 \<le> max_payload"
    using frame_size_checked[of "largest_rows cx request" "ucast (mi_hidden m)"] largest_rows_context[of cx request]
      unat_u32_le[of "sr_context request"] assms(3) by simp
  then show ?thesis using rows by (meson add_left_mono le_trans mult_le_mono1)
qed


lemma demo_sha: "lowercase (sr_model_sha256 demo_reservation) = replicate 64 (CHR ''a'')"
  by code_simp

lemma demo_reservation_accepted: "reservation_problem demo_host w demo_serve demo_reservation = None"
proof -
  have "stage_fits small_model 2048 0 1 100 1 \<noteq> None" by code_simp
  with demo_sha show ?thesis
    by (simp add: reservation_problem_def demo_serve_def demo_catalog_def demo_host_def available_mib_def largest_rows_def
        demo_reservation_def fresh_request_def fresh_capability_def small_model_def max_speculative_width_def max_payload_def Let_def)
qed


end
