(* ===== verification/Spec2Isabelle.thy ===== *)
theory Spec2Isabelle
  imports Fair_Queue Index_File Speculation Upgrade Activations Selection Placement
    Client_Sessions Stage_Client Isolation Serve_Mode
begin

text \<open>
  A verification library of DAN, a program that serves one large language model from the GPUs of
  several machines. Each machine runs a worker (\<^verbatim>\<open>engine/stage_worker.cpp\<close>) that loads a
  contiguous range of the model's layers, a stage. A client finds workers through its local
  sidecar, plans which worker takes which layers, reserves them, has the stages loaded and then
  sends prompts and tokens; hidden states travel from stage to stage, through the client (hub
  mode) or around a ring of the stages themselves. File names below are relative to
  \<^verbatim>\<open>src/\<close>; headers are in \<^verbatim>\<open>engine/include/provider_owned/\<close>.

  \<^bold>\<open>Shared theories.\<close>
  \<^item> \<open>Prelude\<close>: widths of the C++ integers, the string and number functions of the C++
    standard library that the sources use, and the contracts the components share as locales:
    \<open>invariant_system\<close> (a step relation with an invariant), \<open>bounded_table\<close> (a table that
    keeps its most recent entries) and \<open>running_best\<close> (a loop that keeps the best so far).
  \<^item> \<open>Message_Lines\<close>: the \<^verbatim>\<open>key=value\<close> line messages with the locale
    \<open>line_codec\<close>, interpreted for ring routes, stage requests and stage assignments.
  \<^item> \<open>Floats\<close>: \<^verbatim>\<open>double\<close> values as finite rationals rounded to 53 bits, with
    infinities and NaN where the code can meet them.

  \<^bold>\<open>Wire and connections.\<close>
  \<^item> \<open>Protocol\<close> (\<^verbatim>\<open>protocol.hpp\<close>): frames, the header codec, the send and receive
    loops; frames cross a socket unchanged and a frame is consumed exactly.
  \<^item> \<open>Ring_Route\<close> (\<^verbatim>\<open>protocol.hpp\<close>, \<^verbatim>\<open>route.hpp\<close>): PeerIDs, ring targets and
    the route a stage gets with a session.
  \<^item> \<open>Activations\<close> (\<^verbatim>\<open>activations.hpp\<close>): sizes of activation payloads and the e4m3
    format with its scaled rows.
  \<^item> \<open>Connection\<close> (\<^verbatim>\<open>engine/client.cpp\<close>): actions over sockets, opening and
    listening, and accepting the ring's return connection.

  \<^bold>\<open>Finding and loading a route.\<close>
  \<^item> \<open>Manifest\<close> (\<^verbatim>\<open>engine/manifest.cpp\<close>): the JSON reader and the pinned models.
  \<^item> \<open>Gguf_Index\<close>, \<open>Range_Cache\<close>, \<open>Range_Download\<close>, \<open>Index_File\<close>
    (\<^verbatim>\<open>engine/range_model.cpp\<close>): parsing a model's header, the byte ranges a stage needs,
    downloading them into a sparse file with its cache file, and the index kept on disk.
  \<^item> \<open>Measurement\<close>, \<open>Formation\<close>, \<open>Lease\<close> (\<^verbatim>\<open>measurement.hpp\<close>,
    \<^verbatim>\<open>formation.hpp\<close>, \<^verbatim>\<open>lease.hpp\<close>): speeds a worker has seen, its greeting, and
    the lease by which one client holds it.
  \<^item> \<open>Planner\<close> (\<^verbatim>\<open>engine/planner.cpp\<close>), \<open>Search_Split\<close> and \<open>Search\<close>
    (\<^verbatim>\<open>engine/search.cpp\<close>), \<open>Selection\<close> (\<^verbatim>\<open>engine/selection.cpp\<close>),
    \<open>Upgrade\<close> (\<^verbatim>\<open>upgrade.hpp\<close>): which stages fit which workers, the search for the
    fastest plan, the policy that picks one and when a replica gives way to a better one.
  \<^item> \<open>Discovery\<close>, \<open>Placement_Plan\<close>, \<open>Placement\<close>
    (\<^verbatim>\<open>engine/placement.cpp\<close>): the sidecar protocol, planning over greeted workers, and the
    rounds of reserving, releasing and loading.

  \<^bold>\<open>Running requests.\<close>
  \<^item> \<open>Fair_Queue\<close> (\<^verbatim>\<open>fair_queue.hpp\<close>): the bounded round-robin queue of requests.
  \<^item> \<open>Speculation\<close> (\<^verbatim>\<open>speculation.hpp\<close>): which guesses a verified batch commits and
    the search for a useful number of guesses.
  \<^item> \<open>Client\<close> (\<^verbatim>\<open>engine/client.cpp\<close>, lines 241 to 716): the checks on replies, one
    step through the stages or around the ring, speculative rounds, the streamed modes, and the
    end of a request. \<open>Client_Sessions\<close> (lines 718 to 986): class
    \<^verbatim>\<open>InferenceClient\<close> with its sessions.
  \<^item> \<open>Stage\<close> (\<^verbatim>\<open>engine/stage_worker.cpp\<close>, class \<^verbatim>\<open>Stage\<close>): the handler of
    every frame a worker receives, with sessions, KV sequences and positions. \<open>Drafting\<close>:
    batches of several sessions, guesses of a draft model or by lookup, speculative rounds and
    what a verified round commits.
  \<^item> \<open>Stage_Client\<close>: the two sides together.

  \<^bold>\<open>A worker on the network\<close> (\<^verbatim>\<open>engine/stage_worker.cpp\<close>).
  \<^item> \<open>Ring_Links\<close>: handshakes, dialling a neighbour, binding and releasing a route, admitting a
    predecessor. \<open>Decode_Loop\<close>: the last stage streams tokens to the client and feeds them back.
  \<^item> \<open>Worker_Turns\<close>: one turn of the ring thread (\<^verbatim>\<open>run_ring\<close>) and of the control thread
    (\<^verbatim>\<open>serve_control\<close>), and the loops around them. \<open>Isolation\<close>: a turn of one session leaves
    every other session of the worker as it was, and a failed frame fails its own session only.
  \<^item> \<open>Vocab\<close> (\<^verbatim>\<open>vocab_compat.hpp\<close>): when a draft model may guess for a main model.
  \<^item> \<open>Serve_Mode\<close>: greeting, reservation, loading and serving on a control connection, as a step
    relation over any number of connections.

  \<^bold>\<open>How the model is written.\<close> A C++ struct is a record whose fields keep the C++ names after
  a short prefix; integers keep their width as words, and \<^verbatim>\<open>int\<close> is \<^typ>\<open>int\<close>
  where it cannot overflow. A thrown exception is \<^const>\<open>Inl\<close> with its text, or
  \<^const>\<open>None\<close> where the code only signals failure. An operation under a mutex is one step.
  The operating system, the sidecar, other machines, the clock, random draws, the download and
  digest programs and the model library are arguments; what a theorem needs of them is one of its
  hypotheses, and its witness gives a concrete instance.

  \<^bold>\<open>What the lemmas show.\<close> Codecs have round trips, also with the messages cut into arbitrary
  segments. Planners and the search are sound (a plan covers every layer once and fits each
  worker) and, where the code claims it, optimal or complete. Downloads assemble exactly the bytes
  a stage needs. The lease, the queue, the adaptive width, the client's sessions and the stage are
  step relations with invariants over all reachable states. The token loop returns, never answers
  more than it was asked for, and a speculative round keeps only tokens the target model chose.
  Guesses of the first stage reach the last one unchanged, a streamed answer ends within its budget,
  sessions of a worker do not touch each other, a leased worker always has an open connection that
  will give the lease back, and a reservation that is accepted fits the memory and the wire.

  \<^bold>\<open>Bounds and fuel.\<close> The GGUF reader stops at the depth of nested arrays where the code
  does; the loops that double a 32-bit number (buckets of the speed table, the context ladder) carry
  fuel that their exit lemmas show to be enough; \<open>decode_loop\<close> has a termination proof whose measure is the
  number of tokens still wanted, and \<open>continue_loop\<close> one whose measure is the budget left over all
  streams. \<open>stream_loop\<close>, \<open>accept_ring_return\<close>, \<open>dial_ring_target\<close>, \<open>serve_predecessor\<close>,
  \<open>run_ring\<close>, \<open>serve_client\<close> and \<open>connection_turns\<close> wait for a peer or a clock that may
  keep them for ever, so they are partial functions into \<^typ>\<open>'a option\<close>. The precision of \<^verbatim>\<open>long double\<close> differs between platforms and is
  the argument \<open>prec\<close>.

  \<^bold>\<open>Not modelled.\<close> Of \<^verbatim>\<open>engine/stage_worker.cpp\<close>: option parsing, devices,
  \<^verbatim>\<open>main\<close>, the status writer and the dashboard threads, and the text of the metrics. The programs
  \<^verbatim>\<open>engine/coordinator.cpp\<close>, \<^verbatim>\<open>engine/replica_owner.cpp\<close>,
  \<^verbatim>\<open>engine/provider_launcher.cpp\<close> and \<^verbatim>\<open>engine/dan_client.cpp\<close> (their option parsing,
  threads, processes and reports around the modelled components), \<^verbatim>\<open>chat.hpp\<close> (calls into the
  template and JSON code of the model library), \<^verbatim>\<open>platform/\<close> (operating system calls),
  \<^verbatim>\<open>legacy/\<close> (the older engine), the user interface, and everything not written in C++. Elapsed
  times in reports, receive time-outs and log lines are left out: a time-out only turns a silent peer
  into a failed receive, which the socket model already has.
\<close>

end
